(* ===== verification/Rust_Prelude.thy ===== *)
theory Rust_Prelude
  imports Main "HOL-Library.Word"
begin

text \<open>
  The vocabulary the component theories share: Rust's integer and string types, the four ways a
  call can end, the sequencing of stateful calls, and the collections of facts the component
  proofs draw on.

  A \<open>String\<close> is the list of its Unicode scalar values (natural numbers), because the packet
  parser walks over \<open>chars()\<close>; a \<open>Bytes\<close> or \<open>Vec<u8>\<close> is a list of 8-bit words.
\<close>

type_synonym u8 = "8 word"
type_synonym u16 = "16 word"
type_synonym u64 = "64 word"
type_synonym i32 = "32 word"
type_synonym bytes = "u8 list"
type_synonym rstring = "nat list"

named_theorems defs \<open>definitions a component unfolds for simplification\<close>
named_theorems frame \<open>fields an operation leaves alone\<close>

definition lit :: "string \<Rightarrow> rstring" where
  "lit s = map of_char s"

definition ascii :: "string \<Rightarrow> bytes" where
  "ascii s = map of_char s"

lemma lit_simps [simp]: "lit [] = []" "lit (c # cs) = of_char c # lit cs"
  by (simp_all add: lit_def)

lemma ascii_simps [simp]: "ascii [] = []" "ascii (c # cs) = of_char c # ascii cs"
  by (simp_all add: ascii_def)

section \<open>How a call ends\<close>

text \<open>
  \<open>Ok\<close> and \<open>Err\<close> are the two values of \<open>Result\<close>. \<open>Panic\<close> is a Rust panic (an \<open>unwrap\<close> on an
  error, an index out of range, \<open>unreachable!\<close>, an overflow in a build with overflow checks).
  \<open>Block\<close> is a call that does not return: the network never answers, or a mutex is locked by the
  thread that already holds it.
\<close>

datatype ('e, 'a) outcome = Ok 'a | Err 'e | Panic | Block

type_synonym ('s, 'e, 'a) proc = "'s \<Rightarrow> ('e, 'a) outcome \<times> 's"

fun lift_result :: "'e + 'a \<Rightarrow> ('e, 'a) outcome" where
  "lift_result (Inl e) = Err e"
| "lift_result (Inr x) = Ok x"

fun map_err :: "('e \<Rightarrow> 'f) \<Rightarrow> ('e, 'a) outcome \<Rightarrow> ('f, 'a) outcome" where
  "map_err f (Ok x) = Ok x"
| "map_err f (Err e) = Err (f e)"
| "map_err f Panic = Panic"
| "map_err f Block = Block"

text \<open>\<open>m?; k\<close>: go on with the value of an \<open>Ok\<close>, return everything else to the caller.\<close>

definition seq :: "('s, 'e, 'a) proc \<Rightarrow> ('a \<Rightarrow> ('s, 'e, 'b) proc) \<Rightarrow> ('s, 'e, 'b) proc" where
  "seq m k = (\<lambda>s. case m s of
       (Ok x, t) \<Rightarrow> k x t
     | (Err e, t) \<Rightarrow> (Err e, t)
     | (Panic, t) \<Rightarrow> (Panic, t)
     | (Block, t) \<Rightarrow> (Block, t))"

text \<open>\<open>let _ = m;\<close>: the \<open>Result\<close> is dropped, a panic or a blocked call is not.\<close>

definition ignore :: "('s, 'e, 'a) proc \<Rightarrow> ('s, 'e, unit) proc" where
  "ignore m = (\<lambda>s. case m s of
       (Ok x, t) \<Rightarrow> (Ok (), t)
     | (Err e, t) \<Rightarrow> (Ok (), t)
     | (Panic, t) \<Rightarrow> (Panic, t)
     | (Block, t) \<Rightarrow> (Block, t))"

text \<open>A step that only changes the state.\<close>

definition modify :: "('s \<Rightarrow> 's) \<Rightarrow> ('s, 'e, unit) proc" where
  "modify f = (\<lambda>s. (Ok (), f s))"

definition give :: "('e, 'a) outcome \<Rightarrow> ('s, 'e, 'a) proc" where
  "give r = (\<lambda>s. (r, s))"

lemma seq_simps [simp]:
  "m s = (Ok x, t) \<Longrightarrow> seq m k s = k x t"
  "m s = (Err e, t) \<Longrightarrow> seq m k s = (Err e, t)"
  "m s = (Panic, t) \<Longrightarrow> seq m k s = (Panic, t)"
  "m s = (Block, t) \<Longrightarrow> seq m k s = (Block, t)"
  by (simp_all add: seq_def)

lemma ignore_simps [simp]:
  "m s = (Ok x, t) \<Longrightarrow> ignore m s = (Ok (), t)"
  "m s = (Err e, t) \<Longrightarrow> ignore m s = (Ok (), t)"
  "m s = (Panic, t) \<Longrightarrow> ignore m s = (Panic, t)"
  "m s = (Block, t) \<Longrightarrow> ignore m s = (Block, t)"
  by (simp_all add: ignore_def)

lemma modify_apply [simp]: "modify f s = (Ok (), f s)"
  by (simp add: modify_def)

lemma give_apply [simp]: "give r s = (r, s)"
  by (simp add: give_def)

lemma seq_OkE:
  assumes "seq m k s = (Ok y, u)"
  obtains x t where "m s = (Ok x, t)" "k x t = (Ok y, u)"
  using assms by (auto simp: seq_def split: prod.splits outcome.splits)

lemma snd_ignore [simp]: "snd (ignore m s) = snd (m s)"
  by (simp add: ignore_def split: prod.splits outcome.splits)

lemma snd_seq_cases:
  "snd (seq m k s) = snd (m s) \<or> (\<exists>x. m s = (Ok x, snd (m s)) \<and> snd (seq m k s) = snd (k x (snd (m s))))"
  by (cases "m s"; cases "fst (m s)") (auto simp: seq_def)

text \<open>An invariant of the state that every part keeps is kept by the whole.\<close>

definition keeps :: "('s \<Rightarrow> bool) \<Rightarrow> ('s, 'e, 'a) proc \<Rightarrow> bool" where
  "keeps I m \<longleftrightarrow> (\<forall>s. I s \<longrightarrow> I (snd (m s)))"

lemma keepsI: "(\<And>s. I s \<Longrightarrow> I (snd (m s))) \<Longrightarrow> keeps I m"
  by (simp add: keeps_def)

lemma keepsD: "keeps I m \<Longrightarrow> I s \<Longrightarrow> I (snd (m s))"
  by (simp add: keeps_def)

lemma keeps_seq [intro]: "keeps I m \<Longrightarrow> (\<And>x. keeps I (k x)) \<Longrightarrow> keeps I (seq m k)"
  unfolding keeps_def using snd_seq_cases [of m k] by metis

lemma keeps_ignore [intro]: "keeps I m \<Longrightarrow> keeps I (ignore m)"
  by (simp add: keeps_def)

lemma keeps_give [intro, simp]: "keeps I (give r)"
  by (simp add: keeps_def)

section \<open>Lists\<close>

lemma set_concat_map_not: "(\<And>x. x \<in> set xs \<Longrightarrow> c \<notin> set (f x)) \<Longrightarrow> c \<notin> set (concat (map f xs))"
  by auto

lemma dropWhile_append_stop:
  "(\<And>x. x \<in> set xs \<Longrightarrow> P x) \<Longrightarrow> \<not> P y \<Longrightarrow> dropWhile P (xs @ y # ys) = y # ys"
  by (simp add: dropWhile_append)

lemma takeWhile_append_stop:
  "(\<And>x. x \<in> set xs \<Longrightarrow> P x) \<Longrightarrow> \<not> P y \<Longrightarrow> takeWhile P (xs @ y # ys) = xs"
  by (simp add: takeWhile_append)

end
