(* ===== verification/Rust_Text.thy ===== *)
theory Rust_Text
  imports Rust_Prelude
begin

text \<open>
  What the source uses of Rust's standard library on text: \<open>String::from_utf8\<close> and \<open>as_bytes\<close>
  (UTF-8 both ways), \<open>to_string\<close> and \<open>parse\<close> on the integer types that occur in packets
  (\<open>u8\<close> and \<open>i32\<close>), \<open>to_lowercase\<close>, \<open>replace\<close>, \<open>starts_with\<close>.
\<close>

section \<open>UTF-8\<close>

text \<open>A \<open>char\<close> is a Unicode scalar value: not a surrogate, at most \<open>0x10FFFF\<close>.\<close>

definition scalar :: "nat \<Rightarrow> bool" where
  "scalar c \<longleftrightarrow> c < 55296 \<or> (57344 \<le> c \<and> c < 1114112)"

definition utf8_char :: "nat \<Rightarrow> nat list" where
  "utf8_char c =
     (if c < 128 then [c]
      else if c < 2048 then [192 + c div 64, 128 + c mod 64]
      else if c < 65536 then [224 + c div 4096, 128 + c div 64 mod 64, 128 + c mod 64]
      else [240 + c div 262144, 128 + c div 4096 mod 64, 128 + c div 64 mod 64, 128 + c mod 64])"

definition utf8 :: "rstring \<Rightarrow> bytes" where
  "utf8 s = map word_of_nat (concat (map utf8_char s))"

definition cont :: "nat \<Rightarrow> bool" where
  "cont b \<longleftrightarrow> 128 \<le> b \<and> b < 192"

fun utf8_scan :: "nat list \<Rightarrow> rstring option" where
  "utf8_scan [] = Some []"
| "utf8_scan (a # r) =
     (if a < 128 then map_option (Cons a) (utf8_scan r)
      else if 194 \<le> a \<and> a < 224 then
        (case r of b # r' \<Rightarrow>
           if cont b then map_option (Cons ((a - 192) * 64 + (b - 128))) (utf8_scan r') else None
         | _ \<Rightarrow> None)
      else if 224 \<le> a \<and> a < 240 then
        (case r of b # c # r' \<Rightarrow>
           let v = (a - 224) * 4096 + (b - 128) * 64 + (c - 128) in
           if cont b \<and> cont c \<and> 2048 \<le> v \<and> scalar v
           then map_option (Cons v) (utf8_scan r') else None
         | _ \<Rightarrow> None)
      else if 240 \<le> a \<and> a < 245 then
        (case r of b # c # d # r' \<Rightarrow>
           let v = (a - 240) * 262144 + (b - 128) * 4096 + (c - 128) * 64 + (d - 128) in
           if cont b \<and> cont c \<and> cont d \<and> 65536 \<le> v \<and> scalar v
           then map_option (Cons v) (utf8_scan r') else None
         | _ \<Rightarrow> None)
      else None)"

text \<open>\<open>String::from_utf8\<close>: \<open>None\<close> stands for the \<open>Utf8Error\<close>.\<close>

definition from_utf8 :: "bytes \<Rightarrow> rstring option" where
  "from_utf8 bs = utf8_scan (map unat bs)"

lemma horner64:
  fixes x y :: nat
  assumes "y < 64"
  shows "(x * 64 + y) div 64 = x" "(x * 64 + y) mod 64 = y"
  using assms by simp_all

lemma div_powers_64: "n div 4096 = n div 64 div 64" "n div 262144 = n div 64 div 64 div 64" for n :: nat
  by (simp_all add: div_mult2_eq [symmetric])

lemma digits3: "c div 4096 * 4096 + c div 64 mod 64 * 64 + c mod 64 = c" for c :: nat
proof -
  have "c div 64 div 64 * 64 + c div 64 mod 64 = c div 64" by simp
  moreover have "c div 64 * 64 + c mod 64 = c" by simp
  ultimately show ?thesis unfolding div_powers_64 by linarith
qed

lemma digits4:
  "c div 262144 * 262144 + c div 4096 mod 64 * 4096 + c div 64 mod 64 * 64 + c mod 64 = c" for c :: nat
proof -
  have "c div 64 div 64 div 64 * 64 + c div 64 div 64 mod 64 = c div 64 div 64" by simp
  moreover have "c div 64 div 64 * 64 + c div 64 mod 64 = c div 64" by simp
  moreover have "c div 64 * 64 + c mod 64 = c" by simp
  ultimately show ?thesis unfolding div_powers_64 by linarith
qed

lemma utf8_char_lt: "scalar c \<Longrightarrow> b \<in> set (utf8_char c) \<Longrightarrow> b < 256"
  by (auto simp: utf8_char_def scalar_def split: if_splits)

lemma utf8_scan_char: "scalar c \<Longrightarrow> utf8_scan (utf8_char c @ r) = map_option (Cons c) (utf8_scan r)"
proof -
  assume c: "scalar c"
  consider "c < 128" | "128 \<le> c" "c < 2048" | "2048 \<le> c" "c < 65536" | "65536 \<le> c"
    by linarith
  then show ?thesis
  proof cases
    case 1
    then show ?thesis by (simp add: utf8_char_def)
  next
    case 2
    then have "194 \<le> 192 + c div 64" "192 + c div 64 < 224" by auto
    with 2 show ?thesis by (auto simp: utf8_char_def cont_def)
  next
    case 3
    have "224 + c div 4096 < 240" using 3 by auto
    with 3 c show ?thesis by (auto simp: utf8_char_def cont_def Let_def digits3)
  next
    case 4
    have "c < 1114112" using c by (auto simp: scalar_def)
    then have "240 + c div 262144 < 245" by auto
    with 4 c show ?thesis by (auto simp: utf8_char_def cont_def Let_def digits4)
  qed
qed

lemma utf8_scan_concat:
  "(\<And>c. c \<in> set s \<Longrightarrow> scalar c) \<Longrightarrow> utf8_scan (concat (map utf8_char s)) = Some s"
  by (induction s) (auto simp: utf8_scan_char)

lemma unat_utf8:
  assumes "\<And>c. c \<in> set s \<Longrightarrow> scalar c"
  shows "map unat (utf8 s) = concat (map utf8_char s)"
proof -
  have "unat (word_of_nat b :: u8) = b" if "b \<in> set (concat (map utf8_char s))" for b
  proof -
    from that assms have "b < 256" by (auto dest: utf8_char_lt)
    then show ?thesis by (simp add: unat_of_nat)
  qed
  then show ?thesis by (simp add: utf8_def map_idI del: set_concat set_map)
qed

lemma from_utf8_utf8: "(\<And>c. c \<in> set s \<Longrightarrow> scalar c) \<Longrightarrow> from_utf8 (utf8 s) = Some s"
  by (simp add: from_utf8_def unat_utf8 utf8_scan_concat)

lemma from_utf8_utf8_Ball: "\<forall>c \<in> set s. scalar c \<Longrightarrow> from_utf8 (utf8 s) = Some s"
  by (simp add: from_utf8_utf8)

lemma utf8_append [simp]: "utf8 (s @ t) = utf8 s @ utf8 t"
  by (simp add: utf8_def)

lemma utf8_Nil [simp]: "utf8 [] = []"
  by (simp add: utf8_def)

lemma utf8_Cons: "utf8 (c # s) = map word_of_nat (utf8_char c) @ utf8 s"
  by (simp add: utf8_def)

lemma utf8_ascii [simp]: "c < 128 \<Longrightarrow> utf8 (c # s) = word_of_nat c # utf8 s"
  by (simp add: utf8_def utf8_char_def)

text \<open>Only an ASCII character puts an ASCII byte into the encoding.\<close>

lemma utf8_ascii_byte:
  assumes "\<And>c. c \<in> set s \<Longrightarrow> scalar c" and "b < 128"
  shows "word_of_nat b \<in> set (utf8 s) \<longleftrightarrow> b \<in> set s"
proof -
  have inj: "word_of_nat b \<in> set (utf8 s) \<longleftrightarrow> b \<in> set (map unat (utf8 s))"
    using assms(2) by (force simp: unat_of_nat)
  have "b \<in> set (utf8_char c) \<longleftrightarrow> b = c" if "scalar c" for c
    using that assms(2) by (auto simp: utf8_char_def scalar_def)
  then show ?thesis
    using assms(1) by (simp add: inj unat_utf8 del: set_map) auto
qed

lemma utf8_pair:
  assumes "194 \<le> a" "a < 224" "cont b"
  shows "utf8_char ((a - 192) * 64 + (b - 128)) = [a, b] \<and> scalar ((a - 192) * 64 + (b - 128))"
proof -
  define i j where "i = a - 192" "j = b - 128"
  with assms have "a = 192 + i" "b = 128 + j" "2 \<le> i" "i < 32" "j < 64"
    by (auto simp: cont_def)
  then show ?thesis by (simp add: utf8_char_def scalar_def)
qed

lemma utf8_triple:
  assumes "224 \<le> a" "a < 240" "cont b" "cont c"
    and "2048 \<le> (a - 224) * 4096 + (b - 128) * 64 + (c - 128)"
  shows "utf8_char ((a - 224) * 4096 + (b - 128) * 64 + (c - 128)) = [a, b, c]"
proof -
  define i j k where "i = a - 224" "j = b - 128" "k = c - 128"
  with assms have e: "a = 224 + i" "b = 128 + j" "c = 128 + k" and l: "i < 16" "j < 64" "k < 64"
    by (auto simp: cont_def)
  define n where "n = (i * 64 + j) * 64 + k"
  have d: "n div 64 = i * 64 + j" "n mod 64 = k" "n div 4096 = i" "n div 64 mod 64 = j"
    unfolding n_def div_powers_64 using l by (simp_all only: horner64)
  have n: "(a - 224) * 4096 + (b - 128) * 64 + (c - 128) = n" "n < 65536"
    unfolding n_def e using l by simp_all
  then show ?thesis using assms(5) d(2-4) by (simp add: utf8_char_def e)
qed

lemma utf8_quad:
  assumes "240 \<le> a" "a < 245" "cont b" "cont c" "cont d"
    and "65536 \<le> (a - 240) * 262144 + (b - 128) * 4096 + (c - 128) * 64 + (d - 128)"
  shows "utf8_char ((a - 240) * 262144 + (b - 128) * 4096 + (c - 128) * 64 + (d - 128)) = [a, b, c, d]"
proof -
  define i j k l where "i = a - 240" "j = b - 128" "k = c - 128" "l = d - 128"
  with assms have e: "a = 240 + i" "b = 128 + j" "c = 128 + k" "d = 128 + l"
    and b: "j < 64" "k < 64" "l < 64"
    by (auto simp: cont_def)
  define n where "n = ((i * 64 + j) * 64 + k) * 64 + l"
  have d: "n mod 64 = l" "n div 262144 = i" "n div 4096 mod 64 = j" "n div 64 mod 64 = k"
    unfolding n_def div_powers_64 using b by (simp_all only: horner64)
  have n: "(a - 240) * 262144 + (b - 128) * 4096 + (c - 128) * 64 + (d - 128) = n"
    unfolding n_def e by simp
  with assms(6) d show ?thesis by (simp add: utf8_char_def e)
qed

text \<open>Decoding accepts only what encoding produces: \<open>from_utf8\<close> is exact.\<close>

lemma utf8_scan_sound:
  "utf8_scan bs = Some s \<Longrightarrow> (\<forall>c \<in> set s. scalar c) \<and> concat (map utf8_char s) = bs"
proof (induction bs arbitrary: s rule: utf8_scan.induct)
  case 1
  then show ?case by simp
next
  case (2 a r)
  note prems = "2.prems" and IH = "2.IH"
  consider "a < 128" | "194 \<le> a" "a < 224" | "224 \<le> a" "a < 240" | "240 \<le> a" "a < 245"
    | "a \<ge> 128" "a < 194" | "a \<ge> 245"
    by linarith
  then show ?case
  proof cases
    case 1
    with prems IH(1) show ?thesis by (auto simp: scalar_def utf8_char_def)
  next
    case 2
    with prems obtain b r' s' where r: "r = b # r'" "cont b" "utf8_scan r' = Some s'"
      and s: "s = ((a - 192) * 64 + (b - 128)) # s'"
      by (auto split: list.splits if_splits)
    have "(\<forall>c \<in> set s'. scalar c) \<and> concat (map utf8_char s') = r'"
      using IH(2) 2 r by auto
    then show ?thesis using utf8_pair [OF 2 r(2)] r s by simp
  next
    case 3
    with prems obtain b c r' s' where r: "r = b # c # r'" "cont b" "cont c" "utf8_scan r' = Some s'"
      and v: "2048 \<le> (a - 224) * 4096 + (b - 128) * 64 + (c - 128)"
        "scalar ((a - 224) * 4096 + (b - 128) * 64 + (c - 128))"
      and s: "s = ((a - 224) * 4096 + (b - 128) * 64 + (c - 128)) # s'"
      by (auto simp: Let_def split: list.splits if_splits)
    have "(\<forall>c \<in> set s'. scalar c) \<and> concat (map utf8_char s') = r'"
      using IH(3) [OF _ _ _ r(1) refl refl] 3 r v by auto
    then show ?thesis using utf8_triple [OF 3 r(2,3) v(1)] r s v(2) by simp
  next
    case 4
    with prems obtain b c d r' s' where r: "r = b # c # d # r'" "cont b" "cont c" "cont d"
        "utf8_scan r' = Some s'"
      and v: "65536 \<le> (a - 240) * 262144 + (b - 128) * 4096 + (c - 128) * 64 + (d - 128)"
        "scalar ((a - 240) * 262144 + (b - 128) * 4096 + (c - 128) * 64 + (d - 128))"
      and s: "s = ((a - 240) * 262144 + (b - 128) * 4096 + (c - 128) * 64 + (d - 128)) # s'"
      by (auto simp: Let_def split: list.splits if_splits)
    have "(\<forall>c \<in> set s'. scalar c) \<and> concat (map utf8_char s') = r'"
      using IH(4) [OF _ _ _ _ r(1) refl refl refl] 4 r v by auto
    then show ?thesis using utf8_quad [OF 4 r(2,3,4) v(1)] r s v(2) by simp
  qed (use prems in auto)
qed

lemma from_utf8_sound:
  assumes "from_utf8 bs = Some s"
  shows "\<forall>c \<in> set s. scalar c" "utf8 s = bs"
proof -
  have *: "(\<forall>c \<in> set s. scalar c) \<and> concat (map utf8_char s) = map unat bs"
    using assms utf8_scan_sound by (simp add: from_utf8_def)
  then show "\<forall>c \<in> set s. scalar c" by blast
  from * have "utf8 s = map word_of_nat (map unat bs)"
    by (simp add: utf8_def)
  also have "\<dots> = bs"
    by (induction bs) simp_all
  finally show "utf8 s = bs" .
qed

section \<open>Integers as text\<close>

definition is_ascii_digit :: "nat \<Rightarrow> bool" where
  "is_ascii_digit c \<longleftrightarrow> 48 \<le> c \<and> c \<le> 57"

fun decimal :: "nat \<Rightarrow> rstring" where
  "decimal n = (if n < 10 then [48 + n] else decimal (n div 10) @ [48 + n mod 10])"

declare decimal.simps [simp del]

definition u8_to_string :: "u8 \<Rightarrow> rstring" where
  "u8_to_string b = decimal (unat b)"

definition i32_to_string :: "i32 \<Rightarrow> rstring" where
  "i32_to_string w =
     (if sint w < 0 then of_char CHR ''-'' # decimal (nat (- sint w)) else decimal (nat (sint w)))"

definition digits_value :: "rstring \<Rightarrow> nat option" where
  "digits_value s =
     (if s \<noteq> [] \<and> list_all is_ascii_digit s
      then Some (foldl (\<lambda>a c. 10 * a + (c - 48)) 0 s) else None)"

text \<open>
  \<open>str::parse\<close> on an integer type: an optional sign (\<open>-\<close> for signed types only), at least one
  digit, and a value in range; everything else is a \<open>ParseIntError\<close>, here \<open>None\<close>.
\<close>

definition parse_u8 :: "rstring \<Rightarrow> u8 option" where
  "parse_u8 s =
     (case digits_value (case s of c # r \<Rightarrow> if c = of_char CHR ''+'' then r else s | [] \<Rightarrow> s) of
        Some n \<Rightarrow> if n < 256 then Some (word_of_nat n) else None
      | None \<Rightarrow> None)"

definition parse_i32 :: "rstring \<Rightarrow> i32 option" where
  "parse_i32 s =
     (case s of
        [] \<Rightarrow> None
      | c # r \<Rightarrow>
          if c = of_char CHR ''-'' then
            (case digits_value r of
               Some n \<Rightarrow> if n \<le> 2147483648 then Some (word_of_int (- int n)) else None
             | None \<Rightarrow> None)
          else
            (case digits_value (if c = of_char CHR ''+'' then r else s) of
               Some n \<Rightarrow> if n < 2147483648 then Some (word_of_nat n) else None
             | None \<Rightarrow> None))"

lemma decimal_ne [simp]: "decimal n \<noteq> []"
  by (subst decimal.simps) simp

lemma decimal_digits: "c \<in> set (decimal n) \<Longrightarrow> is_ascii_digit c"
proof (induction n arbitrary: c rule: decimal.induct)
  case (1 n)
  show ?case
  proof (cases "n < 10")
    case True
    with "1.prems" show ?thesis by (simp add: decimal.simps [of n] is_ascii_digit_def)
  next
    case False
    then have "n mod 10 < 10" by simp
    with False "1.prems" "1.IH" show ?thesis
      by (auto simp: decimal.simps [of n] is_ascii_digit_def)
  qed
qed

lemma decimal_value: "foldl (\<lambda>a c. 10 * a + (c - 48)) 0 (decimal n) = n"
proof (induction n rule: decimal.induct)
  case (1 n)
  then show ?case by (cases "n < 10") (auto simp: decimal.simps [of n])
qed

lemma digits_value_decimal [simp]: "digits_value (decimal n) = Some n"
  using decimal_digits by (auto simp: digits_value_def decimal_value list_all_iff)

lemma decimal_hd: "decimal n = c # r \<Longrightarrow> is_ascii_digit c"
  using decimal_digits [of c n] by simp

lemma parse_u8_to_string [simp]: "parse_u8 (u8_to_string b) = Some b"
proof -
  have "unat b < 256"
    using unsigned_less [of b] by simp
  moreover obtain c r where cr: "decimal (unat b) = c # r"
    by (cases "decimal (unat b)") simp_all
  moreover have "c \<noteq> 43"
    using decimal_hd [OF cr] by (auto simp: is_ascii_digit_def)
  moreover have "digits_value (c # r) = Some (unat b)"
    using digits_value_decimal [of "unat b"] by (simp only: cr)
  ultimately show ?thesis
    by (simp add: parse_u8_def u8_to_string_def)
qed

lemma parse_i32_to_string:
  assumes w: "0 \<le> sint w"
  shows "parse_i32 (i32_to_string w) = Some w"
proof -
  have "sint w < 2147483648"
    using sint_lt [of w] by simp
  then have lt: "nat (sint w) < 2147483648" by simp
  have eq: "word_of_nat (nat (sint w)) = w"
    by (simp add: of_nat_nat w)
  obtain c r where cr: "decimal (nat (sint w)) = c # r"
    by (cases "decimal (nat (sint w))") simp_all
  have c: "c \<noteq> 45" "c \<noteq> 43"
    using decimal_hd [OF cr] by (auto simp: is_ascii_digit_def)
  have "digits_value (c # r) = Some (nat (sint w))"
    using digits_value_decimal [of "nat (sint w)"] by (simp only: cr)
  then show ?thesis using w c lt eq
    by (simp add: parse_i32_def i32_to_string_def cr)
qed

lemma parse_i32_digits_nonneg:
  assumes "parse_i32 s = Some w" "list_all is_ascii_digit s"
  shows "0 \<le> sint w"
proof -
  obtain c r where s: "s = c # r"
    using assms(1) by (auto simp: parse_i32_def split: list.splits)
  with assms(2) have "c \<noteq> of_char CHR ''-''" "c \<noteq> of_char CHR ''+''"
    by (auto simp: is_ascii_digit_def)
  with assms(1) s obtain n where n: "n < 2147483648" "w = word_of_nat n"
    by (auto simp: parse_i32_def split: option.splits if_splits)
  then have "sint w = int n"
    by (simp add: signed_of_nat signed_take_bit_int_eq_self)
  then show ?thesis by simp
qed

section \<open>Other string operations\<close>

text \<open>
  \<open>to_lowercase\<close>. The source only compares the result with ASCII words, so what matters is which
  characters lower-case to ASCII letters: \<open>A\<close> to \<open>Z\<close>, the Kelvin sign \<open>U+212A\<close> (to \<open>k\<close>) and
  \<open>U+0130\<close> (to \<open>i\<close> and a combining dot). Every other character lower-cases to characters outside
  ASCII and is left as it is.
\<close>

definition lower_char :: "nat \<Rightarrow> rstring" where
  "lower_char c =
     (if 65 \<le> c \<and> c \<le> 90 then [c + 32]
      else if c = 8490 then [107]
      else if c = 304 then [105, 775]
      else [c])"

definition to_lowercase :: "rstring \<Rightarrow> rstring" where
  "to_lowercase s = concat (map lower_char s)"

text \<open>\<open>str.replace(p, "")\<close> for a non-empty pattern: matches from left to right, not overlapping.\<close>

fun remove_all :: "rstring \<Rightarrow> rstring \<Rightarrow> rstring" where
  "remove_all p [] = []"
| "remove_all p (c # s) =
     (if p \<noteq> [] \<and> take (length p) (c # s) = p then remove_all p (drop (length p) (c # s))
      else c # remove_all p s)"

lemma remove_all_append:
  assumes "p \<noteq> []"
  shows "remove_all p (p @ s) = remove_all p s"
  using assms by (cases p) auto

lemma remove_all_fresh: "hd p \<notin> set s \<Longrightarrow> p \<noteq> [] \<Longrightarrow> remove_all p (s @ t) = s @ remove_all p t"
  by (induction s) (auto simp: neq_Nil_conv)

definition starts_with :: "rstring \<Rightarrow> nat \<Rightarrow> bool" where
  "starts_with s c \<longleftrightarrow> (case s of d # _ \<Rightarrow> d = c | [] \<Rightarrow> False)"

end
