(* ===== verification/Third_Party.thy ===== *)
theory Third_Party
  imports Rust_Text
begin

text \<open>
  The crates the source calls, as parameters of the model. Each record collects the functions of
  one crate the source uses; the definitions of the components take such a record as an argument.
  What a property relies on of a crate is a hypothesis about its record, stated with the predicates
  of this theory, and every one of them is documented behaviour of the crate. The instance at the
  end is only there to show that the hypotheses can hold.
\<close>

section \<open>base64: \<open>general_purpose::STANDARD\<close>\<close>

text \<open>\<open>b64_decode\<close> returns the rendered \<open>DecodeError\<close> or the bytes.\<close>

record base64 =
  b64_encode :: "bytes \<Rightarrow> bytes"
  b64_decode :: "bytes \<Rightarrow> rstring + bytes"

definition base64_inverse :: "base64 \<Rightarrow> bool" where
  "base64_inverse B \<longleftrightarrow> (\<forall>d. b64_decode B (b64_encode B d) = Inr d)"

definition printable :: "u8 \<Rightarrow> bool" where
  "printable b \<longleftrightarrow> 32 < unat b \<and> unat b < 127"

definition base64_alphabet :: "base64 \<Rightarrow> bool" where
  "base64_alphabet B \<longleftrightarrow> (\<forall>d. \<forall>b \<in> set (b64_encode B d). printable b)"

section \<open>url: \<open>Url\<close>; adler32 of the system time\<close>

text \<open>
  \<open>url_append u k v\<close> is \<open>query_pairs_mut().append_pair(k, v)\<close>, \<open>url_set_scheme\<close> is \<open>None\<close> where
  the crate refuses the change, \<open>time_hash n\<close> is the decimal hash of the \<open>n\<close>-th reading of the
  clock.
\<close>

record 'u urllib =
  url_parse :: "rstring \<Rightarrow> rstring + 'u"
  url_path :: "'u \<Rightarrow> rstring"
  url_set_path :: "'u \<Rightarrow> rstring \<Rightarrow> 'u"
  url_scheme :: "'u \<Rightarrow> rstring"
  url_set_scheme :: "'u \<Rightarrow> rstring \<Rightarrow> 'u option"
  url_pairs :: "'u \<Rightarrow> (rstring \<times> rstring) list"
  url_append :: "'u \<Rightarrow> rstring \<Rightarrow> rstring \<Rightarrow> 'u"
  time_hash :: "nat \<Rightarrow> rstring"

text \<open>
  What the \<open>url\<close> crate documents of these: a pair is appended at the end of the query and leaves the
  scheme and the path, setting the path leaves the query and the scheme, a change of scheme that is
  accepted leaves the query, and one to \<open>ws\<close> or \<open>wss\<close>, the only ones the sources ask for, takes
  effect as written (the crate writes schemes in lower case).
\<close>

definition url_laws :: "('u, 'z) urllib_scheme \<Rightarrow> bool" where
  "url_laws U \<longleftrightarrow>
     (\<forall>u k v. url_pairs U (url_append U u k v) = url_pairs U u @ [(k, v)] \<and>
        url_scheme U (url_append U u k v) = url_scheme U u \<and>
        url_path U (url_append U u k v) = url_path U u) \<and>
     (\<forall>u p. url_pairs U (url_set_path U u p) = url_pairs U u \<and>
        url_scheme U (url_set_path U u p) = url_scheme U u) \<and>
     (\<forall>u s u'. url_set_scheme U u s = Some u' \<longrightarrow>
        url_pairs U u' = url_pairs U u \<and> (s \<in> {lit ''ws'', lit ''wss''} \<longrightarrow> url_scheme U u' = s))"

lemma url_laws_simps:
  assumes "url_laws U"
  shows "url_pairs U (url_append U u k v) = url_pairs U u @ [(k, v)]"
    and "url_scheme U (url_append U u k v) = url_scheme U u"
    and "url_path U (url_append U u k v) = url_path U u"
    and "url_pairs U (url_set_path U u p) = url_pairs U u"
    and "url_scheme U (url_set_path U u p) = url_scheme U u"
    and "url_set_scheme U u s = Some u' \<Longrightarrow> url_pairs U u' = url_pairs U u"
    and "url_set_scheme U u s = Some u' \<Longrightarrow> s \<in> {lit ''ws'', lit ''wss''} \<Longrightarrow> url_scheme U u' = s"
  using assms unfolding url_laws_def by blast+

section \<open>serde\_json\<close>

text \<open>
  \<open>'j\<close> is \<open>serde_json::Value\<close>; \<open>json_parse\<close> is \<open>from_str\<close> with the rendered error, \<open>json_print\<close>
  is \<open>to_string\<close>, \<open>json_string\<close> the constructor \<open>Value::String\<close>; \<open>json_as_array\<close> and
  \<open>json_as_string\<close> are the matches on \<open>Value::Array\<close> and \<open>Value::String\<close>.
\<close>

record 'j jsonlib =
  json_parse :: "rstring \<Rightarrow> rstring + 'j"
  json_print :: "'j \<Rightarrow> rstring"
  json_string :: "rstring \<Rightarrow> 'j"
  json_as_array :: "'j \<Rightarrow> 'j list option"
  json_as_string :: "'j \<Rightarrow> rstring option"

text \<open>The text is what \<open>to_string\<close> makes of the value it parses to.\<close>

definition json_canonical :: "('j, 'z) jsonlib_scheme \<Rightarrow> rstring \<Rightarrow> bool" where
  "json_canonical J s \<longleftrightarrow> (\<exists>j. json_parse J s = Inr j \<and> json_print J j = s)"

section \<open>Concrete instances, for witnesses\<close>

text \<open>Two printable characters per byte, in place of base64.\<close>

definition nibble_char :: "nat \<Rightarrow> u8" where
  "nibble_char n = word_of_nat (65 + n)"

definition nibbles :: "bytes \<Rightarrow> bytes" where
  "nibbles d = concat (map (\<lambda>b. [nibble_char (unat b div 16), nibble_char (unat b mod 16)]) d)"

fun unnibbles :: "bytes \<Rightarrow> rstring + bytes" where
  "unnibbles [] = Inr []"
| "unnibbles [a] = Inl (lit ''Invalid input length'')"
| "unnibbles (a # b # r) =
     (case unnibbles r of
        Inl e \<Rightarrow> Inl e
      | Inr d \<Rightarrow> Inr (word_of_nat ((unat a - 65) * 16 + (unat b - 65)) # d))"

definition nibble64 :: base64 where
  "nibble64 = \<lparr>b64_encode = nibbles, b64_decode = unnibbles\<rparr>"

lemma unat_nibble_char: "n < 16 \<Longrightarrow> unat (nibble_char n) = 65 + n"
  by (simp add: nibble_char_def unat_of_nat del: of_nat_add)

lemma unat_u8_lt: "unat (b :: u8) < 256"
  using unsigned_less [of b] by simp

lemma nibble_bounds [simp]: "unat (b :: u8) div 16 < 16" "unat (b :: u8) mod 16 < 16"
  using unat_u8_lt [of b] by auto

lemma unnibbles_nibbles: "unnibbles (nibbles d) = Inr d"
  by (induction d) (simp_all add: nibbles_def unat_nibble_char)

lemma nibble64_laws: "base64_inverse nibble64" "base64_alphabet nibble64"
proof -
  show "base64_inverse nibble64"
    by (simp add: base64_inverse_def nibble64_def unnibbles_nibbles)
  have "printable (nibble_char n)" if "n < 16" for n
    using that by (simp add: printable_def unat_nibble_char)
  then show "base64_alphabet nibble64"
    by (auto simp: base64_alphabet_def nibble64_def nibbles_def)
qed

text \<open>A url as its scheme, path and query.\<close>

type_synonym plain_url = "rstring \<times> rstring \<times> (rstring \<times> rstring) list"

definition plain_urls :: "plain_url urllib" where
  "plain_urls =
     \<lparr>url_parse = (\<lambda>s. Inr (lit ''http'', lit ''/'', [])),
      url_path = (\<lambda>(s, p, q). p), url_set_path = (\<lambda>(s, p, q) p'. (s, p', q)),
      url_scheme = (\<lambda>(s, p, q). s), url_set_scheme = (\<lambda>(s, p, q) s'. Some (s', p, q)),
      url_pairs = (\<lambda>(s, p, q). q), url_append = (\<lambda>(s, p, q) k v. (s, p, q @ [(k, v)])),
      time_hash = (\<lambda>n. decimal n)\<rparr>"

lemma plain_urls_laws: "url_laws plain_urls"
  by (auto simp: url_laws_def plain_urls_def)

end
