(* ===== verification/Engine_Packet.thy ===== *)
theory Engine_Packet
  imports Third_Party
begin

text \<open>
  \<open>engineio/src/error.rs\<close> and \<open>engineio/src/packet.rs\<close>: the error type, packet types, packets,
  payloads (several packets in one HTTP body) and their codecs.
\<close>

section \<open>Errors\<close>

text \<open>
  An error of another crate is carried as its rendered text, except where the text is derived
  from standard library data (\<open>Utf8Error\<close>), which no claim needs.
\<close>

datatype eerror =
    EInvalidPacketId u8
  | EIncompletePacket
  | EInvalidPacket
  | EInvalidUtf8
  | EInvalidBase64 rstring
  | EInvalidUrl rstring
  | EInvalidUrlScheme rstring
  | EIncompleteResponseFromReqwest rstring
  | EWebsocketError rstring
  | EIncompleteHttp u16
  | EInvalidHandshake rstring
  | EIllegalActionBeforeOpen
  | EInvalidHttpConfiguration rstring
  | EInvalidJson rstring
  | EInvalidPoisonedLock
  | EIncompleteIo rstring
  | EIllegalWebsocketUpgrade
  | EInvalidHeaderNameFromReqwest
  | EInvalidHeaderValueFromReqwest

section \<open>Packet types\<close>

datatype epacket_id =
  EOpen | EClose | EPing | EPong | EMessage | EMessageBinary | EUpgrade | ENoop

fun epacket_id_to_u8 :: "epacket_id \<Rightarrow> u8" where
  "epacket_id_to_u8 EOpen = 0"
| "epacket_id_to_u8 EClose = 1"
| "epacket_id_to_u8 EPing = 2"
| "epacket_id_to_u8 EPong = 3"
| "epacket_id_to_u8 EMessage = 4"
| "epacket_id_to_u8 EMessageBinary = 4"
| "epacket_id_to_u8 EUpgrade = 5"
| "epacket_id_to_u8 ENoop = 6"

definition epacket_id_to_string :: "epacket_id \<Rightarrow> rstring" where
  "epacket_id_to_string p =
     (case p of EMessageBinary \<Rightarrow> lit ''b'' | _ \<Rightarrow> u8_to_string (epacket_id_to_u8 p))"

definition epacket_id_try_from :: "u8 \<Rightarrow> eerror + epacket_id" where
  "epacket_id_try_from b =
     (if b = 0 \<or> b = of_char CHR ''0'' then Inr EOpen
      else if b = 1 \<or> b = of_char CHR ''1'' then Inr EClose
      else if b = 2 \<or> b = of_char CHR ''2'' then Inr EPing
      else if b = 3 \<or> b = of_char CHR ''3'' then Inr EPong
      else if b = 4 \<or> b = of_char CHR ''4'' then Inr EMessage
      else if b = 5 \<or> b = of_char CHR ''5'' then Inr EUpgrade
      else if b = 6 \<or> b = of_char CHR ''6'' then Inr ENoop
      else Inl (EInvalidPacketId b))"

section \<open>Packets\<close>

record epacket =
  e_id :: epacket_id
  e_data :: bytes

definition epacket :: "epacket_id \<Rightarrow> bytes \<Rightarrow> epacket" where
  "epacket i d = \<lparr>e_id = i, e_data = d\<rparr>"

definition epacket_try_from :: "base64 \<Rightarrow> bytes \<Rightarrow> eerror + epacket" where
  "epacket_try_from B bs =
     (case bs of
        [] \<Rightarrow> Inl EIncompletePacket
      | b # data \<Rightarrow>
          let is_base64 = (b = of_char CHR ''b'') in
          case (if is_base64 then Inr EMessageBinary else epacket_id_try_from b) of
            Inl e \<Rightarrow> Inl e
          | Inr pid \<Rightarrow>
              if length bs = 1 \<and> pid = EMessage then Inl EIncompletePacket
              else if is_base64 then
                (case b64_decode B data of
                   Inl e \<Rightarrow> Inl (EInvalidBase64 e)
                 | Inr d \<Rightarrow> Inr \<lparr>e_id = pid, e_data = d\<rparr>)
              else Inr \<lparr>e_id = pid, e_data = data\<rparr>)"

definition epacket_to_bytes :: "base64 \<Rightarrow> epacket \<Rightarrow> bytes" where
  "epacket_to_bytes B p =
     utf8 (epacket_id_to_string (e_id p)) @
     (if e_id p = EMessageBinary then b64_encode B (e_data p) else e_data p)"

section \<open>Payloads\<close>

definition separator :: u8 where
  "separator = 30"

text \<open>\<open>payload.slice(a..b)\<close>.\<close>

definition slice :: "'a list \<Rightarrow> nat \<Rightarrow> nat \<Rightarrow> 'a list" where
  "slice xs a b = take (b - a) (drop a xs)"

text \<open>The \<open>for\<close> loop over the indices, with \<open>vec\<close> and \<open>last_index\<close> as the code keeps them.\<close>

function payload_scan ::
  "(bytes \<Rightarrow> 'e + 'p) \<Rightarrow> bytes \<Rightarrow> nat \<Rightarrow> nat \<Rightarrow> 'p list \<Rightarrow> 'e + 'p list" where
  "payload_scan dec payload i last_index vec =
     (if i < length payload then
        if payload ! i = separator then
          (case dec (slice payload last_index i) of
             Inl e \<Rightarrow> Inl e
           | Inr p \<Rightarrow> payload_scan dec payload (i + 1) (i + 1) (vec @ [p]))
        else payload_scan dec payload (i + 1) last_index vec
      else
        (case dec (slice payload last_index (length payload)) of
           Inl e \<Rightarrow> Inl e
         | Inr p \<Rightarrow> Inr (vec @ [p])))"
  by pat_completeness auto
termination
  by (relation "measure (\<lambda>(dec, payload, i, last_index, vec). length payload - i)") auto

declare payload_scan.simps [simp del]

definition payload_try_from :: "base64 \<Rightarrow> bytes \<Rightarrow> eerror + epacket list" where
  "payload_try_from B payload = payload_scan (epacket_try_from B) payload 0 0 []"

text \<open>
  The encoder cuts off the last separator with \<open>split_off(buf.len() - 1)\<close>: without a packet the
  subtraction underflows, and both an overflow check and the wrapped index out of range panic.
\<close>

definition payload_to_bytes :: "base64 \<Rightarrow> epacket list \<Rightarrow> (eerror, bytes) outcome" where
  "payload_to_bytes B ps =
     (let buf = concat (map (\<lambda>p. epacket_to_bytes B p @ [separator]) ps) in
      if length buf = 0 then Panic else Ok (take (length buf - 1) buf))"

section \<open>Splitting at a separator\<close>

text \<open>The specification of the loop: cut at every separator, then decode the pieces in order.\<close>

fun split_at :: "'a \<Rightarrow> 'a list \<Rightarrow> 'a list list" where
  "split_at c [] = [[]]"
| "split_at c (x # xs) =
     (if x = c then [] # split_at c xs
      else (case split_at c xs of y # ys \<Rightarrow> (x # y) # ys | [] \<Rightarrow> [[x]]))"

fun decode_all :: "('a \<Rightarrow> 'e + 'b) \<Rightarrow> 'a list \<Rightarrow> 'e + 'b list" where
  "decode_all f [] = Inr []"
| "decode_all f (x # xs) =
     (case f x of
        Inl e \<Rightarrow> Inl e
      | Inr y \<Rightarrow> (case decode_all f xs of Inl e \<Rightarrow> Inl e | Inr ys \<Rightarrow> Inr (y # ys)))"

lemma split_at_ne [simp]: "split_at c xs \<noteq> []"
  by (induction xs) (auto split: list.splits)

lemma split_at_fresh: "c \<notin> set xs \<Longrightarrow> split_at c xs = [xs]"
  by (induction xs) auto

lemma split_at_append: "c \<notin> set xs \<Longrightarrow> split_at c (xs @ c # ys) = xs # split_at c ys"
  by (induction xs) auto

lemma slice_snoc:
  assumes "l \<le> i" "i < length xs"
  shows "slice xs l (i + 1) = slice xs l i @ [xs ! i]"
  using assms by (simp add: slice_def Suc_diff_le take_Suc_conv_app_nth)

lemma drop_slice: "l \<le> i \<Longrightarrow> drop l xs = slice xs l i @ drop i xs"
  unfolding slice_def by (metis add.commute append_take_drop_id drop_drop le_add_diff_inverse2)

lemma payload_scan_split:
  assumes "l \<le> i" "i \<le> length s" "separator \<notin> set (slice s l i)"
  shows "payload_scan dec s i l vec =
    (case decode_all dec (split_at separator (drop l s)) of
       Inl e \<Rightarrow> Inl e | Inr ps \<Rightarrow> Inr (vec @ ps))"
  using assms
proof (induction dec s i l vec rule: payload_scan.induct)
  case (1 dec s i l vec)
  note le = "1.prems"(1) and fresh = "1.prems"(3)
  consider (stop) "i \<ge> length s" | (sep) "i < length s" "s ! i = separator"
    | (other) "i < length s" "s ! i \<noteq> separator"
    by linarith
  then show ?case
  proof cases
    case stop
    have whole: "slice s l (length s) = drop l s" by (simp add: slice_def)
    from stop "1.prems"(2) have "i = length s" by simp
    with fresh whole have "separator \<notin> set (drop l s)" by simp
    with stop whole show ?thesis
      by (simp add: payload_scan.simps [of dec s i] split_at_fresh split: sum.splits)
  next
    case sep
    have "drop l s = slice s l i @ separator # drop (i + 1) s"
      using drop_slice [OF le, of s] Cons_nth_drop_Suc [OF sep(1)] sep(2) by simp
    then have split: "split_at separator (drop l s) =
        slice s l i # split_at separator (drop (i + 1) s)"
      using fresh by (simp add: split_at_append)
    have "slice s (i + 1) (i + 1) = []" by (simp add: slice_def)
    with sep "1.IH"(1) show ?thesis
      by (simp add: payload_scan.simps [of dec s i] split split: sum.splits)
  next
    case other
    have "separator \<notin> set (slice s l (i + 1))"
      using fresh other slice_snoc [OF le other(1)] by simp
    with other le "1.IH"(2) show ?thesis
      by (simp add: payload_scan.simps [of dec s i])
  qed
qed

section \<open>Frames between separators\<close>

text \<open>
  The interface the payload codec relies on: an encoder whose output holds no separator, and a
  decoder that inverts it. The round trip of a chain of frames follows from that alone.
\<close>

locale framed_codec =
  fixes enc :: "'p \<Rightarrow> bytes" and dec :: "bytes \<Rightarrow> 'e + 'p" and ok :: "'p \<Rightarrow> bool"
  assumes dec_enc: "ok p \<Longrightarrow> dec (enc p) = Inr p"
    and enc_fresh: "ok p \<Longrightarrow> separator \<notin> set (enc p)"
begin

lemma joined_ne: "ps \<noteq> [] \<Longrightarrow> concat (map (\<lambda>p. enc p @ [separator]) ps) \<noteq> []"
  by (cases ps) auto

lemma split_joined:
  assumes "\<forall>p \<in> set ps. ok p" "ps \<noteq> []"
  shows "split_at separator (butlast (concat (map (\<lambda>p. enc p @ [separator]) ps))) = map enc ps"
  using assms
proof (induction ps)
  case (Cons p ps)
  show ?case
  proof (cases "ps = []")
    case True
    with Cons.prems show ?thesis by (simp add: butlast_append split_at_fresh enc_fresh)
  next
    case False
    with Cons show ?thesis
      by (simp add: butlast_append split_at_append enc_fresh joined_ne del: concat_eq_Nil_conv)
  qed
qed simp

lemma decode_encoded: "\<forall>p \<in> set ps. ok p \<Longrightarrow> decode_all dec (map enc ps) = Inr ps"
  by (induction ps) (simp_all add: dec_enc)

lemma scan_joined:
  assumes "\<forall>p \<in> set ps. ok p" "ps \<noteq> []"
  shows "payload_scan dec (butlast (concat (map (\<lambda>p. enc p @ [separator]) ps))) 0 0 [] = Inr ps"
  using assms by (simp add: payload_scan_split slice_def split_joined decode_encoded)

end

section \<open>The packet codec\<close>

text \<open>
  The packets that survive the trip: a \<open>Message\<close> has data, a \<open>MessageBinary\<close> relies on base64,
  and, for a payload, the data of the others holds no separator.
\<close>

definition epacket_wf :: "base64 \<Rightarrow> epacket \<Rightarrow> bool" where
  "epacket_wf B p \<longleftrightarrow>
     (e_id p = EMessage \<longrightarrow> e_data p \<noteq> []) \<and>
     (e_id p = EMessageBinary \<longrightarrow> b64_decode B (b64_encode B (e_data p)) = Inr (e_data p))"

definition eframe_wf :: "base64 \<Rightarrow> epacket \<Rightarrow> bool" where
  "eframe_wf B p \<longleftrightarrow> epacket_wf B p \<and>
     separator \<notin> set (if e_id p = EMessageBinary then b64_encode B (e_data p) else e_data p)"

lemma utf8_epacket_id [simp]:
  "utf8 (epacket_id_to_string p) =
     [if p = EMessageBinary then of_char CHR ''b'' else 48 + epacket_id_to_u8 p]"
  by (cases p) (simp_all add: epacket_id_to_string_def u8_to_string_def decimal.simps)

lemma epacket_id_ascii [simp]:
  "epacket_id_try_from (48 + epacket_id_to_u8 p) = Inr (if p = EMessageBinary then EMessage else p)"
  by (cases p) (simp_all add: epacket_id_try_from_def)

lemma epacket_id_ascii_neq [simp]:
  "48 + epacket_id_to_u8 p \<noteq> 98" "separator \<noteq> 48 + epacket_id_to_u8 p" "separator \<noteq> 98"
  by (cases p; simp add: separator_def)+

lemma separator_not_printable: "\<not> printable separator"
  by (simp add: printable_def separator_def)

lemma epacket_try_from_to_bytes: "epacket_wf B p \<Longrightarrow> epacket_try_from B (epacket_to_bytes B p) = Inr p"
  by (cases p) (auto simp: epacket_wf_def epacket_to_bytes_def epacket_try_from_def)

lemma epacket_to_bytes_fresh: "eframe_wf B p \<Longrightarrow> separator \<notin> set (epacket_to_bytes B p)"
  by (auto simp: eframe_wf_def epacket_to_bytes_def split: if_splits)

interpretation epackets: framed_codec "epacket_to_bytes B" "epacket_try_from B" "eframe_wf B"
  for B :: base64
  by unfold_locales (auto simp: epacket_try_from_to_bytes epacket_to_bytes_fresh eframe_wf_def)

lemma eframe_wf_binary:
  assumes "base64_inverse B" "base64_alphabet B"
  shows "eframe_wf B (epacket EMessageBinary d)"
  using assms separator_not_printable
  by (auto simp: eframe_wf_def epacket_wf_def epacket_def base64_inverse_def base64_alphabet_def)

section \<open>Properties\<close>

text \<open>Decoding an encoded engine.io packet gives the packet back, for every packet type and all
  data, except a \<open>Message\<close> without data and a \<open>MessageBinary\<close> whose data base64 does not return.\<close>

theorem engine_packet_roundtrip:
  assumes "epacket_wf B p"
  shows "epacket_try_from B (epacket_to_bytes B p) = Inr p"
  by (rule epacket_try_from_to_bytes [OF assms])

theorem engine_packet_roundtrip_witness:
  "epacket_try_from nibble64 (epacket_to_bytes nibble64 (epacket EMessageBinary [1, 30, 255]))
     = Inr (epacket EMessageBinary [1, 30, 255])"
  by (rule engine_packet_roundtrip)
    (use nibble64_laws(1) in \<open>simp add: epacket_wf_def epacket_def base64_inverse_def\<close>)

text \<open>The decoder rejects exactly the empty input, an unknown type byte, a bare \<open>Message\<close> type
  byte (raw 4 or the character), and a \<open>b\<close> followed by something base64 refuses.\<close>

theorem engine_packet_rejects:
  "(\<exists>e. epacket_try_from B bs = Inl e) \<longleftrightarrow>
     bs = [] \<or> bs = [4] \<or> bs = ascii ''4'' \<or>
     (\<exists>b data. bs = b # data \<and> b \<noteq> of_char CHR ''b'' \<and>
        \<not> (b \<le> 6 \<or> (of_char CHR ''0'' \<le> b \<and> b \<le> of_char CHR ''6''))) \<or>
     (\<exists>data e. bs = of_char CHR ''b'' # data \<and> b64_decode B data = Inl e)"
proof (cases bs)
  case (Cons b data)
  have ids: "(\<exists>e. epacket_id_try_from b = Inl e) \<longleftrightarrow> \<not> (b \<le> 6 \<or> (48 \<le> b \<and> b \<le> 54))"
  proof -
    have "b \<le> 6 \<longleftrightarrow> b \<in> {0, 1, 2, 3, 4, 5, 6}" "48 \<le> b \<and> b \<le> 54 \<longleftrightarrow> b \<in> {48, 49, 50, 51, 52, 53, 54}"
      by (auto simp: word_le_nat_alt word_unat_eq_iff)
    then show ?thesis by (auto simp: epacket_id_try_from_def)
  qed
  have msg: "epacket_id_try_from b = Inr EMessage \<longleftrightarrow> b = 4 \<or> b = 52"
    by (auto simp: epacket_id_try_from_def)
  show ?thesis
    using ids msg Cons
    by (auto simp: epacket_try_from_def Let_def split: sum.splits if_splits)
qed (simp add: epacket_try_from_def)

text \<open>A decoded packet that was not base64 encodes to the same bytes, with the type byte as an
  ASCII digit where the input had the raw number.\<close>

theorem engine_packet_reencode:
  assumes "epacket_try_from B bs = Inr p" and "e_id p \<noteq> EMessageBinary"
  shows "epacket_to_bytes B p = (if hd bs \<le> 6 then 48 + hd bs else hd bs) # tl bs"
  using assms
  by (auto simp: epacket_try_from_def epacket_to_bytes_def epacket_id_try_from_def Let_def
      split: list.splits if_splits sum.splits)

theorem engine_packet_reencode_witness:
  "epacket_to_bytes nibble64 (epacket EMessage [7, 8]) = 52 # [7, 8]"
  using engine_packet_reencode [of nibble64 "[4, 7, 8]" "epacket EMessage [7, 8]"]
  by (simp add: epacket_try_from_def epacket_id_try_from_def epacket_def)

text \<open>C16: the index loop of the payload decoder computes the specification: cut the input at every
  separator byte and decode the pieces in order, failing with the first piece that fails.\<close>

theorem payload_decode_spec:
  "payload_try_from B data = decode_all (epacket_try_from B) (split_at separator data)"
  by (simp add: payload_try_from_def payload_scan_split slice_def split: sum.splits)



end
