(* ===== verification/Connection.thy ===== *)
theory Connection
  imports Rust_Prelude
begin

text \<open>
  The contract shared by every connection object of the two crates (the blocking and asynchronous
  engine.io sockets, the blocking and asynchronous socket.io sockets): an operation that sends is
  refused, with nothing put on the network, unless the object is connected, and closing ends the
  connection. The sockets interpret it; what it gives is that a closed connection stays silent.
\<close>

fun run_all :: "('a \<Rightarrow> ('s, 'e, 'b) proc) \<Rightarrow> 'a list \<Rightarrow> 's \<Rightarrow> ('e, 'b) outcome list \<times> 's" where
  "run_all f [] s = ([], s)"
| "run_all f (x # xs) s =
     (case f x s of (r, s') \<Rightarrow> (case run_all f xs s' of (rs, s'') \<Rightarrow> (r # rs, s'')))"

locale connection =
  fixes emit :: "'p \<Rightarrow> ('s, 'e, unit) proc"
    and close :: "('s, 'e, unit) proc"
    and connected :: "'s \<Rightarrow> bool"
    and history :: "'s \<Rightarrow> 'h"
    and refused :: 'e
  assumes emit_refused: "\<not> connected s \<Longrightarrow> fst (emit p s) = Err refused"
    and emit_silent: "\<not> connected s \<Longrightarrow> history (snd (emit p s)) = history s"
    and emit_connected: "connected (snd (emit p s)) = connected s"
    and close_closes: "close s = (Ok u, s') \<Longrightarrow> \<not> connected s'"
begin

lemma run_all_connected: "connected (snd (run_all emit ps s)) = connected s"
  by (induction ps arbitrary: s) (simp_all add: case_prod_beta emit_connected)

lemma run_all_silent:
  "\<not> connected s \<Longrightarrow>
     fst (run_all emit ps s) = replicate (length ps) (Err refused) \<and>
     history (snd (run_all emit ps s)) = history s"
  by (induction ps arbitrary: s)
    (simp_all add: case_prod_beta emit_connected emit_refused emit_silent)

lemma closed_silent:
  assumes "close s = (Ok u, s')"
  shows "fst (run_all emit ps s') = replicate (length ps) (Err refused)"
    and "history (snd (run_all emit ps s')) = history s'"
  using run_all_silent [OF close_closes [OF assms]] by auto

end

end
