(* ===== verification/Transports.thy ===== *)
theory Transports
  imports Engine_Packet
begin

text \<open>
  \<open>engineio/src/transport.rs\<close>, \<open>engineio/src/transports/\<close> and
  \<open>engineio/src/asynchronous/async_transports/\<close>: the polling and websocket transports over a
  network. The blocking websocket transports wrap the asynchronous ones in a runtime, and both
  wrap \<open>AsyncWebsocketGeneralTransport\<close>, which is modelled here once.

  The network is what the outside world still has to say: the answers to the next GET and POST
  requests, to the next websocket connects, sends and reads, each a list that is consumed from
  the front. A call that finds its list empty never returns. The blocking client reads the body of a
  GET as a whole (\<open>get_in\<close>), the asynchronous one chunk by chunk (\<open>stream_in\<close>, where a chunk can
  also be an error). \<open>wire\<close> is the history of what the client put on the network. The lists are arbitrary, so a statement for every network is a
  statement for every server.
\<close>

section \<open>The network\<close>

text \<open>
  \<open>WsOther\<close> is any control or raw frame, with its \<open>into_data()\<close>; \<open>WsErr\<close> is an error item of the
  stream, \<open>WsEnd\<close> the end of the stream.
\<close>

datatype ws_message = WsText rstring | WsBinary bytes | WsOther bytes

datatype ws_event = WsMsg ws_message | WsErr rstring | WsEnd

datatype 'u request = HttpGet 'u | HttpPost 'u bytes | WsConnect 'u | WsSend ws_message

record 'u net =
  get_in :: "(rstring + bytes) list"
  stream_in :: "(rstring + (rstring + bytes) list) list"
  post_in :: "(rstring + u16) list"
  ws_connect_in :: "(rstring + ws_event list) list"
  ws_in :: "ws_event list"
  ws_send_in :: "(rstring + unit) list"
  wire :: "'u request list"
  clock :: nat

definition log_request :: "'u request \<Rightarrow> 'u net \<Rightarrow> 'u net" where
  "log_request r w = w\<lparr>wire := wire w @ [r]\<rparr>"

section \<open>Polling\<close>

datatype 'u transport = Polling 'u | WebsocketSecure 'u | Websocket 'u

fun base_url :: "'u transport \<Rightarrow> 'u" where
  "base_url (Polling u) = u"
| "base_url (WebsocketSecure u) = u"
| "base_url (Websocket u) = u"

text \<open>\<open>Transport::address\<close>: the base url with the hashed system time as parameter \<open>t\<close>.\<close>

definition address :: "'u urllib \<Rightarrow> 'u \<Rightarrow> 'u net \<Rightarrow> 'u" where
  "address U base w = url_append U base (lit ''t'') (time_hash U (clock w))"

definition polling_new :: "'u urllib \<Rightarrow> 'u \<Rightarrow> 'u transport" where
  "polling_new U url = Polling (url_append U url (lit ''transport'') (lit ''polling''))"

definition polling_emit :: "base64 \<Rightarrow> 'u urllib \<Rightarrow> 'u \<Rightarrow> bytes \<Rightarrow> bool \<Rightarrow> ('u net, eerror, unit) proc" where
  "polling_emit B U base data is_binary_att w =
     (let data_to_send = (if is_binary_att then of_char CHR ''b'' # b64_encode B data else data);
          w1 = log_request (HttpPost (address U base w) data_to_send) (w\<lparr>clock := clock w + 1\<rparr>)
      in case post_in w1 of
           [] \<Rightarrow> (Block, w1)
         | Inl e # rs \<Rightarrow> (Err (EIncompleteResponseFromReqwest e), w1\<lparr>post_in := rs\<rparr>)
         | Inr status # rs \<Rightarrow>
             (if status \<noteq> 200 then Err (EIncompleteHttp status) else Ok (), w1\<lparr>post_in := rs\<rparr>))"

definition polling_poll :: "'u urllib \<Rightarrow> 'u \<Rightarrow> ('u net, eerror, bytes) proc" where
  "polling_poll U base w =
     (let w1 = log_request (HttpGet (address U base w)) (w\<lparr>clock := clock w + 1\<rparr>)
      in case get_in w1 of
           [] \<Rightarrow> (Block, w1)
         | Inl e # rs \<Rightarrow> (Err (EIncompleteResponseFromReqwest e), w1\<lparr>get_in := rs\<rparr>)
         | Inr body # rs \<Rightarrow> (Ok body, w1\<lparr>get_in := rs\<rparr>))"

definition polling_set_base_url :: "'u urllib \<Rightarrow> 'u \<Rightarrow> 'u" where
  "polling_set_base_url U url =
     (if (lit ''transport'', lit ''polling'') \<in> set (url_pairs U url) then url
      else url_append U url (lit ''transport'') (lit ''polling''))"

section \<open>Websockets\<close>

definition ws_send :: "ws_message \<Rightarrow> ('u net, eerror, unit) proc" where
  "ws_send m w =
     (let w1 = log_request (WsSend m) w
      in case ws_send_in w1 of
           [] \<Rightarrow> (Block, w1)
         | Inl e # rs \<Rightarrow> (Err (EWebsocketError e), w1\<lparr>ws_send_in := rs\<rparr>)
         | Inr _ # rs \<Rightarrow> (Ok (), w1\<lparr>ws_send_in := rs\<rparr>))"

text \<open>\<open>Message::text(from_utf8(data)?)\<close>, sent.\<close>

definition ws_send_text :: "bytes \<Rightarrow> ('u net, eerror, unit) proc" where
  "ws_send_text data =
     (case from_utf8 data of
        None \<Rightarrow> give (Err EInvalidUtf8)
      | Some s \<Rightarrow> ws_send (WsText s))"

definition ws_emit :: "bytes \<Rightarrow> bool \<Rightarrow> ('u net, eerror, unit) proc" where
  "ws_emit data is_binary_att =
     (if is_binary_att then ws_send (WsBinary data) else ws_send_text data)"

fun into_data :: "ws_message \<Rightarrow> bytes" where
  "into_data (WsText s) = utf8 s"
| "into_data (WsBinary d) = d"
| "into_data (WsOther d) = d"

text \<open>One item of the stream: \<open>None\<close> at its end.\<close>

definition ws_next :: "('u net, eerror, ws_message option) proc" where
  "ws_next w =
     (case ws_in w of
        [] \<Rightarrow> (Block, w)
      | WsMsg m # es \<Rightarrow> (Ok (Some m), w\<lparr>ws_in := es\<rparr>)
      | WsErr e # es \<Rightarrow> (Err (EWebsocketError e), w\<lparr>ws_in := es\<rparr>)
      | WsEnd # es \<Rightarrow> (Ok None, w\<lparr>ws_in := es\<rparr>))"

definition ws_upgrade :: "base64 \<Rightarrow> ('u net, eerror, unit) proc" where
  "ws_upgrade B =
     seq (ws_send_text (epacket_to_bytes B (epacket EPing (ascii ''probe'')))) (\<lambda>_.
     seq ws_next (\<lambda>item.
       case item of
         None \<Rightarrow> give (Err EIllegalWebsocketUpgrade)
       | Some msg \<Rightarrow>
           if into_data msg \<noteq> epacket_to_bytes B (epacket EPong (ascii ''probe''))
           then give (Err EInvalidPacket)
           else ws_send_text (epacket_to_bytes B (epacket EUpgrade []))))"

text \<open>
  The reading loop: text becomes its bytes, a binary frame gets \<open>PacketId::Message as u8\<close> (the
  discriminant 4, not the character) in front, other frames are skipped.
\<close>

fun ws_read :: "ws_event list \<Rightarrow> (eerror, bytes option) outcome \<times> ws_event list" where
  "ws_read [] = (Block, [])"
| "ws_read (WsMsg (WsText s) # es) = (Ok (Some (utf8 s)), es)"
| "ws_read (WsMsg (WsBinary d) # es) = (Ok (Some (4 # d)), es)"
| "ws_read (WsMsg (WsOther d) # es) = ws_read es"
| "ws_read (WsErr e # es) = (Err (EWebsocketError e), es)"
| "ws_read (WsEnd # es) = (Ok None, es)"

definition ws_poll_next :: "('u net, eerror, bytes option) proc" where
  "ws_poll_next w = (case ws_read (ws_in w) of (r, es) \<Rightarrow> (r, w\<lparr>ws_in := es\<rparr>))"

text \<open>\<open>WebsocketTransport::poll\<close> and \<open>WebsocketSecureTransport::poll\<close> (blocking): the end of the
  stream and every error are reported as an incomplete packet.\<close>

definition ws_poll :: "('u net, eerror, bytes) proc" where
  "ws_poll w =
     (case ws_poll_next w of
        (Ok (Some b), w') \<Rightarrow> (Ok b, w')
      | (Ok None, w') \<Rightarrow> (Err EIncompletePacket, w')
      | (Err _, w') \<Rightarrow> (Err EIncompletePacket, w')
      | (Panic, w') \<Rightarrow> (Panic, w')
      | (Block, w') \<Rightarrow> (Block, w'))"

definition ws_open :: "'u urllib \<Rightarrow> rstring \<Rightarrow> 'u \<Rightarrow> ('u net, eerror, 'u) proc" where
  "ws_open U scheme base w =
     (case url_set_scheme U (url_append U base (lit ''transport'') (lit ''websocket'')) scheme of
        None \<Rightarrow> (Panic, w)
      | Some url \<Rightarrow>
          let w1 = log_request (WsConnect url) w in
          case ws_connect_in w1 of
            [] \<Rightarrow> (Block, w1)
          | Inl e # rs \<Rightarrow> (Err (EWebsocketError e), w1\<lparr>ws_connect_in := rs\<rparr>)
          | Inr events # rs \<Rightarrow> (Ok url, w1\<lparr>ws_connect_in := rs, ws_in := events\<rparr>))"

definition websocket_new :: "'u urllib \<Rightarrow> 'u \<Rightarrow> ('u net, eerror, 'u transport) proc" where
  "websocket_new U base = seq (ws_open U (lit ''ws'') base) (\<lambda>url. give (Ok (Websocket url)))"

definition websocket_secure_new :: "'u urllib \<Rightarrow> 'u \<Rightarrow> ('u net, eerror, 'u transport) proc" where
  "websocket_secure_new U base =
     seq (ws_open U (lit ''wss'') base) (\<lambda>url. give (Ok (WebsocketSecure url)))"

text \<open>\<open>None\<close> is the panic of \<open>set_scheme(..).unwrap()\<close>.\<close>

definition ws_set_base_url :: "'u urllib \<Rightarrow> rstring \<Rightarrow> 'u \<Rightarrow> 'u option" where
  "ws_set_base_url U scheme base =
     url_set_scheme U
       (if (lit ''transport'', lit ''websocket'') \<in> set (url_pairs U base) then base
        else url_append U base (lit ''transport'') (lit ''websocket'')) scheme"

section \<open>Dispatch\<close>

text \<open>\<open>TransportType::as_transport\<close>, for the two methods the sockets call.\<close>

definition transport_emit ::
  "base64 \<Rightarrow> 'u urllib \<Rightarrow> 'u transport \<Rightarrow> bytes \<Rightarrow> bool \<Rightarrow> ('u net, eerror, unit) proc" where
  "transport_emit B U t =
     (case t of Polling u \<Rightarrow> polling_emit B U u | Websocket _ \<Rightarrow> ws_emit | WebsocketSecure _ \<Rightarrow> ws_emit)"

definition transport_poll :: "'u urllib \<Rightarrow> 'u transport \<Rightarrow> ('u net, eerror, bytes) proc" where
  "transport_poll U t =
     (case t of Polling u \<Rightarrow> polling_poll U u | Websocket _ \<Rightarrow> ws_poll | WebsocketSecure _ \<Rightarrow> ws_poll)"

section \<open>What the sockets rely on\<close>

text \<open>How much the network still has to say to a reader, and the history.\<close>

definition pending :: "'u net \<Rightarrow> nat" where
  "pending w = length (get_in w) + length (ws_in w)"

definition extends :: "'u net \<Rightarrow> 'u net \<Rightarrow> bool" where
  "extends w w' \<longleftrightarrow> (\<exists>new. wire w' = wire w @ new)"

lemma extends_refl [simp]: "extends w w"
  by (simp add: extends_def)

lemma extends_trans: "extends u v \<Longrightarrow> extends v w \<Longrightarrow> extends u w"
  by (auto simp: extends_def)

lemma ws_read_length: "length (snd (ws_read es)) \<le> length es"
  by (induction es rule: ws_read.induct) auto

lemma ws_read_consumes: "fst (ws_read es) \<noteq> Block \<Longrightarrow> length (snd (ws_read es)) < length es"
proof (induction es rule: ws_read.induct)
  case (4 d es)
  then show ?case by simp
qed auto

lemma ws_poll_net:
  "\<exists>es. ws_poll w = (fst (ws_poll w), w\<lparr>ws_in := es\<rparr>) \<and>
     (fst (ws_poll w) \<noteq> Block \<longrightarrow> length es < length (ws_in w)) \<and> length es \<le> length (ws_in w)"
  using ws_read_consumes [of "ws_in w"] ws_read_length [of "ws_in w"]
  by (auto simp: ws_poll_def ws_poll_next_def split: prod.splits outcome.splits option.splits)

lemma ws_send_net:
  "pending (snd (ws_send m w)) = pending w" "extends w (snd (ws_send m w))"
  by (auto simp: ws_send_def Let_def log_request_def pending_def extends_def
      split: list.splits sum.splits)

lemma transport_poll_consumes:
  assumes "transport_poll U t w = (r, w')" "r \<noteq> Block"
  shows "pending w' < pending w"
proof (cases t)
  case (Polling u)
  with assms show ?thesis
    by (auto simp: transport_poll_def polling_poll_def Let_def log_request_def pending_def
        split: list.splits sum.splits)
next
  case (Websocket u)
  with assms ws_poll_net [of w] show ?thesis by (auto simp: transport_poll_def pending_def)
next
  case (WebsocketSecure u)
  with assms ws_poll_net [of w] show ?thesis by (auto simp: transport_poll_def pending_def)
qed

lemma transport_poll_extends: "extends w (snd (transport_poll U t w))"
proof -
  obtain es where "ws_poll w = (fst (ws_poll w), w\<lparr>ws_in := es\<rparr>)"
    using ws_poll_net by blast
  then have "snd (ws_poll w) = w\<lparr>ws_in := es\<rparr>" by (metis snd_conv)
  then have "extends w (snd (ws_poll w))" by (simp add: extends_def)
  moreover have "extends w (snd (polling_poll U u w))" for u
    by (auto simp: polling_poll_def Let_def log_request_def extends_def split: list.splits sum.splits)
  ultimately show ?thesis by (simp add: transport_poll_def split: transport.splits)
qed

lemma polling_emit_net:
  "pending (snd (polling_emit B U u d b w)) = pending w" "extends w (snd (polling_emit B U u d b w))"
  by (auto simp: polling_emit_def Let_def log_request_def pending_def extends_def
      split: list.splits sum.splits)

lemma ws_emit_net:
  "pending (snd (ws_emit d b w)) = pending w" "extends w (snd (ws_emit d b w))"
  by (auto simp: ws_emit_def ws_send_text_def ws_send_net split: option.splits)

lemma transport_emit_net:
  "pending (snd (transport_emit B U t d b w)) = pending w"
  "extends w (snd (transport_emit B U t d b w))"
  by (simp_all add: transport_emit_def polling_emit_net ws_emit_net split: transport.splits)

text \<open>A write leaves what is still to be read.\<close>

lemma polling_emit_ins:
  "get_in (snd (polling_emit B U u d b w)) = get_in w" "ws_in (snd (polling_emit B U u d b w)) = ws_in w"
  by (simp_all add: polling_emit_def Let_def log_request_def split: list.splits sum.splits)

lemma ws_emit_ins: "get_in (snd (ws_emit d b w)) = get_in w" "ws_in (snd (ws_emit d b w)) = ws_in w"
proof -
  have "get_in (snd (ws_send m w)) = get_in w \<and> ws_in (snd (ws_send m w)) = ws_in w" for m
    by (simp add: ws_send_def Let_def log_request_def split: list.splits sum.splits)
  then show "get_in (snd (ws_emit d b w)) = get_in w" "ws_in (snd (ws_emit d b w)) = ws_in w"
    by (simp_all add: ws_emit_def ws_send_text_def split: option.splits)
qed

lemma transport_emit_ins:
  "get_in (snd (transport_emit B U t d b w)) = get_in w"
  "ws_in (snd (transport_emit B U t d b w)) = ws_in w"
  by (cases t; simp add: transport_emit_def polling_emit_ins ws_emit_ins)+

text \<open>
  The \<open>Transport\<close> trait as the sockets use it: a read that returns consumes input, a write does
  not, and neither takes back what was sent.
\<close>

locale byte_transport =
  fixes emit :: "bytes \<Rightarrow> bool \<Rightarrow> ('w, 'e, unit) proc"
    and poll :: "('w, 'e, bytes) proc"
    and left :: "'w \<Rightarrow> nat"
    and grows :: "'w \<Rightarrow> 'w \<Rightarrow> bool"
  assumes poll_consumes: "poll w = (r, w') \<Longrightarrow> r \<noteq> Block \<Longrightarrow> left w' < left w"
    and emit_left: "left (snd (emit d b w)) = left w"
    and emit_grows: "grows w (snd (emit d b w))"
    and poll_grows: "grows w (snd (poll w))"
    and grows_refl: "grows w w"
    and grows_trans: "grows u v \<Longrightarrow> grows v w \<Longrightarrow> grows u w"
begin

text \<open>Reading and then answering still makes progress: what ends the loops above the transport.\<close>

lemma answer_consumes:
  assumes "poll w = (Ok data, v)" "snd (emit d b v) = w'"
  shows "left w' < left w"
  using assms poll_consumes [OF assms(1)] emit_left [of d b v] by simp

lemma answer_grows:
  assumes "poll w = (r, v)" "snd (emit d b v) = w'"
  shows "grows w w'"
  using assms grows_trans [OF poll_grows [of w]] emit_grows [of v d b] by simp

end

interpretation transports: byte_transport "transport_emit B U t" "transport_poll U t" pending extends
  for B :: base64 and U :: "'u urllib" and t :: "'u transport"
  by unfold_locales
    (auto simp: transport_poll_consumes transport_emit_net transport_poll_extends
      intro: extends_trans)

section \<open>Websocket frames\<close>

text \<open>The first frame that is not a control frame decides what a read returns.\<close>

fun first_frame :: "ws_event list \<Rightarrow> ws_event option" where
  "first_frame [] = None"
| "first_frame (WsMsg (WsOther d) # es) = first_frame es"
| "first_frame (e # es) = Some e"

lemma ws_poll_next_first:
  "fst (ws_poll_next w) =
     (case first_frame (ws_in w) of
        None \<Rightarrow> Block
      | Some (WsMsg m) \<Rightarrow> Ok (Some (case m of WsBinary d \<Rightarrow> 4 # d | _ \<Rightarrow> into_data m))
      | Some (WsErr e) \<Rightarrow> Err (EWebsocketError e)
      | Some WsEnd \<Rightarrow> Ok None)"
proof -
  have "fst (ws_read es) =
     (case first_frame es of
        None \<Rightarrow> Block
      | Some (WsMsg m) \<Rightarrow> Ok (Some (case m of WsBinary d \<Rightarrow> 4 # d | _ \<Rightarrow> into_data m))
      | Some (WsErr e) \<Rightarrow> Err (EWebsocketError e)
      | Some WsEnd \<Rightarrow> Ok None)" for es
    by (induction es rule: ws_read.induct) auto
  then show ?thesis by (simp add: ws_poll_next_def split: prod.splits) (metis fst_conv)
qed

lemma from_utf8_ascii:
  "\<forall>b \<in> set bs. unat b < 128 \<Longrightarrow> from_utf8 bs = Some (map unat bs)"
  by (induction bs) (auto simp: from_utf8_def)

text \<open>What is sent as text is, as UTF-8, exactly the data.\<close>

lemma ws_send_text_exact:
  assumes "ws_send_text data w = (Ok (), w')"
  obtains s where "utf8 s = data" "wire w' = wire w @ [WsSend (WsText s)]"
proof -
  from assms obtain s where s: "from_utf8 data = Some s" and snt: "ws_send (WsText s) w = (Ok (), w')"
    by (auto simp: ws_send_text_def split: option.splits)
  have "wire w' = wire w @ [WsSend (WsText s)]"
    using snt by (auto simp: ws_send_def Let_def log_request_def split: list.splits sum.splits)
  with from_utf8_sound(2) [OF s] that show thesis by blast
qed

section \<open>Properties\<close>

lemma probe_bytes:
  "epacket_to_bytes B (epacket EPing (ascii ''probe'')) = ascii ''2probe''"
  "epacket_to_bytes B (epacket EPong (ascii ''probe'')) = ascii ''3probe''"
  "epacket_to_bytes B (epacket EUpgrade []) = ascii ''5''"
  by (simp_all add: epacket_to_bytes_def epacket_def)

lemma ws_send_text_ascii:
  "ws_send_text (ascii ''2probe'') = ws_send (WsText (lit ''2probe''))"
  "ws_send_text (ascii ''5'') = ws_send (WsText (lit ''5''))"
  by (simp_all add: ws_send_text_def from_utf8_def)

lemma ws_upgrade_eq:
  "ws_upgrade B =
     seq (ws_send (WsText (lit ''2probe''))) (\<lambda>_.
     seq ws_next (\<lambda>item.
       case item of
         None \<Rightarrow> give (Err EIllegalWebsocketUpgrade)
       | Some msg \<Rightarrow>
           if into_data msg \<noteq> ascii ''3probe'' then give (Err EInvalidPacket)
           else ws_send (WsText (lit ''5''))))"
  unfolding ws_upgrade_def probe_bytes ws_send_text_ascii ..

text \<open>C30: the websocket upgrade. Whatever the server does, at most two messages are sent, the probe
  \<open>2probe\<close> first; the upgrade packet \<open>5\<close> is sent only after the first frame of the server was
  \<open>3probe\<close>, and the upgrade succeeds only if both were sent.\<close>

theorem ws_upgrade_protocol:
  assumes "ws_upgrade B w = (r, w')"
  shows "\<exists>sent. wire w' = wire w @ sent \<and>
    (sent = [WsSend (WsText (lit ''2probe''))] \<or>
     sent = [WsSend (WsText (lit ''2probe'')), WsSend (WsText (lit ''5''))]) \<and>
    (length sent = 2 \<longrightarrow> (\<exists>m es. ws_in w = WsMsg m # es \<and> into_data m = ascii ''3probe'')) \<and>
    (r = Ok () \<longrightarrow> length sent = 2)"
  using assms
  by (auto simp: ws_upgrade_eq seq_def ws_send_def ws_next_def log_request_def
      Let_def split: list.splits sum.splits ws_event.splits option.splits if_splits)

definition demo_net :: "ws_event list \<Rightarrow> nat net" where
  "demo_net es =
     \<lparr>get_in = [], stream_in = [], post_in = [], ws_connect_in = [], ws_in = es, ws_send_in = [Inr (), Inr ()],
      wire = [], clock = 0\<rparr>"

theorem ws_upgrade_protocol_witness:
  "\<exists>w' sent. ws_upgrade nibble64 (demo_net [WsMsg (WsText (lit ''3probe''))]) = (Ok (), w') \<and>
     wire w' = sent \<and> length sent = 2"
proof -
  let ?w = "demo_net [WsMsg (WsText (lit ''3probe''))]"
  have ok: "fst (ws_upgrade nibble64 ?w) = Ok ()"
    by (simp add: ws_upgrade_eq seq_def ws_send_def ws_next_def log_request_def
        Let_def demo_net_def)
  then have run: "ws_upgrade nibble64 ?w = (Ok (), snd (ws_upgrade nibble64 ?w))"
    by (metis prod.collapse)
  from ws_upgrade_protocol [OF run] have "length (wire (snd (ws_upgrade nibble64 ?w))) = 2"
    by (auto simp: demo_net_def)
  with run show ?thesis by blast
qed

end
