(* ===== verification/Engine_Socket.thy ===== *)
theory Engine_Socket
  imports Transports Connection
begin

text \<open>
  \<open>engineio/src/socket.rs\<close> and the client half of \<open>engineio/src/client/client.rs\<close>: the blocking
  engine.io socket over a transport, and the client that reacts to what the socket polls.

  The fields behind \<open>Arc\<close>, \<open>AtomicBool\<close>, \<open>Mutex\<close> and \<open>RwLock\<close> are the fields of one record: all
  clones of a client share them, and the locks are taken and released within one statement each, so
  none is held by its own thread when it is taken. A lock is never poisoned here, because no code
  that can panic runs while one is held. A user callback gets data only and runs to its end in a
  scoped thread: the model records that it was called, and with what, in \<open>es_fired\<close>.
\<close>

section \<open>State\<close>

record handshake =
  sid :: rstring
  upgrades :: "rstring list"
  ping_interval :: u64
  ping_timeout :: u64

text \<open>\<open>OnError\<close> carries the error whose rendered text the callback receives.\<close>

datatype ecall = OnOpen | OnClose | OnData bytes | OnError eerror | OnPacket epacket

text \<open>Which of the \<open>OptionalCallback\<close>s are set.\<close>

record ecallbacks =
  has_open :: bool
  has_close :: bool
  has_data :: bool
  has_error :: bool
  has_packet :: bool

record 'u esocket =
  es_transport :: "'u transport"
  es_net :: "'u net"
  es_connected :: bool
  es_last_ping :: nat
  es_last_pong :: nat
  es_handshake :: handshake
  es_remaining :: "epacket list option"
  es_callbacks :: ecallbacks
  es_fired :: "ecall list"

section \<open>Operations of the socket\<close>

definition esocket_new :: "'u transport \<Rightarrow> 'u net \<Rightarrow> handshake \<Rightarrow> ecallbacks \<Rightarrow> 'u esocket" where
  "esocket_new t w hs cbs =
     \<lparr>es_transport = t, es_net = w, es_connected = False, es_last_ping = clock w,
      es_last_pong = clock w, es_handshake = hs, es_remaining = None, es_callbacks = cbs,
      es_fired = []\<rparr>"

text \<open>\<open>if let Some(f) = self.f.as_ref() { spawn_scoped!(f(x)) }\<close>.\<close>

definition fire :: "(ecallbacks \<Rightarrow> bool) \<Rightarrow> ecall \<Rightarrow> 'u esocket \<Rightarrow> 'u esocket" where
  "fire present c s =
     (if present (es_callbacks s) then s\<lparr>es_fired := es_fired s @ [c]\<rparr> else s)"

definition on_net :: "('u net, 'e, 'a) proc \<Rightarrow> ('u esocket, 'e, 'a) proc" where
  "on_net m s = (case m (es_net s) of (r, w) \<Rightarrow> (r, s\<lparr>es_net := w\<rparr>))"

definition pinged :: "'u esocket \<Rightarrow> 'u esocket" where
  "pinged s = s\<lparr>es_last_ping := clock (es_net s)\<rparr>"

definition esocket_emit :: "base64 \<Rightarrow> 'u urllib \<Rightarrow> epacket \<Rightarrow> ('u esocket, eerror, unit) proc" where
  "esocket_emit B U packet s =
     (if \<not> es_connected s then
        (Err EIllegalActionBeforeOpen, fire has_error (OnError EIllegalActionBeforeOpen) s)
      else
        let is_binary = (e_id packet = EMessageBinary);
            data = (if is_binary then e_data packet else epacket_to_bytes B packet)
        in case on_net (transport_emit B U (es_transport s) data is_binary) s of
             (Err e, s') \<Rightarrow> (Err e, fire has_error (OnError e) s')
           | (r, s') \<Rightarrow> (r, s'))"

definition esocket_connect :: "base64 \<Rightarrow> 'u urllib \<Rightarrow> ('u esocket, eerror, unit) proc" where
  "esocket_connect B U s =
     esocket_emit B U (epacket EPong []) (pinged (fire has_open OnOpen (s\<lparr>es_connected := True\<rparr>)))"

definition esocket_disconnect :: "base64 \<Rightarrow> 'u urllib \<Rightarrow> ('u esocket, eerror, unit) proc" where
  "esocket_disconnect B U =
     seq (modify (fire has_close OnClose)) (\<lambda>_.
     seq (ignore (esocket_emit B U (epacket EClose []))) (\<lambda>_.
     modify (\<lambda>s. s\<lparr>es_connected := False\<rparr>)))"

lemma on_net_pending [termination_simp]:
  "(Ok data, s1) = on_net (transport_poll U t) s \<Longrightarrow> pending (es_net s1) < pending (es_net s)"
  by (auto simp: on_net_def split: prod.splits dest: transports.poll_consumes)

function esocket_poll :: "base64 \<Rightarrow> 'u urllib \<Rightarrow> ('u esocket, eerror, epacket option) proc" where
  "esocket_poll B U s =
     (if es_connected s then
        (case es_remaining s of
           Some (packet # rest) \<Rightarrow> (Ok (Some packet), s\<lparr>es_remaining := Some rest\<rparr>)
         | _ \<Rightarrow>
             (case on_net (transport_poll U (es_transport s)) s of
                (Ok data, s1) \<Rightarrow>
                  if data = [] then esocket_poll B U s1
                  else (case payload_try_from B data of
                          Inl e \<Rightarrow> (Err e, s1)
                        | Inr [] \<Rightarrow> esocket_poll B U s1
                        | Inr (packet # iter) \<Rightarrow> (Ok (Some packet), s1\<lparr>es_remaining := Some iter\<rparr>))
              | (Err e, s1) \<Rightarrow> (Err e, s1)
              | (Panic, s1) \<Rightarrow> (Panic, s1)
              | (Block, s1) \<Rightarrow> (Block, s1)))
      else (Ok None, s))"
  by pat_completeness auto
termination
  by (relation "measure (\<lambda>(B, U, s). pending (es_net s))") (auto simp: on_net_pending)

declare esocket_poll.simps [simp del]

definition handle_packet :: "epacket \<Rightarrow> 'u esocket \<Rightarrow> 'u esocket" where
  "handle_packet p = fire has_packet (OnPacket p)"

definition handle_data :: "bytes \<Rightarrow> 'u esocket \<Rightarrow> 'u esocket" where
  "handle_data d = fire has_data (OnData d)"

definition handle_close :: "'u esocket \<Rightarrow> 'u esocket" where
  "handle_close s = (fire has_close OnClose s)\<lparr>es_connected := False\<rparr>"

section \<open>The client\<close>

text \<open>\<open>Client::poll\<close>: the two \<open>unreachable!\<close> arms are panics.\<close>

definition eclient_react :: "base64 \<Rightarrow> 'u urllib \<Rightarrow> epacket \<Rightarrow> ('u esocket, eerror, unit) proc" where
  "eclient_react B U p =
     (case e_id p of
        EMessageBinary \<Rightarrow> modify (handle_data (e_data p))
      | EMessage \<Rightarrow> modify (handle_data (e_data p))
      | EClose \<Rightarrow> modify handle_close
      | EOpen \<Rightarrow> give Panic
      | EUpgrade \<Rightarrow> give (Ok ())
      | EPing \<Rightarrow> seq (modify pinged) (\<lambda>_. esocket_emit B U (epacket EPong []))
      | EPong \<Rightarrow> give Panic
      | ENoop \<Rightarrow> give (Ok ()))"

definition eclient_poll :: "base64 \<Rightarrow> 'u urllib \<Rightarrow> ('u esocket, eerror, epacket option) proc" where
  "eclient_poll B U =
     seq (esocket_poll B U) (\<lambda>o'.
       case o' of
         None \<Rightarrow> give (Ok None)
       | Some packet \<Rightarrow>
           seq (modify (handle_packet packet)) (\<lambda>_.
           seq (eclient_react B U packet) (\<lambda>_.
           give (Ok (Some packet)))))"

section \<open>What the operations leave alone\<close>

lemma fire_fields [simp]:
  "es_net (fire c e s) = es_net s" "es_connected (fire c e s) = es_connected s"
  "es_transport (fire c e s) = es_transport s" "es_remaining (fire c e s) = es_remaining s"
  "es_callbacks (fire c e s) = es_callbacks s" "es_handshake (fire c e s) = es_handshake s"
  by (simp_all add: fire_def)

lemma pinged_fields [simp]:
  "es_net (pinged s) = es_net s" "es_connected (pinged s) = es_connected s"
  "es_transport (pinged s) = es_transport s" "es_remaining (pinged s) = es_remaining s"
  "es_callbacks (pinged s) = es_callbacks s" "es_fired (pinged s) = es_fired s"
  by (simp_all add: pinged_def)

lemma handle_fields [simp]:
  "es_net (handle_packet p s) = es_net s" "es_net (handle_data d s) = es_net s"
  "es_net (handle_close s) = es_net s"
  "es_connected (handle_packet p s) = es_connected s" "es_connected (handle_data d s) = es_connected s"
  "es_connected (handle_close s) = False"
  "es_transport (handle_packet p s) = es_transport s" "es_transport (handle_data d s) = es_transport s"
  "es_transport (handle_close s) = es_transport s"
  "es_remaining (handle_packet p s) = es_remaining s" "es_remaining (handle_data d s) = es_remaining s"
  "es_remaining (handle_close s) = es_remaining s"
  by (simp_all add: handle_packet_def handle_data_def handle_close_def)

lemma esocket_emit_fields:
  "es_connected (snd (esocket_emit B U p s)) = es_connected s"
  "es_transport (snd (esocket_emit B U p s)) = es_transport s"
  "es_remaining (snd (esocket_emit B U p s)) = es_remaining s"
  "es_callbacks (snd (esocket_emit B U p s)) = es_callbacks s"
  by (auto simp: esocket_emit_def on_net_def Let_def split: prod.splits outcome.splits)

lemma esocket_emit_net:
  "pending (es_net (snd (esocket_emit B U p s))) = pending (es_net s)"
  "extends (es_net s) (es_net (snd (esocket_emit B U p s)))"
  using transport_emit_net [where B = B and U = U and t = "es_transport s"]
  by (auto simp: esocket_emit_def on_net_def Let_def split: prod.splits outcome.splits)
    (metis snd_conv)+

lemma esocket_emit_closed:
  "\<not> es_connected s \<Longrightarrow>
     esocket_emit B U p s =
       (Err EIllegalActionBeforeOpen, fire has_error (OnError EIllegalActionBeforeOpen) s)"
  by (simp add: esocket_emit_def)

interpretation esock: connection "esocket_emit B U" "esocket_disconnect B U" es_connected
    "\<lambda>s. wire (es_net s)" EIllegalActionBeforeOpen
  for B :: base64 and U :: "'u urllib"
  by unfold_locales
    (auto simp: esocket_emit_closed esocket_emit_fields esocket_disconnect_def elim!: seq_OkE)

section \<open>What a successful emit puts on the network\<close>

definition emit_request ::
  "base64 \<Rightarrow> 'u urllib \<Rightarrow> 'u transport \<Rightarrow> bytes \<Rightarrow> bool \<Rightarrow> 'u net \<Rightarrow> 'u request" where
  "emit_request B U t data is_binary w =
     (case t of
        Polling u \<Rightarrow> HttpPost (address U u w)
          (if is_binary then of_char CHR ''b'' # b64_encode B data else data)
      | _ \<Rightarrow> WsSend (if is_binary then WsBinary data
                    else WsText (case from_utf8 data of Some s \<Rightarrow> s | None \<Rightarrow> [])))"

lemma transport_emit_wire:
  assumes "transport_emit B U t data b w = (Ok (), w')"
  shows "wire w' = wire w @ [emit_request B U t data b w]"
  using assms
  by (auto simp: transport_emit_def polling_emit_def ws_emit_def ws_send_text_def ws_send_def
      emit_request_def log_request_def address_def Let_def
      split: transport.splits list.splits sum.splits option.splits if_splits)

text \<open>The network takes the next message on this transport.\<close>

definition accepts :: "'u transport \<Rightarrow> 'u net \<Rightarrow> bool" where
  "accepts t w =
     (case t of
        Polling _ \<Rightarrow> (case post_in w of Inr st # _ \<Rightarrow> st = 200 | _ \<Rightarrow> False)
      | _ \<Rightarrow> (case ws_send_in w of Inr _ # _ \<Rightarrow> True | _ \<Rightarrow> False))"

lemma transport_emit_accepted:
  assumes "accepts t w" "b \<or> from_utf8 data \<noteq> None"
  shows "fst (transport_emit B U t data b w) = Ok ()"
  using assms
  by (auto simp: accepts_def transport_emit_def polling_emit_def ws_emit_def ws_send_text_def
      ws_send_def log_request_def Let_def
      split: transport.splits list.splits sum.splits option.splits if_splits)

lemma transport_poll_accepts: "accepts t (snd (transport_poll U t w)) = accepts t w"
proof -
  obtain es where "ws_poll w = (fst (ws_poll w), w\<lparr>ws_in := es\<rparr>)"
    using ws_poll_net by blast
  then have "snd (ws_poll w) = w\<lparr>ws_in := es\<rparr>" by (metis snd_conv)
  moreover have "post_in (snd (polling_poll U u w)) = post_in w" for u
    by (auto simp: polling_poll_def log_request_def Let_def split: list.splits sum.splits)
  ultimately show ?thesis by (simp add: accepts_def transport_poll_def split: transport.splits)
qed

lemma esocket_emit_accepted:
  assumes "es_connected s" "accepts (es_transport s) (es_net s)"
    and "e_id p = EMessageBinary \<or> from_utf8 (epacket_to_bytes B p) \<noteq> None"
  shows "\<exists>s'. esocket_emit B U p s = (Ok (), s')
    \<and> wire (es_net s') = wire (es_net s) @
        [emit_request B U (es_transport s)
          (if e_id p = EMessageBinary then e_data p else epacket_to_bytes B p)
          (e_id p = EMessageBinary) (es_net s)]"
proof -
  let ?b = "e_id p = EMessageBinary"
  let ?d = "if ?b then e_data p else epacket_to_bytes B p"
  have "fst (transport_emit B U (es_transport s) ?d ?b (es_net s)) = Ok ()"
    using assms by (intro transport_emit_accepted) auto
  then obtain w where w: "transport_emit B U (es_transport s) ?d ?b (es_net s) = (Ok (), w)"
    by (metis prod.collapse)
  with transport_emit_wire [OF w] assms(1) show ?thesis
    by (simp add: esocket_emit_def on_net_def Let_def)
qed

section \<open>The incoming packets as one sequence\<close>

text \<open>
  The specification of polling: the packets (and errors) still to come, in order. It is the unread
  rest of the current payload followed by what each further answer of the network decodes to.
\<close>

definition body_items :: "base64 \<Rightarrow> bytes \<Rightarrow> (eerror + epacket) list" where
  "body_items B data =
     (if data = [] then []
      else case payload_try_from B data of Inl e \<Rightarrow> [Inl e] | Inr ps \<Rightarrow> map Inr ps)"

definition get_items :: "base64 \<Rightarrow> rstring + bytes \<Rightarrow> (eerror + epacket) list" where
  "get_items B r =
     (case r of Inl e \<Rightarrow> [Inl (EIncompleteResponseFromReqwest e)] | Inr body \<Rightarrow> body_items B body)"

fun ws_items :: "base64 \<Rightarrow> ws_event \<Rightarrow> (eerror + epacket) list" where
  "ws_items B (WsMsg (WsText s)) = body_items B (utf8 s)"
| "ws_items B (WsMsg (WsBinary d)) = body_items B (4 # d)"
| "ws_items B (WsMsg (WsOther d)) = []"
| "ws_items B (WsErr e) = [Inl EIncompletePacket]"
| "ws_items B WsEnd = [Inl EIncompletePacket]"

definition net_items :: "base64 \<Rightarrow> 'u transport \<Rightarrow> 'u net \<Rightarrow> (eerror + epacket) list" where
  "net_items B t w =
     (case t of
        Polling _ \<Rightarrow> concat (map (get_items B) (get_in w))
      | _ \<Rightarrow> concat (map (ws_items B) (ws_in w)))"

definition backlog :: "base64 \<Rightarrow> 'u esocket \<Rightarrow> (eerror + epacket) list" where
  "backlog B s =
     map Inr (case es_remaining s of Some ps \<Rightarrow> ps | None \<Rightarrow> []) @
     net_items B (es_transport s) (es_net s)"

lemma payload_scan_ne: "payload_scan d s i l vec = Inr ps \<Longrightarrow> ps \<noteq> []"
proof (induction d s i l vec rule: payload_scan.induct)
  case (1 d s i l vec)
  then show ?case
    by (auto simp: payload_scan.simps [of d s i l vec] split: if_splits sum.splits)
qed

lemma payload_try_from_ne: "payload_try_from B data \<noteq> Inr []"
  using payload_scan_ne by (fastforce simp: payload_try_from_def)

lemma ws_read_items:
  "(case ws_read es of
      (Ok (Some d), es') \<Rightarrow> concat (map (ws_items B) es) = body_items B d @ concat (map (ws_items B) es')
    | (Ok None, es') \<Rightarrow> concat (map (ws_items B) es) = Inl EIncompletePacket # concat (map (ws_items B) es')
    | (Err e, es') \<Rightarrow> concat (map (ws_items B) es) = Inl EIncompletePacket # concat (map (ws_items B) es')
    | (Panic, es') \<Rightarrow> False
    | (Block, es') \<Rightarrow> concat (map (ws_items B) es) = [] \<and> es' = [])"
  by (induction es rule: ws_read.induct)
    (auto split: prod.splits outcome.splits option.splits)

lemma ws_poll_items:
  "(case ws_poll w of
      (Ok d, w') \<Rightarrow> concat (map (ws_items B) (ws_in w)) = body_items B d @ concat (map (ws_items B) (ws_in w'))
    | (Err e, w') \<Rightarrow> concat (map (ws_items B) (ws_in w)) = Inl e # concat (map (ws_items B) (ws_in w'))
    | (Panic, w') \<Rightarrow> False
    | (Block, w') \<Rightarrow> concat (map (ws_items B) (ws_in w)) = [] \<and> ws_in w' = [])"
  using ws_read_items [where B = B and es = "ws_in w"]
  by (auto simp: ws_poll_def ws_poll_next_def split: prod.splits outcome.splits option.splits)

lemma transport_poll_items:
  "(case transport_poll U t w of
      (Ok d, w') \<Rightarrow> net_items B t w = body_items B d @ net_items B t w'
    | (Err e, w') \<Rightarrow> net_items B t w = Inl e # net_items B t w'
    | (Panic, w') \<Rightarrow> False
    | (Block, w') \<Rightarrow> net_items B t w = [] \<and> net_items B t w' = [])"
proof (cases t)
  case (Polling u)
  then show ?thesis
    by (auto simp: transport_poll_def polling_poll_def net_items_def get_items_def log_request_def
        Let_def split: list.splits sum.splits)
qed (use ws_poll_items [where w = w and B = B] in \<open>auto simp: transport_poll_def net_items_def split: prod.splits outcome.splits\<close>)

text \<open>One poll against the specification: the head of the sequence is returned and dropped.\<close>

definition poll_spec ::
  "(eerror + epacket) list \<Rightarrow> (eerror, epacket option) outcome \<times> (eerror + epacket) list" where
  "poll_spec items =
     (case items of
        [] \<Rightarrow> (Block, [])
      | Inl e # rest \<Rightarrow> (Err e, rest)
      | Inr p # rest \<Rightarrow> (Ok (Some p), rest))"

lemma poll_spec_simps [simp]:
  "poll_spec [] = (Block, [])"
  "poll_spec (Inl e # rest) = (Err e, rest)"
  "poll_spec (Inr p # rest) = (Ok (Some p), rest)"
  by (simp_all add: poll_spec_def)

lemma esocket_poll_fields:
  "es_connected (snd (esocket_poll B U s)) = es_connected s \<and>
   es_transport (snd (esocket_poll B U s)) = es_transport s \<and>
   es_callbacks (snd (esocket_poll B U s)) = es_callbacks s \<and>
   es_fired (snd (esocket_poll B U s)) = es_fired s"
proof (induction B U s rule: esocket_poll.induct)
  case (1 B U s)
  then show ?case
    by (auto simp: esocket_poll.simps [of B U s] on_net_def
        split: list.splits option.splits prod.splits outcome.splits sum.splits)
qed

lemmas esocket_poll_frame [frame] =
  esocket_poll_fields [THEN conjunct1]
  esocket_poll_fields [THEN conjunct2, THEN conjunct1]
  esocket_poll_fields [THEN conjunct2, THEN conjunct2, THEN conjunct1]
  esocket_poll_fields [THEN conjunct2, THEN conjunct2, THEN conjunct2]

text \<open>A property of the network that every read of the transport keeps is kept by polling.\<close>

lemma esocket_poll_net_rule:
  assumes "\<And>w. P w \<Longrightarrow> P (snd (transport_poll U (es_transport s) w))" "P (es_net s)"
  shows "P (es_net (snd (esocket_poll B U s)))"
  using assms
proof (induction B U s rule: esocket_poll.induct)
  case (1 B U s)
  have one: "P w" if "transport_poll U (es_transport s) (es_net s) = (r, w)" for r w
    using "1.prems" that by (metis snd_conv)
  show ?case
    using "1.IH" "1.prems" one
    by (auto simp: esocket_poll.simps [of B U s] on_net_def
        split: list.splits option.splits prod.splits outcome.splits sum.splits)
qed

lemma esocket_poll_accepts:
  "accepts (es_transport s) (es_net (snd (esocket_poll B U s))) = accepts (es_transport s) (es_net s)"
  by (rule esocket_poll_net_rule [where P = "\<lambda>w. accepts (es_transport s) w = accepts (es_transport s) (es_net s)"])
    (simp_all add: transport_poll_accepts)

lemma esocket_poll_extends: "extends (es_net s) (es_net (snd (esocket_poll B U s)))"
  by (rule esocket_poll_net_rule [where P = "extends (es_net s)"])
    (auto intro: transports.grows_trans transports.poll_grows)

lemma esocket_poll_closed: "\<not> es_connected s \<Longrightarrow> esocket_poll B U s = (Ok None, s)"
  by (subst esocket_poll.simps) simp

lemma esocket_poll_refines:
  assumes "es_connected s"
  shows "(fst (esocket_poll B U s), backlog B (snd (esocket_poll B U s))) = poll_spec (backlog B s)"
  using assms
proof (induction B U s rule: esocket_poll.induct)
  case (1 B U s)
  note con = "1.prems"
  show ?case
  proof (cases "\<exists>p ps. es_remaining s = Some (p # ps)")
    case True
    with con show ?thesis
      by (auto simp: esocket_poll.simps [of B U s] backlog_def)
  next
    case False
    then have rem: "es_remaining s = None \<or> es_remaining s = Some []"
      by (metis list.exhaust option.exhaust)
    then have items: "backlog B s = net_items B (es_transport s) (es_net s)"
      by (auto simp: backlog_def)
    obtain r w where poll: "transport_poll U (es_transport s) (es_net s) = (r, w)"
      by fastforce
    let ?s1 = "s\<lparr>es_net := w\<rparr>"
    have on: "on_net (transport_poll U (es_transport s)) s = (r, ?s1)"
      by (simp add: on_net_def poll)
    have items1: "backlog B ?s1 = net_items B (es_transport s) w"
      using rem by (auto simp: backlog_def)
    note step = transport_poll_items [where U = U and t = "es_transport s" and w = "es_net s" and B = B, unfolded poll]
    show ?thesis
    proof (cases r)
      case (Ok data)
      have head: "backlog B s = body_items B data @ backlog B ?s1"
        using step Ok items items1 by simp
      have again: "(fst (esocket_poll B U ?s1), backlog B (snd (esocket_poll B U ?s1)))
          = poll_spec (backlog B ?s1)" if "data = []"
        using "1.IH" con rem on Ok that by auto
      show ?thesis
        using con rem on Ok head again items1 payload_try_from_ne [of B data]
        by (auto simp: esocket_poll.simps [of B U s] body_items_def backlog_def
            split: sum.splits list.splits)
    next
      case (Err e)
      with step con rem on items items1 show ?thesis
        by (auto simp: esocket_poll.simps [of B U s])
    next
      case Panic
      with step show ?thesis by simp
    next
      case Block
      with step con rem on items items1 show ?thesis
        by (auto simp: esocket_poll.simps [of B U s])
    qed
  qed
qed

section \<open>Properties\<close>

text \<open>A websocket connection used as the input of the witnesses.\<close>

definition demo_urls :: "nat urllib" where
  "demo_urls =
     \<lparr>url_parse = (\<lambda>s. Inr 0), url_path = (\<lambda>u. lit ''/''), url_set_path = (\<lambda>u s. u),
      url_scheme = (\<lambda>u. lit ''http''), url_set_scheme = (\<lambda>u s. Some u), url_pairs = (\<lambda>u. []),
      url_append = (\<lambda>u k v. Suc u), time_hash = (\<lambda>n. [])\<rparr>"

definition demo_socket :: "ws_event list \<Rightarrow> nat esocket" where
  "demo_socket es =
     (esocket_new (Websocket 0) (demo_net es)
        \<lparr>sid = [], upgrades = [], ping_interval = 0, ping_timeout = 0\<rparr>
        \<lparr>has_open = False, has_close = True, has_data = True, has_error = False, has_packet = False\<rparr>)
     \<lparr>es_connected := True\<rparr>"

lemma demo_socket_fields [simp]:
  "es_connected (demo_socket es)" "es_transport (demo_socket es) = Websocket 0"
  "es_remaining (demo_socket es) = None" "es_net (demo_socket es) = demo_net es"
  "has_close (es_callbacks (demo_socket es))"
  by (simp_all add: demo_socket_def esocket_new_def)

lemma demo_accepts [simp]: "accepts (Websocket 0) (demo_net es)"
  by (simp add: accepts_def demo_net_def)

lemma demo_backlog: "backlog B (demo_socket es) = concat (map (ws_items B) es)"
  by (simp add: backlog_def net_items_def demo_net_def)

lemma ws_items_plain:
  "separator \<notin> set (utf8 s) \<Longrightarrow> utf8 s \<noteq> [] \<Longrightarrow>
     ws_items B (WsMsg (WsText s)) = [epacket_try_from B (utf8 s)]"
  by (simp add: body_items_def payload_try_from_def payload_scan_split slice_def split_at_fresh
      split: sum.splits)

lemma ws_items_char:
  assumes "c < 128" "word_of_nat c \<noteq> separator"
  shows "ws_items B (WsMsg (WsText [c])) = [epacket_try_from B [word_of_nat c]]"
  using ws_items_plain [of "[c]" B] assms by simp

lemma demo_backlog_items:
  "backlog B (demo_socket [WsMsg (WsText (lit ''2''))]) = [Inr (epacket EPing [])]"
  "backlog B (demo_socket [WsMsg (WsText (lit ''1''))]) = [Inr (epacket EClose [])]"
  by (simp_all add: demo_backlog ws_items_char separator_def epacket_try_from_def
      epacket_id_try_from_def epacket_def del: ws_items.simps)

text \<open>C10: polling delivers the incoming packets in order and loses none. A poll of a connected socket
  returns the first element of the sequence of packets and errors still to come, and leaves the
  rest; it blocks exactly when there is none. In particular the loop always ends.\<close>

theorem esocket_poll_fifo:
  assumes "es_connected s"
  shows "(fst (esocket_poll B U s), backlog B (snd (esocket_poll B U s))) = poll_spec (backlog B s)"
  by (rule esocket_poll_refines [OF assms])

theorem esocket_poll_fifo_witness:
  "(fst (esocket_poll nibble64 demo_urls (demo_socket [WsMsg (WsText (lit ''2''))])),
    backlog nibble64 (snd (esocket_poll nibble64 demo_urls (demo_socket [WsMsg (WsText (lit ''2''))]))))
   = (Ok (Some (epacket EPing [])), [])"
  using esocket_poll_fifo [of "demo_socket [WsMsg (WsText (lit ''2''))]" nibble64 demo_urls]
  by (simp only: demo_backlog_items poll_spec_simps demo_socket_fields)

lemma transport_emit_no_panic [simp]: "transport_emit B U t d b w \<noteq> (Panic, w')"
  by (auto simp: transport_emit_def polling_emit_def ws_emit_def ws_send_text_def ws_send_def
      log_request_def Let_def split: transport.splits list.splits sum.splits option.splits)

lemma esocket_emit_no_panic: "fst (esocket_emit B U p s) \<noteq> Panic"
  by (auto simp: esocket_emit_def on_net_def Let_def split: prod.splits outcome.splits)

lemma eclient_react_panic: "fst (eclient_react B U p s) = Panic \<longleftrightarrow> e_id p = EOpen \<or> e_id p = EPong"
  by (simp add: eclient_react_def esocket_emit_no_panic split: epacket_id.splits)

lemma eclient_poll_step:
  "eclient_poll B U s =
     (case esocket_poll B U s of
        (Ok None, s1) \<Rightarrow> (Ok None, s1)
      | (Ok (Some p), s1) \<Rightarrow>
          (case eclient_react B U p (handle_packet p s1) of
             (Ok _, s2) \<Rightarrow> (Ok (Some p), s2)
           | (Err e, s2) \<Rightarrow> (Err e, s2)
           | (Panic, s2) \<Rightarrow> (Panic, s2)
           | (Block, s2) \<Rightarrow> (Block, s2))
      | (Err e, s1) \<Rightarrow> (Err e, s1)
      | (Panic, s1) \<Rightarrow> (Panic, s1)
      | (Block, s1) \<Rightarrow> (Block, s1))"
  by (auto simp: eclient_poll_def seq_def split: prod.splits outcome.splits option.splits)

text \<open>The blocking client panics exactly when the next packet from the server is an \<open>Open\<close> or a
  \<open>Pong\<close>; the two \<open>unreachable!\<close> arms can be reached by the server, and nothing else in polling
  panics.\<close>

theorem eclient_poll_panics:
  "fst (eclient_poll B U s) = Panic \<longleftrightarrow>
     es_connected s \<and>
     (\<exists>p rest. backlog B s = Inr p # rest \<and> (e_id p = EOpen \<or> e_id p = EPong))"
proof (cases "es_connected s")
  case True
  note ref = esocket_poll_refines [OF True, of B U]
  show ?thesis
  proof (cases "backlog B s")
    case Nil
    with ref True show ?thesis by (auto simp: eclient_poll_step split: prod.splits)
  next
    case (Cons item rest)
    show ?thesis
    proof (cases item)
      case (Inl e)
      with ref True Cons show ?thesis by (auto simp: eclient_poll_step split: prod.splits)
    next
      case (Inr p)
      with ref Cons have "fst (esocket_poll B U s) = Ok (Some p)" by simp
      then obtain s1 where "esocket_poll B U s = (Ok (Some p), s1)" by (metis prod.collapse)
      with True Cons Inr eclient_react_panic [of B U p "handle_packet p s1"] show ?thesis
        by (auto simp: eclient_poll_step split: prod.splits outcome.splits)
    qed
  qed
qed (simp add: eclient_poll_step esocket_poll_closed)

text \<open>The head of the backlog is what the client returns and reacts to.\<close>

lemma eclient_poll_head:
  assumes "es_connected s" "backlog B s = Inr p # rest"
  obtains s1 where "esocket_poll B U s = (Ok (Some p), s1)" "backlog B s1 = rest"
    and "eclient_poll B U s =
      (case eclient_react B U p (handle_packet p s1) of
         (Ok _, s2) \<Rightarrow> (Ok (Some p), s2)
       | (Err e, s2) \<Rightarrow> (Err e, s2)
       | (Panic, s2) \<Rightarrow> (Panic, s2)
       | (Block, s2) \<Rightarrow> (Block, s2))"
proof -
  have "fst (esocket_poll B U s) = Ok (Some p)" "backlog B (snd (esocket_poll B U s)) = rest"
    using esocket_poll_refines [OF assms(1), of B U] assms(2) by simp_all
  moreover from this obtain s1 where "esocket_poll B U s = (Ok (Some p), s1)" by (metis prod.collapse)
  ultimately show thesis using that by (simp add: eclient_poll_step)
qed

lemma pong_bytes [simp]: "epacket_to_bytes B (epacket EPong []) = ascii ''3''"
  by (simp add: epacket_to_bytes_def epacket_def)

lemma epacket_sel [simp]: "e_id (epacket i d) = i" "e_data (epacket i d) = d"
  by (simp_all add: epacket_def)

lemma eclient_ping_accepted:
  assumes "es_connected s" and "backlog B s = Inr p # rest" and "e_id p = EPing"
    and "accepts (es_transport s) (es_net s)"
  shows "\<exists>s'. eclient_poll B U s = (Ok (Some p), s') \<and> wire (es_net s') \<noteq> [] \<and>
    (case (es_transport s, last (wire (es_net s'))) of
       (Polling u, HttpPost a body) \<Rightarrow> body = ascii ''3'' \<and> (\<exists>n. a = url_append U u (lit ''t'') (time_hash U n))
     | (Polling u, _) \<Rightarrow> False
     | (_, r) \<Rightarrow> r = WsSend (WsText (lit ''3'')))"
proof -
  from assms(1,2) obtain s1 where poll: "esocket_poll B U s = (Ok (Some p), s1)"
    and out: "eclient_poll B U s =
      (case eclient_react B U p (handle_packet p s1) of
         (Ok _, s2) \<Rightarrow> (Ok (Some p), s2)
       | (Err e, s2) \<Rightarrow> (Err e, s2)
       | (Panic, s2) \<Rightarrow> (Panic, s2)
       | (Block, s2) \<Rightarrow> (Block, s2))"
    by (rule eclient_poll_head)
  let ?s2 = "pinged (handle_packet p s1)"
  have t: "es_transport s1 = es_transport s" "es_connected s1"
    using esocket_poll_frame [of B U s] assms(1) by (simp_all add: poll)
  have acc: "accepts (es_transport s) (es_net s1)"
    using esocket_poll_accepts [of s B U] assms(4) by (simp add: poll)
  have "\<exists>s'. esocket_emit B U (epacket EPong []) ?s2 = (Ok (), s')
      \<and> wire (es_net s') = wire (es_net ?s2) @
          [emit_request B U (es_transport ?s2)
            (if e_id (epacket EPong []) = EMessageBinary then e_data (epacket EPong [])
             else epacket_to_bytes B (epacket EPong []))
            (e_id (epacket EPong []) = EMessageBinary) (es_net ?s2)]"
    by (rule esocket_emit_accepted) (simp_all add: t acc from_utf8_def)
  then obtain s' where "esocket_emit B U (epacket EPong []) ?s2 = (Ok (), s')"
    and "wire (es_net s') = wire (es_net s1) @
      [emit_request B U (es_transport s) (ascii ''3'') False (es_net s1)]"
    by (auto simp: t)
  with out assms(3) show ?thesis
    by (auto simp: eclient_react_def emit_request_def address_def from_utf8_def split: transport.splits)
qed

text \<open>A ping is answered. When the next packet is a \<open>Ping\<close> and the network takes the next message,
  the client returns the ping after sending a \<open>Pong\<close> packet, which is the last thing on the wire:
  the text frame \<open>3\<close> on a websocket, a POST with body \<open>3\<close> when polling.\<close>

theorem eclient_ping_answered:
  assumes "es_connected s" and "backlog B s = Inr p # rest" and "e_id p = EPing"
    and "accepts (es_transport s) (es_net s)"
  shows "\<exists>s'. eclient_poll B U s = (Ok (Some p), s') \<and> wire (es_net s') \<noteq> [] \<and>
    (case (es_transport s, last (wire (es_net s'))) of
       (Polling u, HttpPost a body) \<Rightarrow> body = ascii ''3'' \<and> (\<exists>n. a = url_append U u (lit ''t'') (time_hash U n))
     | (Polling u, _) \<Rightarrow> False
     | (_, r) \<Rightarrow> r = WsSend (WsText (lit ''3'')))"
  by (rule eclient_ping_accepted [OF assms])

theorem eclient_ping_answered_witness:
  "\<exists>s'. eclient_poll nibble64 demo_urls (demo_socket [WsMsg (WsText (lit ''2''))])
       = (Ok (Some (epacket EPing [])), s') \<and>
     last (wire (es_net s')) = WsSend (WsText (lit ''3''))"
proof -
  let ?s = "demo_socket [WsMsg (WsText (lit ''2''))]"
  have "e_id (epacket EPing []) = EPing" "accepts (es_transport ?s) (es_net ?s)"
    by simp_all
  from eclient_ping_answered [OF demo_socket_fields(1) demo_backlog_items(1) this]
  show ?thesis by (simp only: demo_socket_fields) auto
qed

text \<open>A \<open>Close\<close> packet from the server ends the connection: the poll that meets it returns it,
  calls \<open>on_close\<close> if it is set, and every further poll returns \<open>None\<close> and changes nothing.\<close>

theorem eclient_close_received:
  assumes "es_connected s" and "backlog B s = Inr p # rest" and "e_id p = EClose"
  shows "\<exists>s'. eclient_poll B U s = (Ok (Some p), s') \<and> \<not> es_connected s' \<and>
    (has_close (es_callbacks s) \<longrightarrow> es_fired s' \<noteq> [] \<and> last (es_fired s') = OnClose) \<and>
    eclient_poll B U s' = (Ok None, s')"
proof -
  from assms(1,2) obtain s1 where poll: "esocket_poll B U s = (Ok (Some p), s1)"
    and out: "eclient_poll B U s =
      (case eclient_react B U p (handle_packet p s1) of
         (Ok _, s2) \<Rightarrow> (Ok (Some p), s2)
       | (Err e, s2) \<Rightarrow> (Err e, s2)
       | (Panic, s2) \<Rightarrow> (Panic, s2)
       | (Block, s2) \<Rightarrow> (Block, s2))"
    by (rule eclient_poll_head)
  have cbs: "es_callbacks s1 = es_callbacks s"
    using esocket_poll_frame [of B U s] by (simp add: poll)
  show ?thesis
    using out assms(3) cbs
    by (simp add: eclient_react_def eclient_poll_step [of B U "handle_close (handle_packet p s1)"]
        esocket_poll_closed)
      (auto simp: handle_close_def handle_packet_def fire_def)
qed

theorem eclient_close_received_witness:
  "\<exists>s'. eclient_poll nibble64 demo_urls (demo_socket [WsMsg (WsText (lit ''1''))])
       = (Ok (Some (epacket EClose [])), s') \<and>
     \<not> es_connected s' \<and> last (es_fired s') = OnClose"
proof -
  let ?s = "demo_socket [WsMsg (WsText (lit ''1''))]"
  have "e_id (epacket EClose []) = EClose" by simp
  from eclient_close_received [OF demo_socket_fields(1) demo_backlog_items(2) this]
  show ?thesis by auto
qed

text \<open>After \<open>disconnect\<close> the client is silent: polling returns \<open>None\<close>, and whatever is emitted is
  refused with \<open>IllegalActionBeforeOpen\<close> without anything reaching the network.\<close>

theorem esocket_disconnect_silent:
  assumes "esocket_disconnect B U s = (Ok u, s')"
  shows "esocket_poll B U s' = (Ok None, s') \<and>
    fst (run_all (esocket_emit B U) ps s') = replicate (length ps) (Err EIllegalActionBeforeOpen) \<and>
    wire (es_net (snd (run_all (esocket_emit B U) ps s'))) = wire (es_net s')"
  using esock.close_closes [OF assms] esock.closed_silent [OF assms]
  by (simp add: esocket_poll_closed)

theorem esocket_disconnect_silent_witness:
  "\<exists>s'. esocket_disconnect nibble64 demo_urls (demo_socket []) = (Ok (), s') \<and>
     fst (run_all (esocket_emit nibble64 demo_urls) [epacket EMessage [7]] s')
       = [Err EIllegalActionBeforeOpen]"
proof -
  have "fst (esocket_disconnect nibble64 demo_urls (demo_socket [])) = Ok ()"
    by (auto simp: esocket_disconnect_def seq_def ignore_def esocket_emit_def on_net_def Let_def
        demo_socket_def esocket_new_def demo_net_def fire_def transport_emit_def ws_emit_def
        ws_send_text_def ws_send_def log_request_def epacket_def epacket_to_bytes_def from_utf8_def
        split: prod.splits outcome.splits)
  then obtain s' where run: "esocket_disconnect nibble64 demo_urls (demo_socket []) = (Ok (), s')"
    by (metis prod.collapse)
  from esocket_disconnect_silent [OF run, of "[epacket EMessage [7]]"] run show ?thesis by auto
qed

text \<open>Sending reads nothing, and a poll that returns a packet takes exactly that one from the backlog.\<close>

lemma net_items_emit: "net_items B t (snd (transport_emit B' U t' d b w)) = net_items B t w"
  by (simp add: net_items_def transport_emit_ins split: transport.splits)

lemma esocket_emit_backlog: "backlog B (snd (esocket_emit B' U p s)) = backlog B s"
proof -
  have "net_items B (es_transport s) (es_net (snd (esocket_emit B' U p s))) =
      net_items B (es_transport s) (es_net s)"
    using net_items_emit [where B' = B' and U = U and t' = "es_transport s"]
    by (auto simp: esocket_emit_def on_net_def Let_def split: prod.splits outcome.splits)
      (metis snd_conv)+
  then show ?thesis by (simp add: backlog_def esocket_emit_fields)
qed

lemma backlog_steps [simp]:
  "backlog B (pinged s) = backlog B s" "backlog B (handle_packet p s) = backlog B s"
  "backlog B (handle_data d s) = backlog B s" "backlog B (handle_close s) = backlog B s"
  by (simp_all add: backlog_def)

lemma eclient_react_backlog: "backlog B (snd (eclient_react B' U p s)) = backlog B s"
  by (simp add: eclient_react_def esocket_emit_backlog split: epacket_id.splits)

lemma eclient_poll_backlog:
  assumes "eclient_poll B U s = (Ok (Some p), s')"
  shows "backlog B s = Inr p # backlog B s' \<and> es_connected s"
proof -
  have con: "es_connected s"
    using assms by (cases "es_connected s") (simp_all add: eclient_poll_step esocket_poll_closed)
  obtain s1 where s1: "esocket_poll B U s = (Ok (Some p), s1)"
    and "snd (eclient_react B U p (handle_packet p s1)) = s'"
    using assms by (auto simp: eclient_poll_step split: prod.splits outcome.splits option.splits)
  then have "backlog B s' = backlog B s1"
    using eclient_react_backlog [of B B U p "handle_packet p s1"] by simp
  moreover have "(Ok (Some p), backlog B s1) = poll_spec (backlog B s)"
    using esocket_poll_refines [OF con, of B U] s1 by simp
  ultimately show ?thesis
    using con by (auto simp: poll_spec_def split: list.splits sum.splits)
qed

lemma split_at_single: "split_at c xs = [ys] \<longleftrightarrow> c \<notin> set xs \<and> ys = xs"
proof (induction xs arbitrary: ys)
  case (Cons x xs)
  then show ?case by (cases "split_at c xs") auto
qed auto

lemma decode_all_length: "decode_all f xs = Inr ys \<Longrightarrow> length ys = length xs"
  by (induction xs arbitrary: ys) (auto split: sum.splits)

text \<open>A binary websocket frame reaches the client as one \<open>Message\<close> with its bytes exactly when it
  is not empty and holds no byte \<open>0x1e\<close>: the payload decoder runs on websocket data too and cuts
  it at the separator.\<close>

theorem binary_frame_delivery:
  "ws_items B (WsMsg (WsBinary d)) = [Inr (epacket EMessage d)] \<longleftrightarrow> d \<noteq> [] \<and> separator \<notin> set d"
proof -
  have sep4: "separator \<noteq> 4" "4 \<noteq> separator" by (simp_all add: separator_def)
  have one: "epacket_try_from B (4 # x) =
      (if x = [] then Inl EIncompletePacket else Inr (epacket EMessage x))" for x
    by (auto simp: epacket_try_from_def epacket_id_try_from_def epacket_def)
  show ?thesis
  proof
    assume "d \<noteq> [] \<and> separator \<notin> set d"
    then show "ws_items B (WsMsg (WsBinary d)) = [Inr (epacket EMessage d)]"
      using sep4
      by (simp add: body_items_def payload_try_from_def payload_scan_split slice_def split_at_fresh
          one del: split_at.simps)
  next
    assume items: "ws_items B (WsMsg (WsBinary d)) = [Inr (epacket EMessage d)]"
    then have dec: "decode_all (epacket_try_from B) (split_at separator (4 # d)) = Inr [epacket EMessage d]"
      by (auto simp: body_items_def payload_try_from_def payload_scan_split slice_def
          simp del: split_at.simps split: sum.splits)
    then have "length (split_at separator (4 # d)) = 1"
      using decode_all_length by fastforce
    then obtain y where "split_at separator (4 # d) = [y]"
      by (metis One_nat_def length_0_conv length_Suc_conv)
    then have y: "separator \<notin> set (4 # d)" "y = 4 # d"
      using split_at_single [of separator "4 # d" y] by blast+
    with dec one [of d] show "d \<noteq> [] \<and> separator \<notin> set d"
      by (simp add: split_at_fresh del: split_at.simps split: if_splits)
  qed
qed

end
