(* ===== verification/Engine_Header.thy ===== *)
theory Engine_Header
  imports Engine_Packet "HOL-Library.AList"
begin

text \<open>
  \<open>engineio/src/header.rs\<close>: the crate's own header map and its conversion into the \<open>http\<close> crate's.
  A \<open>HeaderName\<close> is its string, a \<open>HeaderValue\<close> its bytes. The \<open>HashMap\<close> is an association list
  with distinct keys, in the order in which the map iterates; no claim depends on that order.
\<close>

type_synonym header_name = rstring
type_synonym header_value = bytes
type_synonym header_map = "(header_name \<times> header_value) list"

text \<open>\<open>HttpHeaderName::from_str\<close> and \<open>HttpHeaderValue::from_bytes\<close>; \<open>None\<close> is their error.\<close>

record httplib =
  http_name :: "rstring \<Rightarrow> rstring option"
  http_value :: "bytes \<Rightarrow> bytes option"

definition header_name_of_string :: "rstring \<Rightarrow> header_name" where
  "header_name_of_string s = s"

definition header_name_to_string :: "header_name \<Rightarrow> rstring" where
  [simp]: "header_name_to_string n = n"

text \<open>From a name of the \<open>http\<close> crate, by the string it prints, and from a value, by its bytes.\<close>

definition header_name_of_http :: "rstring \<Rightarrow> header_name" where
  "header_name_of_http n = header_name_of_string n"

definition header_value_of_http :: "bytes \<Rightarrow> header_value" where
  "header_value_of_http v = v"

definition header_value_of_string :: "rstring \<Rightarrow> header_value" where
  "header_value_of_string s = utf8 s"

definition header_value_of_str :: "rstring \<Rightarrow> header_value" where
  "header_value_of_str s = header_value_of_string s"

definition header_map_new :: header_map where
  "header_map_new = []"

text \<open>\<open>HeaderMap::insert\<close>: the value that was stored before, and the map.\<close>

definition header_map_insert ::
  "header_name \<Rightarrow> header_value \<Rightarrow> header_map \<Rightarrow> header_value option \<times> header_map" where
  "header_map_insert k v m = (map_of m k, AList.update k v m)"

definition http_name_try_from :: "httplib \<Rightarrow> header_name \<Rightarrow> eerror + rstring" where
  [simp]: "http_name_try_from H k =
     (case http_name H (header_name_to_string k) of None \<Rightarrow> Inl EInvalidHeaderNameFromReqwest | Some n \<Rightarrow> Inr n)"

definition http_value_try_from :: "httplib \<Rightarrow> header_value \<Rightarrow> eerror + bytes" where
  [simp]: "http_value_try_from H v =
     (case http_value H v of None \<Rightarrow> Inl EInvalidHeaderValueFromReqwest | Some b \<Rightarrow> Inr b)"

text \<open>\<open>TryFrom<HeaderMap> for HttpHeaderMap\<close>: \<open>append\<close> entry by entry, stop at the first bad one.\<close>

fun http_header_map :: "httplib \<Rightarrow> header_map \<Rightarrow> eerror + (rstring \<times> bytes) list" where
  "http_header_map H [] = Inr []"
| "http_header_map H ((k, v) # m) =
     (case http_name_try_from H k of
        Inl e \<Rightarrow> Inl e
      | Inr n \<Rightarrow>
          (case http_value_try_from H v of
             Inl e \<Rightarrow> Inl e
           | Inr b \<Rightarrow>
               (case http_header_map H m of
                  Inl e \<Rightarrow> Inl e
                | Inr hs \<Rightarrow> Inr ((n, b) # hs))))"

text \<open>\<open>self.headers.map(|v| v.try_into())\<close>, with the \<open>Result\<close> outside.\<close>

definition convert_headers :: "httplib \<Rightarrow> header_map option \<Rightarrow> eerror + (rstring \<times> bytes) list option" where
  "convert_headers H h =
     (case h of
        None \<Rightarrow> Inr None
      | Some m \<Rightarrow> (case http_header_map H m of Inl e \<Rightarrow> Inl e | Inr hs \<Rightarrow> Inr (Some hs)))"

text \<open>\<open>IntoIterator\<close>: the entries still to come.\<close>

definition header_map_into_iter :: "header_map \<Rightarrow> header_map" where
  "header_map_into_iter m = m"

fun into_iter_next :: "header_map \<Rightarrow> (header_name \<times> header_value) option \<times> header_map" where
  "into_iter_next [] = (None, [])"
| "into_iter_next (x # xs) = (Some x, xs)"

inductive built_map :: "header_map \<Rightarrow> bool" where
  built_new: "built_map header_map_new"
| built_insert: "built_map m \<Longrightarrow> built_map (snd (header_map_insert k v m))"

lemma built_map_distinct: "built_map m \<Longrightarrow> distinct (map fst m)"
  by (induction rule: built_map.induct)
    (simp_all add: header_map_new_def header_map_insert_def distinct_update)

lemma header_map_insert_lookup:
  "map_of (snd (header_map_insert k v m)) = (map_of m)(k \<mapsto> v)"
  "fst (header_map_insert k v m) = map_of m k"
  by (simp_all add: header_map_insert_def update_conv')

lemma http_header_map_ok:
  "(\<exists>hs. http_header_map H m = Inr hs) \<longleftrightarrow>
     (\<forall>(n, b) \<in> set m. http_name H n \<noteq> None \<and> http_value H b \<noteq> None)"
proof (induction m)
  case (Cons x m)
  obtain k v where x: "x = (k, v)" by (cases x)
  show ?case
    by (cases "http_name H k"; cases "http_value H v"; cases "http_header_map H m")
      (use Cons in \<open>simp_all add: x\<close>)
qed simp

lemma http_header_map_carries:
  "http_header_map H m = Inr hs \<Longrightarrow>
     hs = map (\<lambda>(k, v). (the (http_name H k), the (http_value H v))) m"
  by (induction m arbitrary: hs) (auto split: option.splits sum.splits)

text \<open>The iterator gives the entries in their order, each once, and then nothing more.\<close>

lemma into_iter_entries:
  "fst (into_iter_next (((\<lambda>it. snd (into_iter_next it)) ^^ i) (header_map_into_iter m))) =
     (if i < length m then Some (m ! i) else None)"
proof -
  have step: "into_iter_next it = (if it = [] then None else Some (hd it), tl it)" for it by (cases it) simp_all
  have "((\<lambda>it. snd (into_iter_next it)) ^^ i) m = drop i m"
    by (induction i) (simp_all add: step drop_Suc flip: tl_drop)
  then show ?thesis by (simp add: step header_map_into_iter_def hd_drop_conv_nth)
qed

text \<open>To the HTTP library and back: its names are in lower case, its values are the bytes they were made
  from.\<close>

lemma headers_through_http:
  assumes "\<And>n h. http_name H n = Some h \<Longrightarrow> h = to_lowercase n" "\<And>b v. http_value H b = Some v \<Longrightarrow> v = b"
    and "http_header_map H m = Inr hs"
  shows "map (\<lambda>(n, v). (header_name_of_http n, header_value_of_http v)) hs = map (\<lambda>(n, v). (to_lowercase n, v)) m"
  using assms(3)
  by (induction m arbitrary: hs)
    (auto simp: header_name_of_http_def header_name_of_string_def header_value_of_http_def
      dest: assms(1,2) split: option.splits sum.splits)

section \<open>Properties\<close>

text \<open>A header map built by insertions has each name once, holds the last value inserted for it,
  and converts to the HTTP library's map exactly when every name and value is acceptable there; then
  every header is carried over.\<close>

theorem header_map_correct:
  assumes "built_map m"
  shows "distinct (map fst m) \<and>
    map_of (snd (header_map_insert k v m)) = (map_of m)(k \<mapsto> v) \<and>
    fst (header_map_insert k v m) = map_of m k \<and>
    ((\<exists>hs. http_header_map H m = Inr hs) \<longleftrightarrow>
       (\<forall>n b. map_of m n = Some b \<longrightarrow> http_name H n \<noteq> None \<and> http_value H b \<noteq> None)) \<and>
    (http_header_map H m = Inr hs \<longrightarrow>
       hs = map (\<lambda>(n, b). (the (http_name H n), the (http_value H b))) m)"
proof -
  have d: "distinct (map fst m)" by (rule built_map_distinct [OF assms])
  have "(\<forall>(n, b) \<in> set m. http_name H n \<noteq> None \<and> http_value H b \<noteq> None) \<longleftrightarrow>
      (\<forall>n b. map_of m n = Some b \<longrightarrow> http_name H n \<noteq> None \<and> http_value H b \<noteq> None)"
    using d by (auto dest: map_of_SomeD)
  then show ?thesis
    using d http_header_map_ok [of H m] http_header_map_carries
    by (simp add: header_map_insert_lookup)
qed

theorem header_map_correct_witness:
  "map_of (snd (header_map_insert (lit ''a'') [2] (snd (header_map_insert (lit ''a'') [1] header_map_new))))
     (lit ''a'') = Some [2]"
  using header_map_correct
    [OF built_insert [OF built_new], where k = "lit ''a''" and v = "[2]", THEN conjunct2, THEN conjunct1]
  by simp

end
