(* ===== verification/Engine_Client.thy ===== *)
theory Engine_Client
  imports Engine_Socket Engine_Header
begin

text \<open>
  \<open>engineio/src/client/client.rs\<close>, the builder: the handshake and the choice of the transport.
  Each \<open>build\<close> function is a procedure over the network that ends with a client, an engine.io
  socket that owns the network from then on. The TLS connector is only handed on to the HTTP and
  websocket libraries and is left out; the converted headers are too, but a conversion that fails
  is not.
\<close>

text \<open>The libraries of the engine.io crate: \<open>lib_handshake\<close> is \<open>serde_json::from_slice\<close> at type
  \<open>HandshakePacket\<close>, with the rendered error.\<close>

record 'u elib =
  lib_b64 :: base64
  lib_url :: "'u urllib"
  lib_http :: httplib
  lib_handshake :: "bytes \<Rightarrow> rstring + handshake"

record 'u ebuilder =
  eb_url :: 'u
  eb_headers :: "header_map option"
  eb_handshake :: "handshake option"
  eb_callbacks :: ecallbacks

definition engine_io_version :: i32 where
  "engine_io_version = 4"

definition ebuilder_new :: "'u elib \<Rightarrow> 'u \<Rightarrow> 'u ebuilder" where
  "ebuilder_new E url =
     (let U = lib_url E;
          url1 = url_append U url (lit ''EIO'') (i32_to_string engine_io_version);
          url2 = (if url_path U url1 = lit ''/'' then url_set_path U url1 (lit ''/engine.io/'') else url1)
      in \<lparr>eb_url = url2, eb_headers = None, eb_handshake = None,
          eb_callbacks = \<lparr>has_open = False, has_close = False, has_data = False, has_error = False,
                          has_packet = False\<rparr>\<rparr>)"

definition ebuilder_headers :: "header_map \<Rightarrow> 'u ebuilder \<Rightarrow> 'u ebuilder" where
  "ebuilder_headers h b = b\<lparr>eb_headers := Some h\<rparr>"

definition ebuilder_on_close :: "'u ebuilder \<Rightarrow> 'u ebuilder" where
  "ebuilder_on_close b = b\<lparr>eb_callbacks := (eb_callbacks b)\<lparr>has_close := True\<rparr>\<rparr>"

definition ebuilder_on_data :: "'u ebuilder \<Rightarrow> 'u ebuilder" where
  "ebuilder_on_data b = b\<lparr>eb_callbacks := (eb_callbacks b)\<lparr>has_data := True\<rparr>\<rparr>"

definition ebuilder_on_error :: "'u ebuilder \<Rightarrow> 'u ebuilder" where
  "ebuilder_on_error b = b\<lparr>eb_callbacks := (eb_callbacks b)\<lparr>has_error := True\<rparr>\<rparr>"

definition ebuilder_on_open :: "'u ebuilder \<Rightarrow> 'u ebuilder" where
  "ebuilder_on_open b = b\<lparr>eb_callbacks := (eb_callbacks b)\<lparr>has_open := True\<rparr>\<rparr>"

definition ebuilder_on_packet :: "'u ebuilder \<Rightarrow> 'u ebuilder" where
  "ebuilder_on_packet b = b\<lparr>eb_callbacks := (eb_callbacks b)\<lparr>has_packet := True\<rparr>\<rparr>"

section \<open>Handshake\<close>

text \<open>\<open>TryFrom<Packet> for HandshakePacket\<close>: the packet type is not looked at.\<close>

definition handshake_try_from :: "'u elib \<Rightarrow> epacket \<Rightarrow> eerror + handshake" where
  "handshake_try_from E p =
     (case lib_handshake E (e_data p) of Inl e \<Rightarrow> Inl (EInvalidJson e) | Inr hs \<Rightarrow> Inr hs)"

definition accept_handshake :: "'u elib \<Rightarrow> 'u ebuilder \<Rightarrow> bytes \<Rightarrow> ('u net, eerror, 'u ebuilder) proc" where
  "accept_handshake E b data =
     (case epacket_try_from (lib_b64 E) data of
        Inl e \<Rightarrow> give (Err e)
      | Inr p \<Rightarrow>
          (case handshake_try_from E p of
             Inl e \<Rightarrow> give (Err e)
           | Inr hs \<Rightarrow>
               give (Ok (b\<lparr>eb_url := url_append (lib_url E) (eb_url b) (lit ''sid'') (sid hs),
                           eb_handshake := Some hs\<rparr>))))"

definition handshake_with_transport ::
  "'u elib \<Rightarrow> 'u transport \<Rightarrow> 'u ebuilder \<Rightarrow> ('u net, eerror, 'u ebuilder) proc" where
  "handshake_with_transport E t b =
     (if eb_handshake b \<noteq> None then give (Ok b)
      else seq (transport_poll (lib_url E) t) (accept_handshake E b))"

text \<open>\<open>try_into().unwrap()\<close> on the headers, and the same with \<open>?\<close>.\<close>

definition unwrap_headers :: "'u elib \<Rightarrow> 'u ebuilder \<Rightarrow> ('u net, eerror, unit) proc" where
  "unwrap_headers E b =
     (case convert_headers (lib_http E) (eb_headers b) of Inl e \<Rightarrow> give Panic | Inr _ \<Rightarrow> give (Ok ()))"

definition try_headers :: "'u elib \<Rightarrow> 'u ebuilder \<Rightarrow> ('u net, eerror, unit) proc" where
  "try_headers E b =
     (case convert_headers (lib_http E) (eb_headers b) of Inl e \<Rightarrow> give (Err e) | Inr _ \<Rightarrow> give (Ok ()))"

definition do_handshake :: "'u elib \<Rightarrow> 'u ebuilder \<Rightarrow> ('u net, eerror, 'u ebuilder) proc" where
  "do_handshake E b =
     (if eb_handshake b \<noteq> None then give (Ok b)
      else seq (unwrap_headers E b) (\<lambda>_.
        handshake_with_transport E (polling_new (lib_url E) (eb_url b)) b))"

text \<open>\<open>upgrades.iter().any(|upgrade| upgrade.to_lowercase() == "websocket")\<close>.\<close>

definition offers_websocket :: "handshake \<Rightarrow> bool" where
  "offers_websocket hs \<longleftrightarrow> list_ex (\<lambda>u. to_lowercase u = lit ''websocket'') (upgrades hs)"

definition websocket_upgrade :: "'u ebuilder \<Rightarrow> ('u net, eerror, bool) proc" where
  "websocket_upgrade b =
     (case eb_handshake b of None \<Rightarrow> give Panic | Some hs \<Rightarrow> give (Ok (offers_websocket hs)))"

section \<open>Building a client\<close>

text \<open>\<open>Client { socket: InnerSocket::new(transport, self.handshake.unwrap(), ..) }\<close>.\<close>

definition make_client :: "'u transport \<Rightarrow> 'u ebuilder \<Rightarrow> ('u net, eerror, 'u esocket) proc" where
  "make_client t b w =
     (case eb_handshake b of
        None \<Rightarrow> (Panic, w)
      | Some hs \<Rightarrow> (Ok (esocket_new t w hs (eb_callbacks b)), w))"

definition build_polling :: "'u elib \<Rightarrow> 'u ebuilder \<Rightarrow> ('u net, eerror, 'u esocket) proc" where
  "build_polling E b0 =
     seq (do_handshake E b0) (\<lambda>b.
     seq (unwrap_headers E b) (\<lambda>_.
     make_client (polling_new (lib_url E) (eb_url b)) b))"

text \<open>The part the two websocket arms of \<open>build_websocket\<close> have in common.\<close>

definition finish_websocket ::
  "'u elib \<Rightarrow> 'u ebuilder \<Rightarrow> 'u transport \<Rightarrow> ('u net, eerror, 'u esocket) proc" where
  "finish_websocket E b t =
     seq (if eb_handshake b \<noteq> None then seq (ws_upgrade (lib_b64 E)) (\<lambda>_. give (Ok b))
          else handshake_with_transport E t b) (\<lambda>b'.
     make_client t b')"

definition build_websocket :: "'u elib \<Rightarrow> 'u ebuilder \<Rightarrow> ('u net, eerror, 'u esocket) proc" where
  "build_websocket E b =
     seq (try_headers E b) (\<lambda>_.
       let scheme = url_scheme (lib_url E) (eb_url b) in
       if scheme = lit ''http'' \<or> scheme = lit ''ws'' then
         seq (websocket_new (lib_url E) (eb_url b)) (finish_websocket E b)
       else if scheme = lit ''https'' \<or> scheme = lit ''wss'' then
         seq (websocket_secure_new (lib_url E) (eb_url b)) (finish_websocket E b)
       else give (Err (EInvalidUrlScheme scheme)))"

definition build_websocket_with_upgrade :: "'u elib \<Rightarrow> 'u ebuilder \<Rightarrow> ('u net, eerror, 'u esocket) proc" where
  "build_websocket_with_upgrade E b0 =
     seq (do_handshake E b0) (\<lambda>b.
     seq (websocket_upgrade b) (\<lambda>upgrade.
     if upgrade then build_websocket E b else give (Err EIllegalWebsocketUpgrade)))"

definition build :: "'u elib \<Rightarrow> 'u ebuilder \<Rightarrow> ('u net, eerror, 'u esocket) proc" where
  "build E b0 =
     seq (do_handshake E b0) (\<lambda>b.
     seq (websocket_upgrade b) (\<lambda>upgrade.
     if upgrade then build_websocket_with_upgrade E b else build_polling E b))"

text \<open>The builder is cloned, so the fallback starts from the builder without a handshake.\<close>

definition build_with_fallback :: "'u elib \<Rightarrow> 'u ebuilder \<Rightarrow> ('u net, eerror, 'u esocket) proc" where
  "build_with_fallback E b w =
     (case build E b w of
        (Err _, w') \<Rightarrow> build_polling E b w'
      | (r, w') \<Rightarrow> (r, w'))"

section \<open>The iterator\<close>

text \<open>\<open>Iter::next\<close>: errors are items, \<open>None\<close> ends the iteration.\<close>

definition eclient_next :: "base64 \<Rightarrow> 'u urllib \<Rightarrow> ('u esocket, eerror, (eerror + epacket) option) proc" where
  "eclient_next B U s =
     (case eclient_poll B U s of
        (Ok (Some packet), s') \<Rightarrow> (Ok (Some (Inr packet)), s')
      | (Ok None, s') \<Rightarrow> (Ok None, s')
      | (Err e, s') \<Rightarrow> (Ok (Some (Inl e)), s')
      | (Panic, s') \<Rightarrow> (Panic, s')
      | (Block, s') \<Rightarrow> (Block, s'))"

section \<open>The steps of building\<close>

lemma do_handshake_again: "eb_handshake b = Some hs \<Longrightarrow> do_handshake E b w = (Ok b, w)"
  by (simp add: do_handshake_def)

text \<open>A first handshake that succeeds: one GET, whose answer is the handshake.\<close>

lemma do_handshake_fresh:
  assumes "do_handshake E b w = (Ok b', w')" "eb_handshake b = None"
  obtains body rest p hs where
    "get_in w = Inr body # rest" "epacket_try_from (lib_b64 E) body = Inr p"
    "lib_handshake E (e_data p) = Inr hs"
    "b' = b\<lparr>eb_url := url_append (lib_url E) (eb_url b) (lit ''sid'') (sid hs), eb_handshake := Some hs\<rparr>"
    "wire w' = wire w @ [HttpGet (address (lib_url E)
       (url_append (lib_url E) (eb_url b) (lit ''transport'') (lit ''polling'')) w)]"
  using assms
  by (auto simp: do_handshake_def unwrap_headers_def handshake_with_transport_def polling_new_def
      transport_poll_def polling_poll_def accept_handshake_def handshake_try_from_def log_request_def
      address_def Let_def seq_def
      split: sum.splits list.splits)

lemma do_handshake_fields:
  assumes "do_handshake E b w = (Ok b', w')" "eb_handshake b = None"
  obtains hs a where "eb_handshake b' = Some hs"
    "eb_url b' = url_append (lib_url E) (eb_url b) (lit ''sid'') (sid hs)"
    "wire w' = wire w @ [HttpGet a]"
  by (rule do_handshake_fresh [OF assms]) (rule that; simp)

lemma make_client_ok:
  "make_client t b w = (Ok s, w') \<longleftrightarrow>
     (\<exists>hs. eb_handshake b = Some hs \<and> s = esocket_new t w hs (eb_callbacks b) \<and> w' = w)"
  by (auto simp: make_client_def split: option.splits)

lemma build_polling_ok:
  assumes "build_polling E b w = (Ok s, w')"
  obtains b' hs where "do_handshake E b w = (Ok b', w')" "eb_handshake b' = Some hs"
    "s = esocket_new (polling_new (lib_url E) (eb_url b')) w' hs (eb_callbacks b')"
  using assms
  by (auto simp: build_polling_def make_client_ok unwrap_headers_def elim!: seq_OkE split: sum.splits)

lemma websocket_upgrade_ok:
  "websocket_upgrade b w = (Ok up, w') \<longleftrightarrow>
     (\<exists>hs. eb_handshake b = Some hs \<and> up = offers_websocket hs \<and> w' = w)"
  by (auto simp: websocket_upgrade_def split: option.splits)

lemma ws_upgrade_ok:
  "ws_upgrade B w = (Ok u, w') \<Longrightarrow>
     wire w' = wire w @ [WsSend (WsText (lit ''2probe'')), WsSend (WsText (lit ''5''))]"
  by (auto simp: ws_upgrade_eq seq_def ws_send_def ws_next_def log_request_def
      Let_def split: list.splits sum.splits ws_event.splits option.splits if_splits)

lemma ws_open_ok:
  "ws_open U sch base w = (Ok url, w') \<Longrightarrow>
     url_set_scheme U (url_append U base (lit ''transport'') (lit ''websocket'')) sch = Some url \<and>
     wire w' = wire w @ [WsConnect url]"
  by (auto simp: ws_open_def log_request_def Let_def split: option.splits list.splits sum.splits)

lemma finish_websocket_ok:
  assumes "finish_websocket E b t w = (Ok s, w')" "eb_handshake b = Some hs"
  shows "s = esocket_new t w' hs (eb_callbacks b) \<and>
    wire w' = wire w @ [WsSend (WsText (lit ''2probe'')), WsSend (WsText (lit ''5''))]"
  using assms
  by (auto simp: finish_websocket_def make_client_ok elim!: seq_OkE dest!: ws_upgrade_ok)

text \<open>The scheme of the websocket and its transport, by the scheme of the builder's url.\<close>

definition ws_choice :: "rstring \<Rightarrow> 'u \<Rightarrow> (rstring \<times> 'u transport) option" where
  "ws_choice scheme url =
     (if scheme = lit ''http'' \<or> scheme = lit ''ws'' then Some (lit ''ws'', Websocket url)
      else if scheme = lit ''https'' \<or> scheme = lit ''wss'' then Some (lit ''wss'', WebsocketSecure url)
      else None)"

lemma build_websocket_ok:
  assumes "build_websocket E b w = (Ok s, w')" "eb_handshake b = Some hs"
  obtains sch url t where "ws_choice (url_scheme (lib_url E) (eb_url b)) url = Some (sch, t)"
    "url_set_scheme (lib_url E) (url_append (lib_url E) (eb_url b) (lit ''transport'') (lit ''websocket'')) sch
       = Some url"
    "s = esocket_new t w' hs (eb_callbacks b)"
    "wire w' = wire w @
       [WsConnect url, WsSend (WsText (lit ''2probe'')), WsSend (WsText (lit ''5''))]"
proof -
  let ?U = "lib_url E"
  note found = that
  have step: thesis
    if new: "new = (\<lambda>base. seq (ws_open ?U sch base) (\<lambda>url. give (Ok (mk url))))"
      and run: "seq (new (eb_url b)) (finish_websocket E b) w = (Ok s, w')"
      and choice: "\<And>url. ws_choice (url_scheme ?U (eb_url b)) url = Some (sch, mk url)"
    for new sch mk
  proof -
    from run obtain t w1 where "new (eb_url b) w = (Ok t, w1)" and f: "finish_websocket E b t w1 = (Ok s, w')"
      by (rule seq_OkE)
    then obtain url where o': "ws_open ?U sch (eb_url b) w = (Ok url, w1)" and "t = mk url"
      by (auto simp: new elim!: seq_OkE)
    with finish_websocket_ok [OF f assms(2)] ws_open_ok [OF o'] choice found show thesis by auto
  qed
  note steps = step [of "websocket_new ?U" "lit ''ws''" Websocket]
    step [of "websocket_secure_new ?U" "lit ''wss''" WebsocketSecure]
  obtain hs' where "convert_headers (lib_http E) (eb_headers b) = Inr hs'"
    using assms(1) by (auto simp: build_websocket_def try_headers_def split: sum.splits elim!: seq_OkE)
  then have run: "(let scheme = url_scheme ?U (eb_url b) in
       if scheme = lit ''http'' \<or> scheme = lit ''ws'' then
         seq (websocket_new ?U (eb_url b)) (finish_websocket E b)
       else if scheme = lit ''https'' \<or> scheme = lit ''wss'' then
         seq (websocket_secure_new ?U (eb_url b)) (finish_websocket E b)
       else give (Err (EInvalidUrlScheme scheme))) w = (Ok s, w')"
    using assms(1) by (simp add: build_websocket_def try_headers_def)
  show thesis
  proof (cases "url_scheme ?U (eb_url b) = lit ''http'' \<or> url_scheme ?U (eb_url b) = lit ''ws''")
    case True
    have "\<And>url. ws_choice (url_scheme ?U (eb_url b)) url = Some (lit ''ws'', Websocket url)"
      unfolding ws_choice_def using True by (simp only: if_True)
    moreover have "seq (websocket_new ?U (eb_url b)) (finish_websocket E b) w = (Ok s, w')"
      using run True by (simp only: Let_def if_True)
    ultimately show thesis using steps(1) [OF ext [OF websocket_new_def]] by blast
  next
    case False
    then have sec: "url_scheme ?U (eb_url b) = lit ''https'' \<or> url_scheme ?U (eb_url b) = lit ''wss''"
      using run by (auto simp only: Let_def if_False give_apply split: if_splits)
    have "\<And>url. ws_choice (url_scheme ?U (eb_url b)) url = Some (lit ''wss'', WebsocketSecure url)"
      unfolding ws_choice_def using False sec by (simp only: if_True if_False)
    moreover have "seq (websocket_secure_new ?U (eb_url b)) (finish_websocket E b) w = (Ok s, w')"
      using run False sec by (simp only: Let_def if_True if_False)
    ultimately show thesis using steps(2) [OF ext [OF websocket_secure_new_def]] by blast
  qed
qed

section \<open>Properties\<close>

lemma address_pairs:
  "url_laws U \<Longrightarrow>
     url_pairs U (address U u w) = url_pairs U u @ [(lit ''t'', time_hash U (clock w))]"
  by (simp add: address_def url_laws_simps)

lemma esocket_new_fields [simp]:
  "es_transport (esocket_new t w hs cbs) = t" "es_net (esocket_new t w hs cbs) = w"
  "es_connected (esocket_new t w hs cbs) = False" "es_handshake (esocket_new t w hs cbs) = hs"
  "es_callbacks (esocket_new t w hs cbs) = cbs" "es_fired (esocket_new t w hs cbs) = []"
  "es_remaining (esocket_new t w hs cbs) = None"
  by (simp_all add: esocket_new_def)

text \<open>What a polling client built from a builder without a handshake looks like.\<close>

definition polling_client :: "'u elib \<Rightarrow> 'u ebuilder \<Rightarrow> 'u esocket \<Rightarrow> bool" where
  "polling_client E b s \<longleftrightarrow>
     (\<exists>u. es_transport s = Polling u \<and>
        url_pairs (lib_url E) u = url_pairs (lib_url E) (eb_url b) @
          [(lit ''sid'', sid (es_handshake s)), (lit ''transport'', lit ''polling'')]) \<and>
     \<not> es_connected s \<and> es_callbacks s = eb_callbacks b"

lemma build_polling_fresh:
  assumes "url_laws (lib_url E)" "eb_handshake b = None" "build_polling E b w = (Ok s, w')"
  shows "polling_client E b s \<and> es_net s = w' \<and>
    (\<exists>body rest p a. get_in w = Inr body # rest \<and>
       epacket_try_from (lib_b64 E) body = Inr p \<and>
       lib_handshake E (e_data p) = Inr (es_handshake s) \<and>
       wire w' = wire w @ [HttpGet a] \<and>
       url_pairs (lib_url E) a = url_pairs (lib_url E) (eb_url b) @
         [(lit ''transport'', lit ''polling''), (lit ''t'', time_hash (lib_url E) (clock w))])"
proof -
  from assms(3) obtain b' hs where d: "do_handshake E b w = (Ok b', w')" and hs: "eb_handshake b' = Some hs"
    and s: "s = esocket_new (polling_new (lib_url E) (eb_url b')) w' hs (eb_callbacks b')"
    by (rule build_polling_ok)
  from do_handshake_fresh [OF d assms(2)] show ?thesis
    unfolding polling_client_def
    by (rule; use hs s assms(1) in \<open>simp add: polling_new_def url_laws_simps address_pairs\<close>)
qed

text \<open>The handshake over polling. A polling client that was built has sent one GET, on the builder's
  url with the \<open>transport\<close> and \<open>t\<close> parameters; its handshake is what the answer decodes to, and from
  then on it polls the builder's url with the server's session id. It is not connected yet.\<close>

theorem build_polling_handshake:
  assumes "url_laws (lib_url E)" "eb_handshake b = None" "build_polling E b w = (Ok s, w')"
  shows "polling_client E b s \<and> es_net s = w' \<and>
    (\<exists>body rest p a. get_in w = Inr body # rest \<and>
       epacket_try_from (lib_b64 E) body = Inr p \<and>
       lib_handshake E (e_data p) = Inr (es_handshake s) \<and>
       wire w' = wire w @ [HttpGet a] \<and>
       url_pairs (lib_url E) a = url_pairs (lib_url E) (eb_url b) @
         [(lit ''transport'', lit ''polling''), (lit ''t'', time_hash (lib_url E) (clock w))])"
  by (rule build_polling_fresh [OF assms])

text \<open>A server that answers the handshake, for the witnesses: it offers an upgrade when asked to.\<close>

definition demo_handshake :: "bool \<Rightarrow> handshake" where
  "demo_handshake up =
     \<lparr>sid = lit ''s1'', upgrades = (if up then [lit ''WebSocket''] else []), ping_interval = 25000,
      ping_timeout = 5000\<rparr>"

definition demo_elib :: "plain_url elib" where
  "demo_elib =
     \<lparr>lib_b64 = nibble64, lib_url = plain_urls,
      lib_http = \<lparr>http_name = (\<lambda>n. if n = [] then None else Some n), http_value = Some\<rparr>,
      lib_handshake = (\<lambda>d. Inr (demo_handshake (d = ascii ''{u}'')))\<rparr>"

definition demo_server :: "bool \<Rightarrow> ws_event list \<Rightarrow> plain_url net" where
  "demo_server up es =
     \<lparr>get_in = replicate 2 (Inr (ascii (if up then ''0{u}'' else ''0{}''))), stream_in = [], post_in = [],
      ws_connect_in = [Inr es], ws_in = [], ws_send_in = [Inr (), Inr (), Inr ()], wire = [], clock = 0\<rparr>"

definition demo_builder :: "plain_url ebuilder" where
  "demo_builder = ebuilder_new demo_elib (lit ''http'', lit ''/'', [])"

lemma demo_elib_laws [simp]: "url_laws (lib_url demo_elib)" "eb_handshake demo_builder = None"
  by (simp_all add: demo_elib_def plain_urls_laws demo_builder_def ebuilder_new_def Let_def)

lemma demo_answer:
  "epacket_try_from (lib_b64 demo_elib) (ascii ''0{u}'') = Inr (epacket EOpen (ascii ''{u}''))"
  "epacket_try_from (lib_b64 demo_elib) (ascii ''0{}'') = Inr (epacket EOpen (ascii ''{}''))"
  by (simp_all add: epacket_try_from_def epacket_id_try_from_def epacket_def)

text \<open>The other direction: an answer that decodes to a handshake is accepted.\<close>

lemma do_handshake_run:
  assumes "eb_handshake b = None" "convert_headers (lib_http E) (eb_headers b) = Inr h"
    "get_in w = Inr body # rest" "epacket_try_from (lib_b64 E) body = Inr p"
    "lib_handshake E (e_data p) = Inr hs"
  obtains w' where "do_handshake E b w =
      (Ok (b\<lparr>eb_url := url_append (lib_url E) (eb_url b) (lit ''sid'') (sid hs), eb_handshake := Some hs\<rparr>), w')"
    "get_in w' = rest" "ws_connect_in w' = ws_connect_in w" "ws_send_in w' = ws_send_in w"
  using assms
  by (auto simp: do_handshake_def unwrap_headers_def handshake_with_transport_def polling_new_def
      transport_poll_def polling_poll_def accept_handshake_def handshake_try_from_def log_request_def
      Let_def seq_def)

lemma build_polling_run:
  assumes "eb_handshake b = None" "convert_headers (lib_http E) (eb_headers b) = Inr h"
    "get_in w = Inr body # rest" "epacket_try_from (lib_b64 E) body = Inr p"
    "lib_handshake E (e_data p) = Inr hs"
  obtains s w' where "build_polling E b w = (Ok s, w')" "es_handshake s = hs"
proof -
  from assms obtain w' where "do_handshake E b w =
      (Ok (b\<lparr>eb_url := url_append (lib_url E) (eb_url b) (lit ''sid'') (sid hs), eb_handshake := Some hs\<rparr>), w')"
    by (rule do_handshake_run)
  with assms(2) that show thesis
    by (simp add: build_polling_def unwrap_headers_def make_client_def)
qed

lemma build_websocket_run:
  assumes "convert_headers (lib_http E) (eb_headers b) = Inr h" "eb_handshake b = Some hs"
    "url_scheme (lib_url E) (eb_url b) = lit ''http''"
    "url_set_scheme (lib_url E) (url_append (lib_url E) (eb_url b) (lit ''transport'') (lit ''websocket'')) (lit ''ws'')
       = Some url"
    "ws_connect_in w = Inr (WsMsg (WsText (lit ''3probe'')) # es) # cs" "ws_send_in w = Inr () # Inr () # ss"
  obtains s w' where "build_websocket E b w = (Ok s, w')" "es_handshake s = hs"
proof -
  let ?w1 = "(log_request (WsConnect url) w)\<lparr>ws_connect_in := cs, ws_in := WsMsg (WsText (lit ''3probe'')) # es\<rparr>"
  have "ws_open (lib_url E) (lit ''ws'') (eb_url b) w = (Ok url, ?w1)"
    using assms(4,5) by (simp add: ws_open_def log_request_def Let_def del: lit_simps)
  then have new: "websocket_new (lib_url E) (eb_url b) w = (Ok (Websocket url), ?w1)"
    by (simp add: websocket_new_def)
  have "fst (ws_upgrade (lib_b64 E) ?w1) = Ok ()"
    using assms(6) by (simp add: ws_upgrade_eq seq_def ws_send_def ws_next_def log_request_def Let_def)
  then obtain w2 where "ws_upgrade (lib_b64 E) ?w1 = (Ok (), w2)" by (metis prod.collapse)
  then have "finish_websocket E b (Websocket url) ?w1 =
      (Ok (esocket_new (Websocket url) w2 hs (eb_callbacks b)), w2)"
    using assms(2) by (simp add: finish_websocket_def make_client_def del: lit_simps)
  with new assms(1,3) that show thesis
    by (simp add: build_websocket_def try_headers_def del: lit_simps)
qed

lemma demo_facts:
  "convert_headers (lib_http demo_elib) (eb_headers demo_builder) = Inr None"
  "get_in (demo_server up es) = Inr (ascii (if up then ''0{u}'' else ''0{}'')) #
     [Inr (ascii (if up then ''0{u}'' else ''0{}''))]"
  "lib_handshake demo_elib (ascii ''{}'') = Inr (demo_handshake False)"
  "lib_handshake demo_elib (ascii ''{u}'') = Inr (demo_handshake True)"
  by (simp_all add: convert_headers_def demo_elib_def demo_builder_def ebuilder_new_def Let_def
      demo_server_def numeral_2_eq_2)

theorem build_polling_handshake_witness:
  "\<exists>s w'. build_polling demo_elib demo_builder (demo_server False []) = (Ok s, w') \<and>
     polling_client demo_elib demo_builder s \<and> es_net s = w'"
proof -
  obtain s w' where run: "build_polling demo_elib demo_builder (demo_server False []) = (Ok s, w')"
    using build_polling_run [OF demo_elib_laws(2) demo_facts(1), where w = "demo_server False []"]
      demo_facts(2) [where up = False] demo_facts(3) demo_answer(2)
    by (metis epacket_sel(2))
  from build_polling_handshake [OF demo_elib_laws run] run show ?thesis by blast
qed

text \<open>Whether the server's handshake lets the client upgrade decides what \<open>build\<close> does next.\<close>

lemma build_ok:
  assumes "build E b w = (Ok s, w')" "eb_handshake b = None"
  obtains b' hs w1 where "do_handshake E b w = (Ok b', w1)" "eb_handshake b' = Some hs"
    "offers_websocket hs \<longrightarrow> build_websocket E b' w1 = (Ok s, w')"
    "\<not> offers_websocket hs \<longrightarrow> build_polling E b w = (Ok s, w')"
proof -
  from assms(1) obtain b' w1 where d: "do_handshake E b w = (Ok b', w1)"
    and rest: "seq (websocket_upgrade b') (\<lambda>upgrade.
      if upgrade then build_websocket_with_upgrade E b' else build_polling E b') w1 = (Ok s, w')"
    unfolding build_def by (rule seq_OkE)
  from d assms(2) obtain hs where hs: "eb_handshake b' = Some hs"
    by (rule do_handshake_fields)
  have up: "websocket_upgrade b' w1 = (Ok (offers_websocket hs), w1)"
    by (simp add: websocket_upgrade_def hs)
  show thesis
  proof (rule that [OF d hs])
    show "offers_websocket hs \<longrightarrow> build_websocket E b' w1 = (Ok s, w')"
      using rest up by (auto simp: build_websocket_with_upgrade_def do_handshake_again [OF hs] seq_def)
    show "\<not> offers_websocket hs \<longrightarrow> build_polling E b w = (Ok s, w')"
      using rest up d by (auto simp: build_polling_def do_handshake_again [OF hs] seq_def)
  qed
qed

text \<open>C29: the choice of the transport. If the handshake of a client that \<open>build\<close> returned does not offer
  a websocket upgrade, it is the polling client. If it does, then after the handshake the client
  opened a websocket on the url with the session id, by the scheme secure or not, and sent the probe
  and the upgrade packet. What is relied on of the \<open>url\<close> crate are \<open>url_laws\<close>: appending a query pair, setting the path and
  setting the scheme to \<open>ws\<close> or \<open>wss\<close> do what they say, and nothing else.\<close>

theorem build_selects_transport:
  assumes "url_laws (lib_url E)" "eb_handshake b = None" "build E b w = (Ok s, w')"
  shows "if offers_websocket (es_handshake s) then
      (\<exists>a url sch. wire w' = wire w @ [HttpGet a, WsConnect url, WsSend (WsText (lit ''2probe'')),
           WsSend (WsText (lit ''5''))] \<and>
         url_pairs (lib_url E) url = url_pairs (lib_url E) (eb_url b) @
           [(lit ''sid'', sid (es_handshake s)), (lit ''transport'', lit ''websocket'')] \<and>
         url_scheme (lib_url E) url = sch \<and>
         ws_choice (url_scheme (lib_url E) (eb_url b)) url = Some (sch, es_transport s))
    else polling_client E b s \<and> (\<exists>a. wire w' = wire w @ [HttpGet a])"
proof -
  from assms(3,2) obtain b' hs w1 where d: "do_handshake E b w = (Ok b', w1)"
    and hs: "eb_handshake b' = Some hs"
    and ws: "offers_websocket hs \<longrightarrow> build_websocket E b' w1 = (Ok s, w')"
    and poll: "\<not> offers_websocket hs \<longrightarrow> build_polling E b w = (Ok s, w')"
    by (rule build_ok)
  from d assms(2) obtain hs' a where hs': "eb_handshake b' = Some hs'"
    and url'': "eb_url b' = url_append (lib_url E) (eb_url b) (lit ''sid'') (sid hs')"
    and wire: "wire w1 = wire w @ [HttpGet a]"
    by (rule do_handshake_fields)
  have url': "eb_url b' = url_append (lib_url E) (eb_url b) (lit ''sid'') (sid hs)"
    using hs hs' url'' by simp
  show ?thesis
  proof (cases "offers_websocket hs")
    case True
    with ws have "build_websocket E b' w1 = (Ok s, w')" by blast
    from this hs obtain sch url t where
      choice: "ws_choice (url_scheme (lib_url E) (eb_url b')) url = Some (sch, t)"
      and set_sch: "url_set_scheme (lib_url E)
        (url_append (lib_url E) (eb_url b') (lit ''transport'') (lit ''websocket'')) sch = Some url"
      and s: "s = esocket_new t w' hs (eb_callbacks b')"
      and wire': "wire w' = wire w1 @
        [WsConnect url, WsSend (WsText (lit ''2probe'')), WsSend (WsText (lit ''5''))]"
      by (rule build_websocket_ok)
    have "sch \<in> {lit ''ws'', lit ''wss''}"
      using choice by (auto simp: ws_choice_def simp del: lit_simps split: if_splits)
    then have "url_pairs (lib_url E) url = url_pairs (lib_url E) (eb_url b) @
        [(lit ''sid'', sid hs), (lit ''transport'', lit ''websocket'')]" "url_scheme (lib_url E) url = sch"
      using url_laws_simps(6,7) [OF assms(1) set_sch]
      by (simp_all add: url' url_laws_simps [OF assms(1)] del: lit_simps)
    moreover have "ws_choice (url_scheme (lib_url E) (eb_url b)) url = Some (sch, t)"
      using choice by (simp add: url' url_laws_simps [OF assms(1)] del: lit_simps)
    ultimately show ?thesis using True s wire wire' by (simp del: lit_simps)
  next
    case False
    with poll have run: "build_polling E b w = (Ok s, w')" by blast
    from run obtain b'' hs'' where "do_handshake E b w = (Ok b'', w')" "eb_handshake b'' = Some hs''"
      "es_handshake s = hs''"
      by (rule build_polling_ok) simp
    with d hs False have "\<not> offers_websocket (es_handshake s)" by simp
    with build_polling_fresh [OF assms(1,2) run] show ?thesis by auto
  qed
qed

lemma build_upgrade_run:
  assumes "do_handshake E b w = (Ok b', w1)" "eb_handshake b' = Some hs" "offers_websocket hs"
  shows "build E b w = build_websocket E b' w1"
  using assms
  by (simp add: build_def websocket_upgrade_def build_websocket_with_upgrade_def do_handshake_again)

lemma demo_offers: "offers_websocket (demo_handshake True)" "\<not> offers_websocket (demo_handshake False)"
  by (simp_all add: offers_websocket_def demo_handshake_def to_lowercase_def lower_char_def)

lemma demo_builder_parts:
  "url_scheme plain_urls (url_append plain_urls (eb_url demo_builder) k v) = lit ''http''"
  "url_set_scheme plain_urls u sch \<noteq> None"
  by (auto simp: demo_builder_def ebuilder_new_def demo_elib_def plain_urls_def Let_def
      split: prod.splits)

text \<open>A server that offers the upgrade; the first frame on the websocket is \<open>m\<close>.\<close>

lemma demo_upgrade:
  obtains b' w1 where "do_handshake demo_elib demo_builder (demo_server True es) = (Ok b', w1)"
    "eb_handshake b' = Some (demo_handshake True)"
    "b' = demo_builder\<lparr>eb_url := url_append plain_urls (eb_url demo_builder) (lit ''sid'')
        (sid (demo_handshake True)), eb_handshake := Some (demo_handshake True)\<rparr>"
    "ws_connect_in w1 = [Inr es]" "ws_send_in w1 = [Inr (), Inr (), Inr ()]"
    "get_in w1 = [Inr (ascii ''0{u}'')]"
proof -
  have parts: "lib_handshake demo_elib (e_data (epacket EOpen (ascii ''{u}''))) = Inr (demo_handshake True)"
    "lib_url demo_elib = plain_urls"
    by (simp_all only: epacket_sel demo_facts) (simp add: demo_elib_def)
  have g: "get_in (demo_server True es) = Inr (ascii ''0{u}'') # [Inr (ascii ''0{u}'')]"
    using demo_facts(2) [where up = True] by (simp only: if_True)
  from do_handshake_run [OF demo_elib_laws(2) demo_facts(1) g demo_answer(1) parts(1)] that
  show thesis by (auto simp: parts demo_server_def simp del: ascii_simps)
qed

theorem build_selects_transport_witness:
  "\<exists>s w'. build demo_elib demo_builder (demo_server True [WsMsg (WsText (lit ''3probe''))]) = (Ok s, w') \<and>
     last (wire w') = WsSend (WsText (lit ''5''))"
proof -
  obtain b' w1 where d: "do_handshake demo_elib demo_builder
        (demo_server True [WsMsg (WsText (lit ''3probe''))]) = (Ok b', w1)"
    and hs: "eb_handshake b' = Some (demo_handshake True)"
    and b': "b' = demo_builder\<lparr>eb_url := url_append plain_urls (eb_url demo_builder) (lit ''sid'')
        (sid (demo_handshake True)), eb_handshake := Some (demo_handshake True)\<rparr>"
    and ins: "ws_connect_in w1 = [Inr [WsMsg (WsText (lit ''3probe''))]]"
      "ws_send_in w1 = [Inr (), Inr (), Inr ()]"
    by (rule demo_upgrade)
  have parts: "lib_url demo_elib = plain_urls"
    "convert_headers (lib_http demo_elib) (eb_headers b') = Inr None"
    "url_scheme (lib_url demo_elib) (eb_url b') = lit ''http''"
    using demo_facts(1) demo_builder_parts(1) by (simp_all add: demo_elib_def b' del: lit_simps)
  obtain url where "url_set_scheme (lib_url demo_elib)
      (url_append (lib_url demo_elib) (eb_url b') (lit ''transport'') (lit ''websocket'')) (lit ''ws'') = Some url"
    using demo_builder_parts(2) parts(1) by (metis option.exhaust)
  from build_websocket_run [OF parts(2) hs parts(3) this ins] obtain s w' where
    "build_websocket demo_elib b' w1 = (Ok s, w')" and hs': "es_handshake s = demo_handshake True"
    by blast
  with build_upgrade_run [OF d hs demo_offers(1)]
  have run: "build demo_elib demo_builder (demo_server True [WsMsg (WsText (lit ''3probe''))]) = (Ok s, w')"
    by simp
  from build_selects_transport [OF demo_elib_laws run] have
    "last (wire w') = WsSend (WsText (lit ''5''))"
    using demo_offers(1) by (auto simp: hs' simp del: lit_simps)
  with run show ?thesis by blast
qed

text \<open>The fallback. \<open>build_with_fallback\<close> gives what \<open>build\<close> gives unless that is an error; then the
  error is dropped and a polling client is built from the builder as it was before, so that its url
  has one session id, the new one.\<close>

theorem build_fallback:
  assumes "url_laws (lib_url E)" "eb_handshake b = None"
  shows "(case build E b w of
      (Err _, w1) \<Rightarrow> build_with_fallback E b w = build_polling E b w1 \<and>
        (\<forall>s w'. build_polling E b w1 = (Ok s, w') \<longrightarrow> polling_client E b s \<and> es_net s = w' \<and>
           (\<exists>a. wire w' = wire w1 @ [HttpGet a]))
    | r \<Rightarrow> build_with_fallback E b w = r)"
  using build_polling_fresh [OF assms]
  by (auto simp: build_with_fallback_def split: prod.splits outcome.splits) blast+

lemma do_handshake_failed:
  assumes "eb_handshake b = None" "convert_headers (lib_http E) (eb_headers b) = Inr h"
    "get_in w = Inl e # rest"
  obtains w' where "do_handshake E b w = (Err (EIncompleteResponseFromReqwest e), w')" "get_in w' = rest"
  using assms
  by (auto simp: do_handshake_def unwrap_headers_def handshake_with_transport_def polling_new_def
      transport_poll_def polling_poll_def log_request_def Let_def seq_def)

theorem build_fallback_witness:
  "\<exists>w e w1 s w'. build demo_elib demo_builder w = (Err e, w1) \<and>
     build_with_fallback demo_elib demo_builder w = (Ok s, w') \<and> polling_client demo_elib demo_builder s"
proof -
  let ?w = "(demo_server False [])\<lparr>get_in := [Inl (lit ''down''), Inr (ascii ''0{}'')]\<rparr>"
  have "get_in ?w = Inl (lit ''down'') # [Inr (ascii ''0{}'')]"
    by (simp del: ascii_simps lit_simps)
  with demo_elib_laws(2) demo_facts(1) obtain w1 where
    d: "do_handshake demo_elib demo_builder ?w = (Err (EIncompleteResponseFromReqwest (lit ''down'')), w1)"
    and g: "get_in w1 = [Inr (ascii ''0{}'')]"
    by (rule do_handshake_failed)
  from d have b: "build demo_elib demo_builder ?w = (Err (EIncompleteResponseFromReqwest (lit ''down'')), w1)"
    unfolding build_def by (rule seq_simps(2))
  have hs: "lib_handshake demo_elib (e_data (epacket EOpen (ascii ''{}''))) = Inr (demo_handshake False)"
    by (simp only: epacket_sel demo_facts)
  from demo_elib_laws(2) demo_facts(1) g demo_answer(2) hs obtain s w' where
    p: "build_polling demo_elib demo_builder w1 = (Ok s, w')"
    by (rule build_polling_run)
  from build_fallback [OF demo_elib_laws, where w = ?w] have
    "build_with_fallback demo_elib demo_builder ?w = (Ok s, w')" "polling_client demo_elib demo_builder s"
    using b p by (simp_all del: ascii_simps lit_simps)
  with b show ?thesis by blast
qed

text \<open>Headers the HTTP library refuses. Before anything is on the network, a client without a
  handshake panics when it is built over polling (so the fallback does too), while the
  websocket-only builder returns the error.\<close>

theorem build_bad_headers:
  assumes "convert_headers (lib_http E) (eb_headers b) = Inl e" "eb_handshake b = None"
  shows "build E b w = (Panic, w) \<and> build_polling E b w = (Panic, w) \<and>
    build_with_fallback E b w = (Panic, w) \<and> build_websocket E b w = (Err e, w)"
proof -
  have d: "do_handshake E b w = (Panic, w)"
    using assms by (simp add: do_handshake_def unwrap_headers_def)
  then have "build E b w = (Panic, w)" "build_polling E b w = (Panic, w)"
    unfolding build_def build_polling_def by (simp_all add: seq_simps(3))
  moreover have "build_websocket E b w = (Err e, w)"
    using assms by (simp add: build_websocket_def try_headers_def seq_def)
  ultimately show ?thesis by (simp add: build_with_fallback_def)
qed

theorem build_bad_headers_witness:
  "build_websocket demo_elib (ebuilder_headers [([], [1])] demo_builder) (demo_server True [])
     = (Err EInvalidHeaderNameFromReqwest, demo_server True [])"
proof -
  let ?b = "ebuilder_headers [([], [1])] demo_builder"
  have "convert_headers (lib_http demo_elib) (eb_headers ?b) = Inl EInvalidHeaderNameFromReqwest"
    "eb_handshake ?b = None"
    by (simp_all add: ebuilder_headers_def convert_headers_def) (simp add: demo_elib_def)
  from build_bad_headers [OF this] show ?thesis by blast
qed

end
