(* ===== verification/Async_Transports.thy ===== *)
theory Async_Transports
  imports Transports
begin

text \<open>
  \<open>engineio/src/asynchronous/async_transports/\<close>: what the asynchronous transports do beyond the shared
  operations of \<open>Transports\<close>. The polling transport reads the body of a response chunk by chunk, from a
  stream that is made once, in \<open>new\<close>; the base url can be replaced afterwards.
\<close>

section \<open>The stream of the polling transport\<close>

text \<open>
  \<open>PollingTransport::stream\<close>: the chunks of one response after the other, a new GET when a response
  is exhausted.
\<close>

function apolling_next ::
  "'u urllib \<Rightarrow> 'u \<Rightarrow> ((rstring + bytes) list \<times> 'u net, eerror, bytes option) proc" where
  "apolling_next U url (cs, w) =
     (case cs of
        Inr b # cs' \<Rightarrow> (Ok (Some b), (cs', w))
      | Inl e # cs' \<Rightarrow> (Err (EIncompleteResponseFromReqwest e), ([], w))
      | [] \<Rightarrow>
          let w1 = log_request (HttpGet (address U url w)) (w\<lparr>clock := clock w + 1\<rparr>)
          in case stream_in w1 of
               [] \<Rightarrow> (Block, ([], w1))
             | Inl e # rs \<Rightarrow> (Err (EIncompleteResponseFromReqwest e), ([], w1\<lparr>stream_in := rs\<rparr>))
             | Inr cs' # rs \<Rightarrow> apolling_next U url (cs', w1\<lparr>stream_in := rs\<rparr>))"
  by pat_completeness auto
termination
  by (relation "measure (\<lambda>(U, url, cs, w). length (stream_in w))") (auto simp: log_request_def)

declare apolling_next.simps [simp del]

section \<open>The polling transport\<close>

text \<open>\<open>ap_stream_url\<close> is the url the stream was made with, \<open>ap_chunks\<close> its position in the response.\<close>

record 'u apolling =
  ap_base_url :: 'u
  ap_stream_url :: 'u
  ap_chunks :: "(rstring + bytes) list"

definition apolling_new :: "'u urllib \<Rightarrow> 'u \<Rightarrow> 'u apolling" where
  "apolling_new U base =
     (let url = url_append U base (lit ''transport'') (lit ''polling'')
      in \<lparr>ap_base_url = url, ap_stream_url = url, ap_chunks = []\<rparr>)"

definition apolling_emit ::
  "base64 \<Rightarrow> 'u urllib \<Rightarrow> 'u apolling \<Rightarrow> bytes \<Rightarrow> bool \<Rightarrow> ('u net, eerror, unit) proc" where
  "apolling_emit B U p data is_binary_att w =
     (let data_to_send = (if is_binary_att then of_char CHR ''b'' # b64_encode B data else data);
          w1 = log_request (HttpPost (address U (ap_base_url p) w) data_to_send) (w\<lparr>clock := clock w + 1\<rparr>)
      in case post_in w1 of
           [] \<Rightarrow> (Block, w1)
         | Inl e # rs \<Rightarrow> (Err (EIncompleteResponseFromReqwest e), w1\<lparr>post_in := rs\<rparr>)
         | Inr status # rs \<Rightarrow>
             if status \<noteq> 200 then (Err (EIncompleteHttp status), w1\<lparr>post_in := rs\<rparr>)
             else (Ok (), w1\<lparr>post_in := rs\<rparr>))"

definition apolling_poll_next :: "'u urllib \<Rightarrow> ('u apolling \<times> 'u net, eerror, bytes option) proc" where
  "apolling_poll_next U s =
     (case s of (p, w) \<Rightarrow>
        case apolling_next U (ap_stream_url p) (ap_chunks p, w) of
          (r, (cs, w')) \<Rightarrow> (r, (p\<lparr>ap_chunks := cs\<rparr>, w')))"

definition apolling_set_base_url :: "'u urllib \<Rightarrow> 'u \<Rightarrow> 'u apolling \<Rightarrow> 'u apolling" where
  "apolling_set_base_url U base p =
     p\<lparr>ap_base_url :=
        (if \<not> list_ex (\<lambda>(k, v). k = lit ''transport'' \<and> v = lit ''polling'') (url_pairs U base)
         then url_append U base (lit ''transport'') (lit ''polling'') else base)\<rparr>"

section \<open>The base urls of the websocket transports\<close>

text \<open>\<open>WebsocketTransport::set_base_url\<close> is \<open>ws_set_base_url\<close> with the scheme \<open>ws\<close>; this is the one of the
  secure transport.\<close>

definition wss_set_base_url :: "'u urllib \<Rightarrow> 'u \<Rightarrow> 'u option" where
  "wss_set_base_url U base =
     url_set_scheme U
       (if \<not> list_ex (\<lambda>(k, v). k = lit ''transport'' \<and> v = lit ''websocket'') (url_pairs U base)
        then url_append U base (lit ''transport'') (lit ''websocket'') else base) (lit ''wss'')"

lemma transport_pair:
  "list_ex (\<lambda>(k, v). k = a \<and> v = b) ps \<longleftrightarrow> (a, b) \<in> set ps"
  by (auto simp: list_ex_iff)

text \<open>As long as its base url is not replaced, the transport is the one the sockets use.\<close>

lemma apolling_agrees:
  "Polling (ap_base_url (apolling_new U url)) = polling_new U url"
  "ap_stream_url (apolling_new U url) = ap_base_url (apolling_new U url)"
  "apolling_emit B U p data att = polling_emit B U (ap_base_url p) data att"
  "ap_base_url (apolling_set_base_url U url p) = polling_set_base_url U url"
  by (simp_all add: apolling_new_def polling_new_def Let_def apolling_emit_def polling_emit_def fun_eq_iff
      apolling_set_base_url_def polling_set_base_url_def transport_pair split: list.split sum.split)

section \<open>Properties\<close>

text \<open>Replacing the base url of the asynchronous polling transport has no effect on what it reads: the
  stream goes on asking the url of \<open>new\<close>, while packets are sent to the new url. The blocking transport
  asks and sends under the new one.\<close>

theorem set_base_url_splits:
  "apolling_poll_next U (apolling_set_base_url U url p, w) =
     (case apolling_poll_next U (p, w) of (r, (p', w')) \<Rightarrow> (r, (apolling_set_base_url U url p', w'))) \<and>
   wire (snd (apolling_emit B U (apolling_set_base_url U url p) data False w)) =
     wire w @ [HttpPost (address U (polling_set_base_url U url) w) data] \<and>
   wire (snd (polling_poll U (polling_set_base_url U url) w)) =
     wire w @ [HttpGet (address U (polling_set_base_url U url) w)]"
  by (simp add: apolling_agrees apolling_poll_next_def)
    (simp add: apolling_set_base_url_def polling_emit_def polling_poll_def Let_def log_request_def
      split: prod.split list.split sum.split)

text \<open>Whatever urls are set, the base url of a polling transport says that it polls, and that of a
  websocket transport names the websocket transport and has the scheme of its kind.\<close>

definition names_transport :: "'u urllib \<Rightarrow> string \<Rightarrow> 'u \<Rightarrow> bool" where
  "names_transport U t url \<longleftrightarrow> (lit ''transport'', lit t) \<in> set (url_pairs U url)"

lemma names_transport_set:
  assumes "url_laws U"
  shows "names_transport U ''polling'' (ap_base_url (apolling_set_base_url U url p))"
    "names_transport U ''polling'' (ap_base_url (apolling_new U url))"
    "ws_set_base_url U scheme url = Some u \<Longrightarrow> scheme \<in> {lit ''ws'', lit ''wss''} \<Longrightarrow>
       url_scheme U u = scheme \<and> names_transport U ''websocket'' u"
    "wss_set_base_url U url = ws_set_base_url U (lit ''wss'') url"
  using url_laws_simps [OF assms]
  by (auto simp: names_transport_def apolling_set_base_url_def apolling_new_def Let_def ws_set_base_url_def
      wss_set_base_url_def transport_pair simp del: lit_simps split: if_splits)

theorem base_urls_well_formed:
  assumes "url_laws U"
  shows "names_transport U ''polling'' (ap_base_url (fold (apolling_set_base_url U) urls (apolling_new U url))) \<and>
    (\<forall>u. ws_set_base_url U (lit ''ws'') url = Some u \<longrightarrow>
       url_scheme U u = lit ''ws'' \<and> names_transport U ''websocket'' u) \<and>
    (\<forall>u. wss_set_base_url U url = Some u \<longrightarrow>
       url_scheme U u = lit ''wss'' \<and> names_transport U ''websocket'' u)"
proof -
  have "names_transport U ''polling'' (ap_base_url (fold (apolling_set_base_url U) us p))"
    if "names_transport U ''polling'' (ap_base_url p)" for us p
    using that names_transport_set(1) [OF assms] by (induction us arbitrary: p) simp_all
  then show ?thesis
    using names_transport_set [OF assms] by (simp del: lit_simps)
qed

theorem base_urls_well_formed_witness:
  "names_transport plain_urls ''polling'' (ap_base_url (fold (apolling_set_base_url plain_urls)
     [(lit ''http'', lit ''/a'', []), (lit ''http'', lit ''/b'', [])] (apolling_new plain_urls (lit ''http'', lit ''/'', []))))"
  using base_urls_well_formed [OF plain_urls_laws] by blast

end
