(* ===== verification/Engine_Async.thy ===== *)
theory Engine_Async
  imports Engine_Socket Async_Transports
begin

text \<open>
  \<open>engineio/src/asynchronous/async_socket.rs\<close>, \<open>client/async_client.rs\<close>, the streams of
  \<open>async_transports/\<close> and \<open>generator.rs\<close>: the asynchronous engine.io socket and client.

  The three layers of \<open>try_stream!\<close> (transport, socket, client) are generators shared by all clones
  through a \<open>StreamGenerator\<close>, so their positions are fields of the one state record: the chunks of
  the current response, the packets of the current payload, and whether the socket's or the client's
  stream is over. After the first error a \<open>try_stream!\<close> is over and gives \<open>None\<close> from then on.
  A callback is a spawned task; \<open>as_fired\<close> records which tasks were spawned, in order of spawning.
  One call of \<open>next\<close>, \<open>emit\<close> or \<open>disconnect\<close> runs to its end before another starts: the awaited locks
  are only held within it.
\<close>

section \<open>State\<close>

record 'u asocket =
  as_transport :: "'u transport"
  as_net :: "'u net"
  as_connected :: bool
  as_last_ping :: nat
  as_last_pong :: nat
  as_handshake :: handshake
  as_callbacks :: ecallbacks
  as_fired :: "ecall list"
  as_chunks :: "(rstring + bytes) list"
  as_packets :: "epacket list"
  as_done :: bool
  ac_done :: bool

definition asocket_new :: "'u transport \<Rightarrow> 'u net \<Rightarrow> handshake \<Rightarrow> ecallbacks \<Rightarrow> 'u asocket" where
  "asocket_new t w hs cbs =
     \<lparr>as_transport = t, as_net = w, as_connected = False, as_last_ping = clock w,
      as_last_pong = clock w, as_handshake = hs, as_callbacks = cbs, as_fired = [],
      as_chunks = [], as_packets = [], as_done = False, ac_done = False\<rparr>"

definition afire :: "(ecallbacks \<Rightarrow> bool) \<Rightarrow> ecall \<Rightarrow> 'u asocket \<Rightarrow> 'u asocket" where
  "afire present c s =
     (if present (as_callbacks s) then s\<lparr>as_fired := as_fired s @ [c]\<rparr> else s)"

definition on_anet :: "('u net, 'e, 'a) proc \<Rightarrow> ('u asocket, 'e, 'a) proc" where
  "on_anet m s = (case m (as_net s) of (r, w) \<Rightarrow> (r, s\<lparr>as_net := w\<rparr>))"

definition apinged :: "'u asocket \<Rightarrow> 'u asocket" where
  "apinged s = s\<lparr>as_last_ping := clock (as_net s)\<rparr>"

section \<open>Operations that send\<close>

definition asocket_emit :: "base64 \<Rightarrow> 'u urllib \<Rightarrow> epacket \<Rightarrow> ('u asocket, eerror, unit) proc" where
  "asocket_emit B U packet s =
     (if \<not> as_connected s then
        (Err EIllegalActionBeforeOpen, afire has_error (OnError EIllegalActionBeforeOpen) s)
      else
        let is_binary = (e_id packet = EMessageBinary);
            data = (if is_binary then e_data packet else epacket_to_bytes B packet)
        in case on_anet (transport_emit B U (as_transport s) data is_binary) s of
             (Err e, s') \<Rightarrow> (Err e, afire has_error (OnError e) s')
           | (r, s') \<Rightarrow> (r, s'))"

definition asocket_connect :: "base64 \<Rightarrow> 'u urllib \<Rightarrow> ('u asocket, eerror, unit) proc" where
  "asocket_connect B U s =
     asocket_emit B U (epacket EPong []) (apinged (afire has_open OnOpen (s\<lparr>as_connected := True\<rparr>)))"

text \<open>Unlike the blocking socket, a failed \<open>Close\<close> packet ends \<open>disconnect\<close> before the flag is reset.\<close>

definition asocket_disconnect :: "base64 \<Rightarrow> 'u urllib \<Rightarrow> ('u asocket, eerror, unit) proc" where
  "asocket_disconnect B U =
     seq (modify (afire has_close OnClose)) (\<lambda>_.
     seq (asocket_emit B U (epacket EClose [])) (\<lambda>_.
     modify (\<lambda>s. s\<lparr>as_connected := False\<rparr>)))"

section \<open>The byte streams\<close>

text \<open>\<open>AsyncTransportType::as_pin_box\<close>: the stream of the transport the socket was built with.\<close>

definition abytes_next :: "'u urllib \<Rightarrow> ('u asocket, eerror, bytes option) proc" where
  "abytes_next U s =
     (case as_transport s of
        Polling u \<Rightarrow>
          (case apolling_next U u (as_chunks s, as_net s) of
             (r, (cs, w)) \<Rightarrow> (r, s\<lparr>as_chunks := cs, as_net := w\<rparr>))
      | Websocket _ \<Rightarrow> on_anet ws_poll_next s
      | WebsocketSecure _ \<Rightarrow> on_anet ws_poll_next s)"

section \<open>The packet stream of the socket\<close>

definition finish :: "'u asocket \<Rightarrow> 'u asocket" where
  "finish s = s\<lparr>as_done := True, as_packets := [], as_chunks := []\<rparr>"

definition apending :: "'u asocket \<Rightarrow> nat" where
  "apending s =
     length (as_chunks s) + sum_list (map (case_sum (\<lambda>_. 1) (\<lambda>cs. Suc (length cs))) (stream_in (as_net s))) +
     length (ws_in (as_net s))"

lemma apolling_next_size:
  "apolling_next U url (cs, w) = (Ok (Some b), (cs', w')) \<Longrightarrow>
     length cs' + sum_list (map (case_sum (\<lambda>_. 1) (\<lambda>cs. Suc (length cs))) (stream_in w')) <
       length cs + sum_list (map (case_sum (\<lambda>_. 1) (\<lambda>cs. Suc (length cs))) (stream_in w)) \<and>
     ws_in w' = ws_in w"
proof (induction U url "(cs, w)" arbitrary: cs w rule: apolling_next.induct)
  case (1 U url cs w)
  from "1.prems" show ?case
    by (auto simp: apolling_next.simps [of U url cs w] log_request_def Let_def
        split: list.splits sum.splits dest!: "1.hyps" [rotated -1])
qed

lemma abytes_next_size [termination_simp]:
  assumes "(Ok (Some d), s1) = abytes_next U s"
  shows "apending s1 < apending s"
proof -
  have ws: "(case on_anet ws_poll_next s of (Ok (Some d), s1) \<Rightarrow> apending s1 < apending s | _ \<Rightarrow> True)"
    using ws_read_consumes [of "ws_in (as_net s)"]
    by (auto simp: on_anet_def ws_poll_next_def apending_def split: prod.splits outcome.splits option.splits)
  show ?thesis
    using assms ws apolling_next_size
    by (fastforce simp: abytes_next_def apending_def split: transport.splits prod.splits)
qed

function asocket_next :: "base64 \<Rightarrow> 'u urllib \<Rightarrow> ('u asocket, eerror, epacket option) proc" where
  "asocket_next B U s =
     (if as_done s then (Ok None, s)
      else case as_packets s of
        packet # elems \<Rightarrow> (Ok (Some packet), s\<lparr>as_packets := elems\<rparr>)
      | [] \<Rightarrow>
          (case abytes_next U s of
             (Ok None, s1) \<Rightarrow> (Ok None, finish s1)
           | (Ok (Some payload), s1) \<Rightarrow>
               (case payload_try_from B payload of
                  Inl e \<Rightarrow> (Err e, finish s1)
                | Inr [] \<Rightarrow> asocket_next B U s1
                | Inr (packet # elems) \<Rightarrow> (Ok (Some packet), s1\<lparr>as_packets := elems\<rparr>))
           | (Err e, s1) \<Rightarrow> (Err e, finish s1)
           | (Panic, s1) \<Rightarrow> (Panic, s1)
           | (Block, s1) \<Rightarrow> (Block, s1)))"
  by pat_completeness auto
termination
  by (relation "measure (\<lambda>(B, U, s). apending s)") (auto simp: abytes_next_size)

declare asocket_next.simps [simp del]

section \<open>The client\<close>

definition ahandle_packet :: "epacket \<Rightarrow> 'u asocket \<Rightarrow> 'u asocket" where
  "ahandle_packet p = afire has_packet (OnPacket p)"

definition ahandle_data :: "bytes \<Rightarrow> 'u asocket \<Rightarrow> 'u asocket" where
  "ahandle_data d = afire has_data (OnData d)"

definition ahandle_close :: "'u asocket \<Rightarrow> 'u asocket" where
  "ahandle_close s = (afire has_close OnClose s)\<lparr>as_connected := False\<rparr>"

definition handle_inconming_packet :: "base64 \<Rightarrow> 'u urllib \<Rightarrow> epacket \<Rightarrow> ('u asocket, eerror, unit) proc" where
  "handle_inconming_packet B U p =
     seq (modify (ahandle_packet p)) (\<lambda>_.
       case e_id p of
         EMessageBinary \<Rightarrow> modify (ahandle_data (e_data p))
       | EMessage \<Rightarrow> modify (ahandle_data (e_data p))
       | EClose \<Rightarrow> modify ahandle_close
       | EUpgrade \<Rightarrow> give (Ok ())
       | EPing \<Rightarrow> seq (modify apinged) (\<lambda>_. asocket_emit B U (epacket EPong []))
       | EPong \<Rightarrow> give (Err EInvalidPacket)
       | EOpen \<Rightarrow> give (Err EInvalidPacket)
       | ENoop \<Rightarrow> give (Ok ()))"

definition aclient_finish :: "'u asocket \<Rightarrow> 'u asocket" where
  "aclient_finish s = s\<lparr>ac_done := True\<rparr>"

text \<open>\<open>Client::stream\<close>: every \<open>?\<close> gives the error once and ends the stream.\<close>

definition aclient_next :: "base64 \<Rightarrow> 'u urllib \<Rightarrow> ('u asocket, eerror, epacket option) proc" where
  "aclient_next B U s =
     (if ac_done s then (Ok None, s)
      else case asocket_next B U s of
        (Ok None, s1) \<Rightarrow> (Ok None, aclient_finish s1)
      | (Ok (Some packet), s1) \<Rightarrow>
          (case handle_inconming_packet B U packet s1 of
             (Ok _, s2) \<Rightarrow> (Ok (Some packet), s2)
           | (Err e, s2) \<Rightarrow> (Err e, aclient_finish s2)
           | (Panic, s2) \<Rightarrow> (Panic, s2)
           | (Block, s2) \<Rightarrow> (Block, s2))
      | (Err e, s1) \<Rightarrow> (Err e, aclient_finish s1)
      | (Panic, s1) \<Rightarrow> (Panic, s1)
      | (Block, s1) \<Rightarrow> (Block, s1))"

section \<open>What the operations leave alone\<close>

lemma afire_fields [simp]:
  "as_net (afire c e s) = as_net s" "as_connected (afire c e s) = as_connected s"
  "as_transport (afire c e s) = as_transport s" "as_packets (afire c e s) = as_packets s"
  "as_chunks (afire c e s) = as_chunks s" "as_done (afire c e s) = as_done s"
  "ac_done (afire c e s) = ac_done s" "as_callbacks (afire c e s) = as_callbacks s"
  by (simp_all add: afire_def)

lemma asocket_emit_fields:
  "as_connected (snd (asocket_emit B U p s)) = as_connected s"
  "as_transport (snd (asocket_emit B U p s)) = as_transport s"
  by (auto simp: asocket_emit_def on_anet_def Let_def split: prod.splits outcome.splits)

lemma asocket_emit_closed:
  "\<not> as_connected s \<Longrightarrow>
     asocket_emit B U p s =
       (Err EIllegalActionBeforeOpen, afire has_error (OnError EIllegalActionBeforeOpen) s)"
  by (simp add: asocket_emit_def)

interpretation asock: connection "asocket_emit B U" "asocket_disconnect B U" as_connected
    "\<lambda>s. wire (as_net s)" EIllegalActionBeforeOpen
  for B :: base64 and U :: "'u urllib"
  by unfold_locales
    (auto simp: asocket_emit_closed asocket_emit_fields asocket_disconnect_def elim!: seq_OkE)

section \<open>The stream as one sequence\<close>

text \<open>
  The specification of the packet stream: the items still to come, where \<open>None\<close> is the end of the
  stream. One call takes the head; an error or the end leaves only the end.
\<close>

definition apayload_items :: "base64 \<Rightarrow> bytes \<Rightarrow> (eerror + epacket) option list" where
  "apayload_items B d =
     (case payload_try_from B d of Inl e \<Rightarrow> [Some (Inl e)] | Inr ps \<Rightarrow> map (\<lambda>p. Some (Inr p)) ps)"

definition chunk_items :: "base64 \<Rightarrow> rstring + bytes \<Rightarrow> (eerror + epacket) option list" where
  "chunk_items B c =
     (case c of
        Inl e \<Rightarrow> [Some (Inl (EIncompleteResponseFromReqwest e))]
      | Inr d \<Rightarrow> apayload_items B d)"

definition response_items ::
  "base64 \<Rightarrow> rstring + (rstring + bytes) list \<Rightarrow> (eerror + epacket) option list" where
  "response_items B r =
     (case r of
        Inl e \<Rightarrow> [Some (Inl (EIncompleteResponseFromReqwest e))]
      | Inr cs \<Rightarrow> concat (map (chunk_items B) cs))"

fun aws_items :: "base64 \<Rightarrow> ws_event \<Rightarrow> (eerror + epacket) option list" where
  "aws_items B (WsMsg (WsText s)) = apayload_items B (utf8 s)"
| "aws_items B (WsMsg (WsBinary d)) = apayload_items B (4 # d)"
| "aws_items B (WsMsg (WsOther d)) = []"
| "aws_items B (WsErr e) = [Some (Inl (EWebsocketError e))]"
| "aws_items B WsEnd = [None]"

definition anet_items ::
  "base64 \<Rightarrow> 'u transport \<Rightarrow> (rstring + bytes) list \<Rightarrow> 'u net \<Rightarrow> (eerror + epacket) option list" where
  "anet_items B t cs w =
     (case t of
        Polling _ \<Rightarrow> concat (map (chunk_items B) cs) @ concat (map (response_items B) (stream_in w))
      | _ \<Rightarrow> concat (map (aws_items B) (ws_in w)))"

definition abacklog :: "base64 \<Rightarrow> 'u asocket \<Rightarrow> (eerror + epacket) option list" where
  "abacklog B s =
     (if as_done s then [None]
      else map (\<lambda>p. Some (Inr p)) (as_packets s) @
        anet_items B (as_transport s) (as_chunks s) (as_net s))"

definition stream_spec ::
  "(eerror + epacket) option list \<Rightarrow> (eerror, epacket option) outcome \<times> (eerror + epacket) option list" where
  "stream_spec items =
     (case items of
        [] \<Rightarrow> (Block, [])
      | None # _ \<Rightarrow> (Ok None, [None])
      | Some (Inl e) # _ \<Rightarrow> (Err e, [None])
      | Some (Inr p) # rest \<Rightarrow> (Ok (Some p), rest))"

lemma stream_spec_simps [simp]:
  "stream_spec [] = (Block, [])"
  "stream_spec (None # r) = (Ok None, [None])"
  "stream_spec (Some (Inl e) # r) = (Err e, [None])"
  "stream_spec (Some (Inr p) # r) = (Ok (Some p), r)"
  by (simp_all add: stream_spec_def)

lemma apolling_next_items:
  "case apolling_next U u (cs, w) of
      (Ok (Some d), (cs', w')) \<Rightarrow>
        concat (map (chunk_items B) cs) @ concat (map (response_items B) (stream_in w)) =
        apayload_items B d @ concat (map (chunk_items B) cs') @ concat (map (response_items B) (stream_in w'))
    | (Ok None, _) \<Rightarrow> False
    | (Err e, _) \<Rightarrow>
        (\<exists>r. concat (map (chunk_items B) cs) @ concat (map (response_items B) (stream_in w)) =
           Some (Inl e) # r)
    | (Panic, _) \<Rightarrow> False
    | (Block, (cs', w')) \<Rightarrow>
        concat (map (chunk_items B) cs) @ concat (map (response_items B) (stream_in w)) = [] \<and>
        cs' = [] \<and> stream_in w' = []"
proof (induction U u "(cs, w)" arbitrary: cs w rule: apolling_next.induct)
  case (1 U url cs w)
  show ?case
  proof (cases cs)
    case (Cons c cs')
    then show ?thesis
      by (subst apolling_next.simps) (cases c; simp add: chunk_items_def)
  next
    case Nil
    let ?w1 = "log_request (HttpGet (address U url w)) (w\<lparr>clock := clock w + 1\<rparr>)"
    have sin: "stream_in ?w1 = stream_in w" by (simp add: log_request_def)
    show ?thesis
    proof (cases "stream_in w")
      case Nil': Nil
      with Nil show ?thesis
        by (subst apolling_next.simps) (simp add: log_request_def Let_def)
    next
      case (Cons r rs)
      show ?thesis
      proof (cases r)
        case (Inl e)
        with Nil Cons show ?thesis
          by (subst apolling_next.simps) (simp add: log_request_def Let_def response_items_def)
      next
        case (Inr cs')
        have step: "apolling_next U url (cs, w) = apolling_next U url (cs', ?w1\<lparr>stream_in := rs\<rparr>)"
          using Nil Cons Inr by (subst apolling_next.simps) (simp add: log_request_def Let_def)
        have items: "concat (map (chunk_items B) cs) @ concat (map (response_items B) (stream_in w)) =
            concat (map (chunk_items B) cs') @
              concat (map (response_items B) (stream_in (?w1\<lparr>stream_in := rs\<rparr>)))"
          using Nil Cons Inr by (simp add: response_items_def)
        show ?thesis
          unfolding step items using "1.hyps" [OF Nil refl] Cons Inr sin by simp
      qed
    qed
  qed
qed

lemma ws_poll_next_items:
  "case ws_poll_next w of
      (Ok (Some d), w') \<Rightarrow>
        concat (map (aws_items B) (ws_in w)) = apayload_items B d @ concat (map (aws_items B) (ws_in w'))
    | (Ok None, _) \<Rightarrow> (\<exists>r. concat (map (aws_items B) (ws_in w)) = None # r)
    | (Err e, _) \<Rightarrow> (\<exists>r. concat (map (aws_items B) (ws_in w)) = Some (Inl e) # r)
    | (Panic, _) \<Rightarrow> False
    | (Block, w') \<Rightarrow> concat (map (aws_items B) (ws_in w)) = [] \<and> ws_in w' = []"
proof -
  have "case ws_read es of
      (Ok (Some d), es') \<Rightarrow>
        concat (map (aws_items B) es) = apayload_items B d @ concat (map (aws_items B) es')
    | (Ok None, _) \<Rightarrow> (\<exists>r. concat (map (aws_items B) es) = None # r)
    | (Err e, _) \<Rightarrow> (\<exists>r. concat (map (aws_items B) es) = Some (Inl e) # r)
    | (Panic, _) \<Rightarrow> False
    | (Block, es') \<Rightarrow> concat (map (aws_items B) es) = [] \<and> es' = []" for es
    by (induction es rule: ws_read.induct) (auto split: prod.splits outcome.splits option.splits)
  from this [of "ws_in w"] show ?thesis
    by (auto simp: ws_poll_next_def split: prod.splits outcome.splits option.splits)
qed

lemma abytes_next_items:
  "case abytes_next U s of
      (Ok (Some d), s') \<Rightarrow>
        anet_items B (as_transport s) (as_chunks s) (as_net s) =
          apayload_items B d @ anet_items B (as_transport s') (as_chunks s') (as_net s') \<and>
        as_done s' = as_done s \<and> as_packets s' = as_packets s
    | (Ok None, _) \<Rightarrow> (\<exists>r. anet_items B (as_transport s) (as_chunks s) (as_net s) = None # r)
    | (Err e, _) \<Rightarrow> (\<exists>r. anet_items B (as_transport s) (as_chunks s) (as_net s) = Some (Inl e) # r)
    | (Panic, _) \<Rightarrow> False
    | (Block, s') \<Rightarrow> anet_items B (as_transport s) (as_chunks s) (as_net s) = [] \<and>
        anet_items B (as_transport s') (as_chunks s') (as_net s') = [] \<and>
        as_done s' = as_done s \<and> as_packets s' = as_packets s"
proof (cases "as_transport s")
  case (Polling u)
  then show ?thesis
    using apolling_next_items [where U = U and u = u and cs = "as_chunks s" and w = "as_net s" and B = B]
    by (auto simp: abytes_next_def anet_items_def split: prod.splits outcome.splits option.splits)
next
  case (WebsocketSecure u)
  then show ?thesis
    using ws_poll_next_items [where w = "as_net s" and B = B]
    by (auto simp: abytes_next_def anet_items_def on_anet_def
        split: prod.splits outcome.splits option.splits)
next
  case (Websocket u)
  then show ?thesis
    using ws_poll_next_items [where w = "as_net s" and B = B]
    by (auto simp: abytes_next_def anet_items_def on_anet_def
        split: prod.splits outcome.splits option.splits)
qed

lemma finish_simps [simp]: "as_done (finish s)" "abacklog B (finish s) = [None]"
  by (simp_all add: finish_def abacklog_def)

lemma asocket_next_refines:
  "(fst (asocket_next B U s), abacklog B (snd (asocket_next B U s))) = stream_spec (abacklog B s)"
proof (cases "as_done s \<or> as_packets s \<noteq> []")
  case True
  then show ?thesis
    by (auto simp: asocket_next.simps [of B U s] abacklog_def split: list.splits)
next
  case False
  note step = abytes_next_items [where U = U and s = s and B = B]
  have items: "abacklog B s = anet_items B (as_transport s) (as_chunks s) (as_net s)"
    using False by (simp add: abacklog_def)
  obtain r s1 where bn: "abytes_next U s = (r, s1)" by fastforce
  show ?thesis
  proof (cases r)
    case (Ok o')
    show ?thesis
    proof (cases o')
      case None
      with False bn Ok step items show ?thesis
        by (auto simp: asocket_next.simps [of B U s])
    next
      case (Some d)
      have tail: "abacklog B s = apayload_items B d @
          anet_items B (as_transport s1) (as_chunks s1) (as_net s1)"
        and same: "as_done s1 = as_done s" "as_packets s1 = as_packets s"
        using bn Ok Some step items by simp_all
      show ?thesis
      proof (cases "payload_try_from B d")
        case (Inl e)
        with False bn Ok Some tail show ?thesis
          by (auto simp: asocket_next.simps [of B U s] apayload_items_def)
      next
        case (Inr ps)
        with payload_try_from_ne [of B d] obtain p ps' where "ps = p # ps'" by (cases ps) auto
        with Inr False bn Ok Some tail same show ?thesis
          by (auto simp: asocket_next.simps [of B U s] apayload_items_def abacklog_def)
      qed
    qed
  next
    case (Err e)
    with False bn step items show ?thesis by (auto simp: asocket_next.simps [of B U s])
  next
    case Panic
    with bn step show ?thesis by simp
  next
    case Block
    with False bn step items show ?thesis
      by (auto simp: asocket_next.simps [of B U s] abacklog_def)
  qed
qed

lemma asocket_next_no_panic: "fst (asocket_next B U s) \<noteq> Panic"
  using asocket_next_refines [where B = B and U = U and s = s]
  by (auto simp: stream_spec_def split: list.splits option.splits sum.splits)

text \<open>The connection state does not matter to the stream, and the stream does not change it.\<close>

lemma abytes_next_fields:
  "as_connected (snd (abytes_next U s)) = as_connected s \<and>
   ac_done (snd (abytes_next U s)) = ac_done s \<and>
   as_callbacks (snd (abytes_next U s)) = as_callbacks s"
  by (auto simp: abytes_next_def on_anet_def split: transport.splits prod.splits)

lemma asocket_next_fields:
  "as_connected (snd (asocket_next B U s)) = as_connected s \<and>
   ac_done (snd (asocket_next B U s)) = ac_done s \<and>
   as_callbacks (snd (asocket_next B U s)) = as_callbacks s"
proof (induction B U s rule: asocket_next.induct)
  case (1 B U s)
  show ?case
    using "1.IH" abytes_next_fields [of U s]
    by (auto simp: asocket_next.simps [of B U s] finish_def
        split: list.splits option.splits prod.splits outcome.splits sum.splits)
qed

lemma aclient_finish_simps [simp]:
  "ac_done (aclient_finish s)" "as_connected (aclient_finish s) = as_connected s"
  "as_fired (aclient_finish s) = as_fired s"
  by (simp_all add: aclient_finish_def)

lemma asocket_emit_no_panic: "fst (asocket_emit B U p s) \<noteq> Panic"
  by (auto simp: asocket_emit_def on_anet_def Let_def split: prod.splits outcome.splits)

lemma handle_inconming_no_panic: "fst (handle_inconming_packet B U p s) \<noteq> Panic"
  by (simp add: handle_inconming_packet_def asocket_emit_no_panic split: epacket_id.splits)

lemma aclient_next_no_panic: "fst (aclient_next B U s) \<noteq> Panic"
  using asocket_next_no_panic [of B U s]
  by (auto simp: aclient_next_def split: prod.splits outcome.splits option.splits)
    (metis handle_inconming_no_panic fst_conv)

lemma aclient_next_head:
  assumes "\<not> ac_done s" "abacklog B s = Some (Inr p) # rest"
  obtains s1 where "asocket_next B U s = (Ok (Some p), s1)" "abacklog B s1 = rest"
    "as_connected s1 = as_connected s" "\<not> ac_done s1" "as_callbacks s1 = as_callbacks s"
    "aclient_next B U s =
      (case handle_inconming_packet B U p s1 of
         (Ok _, s2) \<Rightarrow> (Ok (Some p), s2)
       | (Err e, s2) \<Rightarrow> (Err e, aclient_finish s2)
       | (Panic, s2) \<Rightarrow> (Panic, s2)
       | (Block, s2) \<Rightarrow> (Block, s2))"
proof -
  have "fst (asocket_next B U s) = Ok (Some p)" "abacklog B (snd (asocket_next B U s)) = rest"
    using asocket_next_refines [where B = B and U = U and s = s] assms(2) by simp_all
  moreover from this obtain s1 where "asocket_next B U s = (Ok (Some p), s1)" by (metis prod.collapse)
  ultimately show thesis
    using that assms(1) asocket_next_fields [of B U s] by (simp add: aclient_next_def)
qed

text \<open>Sending reads nothing, and a packet the stream gives is taken from the items to come.\<close>

lemma stream_in_emit: "stream_in (snd (transport_emit B U t d b w)) = stream_in w"
proof -
  have ws: "stream_in (snd (ws_send m w)) = stream_in w" for m
    by (simp add: ws_send_def Let_def log_request_def split: list.splits sum.splits)
  have "stream_in (snd (polling_emit B U u d b w)) = stream_in w" for u
    by (simp add: polling_emit_def Let_def log_request_def split: list.splits sum.splits)
  with ws show ?thesis
    by (auto simp: transport_emit_def ws_emit_def ws_send_text_def split: transport.split option.split)
qed

lemma asocket_emit_abacklog: "abacklog B (snd (asocket_emit B' U p s)) = abacklog B s"
proof -
  have "anet_items B (as_transport s) (as_chunks s) (snd (transport_emit B' U t d b (as_net s))) =
      anet_items B (as_transport s) (as_chunks s) (as_net s)" for t d b
    by (simp add: anet_items_def transport_emit_ins stream_in_emit split: transport.splits)
  then show ?thesis
    by (auto simp: asocket_emit_def on_anet_def abacklog_def Let_def split: prod.splits outcome.splits)
      (metis snd_conv)+
qed

lemma abacklog_steps [simp]:
  "abacklog B (afire c e s) = abacklog B s" "abacklog B (apinged s) = abacklog B s"
  "abacklog B (ahandle_packet p s) = abacklog B s" "abacklog B (ahandle_data d s) = abacklog B s"
  "abacklog B (ahandle_close s) = abacklog B s" "abacklog B (aclient_finish s) = abacklog B s"
  by (simp_all add: abacklog_def apinged_def ahandle_packet_def ahandle_data_def ahandle_close_def
      aclient_finish_def)

lemma handle_inconming_abacklog: "abacklog B (snd (handle_inconming_packet B' U p s)) = abacklog B s"
  by (simp add: handle_inconming_packet_def asocket_emit_abacklog split: epacket_id.splits)

lemma aclient_next_abacklog:
  assumes "aclient_next B U s = (Ok (Some p), s')"
  shows "abacklog B s = Some (Inr p) # abacklog B s'"
proof -
  from assms have nd: "\<not> ac_done s" by (auto simp: aclient_next_def)
  obtain s1 where s1: "asocket_next B U s = (Ok (Some p), s1)"
    and "snd (handle_inconming_packet B U p s1) = s'"
    using assms nd by (auto simp: aclient_next_def split: prod.splits outcome.splits option.splits)
  then have "abacklog B s' = abacklog B s1" using handle_inconming_abacklog by metis
  moreover have "(Ok (Some p), abacklog B s1) = stream_spec (abacklog B s)"
    using asocket_next_refines [of B U s] s1 by simp
  ultimately show ?thesis
    by (auto simp: stream_spec_def split: list.splits option.splits sum.splits)
qed

section \<open>Properties\<close>

definition demo_asocket :: "ws_event list \<Rightarrow> nat asocket" where
  "demo_asocket es =
     (asocket_new (Websocket 0) (demo_net es)
        \<lparr>sid = [], upgrades = [], ping_interval = 0, ping_timeout = 0\<rparr>
        \<lparr>has_open = False, has_close = True, has_data = True, has_error = False, has_packet = False\<rparr>)
     \<lparr>as_connected := True\<rparr>"

lemma demo_asocket_fields [simp]:
  "as_connected (demo_asocket es)" "as_transport (demo_asocket es) = Websocket 0"
  "as_net (demo_asocket es) = demo_net es" "\<not> ac_done (demo_asocket es)"
  by (simp_all add: demo_asocket_def asocket_new_def)

lemma demo_abacklog: "abacklog B (demo_asocket es) = concat (map (aws_items B) es)"
  by (simp add: abacklog_def anet_items_def demo_asocket_def asocket_new_def demo_net_def)

lemma aws_items_char:
  assumes "c < 128" "word_of_nat c \<noteq> separator"
  shows "aws_items B (WsMsg (WsText [c])) = [Some (epacket_try_from B [word_of_nat c])]"
  using assms by (simp add: apayload_items_def payload_try_from_def payload_scan_split slice_def split_at_fresh
      split: sum.splits)

lemma demo_abacklog_items:
  "abacklog B (demo_asocket [WsMsg (WsText (lit ''2''))]) = [Some (Inr (epacket EPing []))]"
  "abacklog B (demo_asocket [WsMsg (WsText (lit ''0''))]) = [Some (Inr (epacket EOpen []))]"
  by (simp_all add: demo_abacklog aws_items_char separator_def epacket_try_from_def
      epacket_id_try_from_def epacket_def del: aws_items.simps)

text \<open>C11: the asynchronous packet stream delivers the packets in order. One call of \<open>next\<close> on the
  socket's stream takes the first of the items still to come and leaves the rest; after an error or
  the end of the transport only the end is left. The call never panics and blocks exactly when the
  server has nothing more to say.\<close>

theorem asocket_next_fifo:
  "(fst (asocket_next B U s), abacklog B (snd (asocket_next B U s))) = stream_spec (abacklog B s)"
  by (rule asocket_next_refines)

text \<open>The asynchronous client does not panic on what the server sends. An \<open>Open\<close> or \<open>Pong\<close> packet,
  where the blocking client panics, is reported as \<open>InvalidPacket\<close>, and the stream is over after it.\<close>

theorem aclient_no_panic:
  "fst (aclient_next B U s) \<noteq> Panic \<and>
   (\<not> ac_done s \<and> (\<exists>p rest. abacklog B s = Some (Inr p) # rest \<and> (e_id p = EOpen \<or> e_id p = EPong)) \<longrightarrow>
     fst (aclient_next B U s) = Err EInvalidPacket \<and>
     fst (aclient_next B U (snd (aclient_next B U s))) = Ok None)"
proof
  show "fst (aclient_next B U s) \<noteq> Panic" by (rule aclient_next_no_panic)
  show "\<not> ac_done s \<and> (\<exists>p rest. abacklog B s = Some (Inr p) # rest \<and> (e_id p = EOpen \<or> e_id p = EPong)) \<longrightarrow>
     fst (aclient_next B U s) = Err EInvalidPacket \<and>
     fst (aclient_next B U (snd (aclient_next B U s))) = Ok None"
  proof (intro impI, elim conjE exE)
    fix p rest
    assume a: "\<not> ac_done s" "abacklog B s = Some (Inr p) # rest" and id: "e_id p = EOpen \<or> e_id p = EPong"
    from a obtain s1 where "aclient_next B U s =
      (case handle_inconming_packet B U p s1 of
         (Ok _, s2) \<Rightarrow> (Ok (Some p), s2)
       | (Err e, s2) \<Rightarrow> (Err e, aclient_finish s2)
       | (Panic, s2) \<Rightarrow> (Panic, s2)
       | (Block, s2) \<Rightarrow> (Block, s2))"
      by (rule aclient_next_head)
    with id show "fst (aclient_next B U s) = Err EInvalidPacket \<and>
        fst (aclient_next B U (snd (aclient_next B U s))) = Ok None"
      by (auto simp: handle_inconming_packet_def aclient_next_def [of B U "aclient_finish _"])
  qed
qed

theorem aclient_no_panic_witness:
  "fst (aclient_next nibble64 demo_urls (demo_asocket [WsMsg (WsText (lit ''0''))])) = Err EInvalidPacket"
  using aclient_no_panic [of nibble64 demo_urls "demo_asocket [WsMsg (WsText (lit ''0''))]"]
  by (simp add: demo_abacklog_items del: lit_simps)

text \<open>An error ends the asynchronous client's stream: whatever made \<open>next\<close> return an error, it
  returns \<open>None\<close> from then on and touches nothing.\<close>

theorem aclient_error_ends:
  assumes "aclient_next B U s = (Err e, s')"
  shows "aclient_next B U s' = (Ok None, s')"
proof -
  have "ac_done s'"
    using assms by (auto simp: aclient_next_def split: if_splits prod.splits outcome.splits option.splits)
  then show ?thesis by (simp add: aclient_next_def)
qed

theorem aclient_error_ends_witness:
  "\<exists>e s'. aclient_next nibble64 demo_urls (demo_asocket [WsErr (lit ''x'')]) = (Err e, s') \<and>
     aclient_next nibble64 demo_urls s' = (Ok None, s')"
proof -
  let ?s = "demo_asocket [WsErr (lit ''x'')]"
  have "abacklog nibble64 ?s = [Some (Inl (EWebsocketError (lit ''x'')))]"
    by (simp add: demo_abacklog del: lit_simps)
  then have "fst (asocket_next nibble64 demo_urls ?s) = Err (EWebsocketError (lit ''x''))"
    using asocket_next_refines [where B = nibble64 and U = demo_urls and s = ?s] by simp
  then obtain s1 where "asocket_next nibble64 demo_urls ?s = (Err (EWebsocketError (lit ''x'')), s1)"
    by (metis prod.collapse)
  then have "aclient_next nibble64 demo_urls ?s = (Err (EWebsocketError (lit ''x'')), aclient_finish s1)"
    by (simp add: aclient_next_def del: lit_simps)
  from aclient_error_ends [OF this] this show ?thesis by blast
qed

text \<open>After \<open>disconnect\<close> the asynchronous stream goes on. A message that still comes in is delivered;
  a ping can no longer be answered, so it is reported as \<open>IllegalActionBeforeOpen\<close> and ends the
  stream. Whatever is emitted is refused and nothing of it reaches the network.\<close>

theorem adisconnect_stream_goes_on:
  assumes "asocket_disconnect B U s = (Ok u, s')" and "\<not> ac_done s'"
    and "abacklog B s' = Some (Inr p) # rest"
  shows "(e_id p = EMessage \<longrightarrow> fst (aclient_next B U s') = Ok (Some p)) \<and>
    (e_id p = EPing \<longrightarrow> fst (aclient_next B U s') = Err EIllegalActionBeforeOpen) \<and>
    fst (run_all (asocket_emit B U) ps s') = replicate (length ps) (Err EIllegalActionBeforeOpen) \<and>
    wire (as_net (snd (run_all (asocket_emit B U) ps s'))) = wire (as_net s')"
proof -
  have closed: "\<not> as_connected s'" by (rule asock.close_closes [OF assms(1)])
  from assms(2,3) obtain s1 where con: "as_connected s1 = as_connected s'"
    and out: "aclient_next B U s' =
      (case handle_inconming_packet B U p s1 of
         (Ok _, s2) \<Rightarrow> (Ok (Some p), s2)
       | (Err e, s2) \<Rightarrow> (Err e, aclient_finish s2)
       | (Panic, s2) \<Rightarrow> (Panic, s2)
       | (Block, s2) \<Rightarrow> (Block, s2))"
    by (rule aclient_next_head)
  have "\<not> as_connected (apinged (ahandle_packet p s1))"
    using closed con by (simp add: apinged_def ahandle_packet_def)
  then show ?thesis
    using out asock.closed_silent [OF assms(1)]
    by (auto simp: handle_inconming_packet_def asocket_emit_closed)
qed

lemma demo_adisconnect:
  obtains s' where "asocket_disconnect nibble64 demo_urls (demo_asocket es) = (Ok (), s')"
    "\<not> ac_done s'" "abacklog nibble64 s' = abacklog nibble64 (demo_asocket es)"
proof -
  let ?s = "demo_asocket es"
  have "\<exists>w. on_anet (transport_emit nibble64 demo_urls (Websocket 0) (ascii ''1'') False) (afire has_close OnClose ?s)
      = (Ok (), (afire has_close OnClose ?s)\<lparr>as_net := w\<rparr>) \<and> ws_in w = ws_in (demo_net es)"
    by (rule exI [where x = "snd (ws_send (WsText (lit ''1'')) (demo_net es))"])
      (simp add: on_anet_def transport_emit_def ws_emit_def ws_send_text_def from_utf8_def ws_send_def
        log_request_def Let_def demo_net_def)
  then obtain w where w: "on_anet (transport_emit nibble64 demo_urls (Websocket 0) (ascii ''1'') False)
      (afire has_close OnClose ?s) = (Ok (), (afire has_close OnClose ?s)\<lparr>as_net := w\<rparr>)"
    and wi: "ws_in w = ws_in (demo_net es)" by blast
  have close: "epacket_to_bytes nibble64 (epacket EClose []) = ascii ''1''"
    by (simp add: epacket_to_bytes_def epacket_def)
  have "asocket_emit nibble64 demo_urls (epacket EClose []) (afire has_close OnClose ?s) =
      (Ok (), (afire has_close OnClose ?s)\<lparr>as_net := w\<rparr>)"
    unfolding asocket_emit_def using w close by (simp add: Let_def del: ascii_simps)
  then have "asocket_disconnect nibble64 demo_urls ?s =
      (Ok (), (afire has_close OnClose ?s)\<lparr>as_net := w, as_connected := False\<rparr>)"
    by (simp add: asocket_disconnect_def seq_def)
  moreover have "abacklog nibble64 ((afire has_close OnClose ?s)\<lparr>as_net := w, as_connected := False\<rparr>) =
      abacklog nibble64 ?s"
    using wi by (simp add: abacklog_def anet_items_def)
  ultimately show thesis using that by simp
qed

theorem adisconnect_stream_goes_on_witness:
  "\<exists>s'. asocket_disconnect nibble64 demo_urls (demo_asocket [WsMsg (WsText (lit ''2''))]) = (Ok (), s') \<and>
     fst (aclient_next nibble64 demo_urls s') = Err EIllegalActionBeforeOpen"
proof -
  obtain s' where run: "asocket_disconnect nibble64 demo_urls (demo_asocket [WsMsg (WsText (lit ''2''))]) = (Ok (), s')"
    and nd: "\<not> ac_done s'"
    and bl: "abacklog nibble64 s' = abacklog nibble64 (demo_asocket [WsMsg (WsText (lit ''2''))])"
    by (rule demo_adisconnect)
  from adisconnect_stream_goes_on [OF run nd] bl demo_abacklog_items(1) run show ?thesis
    by (auto simp del: lit_simps)
qed

text \<open>A \<open>disconnect\<close> whose \<open>Close\<close> packet the network refuses. The asynchronous socket reports the
  error and stays connected, although \<open>on_close\<close> was called; the blocking one is closed whatever the
  network does, and never reports an error.\<close>

theorem disconnect_failure:
  "(asocket_disconnect B U a = (Err e, a') \<longrightarrow> as_connected a' = as_connected a) \<and>
   (has_close (as_callbacks a) \<longrightarrow> OnClose \<in> set (as_fired (snd (asocket_disconnect B U a)))) \<and>
   fst (esocket_disconnect B U s) \<noteq> Err e \<and>
   (fst (esocket_disconnect B U s) = Ok u \<longrightarrow> \<not> es_connected (snd (esocket_disconnect B U s)))"
proof (intro conjI impI)
  assume "asocket_disconnect B U a = (Err e, a')"
  then have "asocket_emit B U (epacket EClose []) (afire has_close OnClose a) = (Err e, a')"
    by (auto simp: asocket_disconnect_def seq_def split: prod.splits outcome.splits)
  with asocket_emit_fields(1) [of B U "epacket EClose []" "afire has_close OnClose a"]
  show "as_connected a' = as_connected a" by simp
next
  assume "has_close (as_callbacks a)"
  then have mem: "OnClose \<in> set (as_fired (afire has_close OnClose a))" by (simp add: afire_def)
  have mono: "set (as_fired s) \<subseteq> set (as_fired (snd (asocket_emit B U p s)))" for p s
    by (auto simp: asocket_emit_def on_anet_def afire_def Let_def split: prod.splits outcome.splits)
  have "as_fired (snd (asocket_disconnect B U a)) =
      as_fired (snd (asocket_emit B U (epacket EClose []) (afire has_close OnClose a)))"
    by (auto simp: asocket_disconnect_def seq_def split: prod.splits outcome.splits)
  with mem mono show "OnClose \<in> set (as_fired (snd (asocket_disconnect B U a)))" by auto
next
  show "fst (esocket_disconnect B U s) \<noteq> Err e"
    by (auto simp: esocket_disconnect_def seq_def ignore_def split: prod.splits outcome.splits)
next
  assume "fst (esocket_disconnect B U s) = Ok u"
  then show "\<not> es_connected (snd (esocket_disconnect B U s))"
    using esock.close_closes [of B U s u "snd (esocket_disconnect B U s)"] by (metis prod.collapse)
qed

theorem disconnect_failure_witness:
  "\<exists>a a'. asocket_disconnect nibble64 demo_urls a = (Err (EWebsocketError (lit ''x'')), a') \<and> as_connected a'"
proof -
  let ?a = "(demo_asocket [])\<lparr>as_net := (demo_net [])\<lparr>ws_send_in := [Inl (lit ''x'')]\<rparr>\<rparr>"
  have "fst (asocket_disconnect nibble64 demo_urls ?a) = Err (EWebsocketError (lit ''x''))"
    by (simp add: asocket_disconnect_def asocket_emit_def seq_def on_anet_def transport_emit_def ws_emit_def
        ws_send_text_def from_utf8_def ws_send_def log_request_def Let_def demo_net_def epacket_to_bytes_def
        epacket_def)
  then obtain a' where run: "asocket_disconnect nibble64 demo_urls ?a = (Err (EWebsocketError (lit ''x'')), a')"
    by (metis prod.collapse)
  have "as_connected ?a" by simp
  with disconnect_failure [of nibble64 demo_urls ?a "EWebsocketError (lit ''x'')" a'] run show ?thesis by blast
qed

section \<open>The two clients side by side\<close>

text \<open>A frame on which the two clients agree: no error, no end, no empty text.\<close>

fun agreeable :: "ws_event \<Rightarrow> bool" where
  "agreeable (WsMsg (WsText s)) \<longleftrightarrow> s \<noteq> []"
| "agreeable (WsMsg m) \<longleftrightarrow> True"
| "agreeable e \<longleftrightarrow> False"

lemma apayload_body_items: "d \<noteq> [] \<Longrightarrow> apayload_items B d = map Some (body_items B d)"
  by (simp add: apayload_items_def body_items_def split: sum.splits)

lemma utf8_ne: "s \<noteq> [] \<Longrightarrow> utf8 s \<noteq> []"
  by (cases s) (simp_all add: utf8_def utf8_char_def)

lemma aws_items_agree: "agreeable ev \<Longrightarrow> aws_items B ev = map Some (ws_items B ev)"
  by (cases ev rule: agreeable.cases) (simp_all add: apayload_body_items utf8_ne)

text \<open>On a websocket the asynchronous stream and the blocking poll see the same packets, as long as
  the server sends no empty text frame and the connection does not break.\<close>

theorem blocking_async_agree:
  assumes "list_all agreeable (ws_in w)"
  shows "abacklog B (asocket_new (Websocket u) w hs cbs) =
    map Some (backlog B (esocket_new (Websocket u) w hs cbs))"
proof -
  have "concat (map (aws_items B) es) = map Some (concat (map (ws_items B) es))"
    if "list_all agreeable es" for es
    using that by (induction es) (simp_all add: aws_items_agree del: aws_items.simps ws_items.simps)
  with assms show ?thesis
    by (simp add: abacklog_def anet_items_def asocket_new_def backlog_def net_items_def esocket_new_def)
qed

theorem blocking_async_agree_witness:
  "abacklog nibble64 (asocket_new (Websocket 0) (demo_net [WsMsg (WsText (lit ''2''))]) hs cbs) =
     [Some (Inr (epacket EPing []))]"
proof -
  have "list_all agreeable (ws_in (demo_net [WsMsg (WsText (lit ''2''))]))"
    by (simp add: demo_net_def)
  from blocking_async_agree [OF this, of nibble64 0 hs cbs] demo_backlog_items(1) [of nibble64]
  show ?thesis
    by (simp add: backlog_def esocket_new_def demo_socket_def net_items_def demo_net_def
        del: lit_simps ws_items.simps)
qed

text \<open>Where the two differ. An empty text frame is skipped by the blocking client and ends the
  asynchronous stream with \<open>IncompletePacket\<close>; a message whose HTTP body arrives in two chunks is one
  packet for the blocking client, while the asynchronous one decodes each chunk on its own.\<close>

theorem blocking_async_differ:
  "ws_items B (WsMsg (WsText [])) = [] \<and>
   aws_items B (WsMsg (WsText [])) = [Some (Inl EIncompletePacket)] \<and>
   get_items B (Inr (ascii ''4hello'')) = [Inr (epacket EMessage (ascii ''hello''))] \<and>
   response_items B (Inr [Inr (ascii ''4he''), Inr (ascii ''llo'')]) =
     [Some (Inr (epacket EMessage (ascii ''he''))), Some (Inl (EInvalidPacketId (of_char CHR ''l'')))]"
  by (simp add: body_items_def get_items_def response_items_def chunk_items_def apayload_items_def
      payload_try_from_def payload_scan_split slice_def separator_def epacket_try_from_def
      epacket_id_try_from_def epacket_def utf8_def)

end
