(* ===== verification/Engine_Async_Client.thy ===== *)
theory Engine_Async_Client
  imports Engine_Async Engine_Client
begin

text \<open>
  \<open>engineio/src/asynchronous/client/builder.rs\<close>: the builder of the asynchronous client. Its fields
  are those of the blocking builder (\<open>ebuilder\<close>), its setters do the same; the handshake and the build functions
  differ in how headers and the end of a stream are treated, and in that the handshake is read from
  the first item of the transport's stream.
\<close>

section \<open>The builder\<close>

definition abuilder_new :: "'u elib \<Rightarrow> 'u \<Rightarrow> 'u ebuilder" where
  "abuilder_new E url =
     (let U = lib_url E;
          url1 = url_append U url (lit ''EIO'') (i32_to_string engine_io_version);
          url2 = (if url_path U url1 = lit ''/'' then url_set_path U url1 (lit ''/engine.io/'') else url1)
      in \<lparr>eb_url = url2, eb_headers = None, eb_handshake = None,
          eb_callbacks = \<lparr>has_open = False, has_close = False, has_data = False, has_error = False,
                          has_packet = False\<rparr>\<rparr>)"

definition abuilder_headers :: "header_map \<Rightarrow> 'u ebuilder \<Rightarrow> 'u ebuilder" where
  "abuilder_headers headers b = b\<lparr>eb_headers := Some headers\<rparr>"

definition abuilder_on_close :: "'u ebuilder \<Rightarrow> 'u ebuilder" where
  "abuilder_on_close b = b\<lparr>eb_callbacks := (eb_callbacks b)\<lparr>has_close := True\<rparr>\<rparr>"

definition abuilder_on_data :: "'u ebuilder \<Rightarrow> 'u ebuilder" where
  "abuilder_on_data b = b\<lparr>eb_callbacks := (eb_callbacks b)\<lparr>has_data := True\<rparr>\<rparr>"

definition abuilder_on_error :: "'u ebuilder \<Rightarrow> 'u ebuilder" where
  "abuilder_on_error b = b\<lparr>eb_callbacks := (eb_callbacks b)\<lparr>has_error := True\<rparr>\<rparr>"

definition abuilder_on_open :: "'u ebuilder \<Rightarrow> 'u ebuilder" where
  "abuilder_on_open b = b\<lparr>eb_callbacks := (eb_callbacks b)\<lparr>has_open := True\<rparr>\<rparr>"

definition abuilder_on_packet :: "'u ebuilder \<Rightarrow> 'u ebuilder" where
  "abuilder_on_packet b = b\<lparr>eb_callbacks := (eb_callbacks b)\<lparr>has_packet := True\<rparr>\<rparr>"

text \<open>Both builders set up the same request.\<close>

lemma abuilder_same [simp]:
  "abuilder_new = ebuilder_new" "abuilder_headers = ebuilder_headers" "abuilder_on_close = ebuilder_on_close"
  "abuilder_on_data = ebuilder_on_data" "abuilder_on_error = ebuilder_on_error"
  "abuilder_on_open = ebuilder_on_open" "abuilder_on_packet = ebuilder_on_packet"
  by (simp_all add: fun_eq_iff abuilder_new_def ebuilder_new_def abuilder_headers_def ebuilder_headers_def
      abuilder_on_close_def ebuilder_on_close_def abuilder_on_data_def ebuilder_on_data_def abuilder_on_error_def
      ebuilder_on_error_def abuilder_on_open_def ebuilder_on_open_def abuilder_on_packet_def ebuilder_on_packet_def)

section \<open>Handshake\<close>

text \<open>\<open>transport.next()\<close> on a transport that was just created; the rest of the response is dropped
  together with the transport.\<close>

definition atransport_first :: "'u urllib \<Rightarrow> 'u transport \<Rightarrow> ('u net, eerror, bytes option) proc" where
  "atransport_first U t w =
     (case t of
        Polling u \<Rightarrow> (case apolling_next U u ([], w) of (r, (cs, w')) \<Rightarrow> (r, w'))
      | Websocket _ \<Rightarrow> ws_poll_next w
      | WebsocketSecure _ \<Rightarrow> ws_poll_next w)"

definition ahandshake_with_transport ::
  "'u elib \<Rightarrow> 'u transport \<Rightarrow> 'u ebuilder \<Rightarrow> ('u net, eerror, 'u ebuilder) proc" where
  "ahandshake_with_transport E t b =
     (if eb_handshake b \<noteq> None then give (Ok b)
      else seq (atransport_first (lib_url E) t) (\<lambda>item.
        case item of
          None \<Rightarrow> give (Err EIncompletePacket)
        | Some data \<Rightarrow> accept_handshake E b data))"

definition ado_handshake :: "'u elib \<Rightarrow> 'u ebuilder \<Rightarrow> ('u net, eerror, 'u ebuilder) proc" where
  "ado_handshake E b =
     (if eb_handshake b \<noteq> None then give (Ok b)
      else seq (try_headers E b) (\<lambda>_.
        ahandshake_with_transport E (polling_new (lib_url E) (eb_url b)) b))"

definition awebsocket_upgrade :: "'u ebuilder \<Rightarrow> ('u net, eerror, bool) proc" where
  "awebsocket_upgrade b =
     (case eb_handshake b of
        None \<Rightarrow> give (Ok False)
      | Some hs \<Rightarrow> give (Ok (offers_websocket hs)))"

section \<open>Building a client\<close>

definition make_aclient :: "'u transport \<Rightarrow> 'u ebuilder \<Rightarrow> ('u net, eerror, 'u asocket) proc" where
  "make_aclient t b w =
     (case eb_handshake b of
        None \<Rightarrow> (Panic, w)
      | Some hs \<Rightarrow> (Ok (asocket_new t w hs (eb_callbacks b)), w))"

definition abuild_polling :: "'u elib \<Rightarrow> 'u ebuilder \<Rightarrow> ('u net, eerror, 'u asocket) proc" where
  "abuild_polling E b0 =
     seq (ado_handshake E b0) (\<lambda>b.
     seq (unwrap_headers E b) (\<lambda>_.
     make_aclient (polling_new (lib_url E) (eb_url b)) b))"

definition afinish_websocket ::
  "'u elib \<Rightarrow> 'u ebuilder \<Rightarrow> 'u transport \<Rightarrow> ('u net, eerror, 'u asocket) proc" where
  "afinish_websocket E b t =
     seq (if eb_handshake b \<noteq> None then seq (ws_upgrade (lib_b64 E)) (\<lambda>_. give (Ok b))
          else ahandshake_with_transport E t b) (\<lambda>b'.
     make_aclient t b')"

definition abuild_websocket :: "'u elib \<Rightarrow> 'u ebuilder \<Rightarrow> ('u net, eerror, 'u asocket) proc" where
  "abuild_websocket E b =
     seq (try_headers E b) (\<lambda>_.
       let scheme = url_scheme (lib_url E) (eb_url b) in
       if scheme = lit ''http'' \<or> scheme = lit ''ws'' then
         seq (websocket_new (lib_url E) (eb_url b)) (afinish_websocket E b)
       else if scheme = lit ''https'' \<or> scheme = lit ''wss'' then
         seq (websocket_secure_new (lib_url E) (eb_url b)) (afinish_websocket E b)
       else give (Err (EInvalidUrlScheme scheme)))"

definition abuild_websocket_with_upgrade ::
  "'u elib \<Rightarrow> 'u ebuilder \<Rightarrow> ('u net, eerror, 'u asocket) proc" where
  "abuild_websocket_with_upgrade E b0 =
     seq (ado_handshake E b0) (\<lambda>b.
     seq (awebsocket_upgrade b) (\<lambda>upgrade.
     if upgrade then abuild_websocket E b else give (Err EIllegalWebsocketUpgrade)))"

definition abuild :: "'u elib \<Rightarrow> 'u ebuilder \<Rightarrow> ('u net, eerror, 'u asocket) proc" where
  "abuild E b0 =
     seq (ado_handshake E b0) (\<lambda>b.
     seq (awebsocket_upgrade b) (\<lambda>upgrade.
     if upgrade then abuild_websocket_with_upgrade E b else abuild_polling E b))"

definition abuild_with_fallback :: "'u elib \<Rightarrow> 'u ebuilder \<Rightarrow> ('u net, eerror, 'u asocket) proc" where
  "abuild_with_fallback E b w =
     (case abuild E b w of
        (Err _, w') \<Rightarrow> abuild_polling E b w'
      | (r, w') \<Rightarrow> (r, w'))"

section \<open>Properties\<close>

text \<open>Headers the HTTP library refuses. The asynchronous builder, where the blocking one panics,
  returns the conversion error from every build function, with nothing on the network.\<close>

theorem abuild_bad_headers:
  assumes "convert_headers (lib_http E) (eb_headers b) = Inl e" "eb_handshake b = None"
  shows "abuild E b w = (Err e, w) \<and> abuild_polling E b w = (Err e, w) \<and>
    abuild_with_fallback E b w = (Err e, w) \<and> abuild_websocket E b w = (Err e, w)"
proof -
  have d: "ado_handshake E b w = (Err e, w)"
    using assms by (simp add: ado_handshake_def try_headers_def)
  then have "abuild E b w = (Err e, w)" "abuild_polling E b w = (Err e, w)"
    unfolding abuild_def abuild_polling_def by (simp_all add: seq_simps(2))
  moreover have "abuild_websocket E b w = (Err e, w)"
    using assms by (simp add: abuild_websocket_def try_headers_def seq_def)
  ultimately show ?thesis by (simp add: abuild_with_fallback_def)
qed

theorem abuild_bad_headers_witness:
  "abuild demo_elib (ebuilder_headers [([], [1])] demo_builder) (demo_server True [])
     = (Err EInvalidHeaderNameFromReqwest, demo_server True [])"
proof -
  let ?b = "ebuilder_headers [([], [1])] demo_builder"
  have "convert_headers (lib_http demo_elib) (eb_headers ?b) = Inl EInvalidHeaderNameFromReqwest"
    "eb_handshake ?b = None"
    by (simp_all add: ebuilder_headers_def convert_headers_def) (simp add: demo_elib_def)
  from abuild_bad_headers [OF this] show ?thesis by blast
qed

text \<open>The first chunk of the answer is taken for the whole handshake.\<close>

lemma ado_handshake_first_chunk:
  assumes "eb_handshake b = None" "convert_headers (lib_http E) (eb_headers b) = Inr h"
    "stream_in w = Inr (Inr c # cs) # rs"
  shows "fst (ado_handshake E b w) = fst (accept_handshake E b c w) \<and>
    stream_in (snd (ado_handshake E b w)) = rs"
proof -
  let ?u = "url_append (lib_url E) (eb_url b) (lit ''transport'') (lit ''polling'')"
  let ?w1 = "(log_request (HttpGet (address (lib_url E) ?u w)) (w\<lparr>clock := clock w + 1\<rparr>))\<lparr>stream_in := rs\<rparr>"
  have "apolling_next (lib_url E) ?u ([], w) = (Ok (Some c), (cs, ?w1))"
    using assms(3)
    by (simp add: apolling_next.simps [of "lib_url E" ?u "[]"] apolling_next.simps [of "lib_url E" ?u "Inr c # cs"]
        log_request_def Let_def del: lit_simps)
  then have "atransport_first (lib_url E) (polling_new (lib_url E) (eb_url b)) w = (Ok (Some c), ?w1)"
    by (simp add: atransport_first_def polling_new_def del: lit_simps)
  then have "ado_handshake E b w = accept_handshake E b c ?w1"
    using assms(1,2)
    by (simp add: ado_handshake_def try_headers_def ahandshake_with_transport_def del: lit_simps)
  then show ?thesis
    by (simp add: accept_handshake_def log_request_def split: sum.splits)
qed

text \<open>The asynchronous handshake reads one chunk. When the answer's first chunk is a prefix that does
  not decode, the build fails with the decoding error although the whole answer would have been a
  handshake; the chunks after it are dropped.\<close>

theorem ahandshake_needs_one_chunk:
  assumes "eb_handshake b = None" "convert_headers (lib_http E) (eb_headers b) = Inr h"
    and "stream_in w = Inr (Inr c # cs) # rs"
    and "epacket_try_from (lib_b64 E) c = Inr p" "lib_handshake E (e_data p) = Inl e"
  shows "fst (abuild E b w) = Err (EInvalidJson e) \<and> stream_in (snd (abuild E b w)) = rs"
proof -
  have "fst (ado_handshake E b w) = Err (EInvalidJson e)" "stream_in (snd (ado_handshake E b w)) = rs"
    using ado_handshake_first_chunk [OF assms(1-3)] assms(4,5)
    by (simp_all add: accept_handshake_def handshake_try_from_def)
  then obtain w' where "ado_handshake E b w = (Err (EInvalidJson e), w')" "stream_in w' = rs"
    by (metis prod.collapse)
  then show ?thesis by (simp add: abuild_def)
qed

theorem ahandshake_needs_one_chunk_witness:
  "\<exists>E :: plain_url elib. \<exists>w. fst (abuild E demo_builder w) = Err (EInvalidJson (lit ''eof'')) \<and>
     lib_handshake E (ascii ''{u}'') = Inr (demo_handshake True) \<and>
     stream_in w = [Inr [Inr (ascii ''0{''), Inr (ascii ''u}'')]]"
proof -
  let ?E = "demo_elib\<lparr>lib_handshake :=
    (\<lambda>d. if d = ascii ''{u}'' then Inr (demo_handshake True) else Inl (lit ''eof''))\<rparr>"
  let ?w = "(demo_server True [])\<lparr>stream_in := [Inr [Inr (ascii ''0{''), Inr (ascii ''u}'')]]\<rparr>"
  have one: "eb_handshake demo_builder = None"
    "convert_headers (lib_http ?E) (eb_headers demo_builder) = Inr None"
    "stream_in ?w = Inr (Inr (ascii ''0{'') # [Inr (ascii ''u}'')]) # []"
    using demo_facts(1) by simp_all
  have two: "epacket_try_from (lib_b64 ?E) (ascii ''0{'') = Inr (epacket EOpen (ascii ''{''))"
    by (simp add: epacket_try_from_def epacket_id_try_from_def epacket_def)
  have three: "lib_handshake ?E (e_data (epacket EOpen (ascii ''{''))) = Inl (lit ''eof'')"
    by simp
  from ahandshake_needs_one_chunk [OF one two three] show ?thesis
    by (intro exI [where x = ?E] exI [where x = ?w]) (simp del: lit_simps ascii_simps)
qed

end
