(* ===== verification/Sio_Packet.thy ===== *)
theory Sio_Packet
  imports Engine_Packet
begin

text \<open>
  \<open>socketio/src/error.rs\<close>, \<open>event.rs\<close>, \<open>payload.rs\<close> and \<open>packet.rs\<close>: errors, events, payloads, and
  packets with their text codec. JSON is \<open>serde_json\<close>, a parameter \<open>J\<close>; \<open>oc\<close> says whether the build
  has overflow checks (debug) or wraps (release).
\<close>

section \<open>Errors\<close>

datatype serror =
    SInvalidPacketId nat
  | SIncompletePacket
  | SInvalidPacket
  | SInvalidUtf8
  | SInvalidBase64 rstring
  | SInvalidUrl rstring
  | SInvalidUrlScheme rstring
  | SInvalidHandshake rstring
  | SIllegalActionBeforeOpen
  | SInvalidJson rstring
  | SInvalidPoisonedLock
  | SIncompleteIo rstring
  | SInvalidInteger
  | SIncompleteResponseFromEngineIo eerror
  | SInvalidAttachmentPacketType u8
  | SStoppedEngineIoSocket

section \<open>Events and payloads\<close>

datatype sevent = EvMessage | EvError | EvCustom rstring | EvConnect | EvClose

definition event_of_string :: "rstring \<Rightarrow> sevent" where
  "event_of_string s =
     (let l = to_lowercase s in
      if l = lit ''message'' then EvMessage
      else if l = lit ''error'' then EvError
      else if l = lit ''open'' then EvConnect
      else if l = lit ''close'' then EvClose
      else EvCustom s)"

fun event_to_string :: "sevent \<Rightarrow> rstring" where
  "event_to_string EvMessage = lit ''message''"
| "event_to_string EvConnect = lit ''open''"
| "event_to_string EvClose = lit ''close''"
| "event_to_string EvError = lit ''error''"
| "event_to_string (EvCustom s) = s"

datatype spayload = PBinary bytes | PString rstring

fun payload_bytes :: "spayload \<Rightarrow> bytes" where
  "payload_bytes (PBinary b) = b"
| "payload_bytes (PString s) = utf8 s"

text \<open>The conversions: of \<open>&str\<close> and \<open>String\<close>; of a JSON value, whose text is taken; of \<open>Vec<u8>\<close>,
  \<open>&[u8]\<close> and \<open>Bytes\<close>.\<close>

definition payload_of_string :: "rstring \<Rightarrow> spayload" where
  "payload_of_string s = PString s"

definition payload_of_value :: "('j, 'z) jsonlib_scheme \<Rightarrow> 'j \<Rightarrow> spayload" where
  "payload_of_value J value = PString (json_print J value)"

definition payload_of_bytes :: "bytes \<Rightarrow> spayload" where
  "payload_of_bytes val = PBinary val"

section \<open>Packets\<close>

datatype spacket_id =
  SConnect | SDisconnect | SEvent | SAck | SConnectError | SBinaryEvent | SBinaryAck

text \<open>The discriminants, \<open>packet_type as u8\<close>.\<close>

fun spacket_id_u8 :: "spacket_id \<Rightarrow> u8" where
  "spacket_id_u8 SConnect = 0"
| "spacket_id_u8 SDisconnect = 1"
| "spacket_id_u8 SEvent = 2"
| "spacket_id_u8 SAck = 3"
| "spacket_id_u8 SConnectError = 4"
| "spacket_id_u8 SBinaryEvent = 5"
| "spacket_id_u8 SBinaryAck = 6"

definition spacket_id_try_from_char :: "nat \<Rightarrow> serror + spacket_id" where
  "spacket_id_try_from_char c =
     (if c = of_char CHR ''0'' then Inr SConnect
      else if c = of_char CHR ''1'' then Inr SDisconnect
      else if c = of_char CHR ''2'' then Inr SEvent
      else if c = of_char CHR ''3'' then Inr SAck
      else if c = of_char CHR ''4'' then Inr SConnectError
      else if c = of_char CHR ''5'' then Inr SBinaryEvent
      else if c = of_char CHR ''6'' then Inr SBinaryAck
      else Inl (SInvalidPacketId c))"

definition spacket_id_try_from_u8 :: "u8 \<Rightarrow> serror + spacket_id" where
  "spacket_id_try_from_u8 b = spacket_id_try_from_char (unat b)"

definition is_binary_type :: "spacket_id \<Rightarrow> bool" where
  "is_binary_type t \<longleftrightarrow> t = SBinaryAck \<or> t = SBinaryEvent"

record spacket =
  s_type :: spacket_id
  s_nsp :: rstring
  s_data :: "rstring option"
  s_id :: "i32 option"
  s_count :: u8
  s_attachments :: "bytes list option"

definition spacket_default :: spacket where
  "spacket_default =
     \<lparr>s_type = SEvent, s_nsp = lit ''/'', s_data = None, s_id = None, s_count = 0, s_attachments = None\<rparr>"

definition spacket ::
  "spacket_id \<Rightarrow> rstring \<Rightarrow> rstring option \<Rightarrow> i32 option \<Rightarrow> u8 \<Rightarrow> bytes list option \<Rightarrow> spacket" where
  "spacket t nsp d i n as =
     \<lparr>s_type = t, s_nsp = nsp, s_data = d, s_id = i, s_count = n, s_attachments = as\<rparr>"

section \<open>Encoding\<close>

definition placeholder :: "rstring \<Rightarrow> rstring" where
  \<open>placeholder num = lit ''{"_placeholder":true,"num":'' @ num @ lit ''}''\<close>

text \<open>Everything in front of the data.\<close>

definition encode_head :: "spacket \<Rightarrow> rstring" where
  "encode_head p =
     u8_to_string (spacket_id_u8 (s_type p)) @
     (if is_binary_type (s_type p) then u8_to_string (s_count p) @ lit ''-'' else []) @
     (if s_nsp p \<noteq> lit ''/'' then s_nsp p @ lit '','' else []) @
     (case s_id p of Some i \<Rightarrow> i32_to_string i | None \<Rightarrow> [])"

text \<open>\<open>attachment_count - 1\<close> on \<open>u8\<close>: at zero a panic with overflow checks, 255 without.\<close>

definition encode_text :: "bool \<Rightarrow> spacket \<Rightarrow> rstring option" where
  "encode_text oc p =
     (if s_attachments p \<noteq> None then
        if oc \<and> s_count p = 0 then None
        else Some (encode_head p @ lit ''['' @
          (case s_data p of Some event_type \<Rightarrow> event_type @ lit '','' | None \<Rightarrow> []) @
          placeholder (u8_to_string (s_count p - 1)) @ lit '']'')
      else Some (encode_head p @ (case s_data p of Some d \<Rightarrow> d | None \<Rightarrow> [])))"

definition spacket_to_bytes :: "bool \<Rightarrow> spacket \<Rightarrow> ('e, bytes) outcome" where
  "spacket_to_bytes oc p = (case encode_text oc p of None \<Rightarrow> Panic | Some s \<Rightarrow> Ok (utf8 s))"

section \<open>Decoding\<close>

text \<open>The loops that consume characters up to a delimiter; \<open>None\<close> when the text ends first.\<close>

fun read_until :: "nat \<Rightarrow> rstring \<Rightarrow> (rstring \<times> rstring) option" where
  "read_until c [] = None"
| "read_until c (x # xs) =
     (if x = c then Some ([], xs)
      else case read_until c xs of None \<Rightarrow> None | Some (buf, r) \<Rightarrow> Some (x # buf, r))"

definition decode_count :: "spacket \<Rightarrow> rstring \<Rightarrow> serror + spacket \<times> rstring" where
  "decode_count packet cs =
     (case (if is_binary_type (s_type packet) then read_until (of_char CHR ''-'') cs else Some ([], cs)) of
        None \<Rightarrow> Inl SIncompletePacket
      | Some (char_buf, r) \<Rightarrow>
          Inr (case parse_u8 char_buf of Some n \<Rightarrow> packet\<lparr>s_count := n\<rparr> | None \<Rightarrow> packet, r))"

definition decode_nsp :: "spacket \<Rightarrow> rstring \<Rightarrow> serror + spacket \<times> rstring" where
  "decode_nsp packet cs =
     (if starts_with cs (of_char CHR ''/'') then
        (case read_until (of_char CHR '','') (tl cs) of
           None \<Rightarrow> Inl SIncompletePacket
         | Some (buf, r) \<Rightarrow> Inr (packet\<lparr>s_nsp := hd cs # buf\<rparr>, r))
      else Inr (packet, cs))"

text \<open>\<open>regex ",]$|]$"\<close>, replaced by nothing.\<close>

definition strip_close :: "rstring \<Rightarrow> rstring" where
  "strip_close s =
     (if length s \<ge> 2 \<and> drop (length s - 2) s = lit '',]'' then take (length s - 2) s
      else if s \<noteq> [] \<and> last s = of_char CHR '']'' then butlast s
      else s)"

definition decode_data :: "('j, 'z) jsonlib_scheme \<Rightarrow> spacket \<Rightarrow> rstring \<Rightarrow> serror + spacket" where
  "decode_data J packet json_str =
     (case json_parse J json_str of
        Inl e \<Rightarrow> Inl (SInvalidJson e)
      | Inr json_data \<Rightarrow>
          if is_binary_type (s_type packet) then
            let str = remove_all (placeholder (lit ''0'')) (json_print J json_data);
                str1 = (if starts_with str (of_char CHR ''['') then tl str else str);
                str2 = strip_close str1
            in Inr (packet\<lparr>s_data := (if str2 = [] then None else Some str2)\<rparr>)
          else Inr (packet\<lparr>s_data := Some (json_print J json_data)\<rparr>))"

text \<open>The id: if the text ends with the digits, the packet is returned without it.\<close>

definition decode_id :: "('j, 'z) jsonlib_scheme \<Rightarrow> spacket \<Rightarrow> rstring \<Rightarrow> serror + spacket" where
  "decode_id J packet cs =
     (let char_buf = takeWhile is_ascii_digit cs;
          rest = dropWhile is_ascii_digit cs
      in if rest = [] then Inr packet
         else decode_data J
           (case parse_i32 char_buf of Some i \<Rightarrow> packet\<lparr>s_id := Some i\<rparr> | None \<Rightarrow> packet) rest)"

definition decode_text :: "('j, 'z) jsonlib_scheme \<Rightarrow> rstring \<Rightarrow> serror + spacket" where
  "decode_text J cs =
     (case cs of
        [] \<Rightarrow> Inl SIncompletePacket
      | c # r \<Rightarrow>
          (case spacket_id_try_from_char c of
             Inl e \<Rightarrow> Inl e
           | Inr t \<Rightarrow>
               (case decode_count (spacket_default\<lparr>s_type := t\<rparr>) r of
                  Inl e \<Rightarrow> Inl e
                | Inr (p1, r1) \<Rightarrow>
                    if r1 = [] then Inr p1
                    else (case decode_nsp p1 r1 of
                            Inl e \<Rightarrow> Inl e
                          | Inr (p2, r2) \<Rightarrow> if r2 = [] then Inr p2 else decode_id J p2 r2))))"

definition spacket_try_from :: "('j, 'z) jsonlib_scheme \<Rightarrow> bytes \<Rightarrow> serror + spacket" where
  "spacket_try_from J payload =
     (case from_utf8 payload of
        None \<Rightarrow> Inl SInvalidUtf8
      | Some cs \<Rightarrow> decode_text J cs)"

section \<open>Decoding what was encoded\<close>

lemma read_until_append: "c \<notin> set buf \<Longrightarrow> read_until c (buf @ c # r) = Some (buf, r)"
  by (induction buf) auto

lemma decimal_small: "n < 10 \<Longrightarrow> decimal n = [48 + n]"
  by (subst decimal.simps) simp

lemma type_char:
  obtains c where "u8_to_string (spacket_id_u8 t) = [c]" "spacket_id_try_from_char c = Inr t"
  by (cases t) (simp_all add: u8_to_string_def decimal_small spacket_id_try_from_char_def)

text \<open>A namespace as the client sets it: it starts with a slash and has no comma.\<close>

definition nsp_ok :: "rstring \<Rightarrow> bool" where
  "nsp_ok nsp \<longleftrightarrow> starts_with nsp (of_char CHR ''/'') \<and> of_char CHR '','' \<notin> set nsp"

text \<open>Data that cannot be mistaken for a namespace or an id: an object, array, string or literal.\<close>

definition data_start :: "rstring \<Rightarrow> bool" where
  "data_start d \<longleftrightarrow> d \<noteq> [] \<and> \<not> is_ascii_digit (hd d) \<and> hd d \<noteq> of_char CHR ''/''"

definition id_ok :: "i32 option \<Rightarrow> bool" where
  "id_ok i \<longleftrightarrow> (case i of Some w \<Rightarrow> 0 \<le> sint w | None \<Rightarrow> True)"

definition id_text :: "i32 option \<Rightarrow> rstring" where
  "id_text i = (case i of Some w \<Rightarrow> i32_to_string w | None \<Rightarrow> [])"

text \<open>What the decoder knows of a packet before it has read the data.\<close>

definition head_of :: "spacket \<Rightarrow> spacket" where
  "head_of p = p\<lparr>s_data := None, s_attachments := None,
     s_count := (if is_binary_type (s_type p) then s_count p else 0)\<rparr>"

lemma id_text_digits: "id_ok i \<Longrightarrow> list_all is_ascii_digit (id_text i)"
  using decimal_digits by (auto simp: id_ok_def id_text_def i32_to_string_def list_all_iff split: option.splits)

lemma id_text_ne: "id_text (Some w) \<noteq> []"
  by (simp add: id_text_def i32_to_string_def)

lemma decode_id_text:
  assumes "id_ok i" "data_start d" "s_id p = None"
  shows "decode_id J p (id_text i @ d) = decode_data J (p\<lparr>s_id := i\<rparr>) d"
proof -
  have dig: "list_all is_ascii_digit (id_text i)" by (rule id_text_digits [OF assms(1)])
  obtain c r where d: "d = c # r" and c: "\<not> is_ascii_digit c"
    using assms(2) by (cases d) (auto simp: data_start_def)
  have "takeWhile is_ascii_digit (id_text i @ d) = id_text i" "dropWhile is_ascii_digit (id_text i @ d) = d"
    using dig c by (auto simp: d list_all_iff intro!: takeWhile_append_stop dropWhile_append_stop)
  moreover have "(case parse_i32 (id_text i) of Some w \<Rightarrow> p\<lparr>s_id := Some w\<rparr> | None \<Rightarrow> p) = p\<lparr>s_id := i\<rparr>"
    using assms(1,3) by (cases i) (simp_all add: id_text_def id_ok_def parse_i32_to_string, simp add: parse_i32_def)
  ultimately show ?thesis using d by (simp add: decode_id_def)
qed

lemma decode_id_only:
  assumes "id_ok i"
  shows "decode_id J p (id_text i) = Inr p"
  using id_text_digits [OF assms]
  by (simp add: decode_id_def list_all_iff dropWhile_eq_Nil_conv)

lemma decode_nsp_text:
  assumes "nsp_ok nsp" "\<not> starts_with r (of_char CHR ''/'')" "s_nsp p = lit ''/''"
  shows "decode_nsp p ((if nsp \<noteq> lit ''/'' then nsp @ lit '','' else []) @ r) = Inr (p\<lparr>s_nsp := nsp\<rparr>, r)"
proof (cases "nsp = lit ''/''")
  case True
  with assms(2,3) show ?thesis by (simp add: decode_nsp_def)
next
  case False
  obtain n where n: "nsp = of_char CHR ''/'' # n" and c: "of_char CHR '','' \<notin> set n"
    using assms(1) by (auto simp: nsp_ok_def starts_with_def split: list.splits)
  have "read_until (of_char CHR '','') (n @ of_char CHR '','' # r) = Some (n, r)"
    by (rule read_until_append [OF c])
  with False n show ?thesis by (simp add: decode_nsp_def starts_with_def)
qed

lemma decode_count_text:
  assumes "s_count p = 0"
  shows "decode_count p ((if is_binary_type (s_type p) then u8_to_string n @ lit ''-'' else []) @ r) =
    Inr (p\<lparr>s_count := (if is_binary_type (s_type p) then n else 0)\<rparr>, r)"
proof (cases "is_binary_type (s_type p)")
  case True
  have "of_char CHR ''-'' \<notin> set (u8_to_string n)"
    using decimal_digits by (fastforce simp: u8_to_string_def is_ascii_digit_def)
  then have "read_until (of_char CHR ''-'') (u8_to_string n @ of_char CHR ''-'' # r) = Some (u8_to_string n, r)"
    by (rule read_until_append)
  with True show ?thesis by (simp add: decode_count_def)
next
  case False
  with assms show ?thesis by (simp add: decode_count_def parse_u8_def digits_value_def)
qed

lemma encode_head_parts:
  "encode_head p = u8_to_string (spacket_id_u8 (s_type p)) @
     (if is_binary_type (s_type p) then u8_to_string (s_count p) @ lit ''-'' else []) @
     (if s_nsp p \<noteq> lit ''/'' then s_nsp p @ lit '','' else []) @ id_text (s_id p)"
  by (simp add: encode_head_def id_text_def)

lemma id_text_no_slash:
  assumes "id_ok i" "d = [] \<or> hd d \<noteq> of_char CHR ''/''"
  shows "\<not> starts_with (id_text i @ d) (of_char CHR ''/'')"
  using id_text_digits [OF assms(1)] assms(2)
  by (cases "id_text i"; cases d) (auto simp: starts_with_def is_ascii_digit_def)

text \<open>The header is read back, and the rest goes to the id and the data.\<close>

lemma decode_text_encode:
  assumes "nsp_ok (s_nsp p)" "id_ok (s_id p)" "d = [] \<or> data_start d"
  shows "decode_text J (encode_head p @ d) =
    (if d = [] then Inr ((head_of p)\<lparr>s_id := None\<rparr>) else decode_data J (head_of p) d)"
proof -
  obtain c where c: "u8_to_string (spacket_id_u8 (s_type p)) = [c]"
    and t: "spacket_id_try_from_char c = Inr (s_type p)"
    by (rule type_char)
  let ?p0 = "spacket_default\<lparr>s_type := s_type p\<rparr>"
  define n where "n = (if is_binary_type (s_type p) then s_count p else 0)"
  let ?p1 = "?p0\<lparr>s_count := n\<rparr>"
  let ?r2 = "id_text (s_id p) @ d"
  let ?r1 = "(if s_nsp p \<noteq> lit ''/'' then s_nsp p @ lit '','' else []) @ ?r2"
  have "decode_count ?p0 ((if is_binary_type (s_type p) then u8_to_string (s_count p) @ lit ''-'' else []) @ ?r1)
      = Inr (?p1, ?r1)"
    using decode_count_text [of ?p0 "s_count p" ?r1]
    by (simp only: spacket_default_def spacket.simps n_def)
  then have count: "decode_text J (encode_head p @ d) =
      (if ?r1 = [] then Inr ?p1
       else case decode_nsp ?p1 ?r1 of
         Inl e \<Rightarrow> Inl e
       | Inr (p2, r2) \<Rightarrow> if r2 = [] then Inr p2 else decode_id J p2 r2)"
    unfolding encode_head_parts c by (simp add: decode_text_def t del: lit_simps)
  have "d = [] \<or> hd d \<noteq> of_char CHR ''/''" using assms(3) by (auto simp: data_start_def)
  with assms(2) have slash: "\<not> starts_with ?r2 (of_char CHR ''/'')" by (rule id_text_no_slash)
  have nsp: "decode_nsp ?p1 ?r1 = Inr (?p1\<lparr>s_nsp := s_nsp p\<rparr>, ?r2)"
    using decode_nsp_text [OF assms(1) slash, of ?p1] by (simp add: spacket_default_def)
  have head: "decode_text J (encode_head p @ d) =
      (if ?r1 = [] then Inr ?p1
       else if ?r2 = [] then Inr (?p1\<lparr>s_nsp := s_nsp p\<rparr>) else decode_id J (?p1\<lparr>s_nsp := s_nsp p\<rparr>) ?r2)"
    unfolding count nsp by (simp only: sum.case prod.case)
  have same: "?p1\<lparr>s_nsp := s_nsp p, s_id := s_id p\<rparr> = head_of p"
    "?p1\<lparr>s_nsp := s_nsp p\<rparr> = (head_of p)\<lparr>s_id := None\<rparr>"
    by (simp_all add: head_of_def spacket_default_def n_def)
  have default: "?p1 = ?p1\<lparr>s_nsp := s_nsp p\<rparr>" if "?r1 = []"
    using that by (simp add: spacket_default_def split: if_splits)
  show ?thesis
  proof (cases "d = []")
    case True
    have "decode_text J (encode_head p @ d) = Inr (?p1\<lparr>s_nsp := s_nsp p\<rparr>)"
      unfolding head using default decode_id_only [OF assms(2), of J "?p1\<lparr>s_nsp := s_nsp p\<rparr>"] True
      by (simp del: lit_simps)
    with True same(2) show ?thesis by (simp only: if_True simp_thms)
  next
    case False
    with assms(3) have ds: "data_start d" by blast
    have "s_id (?p1\<lparr>s_nsp := s_nsp p\<rparr>) = None" by (simp add: spacket_default_def)
    from decode_id_text [OF assms(2) ds this] False same(1) show ?thesis
      unfolding head by simp
  qed
qed

section \<open>Properties\<close>

lemma utf8_scalars: "from_utf8 (utf8 s) = Some s" if "list_all scalar s"
  using that by (simp add: from_utf8_utf8 list_all_iff)

lemma decimal_scalars: "list_all scalar (decimal n)"
  using decimal_digits by (fastforce simp: list_all_iff scalar_def is_ascii_digit_def)

lemma encode_head_scalars: "list_all scalar (s_nsp p) \<Longrightarrow> list_all scalar (encode_head p)"
  using decimal_scalars
  by (auto simp: encode_head_def u8_to_string_def i32_to_string_def scalar_def split: option.splits)

text \<open>The text of a packet without attachments, and what it decodes to.\<close>

lemma decode_plain:
  assumes "\<not> is_binary_type (s_type p)" "s_attachments p = None" "s_count p = 0"
    and "nsp_ok (s_nsp p)" "id_ok (s_id p)" "list_all scalar (s_nsp p)"
    and "s_data p = None \<Longrightarrow> s_id p = None"
    and "\<And>d. s_data p = Some d \<Longrightarrow> data_start d \<and> json_canonical J d \<and> list_all scalar d"
  defines "t \<equiv> encode_head p @ (case s_data p of Some d \<Rightarrow> d | None \<Rightarrow> [])"
  shows "encode_text oc p = Some t" "list_all scalar t" "decode_text J t = Inr p"
proof -
  show "encode_text oc p = Some t"
    using assms(2) by (simp add: encode_text_def t_def)
  show "list_all scalar t"
    using encode_head_scalars [OF assms(6)] assms(8) by (simp add: t_def split: option.splits)
  show "decode_text J t = Inr p"
  proof (cases "s_data p")
    case None
    have "decode_text J (encode_head p @ []) = Inr ((head_of p)\<lparr>s_id := None\<rparr>)"
      using decode_text_encode [OF assms(4,5), of "[]" J] by simp
    moreover have "(head_of p)\<lparr>s_id := None\<rparr> = p"
      using assms(1-3) assms(7) None by (simp add: head_of_def)
    ultimately show ?thesis using None by (simp add: t_def)
  next
    case (Some d)
    note d = assms(8) [OF Some]
    obtain j where j: "json_parse J d = Inr j" "json_print J j = d"
      using d by (auto simp: json_canonical_def)
    have "d \<noteq> []" using d by (auto simp: data_start_def)
    with decode_text_encode [OF assms(4,5), of d J] d
    have "decode_text J (encode_head p @ d) = decode_data J (head_of p) d" by simp
    also have "\<dots> = Inr ((head_of p)\<lparr>s_data := Some d\<rparr>)"
      using assms(1) j by (simp add: decode_data_def head_of_def)
    also have "(head_of p)\<lparr>s_data := Some d\<rparr> = p"
      using assms(1-3) Some by (simp add: head_of_def)
    finally show ?thesis using Some by (simp add: t_def)
  qed
qed

lemma text_roundtrip:
  assumes "encode_text oc p = Some t" "list_all scalar t" "decode_text J t = r"
  shows "\<exists>bs. spacket_to_bytes oc p = Ok bs \<and> spacket_try_from J bs = r"
  using assms by (simp add: spacket_to_bytes_def spacket_try_from_def utf8_scalars)


text \<open>Flat JSON as its own text, for the witnesses.\<close>

definition flat_json :: "rstring jsonlib" where
  "flat_json =
     \<lparr>json_parse = (\<lambda>s. if s = [] then Inl (lit ''EOF'') else Inr s), json_print = (\<lambda>s. s),
      json_string = (\<lambda>s. of_char CHR 0x22 # s @ [of_char CHR 0x22]),
      json_as_array = (\<lambda>s. if starts_with s (of_char CHR ''['')
         then Some (if length s = 2 then [] else split_at (of_char CHR '','') (butlast (tl s))) else None),
      json_as_string = (\<lambda>s. if starts_with s (of_char CHR 0x22) then Some (butlast (tl s)) else None)\<rparr>"

lemma flat_canonical: "s \<noteq> [] \<Longrightarrow> json_canonical flat_json s"
  by (simp add: json_canonical_def flat_json_def)


lemma strip_close_comma: "strip_close (s @ lit '',]'') = s"
  by (simp add: strip_close_def)

lemma strip_close_plain:
  assumes "s \<noteq> []" "last s \<noteq> of_char CHR '',''"
  shows "strip_close (s @ lit '']'') = s"
proof -
  obtain s' c where "s = s' @ [c]" using assms(1) by (metis rev_exhaust)
  with assms(2) show ?thesis by (simp add: strip_close_def butlast_append)
qed

lemma remove_placeholder:
  assumes "of_char CHR ''{'' \<notin> set s"
  shows "remove_all (placeholder n) (s @ placeholder n @ r) = s @ remove_all (placeholder n) r"
proof -
  have ph: "hd (placeholder n) = of_char CHR ''{''" "placeholder n \<noteq> []"
    by (simp_all add: placeholder_def)
  with assms have "remove_all (placeholder n) (s @ placeholder n @ r) =
      s @ remove_all (placeholder n) (placeholder n @ r)"
    by (simp add: remove_all_fresh)
  with remove_all_append [OF ph(2), of r] show ?thesis by simp
qed

lemma remove_other_placeholder:
  "remove_all (placeholder (lit ''0'')) (placeholder (lit ''1'') @ r) =
     placeholder (lit ''1'') @ remove_all (placeholder (lit ''0'')) r"
  by (simp add: placeholder_def)

lemma remove_close: "remove_all (placeholder n) (lit '']'') = lit '']''"
  by (simp add: placeholder_def)

lemma u8_digit: "u8_to_string 0 = lit ''0''" "u8_to_string 1 = lit ''1''"
  by (simp_all add: u8_to_string_def decimal_small)

lemma decode_binary:
  assumes "is_binary_type (s_type p)" "s_attachments p = Some as" "s_count p = 1" "s_data p = Some ev"
    and "ev \<noteq> []" "of_char CHR ''{'' \<notin> set ev" "list_all scalar ev"
    and "nsp_ok (s_nsp p)" "id_ok (s_id p)" "list_all scalar (s_nsp p)"
    and "json_canonical J (lit ''['' @ ev @ lit '','' @ placeholder (lit ''0'') @ lit '']'')"
  defines "t \<equiv> encode_head p @ lit ''['' @ ev @ lit '','' @ placeholder (lit ''0'') @ lit '']''"
  shows "encode_text oc p = Some t" "list_all scalar t" "decode_text J t = Inr (p\<lparr>s_attachments := None\<rparr>)"
proof -
  let ?d = "lit ''['' @ ev @ lit '','' @ placeholder (lit ''0'') @ lit '']''"
  obtain j where j: "json_parse J ?d = Inr j" "json_print J j = ?d"
    using assms(11) by (auto simp: json_canonical_def)
  have "remove_all (placeholder (lit ''0'')) ((lit ''['' @ ev @ lit '','') @ placeholder (lit ''0'') @ lit '']'')
      = (lit ''['' @ ev @ lit '','') @ lit '']''"
    by (subst remove_placeholder) (use assms(6) in \<open>simp_all only: remove_close\<close>, simp)
  then have rem: "remove_all (placeholder (lit ''0'')) ?d = of_char CHR ''['' # ev @ lit '',]''"
    by simp
  show "encode_text oc p = Some t"
    using assms(2-4) by (simp add: encode_text_def u8_digit t_def del: lit_simps)
  show "list_all scalar t"
    using encode_head_scalars [OF assms(10)] assms(7) by (simp add: t_def placeholder_def scalar_def)
  have "data_start ?d" by (simp add: data_start_def is_ascii_digit_def)
  then have "decode_text J t = decode_data J (head_of p) ?d"
    using decode_text_encode [OF assms(8,9), of ?d J] by (simp add: t_def)
  also have "\<dots> = Inr ((head_of p)\<lparr>s_data := Some ev\<rparr>)"
    using assms(1,5) j rem strip_close_comma [of ev]
    by (simp add: decode_data_def head_of_def starts_with_def Let_def del: lit_simps)
  also have "(head_of p)\<lparr>s_data := Some ev\<rparr> = p\<lparr>s_attachments := None\<rparr>"
    using assms(1,4) by (simp add: head_of_def)
  finally show "decode_text J t = Inr (p\<lparr>s_attachments := None\<rparr>)" .
qed

text \<open>C25: binary packets with one attachment survive the wire up to the attachment itself, which travels
  in a message of its own: the placeholder is written, and removed again by the decoder, so that the data,
  the name of the event in JSON, is read back. The data must not be empty or hold an opening brace, the
  namespace starts with a slash and holds no comma, the id is not negative, all characters are Unicode
  scalars, and the JSON library prints the array of data and placeholder as it was written.\<close>

theorem spacket_binary_roundtrip:
  assumes "is_binary_type (s_type p)" "s_attachments p = Some as" "s_count p = 1" "s_data p = Some ev"
    and "ev \<noteq> []" "of_char CHR ''{'' \<notin> set ev" "list_all scalar ev"
    and "nsp_ok (s_nsp p)" "id_ok (s_id p)" "list_all scalar (s_nsp p)"
    and "json_canonical J (lit ''['' @ ev @ lit '','' @ placeholder (lit ''0'') @ lit '']'')"
  shows "\<exists>bs. spacket_to_bytes oc p = Ok bs \<and> spacket_try_from J bs = Inr (p\<lparr>s_attachments := None\<rparr>)"
  by (rule text_roundtrip [OF decode_binary [OF assms]])

theorem spacket_binary_roundtrip_witness:
  "\<exists>bs. spacket_to_bytes False (spacket SBinaryEvent (lit ''/'') (Some (lit ''e'')) None 1 (Some [[3, 2]])) = Ok bs \<and>
     spacket_try_from flat_json bs
       = Inr ((spacket SBinaryEvent (lit ''/'') (Some (lit ''e'')) None 1 (Some [[3, 2]]))\<lparr>s_attachments := None\<rparr>)"
  by (rule spacket_binary_roundtrip [where ev = "lit ''e''"])
    (simp_all add: spacket_def is_binary_type_def nsp_ok_def starts_with_def id_ok_def scalar_def
      flat_canonical)

text \<open>A packet with two attachments is decoded wrongly. Only the placeholder with number 0 is removed,
  so the data of the event a server sends is not the event name: the name is followed by two commas
  and the second placeholder.\<close>

theorem two_attachments_garbled:
  assumes "is_binary_type (s_type p)" "nsp_ok (s_nsp p)" "id_ok (s_id p)"
    and "of_char CHR ''{'' \<notin> set ev"
    and "json_parse J d = Inr j" "json_print J j = d"
    and "d = lit ''['' @ ev @ lit '','' @ placeholder (lit ''0'') @ lit '','' @ placeholder (lit ''1'') @ lit '']''"
  shows "decode_text J (encode_head p @ d) =
    Inr ((head_of p)\<lparr>s_data := Some (ev @ lit '',,'' @ placeholder (lit ''1''))\<rparr>)"
proof -
  have "remove_all (placeholder (lit ''0'')) ((lit ''['' @ ev @ lit '','') @ placeholder (lit ''0'') @
        (lit '','' @ placeholder (lit ''1'') @ lit '']''))
      = (lit ''['' @ ev @ lit '','') @ remove_all (placeholder (lit ''0'')) (lit '','' @ placeholder (lit ''1'') @ lit '']'')"
    by (rule remove_placeholder) (use assms(4) in simp)
  also have "remove_all (placeholder (lit ''0'')) (lit '','' @ placeholder (lit ''1'') @ lit '']'') =
      lit '','' @ placeholder (lit ''1'') @ lit '']''"
    by (subst remove_all_fresh) (simp_all only: remove_other_placeholder remove_close, simp_all add: placeholder_def)
  finally have rem: "remove_all (placeholder (lit ''0'')) d =
      of_char CHR ''['' # ev @ lit '',,'' @ placeholder (lit ''1'') @ lit '']''"
    by (simp add: assms(7))
  have "data_start d" by (simp add: assms(7) data_start_def is_ascii_digit_def)
  then have "decode_text J (encode_head p @ d) = decode_data J (head_of p) d"
    using decode_text_encode [OF assms(2,3), of d J] by (auto simp: assms(7))
  also have "\<dots> = Inr ((head_of p)\<lparr>s_data := Some (ev @ lit '',,'' @ placeholder (lit ''1''))\<rparr>)"
    using assms(1,5,6) rem strip_close_plain [of "ev @ lit '',,'' @ placeholder (lit ''1'')"]
    by (simp add: decode_data_def head_of_def starts_with_def Let_def)
      (simp add: placeholder_def)
  finally show ?thesis .
qed

theorem two_attachments_garbled_witness:
  "decode_text flat_json (encode_head (spacket SBinaryEvent (lit ''/'') None None 2 None) @
       lit ''['' @ lit ''e'' @ lit '','' @ placeholder (lit ''0'') @ lit '','' @ placeholder (lit ''1'') @ lit '']'')
   = Inr (spacket SBinaryEvent (lit ''/'') (Some (lit ''e'' @ lit '',,'' @ placeholder (lit ''1''))) None 2 None)"
  (is "decode_text flat_json (encode_head ?p @ ?d) = _")
proof -
  have one: "is_binary_type (s_type ?p)" "nsp_ok (s_nsp ?p)" "id_ok (s_id ?p)"
    "of_char CHR ''{'' \<notin> set (lit ''e'')"
    by (simp_all add: spacket_def is_binary_type_def nsp_ok_def starts_with_def id_ok_def)
  have two: "json_parse flat_json ?d = Inr ?d" "json_print flat_json ?d = ?d"
    by (simp_all add: flat_json_def)
  from two_attachments_garbled [OF one two refl] show ?thesis
    by (simp add: head_of_def spacket_def is_binary_type_def)
qed

text \<open>An id without data is lost. A packet that carries an id but no data encodes to text that ends
  with the id, and the decoder then returns the packet without it: an empty acknowledgement cannot
  be matched.\<close>

theorem id_without_data_lost:
  assumes "nsp_ok (s_nsp p)" "id_ok (s_id p)" "s_data p = None" "s_attachments p = None"
    and "\<not> is_binary_type (s_type p)" "s_count p = 0" "list_all scalar (s_nsp p)"
  shows "\<exists>bs. spacket_to_bytes oc p = Ok bs \<and> spacket_try_from J bs = Inr (p\<lparr>s_id := None\<rparr>)"
proof -
  have "decode_text J (encode_head p @ []) = Inr ((head_of p)\<lparr>s_id := None\<rparr>)"
    using decode_text_encode [OF assms(1,2), of "[]" J] by simp
  moreover have "(head_of p)\<lparr>s_id := None\<rparr> = p\<lparr>s_id := None\<rparr>"
    using assms(3-6) by (simp add: head_of_def)
  ultimately show ?thesis
    using assms(3,4) utf8_scalars [OF encode_head_scalars [OF assms(7)]]
    by (simp add: spacket_to_bytes_def encode_text_def spacket_try_from_def)
qed

theorem id_without_data_lost_witness:
  "\<exists>bs. spacket_to_bytes True (spacket SAck (lit ''/'') None (Some 7) 0 None) = Ok bs \<and>
     spacket_try_from flat_json bs = Inr ((spacket SAck (lit ''/'') None (Some 7) 0 None)\<lparr>s_id := None\<rparr>)"
  by (rule id_without_data_lost)
    (simp_all add: spacket_def is_binary_type_def nsp_ok_def starts_with_def id_ok_def scalar_def)

lemma parse_u8_large: "256 \<le> n \<Longrightarrow> parse_u8 (decimal n) = None"
proof -
  assume n: "256 \<le> n"
  obtain c r where cr: "decimal n = c # r" by (cases "decimal n") simp_all
  have "c \<noteq> 43" using decimal_hd [OF cr] by (auto simp: is_ascii_digit_def)
  moreover have "digits_value (c # r) = Some n" using digits_value_decimal [of n] by (simp only: cr)
  ultimately show ?thesis using n by (simp add: parse_u8_def cr)
qed

lemma parse_i32_large: "2147483648 \<le> n \<Longrightarrow> parse_i32 (decimal n) = None"
proof -
  assume n: "2147483648 \<le> n"
  obtain c r where cr: "decimal n = c # r" by (cases "decimal n") simp_all
  have "c \<noteq> 43" "c \<noteq> 45" using decimal_hd [OF cr] by (auto simp: is_ascii_digit_def)
  moreover have "digits_value (c # r) = Some n" using digits_value_decimal [of n] by (simp only: cr)
  ultimately show ?thesis using n by (simp add: parse_i32_def cr)
qed

text \<open>Numbers out of range are dropped, not reported. An attachment count above 255 is read as no
  attachments, and an acknowledgement id above the \<open>i32\<close> range as no id; the packet is accepted in
  both cases.\<close>

theorem number_overflow_dropped:
  assumes "256 \<le> n" "2147483648 \<le> m" "data_start d" "json_parse J d = Inr j"
  shows "decode_text J (lit ''5'' @ decimal n @ lit ''-'') = Inr (spacket_default\<lparr>s_type := SBinaryEvent\<rparr>) \<and>
    decode_text J (lit ''3'' @ decimal m @ d) =
      Inr (spacket_default\<lparr>s_type := SAck, s_data := Some (json_print J j)\<rparr>)"
proof
  have "of_char CHR ''-'' \<notin> set (decimal n)"
    using decimal_digits by (fastforce simp: is_ascii_digit_def)
  from read_until_append [OF this, of "[]"]
  show "decode_text J (lit ''5'' @ decimal n @ lit ''-'') = Inr (spacket_default\<lparr>s_type := SBinaryEvent\<rparr>)"
    using parse_u8_large [OF assms(1)]
    by (simp add: decode_text_def spacket_id_try_from_char_def decode_count_def is_binary_type_def
        spacket_default_def)
  obtain c r where d: "d = c # r" and c: "\<not> is_ascii_digit c"
    using assms(3) by (cases d) (auto simp: data_start_def)
  have dig: "takeWhile is_ascii_digit (decimal m @ d) = decimal m"
    "dropWhile is_ascii_digit (decimal m @ d) = d"
    using c decimal_digits by (auto simp: d intro!: takeWhile_append_stop dropWhile_append_stop)
  obtain a b where ab: "decimal m = a # b" by (cases "decimal m") simp_all
  have "a \<noteq> of_char CHR ''/''" using decimal_hd [OF ab] by (auto simp: is_ascii_digit_def)
  then have "\<not> starts_with (decimal m @ d) (of_char CHR ''/'')" by (simp add: ab starts_with_def)
  then show "decode_text J (lit ''3'' @ decimal m @ d) =
      Inr (spacket_default\<lparr>s_type := SAck, s_data := Some (json_print J j)\<rparr>)"
    using dig parse_i32_large [OF assms(2)] assms(4) d
    by (simp add: decode_text_def spacket_id_try_from_char_def decode_count_def is_binary_type_def
        spacket_default_def decode_nsp_def decode_id_def decode_data_def parse_u8_def digits_value_def)
qed

theorem number_overflow_dropped_witness:
  "decode_text flat_json (lit ''5'' @ decimal 300 @ lit ''-'') = Inr (spacket_default\<lparr>s_type := SBinaryEvent\<rparr>)"
proof -
  have "(256::nat) \<le> 300" "(2147483648::nat) \<le> 2147483648" "data_start (lit ''[]'')"
    "json_parse flat_json (lit ''[]'') = Inr (lit ''[]'')"
    by (simp_all add: data_start_def is_ascii_digit_def flat_json_def)
  from number_overflow_dropped [OF this] show ?thesis by blast
qed

text \<open>What the decoder rejects: text that is not UTF-8, the empty text, an unknown packet type, a
  binary packet whose count is not closed by a dash, a namespace not closed by a comma, and data
  that is not JSON, each with its own error.\<close>

theorem spacket_rejects:
  "(from_utf8 bs = None \<longrightarrow> spacket_try_from J bs = Inl SInvalidUtf8) \<and>
   spacket_try_from J [] = Inl SIncompletePacket \<and>
   (c < 48 \<or> 54 < c \<longrightarrow> decode_text J (c # r) = Inl (SInvalidPacketId c)) \<and>
   (of_char CHR ''-'' \<notin> set r \<longrightarrow> decode_text J (of_char CHR ''5'' # r) = Inl SIncompletePacket) \<and>
   (of_char CHR '','' \<notin> set r \<longrightarrow> decode_text J (lit ''2/'' @ r) = Inl SIncompletePacket) \<and>
   (json_parse J (lit ''x'') = Inl e \<longrightarrow> decode_text J (lit ''2x'') = Inl (SInvalidJson e))"
proof -
  have none: "d \<notin> set s \<Longrightarrow> read_until d s = None" for d s
    by (induction s) auto
  have "spacket_id_try_from_char c = Inl (SInvalidPacketId c)" if "c < 48 \<or> 54 < c"
    using that by (auto simp: spacket_id_try_from_char_def)
  then show ?thesis
    using none
    by (simp add: spacket_try_from_def decode_text_def from_utf8_def spacket_id_try_from_char_def
        decode_count_def is_binary_type_def decode_nsp_def decode_id_def decode_data_def
        starts_with_def spacket_default_def is_ascii_digit_def parse_u8_def digits_value_def)
qed

theorem spacket_rejects_witness:
  "spacket_try_from flat_json [255] = Inl SInvalidUtf8"
proof -
  have "from_utf8 [255] = None" by (simp add: from_utf8_def)
  with spacket_rejects [of "[255]"] show ?thesis by blast
qed

text \<open>Events and their names. The name of an event is read back as that event, except for custom
  events whose name, in any case, is one of the four reserved words.\<close>

theorem event_roundtrip:
  "event_of_string (event_to_string e) = e \<longleftrightarrow>
     (case e of
        EvCustom s \<Rightarrow> to_lowercase s \<notin> {lit ''message'', lit ''error'', lit ''open'', lit ''close''}
      | _ \<Rightarrow> True)"
proof (cases e)
  case (EvCustom s)
  then show ?thesis
    by (auto simp: event_of_string_def Let_def simp del: lit_simps)
qed (simp_all add: event_of_string_def to_lowercase_def lower_char_def)

text \<open>Encoding panics exactly when a packet carries an attachment list but a count of zero and the
  build checks for overflow; without the check the placeholder gets the number 255.\<close>

theorem spacket_encode_panics:
  "(spacket_to_bytes oc p = (Panic :: ('e, bytes) outcome) \<longleftrightarrow> oc \<and> s_attachments p \<noteq> None \<and> s_count p = 0) \<and>
   (spacket_to_bytes False (p\<lparr>s_count := 0, s_data := None, s_attachments := Some as\<rparr>) :: ('e, bytes) outcome) =
     Ok (utf8 (encode_head (p\<lparr>s_count := 0\<rparr>) @ lit ''['' @ placeholder (lit ''255'') @ lit '']''))"
proof -
  have "unat (0 - 1 :: u8) = 255"
    by (simp add: unsigned_minus_1_eq_mask mask_eq_exp_minus_1)
  then have "u8_to_string (0 - 1) = lit ''255''"
    by (simp only: u8_to_string_def) (simp add: decimal.simps)
  then show ?thesis
    by (auto simp: spacket_to_bytes_def encode_text_def encode_head_def simp del: lit_simps
        split: option.splits)
qed

section \<open>Well-formed packets\<close>

text \<open>
  What every decoded packet satisfies: a namespace that starts with a slash and has no comma, made
  of Unicode scalar values, an id that is not negative, and no attachment count outside the binary types.
\<close>

definition wf_packet :: "spacket \<Rightarrow> bool" where
  "wf_packet p \<longleftrightarrow> nsp_ok (s_nsp p) \<and> list_all scalar (s_nsp p) \<and> id_ok (s_id p) \<and>
     (is_binary_type (s_type p) \<or> s_count p = 0)"

lemma read_until_split:
  "read_until c xs = Some (buf, r) \<Longrightarrow> c \<notin> set buf \<and> xs = buf @ c # r"
  by (induction xs arbitrary: buf) (auto split: if_splits option.splits)

lemma decode_count_wf:
  assumes "decode_count p cs = Inr (q, r)" "wf_packet p" "s_count p = 0" "list_all scalar cs"
  shows "wf_packet q \<and> s_type q = s_type p \<and> s_attachments q = s_attachments p \<and> list_all scalar r"
proof -
  have "parse_u8 [] = None" by (simp add: parse_u8_def digits_value_def)
  with assms read_until_split show ?thesis
    by (fastforce simp: decode_count_def wf_packet_def split: option.splits if_splits)
qed

lemma decode_nsp_wf:
  assumes "decode_nsp p cs = Inr (q, r)" "wf_packet p" "list_all scalar cs"
  shows "wf_packet q \<and> s_attachments q = s_attachments p"
proof (cases "starts_with cs (of_char CHR ''/'')")
  case True
  then obtain cs' where cs: "cs = of_char CHR ''/'' # cs'"
    by (cases cs) (auto simp: starts_with_def)
  with True assms(1) obtain buf where "read_until (of_char CHR '','') cs' = Some (buf, r)"
    and q: "q = p\<lparr>s_nsp := of_char CHR ''/'' # buf\<rparr>"
    by (auto simp: decode_nsp_def split: option.splits)
  from read_until_split [OF this(1)] assms(2,3) show ?thesis
    by (auto simp: q cs wf_packet_def nsp_ok_def starts_with_def)
qed (use assms in \<open>simp add: decode_nsp_def\<close>)

lemma decode_id_wf:
  assumes "decode_id J p cs = Inr q" "wf_packet p"
  shows "wf_packet q \<and> s_attachments q = s_attachments p"
proof -
  let ?p = "case parse_i32 (takeWhile is_ascii_digit cs) of Some i \<Rightarrow> p\<lparr>s_id := Some i\<rparr> | None \<Rightarrow> p"
  have "list_all is_ascii_digit (takeWhile is_ascii_digit cs)"
    by (auto simp: list_all_iff dest: set_takeWhileD)
  then have "wf_packet ?p" "s_attachments ?p = s_attachments p"
    using assms(2) parse_i32_digits_nonneg
    by (auto simp: wf_packet_def id_ok_def split: option.splits)
  moreover have "decode_data J p' r = Inr q \<Longrightarrow> wf_packet p' \<Longrightarrow> wf_packet q \<and> s_attachments q = s_attachments p'" for p' r
    by (auto simp: decode_data_def wf_packet_def Let_def split: sum.splits if_splits)
  ultimately show ?thesis
    using assms by (auto simp: decode_id_def Let_def split: if_splits)
qed

lemma decode_text_wf:
  assumes "decode_text J cs = Inr p" "list_all scalar cs"
  shows "wf_packet p \<and> s_attachments p = None"
proof -
  obtain c r t where cs: "cs = c # r" and t: "spacket_id_try_from_char c = Inr t"
    using assms(1) by (auto simp: decode_text_def split: list.splits sum.splits)
  let ?p0 = "spacket_default\<lparr>s_type := t\<rparr>"
  have p0: "wf_packet ?p0" "s_count ?p0 = 0" "s_attachments ?p0 = None"
    by (simp_all add: wf_packet_def spacket_default_def nsp_ok_def starts_with_def scalar_def id_ok_def)
  obtain p1 r1 where d1: "decode_count ?p0 r = Inr (p1, r1)"
    using assms(1) cs t by (auto simp: decode_text_def split: sum.splits)
  then have w1: "wf_packet p1" "s_attachments p1 = None" "list_all scalar r1"
    using decode_count_wf [OF d1 p0(1,2)] assms(2) cs p0(3) by auto
  show ?thesis
  proof (cases "r1 = []")
    case True
    with assms(1) cs t d1 w1 show ?thesis by (simp add: decode_text_def)
  next
    case False
    with assms(1) cs t d1 obtain p2 r2 where d2: "decode_nsp p1 r1 = Inr (p2, r2)"
      and r: "if r2 = [] then p = p2 else decode_id J p2 r2 = Inr p"
      by (auto simp: decode_text_def split: sum.splits if_splits)
    from decode_nsp_wf [OF d2 w1(1,3)] r decode_id_wf [of J p2 r2 p] w1(2) show ?thesis
      by (auto split: if_splits)
  qed
qed

end
