(* ===== verification/Sio_Socket.thy ===== *)
theory Sio_Socket
  imports Sio_Packet Engine_Socket
begin

text \<open>
  \<open>socketio/src/socket.rs\<close>: the blocking socket.io socket over an engine.io client. Its state is the
  client's state and the flag \<open>connected\<close>; both are shared by all clones.
\<close>

section \<open>State and operations that send\<close>

record 'u ssocket =
  ss_engine :: "'u esocket"
  ss_connected :: bool

definition ssocket_new :: "'u esocket \<Rightarrow> 'u ssocket" where
  "ssocket_new e = \<lparr>ss_engine = e, ss_connected = False\<rparr>"

text \<open>A call of the engine.io client; \<open>?\<close> wraps its error.\<close>

definition on_engine :: "('u esocket, eerror, 'a) proc \<Rightarrow> ('u ssocket, serror, 'a) proc" where
  "on_engine m s =
     (case m (ss_engine s) of
        (r, e) \<Rightarrow> (map_err SIncompleteResponseFromEngineIo r, s\<lparr>ss_engine := e\<rparr>))"

definition ssocket_connect :: "base64 \<Rightarrow> 'u urllib \<Rightarrow> ('u ssocket, serror, unit) proc" where
  "ssocket_connect B U =
     seq (on_engine (esocket_connect B U)) (\<lambda>_. modify (\<lambda>s. s\<lparr>ss_connected := True\<rparr>))"

definition is_engineio_connected :: "'u ssocket \<Rightarrow> bool" where
  "is_engineio_connected s = es_connected (ss_engine s)"

definition ssocket_disconnect :: "base64 \<Rightarrow> 'u urllib \<Rightarrow> ('u ssocket, serror, unit) proc" where
  "ssocket_disconnect B U s =
     seq (if is_engineio_connected s then on_engine (esocket_disconnect B U) else give (Ok ())) (\<lambda>_.
     modify (\<lambda>s. if ss_connected s then s\<lparr>ss_connected := False\<rparr> else s)) s"

fun send_attachments :: "base64 \<Rightarrow> 'u urllib \<Rightarrow> bytes list \<Rightarrow> ('u ssocket, serror, unit) proc" where
  "send_attachments B U [] = give (Ok ())"
| "send_attachments B U (attachment # rest) =
     seq (on_engine (esocket_emit B U (epacket EMessageBinary attachment))) (\<lambda>_.
     send_attachments B U rest)"

definition ssocket_send :: "bool \<Rightarrow> base64 \<Rightarrow> 'u urllib \<Rightarrow> spacket \<Rightarrow> ('u ssocket, serror, unit) proc" where
  "ssocket_send oc B U packet s =
     (if \<not> is_engineio_connected s \<or> \<not> ss_connected s then (Err SIllegalActionBeforeOpen, s)
      else
        seq (give (spacket_to_bytes oc packet)) (\<lambda>bytes.
        seq (on_engine (esocket_emit B U (epacket EMessage bytes))) (\<lambda>_.
        case s_attachments packet of
          Some attachments \<Rightarrow> send_attachments B U attachments
        | None \<Rightarrow> give (Ok ()))) s)"

definition quote_json :: "rstring \<Rightarrow> rstring" where
  "quote_json s = of_char CHR 0x22 # s @ [of_char CHR 0x22]"

text \<open>The event name is put between quotes as it is; text that is not JSON becomes a string.\<close>

definition build_packet_for_payload ::
  "('j, 'z) jsonlib_scheme \<Rightarrow> spayload \<Rightarrow> sevent \<Rightarrow> rstring \<Rightarrow> i32 option \<Rightarrow> spacket" where
  "build_packet_for_payload J payload event nsp i =
     (case payload of
        PBinary bin_data \<Rightarrow>
          spacket (if i \<noteq> None then SBinaryAck else SBinaryEvent) nsp
            (Some (json_print J (json_string J (event_to_string event)))) i 1 (Some [bin_data])
      | PString str_data \<Rightarrow>
          let payload = (case json_parse J str_data of
                Inr _ \<Rightarrow> lit ''['' @ quote_json (event_to_string event) @ lit '','' @ str_data @ lit '']''
              | Inl _ \<Rightarrow> lit ''['' @ quote_json (event_to_string event) @ lit '','' @ quote_json str_data @ lit '']'')
          in spacket SEvent nsp (Some payload) i 0 None)"

definition ssocket_emit ::
  "bool \<Rightarrow> base64 \<Rightarrow> 'u urllib \<Rightarrow> ('j, 'z) jsonlib_scheme \<Rightarrow> rstring \<Rightarrow> sevent \<Rightarrow> spayload \<Rightarrow>
   ('u ssocket, serror, unit) proc" where
  "ssocket_emit oc B U J nsp event data =
     ssocket_send oc B U (build_packet_for_payload J data event nsp None)"

section \<open>Receiving\<close>

definition is_message :: "epacket_id \<Rightarrow> bool" where
  "is_message i \<longleftrightarrow> i = EMessage \<or> i = EMessageBinary"

text \<open>The loop over \<open>attachments_left\<close>.\<close>

fun read_attachments ::
  "base64 \<Rightarrow> 'u urllib \<Rightarrow> nat \<Rightarrow> bytes list \<Rightarrow> ('u ssocket, serror, bytes list) proc" where
  "read_attachments B U 0 attachments = give (Ok attachments)"
| "read_attachments B U (Suc attachments_left) attachments =
     seq (on_engine (eclient_poll B U)) (\<lambda>next.
       case next of
         Some packet \<Rightarrow>
           if is_message (e_id packet) then
             read_attachments B U attachments_left (attachments @ [e_data packet])
           else give (Err (SInvalidAttachmentPacketType (epacket_id_to_u8 (e_id packet))))
       | None \<Rightarrow> give (Err SIncompletePacket))"

definition handle_engineio_packet ::
  "base64 \<Rightarrow> 'u urllib \<Rightarrow> ('j, 'z) jsonlib_scheme \<Rightarrow> epacket \<Rightarrow> ('u ssocket, serror, spacket) proc" where
  "handle_engineio_packet B U J packet =
     (case spacket_try_from J (e_data packet) of
        Inl e \<Rightarrow> give (Err e)
      | Inr socket_packet \<Rightarrow>
          if s_count socket_packet > 0 then
            seq (read_attachments B U (unat (s_count socket_packet)) []) (\<lambda>attachments.
            give (Ok (socket_packet\<lparr>s_attachments := Some attachments\<rparr>)))
          else give (Ok socket_packet))"

definition ss_handle_packet :: "spacket \<Rightarrow> 'u ssocket \<Rightarrow> 'u ssocket" where
  "ss_handle_packet p s =
     (case s_type p of
        SConnect \<Rightarrow> s\<lparr>ss_connected := True\<rparr>
      | SConnectError \<Rightarrow> s\<lparr>ss_connected := False\<rparr>
      | SDisconnect \<Rightarrow> s\<lparr>ss_connected := False\<rparr>
      | _ \<Rightarrow> s)"

text \<open>\<open>eclient_poll_backlog\<close>: reading shortens the engine's backlog, which ends the loop that skips other packets.\<close>

function ssocket_poll ::
  "base64 \<Rightarrow> 'u urllib \<Rightarrow> ('j, 'z) jsonlib_scheme \<Rightarrow> ('u ssocket, serror, spacket option) proc" where
  "ssocket_poll B U J s =
     (case eclient_poll B U (ss_engine s) of
        (Ok (Some packet), e) \<Rightarrow>
          if is_message (e_id packet) then
            seq (handle_engineio_packet B U J packet) (\<lambda>socket_packet.
            seq (modify (ss_handle_packet socket_packet)) (\<lambda>_.
            give (Ok (Some socket_packet)))) (s\<lparr>ss_engine := e\<rparr>)
          else ssocket_poll B U J (s\<lparr>ss_engine := e\<rparr>)
      | (Ok None, e) \<Rightarrow> (Ok None, s\<lparr>ss_engine := e\<rparr>)
      | (Err err, e) \<Rightarrow> (Err (SIncompleteResponseFromEngineIo err), s\<lparr>ss_engine := e\<rparr>)
      | (Panic, e) \<Rightarrow> (Panic, s\<lparr>ss_engine := e\<rparr>)
      | (Block, e) \<Rightarrow> (Block, s\<lparr>ss_engine := e\<rparr>))"
  by pat_completeness auto
termination
  by (relation "measure (\<lambda>(B, U, J, s). length (backlog B (ss_engine s)))")
    (auto dest: eclient_poll_backlog [OF sym])

declare ssocket_poll.simps [simp del]

text \<open>The documentation of \<open>emit\<close> says that data that is not JSON is an \<open>InvalidJson\<close> error. No call returns
  that error: such data is put between quotes and sent.\<close>

lemma on_engine_error: "on_engine m s = (Err e, s') \<Longrightarrow> \<exists>x. e = SIncompleteResponseFromEngineIo x"
proof -
  assume run: "on_engine m s = (Err e, s')"
  obtain r t where "m (ss_engine s) = (r, t)" by fastforce
  with run show ?thesis by (cases r) (auto simp: on_engine_def)
qed

lemma send_attachments_error: "send_attachments B U as s = (Err e, s') \<Longrightarrow> \<exists>x. e = SIncompleteResponseFromEngineIo x"
  by (induction as arbitrary: s) (auto simp: seq_def dest: on_engine_error split: prod.splits outcome.splits)

theorem emit_never_invalid_json: "fst (ssocket_emit oc B U J nsp event data s) \<noteq> Err (SInvalidJson e)"
proof
  assume "fst (ssocket_emit oc B U J nsp event data s) = Err (SInvalidJson e)"
  then obtain s' where "ssocket_emit oc B U J nsp event data s = (Err (SInvalidJson e), s')" by (metis prod.collapse)
  then show False
    by (auto simp: ssocket_emit_def ssocket_send_def seq_def spacket_to_bytes_def dest: on_engine_error send_attachments_error
        split: if_splits prod.splits outcome.splits option.splits)
qed

section \<open>The connection contract\<close>

abbreviation ss_open :: "'u ssocket \<Rightarrow> bool" where
  "ss_open s \<equiv> es_connected (ss_engine s) \<and> ss_connected s"

lemma on_engine_fields [simp]:
  "ss_connected (snd (on_engine m s)) = ss_connected s"
  "ss_engine (snd (on_engine m s)) = snd (m (ss_engine s))"
  by (simp_all add: on_engine_def split: prod.splits)

lemma on_engine_Ok: "on_engine m s = (Ok x, s') \<longleftrightarrow>
    m (ss_engine s) = (Ok x, ss_engine s') \<and> s' = s\<lparr>ss_engine := ss_engine s'\<rparr>"
proof -
  obtain r e where "m (ss_engine s) = (r, e)" by fastforce
  then show ?thesis by (cases r) (auto simp: on_engine_def)
qed

lemma keeps_open_emit: "keeps (\<lambda>s. ss_open s = c) (on_engine (esocket_emit B U p))"
  by (rule keepsI) (simp add: esocket_emit_fields)

lemma keeps_open_attachments: "keeps (\<lambda>s. ss_open s = c) (send_attachments B U as)"
proof (induction as)
  case Nil
  show ?case by (simp add: keeps_def)
next
  case (Cons a as)
  then show ?case by (simp only: send_attachments.simps) (intro keeps_seq keeps_open_emit)
qed

lemma ssocket_send_open: "ss_open (snd (ssocket_send oc B U p s)) = ss_open s"
proof -
  have "keeps (\<lambda>s'. ss_open s' = ss_open s)
      (seq (give (spacket_to_bytes oc p)) (\<lambda>bytes.
        seq (on_engine (esocket_emit B U (epacket EMessage bytes))) (\<lambda>_.
        case s_attachments p of Some as \<Rightarrow> send_attachments B U as | None \<Rightarrow> give (Ok ()))))"
    by (intro keeps_seq keeps_give keeps_open_emit)
      (simp add: keeps_open_attachments split: option.splits)
  from keepsD [OF this, of s] show ?thesis
    by (simp add: ssocket_send_def is_engineio_connected_def)
qed

lemma ssocket_disconnect_closes: "ssocket_disconnect B U s = (Ok u, s') \<Longrightarrow> \<not> ss_open s'"
  by (auto simp: ssocket_disconnect_def is_engineio_connected_def on_engine_Ok
      elim!: seq_OkE split: if_splits)

interpretation ssock: connection "ssocket_send oc B U" "ssocket_disconnect B U" ss_open
    "\<lambda>s. wire (es_net (ss_engine s))" SIllegalActionBeforeOpen
  for oc :: bool and B :: base64 and U :: "'u urllib"
  by unfold_locales
    (simp_all add: ssocket_send_open ssocket_disconnect_closes,
     auto simp: ssocket_send_def is_engineio_connected_def)

section \<open>Reassembling attachments\<close>

text \<open>A message at the head of the backlog is what the engine's client returns; the connection and
  what the network accepts stay as they are.\<close>

lemma eclient_poll_message:
  assumes "es_connected e" "backlog B e = Inr p # rest"
    and "is_message (e_id p) \<or> e_id p = ENoop \<or> e_id p = EUpgrade"
  obtains e' where "eclient_poll B U e = (Ok (Some p), e')" "es_connected e'" "backlog B e' = rest"
    "es_transport e' = es_transport e" "accepts (es_transport e) (es_net e') = accepts (es_transport e) (es_net e)"
proof -
  from assms(1,2) obtain s1 where s1: "esocket_poll B U e = (Ok (Some p), s1)" and bl: "backlog B s1 = rest"
    and out: "eclient_poll B U e =
      (case eclient_react B U p (handle_packet p s1) of
         (Ok _, s2) \<Rightarrow> (Ok (Some p), s2)
       | (Err e, s2) \<Rightarrow> (Err e, s2)
       | (Panic, s2) \<Rightarrow> (Panic, s2)
       | (Block, s2) \<Rightarrow> (Block, s2))"
    by (rule eclient_poll_head)
  have f: "es_connected s1" "es_transport s1 = es_transport e"
    "accepts (es_transport e) (es_net s1) = accepts (es_transport e) (es_net e)"
    using esocket_poll_frame [of B U e] esocket_poll_accepts [of e B U] assms(1) by (simp_all add: s1)
  show thesis
    by (rule that [of "snd (eclient_react B U p (handle_packet p s1))"])
      (use out f bl assms(3) in \<open>auto simp: eclient_react_def is_message_def\<close>)
qed

lemma read_attachments_all:
  assumes "es_connected (ss_engine s)" "backlog B (ss_engine s) = map Inr qs @ rest"
    and "list_all (\<lambda>q. is_message (e_id q)) qs"
  shows "\<exists>e'. read_attachments B U (length qs) as s =
      (Ok (as @ map e_data qs), s\<lparr>ss_engine := e'\<rparr>) \<and>
    es_connected e' \<and> backlog B e' = rest \<and> es_transport e' = es_transport (ss_engine s) \<and>
    accepts (es_transport e') (es_net e') = accepts (es_transport e') (es_net (ss_engine s))"
  using assms
proof (induction qs arbitrary: s as)
  case Nil
  then show ?case by (intro exI [of _ "ss_engine s"]) simp
next
  case (Cons q qs)
  from Cons.prems have "backlog B (ss_engine s) = Inr q # (map Inr qs @ rest)"
    and "is_message (e_id q) \<or> e_id q = ENoop \<or> e_id q = EUpgrade" by simp_all
  with Cons.prems(1) obtain e' where e': "eclient_poll B U (ss_engine s) = (Ok (Some q), e')"
    "es_connected e'" "backlog B e' = map Inr qs @ rest" "es_transport e' = es_transport (ss_engine s)"
    "accepts (es_transport (ss_engine s)) (es_net e') = accepts (es_transport (ss_engine s)) (es_net (ss_engine s))"
    by (rule eclient_poll_message)
  have "\<exists>e''. read_attachments B U (length qs) (as @ [e_data q]) (s\<lparr>ss_engine := e'\<rparr>) =
      (Ok ((as @ [e_data q]) @ map e_data qs), s\<lparr>ss_engine := e''\<rparr>) \<and>
    es_connected e'' \<and> backlog B e'' = rest \<and> es_transport e'' = es_transport e' \<and>
    accepts (es_transport e'') (es_net e'') = accepts (es_transport e'') (es_net e')"
    using Cons.IH [of "s\<lparr>ss_engine := e'\<rparr>" "as @ [e_data q]"] e' Cons.prems(3) by simp
  moreover have "on_engine (eclient_poll B U) s = (Ok (Some q), s\<lparr>ss_engine := e'\<rparr>)"
    by (simp add: on_engine_def e'(1))
  ultimately show ?case using e'(4,5) Cons.prems(3) by auto
qed

text \<open>What a poll makes of a packet and the messages behind it.\<close>

lemma ssocket_poll_assembles:
  assumes "es_connected (ss_engine s)"
    and "backlog B (ss_engine s) = map Inr (p # qs) @ rest"
    and "list_all (\<lambda>q. is_message (e_id q)) (p # qs)"
    and "spacket_try_from J (e_data p) = Inr sp" "unat (s_count sp) = length qs"
  shows "\<exists>e'. ssocket_poll B U J s =
      (Ok (Some (if qs = [] then sp else sp\<lparr>s_attachments := Some (map e_data qs)\<rparr>)),
       ss_handle_packet sp (s\<lparr>ss_engine := e'\<rparr>)) \<and>
    es_connected e' \<and> backlog B e' = rest"
proof -
  from assms(2,3) have "backlog B (ss_engine s) = Inr p # (map Inr qs @ rest)"
    and "is_message (e_id p) \<or> e_id p = ENoop \<or> e_id p = EUpgrade" by simp_all
  with assms(1) obtain e1 where e1: "eclient_poll B U (ss_engine s) = (Ok (Some p), e1)"
    "es_connected e1" "backlog B e1 = map Inr qs @ rest"
    by (rule eclient_poll_message)
  obtain e2 where e2: "read_attachments B U (length qs) [] (s\<lparr>ss_engine := e1\<rparr>) =
      (Ok (map e_data qs), s\<lparr>ss_engine := e2\<rparr>)" "es_connected e2" "backlog B e2 = rest"
    using read_attachments_all [of "s\<lparr>ss_engine := e1\<rparr>" B qs rest U "[]"] e1 assms(3) by auto
  have zero: "s_count sp = 0 \<longleftrightarrow> qs = []"
    using assms(5) by (metis length_0_conv unat_eq_zero)
  have same: "ss_handle_packet (sp\<lparr>s_attachments := as\<rparr>) t = ss_handle_packet sp t" for as t
    by (simp add: ss_handle_packet_def)
  show ?thesis
  proof (cases "qs = []")
    case True
    then have "handle_engineio_packet B U J p (s\<lparr>ss_engine := e1\<rparr>) = (Ok sp, s\<lparr>ss_engine := e1\<rparr>)"
      using zero assms(4) by (simp add: handle_engineio_packet_def)
    then show ?thesis
      using True e1 assms(3) by (subst ssocket_poll.simps) (auto simp: same)
  next
    case False
    then have "s_count sp > 0" using zero by (simp add: word_gt_0)
    then have "handle_engineio_packet B U J p (s\<lparr>ss_engine := e1\<rparr>) =
        (Ok (sp\<lparr>s_attachments := Some (map e_data qs)\<rparr>), s\<lparr>ss_engine := e2\<rparr>)"
      using assms(4,5) e2(1) by (simp add: handle_engineio_packet_def)
    then show ?thesis
      using False e1(1) e2 assms(3) by (subst ssocket_poll.simps) (auto simp: same)
  qed
qed

section \<open>Properties\<close>

definition demo_ssocket :: "ws_event list \<Rightarrow> nat ssocket" where
  "demo_ssocket es = \<lparr>ss_engine = demo_socket es, ss_connected = True\<rparr>"

lemma demo_ssocket_fields [simp]:
  "ss_engine (demo_ssocket es) = demo_socket es" "ss_connected (demo_ssocket es)"
  by (simp_all add: demo_ssocket_def)

lemma body_items_message:
  "d \<noteq> [] \<Longrightarrow> separator \<notin> set d \<Longrightarrow> k = 4 \<or> k = of_char CHR ''4'' \<Longrightarrow>
     body_items B (k # d) = [Inr (epacket EMessage d)]"
  by (auto simp: body_items_def payload_try_from_def payload_scan_split slice_def separator_def
      split_at_fresh epacket_try_from_def epacket_id_try_from_def epacket_def simp del: split_at.simps)

text \<open>The two kinds of websocket frames that carry a message.\<close>

lemma ws_items_message:
  "d \<noteq> [] \<Longrightarrow> separator \<notin> set d \<Longrightarrow> ws_items B (WsMsg (WsBinary d)) = [Inr (epacket EMessage d)]"
  "t \<noteq> [] \<Longrightarrow> list_all scalar t \<Longrightarrow> 30 \<notin> set t \<Longrightarrow>
     ws_items B (WsMsg (WsText (of_char CHR ''4'' # t))) = [Inr (epacket EMessage (utf8 t))]"
proof -
  show "d \<noteq> [] \<Longrightarrow> separator \<notin> set d \<Longrightarrow> ws_items B (WsMsg (WsBinary d)) = [Inr (epacket EMessage d)]"
    by (simp add: body_items_message)
  assume t: "t \<noteq> []" "list_all scalar t" "30 \<notin> set t"
  then have "separator \<notin> set (utf8 t)"
    using utf8_ascii_byte [of t 30] by (simp add: separator_def list_all_iff)
  moreover have "utf8 t \<noteq> []"
    using t(1) by (cases t) (simp_all add: utf8_def utf8_char_def)
  ultimately show "ws_items B (WsMsg (WsText (of_char CHR ''4'' # t))) = [Inr (epacket EMessage (utf8 t))]"
    by (simp add: body_items_message)
qed

text \<open>C19: attachments are put back together. When the next engine packet decodes to a packet that
  announces \<open>n\<close> attachments and the next \<open>n\<close> engine packets are messages, one poll returns the packet
  with exactly their data as its attachments, in order, and leaves everything after them.\<close>

theorem attachments_reassembled:
  assumes "es_connected (ss_engine s)"
    and "backlog B (ss_engine s) = map Inr (p # qs) @ rest"
    and "list_all (\<lambda>q. is_message (e_id q)) (p # qs)"
    and "spacket_try_from J (e_data p) = Inr sp" "unat (s_count sp) = length qs"
  shows "\<exists>e'. ssocket_poll B U J s =
      (Ok (Some (if qs = [] then sp else sp\<lparr>s_attachments := Some (map e_data qs)\<rparr>)),
       ss_handle_packet sp (s\<lparr>ss_engine := e'\<rparr>)) \<and>
    es_connected e' \<and> backlog B e' = rest"
  by (rule ssocket_poll_assembles [OF assms])

definition demo_binary :: spacket where
  "demo_binary = spacket SBinaryEvent (lit ''/'') (Some (lit ''e'')) None 1 (Some [[3, 2]])"

lemma demo_binary_text:
  "\<exists>t. encode_text True demo_binary = Some t \<and> list_all scalar t \<and> 30 \<notin> set t \<and> t \<noteq> [] \<and>
     decode_text flat_json t = Inr (demo_binary\<lparr>s_attachments := None\<rparr>)"
proof -
  note dec = decode_binary [where p = demo_binary and J = flat_json and ev = "lit ''e''" and as = "[[3, 2]]"]
  have "30 \<notin> set (encode_head demo_binary)" "encode_head demo_binary \<noteq> []"
    by (simp_all add: demo_binary_def spacket_def encode_head_def u8_to_string_def decimal_small is_binary_type_def)
  then show ?thesis
    using dec by (simp add: demo_binary_def spacket_def is_binary_type_def nsp_ok_def starts_with_def id_ok_def
        scalar_def flat_canonical placeholder_def)
qed

text \<open>The text frame of a packet that announces an attachment, and the attachment.\<close>

lemma demo_attachment_frames:
  obtains p q s sp where "es_connected (ss_engine s)" "backlog nibble64 (ss_engine s) = map Inr (p # [q]) @ []"
    "list_all (\<lambda>q. is_message (e_id q)) (p # [q])" "spacket_try_from flat_json (e_data p) = Inr sp"
    "unat (s_count sp) = length [q]" "sp\<lparr>s_attachments := Some [e_data q]\<rparr> = demo_binary"
    "\<And>e'. ss_handle_packet sp (s\<lparr>ss_engine := e'\<rparr>) = (s :: nat ssocket)\<lparr>ss_engine := e'\<rparr>"
proof -
  obtain t where t: "list_all scalar t" "30 \<notin> set t" "t \<noteq> []"
    "decode_text flat_json t = Inr (demo_binary\<lparr>s_attachments := None\<rparr>)"
    using demo_binary_text by blast
  let ?s = "demo_ssocket [WsMsg (WsText (of_char CHR ''4'' # t)), WsMsg (WsBinary [3, 2])]"
  let ?p = "epacket EMessage (utf8 t)" and ?q = "epacket EMessage [3, 2]" and ?sp = "demo_binary\<lparr>s_attachments := None\<rparr>"
  have "backlog nibble64 (ss_engine ?s) = map Inr (?p # [?q]) @ []"
    using ws_items_message(2) [OF t(3,1,2)] ws_items_message(1) [of "[3, 2]"]
    by (simp add: demo_backlog separator_def del: ws_items.simps)
  moreover have "spacket_try_from flat_json (e_data ?p) = Inr ?sp"
    using t by (simp add: spacket_try_from_def utf8_scalars)
  ultimately show thesis
    by (intro that [of ?s ?p ?q ?sp])
      (simp_all add: is_message_def demo_binary_def spacket_def ss_handle_packet_def)
qed

theorem attachments_reassembled_witness:
  "\<exists>s e'. ssocket_poll nibble64 demo_urls flat_json s =
     (Ok (Some demo_binary), (s :: nat ssocket)\<lparr>ss_engine := e'\<rparr>)"
proof (rule demo_attachment_frames)
  fix p q s sp
  assume prem: "es_connected (ss_engine s)" "backlog nibble64 (ss_engine s) = map Inr (p # [q]) @ []"
    "list_all (\<lambda>q. is_message (e_id q)) (p # [q])" "spacket_try_from flat_json (e_data p) = Inr sp"
    "unat (s_count sp) = length [q]"
    and result: "sp\<lparr>s_attachments := Some [e_data q]\<rparr> = demo_binary"
    "\<And>e'. ss_handle_packet sp (s\<lparr>ss_engine := e'\<rparr>) = (s :: nat ssocket)\<lparr>ss_engine := e'\<rparr>"
  from attachments_reassembled [OF prem, of demo_urls] result show ?thesis by auto
qed

text \<open>A ping between a packet and its attachments loses the packet. The poll answers the ping but
  reports \<open>InvalidAttachmentPacketType(2)\<close>, and the attachments that still come are left to be read
  as packets of their own.\<close>

theorem ping_loses_attachments:
  assumes "es_connected (ss_engine s)" "accepts (es_transport (ss_engine s)) (es_net (ss_engine s))"
    and "backlog B (ss_engine s) = map Inr (p # qs) @ Inr x # rest"
    and "list_all (\<lambda>q. is_message (e_id q)) (p # qs)" "e_id x = EPing"
    and "spacket_try_from J (e_data p) = Inr sp" "length qs < unat (s_count sp)"
  shows "fst (ssocket_poll B U J s) = Err (SInvalidAttachmentPacketType 2) \<and>
    backlog B (ss_engine (snd (ssocket_poll B U J s))) = rest"
proof -
  obtain k where k: "unat (s_count sp) = length qs + Suc k"
    using assms(7) less_imp_Suc_add by fastforce
  have split: "read_attachments B U (length qs + m) as s1 =
      seq (read_attachments B U (length qs) as) (\<lambda>as'. read_attachments B U m as') s1" for m as s1
    by (induction qs arbitrary: as s1)
      (auto simp: seq_def split: prod.splits outcome.splits option.splits)
  from assms(3,4) have "backlog B (ss_engine s) = Inr p # (map Inr qs @ Inr x # rest)"
    and "is_message (e_id p) \<or> e_id p = ENoop \<or> e_id p = EUpgrade" by simp_all
  with assms(1) obtain e1 where e1: "eclient_poll B U (ss_engine s) = (Ok (Some p), e1)"
    "es_connected e1" "backlog B e1 = map Inr qs @ Inr x # rest"
    "es_transport e1 = es_transport (ss_engine s)"
    "accepts (es_transport (ss_engine s)) (es_net e1) = accepts (es_transport (ss_engine s)) (es_net (ss_engine s))"
    by (rule eclient_poll_message)
  obtain e2 where e2: "read_attachments B U (length qs) [] (s\<lparr>ss_engine := e1\<rparr>) =
      (Ok (map e_data qs), s\<lparr>ss_engine := e2\<rparr>)" "es_connected e2" "backlog B e2 = Inr x # rest"
    "accepts (es_transport e2) (es_net e2)"
    using read_attachments_all [of "s\<lparr>ss_engine := e1\<rparr>" B qs "Inr x # rest" U "[]"] e1 assms(2,4) by auto
  obtain e3 where e3: "eclient_poll B U e2 = (Ok (Some x), e3)"
    using eclient_ping_accepted [OF e2(2,3) assms(5) e2(4)] by blast
  have "backlog B e3 = rest" using eclient_poll_backlog [OF e3] e2(3) by simp
  moreover have "handle_engineio_packet B U J p (s\<lparr>ss_engine := e1\<rparr>) =
      (Err (SInvalidAttachmentPacketType 2), s\<lparr>ss_engine := e3\<rparr>)"
  proof -
    have "s_count sp > 0" using k by (metis word_gt_0 unat_eq_zero add_Suc_right nat.distinct(1))
    moreover have "read_attachments B U (unat (s_count sp)) [] (s\<lparr>ss_engine := e1\<rparr>) =
        (Err (SInvalidAttachmentPacketType 2), s\<lparr>ss_engine := e3\<rparr>)"
      unfolding k split using assms(5) e2(1) e3 by (simp add: seq_def on_engine_def is_message_def)
    ultimately show ?thesis using assms(6) by (simp add: handle_engineio_packet_def)
  qed
  ultimately show ?thesis
    using e1(1) assms(4) by (subst (1 2) ssocket_poll.simps) (simp add: seq_def)
qed

lemma ws_items_ping: "ws_items B (WsMsg (WsText (lit ''2''))) = [Inr (epacket EPing [])]"
  using demo_backlog_items(1) [of B] by (simp only: demo_backlog list.map concat.simps append_Nil2)

theorem ping_loses_attachments_witness:
  "\<exists>s. fst (ssocket_poll nibble64 demo_urls flat_json (s :: nat ssocket)) = Err (SInvalidAttachmentPacketType 2)"
proof -
  obtain t where t: "list_all scalar t" "30 \<notin> set t" "t \<noteq> []"
    "decode_text flat_json t = Inr (demo_binary\<lparr>s_attachments := None\<rparr>)"
    using demo_binary_text by blast
  let ?s = "demo_ssocket [WsMsg (WsText (of_char CHR ''4'' # t)), WsMsg (WsText (lit ''2'')), WsMsg (WsBinary [3, 2])]"
  have one: "es_connected (ss_engine ?s)" "accepts (es_transport (ss_engine ?s)) (es_net (ss_engine ?s))"
    by simp_all
  have two: "backlog nibble64 (ss_engine ?s) =
      map Inr (epacket EMessage (utf8 t) # []) @ Inr (epacket EPing []) # [Inr (epacket EMessage [3, 2])]"
    using ws_items_message(2) [OF t(3,1,2)] ws_items_message(1) [of "[3, 2]"] ws_items_ping
    by (simp add: demo_backlog separator_def del: ws_items.simps lit_simps)
  have three: "list_all (\<lambda>q. is_message (e_id q)) (epacket EMessage (utf8 t) # [])"
    "e_id (epacket EPing []) = EPing"
    "spacket_try_from flat_json (e_data (epacket EMessage (utf8 t))) = Inr (demo_binary\<lparr>s_attachments := None\<rparr>)"
    "length ([] :: epacket list) < unat (s_count (demo_binary\<lparr>s_attachments := None\<rparr>))"
    using t by (simp_all add: is_message_def spacket_try_from_def utf8_scalars)
      (simp add: demo_binary_def spacket_def)
  from ping_loses_attachments [OF one two three] show ?thesis by blast
qed

section \<open>From one socket to another\<close>

text \<open>The websocket messages a packet becomes: its text behind the message type, then its attachments.\<close>

definition packet_frames :: "rstring \<Rightarrow> spacket \<Rightarrow> ws_message list" where
  "packet_frames t p =
     WsText (of_char CHR ''4'' # t) #
     map WsBinary (case s_attachments p of Some as \<Rightarrow> as | None \<Rightarrow> [])"

text \<open>A socket over a websocket that takes the next \<open>n\<close> messages.\<close>

definition ready :: "nat \<Rightarrow> 'u ssocket \<Rightarrow> bool" where
  "ready n s \<longleftrightarrow> ss_open s \<and> (\<exists>u. es_transport (ss_engine s) = Websocket u) \<and>
     (\<exists>rest. ws_send_in (es_net (ss_engine s)) = replicate n (Inr ()) @ rest)"

lemma emit_frame:
  assumes "ready (Suc n) s" "ep = EMessageBinary \<and> m = WsBinary d \<or>
      ep = EMessage \<and> list_all scalar t \<and> d = utf8 t \<and> m = WsText (of_char CHR ''4'' # t)"
  obtains s' where "on_engine (esocket_emit B U (epacket ep d)) s = (Ok (), s')" "ready n s'"
    "wire (es_net (ss_engine s')) = wire (es_net (ss_engine s)) @ [WsSend m]"
proof -
  let ?e = "ss_engine s"
  obtain u rest where u: "es_transport ?e = Websocket u"
    and snd_in: "ws_send_in (es_net ?e) = Inr () # replicate n (Inr ()) @ rest"
    and con: "es_connected ?e" "ss_connected s"
    using assms(1) by (auto simp: ready_def)
  let ?w = "(log_request (WsSend m) (es_net ?e))\<lparr>ws_send_in := replicate n (Inr ()) @ rest\<rparr>"
  have snt: "ws_send m (es_net ?e) = (Ok (), ?w)"
    using snd_in by (simp add: ws_send_def log_request_def Let_def)
  have "esocket_emit B U (epacket ep d) ?e = (Ok (), ?e\<lparr>es_net := ?w\<rparr>)"
    using assms(2)
  proof
    assume "ep = EMessageBinary \<and> m = WsBinary d"
    then show ?thesis
      using snt con by (simp add: esocket_emit_def on_net_def transport_emit_def u ws_emit_def Let_def)
  next
    assume a: "ep = EMessage \<and> list_all scalar t \<and> d = utf8 t \<and> m = WsText (of_char CHR ''4'' # t)"
    then have "epacket_to_bytes B (epacket ep d) = utf8 (of_char CHR ''4'' # t)"
      by (simp add: epacket_to_bytes_def epacket_def epacket_id_to_string_def u8_to_string_def decimal_small)
    moreover have "from_utf8 (utf8 (of_char CHR ''4'' # t)) = Some (of_char CHR ''4'' # t)"
      using a by (intro utf8_scalars) (simp add: scalar_def)
    ultimately show ?thesis
      using snt con a
      by (simp add: esocket_emit_def on_net_def transport_emit_def u ws_emit_def ws_send_text_def Let_def
          del: utf8_ascii)
  qed
  then have "on_engine (esocket_emit B U (epacket ep d)) s = (Ok (), s\<lparr>ss_engine := ?e\<lparr>es_net := ?w\<rparr>\<rparr>)"
    by (simp add: on_engine_def)
  then show thesis
    by (rule that) (use con u in \<open>auto simp: ready_def log_request_def\<close>)
qed

lemma send_attachments_ready:
  "ready (length as + k) s \<Longrightarrow> \<exists>s'. send_attachments B U as s = (Ok (), s') \<and> ready k s' \<and>
     wire (es_net (ss_engine s')) = wire (es_net (ss_engine s)) @ map (\<lambda>a. WsSend (WsBinary a)) as"
proof (induction as arbitrary: s)
  case (Cons a as)
  then have "ready (Suc (length as + k)) s" by simp
  then obtain s1 where s1: "on_engine (esocket_emit B U (epacket EMessageBinary a)) s = (Ok (), s1)"
    "ready (length as + k) s1" "wire (es_net (ss_engine s1)) = wire (es_net (ss_engine s)) @ [WsSend (WsBinary a)]"
    by (rule emit_frame [where m = "WsBinary a" and d = a and t = "[]" and ep = EMessageBinary]) simp_all
  from Cons.IH [OF s1(2)] s1 show ?case by auto
qed simp

text \<open>Sending writes exactly the packet's frames.\<close>

lemma ssocket_send_ready:
  assumes "encode_text oc p = Some t" "list_all scalar t"
    and "ready (length (packet_frames t p) + k) s"
  shows "\<exists>s'. ssocket_send oc B U p s = (Ok (), s') \<and> ready k s' \<and>
    wire (es_net (ss_engine s')) = wire (es_net (ss_engine s)) @ map WsSend (packet_frames t p)"
proof -
  let ?as = "case s_attachments p of Some as \<Rightarrow> as | None \<Rightarrow> []"
  have "ready (Suc (length ?as + k)) s" using assms(3) by (simp add: packet_frames_def)
  then obtain s1 where s1: "on_engine (esocket_emit B U (epacket EMessage (utf8 t))) s = (Ok (), s1)"
    "ready (length ?as + k) s1"
    "wire (es_net (ss_engine s1)) = wire (es_net (ss_engine s)) @ [WsSend (WsText (of_char CHR ''4'' # t))]"
    by (rule emit_frame [where m = "WsText (of_char CHR ''4'' # t)" and d = "utf8 t" and t = t and ep = EMessage])
      (use assms(2) in simp_all)
  have bytes: "spacket_to_bytes oc p = (Ok (utf8 t) :: (serror, bytes) outcome)"
    by (simp add: spacket_to_bytes_def assms(1))
  have guard: "ss_open s" using assms(3) by (simp add: ready_def)
  from send_attachments_ready [OF s1(2)] s1 guard bytes show ?thesis
    by (cases "s_attachments p")
      (auto simp: ssocket_send_def is_engineio_connected_def packet_frames_def comp_def)
qed

lemma ssocket_send_frames:
  assumes "encode_text oc p = Some t" "list_all scalar t"
    and "ready (length (packet_frames t p)) s"
  shows "\<exists>s'. ssocket_send oc B U p s = (Ok (), s') \<and>
    wire (es_net (ss_engine s')) = wire (es_net (ss_engine s)) @ map WsSend (packet_frames t p)"
  using ssocket_send_ready [OF assms(1,2), of 0 s B U] assms(3) by auto

text \<open>Reading the frames of a packet gives the packet back.\<close>

lemma ssocket_poll_frames:
  assumes "list_all scalar t" "t \<noteq> []" "30 \<notin> set t"
    and "decode_text J t = Inr (p\<lparr>s_attachments := None\<rparr>)"
    and "case s_attachments p of None \<Rightarrow> s_count p = 0
      | Some as \<Rightarrow> as \<noteq> [] \<and> unat (s_count p) = length as \<and> list_all (\<lambda>a. a \<noteq> [] \<and> separator \<notin> set a) as"
    and "es_connected (ss_engine r)" "es_transport (ss_engine r) = Websocket v" "es_remaining (ss_engine r) = None"
    and "ws_in (es_net (ss_engine r)) = map WsMsg (packet_frames t p) @ later"
  shows "fst (ssocket_poll B U J r) = Ok (Some p)"
proof -
  let ?as = "case s_attachments p of Some as \<Rightarrow> as | None \<Rightarrow> []"
  have bin: "concat (map (ws_items B) (map WsMsg (map WsBinary as))) = map Inr (map (epacket EMessage) as)"
    if "list_all (\<lambda>a. a \<noteq> [] \<and> separator \<notin> set a) as" for as
    using that by (induction as) (simp_all add: ws_items_message del: ws_items.simps)
  have as: "list_all (\<lambda>a. a \<noteq> [] \<and> separator \<notin> set a) ?as" "unat (s_count p) = length ?as"
    using assms(5) by (auto split: option.splits)
  have "backlog B (ss_engine r) =
      map Inr (epacket EMessage (utf8 t) # map (epacket EMessage) ?as) @ concat (map (ws_items B) later)"
    using assms(7-9) bin [OF as(1)] ws_items_message(2) [OF assms(2,1,3)]
    by (simp add: backlog_def net_items_def packet_frames_def del: ws_items.simps)
  moreover have "list_all (\<lambda>q. is_message (e_id q)) (epacket EMessage (utf8 t) # map (epacket EMessage) ?as)"
    by (simp add: is_message_def list_all_iff)
  moreover have "spacket_try_from J (e_data (epacket EMessage (utf8 t))) = Inr (p\<lparr>s_attachments := None\<rparr>)"
    using assms(1,4) by (simp add: spacket_try_from_def utf8_scalars)
  moreover have "unat (s_count (p\<lparr>s_attachments := None\<rparr>)) = length (map (epacket EMessage) ?as)"
    using as(2) by simp
  ultimately have "\<exists>e'. ssocket_poll B U J r =
      (Ok (Some (if map (epacket EMessage) ?as = [] then p\<lparr>s_attachments := None\<rparr>
        else p\<lparr>s_attachments := Some (map e_data (map (epacket EMessage) ?as))\<rparr>)),
       ss_handle_packet (p\<lparr>s_attachments := None\<rparr>) (r\<lparr>ss_engine := e'\<rparr>))"
    using ssocket_poll_assembles [OF assms(6)] by fastforce
  moreover have "map e_data (map (epacket EMessage) xs) = xs" for xs
    by (simp add: comp_def)
  ultimately show ?thesis
    using assms(5) by (auto split: option.splits)
qed

text \<open>A socket whose server sends exactly these messages next.\<close>

definition receiving :: "ws_message list \<Rightarrow> 'u ssocket \<Rightarrow> bool" where
  "receiving frames r \<longleftrightarrow>
     es_connected (ss_engine r) \<and> (\<exists>v. es_transport (ss_engine r) = Websocket v) \<and>
     es_remaining (ss_engine r) = None \<and> ws_in (es_net (ss_engine r)) = map WsMsg frames"

definition plain_text :: "rstring \<Rightarrow> bool" where
  "plain_text s \<longleftrightarrow> list_all scalar s \<and> 30 \<notin> set s"

lemma encode_head_plain:
  "plain_text (s_nsp p) \<Longrightarrow> plain_text (encode_head p) \<and> encode_head p \<noteq> []"
proof -
  have "30 \<notin> set (decimal n)" for n
    using decimal_digits by (fastforce simp: is_ascii_digit_def)
  then show "plain_text (s_nsp p) \<Longrightarrow> plain_text (encode_head p) \<and> encode_head p \<noteq> []"
    using encode_head_scalars [of p]
    by (auto simp: plain_text_def encode_head_def u8_to_string_def i32_to_string_def split: option.splits)
qed

lemma end_to_end:
  assumes "encode_text oc p = Some t" "plain_text t" "t \<noteq> []"
    and "decode_text J t = Inr (p\<lparr>s_attachments := None\<rparr>)"
    and "case s_attachments p of None \<Rightarrow> s_count p = 0
      | Some as \<Rightarrow> as \<noteq> [] \<and> unat (s_count p) = length as \<and> list_all (\<lambda>a. a \<noteq> [] \<and> separator \<notin> set a) as"
    and "ready (length (packet_frames t p)) s"
  shows "\<exists>frames s'. ssocket_send oc B U p s = (Ok (), s') \<and>
    wire (es_net (ss_engine s')) = wire (es_net (ss_engine s)) @ map WsSend frames \<and>
    (\<forall>r :: 'v ssocket. receiving frames r \<longrightarrow> fst (ssocket_poll B' U' J r) = Ok (Some p))"
proof -
  have t: "list_all scalar t" "30 \<notin> set t" using assms(2) by (simp_all add: plain_text_def)
  from ssocket_send_frames [OF assms(1) t(1) assms(6)] obtain s' where
    s': "ssocket_send oc B U p s = (Ok (), s')"
    "wire (es_net (ss_engine s')) = wire (es_net (ss_engine s)) @ map WsSend (packet_frames t p)"
    by blast
  have "fst (ssocket_poll B' U' J r) = Ok (Some p)" if "receiving (packet_frames t p) r" for r :: "'v ssocket"
    using that ssocket_poll_frames [OF t(1) assms(3) t(2) assms(4,5), where r = r and later = "[]"]
    by (auto simp: receiving_def)
  with s' show ?thesis by blast
qed

text \<open>From one client to another, binary. Emitting an event with a binary payload over a websocket
  succeeds when the network takes the two messages, and whoever receives exactly those messages polls
  the very packet that was built, attachment included. The attachment must be non-empty and free of
  the byte \<open>0x1e\<close>, and the event's name must print as JSON without a brace.\<close>

theorem emit_binary_end_to_end:
  assumes "plain_text nsp" "nsp_ok nsp" "ready 2 s" "d \<noteq> []" "separator \<notin> set d"
    and "e = json_print J (json_string J (event_to_string ev))"
    and "e \<noteq> []" "plain_text e" "of_char CHR ''{'' \<notin> set e"
    and "json_canonical J (lit ''['' @ e @ lit '','' @ placeholder (lit ''0'') @ lit '']'')"
  shows "\<exists>frames s'. ssocket_emit oc B U J nsp ev (PBinary d) s = (Ok (), s') \<and>
    wire (es_net (ss_engine s')) = wire (es_net (ss_engine s)) @ map WsSend frames \<and>
    (\<forall>r :: 'v ssocket. receiving frames r \<longrightarrow>
       fst (ssocket_poll B' U' J r) = Ok (Some (spacket SBinaryEvent nsp (Some e) None 1 (Some [d]))))"
proof -
  let ?p = "spacket SBinaryEvent nsp (Some e) None 1 (Some [d])"
  have p: "build_packet_for_payload J (PBinary d) ev nsp None = ?p"
    by (simp add: build_packet_for_payload_def assms(6))
  let ?t = "encode_head ?p @ lit ''['' @ e @ lit '','' @ placeholder (lit ''0'') @ lit '']''"
  have sc: "list_all scalar nsp" "list_all scalar e"
    using assms(1,8) by (simp_all add: plain_text_def)
  have head: "plain_text (encode_head ?p)"
    using encode_head_plain [of ?p] assms(1) by (simp add: spacket_def)
  have dec: "encode_text oc ?p = Some ?t" "decode_text J ?t = Inr (?p\<lparr>s_attachments := None\<rparr>)"
    using decode_binary [where p = ?p and J = J and ev = e and as = "[d]"] assms(2,7,9,10) sc
    by (simp_all add: spacket_def is_binary_type_def id_ok_def)
  have "plain_text ?t"
    using head assms(8) by (simp add: plain_text_def placeholder_def scalar_def)
  moreover have "ready (length (packet_frames ?t ?p)) s"
    using assms(3) by (simp add: packet_frames_def spacket_def numeral_2_eq_2)
  moreover have "case s_attachments ?p of None \<Rightarrow> s_count ?p = 0
      | Some as \<Rightarrow> as \<noteq> [] \<and> unat (s_count ?p) = length as \<and> list_all (\<lambda>a. a \<noteq> [] \<and> separator \<notin> set a) as"
    using assms(4,5) by (simp add: spacket_def)
  moreover have "?t \<noteq> []" by simp
  ultimately show ?thesis
    unfolding ssocket_emit_def p using end_to_end [OF dec(1)] dec(2) by blast
qed

lemma ready_demo: "n \<le> 2 \<Longrightarrow> ready n (demo_ssocket es)"
  by (auto simp: ready_def demo_net_def le_Suc_eq numeral_2_eq_2)

theorem emit_binary_end_to_end_witness:
  "\<exists>frames s'. ssocket_emit True nibble64 demo_urls flat_json (lit ''/'') EvMessage (PBinary [3, 2]) (demo_ssocket [])
      = (Ok (), s') \<and>
    fst (ssocket_poll nibble64 demo_urls flat_json (demo_ssocket (map WsMsg frames))) =
      Ok (Some (spacket SBinaryEvent (lit ''/'') (Some (quote_json (lit ''message''))) None 1 (Some [[3, 2]])))"
proof -
  have one: "plain_text (lit ''/'')" "nsp_ok (lit ''/'')" "ready 2 (demo_ssocket [])" "[3, 2] \<noteq> ([] :: bytes)"
    "separator \<notin> set [3, 2]"
    "quote_json (lit ''message'') = json_print flat_json (json_string flat_json (event_to_string EvMessage))"
    by (simp_all add: plain_text_def nsp_ok_def starts_with_def scalar_def separator_def flat_json_def
        ready_demo quote_json_def)
  have two: "quote_json (lit ''message'') \<noteq> []" "plain_text (quote_json (lit ''message''))" "of_char CHR ''{'' \<notin> set (quote_json (lit ''message''))"
    "json_canonical flat_json (lit ''['' @ quote_json (lit ''message'') @ lit '','' @ placeholder (lit ''0'') @ lit '']'')"
    by (simp_all add: plain_text_def scalar_def flat_canonical quote_json_def)
  from emit_binary_end_to_end [OF one two, of True nibble64 demo_urls nibble64 demo_urls]
  obtain frames s' where
    "ssocket_emit True nibble64 demo_urls flat_json (lit ''/'') EvMessage (PBinary [3, 2]) (demo_ssocket []) = (Ok (), s')"
    "\<forall>r :: nat ssocket. receiving frames r \<longrightarrow> fst (ssocket_poll nibble64 demo_urls flat_json r) =
       Ok (Some (spacket SBinaryEvent (lit ''/'') (Some (quote_json (lit ''message''))) None 1 (Some [[3, 2]])))"
    by blast
  moreover have "receiving frames (demo_ssocket (map WsMsg frames))"
    by (simp add: receiving_def demo_net_def)
  ultimately show ?thesis by blast
qed

text \<open>The array a string payload is sent as.\<close>

definition event_array :: "sevent \<Rightarrow> rstring \<Rightarrow> rstring" where
  "event_array ev data = lit ''['' @ quote_json (event_to_string ev) @ lit '','' @ data @ lit '']''"

lemma emit_string_delivered:
  assumes "plain_text nsp" "nsp_ok nsp" "ready 1 s" "plain_text str" "plain_text (event_to_string ev)"
    and "data = (case json_parse J str of Inr _ \<Rightarrow> str | Inl _ \<Rightarrow> quote_json str)"
    and "json_canonical J (event_array ev data)"
  shows "\<exists>frames s'. ssocket_emit oc B U J nsp ev (PString str) s = (Ok (), s') \<and>
    wire (es_net (ss_engine s')) = wire (es_net (ss_engine s)) @ map WsSend frames \<and>
    (\<forall>r :: 'v ssocket. receiving frames r \<longrightarrow>
       fst (ssocket_poll B' U' J r) = Ok (Some (spacket SEvent nsp (Some (event_array ev data)) None 0 None)))"
proof -
  let ?p = "spacket SEvent nsp (Some (event_array ev data)) None 0 None"
  have p: "build_packet_for_payload J (PString str) ev nsp None = ?p"
    by (simp add: build_packet_for_payload_def assms(6) event_array_def split: sum.splits)
  let ?t = "encode_head ?p @ event_array ev data"
  have plain: "plain_text (event_array ev data)"
    using assms(4-6) by (auto simp: plain_text_def event_array_def quote_json_def scalar_def split: sum.splits)
  have start: "data_start (event_array ev data)"
    by (simp add: data_start_def event_array_def is_ascii_digit_def)
  have head: "plain_text (encode_head ?p)" "encode_head ?p \<noteq> []"
    using encode_head_plain [of ?p] assms(1) by (simp_all add: spacket_def)
  have dec: "encode_text oc ?p = Some ?t" "decode_text J ?t = Inr ?p"
    using decode_plain [where p = ?p and J = J] assms(1,2,7) plain start
    by (simp_all add: spacket_def is_binary_type_def id_ok_def plain_text_def)
  have "plain_text ?t" using head plain by (simp add: plain_text_def)
  moreover have "ready (length (packet_frames ?t ?p)) s"
    using assms(3) by (simp add: packet_frames_def spacket_def)
  moreover have "case s_attachments ?p of None \<Rightarrow> s_count ?p = 0
      | Some as \<Rightarrow> as \<noteq> [] \<and> unat (s_count ?p) = length as \<and> list_all (\<lambda>a. a \<noteq> [] \<and> separator \<notin> set a) as"
    by (simp add: spacket_def)
  moreover have "?t \<noteq> []" using head by simp
  moreover have "?p\<lparr>s_attachments := None\<rparr> = ?p" by (simp add: spacket_def)
  then have "decode_text J ?t = Inr (?p\<lparr>s_attachments := None\<rparr>)" using dec(2) by (simp only:)
  ultimately show ?thesis
    unfolding ssocket_emit_def p using end_to_end [OF dec(1)] by blast
qed

text \<open>From one client to another, text. Emitting a string payload over a websocket sends one
  message; whoever receives it polls an event packet whose data is the array of the event's name and
  the payload, the payload being taken as JSON when it is JSON and as a quoted string otherwise. The
  array must be JSON as \<open>serde_json\<close> prints it, which an unescaped quote in a payload that is not JSON
  prevents.\<close>

theorem emit_string_end_to_end:
  assumes "plain_text nsp" "nsp_ok nsp" "ready 1 s" "plain_text str" "plain_text (event_to_string ev)"
    and "data = (case json_parse J str of Inr _ \<Rightarrow> str | Inl _ \<Rightarrow> quote_json str)"
    and "json_canonical J (event_array ev data)"
  shows "\<exists>frames s'. ssocket_emit oc B U J nsp ev (PString str) s = (Ok (), s') \<and>
    wire (es_net (ss_engine s')) = wire (es_net (ss_engine s)) @ map WsSend frames \<and>
    (\<forall>r :: 'v ssocket. receiving frames r \<longrightarrow>
       fst (ssocket_poll B' U' J r) = Ok (Some (spacket SEvent nsp (Some (event_array ev data)) None 0 None)))"
  by (rule emit_string_delivered [OF assms])

theorem emit_string_end_to_end_witness:
  "\<exists>frames s'. ssocket_emit True nibble64 demo_urls flat_json (lit ''/'') EvMessage (PString (lit ''7'')) (demo_ssocket [])
      = (Ok (), s') \<and>
    fst (ssocket_poll nibble64 demo_urls flat_json (demo_ssocket (map WsMsg frames))) =
      Ok (Some (spacket SEvent (lit ''/'') (Some (event_array EvMessage (lit ''7''))) None 0 None))"
proof -
  have one: "plain_text (lit ''/'')" "nsp_ok (lit ''/'')" "ready 1 (demo_ssocket [])" "plain_text (lit ''7'')"
    "plain_text (event_to_string EvMessage)"
    "lit ''7'' = (case json_parse flat_json (lit ''7'') of Inr _ \<Rightarrow> lit ''7'' | Inl _ \<Rightarrow> quote_json (lit ''7''))"
    by (simp_all add: plain_text_def nsp_ok_def starts_with_def scalar_def flat_json_def ready_demo)
  have two: "json_canonical flat_json (event_array EvMessage (lit ''7''))"
    by (simp add: flat_canonical event_array_def)
  from emit_string_end_to_end [OF one two, of True nibble64 demo_urls nibble64 demo_urls]
  obtain frames s' where
    "ssocket_emit True nibble64 demo_urls flat_json (lit ''/'') EvMessage (PString (lit ''7'')) (demo_ssocket []) = (Ok (), s')"
    "\<forall>r :: nat ssocket. receiving frames r \<longrightarrow> fst (ssocket_poll nibble64 demo_urls flat_json r) =
       Ok (Some (spacket SEvent (lit ''/'') (Some (event_array EvMessage (lit ''7''))) None 0 None))"
    by blast
  moreover have "receiving frames (demo_ssocket (map WsMsg frames))"
    by (simp add: receiving_def demo_net_def)
  ultimately show ?thesis by blast
qed

text \<open>A socket that is not open is silent. After \<open>disconnect\<close>, whatever is sent is refused with
  \<open>IllegalActionBeforeOpen\<close> and nothing of it reaches the network.\<close>

theorem ssocket_disconnect_silent:
  assumes "ssocket_disconnect B U s = (Ok u, s')"
  shows "fst (run_all (ssocket_send oc B U) ps s') = replicate (length ps) (Err SIllegalActionBeforeOpen) \<and>
    wire (es_net (ss_engine (snd (run_all (ssocket_send oc B U) ps s')))) = wire (es_net (ss_engine s'))"
  using ssock.closed_silent [OF assms] by blast

theorem ssocket_disconnect_silent_witness:
  "\<exists>s'. ssocket_disconnect nibble64 demo_urls \<lparr>ss_engine = (demo_socket [])\<lparr>es_connected := False\<rparr>, ss_connected = True\<rparr>
       = (Ok (), s') \<and>
     fst (run_all (ssocket_send True nibble64 demo_urls) [demo_binary] s') = [Err SIllegalActionBeforeOpen]"
proof -
  let ?s = "\<lparr>ss_engine = (demo_socket [])\<lparr>es_connected := False\<rparr>, ss_connected = True\<rparr>"
  have run: "ssocket_disconnect nibble64 demo_urls ?s = (Ok (), ?s\<lparr>ss_connected := False\<rparr>)"
    by (simp add: ssocket_disconnect_def is_engineio_connected_def seq_def)
  from ssocket_disconnect_silent [OF run, of True "[demo_binary]"] run show ?thesis by auto
qed

section \<open>Well-formed packets\<close>

text \<open>What a poll returns is well-formed and carries as many attachments as it announces.\<close>

definition wf_received :: "spacket \<Rightarrow> bool" where
  "wf_received p \<longleftrightarrow> wf_packet p \<and>
     length (case s_attachments p of Some as \<Rightarrow> as | None \<Rightarrow> []) = unat (s_count p)"

lemma read_attachments_length:
  "read_attachments B U n as s = (Ok bs, s') \<Longrightarrow> length bs = length as + n"
  by (induction n arbitrary: as s) (fastforce elim!: seq_OkE split: option.splits if_splits)+

lemma spacket_try_from_wf:
  assumes "spacket_try_from J bs = Inr p"
  shows "wf_packet p \<and> s_attachments p = None"
proof -
  obtain cs where cs: "from_utf8 bs = Some cs" "decode_text J cs = Inr p"
    using assms by (auto simp: spacket_try_from_def split: option.splits)
  with decode_text_wf [OF cs(2)] from_utf8_sound(1) [OF cs(1)] show ?thesis by (simp add: list_all_iff)
qed

lemma handle_engineio_packet_wf:
  assumes "handle_engineio_packet B U J q s = (Ok p, s')"
  shows "wf_received p"
proof -
  obtain sp where sp: "spacket_try_from J (e_data q) = Inr sp"
    using assms by (auto simp: handle_engineio_packet_def split: sum.splits)
  then have "wf_packet sp \<and> s_attachments sp = None" by (rule spacket_try_from_wf)
  with assms sp show ?thesis
    by (auto simp: handle_engineio_packet_def wf_received_def wf_packet_def word_gt_0
        dest!: read_attachments_length elim!: seq_OkE split: if_splits)
qed

text \<open>C9: every packet a poll returns is well-formed, whatever bytes the server sends: its namespace starts
  with a slash and has no comma, its id is not negative, only binary packets announce attachments, and
  a packet carries exactly as many attachments as it announces.\<close>

theorem polled_packet_wf:
  "ssocket_poll B U J s = (Ok (Some p), s') \<Longrightarrow> wf_received p"
proof (induction B U J s rule: ssocket_poll.induct)
  case (1 B U J s)
  obtain q e where q: "eclient_poll B U (ss_engine s) = (Ok (Some q), e)"
    using "1.prems" by (subst (asm) ssocket_poll.simps) (auto split: prod.splits outcome.splits option.splits)
  show ?case
  proof (cases "is_message (e_id q)")
    case True
    with q "1.prems" obtain s2 where "handle_engineio_packet B U J q (s\<lparr>ss_engine := e\<rparr>) = (Ok p, s2)"
      by (subst (asm) ssocket_poll.simps) (auto elim!: seq_OkE)
    then show ?thesis by (rule handle_engineio_packet_wf)
  next
    case False
    with q "1.prems" have "ssocket_poll B U J (s\<lparr>ss_engine := e\<rparr>) = (Ok (Some p), s')"
      by (subst (asm) ssocket_poll.simps) simp
    with "1.IH" [OF q [symmetric] refl refl False] show ?thesis by simp
  qed
qed

theorem polled_packet_wf_witness: "wf_received demo_binary"
proof (rule demo_attachment_frames)
  fix p q s sp
  assume prem: "es_connected (ss_engine s)" "backlog nibble64 (ss_engine s) = map Inr (p # [q]) @ []"
    "list_all (\<lambda>q. is_message (e_id q)) (p # [q])" "spacket_try_from flat_json (e_data p) = Inr sp"
    "unat (s_count sp) = length [q]"
    and result: "sp\<lparr>s_attachments := Some [e_data q]\<rparr> = demo_binary"
    "\<And>e'. ss_handle_packet sp (s\<lparr>ss_engine := e'\<rparr>) = (s :: nat ssocket)\<lparr>ss_engine := e'\<rparr>"
  from ssocket_poll_assembles [OF prem, of demo_urls] result polled_packet_wf show ?thesis by fastforce
qed

end
