(* ===== verification/Raw_Client.thy ===== *)
theory Raw_Client
  imports Sio_Socket Engine_Client
begin

text \<open>
  \<open>socketio/src/client/raw_client.rs\<close> and \<open>callback.rs\<close>: the client of one connection, its callbacks
  and its outstanding acknowledgements.

  A user callback is a number; what it does is a script, the list of client calls it makes, which the
  parameter \<open>sl_script\<close> gives as a function of all calls made so far (the current one last), so that a
  callback can keep state. A callback ignores the results of its calls. The history of calls is part
  of the state.

  A mutex is locked for a lexical scope: the callback tables while a callback of theirs runs, the
  outstanding acknowledgements while an acknowledgement callback runs. A thread that locks a mutex it
  holds does not go on (\<open>Block\<close>). For the acknowledgements the lock is a flag of the state; the tables
  are only locked by \<open>callback\<close>, and the only call that a script can make and that needs them is
  \<open>disconnect\<close>, so there the model passes \<open>relock\<close> for the callback that could not start.
\<close>

section \<open>State\<close>

datatype action =
    AEmit sevent spayload
  | AEmitWithAck sevent spayload nat nat
  | ADisconnect

datatype call = CallOn nat spayload | CallAny nat sevent spayload | CallAck nat spayload

text \<open>The libraries and parameters of the socket.io crate: overflow checks, the libraries of the engine.io
  crate, JSON, the rendering of errors (derived by \<open>thiserror\<close>), the user's callbacks, and the answers of
  \<open>next_backoff()\<close> on an \<open>ExponentialBackoff\<close> with a given initial and maximal interval: how long to wait,
  or \<open>None\<close> once its \<open>max_elapsed_time\<close> is over.\<close>

record ('u, 'j) slib =
  sl_oc :: bool
  sl_engine :: "'u elib"
  sl_json :: "'j jsonlib"
  sl_display :: "serror \<Rightarrow> rstring"
  sl_script :: "call list \<Rightarrow> action list"
  sl_backoff :: "u64 \<Rightarrow> u64 \<Rightarrow> nat \<Rightarrow> nat option"

abbreviation sl_b64 :: "('u, 'j) slib \<Rightarrow> base64" where
  "sl_b64 L \<equiv> lib_b64 (sl_engine L)"

abbreviation sl_url :: "('u, 'j) slib \<Rightarrow> 'u urllib" where
  "sl_url L \<equiv> lib_url (sl_engine L)"

record ack =
  ack_id :: i32
  ack_timeout :: nat
  ack_started :: nat
  ack_callback :: nat

text \<open>\<open>rw_time\<close> are the readings of the clock to come, \<open>rw_rand\<close> the numbers of the random generator;
  both are consumed from index 0 on.\<close>

record ('u, 'j) raw =
  rw_socket :: "'u ssocket"
  rw_on :: "(sevent \<times> nat) list"
  rw_on_any :: "nat option"
  rw_acks :: "ack list"
  rw_nsp :: rstring
  rw_auth :: "'j option"
  rw_acks_locked :: bool
  rw_calls :: "call list"
  rw_time :: "nat \<Rightarrow> nat"
  rw_rand :: "nat \<Rightarrow> nat"

type_synonym ('u, 'j, 'a) raw_proc = "(('u, 'j) raw, serror, 'a) proc"

definition raw_new ::
  "'u ssocket \<Rightarrow> rstring \<Rightarrow> (sevent \<times> nat) list \<Rightarrow> nat option \<Rightarrow> 'j option \<Rightarrow>
   (nat \<Rightarrow> nat) \<Rightarrow> (nat \<Rightarrow> nat) \<Rightarrow> ('u, 'j) raw" where
  "raw_new s nsp on on_any auth time rand =
     \<lparr>rw_socket = s, rw_on = on, rw_on_any = on_any, rw_acks = [], rw_nsp = nsp, rw_auth = auth,
      rw_acks_locked = False, rw_calls = [], rw_time = time, rw_rand = rand\<rparr>"

definition on_socket :: "('u ssocket, serror, 'a) proc \<Rightarrow> ('u, 'j, 'a) raw_proc" where
  "on_socket m s = (case m (rw_socket s) of (r, t) \<Rightarrow> (r, s\<lparr>rw_socket := t\<rparr>))"

text \<open>\<open>Instant::now()\<close> and \<open>gen_range(0..999)\<close>.\<close>

definition read_clock :: "('u, 'j) raw \<Rightarrow> nat \<times> ('u, 'j) raw" where
  "read_clock s = (rw_time s 0, s\<lparr>rw_time := (\<lambda>n. rw_time s (Suc n))\<rparr>)"

definition draw_id :: "('u, 'j) raw \<Rightarrow> i32 \<times> ('u, 'j) raw" where
  "draw_id s = (word_of_nat (rw_rand s 0 mod 999), s\<lparr>rw_rand := (\<lambda>n. rw_rand s (Suc n))\<rparr>)"

section \<open>Operations\<close>

definition raw_connect :: "('u, 'j) slib \<Rightarrow> ('u, 'j, unit) raw_proc" where
  "raw_connect L s =
     seq (on_socket (ssocket_connect (sl_b64 L) (sl_url L))) (\<lambda>_.
       let auth = map_option (json_print (sl_json L)) (rw_auth s);
           open_packet = spacket SConnect (rw_nsp s) auth None 0 None
       in on_socket (ssocket_send (sl_oc L) (sl_b64 L) (sl_url L) open_packet)) s"

definition raw_emit :: "('u, 'j) slib \<Rightarrow> sevent \<Rightarrow> spayload \<Rightarrow> ('u, 'j, unit) raw_proc" where
  "raw_emit L event data s =
     on_socket (ssocket_emit (sl_oc L) (sl_b64 L) (sl_url L) (sl_json L) (rw_nsp s) event data) s"

definition raw_emit_with_ack ::
  "('u, 'j) slib \<Rightarrow> sevent \<Rightarrow> spayload \<Rightarrow> nat \<Rightarrow> nat \<Rightarrow> ('u, 'j, unit) raw_proc" where
  "raw_emit_with_ack L event data timeout callback s =
     (let (i, s1) = draw_id s;
          packet = build_packet_for_payload (sl_json L) data event (rw_nsp s) (Some i);
          (now, s2) = read_clock s1;
          ack = \<lparr>ack_id = i, ack_timeout = timeout, ack_started = now, ack_callback = callback\<rparr>
      in if rw_acks_locked s2 then (Block, s2)
         else on_socket (ssocket_send (sl_oc L) (sl_b64 L) (sl_url L) packet)
           (s2\<lparr>rw_acks := rw_acks s2 @ [ack]\<rparr>))"

text \<open>\<open>disconnect\<close>, with the call of the close callback as a parameter: it cannot start inside a
  callback of the same tables.\<close>

definition raw_disconnect_with ::
  "('u, 'j) slib \<Rightarrow> ('u, 'j, unit) raw_proc \<Rightarrow> ('u, 'j, unit) raw_proc" where
  "raw_disconnect_with L close s =
     seq (ignore (on_socket (ssocket_send (sl_oc L) (sl_b64 L) (sl_url L)
            (spacket SDisconnect (rw_nsp s) None None 0 None)))) (\<lambda>_.
     seq (on_socket (ssocket_disconnect (sl_b64 L) (sl_url L))) (\<lambda>_.
     ignore close)) s"

definition relock :: "('u, 'j, unit) raw_proc" where
  "relock s = (Block, s)"

fun run_action :: "('u, 'j) slib \<Rightarrow> ('u, 'j, unit) raw_proc \<Rightarrow> action \<Rightarrow> ('u, 'j, unit) raw_proc" where
  "run_action L close (AEmit event data) = ignore (raw_emit L event data)"
| "run_action L close (AEmitWithAck event data timeout callback) =
     ignore (raw_emit_with_ack L event data timeout callback)"
| "run_action L close ADisconnect = ignore (raw_disconnect_with L close)"

fun run_actions ::
  "('u, 'j) slib \<Rightarrow> ('u, 'j, unit) raw_proc \<Rightarrow> action list \<Rightarrow> ('u, 'j, unit) raw_proc" where
  "run_actions L close [] = give (Ok ())"
| "run_actions L close (a # as) = seq (run_action L close a) (\<lambda>_. run_actions L close as)"

text \<open>A call of a user callback: it is recorded, then its script runs.\<close>

definition run_call :: "('u, 'j) slib \<Rightarrow> ('u, 'j, unit) raw_proc \<Rightarrow> call \<Rightarrow> ('u, 'j, unit) raw_proc" where
  "run_call L close c s =
     run_actions L close (sl_script L (rw_calls s @ [c])) (s\<lparr>rw_calls := rw_calls s @ [c]\<rparr>)"

definition run_call_option ::
  "('u, 'j) slib \<Rightarrow> ('u, 'j, unit) raw_proc \<Rightarrow> call option \<Rightarrow> ('u, 'j, unit) raw_proc" where
  "run_call_option L close c = (case c of Some c \<Rightarrow> run_call L close c | None \<Rightarrow> give (Ok ()))"

text \<open>Which callbacks an event calls: its own, and for messages and custom events the one for any.\<close>

definition own_call :: "(sevent \<times> nat) list \<Rightarrow> sevent \<Rightarrow> spayload \<Rightarrow> call option" where
  "own_call on event payload = map_option (\<lambda>cb. CallOn cb payload) (map_of on event)"

definition any_call :: "nat option \<Rightarrow> sevent \<Rightarrow> spayload \<Rightarrow> call option" where
  "any_call on_any event payload =
     (case event of
        EvMessage \<Rightarrow> map_option (\<lambda>cb. CallAny cb event payload) on_any
      | EvCustom _ \<Rightarrow> map_option (\<lambda>cb. CallAny cb event payload) on_any
      | _ \<Rightarrow> None)"

definition raw_callback :: "('u, 'j) slib \<Rightarrow> sevent \<Rightarrow> spayload \<Rightarrow> ('u, 'j, unit) raw_proc" where
  "raw_callback L event payload s =
     seq (run_call_option L relock (own_call (rw_on s) event payload)) (\<lambda>_.
     run_call_option L relock (any_call (rw_on_any s) event payload)) s"

definition raw_disconnect :: "('u, 'j) slib \<Rightarrow> ('u, 'j, unit) raw_proc" where
  "raw_disconnect L = raw_disconnect_with L (raw_callback L EvClose (PString []))"

section \<open>Incoming packets\<close>

text \<open>One entry of the list of acknowledgements that matches: its callback gets the data, then the
  first attachment, unless the time is over.\<close>

definition call_ack :: "('u, 'j) slib \<Rightarrow> spacket \<Rightarrow> ack \<Rightarrow> ('u, 'j, unit) raw_proc" where
  "call_ack L p ack s =
     (let close = raw_callback L EvClose (PString []);
          (now, s1) = read_clock s
      in if now - ack_started ack < ack_timeout ack then
           seq (run_call_option L close (map_option (\<lambda>d. CallAck (ack_callback ack) (PString d)) (s_data p)))
             (\<lambda>_. run_call_option L close
               (case s_attachments p of
                  Some (payload # _) \<Rightarrow> Some (CallAck (ack_callback ack) (PBinary payload))
                | _ \<Rightarrow> None)) s1
         else (Ok (), s1))"

fun ack_loop ::
  "('u, 'j) slib \<Rightarrow> spacket \<Rightarrow> i32 \<Rightarrow> nat \<Rightarrow> ack list \<Rightarrow> nat list \<Rightarrow> ('u, 'j, nat list) raw_proc" where
  "ack_loop L p i index [] to_be_removed = give (Ok to_be_removed)"
| "ack_loop L p i index (ack # acks) to_be_removed =
     (if ack_id ack = i then
        seq (call_ack L p ack) (\<lambda>_. ack_loop L p i (Suc index) acks (to_be_removed @ [index]))
      else ack_loop L p i (Suc index) acks to_be_removed)"

text \<open>\<open>Vec::remove\<close> panics out of range; \<open>None\<close> is the panic.\<close>

fun remove_indices :: "nat list \<Rightarrow> 'a list \<Rightarrow> 'a list option" where
  "remove_indices [] xs = Some xs"
| "remove_indices (i # is) xs =
     (if i < length xs then remove_indices is (take i xs @ drop (Suc i) xs) else None)"

definition handle_ack :: "('u, 'j) slib \<Rightarrow> spacket \<Rightarrow> ('u, 'j, unit) raw_proc" where
  "handle_ack L p s =
     (case s_id p of
        None \<Rightarrow> (Ok (), s)
      | Some i \<Rightarrow>
          if rw_acks_locked s then (Block, s)
          else seq (ack_loop L p i 0 (rw_acks s) []) (\<lambda>to_be_removed s1.
            let s2 = s1\<lparr>rw_acks_locked := False\<rparr> in
            case remove_indices to_be_removed (rw_acks s2) of
              None \<Rightarrow> (Panic, s2)
            | Some acks \<Rightarrow> (Ok (), s2\<lparr>rw_acks := acks\<rparr>)) (s\<lparr>rw_acks_locked := True\<rparr>))"

definition handle_binary_event :: "('u, 'j) slib \<Rightarrow> spacket \<Rightarrow> ('u, 'j, unit) raw_proc" where
  "handle_binary_event L p =
     (let event = (case s_data p of
            Some string_data \<Rightarrow> event_of_string (filter (\<lambda>c. c \<noteq> of_char CHR 0x22) string_data)
          | None \<Rightarrow> EvMessage)
      in case s_attachments p of
           Some (binary_payload # _) \<Rightarrow> raw_callback L event (PBinary binary_payload)
         | _ \<Rightarrow> give (Ok ()))"

definition handle_event :: "('u, 'j) slib \<Rightarrow> spacket \<Rightarrow> ('u, 'j, unit) raw_proc" where
  "handle_event L p =
     (case s_data p of
        None \<Rightarrow> give (Ok ())
      | Some data \<Rightarrow>
          (case json_parse (sl_json L) data of
             Inl _ \<Rightarrow> give (Ok ())
           | Inr v \<Rightarrow>
               (case json_as_array (sl_json L) v of
                  None \<Rightarrow> give (Ok ())
                | Some contents \<Rightarrow>
                    let event = (if length contents > 1 then
                          event_of_string (case json_as_string (sl_json L) (hd contents) of
                              Some ev \<Rightarrow> ev
                            | None \<Rightarrow> lit ''message'')
                        else EvMessage)
                    in case contents of
                         [] \<Rightarrow> give Panic
                       | [c] \<Rightarrow> raw_callback L event (PString (json_print (sl_json L) c))
                       | _ # c # _ \<Rightarrow> raw_callback L event (PString (json_print (sl_json L) c)))))"

text \<open>\<open>if let Err(err) = m { self.callback(&Event::Error, err.to_string())? }\<close>, with or without
  returning the error.\<close>

definition report :: "('u, 'j) slib \<Rightarrow> bool \<Rightarrow> ('u, 'j, unit) raw_proc \<Rightarrow> ('u, 'j, unit) raw_proc" where
  "report L return_err m s =
     (case m s of
        (Err err, s1) \<Rightarrow>
          seq (raw_callback L EvError (PString (sl_display L err)))
            (\<lambda>_. give (if return_err then Err err else Ok ())) s1
      | r \<Rightarrow> r)"

definition raw_handle_packet :: "('u, 'j) slib \<Rightarrow> spacket \<Rightarrow> ('u, 'j, unit) raw_proc" where
  "raw_handle_packet L p s =
     (if s_nsp p = rw_nsp s then
        (case s_type p of
           SAck \<Rightarrow> report L True (handle_ack L p) s
         | SBinaryAck \<Rightarrow> report L True (handle_ack L p) s
         | SBinaryEvent \<Rightarrow> report L False (handle_binary_event L p) s
         | SConnect \<Rightarrow> raw_callback L EvConnect (PString []) s
         | SDisconnect \<Rightarrow> raw_callback L EvClose (PString []) s
         | SConnectError \<Rightarrow>
             raw_callback L EvError (PString (lit ''Received an ConnectError frame: '' @
               (case s_data p of
                  Some d \<Rightarrow> d
                | None \<Rightarrow> quote_json (lit ''No error message provided'')))) s
         | SEvent \<Rightarrow> report L False (handle_event L p) s)
      else (Ok (), s))"

section \<open>Polling\<close>

definition raw_backlog :: "('u, 'j) slib \<Rightarrow> ('u, 'j) raw \<Rightarrow> nat" where
  "raw_backlog L s = length (backlog (sl_b64 L) (ss_engine (rw_socket s)))"

lemma read_attachments_backlog:
  "read_attachments B U n as s = (Ok bs, s') \<Longrightarrow>
     length (backlog B (ss_engine s')) \<le> length (backlog B (ss_engine s))"
proof (induction n arbitrary: as s)
  case (Suc n)
  then obtain p s1 where "on_engine (eclient_poll B U) s = (Ok (Some p), s1)"
    and r: "read_attachments B U n (as @ [e_data p]) s1 = (Ok bs, s')"
    by (auto elim!: seq_OkE split: option.splits if_splits)
  then have "eclient_poll B U (ss_engine s) = (Ok (Some p), ss_engine s1)"
    by (simp add: on_engine_Ok)
  from eclient_poll_backlog [OF this] Suc.IH [OF r] show ?case by simp
qed simp

lemma handle_engineio_packet_backlog:
  "handle_engineio_packet B U J p s = (Ok sp, s') \<Longrightarrow>
     length (backlog B (ss_engine s')) \<le> length (backlog B (ss_engine s))"
  by (auto simp: handle_engineio_packet_def dest: read_attachments_backlog elim!: seq_OkE
      split: sum.splits if_splits)

lemma ss_handle_packet_engine [simp]: "ss_engine (ss_handle_packet p s) = ss_engine s"
  by (simp add: ss_handle_packet_def split: spacket_id.splits)

lemma ssocket_poll_backlog:
  "ssocket_poll B U J s = (Ok (Some p), s') \<Longrightarrow>
     length (backlog B (ss_engine s')) < length (backlog B (ss_engine s))"
proof (induction B U J s rule: ssocket_poll.induct)
  case (1 B U J s)
  obtain q e where q: "eclient_poll B U (ss_engine s) = (Ok (Some q), e)"
    using "1.prems" by (subst (asm) ssocket_poll.simps) (auto split: prod.splits outcome.splits option.splits)
  have lt: "length (backlog B e) < length (backlog B (ss_engine s))"
    using eclient_poll_backlog [OF q] by simp
  show ?case
  proof (cases "is_message (e_id q)")
    case True
    with q "1.prems" obtain s2 where "handle_engineio_packet B U J q (s\<lparr>ss_engine := e\<rparr>) = (Ok p, s2)"
      "s' = ss_handle_packet p s2"
      by (subst (asm) ssocket_poll.simps) (auto elim!: seq_OkE)
    with handle_engineio_packet_backlog [of B U J q "s\<lparr>ss_engine := e\<rparr>"] lt show ?thesis by fastforce
  next
    case False
    with q "1.prems" have "ssocket_poll B U J (s\<lparr>ss_engine := e\<rparr>) = (Ok (Some p), s')"
      by (subst (asm) ssocket_poll.simps) simp
    from "1.IH" [OF q [symmetric] refl refl False this] lt show ?thesis by simp
  qed
qed

lemma on_socket_poll_backlog:
  "(Ok (Some p), s1) = on_socket (ssocket_poll (sl_b64 L) U J) s \<Longrightarrow> raw_backlog L s1 < raw_backlog L s"
  by (auto simp: on_socket_def raw_backlog_def split: prod.splits dest: ssocket_poll_backlog)

function raw_poll :: "('u, 'j) slib \<Rightarrow> ('u, 'j, spacket option) raw_proc" where
  "raw_poll L s =
     (case on_socket (ssocket_poll (sl_b64 L) (sl_url L) (sl_json L)) s of
        (Err err, s1) \<Rightarrow>
          seq (raw_callback L EvError (PString (sl_display L err))) (\<lambda>_. give (Err err)) s1
      | (Ok (Some packet), s1) \<Rightarrow>
          if s_nsp packet = rw_nsp s1 then
            seq (raw_handle_packet L packet) (\<lambda>_. give (Ok (Some packet))) s1
          else raw_poll L s1
      | (Ok None, s1) \<Rightarrow> (Ok None, s1)
      | (Panic, s1) \<Rightarrow> (Panic, s1)
      | (Block, s1) \<Rightarrow> (Block, s1))"
  by pat_completeness auto
termination
  by (relation "measure (\<lambda>(L, s). raw_backlog L s)") (auto dest: on_socket_poll_backlog)

declare raw_poll.simps [simp del]

section \<open>What callbacks can and cannot change\<close>

text \<open>The tables, the namespace and the auth data never change; the acknowledgements only by
  \<open>emit_with_ack\<close>, which does not get past a held lock.\<close>

definition same_tables :: "('u, 'j) raw \<Rightarrow> ('u, 'j) raw \<Rightarrow> bool" where
  "same_tables s t \<longleftrightarrow> rw_on t = rw_on s \<and> rw_on_any t = rw_on_any s \<and> rw_nsp t = rw_nsp s \<and>
     rw_auth t = rw_auth s \<and> rw_acks_locked t = rw_acks_locked s \<and>
     (rw_acks_locked s \<longrightarrow> rw_acks t = rw_acks s)"

lemma same_tables_refl [simp]: "same_tables s s"
  by (simp add: same_tables_def)

lemma same_tables_trans: "same_tables s t \<Longrightarrow> same_tables t u \<Longrightarrow> same_tables s u"
  by (simp add: same_tables_def)

lemma keeps_on_socket: "keeps (same_tables s0) (on_socket m)"
  by (rule keepsI) (simp add: on_socket_def same_tables_def split: prod.splits)

lemma keeps_relock: "keeps (same_tables s0) relock"
  by (rule keepsI) (simp add: relock_def)

lemma keeps_emit_with_ack: "keeps (same_tables s0) (raw_emit_with_ack L e d t cb)"
  by (rule keepsI)
    (auto simp: raw_emit_with_ack_def draw_id_def read_clock_def on_socket_def same_tables_def Let_def
      split: prod.splits)

lemma keeps_disconnect_with:
  assumes "keeps (same_tables s0) close"
  shows "keeps (same_tables s0) (raw_disconnect_with L close)"
proof (rule keepsI)
  fix s :: "('a, 'b) raw" assume s: "same_tables s0 s"
  have "keeps (same_tables s0) (seq (ignore (on_socket (ssocket_send (sl_oc L) (sl_b64 L) (sl_url L)
            (spacket SDisconnect nsp None None 0 None)))) (\<lambda>_.
     seq (on_socket (ssocket_disconnect (sl_b64 L) (sl_url L))) (\<lambda>_. ignore close)))" for nsp
    by (intro keeps_seq keeps_ignore keeps_on_socket assms)
  from keepsD [OF this s] show "same_tables s0 (snd (raw_disconnect_with L close s))"
    by (simp add: raw_disconnect_with_def)
qed

lemma keeps_raw_emit: "keeps (same_tables s0) (raw_emit L e d)"
  by (rule keepsI) (simp add: raw_emit_def keepsD [OF keeps_on_socket])

lemma keeps_run_action:
  assumes "keeps (same_tables s0) close"
  shows "keeps (same_tables s0) (run_action L close a)"
  by (cases a; simp only: run_action.simps)
    (intro keeps_ignore keeps_raw_emit keeps_emit_with_ack keeps_disconnect_with assms)+

lemma keeps_run_actions:
  assumes "keeps (same_tables s0) close"
  shows "keeps (same_tables s0) (run_actions L close as)"
proof (induction as)
  case Nil
  show ?case by (simp add: keeps_def)
next
  case (Cons a as)
  then show ?case by (simp only: run_actions.simps) (intro keeps_seq keeps_run_action assms)
qed

lemma keeps_run_call_option:
  assumes "keeps (same_tables s0) close"
  shows "keeps (same_tables s0) (run_call_option L close c)"
proof (rule keepsI)
  fix s :: "('a, 'b) raw" assume s: "same_tables s0 s"
  show "same_tables s0 (snd (run_call_option L close c s))"
    using s by (cases c)
      (auto simp: run_call_option_def run_call_def same_tables_def
        intro!: keepsD [OF keeps_run_actions [OF assms], unfolded same_tables_def])
qed

lemma keeps_raw_callback: "keeps (same_tables s0) (raw_callback L e p)"
proof (rule keepsI)
  fix s :: "('a, 'b) raw" assume s: "same_tables s0 s"
  have "keeps (same_tables s0) (seq (run_call_option L relock c) (\<lambda>_. run_call_option L relock c'))" for c c'
    by (intro keeps_seq keeps_run_call_option keeps_relock)
  from keepsD [OF this s] show "same_tables s0 (snd (raw_callback L e p s))"
    by (simp add: raw_callback_def)
qed

lemma keeps_call_ack: "keeps (same_tables s0) (call_ack L p ack)"
proof (rule keepsI)
  fix s :: "('a, 'b) raw" assume s: "same_tables s0 s"
  let ?close = "raw_callback L EvClose (PString [])"
  have "keeps (same_tables s0) (seq (run_call_option L ?close c) (\<lambda>_. run_call_option L ?close c'))" for c c'
    by (intro keeps_seq keeps_run_call_option keeps_raw_callback)
  then have run: "same_tables s0 (snd (seq (run_call_option L ?close c) (\<lambda>_. run_call_option L ?close c') t))"
    if "same_tables s0 t" for c c' t
    using that by (rule keepsD)
  have "same_tables s0 (snd (read_clock s))"
    using s by (simp add: read_clock_def same_tables_def)
  then show "same_tables s0 (snd (call_ack L p ack s))"
    by (auto simp: call_ack_def Let_def run split: prod.splits)
qed

lemma keeps_ack_loop: "keeps (same_tables s0) (ack_loop L p i k acks r)"
proof (induction acks arbitrary: k r)
  case Nil
  show ?case by (simp add: keeps_def)
next
  case (Cons a acks)
  then show ?case
    by (simp only: ack_loop.simps split: if_split) (intro conjI impI keeps_seq keeps_call_ack; simp)
qed

section \<open>Which callbacks run\<close>

text \<open>Inside a callback of the tables nothing else is called: \<open>disconnect\<close> cannot start another one.\<close>

lemma keeps_calls_on_socket: "keeps (\<lambda>s. rw_calls s = c) (on_socket m)"
  by (rule keepsI) (simp add: on_socket_def split: prod.splits)

lemma keeps_calls_disconnect: "keeps (\<lambda>s. rw_calls s = c) (raw_disconnect_with L relock)"
proof (rule keepsI)
  fix s :: "('a, 'b) raw" assume s: "rw_calls s = c"
  have "keeps (\<lambda>s. rw_calls s = c) (seq (ignore (on_socket (ssocket_send (sl_oc L) (sl_b64 L) (sl_url L)
            (spacket SDisconnect nsp None None 0 None)))) (\<lambda>_.
     seq (on_socket (ssocket_disconnect (sl_b64 L) (sl_url L))) (\<lambda>_. ignore (relock :: ('a, 'b, unit) raw_proc))))" for nsp
    by (intro keeps_seq keeps_ignore keeps_calls_on_socket) (simp add: keeps_def relock_def)
  from keepsD [OF this s] show "rw_calls (snd (raw_disconnect_with L relock s)) = c"
    by (simp add: raw_disconnect_with_def)
qed

lemma keeps_calls_run_action: "keeps (\<lambda>s. rw_calls s = c) (run_action L relock a)"
proof (cases a)
  case (AEmit e d)
  have "keeps (\<lambda>s. rw_calls s = c) (raw_emit L e d)"
    by (rule keepsI) (simp add: raw_emit_def keepsD [OF keeps_calls_on_socket])
  with AEmit show ?thesis by (simp only: run_action.simps) (rule keeps_ignore)
next
  case (AEmitWithAck e d t cb)
  have "keeps (\<lambda>s. rw_calls s = c) (raw_emit_with_ack L e d t cb)"
    by (rule keepsI)
      (auto simp: raw_emit_with_ack_def draw_id_def read_clock_def on_socket_def Let_def split: prod.splits)
  with AEmitWithAck show ?thesis by (simp only: run_action.simps) (rule keeps_ignore)
next
  case ADisconnect
  then show ?thesis by (simp only: run_action.simps) (rule keeps_ignore [OF keeps_calls_disconnect])
qed

lemma keeps_calls_run_actions: "keeps (\<lambda>s. rw_calls s = c) (run_actions L relock as)"
proof (induction as)
  case Nil
  show ?case by (simp add: keeps_def)
next
  case (Cons a as)
  then show ?case by (simp only: run_actions.simps) (intro keeps_seq keeps_calls_run_action)
qed

lemma run_call_calls: "rw_calls (snd (run_call_option L relock c s)) = rw_calls s @ (case c of Some c \<Rightarrow> [c] | None \<Rightarrow> [])"
  using keepsD [OF keeps_calls_run_actions [of "rw_calls s @ [the c]" L]]
  by (cases c) (simp_all add: run_call_option_def run_call_def)

text \<open>A callback that comes to its end has called exactly the callbacks the tables name.\<close>

definition expected_calls :: "('u, 'j) raw \<Rightarrow> sevent \<Rightarrow> spayload \<Rightarrow> call list" where
  "expected_calls s event payload =
     (case own_call (rw_on s) event payload of Some c \<Rightarrow> [c] | None \<Rightarrow> []) @
     (case any_call (rw_on_any s) event payload of Some c \<Rightarrow> [c] | None \<Rightarrow> [])"

lemma raw_callback_calls:
  assumes "raw_callback L event payload s = (Ok u, s')"
  shows "rw_calls s' = rw_calls s @ expected_calls s event payload"
proof -
  from assms obtain x t where t: "run_call_option L relock (own_call (rw_on s) event payload) s = (Ok x, t)"
    and s': "run_call_option L relock (any_call (rw_on_any s) event payload) t = (Ok u, s')"
    unfolding raw_callback_def by (rule seq_OkE)
  have "rw_calls t = rw_calls s @ (case own_call (rw_on s) event payload of Some c \<Rightarrow> [c] | None \<Rightarrow> [])"
    using run_call_calls [of L "own_call (rw_on s) event payload" s] by (simp add: t)
  moreover have "rw_calls s' = rw_calls t @ (case any_call (rw_on_any s) event payload of Some c \<Rightarrow> [c] | None \<Rightarrow> [])"
    using run_call_calls [of L "any_call (rw_on_any s) event payload" t] by (simp add: s')
  ultimately show ?thesis by (simp add: expected_calls_def)
qed

text \<open>A callback whose script is empty comes to its end and leaves everything else.\<close>

lemma raw_callback_silent:
  assumes "\<And>h. sl_script L h = []"
  shows "raw_callback L event payload s = (Ok (), s\<lparr>rw_calls := rw_calls s @ expected_calls s event payload\<rparr>)"
  using assms
  by (simp add: raw_callback_def run_call_option_def run_call_def seq_def expected_calls_def split: option.splits)

section \<open>No panic in a callback\<close>

definition no_panic :: "('s, 'e, 'a) proc \<Rightarrow> bool" where
  "no_panic m \<longleftrightarrow> (\<forall>s. fst (m s) \<noteq> Panic)"

lemma no_panic_seq: "no_panic m \<Longrightarrow> (\<And>x. no_panic (k x)) \<Longrightarrow> no_panic (seq m k)"
  unfolding no_panic_def seq_def
  by (auto split: prod.splits outcome.splits) (metis fst_conv)+

lemma no_panic_ignore: "no_panic m \<Longrightarrow> no_panic (ignore m)"
  unfolding no_panic_def ignore_def
  by (auto split: prod.splits outcome.splits) (metis fst_conv)

lemma no_panicD: "no_panic m \<Longrightarrow> fst (m s) \<noteq> Panic"
  by (simp add: no_panic_def)

lemma no_panic_on_engine:
  fixes m :: "('u esocket, eerror, 'a) proc"
  assumes "no_panic m"
  shows "no_panic (on_engine m)"
  unfolding no_panic_def
proof
  fix s :: "'u ssocket"
  obtain r e where "m (ss_engine s) = (r, e)" by fastforce
  with assms show "fst (on_engine m s) \<noteq> Panic"
    by (cases r) (auto simp: no_panic_def on_engine_def dest: spec [of _ "ss_engine s"])
qed

lemma no_panic_on_socket: "no_panic m \<Longrightarrow> no_panic (on_socket m)"
  unfolding no_panic_def on_socket_def
  by (auto split: prod.splits) (metis fst_conv)

lemma no_panic_emit: "no_panic (esocket_emit B U p)"
  by (simp add: no_panic_def esocket_emit_no_panic)

lemma no_panic_send_attachments: "no_panic (send_attachments B U as)"
proof (induction as)
  case Nil
  show ?case by (simp add: no_panic_def)
next
  case (Cons a as)
  then show ?case
    by (simp only: send_attachments.simps) (intro no_panic_seq no_panic_on_engine no_panic_emit)
qed

text \<open>Sending panics only when the packet cannot be encoded.\<close>

lemma no_panic_send:
  assumes "s_attachments p = None \<or> s_count p \<noteq> 0"
  shows "no_panic (ssocket_send oc B U p)"
  unfolding no_panic_def
proof
  fix s
  have "\<exists>t. encode_text oc p = Some t"
    using assms by (cases "s_attachments p = None") (simp_all add: encode_text_def)
  then obtain bs where bs: "spacket_to_bytes oc p = (Ok bs :: (serror, bytes) outcome)"
    by (auto simp: spacket_to_bytes_def)
  have "no_panic (case s_attachments p of Some as \<Rightarrow> send_attachments B U as | None \<Rightarrow> give (Ok ()))"
    by (cases "s_attachments p") (simp_all add: no_panic_send_attachments, simp add: no_panic_def)
  then have "no_panic (seq (on_engine (esocket_emit B U (epacket EMessage bs))) (\<lambda>_.
        case s_attachments p of Some as \<Rightarrow> send_attachments B U as | None \<Rightarrow> give (Ok ())))"
    by (intro no_panic_seq no_panic_on_engine no_panic_emit)
  then show "fst (ssocket_send oc B U p s) \<noteq> Panic"
    using bs by (simp add: ssocket_send_def no_panic_def)
qed

lemma no_panic_disconnect: "no_panic (ssocket_disconnect B U)"
proof -
  have "no_panic (esocket_disconnect B U)"
    using esocket_emit_no_panic [of B U]
    by (auto simp: no_panic_def esocket_disconnect_def seq_def ignore_def split: prod.splits outcome.splits)
      (metis fst_conv)
  from no_panic_on_engine [OF this] show ?thesis
    by (auto simp: no_panic_def ssocket_disconnect_def seq_def split: prod.splits outcome.splits)
      (metis fst_conv)
qed

lemma build_packet_encodes:
  "s_attachments (build_packet_for_payload J d e nsp i) = None \<or> s_count (build_packet_for_payload J d e nsp i) \<noteq> 0"
  by (simp add: build_packet_for_payload_def spacket_def Let_def split: spayload.splits)

lemma no_panic_run_action:
  assumes "no_panic close"
  shows "no_panic (run_action L close a)"
proof (cases a)
  case (AEmit e d)
  have "no_panic (raw_emit L e d)"
    by (simp add: no_panic_def raw_emit_def ssocket_emit_def
        no_panicD [OF no_panic_on_socket [OF no_panic_send [OF build_packet_encodes]]])
  with AEmit show ?thesis by (simp only: run_action.simps) (rule no_panic_ignore)
next
  case (AEmitWithAck e d t cb)
  have "no_panic (raw_emit_with_ack L e d t cb)"
    by (auto simp: no_panic_def raw_emit_with_ack_def Let_def
        no_panicD [OF no_panic_on_socket [OF no_panic_send [OF build_packet_encodes]]] split: prod.splits)
  with AEmitWithAck show ?thesis by (simp only: run_action.simps) (rule no_panic_ignore)
next
  case ADisconnect
  have "no_panic (seq (ignore (on_socket (ssocket_send (sl_oc L) (sl_b64 L) (sl_url L)
            (spacket SDisconnect nsp None None 0 None)))) (\<lambda>_.
     seq (on_socket (ssocket_disconnect (sl_b64 L) (sl_url L))) (\<lambda>_. ignore close)))" for nsp
    by (intro no_panic_seq no_panic_ignore no_panic_on_socket no_panic_send no_panic_disconnect assms)
      (simp add: spacket_def)
  then have "no_panic (raw_disconnect_with L close)"
    by (simp add: no_panic_def raw_disconnect_with_def)
  with ADisconnect show ?thesis by (simp only: run_action.simps) (rule no_panic_ignore)
qed

lemma no_panic_run_actions:
  assumes "no_panic close"
  shows "no_panic (run_actions L close as)"
proof (induction as)
  case Nil
  show ?case by (simp add: no_panic_def)
next
  case (Cons a as)
  then show ?case by (simp only: run_actions.simps) (intro no_panic_seq no_panic_run_action assms)
qed

lemma no_panic_run_call_option: "no_panic close \<Longrightarrow> no_panic (run_call_option L close c)"
  using no_panic_run_actions [of close L]
  by (cases c) (simp_all add: no_panic_def run_call_option_def run_call_def)

lemma no_panic_raw_callback: "no_panic (raw_callback L e p)"
proof -
  have "no_panic (relock :: ('a, 'b, unit) raw_proc)" by (simp add: no_panic_def relock_def)
  then have "no_panic (seq (run_call_option L relock c) (\<lambda>_. run_call_option L relock c'))" for c c'
    by (intro no_panic_seq no_panic_run_call_option)
  then show ?thesis by (simp add: no_panic_def raw_callback_def)
qed

text \<open>A callback ignores the results of its calls, so no error comes out of it.\<close>

lemma ignore_no_err: "ignore m s \<noteq> (Err e, t)"
  by (simp add: ignore_def split: prod.splits outcome.splits)

lemma run_actions_no_err: "run_actions L close as s \<noteq> (Err e, t)"
proof (induction as arbitrary: s)
  case (Cons a as)
  have "run_action L close a s \<noteq> (Err e, t)" for s
    by (cases a) (simp_all add: ignore_no_err)
  with Cons show ?case by (auto simp: seq_def split: prod.splits outcome.splits)
qed simp

lemma raw_callback_no_err: "raw_callback L event payload s \<noteq> (Err e, t)"
proof -
  have "run_call_option L close c s \<noteq> (Err e, t)" for close c s
    by (simp add: run_call_option_def run_call_def run_actions_no_err split: option.splits)
  then show ?thesis
    by (auto simp: raw_callback_def seq_def split: prod.splits outcome.splits)
qed

section \<open>Removing acknowledgements\<close>

fun matching :: "i32 \<Rightarrow> nat \<Rightarrow> ack list \<Rightarrow> nat list" where
  "matching i k [] = []"
| "matching i k (a # as) = (if ack_id a = i then [k] else []) @ matching i (Suc k) as"

lemma ack_loop_matching:
  "ack_loop L p i k acks r s = (Ok ks, s') \<Longrightarrow> ks = r @ matching i k acks"
proof (induction acks arbitrary: k r s)
  case (Cons a acks)
  show ?case
  proof (cases "ack_id a = i")
    case True
    with Cons.prems obtain t where "ack_loop L p i (Suc k) acks (r @ [k]) t = (Ok ks, s')"
      by (auto elim!: seq_OkE)
    from Cons.IH [OF this] True show ?thesis by simp
  next
    case False
    with Cons.prems have "ack_loop L p i (Suc k) acks r s = (Ok ks, s')" by simp
    from Cons.IH [OF this] False show ?thesis by simp
  qed
qed simp

lemma matching_append: "matching i k (xs @ ys) = matching i k xs @ matching i (k + length xs) ys"
  by (induction xs arbitrary: k) simp_all

lemma matching_none: "i \<notin> ack_id ` set xs \<Longrightarrow> matching i k xs = []"
  by (induction xs arbitrary: k) auto

lemma remove_matching:
  assumes "distinct (map ack_id acks)"
  shows "remove_indices (matching i 0 acks) acks = Some (filter (\<lambda>a. ack_id a \<noteq> i) acks)"
proof (cases "i \<in> ack_id ` set acks")
  case False
  then have "filter (\<lambda>a. ack_id a \<noteq> i) acks = acks" by (auto simp: filter_id_conv)
  with False show ?thesis by (simp add: matching_none)
next
  case True
  then obtain a where a: "a \<in> set acks" "ack_id a = i" by blast
  then obtain xs ys where acks: "acks = xs @ a # ys" by (auto dest: split_list)
  have none: "i \<notin> ack_id ` set xs" "i \<notin> ack_id ` set ys"
    using assms a(2) by (auto simp: acks)
  then have "filter (\<lambda>a. ack_id a \<noteq> i) xs = xs" "filter (\<lambda>a. ack_id a \<noteq> i) ys = ys"
    by (auto simp: filter_id_conv)
  with none a(2) show ?thesis by (simp add: acks matching_append matching_none)
qed

lemma handle_ack_Ok:
  assumes "handle_ack L p s = (Ok u, s')" "s_id p = Some i"
  shows "remove_indices (matching i 0 (rw_acks s)) (rw_acks s) = Some (rw_acks s')"
proof -
  let ?s0 = "s\<lparr>rw_acks_locked := True\<rparr>"
  have "seq (ack_loop L p i 0 (rw_acks s) []) (\<lambda>ks s1.
      case remove_indices ks (rw_acks s1) of
         None \<Rightarrow> (Panic, s1\<lparr>rw_acks_locked := False\<rparr>)
       | Some acks \<Rightarrow> (Ok (), s1\<lparr>rw_acks_locked := False, rw_acks := acks\<rparr>)) ?s0 = (Ok u, s')"
    using assms by (simp add: handle_ack_def Let_def split: if_splits)
  then obtain ks s1 where loop: "ack_loop L p i 0 (rw_acks s) [] ?s0 = (Ok ks, s1)"
    and rest: "(case remove_indices ks (rw_acks s1) of
         None \<Rightarrow> (Panic, s1\<lparr>rw_acks_locked := False\<rparr>)
       | Some acks \<Rightarrow> (Ok (), s1\<lparr>rw_acks_locked := False, rw_acks := acks\<rparr>)) = (Ok u :: (serror, unit) outcome, s')"
    by (rule seq_OkE)
  have "same_tables ?s0 s1"
    using keepsD [OF keeps_ack_loop same_tables_refl, of ?s0 L p i 0 "rw_acks s" "[]"] by (simp add: loop)
  then have "rw_acks s1 = rw_acks s" by (simp add: same_tables_def)
  with rest ack_loop_matching [OF loop] show ?thesis by (auto split: option.splits)
qed

section \<open>Properties\<close>

text \<open>A client with a websocket under it, and callbacks that do nothing unless a script is given.\<close>

definition demo_slib :: "(call list \<Rightarrow> action list) \<Rightarrow> (nat, rstring) slib" where
  "demo_slib K =
     \<lparr>sl_oc = True,
      sl_engine = \<lparr>lib_b64 = nibble64, lib_url = demo_urls, lib_http = \<lparr>http_name = Some, http_value = Some\<rparr>,
        lib_handshake = (\<lambda>d. Inr (demo_handshake False))\<rparr>,
      sl_json = flat_json, sl_display = (\<lambda>e. []),
      sl_script = K, sl_backoff = (\<lambda>initial longest n. Some (unat initial))\<rparr>"

definition demo_raw :: "ws_event list \<Rightarrow> ack list \<Rightarrow> (nat, rstring) raw" where
  "demo_raw es acks =
     (raw_new (demo_ssocket es) (lit ''/'') [(EvMessage, 1), (EvClose, 2)] None None (\<lambda>n. n) (\<lambda>n. n))
     \<lparr>rw_acks := acks\<rparr>"

lemma demo_raw_fields [simp]:
  "rw_acks (demo_raw es acks) = acks" "\<not> rw_acks_locked (demo_raw es acks)"
  "rw_calls (demo_raw es acks) = []" "rw_time (demo_raw es acks) n = n"
  "rw_nsp (demo_raw es acks) = lit ''/''" "rw_socket (demo_raw es acks) = demo_ssocket es"
  "rw_on (demo_raw es acks) = [(EvMessage, 1), (EvClose, 2)]" "rw_on_any (demo_raw es acks) = None"
  by (simp_all add: demo_raw_def raw_new_def)

text \<open>An acknowledgement settles the request with its id and no other, as long as the ids of the
  outstanding requests are distinct, whatever the acknowledgement callbacks do.\<close>

theorem ack_settles_one:
  assumes "distinct (map ack_id (rw_acks s))" "s_id p = Some i" "handle_ack L p s = (Ok u, s')"
  shows "rw_acks s' = filter (\<lambda>a. ack_id a \<noteq> i) (rw_acks s)"
  using handle_ack_Ok [OF assms(3,2)] remove_matching [OF assms(1), of i] by simp

definition demo_ack :: "i32 \<Rightarrow> nat \<Rightarrow> nat \<Rightarrow> ack" where
  "demo_ack i t cb = \<lparr>ack_id = i, ack_timeout = t, ack_started = 0, ack_callback = cb\<rparr>"

lemma ack_loop_found:
  assumes "i \<notin> ack_id ` set xs" "i \<notin> ack_id ` set ys" "ack_id a = i"
    and "call_ack L p a s = (Ok (), s1)"
  shows "ack_loop L p i k (xs @ a # ys) r s = (Ok (r @ [k + length xs]), s1)"
proof -
  have skip: "ack_loop L p i k zs r s = (Ok r, s)" if "i \<notin> ack_id ` set zs" for k zs r s
    using that by (induction zs arbitrary: k) auto
  show ?thesis
    using assms(1) by (induction xs arbitrary: k) (auto simp: assms(3,4) skip [OF assms(2)])
qed

lemma handle_ack_one:
  assumes "rw_acks s = xs @ a # ys" "i \<notin> ack_id ` set xs" "i \<notin> ack_id ` set ys" "ack_id a = i"
    and "s_id p = Some i" "s_data p = Some d" "s_attachments p = None" "\<not> rw_acks_locked s"
    and "sl_script L (rw_calls s @ [CallAck (ack_callback a) (PString d)]) = []"
  shows "handle_ack L p s = (Ok (), s\<lparr>rw_time := (\<lambda>n. rw_time s (Suc n)), rw_acks := xs @ ys, rw_calls := rw_calls s @
      (if rw_time s 0 - ack_started a < ack_timeout a then [CallAck (ack_callback a) (PString d)] else [])\<rparr>)"
proof -
  let ?s0 = "s\<lparr>rw_acks_locked := True\<rparr>"
  define calls where "calls = rw_calls s @
      (if rw_time s 0 - ack_started a < ack_timeout a then [CallAck (ack_callback a) (PString d)] else [])"
  have "call_ack L p a ?s0 = (Ok (), (snd (read_clock ?s0))\<lparr>rw_calls := calls\<rparr>)"
    using assms(6,7,9)
    by (simp add: call_ack_def read_clock_def run_call_option_def run_call_def seq_def calls_def)
  from ack_loop_found [OF assms(2-4) this] have
    "ack_loop L p i 0 (rw_acks s) [] ?s0 = (Ok [length xs], (snd (read_clock ?s0))\<lparr>rw_calls := calls\<rparr>)"
    by (simp add: assms(1))
  then have "handle_ack L p s = (Ok (), s\<lparr>rw_time := (\<lambda>n. rw_time s (Suc n)), rw_acks := xs @ ys, rw_calls := calls\<rparr>)"
    using assms(5,8) by (simp add: handle_ack_def read_clock_def assms(1))
  then show ?thesis by (simp only: calls_def)
qed

text \<open>Delivery of an acknowledgement. The one request with the acknowledged id is removed; its
  callback is called once, with the acknowledgement's data, if the time since the request is below
  the timeout, and not at all otherwise.\<close>

theorem ack_delivered:
  assumes "rw_acks s = xs @ a # ys" "i \<notin> ack_id ` set xs" "i \<notin> ack_id ` set ys" "ack_id a = i"
    and "s_id p = Some i" "s_data p = Some d" "s_attachments p = None" "\<not> rw_acks_locked s"
    and "sl_script L (rw_calls s @ [CallAck (ack_callback a) (PString d)]) = []"
  shows "\<exists>s'. handle_ack L p s = (Ok (), s') \<and> rw_acks s' = xs @ ys \<and>
    rw_calls s' = rw_calls s @
      (if rw_time s 0 - ack_started a < ack_timeout a then [CallAck (ack_callback a) (PString d)] else [])"
  using handle_ack_one [OF assms] by simp

theorem ack_delivered_witness:
  "\<exists>s'. handle_ack (demo_slib (\<lambda>h. [])) (spacket SAck (lit ''/'') (Some (lit ''[1]'')) (Some 7) 0 None)
       (demo_raw [] [demo_ack 7 5 9, demo_ack 8 5 9]) = (Ok (), s') \<and>
     rw_calls s' = [CallAck 9 (PString (lit ''[1]''))] \<and> rw_acks s' = [demo_ack 8 5 9]"
proof -
  let ?s = "demo_raw [] [demo_ack 7 5 9, demo_ack 8 5 9]"
  let ?p = "spacket SAck (lit ''/'') (Some (lit ''[1]'')) (Some 7) 0 None"
  have one: "rw_acks ?s = [] @ demo_ack 7 5 9 # [demo_ack 8 5 9]" "7 \<notin> ack_id ` set []"
    "7 \<notin> ack_id ` set [demo_ack 8 5 9]" "ack_id (demo_ack 7 5 9) = 7"
    by (simp_all add: demo_ack_def)
  have two: "s_id ?p = Some 7" "s_data ?p = Some (lit ''[1]'')" "s_attachments ?p = None"
    "\<not> rw_acks_locked ?s"
    "sl_script (demo_slib (\<lambda>h. [])) (rw_calls ?s @ [CallAck (ack_callback (demo_ack 7 5 9)) (PString (lit ''[1]''))]) = []"
    by (simp_all add: spacket_def demo_slib_def)
  from ack_delivered [OF one two] show ?thesis by (auto simp: demo_ack_def)
qed

theorem ack_settles_one_witness:
  "\<exists>s'. handle_ack (demo_slib (\<lambda>h. [])) (spacket SAck (lit ''/'') None (Some 7) 0 None)
       (demo_raw [] [demo_ack 7 5 9, demo_ack 8 5 9]) = (Ok (), s') \<and> rw_acks s' = [demo_ack 8 5 9]"
proof -
  let ?s = "demo_raw [] [demo_ack 7 5 9, demo_ack 8 5 9]"
  let ?p = "spacket SAck (lit ''/'') None (Some 7) 0 None"
  have "fst (handle_ack (demo_slib (\<lambda>h. [])) ?p ?s) = Ok ()"
    by (simp add: handle_ack_def spacket_def demo_ack_def call_ack_def read_clock_def run_call_option_def seq_def)
  then obtain s' where run: "handle_ack (demo_slib (\<lambda>h. [])) ?p ?s = (Ok (), s')"
    by (metis prod.collapse)
  have "distinct (map ack_id (rw_acks ?s))" "s_id ?p = Some 7"
    by (simp_all add: demo_ack_def spacket_def)
  from ack_settles_one [OF this run] run show ?thesis by (simp add: demo_ack_def)
qed

text \<open>An acknowledgement whose time is over calls nothing.\<close>

lemma ack_loop_expired:
  assumes "\<And>a. a \<in> set acks \<Longrightarrow> ack_timeout a = 0"
  shows "\<exists>t. ack_loop L p i k acks r s = (Ok (r @ matching i k acks), s\<lparr>rw_time := t\<rparr>)"
  using assms
proof (induction acks arbitrary: k r s)
  case Nil
  show ?case by (intro exI [of _ "rw_time s"]) simp
next
  case (Cons a acks)
  show ?case
  proof (cases "ack_id a = i")
    case True
    have "call_ack L p a s = (Ok (), snd (read_clock s))"
      using Cons.prems by (simp add: call_ack_def read_clock_def)
    with True Cons.IH [of "Suc k" "r @ [k]" "snd (read_clock s)"] Cons.prems show ?thesis
      by (auto simp: read_clock_def)
  next
    case False
    with Cons.IH [of "Suc k" r s] Cons.prems show ?thesis by simp
  qed
qed

text \<open>Duplicate ids. The ids are random numbers below 999 and not checked against the outstanding
  ones. If the last two outstanding requests share the acknowledged id, the client panics when it
  removes them; if another request follows them, that one is removed in place of the second.\<close>

theorem duplicate_acks:
  assumes "ack_id a = i" "ack_id b = i" "ack_id c \<noteq> i" "s_id p = Some i"
    and "ack_timeout a = 0" "ack_timeout b = 0" "ack_timeout c = 0" "\<not> rw_acks_locked s"
  shows "fst (handle_ack L p (s\<lparr>rw_acks := [a, b]\<rparr>)) = Panic \<and>
    rw_acks (snd (handle_ack L p (s\<lparr>rw_acks := [a, b, c]\<rparr>))) = [b]"
proof -
  have zero: "\<And>x. x \<in> set [a, b] \<Longrightarrow> ack_timeout x = 0" "\<And>x. x \<in> set [a, b, c] \<Longrightarrow> ack_timeout x = 0"
    using assms by auto
  have m: "matching i 0 [a, b] = [0, 1]" "matching i 0 [a, b, c] = [0, 1]"
    using assms(1-3) by simp_all
  obtain t1 where t1: "ack_loop L p i 0 [a, b] [] (s\<lparr>rw_acks := [a, b], rw_acks_locked := True\<rparr>) =
      (Ok [0, 1], s\<lparr>rw_acks := [a, b], rw_acks_locked := True, rw_time := t1\<rparr>)"
    using ack_loop_expired [where acks = "[a, b]" and L = L and p = p and i = i and k = 0 and r = "[]" and
        s = "s\<lparr>rw_acks := [a, b], rw_acks_locked := True\<rparr>", OF zero(1)]
    by (auto simp only: m append_Nil)
  obtain t2 where t2: "ack_loop L p i 0 [a, b, c] [] (s\<lparr>rw_acks := [a, b, c], rw_acks_locked := True\<rparr>) =
      (Ok [0, 1], s\<lparr>rw_acks := [a, b, c], rw_acks_locked := True, rw_time := t2\<rparr>)"
    using ack_loop_expired [where acks = "[a, b, c]" and L = L and p = p and i = i and k = 0 and r = "[]" and
        s = "s\<lparr>rw_acks := [a, b, c], rw_acks_locked := True\<rparr>", OF zero(2)]
    by (auto simp only: m append_Nil)
  show ?thesis
    using assms(4,8) t1 t2 by (simp add: handle_ack_def seq_def del: ack_loop.simps)
qed

theorem duplicate_acks_witness:
  "fst (handle_ack (demo_slib (\<lambda>h. [])) (spacket SAck (lit ''/'') None (Some 7) 0 None)
     (demo_raw [] [demo_ack 7 0 1, demo_ack 7 0 1])) = Panic"
proof -
  have "ack_id (demo_ack 7 0 1) = 7" "ack_id (demo_ack 7 0 1) = 7" "ack_id (demo_ack 8 0 1) \<noteq> 7"
    "s_id (spacket SAck (lit ''/'') None (Some 7) 0 None) = Some 7"
    "ack_timeout (demo_ack 7 0 1) = 0" "ack_timeout (demo_ack 7 0 1) = 0" "ack_timeout (demo_ack 8 0 1) = 0"
    "\<not> rw_acks_locked (demo_raw [] [demo_ack 7 0 1, demo_ack 7 0 1])"
    by (simp_all add: demo_ack_def spacket_def)
  from duplicate_acks [OF this, of "demo_slib (\<lambda>h. [])"] show ?thesis by (simp add: demo_raw_def)
qed

lemma disconnect_relock:
  "fst (run_action L relock ADisconnect s) = Block"
proof -
  have p: "s_attachments (spacket SDisconnect (rw_nsp s) None None 0 None) = None \<or>
      s_count (spacket SDisconnect (rw_nsp s) None None 0 None) \<noteq> 0"
    by (simp add: spacket_def)
  have "fst (ssocket_disconnect B U t) \<noteq> Err e" for B :: base64 and U :: "'a urllib" and t e
    by (auto simp: ssocket_disconnect_def seq_def on_engine_def esocket_disconnect_def ignore_def
        split: prod.splits outcome.splits)
  then have err: "fst (on_socket (ssocket_disconnect (sl_b64 L) (sl_url L)) t) \<noteq> Err e" for t :: "('a, 'b) raw" and e
    by (simp add: on_socket_def split: prod.splits) (metis fst_conv)
  have pan: "fst (on_socket (ssocket_send (sl_oc L) (sl_b64 L) (sl_url L)
      (spacket SDisconnect (rw_nsp s) None None 0 None)) t) \<noteq> Panic"
    "fst (on_socket (ssocket_disconnect (sl_b64 L) (sl_url L)) t) \<noteq> Panic" for t :: "('a, 'b) raw"
    by (rule no_panicD [OF no_panic_on_socket [OF no_panic_send [OF p]]],
        rule no_panicD [OF no_panic_on_socket [OF no_panic_disconnect]])
  obtain r t where rt: "on_socket (ssocket_send (sl_oc L) (sl_b64 L) (sl_url L)
      (spacket SDisconnect (rw_nsp s) None None 0 None)) s = (r, t)" by fastforce
  obtain r' t' where rt': "on_socket (ssocket_disconnect (sl_b64 L) (sl_url L)) t = (r', t')" by fastforce
  show ?thesis
    using pan(1) [of s] pan(2) [of t] err [of t] rt rt'
    by (cases r; cases r') (auto simp: raw_disconnect_with_def seq_def ignore_def relock_def)
qed

text \<open>C40: calls that lock up the client. A callback of an event that disconnects its own client does not
  come back, because the close callback is in the table that is locked; neither does an
  acknowledgement callback that asks for another acknowledgement.\<close>

theorem callback_lockup:
  "(own_call (rw_on s) event payload = Some c \<and> sl_script L (rw_calls s @ [c]) = ADisconnect # rest \<longrightarrow>
     fst (raw_callback L event payload s) = Block) \<and>
   (rw_acks s = [a] \<and> s_id p = Some (ack_id a) \<and> \<not> rw_acks_locked s \<and> s_data p = Some d \<and>
    rw_time s 0 - ack_started a < ack_timeout a \<and>
    sl_script L (rw_calls s @ [CallAck (ack_callback a) (PString d)]) = AEmitWithAck e q t cb # rest \<longrightarrow>
     fst (handle_ack L p s) = Block)"
proof (intro conjI impI; elim conjE)
  assume own: "own_call (rw_on s) event payload = Some c"
    and script: "sl_script L (rw_calls s @ [c]) = ADisconnect # rest"
  let ?s1 = "s\<lparr>rw_calls := rw_calls s @ [c]\<rparr>"
  obtain s2 where "run_action L relock ADisconnect ?s1 = (Block, s2)"
    using disconnect_relock [of L ?s1] by (metis prod.collapse)
  then show "fst (raw_callback L event payload s) = Block"
    using own script
    by (simp add: raw_callback_def run_call_option_def run_call_def seq_def del: run_action.simps)
next
  assume acks: "rw_acks s = [a]" "s_id p = Some (ack_id a)" "\<not> rw_acks_locked s" "s_data p = Some d"
    and time: "rw_time s 0 - ack_started a < ack_timeout a"
    and script: "sl_script L (rw_calls s @ [CallAck (ack_callback a) (PString d)]) = AEmitWithAck e q t cb # rest"
  have locked: "fst (raw_emit_with_ack L e q t cb z) = Block" if "rw_acks_locked z" for z :: "('a, 'b) raw"
    using that by (auto simp: raw_emit_with_ack_def draw_id_def read_clock_def Let_def)
  let ?z = "(snd (read_clock (s\<lparr>rw_acks_locked := True\<rparr>)))
      \<lparr>rw_calls := rw_calls s @ [CallAck (ack_callback a) (PString d)]\<rparr>"
  have "rw_acks_locked ?z" by (simp add: read_clock_def)
  from locked [OF this] obtain z' where "raw_emit_with_ack L e q t cb ?z = (Block, z')"
    by (metis prod.collapse)
  then show "fst (handle_ack L p s) = Block"
    using acks time script
    by (simp add: handle_ack_def call_ack_def read_clock_def run_call_option_def run_call_def seq_def)
qed

theorem callback_lockup_witness:
  "fst (raw_callback (demo_slib (\<lambda>h. [ADisconnect])) EvMessage (PString []) (demo_raw [] [])) = Block"
proof -
  have "own_call (rw_on (demo_raw [] [])) EvMessage (PString []) = Some (CallOn 1 (PString []))"
    "sl_script (demo_slib (\<lambda>h. [ADisconnect])) (rw_calls (demo_raw [] []) @ [CallOn 1 (PString [])])
       = ADisconnect # []"
    by (simp_all add: own_call_def demo_slib_def)
  with callback_lockup [of "demo_raw [] []" EvMessage "PString []" "CallOn 1 (PString [])"
      "demo_slib (\<lambda>h. [ADisconnect])" "[]"] show ?thesis by blast
qed

text \<open>The event and the payload the client takes from the array of an event packet.\<close>

definition array_event :: "('u, 'j) slib \<Rightarrow> 'j list \<Rightarrow> sevent" where
  "array_event L contents =
     (if length contents > 1 then
        event_of_string (case json_as_string (sl_json L) (hd contents) of Some ev \<Rightarrow> ev | None \<Rightarrow> lit ''message'')
      else EvMessage)"

definition array_payload :: "('u, 'j) slib \<Rightarrow> 'j list \<Rightarrow> spayload" where
  "array_payload L contents =
     PString (json_print (sl_json L) (if length contents > 1 then contents ! 1 else hd contents))"

lemma handle_event_array:
  assumes "s_data p = Some data" "json_parse (sl_json L) data = Inr v"
    and "json_as_array (sl_json L) v = Some contents" "contents \<noteq> []"
  shows "handle_event L p = raw_callback L (array_event L contents) (array_payload L contents)"
proof -
  obtain c cs where c: "contents = c # cs" using assms(4) by (cases contents) auto
  show ?thesis
    using assms(1-3)
    by (cases cs) (simp_all add: c handle_event_def array_event_def array_payload_def Let_def)
qed

text \<open>Dispatch of events. For an event packet of the client's namespace whose data is a non-empty
  array, the callbacks that run are the one registered for the event named by the first element (for
  \<open>message\<close> if there is only one element) and, for message and custom events, the one for any event,
  each once, in this order, with the second element (or the only one) as payload.\<close>

theorem event_dispatch:
  assumes "s_type p = SEvent" "s_nsp p = rw_nsp s" "s_data p = Some data"
    and "json_parse (sl_json L) data = Inr v" "json_as_array (sl_json L) v = Some contents" "contents \<noteq> []"
    and "raw_handle_packet L p s = (Ok u, s')"
  shows "rw_calls s' = rw_calls s @ expected_calls s (array_event L contents) (array_payload L contents)"
proof -
  note h = handle_event_array [OF assms(3-6)]
  have "raw_callback L (array_event L contents) (array_payload L contents) s = (Ok u, s')"
    using assms(1,2,7) h raw_callback_no_err [of L "array_event L contents" "array_payload L contents" s]
    by (auto simp: raw_handle_packet_def report_def split: prod.splits outcome.splits)
  from raw_callback_calls [OF this] show ?thesis .
qed

theorem event_dispatch_witness:
  "\<exists>s'. raw_handle_packet (demo_slib (\<lambda>h. []))
       (spacket SEvent (lit ''/'') (Some (lit ''[message,7]'')) None 0 None) (demo_raw [] []) = (Ok (), s') \<and>
     rw_calls s' = [CallOn 1 (PString (lit ''7''))]"
proof -
  let ?L = "demo_slib (\<lambda>h. [])" and ?s = "demo_raw [] []"
    and ?p = "spacket SEvent (lit ''/'') (Some (lit ''[message,7]'')) None 0 None"
  let ?cs = "[lit ''message'', lit ''7'']"
  have one: "s_type ?p = SEvent" "s_nsp ?p = rw_nsp ?s" "s_data ?p = Some (lit ''[message,7]'')"
    "json_parse (sl_json ?L) (lit ''[message,7]'') = Inr (lit ''[message,7]'')"
    "json_as_array (sl_json ?L) (lit ''[message,7]'') = Some ?cs" "?cs \<noteq> []"
    by (simp_all add: spacket_def demo_slib_def flat_json_def starts_with_def)
  have ev: "array_event ?L ?cs = EvMessage" "array_payload ?L ?cs = PString (lit ''7'')"
    by (simp_all add: array_event_def array_payload_def demo_slib_def flat_json_def starts_with_def
        event_of_string_def to_lowercase_def lower_char_def)
  have "sl_script ?L h = []" for h by (simp add: demo_slib_def)
  from raw_callback_silent [OF this] have "raw_handle_packet ?L ?p ?s =
      (Ok (), ?s\<lparr>rw_calls := rw_calls ?s @ expected_calls ?s (array_event ?L ?cs) (array_payload ?L ?cs)\<rparr>)"
    using handle_event_array [OF one(3-6)] one(1,2)
    by (simp add: raw_handle_packet_def report_def del: lit_simps)
  then obtain s' where run: "raw_handle_packet ?L ?p ?s = (Ok (), s')" by blast
  from event_dispatch [OF one run] run show ?thesis
    by (simp add: ev expected_calls_def own_call_def any_call_def del: lit_simps)
qed

text \<open>The client panics on an event packet exactly when its data parses to the empty array; callbacks
  never make it panic.\<close>

theorem event_panic:
  "fst (handle_event L p s) = Panic \<longleftrightarrow>
     (\<exists>data v. s_data p = Some data \<and> json_parse (sl_json L) data = Inr v \<and>
        json_as_array (sl_json L) v = Some [])"
proof (cases "\<exists>data v contents. s_data p = Some data \<and> json_parse (sl_json L) data = Inr v \<and>
    json_as_array (sl_json L) v = Some contents")
  case True
  then obtain data v contents where c: "s_data p = Some data" "json_parse (sl_json L) data = Inr v"
    "json_as_array (sl_json L) v = Some contents" by blast
  show ?thesis
  proof (cases "contents = []")
    case True
    with c show ?thesis by (simp add: handle_event_def Let_def)
  next
    case False
    with handle_event_array [OF c False] no_panicD [OF no_panic_raw_callback] c show ?thesis by simp
  qed
next
  case False
  then show ?thesis
    by (auto simp: handle_event_def split: option.splits sum.splits)
qed

lemma raw_poll_step:
  assumes "ssocket_poll (sl_b64 L) (sl_url L) (sl_json L) (rw_socket s) = (Ok (Some p), t)" "s_nsp p = rw_nsp s"
  shows "raw_poll L s = seq (raw_handle_packet L p) (\<lambda>_. give (Ok (Some p))) (s\<lparr>rw_socket := t\<rparr>)"
  using assms by (subst raw_poll.simps) (simp add: on_socket_def)

text \<open>Polling returns packets of the client's own namespace only.\<close>

theorem raw_poll_own_namespace:
  assumes "raw_poll L s = (Ok (Some p), s')"
  shows "s_nsp p = rw_nsp s"
  using assms
proof (induction L s rule: raw_poll.induct)
  case (1 L s)
  obtain r s1 where r: "on_socket (ssocket_poll (sl_b64 L) (sl_url L) (sl_json L)) s = (r, s1)" by fastforce
  have nsp: "rw_nsp s1 = rw_nsp s"
    using r by (auto simp: on_socket_def split: prod.splits)
  show ?case
  proof (cases "\<exists>q. r = Ok (Some q) \<and> s_nsp q \<noteq> rw_nsp s1")
    case True
    then obtain q where q: "r = Ok (Some q)" "s_nsp q \<noteq> rw_nsp s1" by blast
    with "1.prems" r have "raw_poll L s1 = (Ok (Some p), s')"
      by (subst (asm) raw_poll.simps) simp
    with "1.IH" [OF r [symmetric] q(1) refl q(2)] nsp show ?thesis by simp
  next
    case False
    with "1.prems" r nsp show ?thesis
      by (subst (asm) raw_poll.simps)
        (auto simp: seq_def split: prod.splits outcome.splits option.splits)
  qed
qed

text \<open>Reading an event packet that is dispatched to callbacks with empty scripts.\<close>

lemma raw_poll_event:
  assumes "fst (ssocket_poll (sl_b64 L) (sl_url L) (sl_json L) (rw_socket r)) = Ok (Some p)"
    and "s_type p = SEvent" "s_nsp p = rw_nsp r" "s_data p = Some data"
    and "json_parse (sl_json L) data = Inr v" "json_as_array (sl_json L) v = Some contents" "contents \<noteq> []"
    and "\<And>h. sl_script L h = []"
  shows "\<exists>r'. raw_poll L r = (Ok (Some p), r') \<and>
    rw_calls r' = rw_calls r @ expected_calls r (array_event L contents) (array_payload L contents)"
proof -
  from assms(1) obtain t where t: "ssocket_poll (sl_b64 L) (sl_url L) (sl_json L) (rw_socket r) = (Ok (Some p), t)"
    by (metis prod.collapse)
  let ?r1 = "r\<lparr>rw_socket := t\<rparr>"
  have "raw_handle_packet L p ?r1 = (Ok (), ?r1\<lparr>rw_calls := rw_calls ?r1 @
      expected_calls ?r1 (array_event L contents) (array_payload L contents)\<rparr>)"
    using assms(2,3) handle_event_array [OF assms(4-7)] raw_callback_silent [OF assms(8)]
    by (simp add: raw_handle_packet_def report_def)
  with raw_poll_step [OF t assms(3)] show ?thesis by (simp add: expected_calls_def)
qed

text \<open>From \<open>emit\<close> to callback. A client emits an event with a string payload over a websocket; a client
  of the same namespace that receives exactly what was sent polls it and calls, once, the callback it
  registered for that event, with the payload as it was emitted (JSON as \<open>serde_json\<close> prints it). JSON
  is assumed to parse the array that was built into the event's name and the payload.\<close>

theorem emit_reaches_callback:
  assumes "plain_text (rw_nsp s)" "nsp_ok (rw_nsp s)" "ready 1 (rw_socket s)" "plain_text str"
    and "plain_text (event_to_string ev)" "event_of_string (event_to_string ev) = ev"
    and "data = (case json_parse (sl_json L) str of Inr _ \<Rightarrow> str | Inl _ \<Rightarrow> quote_json str)"
    and "json_parse (sl_json L) (event_array ev data) = Inr v"
    and "json_print (sl_json L) v = event_array ev data" "json_as_array (sl_json L) v = Some [n, x]"
    and "json_as_string (sl_json L) n = Some (event_to_string ev)" "json_print (sl_json L) x = data"
    and "\<And>h. sl_script L h = []"
  shows "\<exists>frames s'. raw_emit L ev (PString str) s = (Ok (), s') \<and>
    wire (es_net (ss_engine (rw_socket s'))) = wire (es_net (ss_engine (rw_socket s))) @ map WsSend frames \<and>
    (\<forall>r. receiving frames (rw_socket r) \<and> rw_nsp r = rw_nsp s \<and> map_of (rw_on r) ev = Some cb \<and> rw_on_any r = None \<longrightarrow>
       (\<exists>p r'. raw_poll L r = (Ok (Some p), r') \<and> rw_calls r' = rw_calls r @ [CallOn cb (PString data)]))"
proof -
  let ?p = "spacket SEvent (rw_nsp s) (Some (event_array ev data)) None 0 None"
  have "json_canonical (sl_json L) (event_array ev data)"
    using assms(8,9) by (auto simp: json_canonical_def)
  from emit_string_delivered [OF assms(1-5,7) this, of "sl_oc L" "sl_b64 L" "sl_url L" "sl_b64 L" "sl_url L"]
  obtain frames t where snt: "ssocket_emit (sl_oc L) (sl_b64 L) (sl_url L) (sl_json L) (rw_nsp s) ev (PString str) (rw_socket s) = (Ok (), t)"
    and wire: "wire (es_net (ss_engine t)) = wire (es_net (ss_engine (rw_socket s))) @ map WsSend frames"
    and recv: "\<forall>r :: 'a ssocket. receiving frames r \<longrightarrow>
       fst (ssocket_poll (sl_b64 L) (sl_url L) (sl_json L) r) = Ok (Some ?p)"
    by blast
  have ev: "array_event L [n, x] = ev" "array_payload L [n, x] = PString data"
    by (simp_all add: array_event_def array_payload_def assms(6,11,12))
  have poll: "\<exists>p r'. raw_poll L r = (Ok (Some p), r') \<and> rw_calls r' = rw_calls r @ [CallOn cb (PString data)]"
    if "receiving frames (rw_socket r)" "rw_nsp r = rw_nsp s" "map_of (rw_on r) ev = Some cb" "rw_on_any r = None" for r
  proof -
    have "fst (ssocket_poll (sl_b64 L) (sl_url L) (sl_json L) (rw_socket r)) = Ok (Some ?p)"
      using recv that(1) by blast
    from raw_poll_event [OF this _ _ _ assms(8,10) _ assms(13)] that(2) obtain r' where
      "raw_poll L r = (Ok (Some ?p), r')"
      "rw_calls r' = rw_calls r @ expected_calls r (array_event L [n, x]) (array_payload L [n, x])"
      by (auto simp: spacket_def)
    then show ?thesis
      using that(3,4) by (simp add: ev expected_calls_def own_call_def any_call_def split: sevent.splits)
  qed
  have "raw_emit L ev (PString str) s = (Ok (), s\<lparr>rw_socket := t\<rparr>)"
    using snt by (simp add: raw_emit_def on_socket_def)
  with wire poll show ?thesis by (intro exI [of _ frames] exI [of _ "s\<lparr>rw_socket := t\<rparr>"]) simp
qed

lemma flat_event_array:
  "json_parse flat_json (event_array EvMessage (lit ''7'')) = Inr (event_array EvMessage (lit ''7''))"
  "json_print flat_json v = v"
  "json_as_array flat_json (event_array EvMessage (lit ''7'')) = Some [quote_json (lit ''message''), lit ''7'']"
  "json_as_string flat_json (quote_json (lit ''message'')) = Some (lit ''message'')"
  by (simp_all add: flat_json_def event_array_def quote_json_def starts_with_def)

theorem emit_reaches_callback_witness:
  "\<exists>frames s'. raw_emit (demo_slib (\<lambda>h. [])) EvMessage (PString (lit ''7'')) (demo_raw [] []) = (Ok (), s') \<and>
    (\<exists>p r'. raw_poll (demo_slib (\<lambda>h. [])) (demo_raw (map WsMsg frames) []) = (Ok (Some p), r') \<and>
       rw_calls r' = [CallOn 1 (PString (lit ''7''))])"
proof -
  let ?L = "demo_slib (\<lambda>h. [])" and ?s = "demo_raw [] []"
  have J: "sl_json ?L = flat_json" by (simp add: demo_slib_def)
  have one: "plain_text (rw_nsp ?s)" "nsp_ok (rw_nsp ?s)" "ready 1 (rw_socket ?s)" "plain_text (lit ''7'')"
    "plain_text (event_to_string EvMessage)" "event_of_string (event_to_string EvMessage) = EvMessage"
    "lit ''7'' = (case json_parse (sl_json ?L) (lit ''7'') of Inr _ \<Rightarrow> lit ''7'' | Inl _ \<Rightarrow> quote_json (lit ''7''))"
    by (simp_all add: plain_text_def nsp_ok_def starts_with_def scalar_def ready_demo event_of_string_def
        to_lowercase_def lower_char_def J) (simp add: flat_json_def)
  have two: "json_parse (sl_json ?L) (event_array EvMessage (lit ''7'')) = Inr (event_array EvMessage (lit ''7''))"
    "json_print (sl_json ?L) (event_array EvMessage (lit ''7'')) = event_array EvMessage (lit ''7'')"
    "json_as_array (sl_json ?L) (event_array EvMessage (lit ''7'')) = Some [quote_json (lit ''message''), lit ''7'']"
    "json_as_string (sl_json ?L) (quote_json (lit ''message'')) = Some (event_to_string EvMessage)"
    "json_print (sl_json ?L) (lit ''7'') = lit ''7''"
    unfolding J flat_event_array by simp_all
  have "sl_script ?L h = []" for h by (simp add: demo_slib_def)
  from emit_reaches_callback [OF one two this, of 1] obtain frames s' where
    "raw_emit ?L EvMessage (PString (lit ''7'')) ?s = (Ok (), s')"
    and recv: "\<forall>r. receiving frames (rw_socket r) \<and> rw_nsp r = rw_nsp ?s \<and> map_of (rw_on r) EvMessage = Some 1 \<and>
      rw_on_any r = None \<longrightarrow>
       (\<exists>p r'. raw_poll ?L r = (Ok (Some p), r') \<and> rw_calls r' = rw_calls r @ [CallOn 1 (PString (lit ''7''))])"
    by blast
  moreover have "receiving frames (rw_socket (demo_raw (map WsMsg frames) []))"
    by (simp add: receiving_def demo_net_def)
  with recv have "\<exists>p r'. raw_poll ?L (demo_raw (map WsMsg frames) []) = (Ok (Some p), r') \<and>
      rw_calls r' = [CallOn 1 (PString (lit ''7''))]" by fastforce
  ultimately show ?thesis by blast
qed

text \<open>A connect packet of the client's namespace, for a witness.\<close>

lemma demo_poll_connect:
  "\<exists>r'. raw_poll (demo_slib (\<lambda>h. [])) (demo_raw [WsMsg (WsText (lit ''40''))] []) =
     (Ok (Some (spacket SConnect (lit ''/'') None None 0 None)), r')"
proof -
  let ?L = "demo_slib (\<lambda>h. [])" and ?p = "spacket SConnect (lit ''/'') None None 0 None"
  let ?r = "demo_raw [WsMsg (WsText (lit ''40''))] []"
  have "fst (ssocket_poll nibble64 demo_urls flat_json (demo_ssocket [WsMsg (WsText (lit ''40''))])) = Ok (Some ?p)"
    by (rule ssocket_poll_frames [where t = "lit ''0''" and v = 0 and later = "[]"])
      (simp_all add: scalar_def spacket_def packet_frames_def demo_net_def decode_text_def spacket_id_try_from_char_def
        decode_count_def is_binary_type_def parse_u8_def digits_value_def spacket_default_def)
  then obtain t where "ssocket_poll (sl_b64 ?L) (sl_url ?L) (sl_json ?L) (rw_socket ?r) = (Ok (Some ?p), t)"
    by (simp add: demo_slib_def) (metis prod.collapse)
  moreover have "s_nsp ?p = rw_nsp ?r" by (simp add: spacket_def)
  ultimately have "raw_poll ?L ?r = seq (raw_handle_packet ?L ?p) (\<lambda>_. give (Ok (Some ?p))) (?r\<lparr>rw_socket := t\<rparr>)"
    by (rule raw_poll_step)
  moreover have "sl_script ?L h = []" for h by (simp add: demo_slib_def)
  from raw_callback_silent [OF this] have "\<exists>r'. raw_handle_packet ?L ?p (?r\<lparr>rw_socket := t\<rparr>) = (Ok (), r')"
    by (simp add: raw_handle_packet_def spacket_def)
  ultimately show ?thesis by auto
qed

theorem raw_poll_own_namespace_witness:
  "s_nsp (spacket SConnect (lit ''/'') None None 0 None) = rw_nsp (demo_raw [] [])"
proof -
  obtain r' where "raw_poll (demo_slib (\<lambda>h. [])) (demo_raw [WsMsg (WsText (lit ''40''))] []) =
     (Ok (Some (spacket SConnect (lit ''/'') None None 0 None)), r')"
    using demo_poll_connect by blast
  from raw_poll_own_namespace [OF this] show ?thesis by (simp add: demo_raw_def raw_new_def)
qed

section \<open>Opening and closing\<close>

lemma esocket_connect_ws:
  assumes "es_transport e = Websocket u" "ws_send_in (es_net e) = Inr () # rest"
  obtains e' where "esocket_connect B U e = (Ok (), e')" "es_connected e'" "es_transport e' = Websocket u"
    "ws_send_in (es_net e') = rest"
    "wire (es_net e') = wire (es_net e) @ [WsSend (WsText (lit ''3''))]"
proof -
  let ?e = "pinged (fire has_open OnOpen (e\<lparr>es_connected := True\<rparr>))"
  let ?w = "(log_request (WsSend (WsText (lit ''3''))) (es_net e))\<lparr>ws_send_in := rest\<rparr>"
  have "ws_send (WsText (lit ''3'')) (es_net e) = (Ok (), ?w)"
    using assms(2) by (simp add: ws_send_def log_request_def Let_def del: lit_simps)
  moreover have "from_utf8 (ascii ''3'') = Some (lit ''3'')" by (simp add: from_utf8_def)
  ultimately have "esocket_connect B U e = (Ok (), ?e\<lparr>es_net := ?w\<rparr>)"
    using assms(1)
    by (simp add: esocket_connect_def esocket_emit_def on_net_def transport_emit_def ws_emit_def
        ws_send_text_def Let_def del: lit_simps ascii_simps)
  then show thesis
    by (rule that) (use assms(1) in \<open>simp_all add: log_request_def\<close>)
qed

text \<open>Opening a connection over a websocket sends the engine's \<open>Pong\<close> and then the socket.io connect
  packet of the namespace, with the printed auth data if there is any, and leaves the client open.\<close>

theorem raw_connect_opens:
  assumes "es_transport (ss_engine (rw_socket s)) = Websocket u"
    and "ws_send_in (es_net (ss_engine (rw_socket s))) = Inr () # Inr () # rest"
    and "list_all scalar (rw_nsp s)" "\<And>j. rw_auth s = Some j \<Longrightarrow> list_all scalar (json_print (sl_json L) j)"
  shows "\<exists>s'. raw_connect L s = (Ok (), s') \<and> ss_open (rw_socket s') \<and>
    wire (es_net (ss_engine (rw_socket s'))) = wire (es_net (ss_engine (rw_socket s))) @
      [WsSend (WsText (lit ''3'')),
       WsSend (WsText (lit ''40'' @ (if rw_nsp s \<noteq> lit ''/'' then rw_nsp s @ lit '','' else []) @
         (case rw_auth s of Some j \<Rightarrow> json_print (sl_json L) j | None \<Rightarrow> [])))]"
proof -
  obtain e where e: "esocket_connect (sl_b64 L) (sl_url L) (ss_engine (rw_socket s)) = (Ok (), e)"
    "es_connected e" "es_transport e = Websocket u" "ws_send_in (es_net e) = Inr () # rest"
    "wire (es_net e) = wire (es_net (ss_engine (rw_socket s))) @ [WsSend (WsText (lit ''3''))]"
    by (rule esocket_connect_ws [OF assms(1,2)])
  let ?s1 = "s\<lparr>rw_socket := \<lparr>ss_engine = e, ss_connected = True\<rparr>\<rparr>"
  have con: "on_socket (ssocket_connect (sl_b64 L) (sl_url L)) s = (Ok (), ?s1)"
    using e(1) by (simp add: on_socket_def ssocket_connect_def seq_def on_engine_def)
  let ?p = "spacket SConnect (rw_nsp s) (map_option (json_print (sl_json L)) (rw_auth s)) None 0 None"
  let ?t = "encode_head ?p @ (case s_data ?p of Some d \<Rightarrow> d | None \<Rightarrow> [])"
  have enc: "encode_text (sl_oc L) ?p = Some ?t" by (simp add: encode_text_def spacket_def)
  have sc: "list_all scalar ?t"
    using encode_head_scalars [of ?p] assms(3,4) by (simp add: spacket_def split: option.splits)
  have t: "of_char CHR ''4'' # ?t = lit ''40'' @ (if rw_nsp s \<noteq> lit ''/'' then rw_nsp s @ lit '','' else []) @
      (case rw_auth s of Some j \<Rightarrow> json_print (sl_json L) j | None \<Rightarrow> [])"
    by (simp add: encode_head_def spacket_def is_binary_type_def u8_to_string_def decimal_small split: option.splits)
  have "ready (length (packet_frames ?t ?p)) \<lparr>ss_engine = e, ss_connected = True\<rparr>"
    using e by (simp add: ready_def packet_frames_def spacket_def)
  from ssocket_send_frames [OF enc sc this, of "sl_b64 L" "sl_url L"] obtain z where z:
    "ssocket_send (sl_oc L) (sl_b64 L) (sl_url L) ?p \<lparr>ss_engine = e, ss_connected = True\<rparr> = (Ok (), z)"
    "wire (es_net (ss_engine z)) = wire (es_net e) @ [WsSend (WsText (of_char CHR ''4'' # ?t))]"
    by (auto simp: packet_frames_def spacket_def)
  have "ss_open z"
    using ssocket_send_open [of "sl_oc L" "sl_b64 L" "sl_url L" ?p "\<lparr>ss_engine = e, ss_connected = True\<rparr>"] e(2)
    by (simp add: z(1))
  moreover have "raw_connect L s = (Ok (), s\<lparr>rw_socket := z\<rparr>)"
    using con z(1) by (simp add: raw_connect_def on_socket_def Let_def)
  ultimately show ?thesis using z(2) e(5) unfolding t by simp
qed

theorem raw_connect_opens_witness:
  "\<exists>s'. raw_connect (demo_slib (\<lambda>h. [])) (demo_raw [] []) = (Ok (), s') \<and> ss_open (rw_socket s')"
proof -
  have "es_transport (ss_engine (rw_socket (demo_raw [] []))) = Websocket 0"
    "ws_send_in (es_net (ss_engine (rw_socket (demo_raw [] [])))) = Inr () # Inr () # []"
    "list_all scalar (rw_nsp (demo_raw [] []))"
    "\<And>j. rw_auth (demo_raw [] []) = Some j \<Longrightarrow> list_all scalar (json_print (sl_json (demo_slib (\<lambda>h. []))) j)"
    by (simp_all add: demo_net_def scalar_def) (simp add: demo_raw_def raw_new_def)
  from raw_connect_opens [OF this] show ?thesis by blast
qed

text \<open>C32: \<open>disconnect\<close> closes for good. A disconnect that comes to its end has called the close callback
  exactly once if there is one, and every later \<open>emit\<close> is refused without reaching the network, where
  callbacks make no calls of the client.\<close>

theorem raw_disconnect_closes:
  assumes "raw_disconnect L s = (Ok u, s')" "\<And>h. sl_script L h = []"
  shows "rw_calls s' = rw_calls s @ expected_calls s EvClose (PString []) \<and>
    raw_emit L ev d s' = (Err SIllegalActionBeforeOpen, s')"
proof -
  have "seq (ignore (on_socket (ssocket_send (sl_oc L) (sl_b64 L) (sl_url L)
            (spacket SDisconnect (rw_nsp s) None None 0 None)))) (\<lambda>_.
     seq (on_socket (ssocket_disconnect (sl_b64 L) (sl_url L))) (\<lambda>_.
     ignore (raw_callback L EvClose (PString [])))) s = (Ok u, s')"
    using assms(1) by (simp add: raw_disconnect_def raw_disconnect_with_def)
  then obtain y s1 where
    s1: "ignore (on_socket (ssocket_send (sl_oc L) (sl_b64 L) (sl_url L)
            (spacket SDisconnect (rw_nsp s) None None 0 None))) s = (Ok y, s1)"
    and r1: "seq (on_socket (ssocket_disconnect (sl_b64 L) (sl_url L))) (\<lambda>_.
       ignore (raw_callback L EvClose (PString []))) s1 = (Ok u, s')"
    by (rule seq_OkE)
  from r1 obtain x s2 where
    s2: "on_socket (ssocket_disconnect (sl_b64 L) (sl_url L)) s1 = (Ok x, s2)"
    and s': "ignore (raw_callback L EvClose (PString [])) s2 = (Ok u, s')"
    by (rule seq_OkE)
  have "rw_calls s1 = rw_calls s" "same_tables s s1"
    using keepsD [OF keeps_ignore [OF keeps_calls_on_socket] refl, where s = s]
      keepsD [OF keeps_ignore [OF keeps_on_socket] same_tables_refl, where s = s] s1
    by (metis snd_conv)+
  moreover have "rw_calls s2 = rw_calls s1" "same_tables s1 s2"
    using keepsD [OF keeps_calls_on_socket refl, where s = s1]
      keepsD [OF keeps_on_socket same_tables_refl, where s = s1] s2
    by (metis snd_conv)+
  moreover have sk: "\<not> ss_open (rw_socket s2)"
    using s2 ssocket_disconnect_closes by (fastforce simp: on_socket_def split: prod.splits)
  moreover have "s' = s2\<lparr>rw_calls := rw_calls s2 @ expected_calls s2 EvClose (PString [])\<rparr>"
    using s' raw_callback_silent [OF assms(2), of EvClose "PString []" s2] by simp
  ultimately show ?thesis
    by (auto simp: expected_calls_def same_tables_def raw_emit_def on_socket_def ssocket_emit_def
        ssocket_send_def is_engineio_connected_def)
qed

theorem raw_disconnect_closes_witness:
  "\<exists>s s'. raw_disconnect (demo_slib (\<lambda>h. [])) s = (Ok (), s') \<and> rw_calls s' = [CallOn 2 (PString [])]"
proof -
  let ?L = "demo_slib (\<lambda>h. [])"
  let ?s = "(demo_raw [] [])\<lparr>rw_socket := \<lparr>ss_engine = (demo_socket [])\<lparr>es_connected := False\<rparr>, ss_connected = True\<rparr>\<rparr>"
  have script: "sl_script ?L h = []" for h by (simp add: demo_slib_def)
  have "fst (raw_disconnect ?L ?s) = Ok ()"
    using raw_callback_silent [OF script]
    by (simp add: raw_disconnect_def raw_disconnect_with_def seq_def ignore_def on_socket_def ssocket_send_def
        is_engineio_connected_def ssocket_disconnect_def)
  then obtain s' where run: "raw_disconnect ?L ?s = (Ok (), s')" by (metis prod.collapse)
  from raw_disconnect_closes [OF run script] have "rw_calls s' = [CallOn 2 (PString [])]"
    by (simp add: expected_calls_def own_call_def any_call_def)
  with run show ?thesis by blast
qed

end
