(* ===== verification/Sio_Client.thy ===== *)
theory Sio_Client
  imports Raw_Client
begin

text \<open>
  \<open>socketio/src/client/builder.rs\<close> and \<open>client.rs\<close>: the builder, and the client that polls in a thread
  of its own and replaces its connection when it breaks.

  The connection that is replaced and the new one share the network record, so the requests of all
  attempts are one history. \<open>cl_attempts\<close> counts the attempts made, \<open>cl_slept\<close> are the times waited
  between them, \<open>cl_backoff\<close> the answers of the backoff to come. The reconnect loop may not end, so it
  takes fuel; \<open>None\<close> is the loop that has not ended yet.
\<close>

section \<open>The builder\<close>

datatype transport_type = TAny | TWebsocket | TWebsocketUpgrade | TPolling

record 'j sbuilder =
  sb_address :: rstring
  sb_on :: "(sevent \<times> nat) list"
  sb_on_any :: "nat option"
  sb_namespace :: rstring
  sb_headers :: "header_map option"
  sb_transport :: transport_type
  sb_auth :: "'j option"
  sb_reconnect :: bool
  sb_reconnect_on_disconnect :: bool
  sb_max_attempts :: "u8 option"
  sb_delay_min :: u64
  sb_delay_max :: u64

definition sbuilder_new :: "rstring \<Rightarrow> 'j sbuilder" where
  "sbuilder_new addr =
     \<lparr>sb_address = addr, sb_on = [], sb_on_any = None, sb_namespace = lit ''/'', sb_headers = None,
      sb_transport = TAny, sb_auth = None, sb_reconnect = True, sb_reconnect_on_disconnect = False,
      sb_max_attempts = None, sb_delay_min = 1000, sb_delay_max = 5000\<rparr>"

definition sb_set_namespace :: "rstring \<Rightarrow> 'j sbuilder \<Rightarrow> 'j sbuilder" where
  "sb_set_namespace nsp b =
     b\<lparr>sb_namespace := (if \<not> starts_with nsp (of_char CHR ''/'') then lit ''/'' @ nsp else nsp)\<rparr>"

definition sb_set_reconnect :: "bool \<Rightarrow> 'j sbuilder \<Rightarrow> 'j sbuilder" where
  "sb_set_reconnect r b = b\<lparr>sb_reconnect := r\<rparr>"

definition sb_set_reconnect_on_disconnect :: "bool \<Rightarrow> 'j sbuilder \<Rightarrow> 'j sbuilder" where
  "sb_set_reconnect_on_disconnect r b = b\<lparr>sb_reconnect_on_disconnect := r\<rparr>"

definition sb_set_reconnect_delay :: "u64 \<Rightarrow> u64 \<Rightarrow> 'j sbuilder \<Rightarrow> 'j sbuilder" where
  "sb_set_reconnect_delay mn mx b = b\<lparr>sb_delay_min := mn, sb_delay_max := mx\<rparr>"

definition sb_set_max_attempts :: "u8 \<Rightarrow> 'j sbuilder \<Rightarrow> 'j sbuilder" where
  "sb_set_max_attempts m b = b\<lparr>sb_max_attempts := Some m\<rparr>"

definition sb_set_on :: "sevent \<Rightarrow> nat \<Rightarrow> 'j sbuilder \<Rightarrow> 'j sbuilder" where
  "sb_set_on event callback b = b\<lparr>sb_on := AList.update event callback (sb_on b)\<rparr>"

definition sb_set_on_any :: "nat \<Rightarrow> 'j sbuilder \<Rightarrow> 'j sbuilder" where
  "sb_set_on_any callback b = b\<lparr>sb_on_any := Some callback\<rparr>"

definition sb_opening_header :: "header_name \<Rightarrow> header_value \<Rightarrow> 'j sbuilder \<Rightarrow> 'j sbuilder" where
  "sb_opening_header key val b =
     b\<lparr>sb_headers := Some (snd (header_map_insert key val
        (case sb_headers b of Some m \<Rightarrow> m | None \<Rightarrow> header_map_new)))\<rparr>"

definition sb_set_auth :: "'j \<Rightarrow> 'j sbuilder \<Rightarrow> 'j sbuilder" where
  "sb_set_auth auth b = b\<lparr>sb_auth := Some auth\<rparr>"

definition sb_set_transport :: "transport_type \<Rightarrow> 'j sbuilder \<Rightarrow> 'j sbuilder" where
  "sb_set_transport t b = b\<lparr>sb_transport := t\<rparr>"

section \<open>Connecting\<close>

text \<open>The engine.io builder that \<open>connect_raw\<close> sets up for a parsed address.\<close>

definition engine_builder :: "'u elib \<Rightarrow> 'j sbuilder \<Rightarrow> 'u \<Rightarrow> 'u ebuilder" where
  "engine_builder E b url =
     (let url' = (if url_path (lib_url E) url = lit ''/''
                  then url_set_path (lib_url E) url (lit ''/socket.io/'') else url);
          builder = ebuilder_new E url'
      in case sb_headers b of Some h \<Rightarrow> ebuilder_headers h builder | None \<Rightarrow> builder)"

definition build_engine :: "'u elib \<Rightarrow> transport_type \<Rightarrow> 'u ebuilder \<Rightarrow> ('u net, eerror, 'u esocket) proc" where
  "build_engine E t builder =
     (case t of
        TAny \<Rightarrow> build_with_fallback E builder
      | TPolling \<Rightarrow> build_polling E builder
      | TWebsocket \<Rightarrow> build_websocket E builder
      | TWebsocketUpgrade \<Rightarrow> build_websocket_with_upgrade E builder)"

definition raw_net :: "('u, 'j) raw \<Rightarrow> 'u net" where
  "raw_net r = es_net (ss_engine (rw_socket r))"

text \<open>\<open>connect_raw\<close>; the history of calls goes on, because the callback tables are shared.\<close>

definition connect_raw ::
  "('u, 'j) slib \<Rightarrow> 'j sbuilder \<Rightarrow> (nat \<Rightarrow> nat) \<Rightarrow> (nat \<Rightarrow> nat) \<Rightarrow> call list \<Rightarrow>
   ('u net, serror, ('u, 'j) raw) proc" where
  "connect_raw L b time rand calls w =
     (case url_parse (sl_url L) (sb_address b) of
        Inl e \<Rightarrow> (Err (SInvalidUrl e), w)
      | Inr url \<Rightarrow>
          (case build_engine (sl_engine L) (sb_transport b) (engine_builder (sl_engine L) b url) w of
             (Ok engine_client, w1) \<Rightarrow>
               (case raw_connect L
                  ((raw_new (ssocket_new engine_client) (sb_namespace b) (sb_on b) (sb_on_any b) (sb_auth b) time rand)
                   \<lparr>rw_calls := calls\<rparr>) of
                  (Ok _, r) \<Rightarrow> (Ok r, raw_net r)
                | (Err e, r) \<Rightarrow> (Err e, raw_net r)
                | (Panic, r) \<Rightarrow> (Panic, raw_net r)
                | (Block, r) \<Rightarrow> (Block, raw_net r))
           | (Err e, w1) \<Rightarrow> (Err (SIncompleteResponseFromEngineIo e), w1)
           | (Panic, w1) \<Rightarrow> (Panic, w1)
           | (Block, w1) \<Rightarrow> (Block, w1)))"

section \<open>The client\<close>

record ('u, 'j) client =
  cl_builder :: "'j sbuilder"
  cl_raw :: "('u, 'j) raw"
  cl_attempts :: nat
  cl_backoff :: "nat \<Rightarrow> nat option"
  cl_slept :: "nat list"

text \<open>\<open>Client::new\<close>, up to starting the polling thread.\<close>

definition client_new ::
  "('u, 'j) slib \<Rightarrow> 'j sbuilder \<Rightarrow> (nat \<Rightarrow> nat) \<Rightarrow> (nat \<Rightarrow> nat) \<Rightarrow> ('u net, serror, ('u, 'j) client) proc" where
  "client_new L b time rand =
     seq (connect_raw L b time rand []) (\<lambda>client.
     give (Ok \<lparr>cl_builder = b, cl_raw = client, cl_attempts = 0,
       cl_backoff = sl_backoff L (sb_delay_min b) (sb_delay_max b), cl_slept = []\<rparr>))"

definition on_raw :: "('u, 'j, 'a) raw_proc \<Rightarrow> (('u, 'j) client, serror, 'a) proc" where
  "on_raw m c = (case m (cl_raw c) of (r, t) \<Rightarrow> (r, c\<lparr>cl_raw := t\<rparr>))"

definition client_emit :: "('u, 'j) slib \<Rightarrow> sevent \<Rightarrow> spayload \<Rightarrow> (('u, 'j) client, serror, unit) proc" where
  "client_emit L event data = on_raw (raw_emit L event data)"

definition client_emit_with_ack ::
  "('u, 'j) slib \<Rightarrow> sevent \<Rightarrow> spayload \<Rightarrow> nat \<Rightarrow> nat \<Rightarrow> (('u, 'j) client, serror, unit) proc" where
  "client_emit_with_ack L event data timeout callback = on_raw (raw_emit_with_ack L event data timeout callback)"

definition client_disconnect :: "('u, 'j) slib \<Rightarrow> (('u, 'j) client, serror, unit) proc" where
  "client_disconnect L = on_raw (raw_disconnect L)"

text \<open>The network of the record goes on when an attempt fails; the old client stays.\<close>

definition with_net :: "'u net \<Rightarrow> ('u, 'j) raw \<Rightarrow> ('u, 'j) raw" where
  "with_net w r = r\<lparr>rw_socket := (rw_socket r)\<lparr>ss_engine := (ss_engine (rw_socket r))\<lparr>es_net := w\<rparr>\<rparr>\<rparr>"

definition do_reconnect :: "('u, 'j) slib \<Rightarrow> (('u, 'j) client, serror, unit) proc" where
  "do_reconnect L c =
     (let r = cl_raw c; c1 = c\<lparr>cl_attempts := cl_attempts c + 1\<rparr> in
      case connect_raw L (cl_builder c) (rw_time r) (rw_rand r) (rw_calls r) (raw_net r) of
        (Ok new_client, _) \<Rightarrow> (Ok (), c1\<lparr>cl_raw := new_client\<rparr>)
      | (Err e, w) \<Rightarrow> (Err e, c1\<lparr>cl_raw := with_net w r\<rparr>)
      | (Panic, w) \<Rightarrow> (Panic, c1\<lparr>cl_raw := with_net w r\<rparr>)
      | (Block, w) \<Rightarrow> (Block, c1\<lparr>cl_raw := with_net w r\<rparr>))"

text \<open>\<open>if let Some(backoff) = self.backoff.next_backoff() { sleep(backoff) }\<close>\<close>

definition wait_backoff :: "('u, 'j) client \<Rightarrow> ('u, 'j) client" where
  "wait_backoff c =
     (case cl_backoff c 0 of Some d \<Rightarrow> c\<lparr>cl_slept := cl_slept c @ [d]\<rparr> | None \<Rightarrow> c)
     \<lparr>cl_backoff := (\<lambda>n. cl_backoff c (Suc n))\<rparr>"

text \<open>The loop of \<open>reconnect\<close>: the counter is a \<open>u8\<close>.\<close>

fun reconnect_loop ::
  "('u, 'j) slib \<Rightarrow> nat \<Rightarrow> u8 \<Rightarrow> ('u, 'j) client \<Rightarrow> ((serror, unit) outcome \<times> ('u, 'j) client) option" where
  "reconnect_loop L 0 reconnect_attempts c = None"
| "reconnect_loop L (Suc fuel) reconnect_attempts c =
     (if (case sb_max_attempts (cl_builder c) of
            Some max_reconnect_attempts \<Rightarrow> reconnect_attempts > max_reconnect_attempts
          | None \<Rightarrow> False)
      then Some (Ok (), c)
      else if sl_oc L \<and> reconnect_attempts = 255 then Some (Panic, c)
      else case do_reconnect L (wait_backoff c) of
        (Ok _, c') \<Rightarrow> Some (Ok (), c')
      | (Err _, c') \<Rightarrow> reconnect_loop L fuel (reconnect_attempts + 1) c'
      | (Panic, c') \<Rightarrow> Some (Panic, c')
      | (Block, c') \<Rightarrow> Some (Block, c'))"

definition reconnect ::
  "('u, 'j) slib \<Rightarrow> nat \<Rightarrow> ('u, 'j) client \<Rightarrow> ((serror, unit) outcome \<times> ('u, 'j) client) option" where
  "reconnect L fuel c =
     (if sb_reconnect (cl_builder c) then reconnect_loop L fuel 0 c else Some (Ok (), c))"

text \<open>\<open>Iter::next\<close>: a closed engine connection is an error item.\<close>

definition client_next :: "('u, 'j) slib \<Rightarrow> (('u, 'j) client, serror, serror + spacket) proc" where
  "client_next L c =
     (case on_raw (raw_poll L) c of
        (Err err, c') \<Rightarrow> (Ok (Inl err), c')
      | (Ok (Some packet), c') \<Rightarrow> (Ok (Inr packet), c')
      | (Ok None, c') \<Rightarrow> (Ok (Inl SStoppedEngineIoSocket), c')
      | (Panic, c') \<Rightarrow> (Panic, c')
      | (Block, c') \<Rightarrow> (Block, c'))"

definition should_reconnect :: "'j sbuilder \<Rightarrow> serror + spacket \<Rightarrow> bool" where
  "should_reconnect b item =
     (case item of
        Inl (SIncompleteResponseFromEngineIo _) \<Rightarrow> True
      | Inr packet \<Rightarrow> s_type packet = SDisconnect \<and> sb_reconnect_on_disconnect b
      | _ \<Rightarrow> False)"

text \<open>One round of the polling thread.\<close>

definition poll_round ::
  "('u, 'j) slib \<Rightarrow> nat \<Rightarrow> ('u, 'j) client \<Rightarrow> ((serror, unit) outcome \<times> ('u, 'j) client) option" where
  "poll_round L fuel c =
     (case client_next L c of
        (Ok packet, c1) \<Rightarrow>
          if should_reconnect (cl_builder c1) packet then
            (case ignore (client_disconnect L) c1 of
               (Ok _, c2) \<Rightarrow> reconnect L fuel c2
             | (r, c2) \<Rightarrow> Some (r, c2))
          else Some (Ok (), c1)
      | (Err e, c1) \<Rightarrow> Some (Err e, c1)
      | (Panic, c1) \<Rightarrow> Some (Panic, c1)
      | (Block, c1) \<Rightarrow> Some (Block, c1))"

text \<open>The thread: rounds as long as they end normally.\<close>

fun poll_rounds ::
  "('u, 'j) slib \<Rightarrow> nat \<Rightarrow> nat \<Rightarrow> ('u, 'j) client \<Rightarrow> ((serror, unit) outcome \<times> ('u, 'j) client) option" where
  "poll_rounds L fuel 0 c = Some (Ok (), c)"
| "poll_rounds L fuel (Suc n) c =
     (case poll_round L fuel c of
        Some (Ok _, c') \<Rightarrow> poll_rounds L fuel n c'
      | r \<Rightarrow> r)"

section \<open>Reconnecting\<close>

lemma with_net_fields [simp]:
  "raw_net (with_net w r) = w" "rw_time (with_net w r) = rw_time r" "rw_rand (with_net w r) = rw_rand r"
  "rw_calls (with_net w r) = rw_calls r" "with_net w (with_net v r) = with_net w r"
  by (simp_all add: with_net_def raw_net_def)

lemma do_reconnect_fields:
  "cl_attempts (snd (do_reconnect L c)) = cl_attempts c + 1"
  "cl_builder (snd (do_reconnect L c)) = cl_builder c"
  by (simp_all add: do_reconnect_def Let_def split: prod.splits outcome.splits)

lemma wait_backoff_fields [simp]:
  "cl_builder (wait_backoff c) = cl_builder c" "cl_raw (wait_backoff c) = cl_raw c"
  "cl_attempts (wait_backoff c) = cl_attempts c"
  "wait_backoff (c\<lparr>cl_raw := r\<rparr>) = wait_backoff c\<lparr>cl_raw := r\<rparr>"
  "wait_backoff (c\<lparr>cl_attempts := n\<rparr>) = wait_backoff c\<lparr>cl_attempts := n\<rparr>"
  by (simp_all add: wait_backoff_def split: option.split)

text \<open>What the next \<open>n\<close> answers of the backoff make the client wait.\<close>

definition pauses :: "nat \<Rightarrow> (nat \<Rightarrow> nat option) \<Rightarrow> nat list" where
  "pauses n f = List.map_filter f [0..<n]"

lemma waits:
  "cl_slept ((wait_backoff ^^ n) c) = cl_slept c @ pauses n (cl_backoff c)"
  "cl_backoff ((wait_backoff ^^ n) c) = (\<lambda>k. cl_backoff c (n + k))"
  "cl_builder ((wait_backoff ^^ n) c) = cl_builder c" "cl_raw ((wait_backoff ^^ n) c) = cl_raw c"
  by (induction n) (auto simp: wait_backoff_def pauses_def map_filter_def split: option.split)

lemma waits_upd [simp]:
  "(wait_backoff ^^ n) (c\<lparr>cl_raw := r\<rparr>) = (wait_backoff ^^ n) c\<lparr>cl_raw := r\<rparr>"
  "(wait_backoff ^^ n) (c\<lparr>cl_attempts := k\<rparr>) = (wait_backoff ^^ n) c\<lparr>cl_attempts := k\<rparr>"
  by (induction n) simp_all

lemma unat_succ8: "a \<noteq> 255 \<Longrightarrow> unat (a + 1 :: u8) = unat a + 1"
proof -
  assume "a \<noteq> 255"
  have "(255 :: u8) = - 1" by simp
  with \<open>a \<noteq> 255\<close> have "1 + a \<noteq> 0" by (metis add.commute eq_neg_iff_add_eq_0)
  then show ?thesis by (simp add: unatSuc add.commute)
qed

text \<open>One attempt with the wait before it; the client after \<open>n\<close> attempts, and what the one after them gives.\<close>

definition attempt :: "('u, 'j) slib \<Rightarrow> (('u, 'j) client, serror, unit) proc" where
  "attempt L c = do_reconnect L (wait_backoff c)"

definition attempted :: "('u, 'j) slib \<Rightarrow> nat \<Rightarrow> ('u, 'j) client \<Rightarrow> ('u, 'j) client" where
  "attempted L n c = ((\<lambda>c. snd (attempt L c)) ^^ n) c"

definition attempt_result :: "('u, 'j) slib \<Rightarrow> nat \<Rightarrow> ('u, 'j) client \<Rightarrow> (serror, unit) outcome" where
  "attempt_result L n c = fst (attempt L (attempted L n c))"

lemma attempt_fields:
  "cl_attempts (snd (attempt L c)) = cl_attempts c + 1" "cl_builder (snd (attempt L c)) = cl_builder c"
  by (simp_all add: attempt_def do_reconnect_fields)

lemma attempted_steps: "attempted L 0 c = c" "attempted L (Suc n) c = attempted L n (snd (attempt L c))"
  by (simp_all add: attempted_def funpow_Suc_right del: funpow.simps(2))

lemma attempted_counts: "cl_attempts (attempted L n c) = cl_attempts c + n"
  by (induction n arbitrary: c) (simp_all add: attempted_steps attempt_fields)

lemmas attempted_simps = attempted_steps attempt_result_def

text \<open>From the counter at \<open>a\<close> the loop makes attempts up to the first that does not fail, and at most \<open>m - a + 1\<close>.\<close>

lemma reconnect_loop_attempts:
  assumes "sb_max_attempts (cl_builder c) = Some m" "m < 255" "unat a + d = unat m" "d + 2 \<le> fuel"
  shows "\<exists>n \<le> d. (\<forall>k < n. \<exists>e. attempt_result L k c = Err e) \<and> ((\<exists>e. attempt_result L n c = Err e) \<longrightarrow> n = d) \<and>
    reconnect_loop L fuel a c =
      Some (if attempt_result L n c \<in> {Panic, Block} then attempt_result L n c else Ok (), attempted L (Suc n) c)"
  using assms
proof (induction d arbitrary: fuel a c)
  case (0 fuel a c)
  then have a: "a = m" by (simp add: word_unat_eq_iff)
  have "a \<noteq> 255" using a "0.prems"(2) by auto
  then have next': "a + 1 > m" using unat_succ8 [of a] a by (simp add: word_less_nat_alt)
  obtain f where f: "fuel = Suc (Suc f)" using "0.prems"(4) by (intro that [of "fuel - 2"]) simp
  obtain r c1 where r: "do_reconnect L (wait_backoff c) = (r, c1)" by fastforce
  then have "cl_builder c1 = cl_builder c" using do_reconnect_fields(2) [of L "wait_backoff c"] by simp
  then have stop: "reconnect_loop L (Suc f) (a + 1) c1 = Some (Ok (), c1)" using "0.prems"(1) next' by simp
  have "reconnect_loop L fuel a c = Some (if r \<in> {Panic, Block} then r else Ok (), c1)"
    using "0.prems"(1,2) a r stop by (cases r) (auto simp: f)
  with r show ?case by (intro exI [of _ 0]) (simp add: attempted_simps attempt_def)
next
  case (Suc d fuel a c)
  have le: "\<not> a > m" "a \<noteq> 255" using Suc.prems(2,3) by (auto simp: word_less_nat_alt)
  then have count: "unat (a + 1) + d = unat m" using unat_succ8 [of a] Suc.prems(3) by simp
  obtain f where f: "fuel = Suc f" "d + 2 \<le> f" using Suc.prems(4) by (cases fuel) simp_all
  obtain r c1 where r: "do_reconnect L (wait_backoff c) = (r, c1)" by fastforce
  then have c1: "sb_max_attempts (cl_builder c1) = Some m"
    using do_reconnect_fields(2) [of L "wait_backoff c"] Suc.prems(1) by simp
  show ?case
  proof (cases "\<exists>e. r = Err e")
    case True
    with r le Suc.prems(1) have "reconnect_loop L fuel a c = reconnect_loop L f (a + 1) c1" by (auto simp: f)
    with Suc.IH [OF c1 Suc.prems(2) count f(2)] obtain n where n: "n \<le> d" "\<forall>k<n. \<exists>e. attempt_result L k c1 = Err e"
      "(\<exists>e. attempt_result L n c1 = Err e) \<longrightarrow> n = d" "reconnect_loop L fuel a c =
        Some (if attempt_result L n c1 \<in> {Panic, Block} then attempt_result L n c1 else Ok (), attempted L (Suc n) c1)" by auto
    have "\<exists>e. attempt_result L k c = Err e" if "k < Suc n" for k
      using that n(2) True r by (cases k) (simp_all add: attempted_simps attempt_def)
    with n r show ?thesis by (intro exI [of _ "Suc n"]) (simp add: attempted_simps attempt_def)
  next
    case False
    with r le Suc.prems(1) have "reconnect_loop L fuel a c = Some (if r \<in> {Panic, Block} then r else Ok (), c1)"
      by (cases r) (auto simp: f)
    with r False show ?thesis by (intro exI [of _ 0]) (simp add: attempted_simps attempt_def)
  qed
qed

text \<open>C24: with reconnecting enabled and a maximum \<open>m\<close> below 255, \<open>reconnect\<close> makes attempts up to the first
  that does not fail with an error, and at most \<open>m + 1\<close>. It comes back, with \<open>Ok\<close>, as soon as that attempt has
  succeeded or the last one has failed: so it ends if each of its attempts ends. If the attempt it stops at
  does not come back or panics, neither does \<open>reconnect\<close>; nothing else keeps it. Fuel \<open>m + 2\<close> is enough.\<close>

theorem reconnect_terminates:
  assumes "sb_max_attempts (cl_builder c) = Some m" "m < 255" "sb_reconnect (cl_builder c)"
  shows "\<exists>n \<le> unat m. (\<forall>k < n. \<exists>e. attempt_result L k c = Err e) \<and>
    ((\<exists>e. attempt_result L n c = Err e) \<longrightarrow> n = unat m) \<and>
    reconnect L (unat m + 2) c =
      Some (if attempt_result L n c \<in> {Panic, Block} then attempt_result L n c else Ok (), attempted L (Suc n) c) \<and>
    cl_attempts (attempted L (Suc n) c) = cl_attempts c + n + 1"
  using reconnect_loop_attempts [OF assms(1,2), of 0 "unat m" "unat m + 2" L] assms(3)
  by (auto simp: reconnect_def attempted_counts simp del: reconnect_loop.simps)

section \<open>A server that cannot be reached\<close>

text \<open>The configuration of a polling client, and a network on which the next \<open>n\<close> requests fail.\<close>

definition polls_by_http :: "('u, 'j) slib \<Rightarrow> 'j sbuilder \<Rightarrow> bool" where
  "polls_by_http L b \<longleftrightarrow> sb_transport b = TPolling \<and> \<not> isl (url_parse (sl_url L) (sb_address b)) \<and>
     \<not> isl (convert_headers (lib_http (sl_engine L)) (sb_headers b))"

definition down_for :: "nat \<Rightarrow> 'u net \<Rightarrow> bool" where
  "down_for n w \<longleftrightarrow> n \<le> length (get_in w) \<and> (\<forall>x\<in>set (take n (get_in w)). isl x)"


lemma connect_raw_down:
  assumes "polls_by_http L b" "down_for (Suc n) w"
  obtains e w' where "connect_raw L b time rand calls w = (Err e, w')" "down_for n w'"
    "length (wire w') = length (wire w) + 1"
proof -
  from assms(1) obtain url where url: "url_parse (sl_url L) (sb_address b) = Inr url"
    and t: "sb_transport b = TPolling"
    by (cases "url_parse (sl_url L) (sb_address b)") (auto simp: polls_by_http_def)
  from assms(1) obtain h where h: "convert_headers (lib_http (sl_engine L)) (sb_headers b) = Inr h"
    by (cases "convert_headers (lib_http (sl_engine L)) (sb_headers b)") (auto simp: polls_by_http_def)
  have b: "eb_handshake (engine_builder (sl_engine L) b url) = None"
    "eb_headers (engine_builder (sl_engine L) b url) = sb_headers b"
    by (simp_all add: engine_builder_def ebuilder_new_def ebuilder_headers_def Let_def split: option.split)
  from assms(2) obtain x rs where x: "get_in w = Inl x # rs"
    and rest: "n \<le> length rs" "\<forall>x\<in>set (take n rs). isl x"
    by (cases "get_in w") (auto simp: down_for_def isl_def)
  obtain w' where "build_polling (sl_engine L) (engine_builder (sl_engine L) b url) w =
      (Err (EIncompleteResponseFromReqwest x), w')"
    "get_in w' = rs" "length (wire w') = length (wire w) + 1"
    using x b h
    by (auto simp: build_polling_def do_handshake_def unwrap_headers_def handshake_with_transport_def
        polling_new_def transport_poll_def polling_poll_def log_request_def Let_def seq_def)
  with rest t url that show thesis
    by (simp add: connect_raw_def build_engine_def down_for_def)
qed

lemma do_reconnect_down:
  assumes "polls_by_http L (cl_builder c)" "down_for (Suc n) (raw_net (cl_raw c))"
  obtains e w where "do_reconnect L c =
      (Err e, c\<lparr>cl_attempts := cl_attempts c + 1, cl_raw := with_net w (cl_raw c)\<rparr>)" "down_for n w"
    "length (wire w) = length (wire (raw_net (cl_raw c))) + 1"
proof -
  let ?r = "cl_raw c"
  obtain e w where "connect_raw L (cl_builder c) (rw_time ?r) (rw_rand ?r) (rw_calls ?r) (raw_net ?r) = (Err e, w)"
    "down_for n w" "length (wire w) = length (wire (raw_net ?r)) + 1"
    using assms by (rule connect_raw_down)
  with that show thesis by (simp add: do_reconnect_def Let_def)
qed

text \<open>While the server is down the loop makes one attempt per step and keeps the old client.\<close>

lemma reconnect_loop_down:
  assumes "polls_by_http L (cl_builder c)" "down_for n (raw_net (cl_raw c))" "unat a + n \<le> 255"
    and "\<And>m. sb_max_attempts (cl_builder c) = Some m \<Longrightarrow> unat a + n \<le> unat m + 1"
  obtains w where "reconnect_loop L (n + fuel) a c =
      reconnect_loop L fuel (a + of_nat n)
        ((wait_backoff ^^ n) c\<lparr>cl_attempts := cl_attempts c + n, cl_raw := with_net w (cl_raw c)\<rparr>)"
    "length (wire w) = length (wire (raw_net (cl_raw c))) + n"
  using assms
proof (induction n arbitrary: a c thesis)
  case 0
  have "with_net (raw_net (cl_raw c)) (cl_raw c) = cl_raw c" by (simp add: with_net_def raw_net_def)
  with "0.prems"(1) [of "raw_net (cl_raw c)"] show ?case by simp
next
  case (Suc n)
  obtain e w where d: "do_reconnect L (wait_backoff c) =
      (Err e, wait_backoff c\<lparr>cl_attempts := cl_attempts c + 1, cl_raw := with_net w (cl_raw c)\<rparr>)" (is "_ = (_, ?c1)")
    and w: "down_for n w" "length (wire w) = length (wire (raw_net (cl_raw c))) + 1"
    using do_reconnect_down [of L "wait_backoff c" n] Suc.prems(2,3) by auto
  have a: "a \<noteq> 255" using Suc.prems(4) by auto
  have sa: "unat (a + 1) = unat a + 1" by (rule unat_succ8) (rule a)
  have "\<not> a > m" if "sb_max_attempts (cl_builder c) = Some m" for m
    using Suc.prems(5) [OF that] by (simp add: word_less_nat_alt)
  then have step: "reconnect_loop L (Suc n + fuel) a c = reconnect_loop L (n + fuel) (a + 1) ?c1"
    using d a by (simp split: option.split)
  have "polls_by_http L (cl_builder ?c1)" "down_for n (raw_net (cl_raw ?c1))" "unat (a + 1) + n \<le> 255"
    "\<And>m. sb_max_attempts (cl_builder ?c1) = Some m \<Longrightarrow> unat (a + 1) + n \<le> unat m + 1"
    using Suc.prems(2,4,5) w(1) sa by simp_all
  with Suc.IH obtain v where "reconnect_loop L (n + fuel) (a + 1) ?c1 =
      reconnect_loop L fuel (a + 1 + of_nat n)
        ((wait_backoff ^^ n) ?c1\<lparr>cl_attempts := cl_attempts ?c1 + n, cl_raw := with_net v (cl_raw ?c1)\<rparr>)"
    "length (wire v) = length (wire (raw_net (cl_raw ?c1))) + n" by blast
  with step w(2) Suc.prems(1) [of v] show ?case
    by (simp add: add.assoc funpow_swap1 del: reconnect_loop.simps)
qed

lemma reconnect_down:
  assumes "sb_reconnect (cl_builder c)" "sb_max_attempts (cl_builder c) = Some m" "m < 255"
    and "polls_by_http L (cl_builder c)" "down_for (unat m + 1) (raw_net (cl_raw c))"
  shows "\<exists>c' w. reconnect L (unat m + 2) c = Some (Ok (), c') \<and>
    cl_attempts c' = cl_attempts c + unat m + 1 \<and> cl_raw c' = with_net w (cl_raw c) \<and>
    length (wire w) = length (wire (raw_net (cl_raw c))) + unat m + 1 \<and>
    cl_slept c' = cl_slept c @ pauses (unat m + 1) (cl_backoff c)"
proof -
  have "unat m < 255" using assms(3) by (simp add: word_less_nat_alt)
  then obtain w where loop: "reconnect_loop L (unat m + 1 + 1) 0 c =
      reconnect_loop L 1 (0 + of_nat (unat m + 1))
        ((wait_backoff ^^ (unat m + 1)) c\<lparr>cl_attempts := cl_attempts c + (unat m + 1), cl_raw := with_net w (cl_raw c)\<rparr>)"
      (is "_ = reconnect_loop L 1 _ ?c")
    and w: "length (wire w) = length (wire (raw_net (cl_raw c))) + (unat m + 1)"
    using reconnect_loop_down [OF assms(4,5), of 0 1] assms(2) by auto
  have "0 + of_nat (unat m + 1) > m"
  proof -
    have "m \<noteq> 255" using assms(3) by auto
    then have "unat (m + 1) = unat m + 1" by (rule unat_succ8)
    moreover have "0 + of_nat (unat m + 1) = m + 1" by simp
    ultimately show ?thesis by (metis less_add_one word_less_nat_alt)
  qed
  moreover have "sb_max_attempts (cl_builder ?c) = Some m" using assms(2) waits(3) [of "unat m + 1" c] by simp
  ultimately have "reconnect L (unat m + 2) c = Some (Ok (), ?c)"
    using loop assms(1) by (simp add: reconnect_def numeral_2_eq_2 del: funpow.simps)
  with w waits(1) [of "unat m + 1" c] show ?thesis
    by (intro exI [of _ ?c] exI [of _ w]) (simp del: funpow.simps)
qed

text \<open>C23: against a server that is down the polling client makes exactly \<open>m + 1\<close> attempts when reconnecting
  is enabled and \<open>m\<close>, below 255, is
  the maximum (one more than the name says), each one request, waits between them as the
  backoff says as long as it says anything, and then keeps the old, broken connection: nothing is
  reported to the caller.\<close>

theorem reconnect_gives_up:
  assumes "sb_reconnect (cl_builder c)" "sb_max_attempts (cl_builder c) = Some m" "m < 255"
    and "polls_by_http L (cl_builder c)" "down_for (unat m + 1) (raw_net (cl_raw c))"
  shows "\<exists>c' w. reconnect L (unat m + 2) c = Some (Ok (), c') \<and>
    cl_attempts c' = cl_attempts c + unat m + 1 \<and> cl_raw c' = with_net w (cl_raw c) \<and>
    length (wire w) = length (wire (raw_net (cl_raw c))) + unat m + 1 \<and>
    cl_slept c' = cl_slept c @ pauses (unat m + 1) (cl_backoff c)"
  using assms by (rule reconnect_down)

text \<open>Once the backoff has given up, which it does a fixed time after the client was made and for good,
  because nothing resets it, the client makes its attempts without waiting at all.\<close>

theorem reconnect_without_pause:
  assumes "sb_reconnect (cl_builder c)" "sb_max_attempts (cl_builder c) = Some m" "m < 255"
    and "polls_by_http L (cl_builder c)" "down_for (unat m + 1) (raw_net (cl_raw c))" "cl_backoff c = (\<lambda>n. None)"
  shows "\<exists>c'. reconnect L (unat m + 2) c = Some (Ok (), c') \<and>
    cl_attempts c' = cl_attempts c + unat m + 1 \<and> cl_slept c' = cl_slept c"
proof -
  have "pauses n (\<lambda>n. None) = []" for n by (induction n) (simp_all add: pauses_def map_filter_def)
  then show ?thesis using reconnect_down [OF assms(1-5)] assms(6) by auto
qed

text \<open>Without a maximum (or with 255, which the counter cannot exceed) and with overflow checks, the
  thread panics on the attempt after the 255th, instead of going on for ever.\<close>

theorem reconnect_counter_overflows:
  assumes "sb_reconnect (cl_builder c)" "sb_max_attempts (cl_builder c) \<in> {None, Some 255}" "sl_oc L"
    and "polls_by_http L (cl_builder c)" "down_for 255 (raw_net (cl_raw c))"
  shows "\<exists>c'. reconnect L 256 c = Some (Panic, c') \<and> cl_attempts c' = cl_attempts c + 255"
proof -
  have "unat (0 :: u8) + 255 \<le> unat m + 1" if "sb_max_attempts (cl_builder c) = Some m" for m
    using assms(2) that by auto
  with reconnect_loop_down [OF assms(4,5), of 0 1] obtain w where loop: "reconnect_loop L (255 + 1) 0 c =
      reconnect_loop L 1 (0 + of_nat 255)
        ((wait_backoff ^^ 255) c\<lparr>cl_attempts := cl_attempts c + 255, cl_raw := with_net w (cl_raw c)\<rparr>)"
    by auto
  have "\<not> (255 :: u8) > m" if "sb_max_attempts (cl_builder c) = Some m" for m
    using assms(2) that by auto
  then have "reconnect_loop L (Suc 0) 255
        ((wait_backoff ^^ 255) c\<lparr>cl_attempts := cl_attempts c + 255, cl_raw := with_net w (cl_raw c)\<rparr>) =
      Some (Panic, (wait_backoff ^^ 255) c\<lparr>cl_attempts := cl_attempts c + 255, cl_raw := with_net w (cl_raw c)\<rparr>)"
    using assms(3) waits(3) [of 255 c] by (simp split: option.split)
  with loop assms(1) show ?thesis by (simp add: reconnect_def)
qed

section \<open>A successful attempt\<close>

lemma raw_connect_fresh:
  assumes "raw_connect L s = (Ok u, s')"
  shows "ss_open (rw_socket s')" "s' = s\<lparr>rw_socket := rw_socket s'\<rparr>"
proof -
  from assms obtain x s1 where
    s1: "on_socket (ssocket_connect (sl_b64 L) (sl_url L)) s = (Ok x, s1)" and
    s2: "on_socket (ssocket_send (sl_oc L) (sl_b64 L) (sl_url L)
      (spacket SConnect (rw_nsp s) (map_option (json_print (sl_json L)) (rw_auth s)) None 0 None)) s1 = (Ok u, s')"
    unfolding raw_connect_def Let_def by (rule seq_OkE)
  have "ss_open (rw_socket s1)"
    using s1 esocket_emit_fields [of "sl_b64 L" "sl_url L" "epacket EPong []"
        "pinged (fire has_open OnOpen (ss_engine (rw_socket s)\<lparr>es_connected := True\<rparr>))"]
    by (auto simp: on_socket_def ssocket_connect_def on_engine_def esocket_connect_def seq_def modify_def
        split: prod.splits outcome.splits)
  then show "ss_open (rw_socket s')"
    using s2 ssocket_send_open [of "sl_oc L" "sl_b64 L" "sl_url L"
        "spacket SConnect (rw_nsp s) (map_option (json_print (sl_json L)) (rw_auth s)) None 0 None" "rw_socket s1"]
    by (auto simp: on_socket_def split: prod.splits)
  show "s' = s\<lparr>rw_socket := rw_socket s'\<rparr>"
    using s1 s2 by (auto simp: on_socket_def split: prod.splits)
qed

lemma do_reconnect_fresh:
  assumes "do_reconnect L c = (Ok u, c')"
  shows "ss_open (rw_socket (cl_raw c')) \<and> rw_acks (cl_raw c') = [] \<and>
    rw_on (cl_raw c') = sb_on (cl_builder c) \<and> rw_on_any (cl_raw c') = sb_on_any (cl_builder c) \<and>
    rw_nsp (cl_raw c') = sb_namespace (cl_builder c) \<and> rw_auth (cl_raw c') = sb_auth (cl_builder c) \<and>
    rw_calls (cl_raw c') = rw_calls (cl_raw c) \<and> \<not> rw_acks_locked (cl_raw c')"
proof -
  let ?r = "cl_raw c" and ?b = "cl_builder c"
  from assms obtain r w where
    "connect_raw L ?b (rw_time ?r) (rw_rand ?r) (rw_calls ?r) (raw_net ?r) = (Ok r, w)" and r: "cl_raw c' = r"
    by (auto simp: do_reconnect_def Let_def split: prod.splits outcome.splits)
  then obtain e x where run: "raw_connect L
      ((raw_new e (sb_namespace ?b) (sb_on ?b) (sb_on_any ?b) (sb_auth ?b) (rw_time ?r) (rw_rand ?r))
       \<lparr>rw_calls := rw_calls ?r\<rparr>) = (Ok x, r)"
    by (auto simp: connect_raw_def split: prod.splits outcome.splits sum.splits)
  obtain z where z: "r = (raw_new e (sb_namespace ?b) (sb_on ?b) (sb_on_any ?b) (sb_auth ?b) (rw_time ?r) (rw_rand ?r))
       \<lparr>rw_calls := rw_calls ?r, rw_socket := z\<rparr>"
    using raw_connect_fresh(2) [OF run] by simp
  show ?thesis
    using raw_connect_fresh(1) [OF run] unfolding r by (simp add: z raw_new_def)
qed

text \<open>A successful reconnection gives an open client with the callbacks, the namespace and the auth
  data of the builder; the requests that were still waiting for an acknowledgement are forgotten, and
  neither they nor the reconnection reach a callback.\<close>

theorem reconnect_fresh:
  assumes "do_reconnect L c = (Ok u, c')"
  shows "ss_open (rw_socket (cl_raw c')) \<and> rw_acks (cl_raw c') = [] \<and>
    rw_on (cl_raw c') = sb_on (cl_builder c) \<and> rw_on_any (cl_raw c') = sb_on_any (cl_builder c) \<and>
    rw_nsp (cl_raw c') = sb_namespace (cl_builder c) \<and> rw_auth (cl_raw c') = sb_auth (cl_builder c) \<and>
    rw_calls (cl_raw c') = rw_calls (cl_raw c)"
  using do_reconnect_fresh [OF assms] by simp

section \<open>A closed engine connection\<close>

lemma closed_engine_polls_nothing:
  assumes "\<not> es_connected (ss_engine (rw_socket r))"
  shows "raw_poll L r = (Ok None, r)"
proof -
  have "eclient_poll B U (ss_engine (rw_socket r)) = (Ok None, ss_engine (rw_socket r))" for B U
    by (simp add: eclient_poll_def esocket_poll_closed [OF assms] give_def)
  then have "ssocket_poll B U J (rw_socket r) = (Ok None, rw_socket r)" for B U and J :: "'b jsonlib"
    by (simp add: ssocket_poll.simps)
  then have "on_socket (ssocket_poll (sl_b64 L) (sl_url L) (sl_json L)) r = (Ok None, r)"
    by (simp add: on_socket_def)
  then show ?thesis by (simp add: raw_poll.simps)
qed

text \<open>C28: once the engine connection is closed (by the server, or by \<open>disconnect\<close>) the polling thread
  goes round for ever: no round changes anything, calls a callback, waits or reconnects, whatever the
  reconnection settings are, although \<open>Iter::next\<close> reports the end as an error "so we know to
  reconnect".\<close>

theorem closed_engine_spins:
  assumes "\<not> es_connected (ss_engine (rw_socket (cl_raw c)))"
  shows "client_next L c = (Ok (Inl SStoppedEngineIoSocket), c) \<and> poll_rounds L fuel n c = Some (Ok (), c)"
proof -
  have next': "client_next L c = (Ok (Inl SStoppedEngineIoSocket), c)"
    using closed_engine_polls_nothing [OF assms] by (simp add: client_next_def on_raw_def)
  then have "poll_round L fuel c = Some (Ok (), c)"
    by (simp add: poll_round_def should_reconnect_def)
  then have "poll_rounds L fuel n c = Some (Ok (), c)" by (induction n) simp_all
  with next' show ?thesis by simp
qed

section \<open>The builder's namespace\<close>

text \<open>The namespace a builder holds always starts with a slash, whatever was set.\<close>

theorem builder_namespace_slash:
  "(\<exists>rest. sb_namespace (sb_set_namespace nsp b) = of_char CHR ''/'' # rest) \<and>
   sb_set_namespace (sb_namespace (sb_set_namespace nsp b)) b = sb_set_namespace nsp b"
  by (cases nsp) (auto simp: sb_set_namespace_def starts_with_def)

section \<open>Witnesses\<close>

definition demo_client :: "u8 option \<Rightarrow> nat \<Rightarrow> (nat, rstring) client" where
  "demo_client m n =
     \<lparr>cl_builder = (sbuilder_new (lit ''u''))\<lparr>sb_transport := TPolling, sb_max_attempts := m\<rparr>,
      cl_raw = with_net \<lparr>get_in = replicate n (Inl (lit ''down'')), stream_in = [], post_in = [],
        ws_connect_in = [], ws_in = [], ws_send_in = [], wire = [], clock = 0\<rparr> (demo_raw [] []),
      cl_attempts = 0, cl_backoff = (\<lambda>n. if n < 2 then Some (1000 * (n + 1)) else None), cl_slept = []\<rparr>"

lemma demo_client_fields [simp]:
  "sb_reconnect (cl_builder (demo_client m n))" "sb_max_attempts (cl_builder (demo_client m n)) = m"
  "cl_attempts (demo_client m n) = 0" "cl_slept (demo_client m n) = []"
  "cl_backoff (demo_client m n) = (\<lambda>n. if n < 2 then Some (1000 * (n + 1)) else None)"
  "sl_oc (demo_slib K)" "down_for n (raw_net (cl_raw (demo_client m n)))"
  by (simp_all add: demo_client_def sbuilder_new_def demo_slib_def down_for_def)

lemma demo_client_polls: "polls_by_http (demo_slib K) (cl_builder (demo_client m n))"
  by (simp add: polls_by_http_def demo_client_def sbuilder_new_def demo_slib_def demo_urls_def convert_headers_def)

theorem reconnect_terminates_witness:
  "\<exists>r c'. reconnect (demo_slib (\<lambda>h. [])) 5 (demo_client (Some 3) 9) = Some (r, c') \<and> cl_attempts c' \<in> {1..4}"
proof -
  let ?L = "demo_slib (\<lambda>h. []) :: (nat, rstring) slib"
  from reconnect_terminates [of "demo_client (Some 3) 9" 3 ?L] obtain n r where "n \<le> 3"
    "reconnect ?L 5 (demo_client (Some 3) 9) = Some (r, attempted ?L (Suc n) (demo_client (Some 3) 9))"
    by (auto simp del: One_nat_def)
  then show ?thesis by (simp add: attempted_counts)
qed

theorem reconnect_gives_up_witness:
  "\<exists>c'. reconnect (demo_slib (\<lambda>h. [])) 5 (demo_client (Some 3) 4) = Some (Ok (), c') \<and> cl_attempts c' = 4 \<and>
     cl_slept c' = [1000, 2000]"
proof -
  have "pauses 4 (cl_backoff (demo_client (Some 3) 4)) = [1000, 2000]"
    by (simp add: pauses_def map_filter_def upt_rec)
  then show ?thesis
    using reconnect_gives_up [of "demo_client (Some 3) 4" 3 "demo_slib (\<lambda>h. [])", OF _ _ _ demo_client_polls] by auto
qed

theorem reconnect_without_pause_witness:
  "\<exists>c'. reconnect (demo_slib (\<lambda>h. [])) 5 ((demo_client (Some 3) 4)\<lparr>cl_backoff := (\<lambda>n. None)\<rparr>) = Some (Ok (), c') \<and>
     cl_attempts c' = 4 \<and> cl_slept c' = []"
  using reconnect_without_pause [of "(demo_client (Some 3) 4)\<lparr>cl_backoff := (\<lambda>n. None)\<rparr>" 3 "demo_slib (\<lambda>h. [])"]
    demo_client_polls [of "\<lambda>h. []" "Some 3" 4] by auto

theorem reconnect_counter_overflows_witness:
  "\<exists>c'. reconnect (demo_slib (\<lambda>h. [])) 256 (demo_client None 255) = Some (Panic, c') \<and> cl_attempts c' = 255"
  using reconnect_counter_overflows [of "demo_client None 255" "demo_slib (\<lambda>h. [])", OF _ _ _ demo_client_polls]
  by simp

theorem closed_engine_spins_witness:
  "poll_rounds (demo_slib (\<lambda>h. [])) 5 1000
     ((demo_client None 0)\<lparr>cl_raw := (demo_raw [] [])\<lparr>rw_socket :=
        \<lparr>ss_engine = (demo_socket [])\<lparr>es_connected := False\<rparr>, ss_connected = True\<rparr>\<rparr>\<rparr>)
   = Some (Ok (), (demo_client None 0)\<lparr>cl_raw := (demo_raw [] [])\<lparr>rw_socket :=
        \<lparr>ss_engine = (demo_socket [])\<lparr>es_connected := False\<rparr>, ss_connected = True\<rparr>\<rparr>\<rparr>)"
  by (rule conjunct2 [OF closed_engine_spins]) simp

lemma demo_open_answer:
  "epacket_try_from nibble64 (ascii ''0{}'') = Inr (epacket EOpen (ascii ''{}''))"
  by (simp add: epacket_try_from_def epacket_id_try_from_def epacket_def)

definition demo_restarted :: "nat net" where
  "demo_restarted = \<lparr>get_in = [Inr (ascii ''0{}'')], stream_in = [], post_in = [Inr 200, Inr 200],
     ws_connect_in = [], ws_in = [], ws_send_in = [], wire = [], clock = 0\<rparr>"

definition waiting_client :: "(nat, rstring) client" where
  "waiting_client = (demo_client None 0)\<lparr>cl_raw := with_net demo_restarted (demo_raw [] [demo_ack 7 5 9])\<rparr>"

lemma polling_emit_accepted:
  assumes "es_connected s" "es_transport s = Polling u" "post_in (es_net s) = Inr 200 # rest"
  obtains s' where "esocket_emit B U p s = (Ok (), s')" "es_connected s'" "es_transport s' = Polling u"
    "post_in (es_net s') = rest"
  using assms
  by (auto simp: esocket_emit_def on_net_def transport_emit_def polling_emit_def log_request_def Let_def)

lemma restarted_reconnects:
  assumes "cl_builder c = cl_builder (demo_client None 0)\<lparr>sb_on := on\<rparr>" "raw_net (cl_raw c) = demo_restarted"
    "rw_time (cl_raw c) = (\<lambda>n. n)" "rw_rand (cl_raw c) = (\<lambda>n. n)"
  shows "fst (do_reconnect (demo_slib (\<lambda>h. [])) c) = Ok ()"
proof -
  let ?E = "sl_engine (demo_slib (\<lambda>h. []))"
  let ?b = "engine_builder ?E (cl_builder (demo_client None 0)\<lparr>sb_on := on\<rparr>) 0"
  have b: "?b = ebuilder_new ?E 0"
    by (simp add: engine_builder_def demo_client_def sbuilder_new_def demo_slib_def
        demo_urls_def Let_def)
  have "\<exists>s w'. build_polling ?E ?b demo_restarted = (Ok s, w') \<and> es_net s = w' \<and>
      (\<exists>u. es_transport s = Polling u) \<and> post_in w' = [Inr 200, Inr 200]"
    unfolding b
    by (simp add: build_polling_def do_handshake_def unwrap_headers_def handshake_with_transport_def
        accept_handshake_def handshake_try_from_def make_client_def esocket_new_def
        polling_new_def transport_poll_def polling_poll_def log_request_def Let_def seq_def
        demo_restarted_def demo_slib_def demo_open_answer ebuilder_new_def convert_headers_def
        del: ascii_simps lit_simps)
  then obtain s w' u where s: "build_polling ?E ?b demo_restarted = (Ok s, w')" "es_net s = w'"
    "es_transport s = Polling u" "post_in w' = [Inr 200, Inr 200]" by blast
  let ?L = "demo_slib (\<lambda>h. [])"
  let ?r = "(raw_new (ssocket_new s) (lit ''/'') on None None (\<lambda>n. n) (\<lambda>n. n))\<lparr>rw_calls := rw_calls (cl_raw c)\<rparr>"
  let ?p = "spacket SConnect (lit ''/'') None None 0 None"
  let ?e = "pinged (fire has_open OnOpen (s\<lparr>es_connected := True\<rparr>))"
  have "es_connected ?e" "es_transport ?e = Polling u" "post_in (es_net ?e) = Inr 200 # [Inr 200]"
    using s by simp_all
  from polling_emit_accepted [OF this] obtain e1 where
    e1: "esocket_connect (sl_b64 ?L) (sl_url ?L) s = (Ok (), e1)" "es_connected e1" "es_transport e1 = Polling u"
      "post_in (es_net e1) = [Inr 200]"
    by (metis esocket_connect_def)
  have e2: "\<exists>z. esocket_emit (sl_b64 ?L) (sl_url ?L) q e1 = (Ok (), z)" for q
    by (rule polling_emit_accepted [OF e1(2,3,4)]) blast
  obtain t where enc: "encode_text True ?p = Some t" by (simp add: encode_text_def spacket_def)
  have "fst (ssocket_send True (sl_b64 ?L) (sl_url ?L) ?p \<lparr>ss_engine = e1, ss_connected = True\<rparr>) = Ok ()"
    using e1 e2 [of "epacket EMessage (utf8 t)"] enc
    by (auto simp: ssocket_send_def is_engineio_connected_def on_engine_def seq_def give_def spacket_to_bytes_def
        spacket_def)
  then have "fst (raw_connect ?L ?r) = Ok ()"
    using e1(1)
    by (auto simp: raw_connect_def on_socket_def ssocket_connect_def on_engine_def raw_new_def ssocket_new_def
        seq_def split: prod.split)
  then obtain z where "raw_connect ?L ?r = (Ok (), z)" by (metis prod.collapse)
  moreover have "url_parse (sl_url ?L) k = Inr 0" for k by (simp add: demo_slib_def demo_urls_def)
  ultimately show ?thesis
    using s(1)
    by (simp add: assms do_reconnect_def connect_raw_def build_engine_def demo_client_def sbuilder_new_def Let_def
        del: lit_simps)
qed

lemma waiting_client_reconnects: "fst (do_reconnect (demo_slib (\<lambda>h. [])) waiting_client) = Ok ()"
  by (rule restarted_reconnects [where on = "[]"]) (simp_all add: waiting_client_def, simp_all add: demo_client_def sbuilder_new_def demo_raw_def raw_new_def)

theorem reconnect_fresh_witness:
  "\<exists>c'. do_reconnect (demo_slib (\<lambda>h. [])) waiting_client = (Ok (), c') \<and> rw_acks (cl_raw c') = [] \<and>
     rw_acks (cl_raw waiting_client) \<noteq> []"
proof -
  obtain c' where "do_reconnect (demo_slib (\<lambda>h. [])) waiting_client = (Ok (), c')"
    using waiting_client_reconnects by (metis prod.collapse)
  with reconnect_fresh [OF this] show ?thesis
    by (simp add: waiting_client_def with_net_def)
qed

end
