(* ===== verification/Sio_Async_Socket.thy ===== *)
theory Sio_Async_Socket
  imports Sio_Socket Engine_Async
begin

text \<open>
  \<open>socketio/src/asynchronous/socket.rs\<close> and \<open>generator.rs\<close>: the asynchronous socket.io socket. The
  engine's client, which the socket and its stream share through its generator, and the flag
  \<open>connected\<close> are state; so is whether the socket's own \<open>try_stream!\<close>, shared by all clones through a
  \<open>StreamGenerator\<close>, is over.
\<close>

section \<open>State and operations that send\<close>

record 'u assocket =
  sa_engine :: "'u asocket"
  sa_connected :: bool
  sa_done :: bool

definition assocket_new :: "'u asocket \<Rightarrow> 'u assocket" where
  "assocket_new e = \<lparr>sa_engine = e, sa_connected = False, sa_done = False\<rparr>"

definition on_aengine :: "('u asocket, eerror, 'a) proc \<Rightarrow> ('u assocket, serror, 'a) proc" where
  "on_aengine m s =
     (case m (sa_engine s) of
        (r, e) \<Rightarrow> (map_err SIncompleteResponseFromEngineIo r, s\<lparr>sa_engine := e\<rparr>))"

definition assocket_connect :: "base64 \<Rightarrow> 'u urllib \<Rightarrow> ('u assocket, serror, unit) proc" where
  "assocket_connect B U =
     seq (on_aengine (asocket_connect B U)) (\<lambda>_. modify (\<lambda>s. s\<lparr>sa_connected := True\<rparr>))"

definition is_aengine_connected :: "'u assocket \<Rightarrow> bool" where
  "is_aengine_connected s = as_connected (sa_engine s)"

definition assocket_disconnect :: "base64 \<Rightarrow> 'u urllib \<Rightarrow> ('u assocket, serror, unit) proc" where
  "assocket_disconnect B U s =
     seq (if is_aengine_connected s then on_aengine (asocket_disconnect B U) else give (Ok ())) (\<lambda>_.
     modify (\<lambda>s. if sa_connected s then s\<lparr>sa_connected := False\<rparr> else s)) s"

fun asend_attachments :: "base64 \<Rightarrow> 'u urllib \<Rightarrow> bytes list \<Rightarrow> ('u assocket, serror, unit) proc" where
  "asend_attachments B U [] = give (Ok ())"
| "asend_attachments B U (attachment # rest) =
     seq (on_aengine (asocket_emit B U (epacket EMessageBinary attachment))) (\<lambda>_.
     asend_attachments B U rest)"

definition assocket_send :: "bool \<Rightarrow> base64 \<Rightarrow> 'u urllib \<Rightarrow> spacket \<Rightarrow> ('u assocket, serror, unit) proc" where
  "assocket_send oc B U packet s =
     (if \<not> is_aengine_connected s \<or> \<not> sa_connected s then (Err SIllegalActionBeforeOpen, s)
      else
        seq (give (spacket_to_bytes oc packet)) (\<lambda>bytes.
        seq (on_aengine (asocket_emit B U (epacket EMessage bytes))) (\<lambda>_.
        case s_attachments packet of
          Some attachments \<Rightarrow> asend_attachments B U attachments
        | None \<Rightarrow> give (Ok ()))) s)"

text \<open>Unlike the blocking socket, text that is not JSON is an error.\<close>

definition abuild_packet_for_payload ::
  "('j, 'z) jsonlib_scheme \<Rightarrow> spayload \<Rightarrow> sevent \<Rightarrow> rstring \<Rightarrow> i32 option \<Rightarrow> serror + spacket" where
  "abuild_packet_for_payload J payload event nsp i =
     (case payload of
        PBinary bin_data \<Rightarrow>
          Inr (spacket (if i \<noteq> None then SBinaryAck else SBinaryEvent) nsp
            (Some (json_print J (json_string J (event_to_string event)))) i 1 (Some [bin_data]))
      | PString str_data \<Rightarrow>
          (case json_parse J str_data of
             Inl e \<Rightarrow> Inl (SInvalidJson e)
           | Inr _ \<Rightarrow>
               let payload = lit ''['' @ quote_json (event_to_string event) @ lit '','' @ str_data @ lit '']''
               in Inr (spacket SEvent nsp (Some payload) i 0 None)))"

definition assocket_emit ::
  "bool \<Rightarrow> base64 \<Rightarrow> 'u urllib \<Rightarrow> ('j, 'z) jsonlib_scheme \<Rightarrow> rstring \<Rightarrow> sevent \<Rightarrow> spayload \<Rightarrow>
   ('u assocket, serror, unit) proc" where
  "assocket_emit oc B U J nsp event data =
     seq (give (lift_result (abuild_packet_for_payload J data event nsp None))) (assocket_send oc B U)"

section \<open>Receiving\<close>

text \<open>\<open>client.next().await.unwrap()\<close>: the end of the engine's stream is a panic.\<close>

fun aread_attachments ::
  "base64 \<Rightarrow> 'u urllib \<Rightarrow> nat \<Rightarrow> bytes list \<Rightarrow> ('u assocket, serror, bytes list) proc" where
  "aread_attachments B U 0 attachments = give (Ok attachments)"
| "aread_attachments B U (Suc attachments_left) attachments =
     seq (on_aengine (aclient_next B U)) (\<lambda>next.
       case next of
         Some packet \<Rightarrow>
           if is_message (e_id packet) then
             aread_attachments B U attachments_left (attachments @ [e_data packet])
           else give (Err (SInvalidAttachmentPacketType (epacket_id_to_u8 (e_id packet))))
       | None \<Rightarrow> give Panic)"

definition ahandle_engineio_packet ::
  "base64 \<Rightarrow> 'u urllib \<Rightarrow> ('j, 'z) jsonlib_scheme \<Rightarrow> epacket \<Rightarrow> ('u assocket, serror, spacket) proc" where
  "ahandle_engineio_packet B U J packet =
     (case spacket_try_from J (e_data packet) of
        Inl e \<Rightarrow> give (Err e)
      | Inr socket_packet \<Rightarrow>
          if s_count socket_packet > 0 then
            seq (aread_attachments B U (unat (s_count socket_packet)) []) (\<lambda>attachments.
            give (Ok (socket_packet\<lparr>s_attachments := Some attachments\<rparr>)))
          else give (Ok socket_packet))"

definition ahandle_socketio_packet :: "spacket \<Rightarrow> 'u assocket \<Rightarrow> 'u assocket" where
  "ahandle_socketio_packet p s =
     (case s_type p of
        SConnect \<Rightarrow> s\<lparr>sa_connected := True\<rparr>
      | SConnectError \<Rightarrow> s\<lparr>sa_connected := False\<rparr>
      | SDisconnect \<Rightarrow> s\<lparr>sa_connected := False\<rparr>
      | _ \<Rightarrow> s)"

definition assocket_finish :: "'u assocket \<Rightarrow> 'u assocket" where
  "assocket_finish s = s\<lparr>sa_done := True\<rparr>"

text \<open>The stream of the socket: every \<open>?\<close> gives the error once and ends the stream.\<close>

function assocket_next ::
  "base64 \<Rightarrow> 'u urllib \<Rightarrow> ('j, 'z) jsonlib_scheme \<Rightarrow> ('u assocket, serror, spacket option) proc" where
  "assocket_next B U J s =
     (if sa_done s then (Ok None, s)
      else case on_aengine (aclient_next B U) s of
        (Ok None, s1) \<Rightarrow> (Ok None, assocket_finish s1)
      | (Ok (Some packet), s1) \<Rightarrow>
          if is_message (e_id packet) then
            (case ahandle_engineio_packet B U J packet s1 of
               (Ok socket_packet, s2) \<Rightarrow> (Ok (Some socket_packet), ahandle_socketio_packet socket_packet s2)
             | (Err e, s2) \<Rightarrow> (Err e, assocket_finish s2)
             | (Panic, s2) \<Rightarrow> (Panic, s2)
             | (Block, s2) \<Rightarrow> (Block, s2))
          else assocket_next B U J s1
      | (Err e, s1) \<Rightarrow> (Err e, assocket_finish s1)
      | (Panic, s1) \<Rightarrow> (Panic, s1)
      | (Block, s1) \<Rightarrow> (Block, s1))"
  by pat_completeness auto
termination
proof (relation "measure (\<lambda>(B, U, J, s). length (abacklog B (sa_engine s)))", goal_cases)
  case 1
  show ?case by simp
next
  case (2 B U J s x s1 o' p)
  then have "aclient_next B U (sa_engine s) = (Ok (Some p), sa_engine s1)"
    by (auto simp: on_aengine_def split: prod.splits) (metis map_err.elims outcome.distinct(1,3,5) outcome.inject(1))
  then show ?case by (auto dest: aclient_next_abacklog)
qed

declare assocket_next.simps [simp del]

section \<open>The connection contract\<close>

abbreviation sa_open :: "'u assocket \<Rightarrow> bool" where
  "sa_open s \<equiv> as_connected (sa_engine s) \<and> sa_connected s"

lemma on_aengine_fields [simp]:
  "sa_connected (snd (on_aengine m s)) = sa_connected s" "sa_done (snd (on_aengine m s)) = sa_done s"
  "sa_engine (snd (on_aengine m s)) = snd (m (sa_engine s))"
  by (simp_all add: on_aengine_def split: prod.splits)

lemma on_aengine_Ok: "on_aengine m s = (Ok x, s') \<longleftrightarrow>
    m (sa_engine s) = (Ok x, sa_engine s') \<and> s' = s\<lparr>sa_engine := sa_engine s'\<rparr>"
proof -
  obtain r e where "m (sa_engine s) = (r, e)" by fastforce
  then show ?thesis by (cases r) (auto simp: on_aengine_def)
qed

lemma keeps_sa_open_emit: "keeps (\<lambda>s. sa_open s = c) (on_aengine (asocket_emit B U p))"
  by (rule keepsI) (simp add: asocket_emit_fields)

lemma keeps_sa_open_attachments: "keeps (\<lambda>s. sa_open s = c) (asend_attachments B U as)"
proof (induction as)
  case Nil
  show ?case by (simp add: keeps_def)
next
  case (Cons a as)
  then show ?case by (simp only: asend_attachments.simps) (intro keeps_seq keeps_sa_open_emit)
qed

lemma assocket_send_open: "sa_open (snd (assocket_send oc B U p s)) = sa_open s"
proof -
  have "keeps (\<lambda>s'. sa_open s' = sa_open s)
      (seq (give (spacket_to_bytes oc p)) (\<lambda>bytes.
        seq (on_aengine (asocket_emit B U (epacket EMessage bytes))) (\<lambda>_.
        case s_attachments p of Some as \<Rightarrow> asend_attachments B U as | None \<Rightarrow> give (Ok ()))))"
    by (intro keeps_seq keeps_give keeps_sa_open_emit)
      (simp add: keeps_sa_open_attachments split: option.splits)
  from keepsD [OF this, of s] show ?thesis
    by (simp add: assocket_send_def is_aengine_connected_def)
qed

lemma assocket_disconnect_closes: "assocket_disconnect B U s = (Ok u, s') \<Longrightarrow> \<not> sa_open s'"
  by (auto simp: assocket_disconnect_def is_aengine_connected_def on_aengine_Ok
      elim!: seq_OkE split: if_splits)

interpretation assock: connection "assocket_send oc B U" "assocket_disconnect B U" sa_open
    "\<lambda>s. wire (as_net (sa_engine s))" SIllegalActionBeforeOpen
  for oc :: bool and B :: base64 and U :: "'u urllib"
  by unfold_locales
    (simp_all add: assocket_send_open assocket_disconnect_closes,
     auto simp: assocket_send_def is_aengine_connected_def)

section \<open>Properties\<close>

lemma aclient_next_message:
  assumes "\<not> ac_done e" "abacklog B e = Some (Inr p) # rest" "is_message (e_id p)"
  obtains e' where "aclient_next B U e = (Ok (Some p), e')" "\<not> ac_done e'" "abacklog B e' = rest"
    "as_connected e' = as_connected e"
proof -
  from assms(1,2) obtain s1 where "abacklog B s1 = rest" "\<not> ac_done s1"
    "as_connected s1 = as_connected e"
    "aclient_next B U e =
      (case handle_inconming_packet B U p s1 of
         (Ok _, s2) \<Rightarrow> (Ok (Some p), s2)
       | (Err e, s2) \<Rightarrow> (Err e, aclient_finish s2)
       | (Panic, s2) \<Rightarrow> (Panic, s2)
       | (Block, s2) \<Rightarrow> (Block, s2))"
    by (rule aclient_next_head)
  moreover have "handle_inconming_packet B U p s1 = (Ok (), ahandle_data (e_data p) (ahandle_packet p s1))"
    using assms(3) by (auto simp: handle_inconming_packet_def is_message_def)
  ultimately show thesis using that by (simp add: ahandle_data_def ahandle_packet_def)
qed

lemma on_aengine_message:
  assumes "\<not> ac_done (sa_engine s)" "abacklog B (sa_engine s) = Some (Inr p) # rest" "is_message (e_id p)"
  obtains e' where "on_aengine (aclient_next B U) s = (Ok (Some p), s\<lparr>sa_engine := e'\<rparr>)" "\<not> ac_done e'"
    "abacklog B e' = rest" "as_connected e' = as_connected (sa_engine s)"
  using aclient_next_message [OF assms] by (metis on_aengine_Ok assocket.select_convs(1) assocket.surjective
      assocket.update_convs(1))

lemma aread_attachments_split:
  "aread_attachments B U (n + m) as s =
     seq (aread_attachments B U n as) (\<lambda>as'. aread_attachments B U m as') s"
  by (induction n arbitrary: as s) (auto simp: seq_def split: prod.splits outcome.splits option.splits)

lemma aread_attachments_all:
  assumes "\<not> ac_done (sa_engine s)" "abacklog B (sa_engine s) = map (Some \<circ> Inr) qs @ rest"
    and "list_all (\<lambda>q. is_message (e_id q)) qs"
  shows "\<exists>e'. aread_attachments B U (length qs) as s = (Ok (as @ map e_data qs), s\<lparr>sa_engine := e'\<rparr>) \<and>
    \<not> ac_done e' \<and> abacklog B e' = rest \<and> as_connected e' = as_connected (sa_engine s)"
  using assms
proof (induction qs arbitrary: s as)
  case Nil
  then show ?case by (intro exI [of _ "sa_engine s"]) simp
next
  case (Cons q qs)
  then have "abacklog B (sa_engine s) = Some (Inr q) # (map (Some \<circ> Inr) qs @ rest)" "is_message (e_id q)"
    by simp_all
  with Cons.prems(1) obtain e' where e': "on_aengine (aclient_next B U) s = (Ok (Some q), s\<lparr>sa_engine := e'\<rparr>)"
    "\<not> ac_done e'" "abacklog B e' = map (Some \<circ> Inr) qs @ rest" "as_connected e' = as_connected (sa_engine s)"
    by (rule on_aengine_message)
  with Cons.IH [of "s\<lparr>sa_engine := e'\<rparr>" "as @ [e_data q]"] Cons.prems(3) show ?case by simp
qed

text \<open>What the two sockets make of a payload. The asynchronous socket builds the packet the blocking
  one builds, except that text that is not JSON is refused with \<open>InvalidJson\<close>; then nothing is sent.\<close>

theorem async_payloads:
  "abuild_packet_for_payload J payload event nsp i =
     (case payload of
        PString t \<Rightarrow>
          (case json_parse J t of
             Inl e \<Rightarrow> Inl (SInvalidJson e)
           | Inr _ \<Rightarrow> Inr (build_packet_for_payload J payload event nsp i))
      | PBinary _ \<Rightarrow> Inr (build_packet_for_payload J payload event nsp i)) \<and>
   assocket_emit oc B U J nsp event payload s =
     (case abuild_packet_for_payload J payload event nsp None of
        Inl e \<Rightarrow> (Err e, s)
      | Inr p \<Rightarrow> assocket_send oc B U p s)"
  by (auto simp: abuild_packet_for_payload_def build_packet_for_payload_def assocket_emit_def
      split: spayload.split sum.split)

lemma assocket_next_assembles:
  assumes "\<not> sa_done s" "\<not> ac_done (sa_engine s)"
    and "abacklog B (sa_engine s) = map (Some \<circ> Inr) (p # qs) @ rest"
    and "list_all (\<lambda>q. is_message (e_id q)) (p # qs)"
    and "spacket_try_from J (e_data p) = Inr sp" "unat (s_count sp) = length qs"
  shows "\<exists>e'. assocket_next B U J s =
      (Ok (Some (if qs = [] then sp else sp\<lparr>s_attachments := Some (map e_data qs)\<rparr>)),
       ahandle_socketio_packet sp (s\<lparr>sa_engine := e'\<rparr>)) \<and> abacklog B e' = rest \<and> \<not> ac_done e' \<and>
    as_connected e' = as_connected (sa_engine s)"
proof -
  from assms(3,4) have "abacklog B (sa_engine s) = Some (Inr p) # (map (Some \<circ> Inr) qs @ rest)" "is_message (e_id p)"
    by simp_all
  with assms(2) obtain e1 where e1: "on_aengine (aclient_next B U) s = (Ok (Some p), s\<lparr>sa_engine := e1\<rparr>)"
    "\<not> ac_done e1" "abacklog B e1 = map (Some \<circ> Inr) qs @ rest" "as_connected e1 = as_connected (sa_engine s)"
    by (rule on_aengine_message)
  obtain e2 where e2: "aread_attachments B U (length qs) [] (s\<lparr>sa_engine := e1\<rparr>) =
      (Ok (map e_data qs), s\<lparr>sa_engine := e2\<rparr>)" "abacklog B e2 = rest"
    "as_connected e2 = as_connected (sa_engine s)" "\<not> ac_done e2"
    using aread_attachments_all [of "s\<lparr>sa_engine := e1\<rparr>" B qs rest U "[]"] e1 assms(4) by auto
  have zero: "s_count sp = 0 \<longleftrightarrow> qs = []" using assms(6) by (metis length_0_conv unat_eq_zero)
  have same: "ahandle_socketio_packet (sp\<lparr>s_attachments := as\<rparr>) t = ahandle_socketio_packet sp t" for as t
    by (simp add: ahandle_socketio_packet_def)
  show ?thesis
  proof (cases "qs = []")
    case True
    then have "ahandle_engineio_packet B U J p (s\<lparr>sa_engine := e1\<rparr>) = (Ok sp, s\<lparr>sa_engine := e1\<rparr>)"
      using zero assms(5) by (simp add: ahandle_engineio_packet_def)
    then show ?thesis using True e1 assms(1,4) by (subst assocket_next.simps) auto
  next
    case False
    then have "s_count sp > 0" using zero by (simp add: word_gt_0)
    then have "ahandle_engineio_packet B U J p (s\<lparr>sa_engine := e1\<rparr>) =
        (Ok (sp\<lparr>s_attachments := Some (map e_data qs)\<rparr>), s\<lparr>sa_engine := e2\<rparr>)"
      using assms(5,6) e2(1) by (simp add: ahandle_engineio_packet_def)
    then show ?thesis using False e1(1) e2(2-4) assms(1,4) by (subst assocket_next.simps) (auto simp: same)
  qed
qed

text \<open>The asynchronous socket puts attachments back together. A packet that announces \<open>n\<close> attachments
  and \<open>n\<close> messages behind it give one item of the stream, with the messages' data in order.\<close>

theorem async_attachments_reassembled:
  assumes "\<not> sa_done s" "\<not> ac_done (sa_engine s)"
    and "abacklog B (sa_engine s) = map (Some \<circ> Inr) (p # qs) @ rest"
    and "list_all (\<lambda>q. is_message (e_id q)) (p # qs)"
    and "spacket_try_from J (e_data p) = Inr sp" "unat (s_count sp) = length qs"
  shows "\<exists>e'. assocket_next B U J s =
      (Ok (Some (if qs = [] then sp else sp\<lparr>s_attachments := Some (map e_data qs)\<rparr>)),
       ahandle_socketio_packet sp (s\<lparr>sa_engine := e'\<rparr>)) \<and> abacklog B e' = rest"
  using assocket_next_assembles [OF assms] by blast

text \<open>A stream that ends between a packet and its attachments makes the asynchronous socket panic,
  where the blocking socket reports \<open>IncompletePacket\<close>.\<close>

theorem async_truncated_attachments:
  assumes "\<not> sa_done s" "\<not> ac_done (sa_engine s)"
    and "abacklog B (sa_engine s) = map (Some \<circ> Inr) (p # qs) @ None # rest"
    and "list_all (\<lambda>q. is_message (e_id q)) (p # qs)"
    and "spacket_try_from J (e_data p) = Inr sp" "length qs < unat (s_count sp)"
  shows "fst (assocket_next B U J s) = Panic"
proof -
  from assms(3,4) have "abacklog B (sa_engine s) = Some (Inr p) # (map (Some \<circ> Inr) qs @ None # rest)" "is_message (e_id p)"
    by simp_all
  with assms(2) obtain e1 where e1: "on_aengine (aclient_next B U) s = (Ok (Some p), s\<lparr>sa_engine := e1\<rparr>)"
    "\<not> ac_done e1" "abacklog B e1 = map (Some \<circ> Inr) qs @ None # rest"
    by (rule on_aengine_message)
  obtain e2 where e2: "aread_attachments B U (length qs) [] (s\<lparr>sa_engine := e1\<rparr>) =
      (Ok (map e_data qs), s\<lparr>sa_engine := e2\<rparr>)" "\<not> ac_done e2" "abacklog B e2 = None # rest"
    using aread_attachments_all [of "s\<lparr>sa_engine := e1\<rparr>" B qs "None # rest" U "[]"] e1 assms(4) by auto
  have "fst (asocket_next B U e2) = Ok None"
    using asocket_next_refines [of B U e2] e2(3) by simp
  with e2(2) obtain e3 where e3: "aclient_next B U e2 = (Ok None, e3)"
    by (cases "asocket_next B U e2") (auto simp: aclient_next_def)
  obtain k where k: "unat (s_count sp) = length qs + Suc k"
    using assms(6) less_imp_Suc_add by fastforce
  have "s_count sp > 0" using k by (metis word_gt_0 unat_eq_zero add_Suc_right nat.distinct(1))
  moreover have "fst (aread_attachments B U (unat (s_count sp)) [] (s\<lparr>sa_engine := e1\<rparr>)) = Panic"
    unfolding k aread_attachments_split using e2(1) e3 by (simp add: seq_def on_aengine_def)
  ultimately have "fst (ahandle_engineio_packet B U J p (s\<lparr>sa_engine := e1\<rparr>)) = Panic"
    using assms(5) by (auto simp: ahandle_engineio_packet_def seq_def split: prod.split)
  then show ?thesis
    using e1(1) assms(1,4) by (subst assocket_next.simps) (auto split: prod.split)
qed

section \<open>Witnesses\<close>

definition demo_assocket :: "ws_event list \<Rightarrow> nat assocket" where
  "demo_assocket es = \<lparr>sa_engine = demo_asocket es, sa_connected = True, sa_done = False\<rparr>"

lemma demo_assocket_fields [simp]:
  "sa_engine (demo_assocket es) = demo_asocket es" "sa_connected (demo_assocket es)" "\<not> sa_done (demo_assocket es)"
  by (simp_all add: demo_assocket_def)

text \<open>The text frame of a packet that announces one attachment, and the attachment.\<close>

lemma demo_announced:
  obtains t where "abacklog nibble64 (demo_asocket (WsMsg (WsText (of_char CHR ''4'' # t)) # WsMsg (WsBinary [3, 2]) # es)) =
      map (Some \<circ> Inr) [epacket EMessage (utf8 t), epacket EMessage [3, 2]] @ concat (map (aws_items nibble64) es)"
    "abacklog nibble64 (demo_asocket (WsMsg (WsText (of_char CHR ''4'' # t)) # es)) =
      map (Some \<circ> Inr) [epacket EMessage (utf8 t)] @ concat (map (aws_items nibble64) es)"
    "spacket_try_from flat_json (utf8 t) = Inr (demo_binary\<lparr>s_attachments := None\<rparr>)"
proof -
  obtain t where t: "list_all scalar t" "30 \<notin> set t" "t \<noteq> []"
    "decode_text flat_json t = Inr (demo_binary\<lparr>s_attachments := None\<rparr>)"
    using demo_binary_text by blast
  have "aws_items nibble64 (WsMsg (WsText (of_char CHR ''4'' # t))) = map Some [Inr (epacket EMessage (utf8 t))]"
    using ws_items_message(2) [OF t(3,1,2)] aws_items_agree [of "WsMsg (WsText (of_char CHR ''4'' # t))"] by simp
  moreover have "aws_items nibble64 (WsMsg (WsBinary [3, 2])) = map Some [Inr (epacket EMessage [3, 2])]"
    using ws_items_message(1) [of "[3, 2]" nibble64] aws_items_agree [of "WsMsg (WsBinary [3, 2])" nibble64]
    by (simp add: separator_def)
  moreover have "spacket_try_from flat_json (utf8 t) = Inr (demo_binary\<lparr>s_attachments := None\<rparr>)"
    using t by (simp add: spacket_try_from_def utf8_scalars)
  ultimately show thesis using that [of t] by (simp add: demo_abacklog del: aws_items.simps)
qed

lemma demo_aframes:
  obtains p q s sp where "\<not> sa_done s" "\<not> ac_done (sa_engine s)"
    "abacklog nibble64 (sa_engine s) = map (Some \<circ> Inr) (p # [q]) @ []"
    "list_all (\<lambda>q. is_message (e_id q)) (p # [q])" "spacket_try_from flat_json (e_data p) = Inr sp"
    "unat (s_count sp) = length [q]" "sp\<lparr>s_attachments := Some [e_data q]\<rparr> = demo_binary"
    "\<And>e'. ahandle_socketio_packet sp (s\<lparr>sa_engine := e'\<rparr>) = (s :: nat assocket)\<lparr>sa_engine := e'\<rparr>"
proof -
  obtain t where t: "abacklog nibble64 (demo_asocket (WsMsg (WsText (of_char CHR ''4'' # t)) # WsMsg (WsBinary [3, 2]) # [])) =
      map (Some \<circ> Inr) [epacket EMessage (utf8 t), epacket EMessage [3, 2]] @ concat (map (aws_items nibble64) [])"
    "spacket_try_from flat_json (utf8 t) = Inr (demo_binary\<lparr>s_attachments := None\<rparr>)"
    by (rule demo_announced)
  then show thesis
    by (intro that [of "demo_assocket (WsMsg (WsText (of_char CHR ''4'' # t)) # WsMsg (WsBinary [3, 2]) # [])"
          "epacket EMessage (utf8 t)" "epacket EMessage [3, 2]" "demo_binary\<lparr>s_attachments := None\<rparr>"])
      (simp_all add: is_message_def demo_binary_def spacket_def ahandle_socketio_packet_def)
qed

theorem async_attachments_reassembled_witness:
  "\<exists>s e'. assocket_next nibble64 demo_urls flat_json s =
     (Ok (Some demo_binary), (s :: nat assocket)\<lparr>sa_engine := e'\<rparr>)"
proof (rule demo_aframes)
  fix p q s sp
  assume prem: "\<not> sa_done s" "\<not> ac_done (sa_engine s)"
    "abacklog nibble64 (sa_engine s) = map (Some \<circ> Inr) (p # [q]) @ []"
    "list_all (\<lambda>q. is_message (e_id q)) (p # [q])" "spacket_try_from flat_json (e_data p) = Inr sp"
    "unat (s_count sp) = length [q]"
    and result: "sp\<lparr>s_attachments := Some [e_data q]\<rparr> = demo_binary"
    "\<And>e'. ahandle_socketio_packet sp (s\<lparr>sa_engine := e'\<rparr>) = (s :: nat assocket)\<lparr>sa_engine := e'\<rparr>"
  from async_attachments_reassembled [OF prem, of demo_urls] result show ?thesis by auto
qed

theorem async_truncated_attachments_witness:
  "\<exists>s :: nat assocket. fst (assocket_next nibble64 demo_urls flat_json s) = Panic"
proof -
  obtain t where t: "abacklog nibble64 (demo_asocket (WsMsg (WsText (of_char CHR ''4'' # t)) # [WsEnd])) =
      map (Some \<circ> Inr) [epacket EMessage (utf8 t)] @ concat (map (aws_items nibble64) [WsEnd])"
    "spacket_try_from flat_json (utf8 t) = Inr (demo_binary\<lparr>s_attachments := None\<rparr>)"
    by (rule demo_announced)
  let ?s = "demo_assocket (WsMsg (WsText (of_char CHR ''4'' # t)) # [WsEnd])"
  have one: "\<not> sa_done ?s" "\<not> ac_done (sa_engine ?s)"
    "abacklog nibble64 (sa_engine ?s) = map (Some \<circ> Inr) (epacket EMessage (utf8 t) # []) @ None # []"
    using t(1) by simp_all
  have two: "list_all (\<lambda>q. is_message (e_id q)) (epacket EMessage (utf8 t) # [])"
    "spacket_try_from flat_json (e_data (epacket EMessage (utf8 t))) = Inr (demo_binary\<lparr>s_attachments := None\<rparr>)"
    "length [] < unat (s_count (demo_binary\<lparr>s_attachments := None\<rparr>))"
    using t(2) by (simp_all add: is_message_def) (simp add: demo_binary_def spacket_def)
  from async_truncated_attachments [OF one two, of demo_urls] show ?thesis by blast
qed

section \<open>Well-formed packets\<close>

lemma aread_attachments_length:
  "aread_attachments B U n as s = (Ok bs, s') \<Longrightarrow> length bs = length as + n"
  by (induction n arbitrary: as s) (fastforce elim!: seq_OkE split: option.splits if_splits)+

lemma ahandle_engineio_packet_wf:
  assumes "ahandle_engineio_packet B U J q s = (Ok p, s')"
  shows "wf_received p"
proof -
  obtain sp where sp: "spacket_try_from J (e_data q) = Inr sp"
    using assms by (auto simp: ahandle_engineio_packet_def split: sum.splits)
  then have "wf_packet sp \<and> s_attachments sp = None" by (rule spacket_try_from_wf)
  with assms sp show ?thesis
    by (auto simp: ahandle_engineio_packet_def wf_received_def wf_packet_def word_gt_0
        dest!: aread_attachments_length elim!: seq_OkE split: if_splits)
qed

text \<open>Every packet the asynchronous stream gives is well-formed and carries the attachments it announces.\<close>

theorem async_packet_wf:
  "assocket_next B U J s = (Ok (Some p), s') \<Longrightarrow> wf_received p"
proof (induction B U J s rule: assocket_next.induct)
  case (1 B U J s)
  have nd: "\<not> sa_done s" using "1.prems" by (auto simp: assocket_next.simps [of B U J s])
  with "1.prems" obtain q s1 where q: "on_aengine (aclient_next B U) s = (Ok (Some q), s1)"
    by (auto simp: assocket_next.simps [of B U J s] split: prod.splits outcome.splits option.splits)
  show ?case
  proof (cases "is_message (e_id q)")
    case True
    with q nd "1.prems" obtain s2 where "ahandle_engineio_packet B U J q s1 = (Ok p, s2)"
      by (auto simp: assocket_next.simps [of B U J s] split: prod.splits outcome.splits)
    then show ?thesis by (rule ahandle_engineio_packet_wf)
  next
    case False
    with q nd "1.prems" have "assocket_next B U J s1 = (Ok (Some p), s')"
      by (simp add: assocket_next.simps [of B U J s])
    with "1.IH" [OF nd q [symmetric] refl refl False] show ?thesis by simp
  qed
qed
theorem async_packet_wf_witness: "wf_received demo_binary"
proof (rule demo_aframes)
  fix p q s sp
  assume prem: "\<not> sa_done s" "\<not> ac_done (sa_engine s)"
    "abacklog nibble64 (sa_engine s) = map (Some \<circ> Inr) (p # [q]) @ []"
    "list_all (\<lambda>q. is_message (e_id q)) (p # [q])" "spacket_try_from flat_json (e_data p) = Inr sp"
    "unat (s_count sp) = length [q]"
    and result: "sp\<lparr>s_attachments := Some [e_data q]\<rparr> = demo_binary"
    "\<And>e'. ahandle_socketio_packet sp (s\<lparr>sa_engine := e'\<rparr>) = (s :: nat assocket)\<lparr>sa_engine := e'\<rparr>"
  from assocket_next_assembles [OF prem, of demo_urls] result async_packet_wf show ?thesis by fastforce
qed

end
