(* ===== verification/Sio_Async_Client.thy ===== *)
theory Sio_Async_Client
  imports Sio_Async_Socket Engine_Async_Client Sio_Client
begin

text \<open>
  \<open>socketio/src/asynchronous/client/client.rs\<close>, \<open>callback.rs\<close>, \<open>ack.rs\<close> and \<open>builder.rs\<close>: the
  asynchronous socket.io client, its callbacks, its acknowledgements and the task that polls it.

  Callbacks, scripts and calls are those of \<open>Raw_Client\<close>; a callback's future is awaited before the
  client goes on, so its script runs to the end. \<open>callback\<close> holds the tables while a callback runs, but
  no call a script can make needs them; the list of acknowledgements is held while an acknowledgement
  callback runs, and \<open>emit_with_ack\<close> waits for it (\<open>Block\<close>).
\<close>

section \<open>State\<close>

record ('u, 'j) araw =
  ra_socket :: "'u assocket"
  ra_on :: "(sevent \<times> nat) list"
  ra_on_any :: "nat option"
  ra_acks :: "ack list"
  ra_nsp :: rstring
  ra_auth :: "'j option"
  ra_acks_locked :: bool
  ra_calls :: "call list"
  ra_time :: "nat \<Rightarrow> nat"
  ra_rand :: "nat \<Rightarrow> nat"

type_synonym ('u, 'j, 'a) araw_proc = "(('u, 'j) araw, serror, 'a) proc"

definition araw_new ::
  "'u assocket \<Rightarrow> rstring \<Rightarrow> (sevent \<times> nat) list \<Rightarrow> nat option \<Rightarrow> 'j option \<Rightarrow>
   (nat \<Rightarrow> nat) \<Rightarrow> (nat \<Rightarrow> nat) \<Rightarrow> ('u, 'j) araw" where
  "araw_new s nsp on on_any auth time rand =
     \<lparr>ra_socket = s, ra_on = on, ra_on_any = on_any, ra_acks = [], ra_nsp = nsp, ra_auth = auth,
      ra_acks_locked = False, ra_calls = [], ra_time = time, ra_rand = rand\<rparr>"

definition on_asocket :: "('u assocket, serror, 'a) proc \<Rightarrow> ('u, 'j, 'a) araw_proc" where
  "on_asocket m s = (case m (ra_socket s) of (r, t) \<Rightarrow> (r, s\<lparr>ra_socket := t\<rparr>))"

definition aread_clock :: "('u, 'j) araw \<Rightarrow> nat \<times> ('u, 'j) araw" where
  "aread_clock s = (ra_time s 0, s\<lparr>ra_time := (\<lambda>n. ra_time s (Suc n))\<rparr>)"

definition adraw_id :: "('u, 'j) araw \<Rightarrow> i32 \<times> ('u, 'j) araw" where
  "adraw_id s = (word_of_nat (ra_rand s 0 mod 999), s\<lparr>ra_rand := (\<lambda>n. ra_rand s (Suc n))\<rparr>)"

section \<open>Operations\<close>

definition araw_connect :: "('u, 'j) slib \<Rightarrow> ('u, 'j, unit) araw_proc" where
  "araw_connect L s =
     seq (on_asocket (assocket_connect (sl_b64 L) (sl_url L))) (\<lambda>_.
       let auth = map_option (json_print (sl_json L)) (ra_auth s);
           open_packet = spacket SConnect (ra_nsp s) auth None 0 None
       in on_asocket (assocket_send (sl_oc L) (sl_b64 L) (sl_url L) open_packet)) s"

definition araw_emit :: "('u, 'j) slib \<Rightarrow> sevent \<Rightarrow> spayload \<Rightarrow> ('u, 'j, unit) araw_proc" where
  "araw_emit L event data s =
     on_asocket (assocket_emit (sl_oc L) (sl_b64 L) (sl_url L) (sl_json L) (ra_nsp s) event data) s"

text \<open>A failed send ends \<open>disconnect\<close>, and no callback is called.\<close>

definition araw_disconnect :: "('u, 'j) slib \<Rightarrow> ('u, 'j, unit) araw_proc" where
  "araw_disconnect L s =
     seq (on_asocket (assocket_send (sl_oc L) (sl_b64 L) (sl_url L)
            (spacket SDisconnect (ra_nsp s) None None 0 None))) (\<lambda>_.
     on_asocket (assocket_disconnect (sl_b64 L) (sl_url L))) s"

definition araw_emit_with_ack ::
  "('u, 'j) slib \<Rightarrow> sevent \<Rightarrow> spayload \<Rightarrow> nat \<Rightarrow> nat \<Rightarrow> ('u, 'j, unit) araw_proc" where
  "araw_emit_with_ack L event data timeout callback s =
     (let (i, s1) = adraw_id s in
      case abuild_packet_for_payload (sl_json L) data event (ra_nsp s) (Some i) of
        Inl e \<Rightarrow> (Err e, s1)
      | Inr packet \<Rightarrow>
          let (now, s2) = aread_clock s1;
              ack = \<lparr>ack_id = i, ack_timeout = timeout, ack_started = now, ack_callback = callback\<rparr>
          in if ra_acks_locked s2 then (Block, s2)
             else on_asocket (assocket_send (sl_oc L) (sl_b64 L) (sl_url L) packet)
               (s2\<lparr>ra_acks := ra_acks s2 @ [ack]\<rparr>))"

fun arun_action :: "('u, 'j) slib \<Rightarrow> action \<Rightarrow> ('u, 'j, unit) araw_proc" where
  "arun_action L (AEmit event data) = ignore (araw_emit L event data)"
| "arun_action L (AEmitWithAck event data timeout callback) =
     ignore (araw_emit_with_ack L event data timeout callback)"
| "arun_action L ADisconnect = ignore (araw_disconnect L)"

fun arun_actions :: "('u, 'j) slib \<Rightarrow> action list \<Rightarrow> ('u, 'j, unit) araw_proc" where
  "arun_actions L [] = give (Ok ())"
| "arun_actions L (a # as) = seq (arun_action L a) (\<lambda>_. arun_actions L as)"

definition arun_call :: "('u, 'j) slib \<Rightarrow> call \<Rightarrow> ('u, 'j, unit) araw_proc" where
  "arun_call L c s = arun_actions L (sl_script L (ra_calls s @ [c])) (s\<lparr>ra_calls := ra_calls s @ [c]\<rparr>)"

definition arun_call_option :: "('u, 'j) slib \<Rightarrow> call option \<Rightarrow> ('u, 'j, unit) araw_proc" where
  "arun_call_option L c = (case c of Some c \<Rightarrow> arun_call L c | None \<Rightarrow> give (Ok ()))"

definition araw_callback :: "('u, 'j) slib \<Rightarrow> sevent \<Rightarrow> spayload \<Rightarrow> ('u, 'j, unit) araw_proc" where
  "araw_callback L event payload s =
     seq (arun_call_option L (own_call (ra_on s) event payload)) (\<lambda>_.
     arun_call_option L (any_call (ra_on_any s) event payload)) s"

section \<open>Incoming packets\<close>

definition acall_ack :: "('u, 'j) slib \<Rightarrow> spacket \<Rightarrow> ack \<Rightarrow> ('u, 'j, unit) araw_proc" where
  "acall_ack L p ack s =
     (let (now, s1) = aread_clock s
      in if now - ack_started ack < ack_timeout ack then
           seq (arun_call_option L (map_option (\<lambda>d. CallAck (ack_callback ack) (PString d)) (s_data p)))
             (\<lambda>_. arun_call_option L
               (case s_attachments p of
                  Some (payload # _) \<Rightarrow> Some (CallAck (ack_callback ack) (PBinary payload))
                | _ \<Rightarrow> None)) s1
         else (Ok (), s1))"

fun aack_loop ::
  "('u, 'j) slib \<Rightarrow> spacket \<Rightarrow> i32 \<Rightarrow> nat \<Rightarrow> ack list \<Rightarrow> nat list \<Rightarrow> ('u, 'j, nat list) araw_proc" where
  "aack_loop L p i index [] to_be_removed = give (Ok to_be_removed)"
| "aack_loop L p i index (ack # acks) to_be_removed =
     (if ack_id ack = i then
        seq (acall_ack L p ack) (\<lambda>_. aack_loop L p i (Suc index) acks (to_be_removed @ [index]))
      else aack_loop L p i (Suc index) acks to_be_removed)"

definition ahandle_ack :: "('u, 'j) slib \<Rightarrow> spacket \<Rightarrow> ('u, 'j, unit) araw_proc" where
  "ahandle_ack L p s =
     (case s_id p of
        None \<Rightarrow> (Ok (), s)
      | Some i \<Rightarrow>
          if ra_acks_locked s then (Block, s)
          else seq (aack_loop L p i 0 (ra_acks s) []) (\<lambda>to_be_removed s1.
            let s2 = s1\<lparr>ra_acks_locked := False\<rparr> in
            case remove_indices to_be_removed (ra_acks s2) of
              None \<Rightarrow> (Panic, s2)
            | Some acks \<Rightarrow> (Ok (), s2\<lparr>ra_acks := acks\<rparr>)) (s\<lparr>ra_acks_locked := True\<rparr>))"

definition ahandle_binary_event :: "('u, 'j) slib \<Rightarrow> spacket \<Rightarrow> ('u, 'j, unit) araw_proc" where
  "ahandle_binary_event L p =
     (let event = (case s_data p of
            Some string_data \<Rightarrow> event_of_string (filter (\<lambda>c. c \<noteq> of_char CHR 0x22) string_data)
          | None \<Rightarrow> EvMessage)
      in case s_attachments p of
           Some (binary_payload # _) \<Rightarrow> araw_callback L event (PBinary binary_payload)
         | _ \<Rightarrow> give (Ok ()))"

definition ahandle_event :: "('u, 'j) slib \<Rightarrow> spacket \<Rightarrow> ('u, 'j, unit) araw_proc" where
  "ahandle_event L p =
     (case s_data p of
        None \<Rightarrow> give (Ok ())
      | Some data \<Rightarrow>
          (case json_parse (sl_json L) data of
             Inl _ \<Rightarrow> give (Ok ())
           | Inr v \<Rightarrow>
               (case json_as_array (sl_json L) v of
                  None \<Rightarrow> give (Ok ())
                | Some contents \<Rightarrow>
                    (case contents of
                       [] \<Rightarrow> give (Err SIncompletePacket)
                     | [c] \<Rightarrow> araw_callback L EvMessage (PString (json_print (sl_json L) c))
                     | v0 # c # _ \<Rightarrow>
                         araw_callback L (event_of_string (case json_as_string (sl_json L) v0 of
                             Some ev \<Rightarrow> ev
                           | None \<Rightarrow> lit ''message''))
                           (PString (json_print (sl_json L) c))))))"

definition areport :: "('u, 'j) slib \<Rightarrow> bool \<Rightarrow> ('u, 'j, unit) araw_proc \<Rightarrow> ('u, 'j, unit) araw_proc" where
  "areport L return_err m s =
     (case m s of
        (Err err, s1) \<Rightarrow>
          seq (araw_callback L EvError (PString (sl_display L err)))
            (\<lambda>_. give (if return_err then Err err else Ok ())) s1
      | r \<Rightarrow> r)"

definition araw_handle_packet :: "('u, 'j) slib \<Rightarrow> spacket \<Rightarrow> ('u, 'j, unit) araw_proc" where
  "araw_handle_packet L p s =
     (if s_nsp p = ra_nsp s then
        (case s_type p of
           SAck \<Rightarrow> areport L True (ahandle_ack L p) s
         | SBinaryAck \<Rightarrow> areport L True (ahandle_ack L p) s
         | SBinaryEvent \<Rightarrow> areport L False (ahandle_binary_event L p) s
         | SConnect \<Rightarrow> araw_callback L EvConnect (PString []) s
         | SDisconnect \<Rightarrow> araw_callback L EvClose (PString []) s
         | SConnectError \<Rightarrow>
             araw_callback L EvError (PString (lit ''Received an ConnectError frame: '' @
               (case s_data p of
                  Some d \<Rightarrow> d
                | None \<Rightarrow> quote_json (lit ''No error message provided'')))) s
         | SEvent \<Rightarrow> areport L False (ahandle_event L p) s)
      else (Ok (), s))"

text \<open>One item of \<open>as_stream\<close>; \<open>None\<close> is its end.\<close>

definition as_stream_next :: "('u, 'j) slib \<Rightarrow> ('u, 'j, (serror + spacket) option) araw_proc" where
  "as_stream_next L s =
     (case on_asocket (assocket_next (sl_b64 L) (sl_url L) (sl_json L)) s of
        (Ok None, s1) \<Rightarrow> (Ok None, s1)
      | (Err err, s1) \<Rightarrow>
          (case araw_callback L EvError (PString (sl_display L err)) s1 of
             (Err callback_err, s2) \<Rightarrow> (Ok (Some (Inl callback_err)), s2)
           | (Ok _, s2) \<Rightarrow> (Ok (Some (Inl err)), s2)
           | (Panic, s2) \<Rightarrow> (Panic, s2)
           | (Block, s2) \<Rightarrow> (Block, s2))
      | (Ok (Some packet), s1) \<Rightarrow>
          (case araw_handle_packet L packet s1 of
             (Err callback_err, s2) \<Rightarrow> (Ok (Some (Inl callback_err)), s2)
           | (Ok _, s2) \<Rightarrow> (Ok (Some (Inr packet)), s2)
           | (Panic, s2) \<Rightarrow> (Panic, s2)
           | (Block, s2) \<Rightarrow> (Block, s2))
      | (Panic, s1) \<Rightarrow> (Panic, s1)
      | (Block, s1) \<Rightarrow> (Block, s1))"

section \<open>The builder\<close>

record 'j asbuilder =
  ab_address :: rstring
  ab_on :: "(sevent \<times> nat) list"
  ab_on_any :: "nat option"
  ab_namespace :: rstring
  ab_headers :: "header_map option"
  ab_transport :: transport_type
  ab_auth :: "'j option"

definition asbuilder_new :: "rstring \<Rightarrow> 'j asbuilder" where
  "asbuilder_new addr =
     \<lparr>ab_address = addr, ab_on = [], ab_on_any = None, ab_namespace = lit ''/'', ab_headers = None,
      ab_transport = TAny, ab_auth = None\<rparr>"

definition ab_set_namespace :: "rstring \<Rightarrow> 'j asbuilder \<Rightarrow> 'j asbuilder" where
  "ab_set_namespace nsp b =
     b\<lparr>ab_namespace := (if \<not> starts_with nsp (of_char CHR ''/'') then lit ''/'' @ nsp else nsp)\<rparr>"

definition ab_set_on :: "sevent \<Rightarrow> nat \<Rightarrow> 'j asbuilder \<Rightarrow> 'j asbuilder" where
  "ab_set_on event callback b = b\<lparr>ab_on := AList.update event callback (ab_on b)\<rparr>"

definition ab_set_on_any :: "nat \<Rightarrow> 'j asbuilder \<Rightarrow> 'j asbuilder" where
  "ab_set_on_any callback b = b\<lparr>ab_on_any := Some callback\<rparr>"

definition ab_opening_header :: "header_name \<Rightarrow> header_value \<Rightarrow> 'j asbuilder \<Rightarrow> 'j asbuilder" where
  "ab_opening_header key val b =
     b\<lparr>ab_headers := Some (snd (header_map_insert key val
        (case ab_headers b of Some m \<Rightarrow> m | None \<Rightarrow> header_map_new)))\<rparr>"

definition ab_set_auth :: "'j \<Rightarrow> 'j asbuilder \<Rightarrow> 'j asbuilder" where
  "ab_set_auth auth b = b\<lparr>ab_auth := Some auth\<rparr>"

definition ab_set_transport :: "transport_type \<Rightarrow> 'j asbuilder \<Rightarrow> 'j asbuilder" where
  "ab_set_transport t b = b\<lparr>ab_transport := t\<rparr>"

definition aengine_builder :: "'u elib \<Rightarrow> 'j asbuilder \<Rightarrow> 'u \<Rightarrow> 'u ebuilder" where
  "aengine_builder E b url =
     (let url' = (if url_path (lib_url E) url = lit ''/''
                  then url_set_path (lib_url E) url (lit ''/socket.io/'') else url);
          builder = abuilder_new E url'
      in case ab_headers b of Some h \<Rightarrow> abuilder_headers h builder | None \<Rightarrow> builder)"

definition abuild_engine :: "'u elib \<Rightarrow> transport_type \<Rightarrow> 'u ebuilder \<Rightarrow> ('u net, eerror, 'u asocket) proc" where
  "abuild_engine E t builder =
     (case t of
        TAny \<Rightarrow> abuild_with_fallback E builder
      | TPolling \<Rightarrow> abuild_polling E builder
      | TWebsocket \<Rightarrow> abuild_websocket E builder
      | TWebsocketUpgrade \<Rightarrow> abuild_websocket_with_upgrade E builder)"

definition connect_manual ::
  "('u, 'j) slib \<Rightarrow> 'j asbuilder \<Rightarrow> (nat \<Rightarrow> nat) \<Rightarrow> (nat \<Rightarrow> nat) \<Rightarrow> ('u net, serror, ('u, 'j) araw) proc" where
  "connect_manual L b time rand w =
     (case url_parse (sl_url L) (ab_address b) of
        Inl e \<Rightarrow> (Err (SInvalidUrl e), w)
      | Inr url \<Rightarrow>
          (case abuild_engine (sl_engine L) (ab_transport b) (aengine_builder (sl_engine L) b url) w of
             (Ok engine_client, w1) \<Rightarrow>
               (case araw_connect L
                  (araw_new (assocket_new engine_client) (ab_namespace b) (ab_on b) (ab_on_any b) (ab_auth b) time rand) of
                  (Ok _, r) \<Rightarrow> (Ok r, as_net (sa_engine (ra_socket r)))
                | (Err e, r) \<Rightarrow> (Err e, as_net (sa_engine (ra_socket r)))
                | (Panic, r) \<Rightarrow> (Panic, as_net (sa_engine (ra_socket r)))
                | (Block, r) \<Rightarrow> (Block, as_net (sa_engine (ra_socket r))))
           | (Err e, w1) \<Rightarrow> (Err (SIncompleteResponseFromEngineIo e), w1)
           | (Panic, w1) \<Rightarrow> (Panic, w1)
           | (Block, w1) \<Rightarrow> (Block, w1)))"

text \<open>
  The task that \<open>connect\<close> spawns: it polls the stream and ignores every item, errors and the end of the
  stream included. What \<open>unfold\<close> does when it is polled after its end is the parameter \<open>past_end\<close>: the
  documentation of streams allows a panic. The boolean says that the stream is over.
\<close>

fun poll_task ::
  "('u, 'j) slib \<Rightarrow> (serror, unit) outcome \<Rightarrow> nat \<Rightarrow> bool \<Rightarrow> (('u, 'j) araw, serror, unit) proc" where
  "poll_task L past_end 0 over s = (Ok (), s)"
| "poll_task L past_end (Suc n) over s =
     (if over then
        (case past_end of
           Ok _ \<Rightarrow> poll_task L past_end n over s
         | r \<Rightarrow> (r, s))
      else case as_stream_next L s of
        (Ok item, s1) \<Rightarrow> poll_task L past_end n (item = None) s1
      | (Err e, s1) \<Rightarrow> (Err e, s1)
      | (Panic, s1) \<Rightarrow> (Panic, s1)
      | (Block, s1) \<Rightarrow> (Block, s1))"

section \<open>Properties\<close>

text \<open>The calls an event makes when the callbacks do nothing with the client.\<close>

definition acalls :: "('u, 'j) araw \<Rightarrow> sevent \<Rightarrow> spayload \<Rightarrow> call list" where
  "acalls s event payload =
     (case own_call (ra_on s) event payload of Some c \<Rightarrow> [c] | None \<Rightarrow> []) @
     (case any_call (ra_on_any s) event payload of Some c \<Rightarrow> [c] | None \<Rightarrow> [])"

lemma araw_callback_silent:
  assumes "\<And>h. sl_script L h = []"
  shows "araw_callback L event payload s = (Ok (), s\<lparr>ra_calls := ra_calls s @ acalls s event payload\<rparr>)"
proof -
  have "arun_call_option L c t = (Ok (), t\<lparr>ra_calls := ra_calls t @ (case c of Some c \<Rightarrow> [c] | None \<Rightarrow> [])\<rparr>)" for c and t :: "('a, 'b) araw"
    by (cases c) (simp_all add: arun_call_option_def arun_call_def assms)
  then show ?thesis by (simp add: araw_callback_def acalls_def)
qed

lemma on_asocket_calls: "ra_calls (snd (on_asocket m s)) = ra_calls s"
  by (simp add: on_asocket_def split: prod.splits)

text \<open>An asynchronous disconnect that succeeds closes for good: no callback is called, the one for
  the close included, and every packet sent later is refused without reaching the network.\<close>

theorem async_disconnect_closes:
  assumes "araw_disconnect L s = (Ok u, s')"
  shows "ra_calls s' = ra_calls s \<and>
    fst (run_all (assocket_send oc (sl_b64 L) (sl_url L)) ps (ra_socket s')) =
      replicate (length ps) (Err SIllegalActionBeforeOpen) \<and>
    wire (as_net (sa_engine (snd (run_all (assocket_send oc (sl_b64 L) (sl_url L)) ps (ra_socket s'))))) =
      wire (as_net (sa_engine (ra_socket s')))"
proof -
  from assms obtain x s1 where
    s1: "on_asocket (assocket_send (sl_oc L) (sl_b64 L) (sl_url L)
      (spacket SDisconnect (ra_nsp s) None None 0 None)) s = (Ok x, s1)"
    and s2: "on_asocket (assocket_disconnect (sl_b64 L) (sl_url L)) s1 = (Ok u, s')"
    unfolding araw_disconnect_def by (rule seq_OkE)
  from s1 s2 have "ra_calls s' = ra_calls s" using on_asocket_calls by (metis snd_conv)
  moreover from s2 have d: "assocket_disconnect (sl_b64 L) (sl_url L) (ra_socket s1) = (Ok u, ra_socket s')"
    by (auto simp: on_asocket_def split: prod.splits)
  ultimately show ?thesis
    using assock.closed_silent [OF d, where oc = oc and ps = ps] by simp
qed

text \<open>After the server has disconnected the namespace, the asynchronous client can no longer be
  disconnected: \<open>disconnect\<close> fails, changes nothing, and the engine connection stays open.\<close>

theorem async_disconnect_refused:
  assumes "assocket_next (sl_b64 L) (sl_url L) (sl_json L) t = (Ok (Some p), ra_socket s)" "s_type p = SDisconnect"
  shows "araw_disconnect L s = (Err SIllegalActionBeforeOpen, s)"
proof -
  have "\<not> sa_connected t'" if "assocket_next B U J t = (Ok (Some p), t')" for B U and J :: "'b jsonlib" and t t' :: "'a assocket"
    using that
  proof (induction B U J t rule: assocket_next.induct)
    case (1 B U J t)
    from "1.prems" show ?case
      using assms(2) "1.IH"
      by (subst (asm) assocket_next.simps)
        (auto simp: ahandle_socketio_packet_def split: if_splits prod.splits outcome.splits option.splits)
  qed
  with assms(1) have "\<not> sa_connected (ra_socket s)" by blast
  then show ?thesis by (simp add: araw_disconnect_def on_asocket_def assocket_send_def)
qed

text \<open>An event packet with an empty array, on which the blocking client panics, is reported to the
  error callback as \<open>IncompletePacket\<close>.\<close>

theorem async_empty_event:
  assumes "s_type p = SEvent" "s_nsp p = ra_nsp s" "s_data p = Some d" "json_parse (sl_json L) d = Inr v"
    and "json_as_array (sl_json L) v = Some []" "\<And>h. sl_script L h = []"
  shows "araw_handle_packet L p s =
    (Ok (), s\<lparr>ra_calls := ra_calls s @ acalls s EvError (PString (sl_display L SIncompletePacket))\<rparr>)"
  using assms by (simp add: araw_handle_packet_def areport_def ahandle_event_def araw_callback_silent give_def)

lemma assocket_next_error:
  assumes "\<not> sa_done t" "\<not> ac_done (sa_engine t)" "abacklog B (sa_engine t) = Some (Inl e) # rest"
  obtains t' where "assocket_next B U J t = (Err (SIncompleteResponseFromEngineIo e), t')" "sa_done t'"
proof -
  have "fst (asocket_next B U (sa_engine t)) = Err e"
    using asocket_next_refines [of B U "sa_engine t"] assms(3) by simp
  with assms(2) obtain f where "aclient_next B U (sa_engine t) = (Err e, f)"
    by (cases "asocket_next B U (sa_engine t)") (auto simp: aclient_next_def)
  then have "assocket_next B U J t =
      (Err (SIncompleteResponseFromEngineIo e), assocket_finish (t\<lparr>sa_engine := f\<rparr>))"
    using assms(1) by (subst assocket_next.simps) (simp add: on_aengine_def)
  with that show thesis by (simp add: assocket_finish_def)
qed

text \<open>C38: after a network error the asynchronous client is deaf. The task that \<open>connect\<close> spawns reports
  the error to the error callback, but the streams are over, so it never reads from the network again;
  it polls a finished stream, and if that panics the task dies. Callbacks make no calls here.\<close>

theorem async_error_ends_polling:
  assumes "\<not> sa_done (ra_socket s)" "\<not> ac_done (sa_engine (ra_socket s))"
    and "abacklog (sl_b64 L) (sa_engine (ra_socket s)) = Some (Inl e) # rest" "\<And>h. sl_script L h = []"
  shows "\<exists>s'. ra_calls s' = ra_calls s @
      acalls s EvError (PString (sl_display L (SIncompleteResponseFromEngineIo e))) \<and>
    poll_task L (Ok ()) (Suc n) False s = (Ok (), s') \<and> poll_task L Panic (n + 3) False s = (Panic, s')"
proof -
  obtain t where t: "assocket_next (sl_b64 L) (sl_url L) (sl_json L) (ra_socket s) =
      (Err (SIncompleteResponseFromEngineIo e), t)" "sa_done t"
    using assms(1-3) by (rule assocket_next_error)
  let ?s' = "s\<lparr>ra_socket := t, ra_calls := ra_calls s @
      acalls s EvError (PString (sl_display L (SIncompleteResponseFromEngineIo e)))\<rparr>"
  have first: "as_stream_next L s = (Ok (Some (Inl (SIncompleteResponseFromEngineIo e))), ?s')"
    using t(1) by (simp add: as_stream_next_def on_asocket_def araw_callback_silent assms(4) acalls_def)
  have "assocket_next (sl_b64 L) (sl_url L) (sl_json L) t = (Ok None, t)"
    using t(2) by (subst assocket_next.simps) simp
  then have second: "as_stream_next L ?s' = (Ok None, ?s')"
    by (simp add: as_stream_next_def on_asocket_def)
  have over: "poll_task L (Ok ()) m True s' = (Ok (), s')" for m s'
    by (induction m) simp_all
  have "poll_task L (Ok ()) (Suc n) False s = (Ok (), ?s')"
    using first second over by (cases n) simp_all
  moreover have "poll_task L Panic (n + 3) False s = (Panic, ?s')"
    using first second by (simp add: numeral_3_eq_3)
  ultimately show ?thesis by (intro exI [of _ ?s']) simp
qed

section \<open>Witnesses\<close>

definition demo_araw :: "ws_event list \<Rightarrow> (nat, rstring) araw" where
  "demo_araw es =
     araw_new (demo_assocket es) (lit ''/'') [(EvMessage, 1), (EvError, 2)] None None (\<lambda>n. n) (\<lambda>n. n)"

lemma demo_araw_fields [simp]:
  "ra_socket (demo_araw es) = demo_assocket es" "ra_nsp (demo_araw es) = lit ''/''" "ra_calls (demo_araw es) = []"
  "ra_on (demo_araw es) = [(EvMessage, 1), (EvError, 2)]" "ra_on_any (demo_araw es) = None"
  by (simp_all add: demo_araw_def araw_new_def)

lemma demo_libraries [simp]:
  "sl_b64 (demo_slib K) = nibble64" "sl_url (demo_slib K) = demo_urls" "sl_json (demo_slib K) = flat_json"
  "sl_oc (demo_slib K)" "sl_script (demo_slib K) = K" "sl_display (demo_slib K) e = []"
  by (simp_all add: demo_slib_def)

theorem async_empty_event_witness:
  "ra_calls (snd (araw_handle_packet (demo_slib (\<lambda>h. [])) (spacket SEvent (lit ''/'') (Some (lit ''[]'')) None 0 None)
      (demo_araw []))) = [CallOn 2 (PString [])]"
proof -
  let ?p = "spacket SEvent (lit ''/'') (Some (lit ''[]'')) None 0 None"
  have one: "s_type ?p = SEvent" "s_nsp ?p = ra_nsp (demo_araw [])" "s_data ?p = Some (lit ''[]'')"
    "json_parse (sl_json (demo_slib (\<lambda>h. []))) (lit ''[]'') = Inr (lit ''[]'')"
    "json_as_array (sl_json (demo_slib (\<lambda>h. []))) (lit ''[]'') = Some []"
    "\<And>h. sl_script (demo_slib (\<lambda>h. [])) h = []"
    by (simp_all add: spacket_def flat_json_def starts_with_def)
  show ?thesis unfolding async_empty_event [OF one] by (simp add: acalls_def own_call_def any_call_def)
qed

theorem async_error_ends_polling_witness:
  "\<exists>s'. poll_task (demo_slib (\<lambda>h. [])) (Ok ()) 1000 False (demo_araw [WsErr (lit ''reset'')]) = (Ok (), s') \<and>
     ra_calls s' = [CallOn 2 (PString [])]"
proof -
  let ?s = "demo_araw [WsErr (lit ''reset'')]"
  have "\<not> sa_done (ra_socket ?s)" "\<not> ac_done (sa_engine (ra_socket ?s))"
    "abacklog (sl_b64 (demo_slib (\<lambda>h. []))) (sa_engine (ra_socket ?s)) =
      Some (Inl (EWebsocketError (lit ''reset''))) # []" "\<And>h. sl_script (demo_slib (\<lambda>h. [])) h = []"
    by (simp_all add: demo_abacklog)
  from async_error_ends_polling [OF this, of 999] show ?thesis
    by (auto simp: acalls_def own_call_def any_call_def)
qed

theorem async_disconnect_refused_witness:
  "\<exists>s. araw_disconnect (demo_slib (\<lambda>h. [])) s = (Err SIllegalActionBeforeOpen, s) \<and>
     as_connected (sa_engine (ra_socket s))"
proof -
  let ?p = "spacket SDisconnect (lit ''/'') None None 0 None"
  let ?t = "demo_assocket [WsMsg (WsText (lit ''41''))]"
  have "abacklog nibble64 (sa_engine ?t) = map (Some \<circ> Inr) (epacket EMessage (utf8 (lit ''1'')) # []) @ []"
    using ws_items_message(2) [of "lit ''1''" nibble64] aws_items_agree [of "WsMsg (WsText (lit ''41''))"]
    by (simp add: demo_abacklog scalar_def del: aws_items.simps ws_items.simps)
  moreover have "spacket_try_from flat_json (utf8 (lit ''1'')) = Inr ?p"
  proof -
    have "list_all scalar (lit ''1'')" by (simp add: scalar_def)
    then show ?thesis
      unfolding spacket_try_from_def utf8_scalars [OF \<open>list_all scalar (lit ''1'')\<close>]
      by (simp add: spacket_def decode_text_def spacket_id_try_from_char_def decode_count_def is_binary_type_def parse_u8_def digits_value_def
          spacket_default_def)
  qed
  ultimately obtain e where run: "assocket_next nibble64 demo_urls flat_json ?t =
      (Ok (Some ?p), ahandle_socketio_packet ?p (?t\<lparr>sa_engine := e\<rparr>))" and e: "as_connected e"
    using assocket_next_assembles [of ?t nibble64 "epacket EMessage (utf8 (lit ''1''))" "[]" "[]" flat_json ?p demo_urls]
    by (auto simp: is_message_def spacket_def)
  let ?s = "(demo_araw [])\<lparr>ra_socket := ahandle_socketio_packet ?p (?t\<lparr>sa_engine := e\<rparr>)\<rparr>"
  have "assocket_next (sl_b64 (demo_slib (\<lambda>h. []))) (sl_url (demo_slib (\<lambda>h. []))) (sl_json (demo_slib (\<lambda>h. []))) ?t
      = (Ok (Some ?p), ra_socket ?s)" "s_type ?p = SDisconnect"
    using run by (simp_all add: spacket_def)
  from async_disconnect_refused [OF this] e show ?thesis
    by (intro exI [of _ ?s]) (simp add: ahandle_socketio_packet_def spacket_def)
qed

lemma apolling_emit_accepted:
  assumes "as_connected s" "as_transport s = Polling u" "post_in (as_net s) = Inr 200 # rest"
  obtains s' where "asocket_emit B U p s = (Ok (), s')" "as_connected s'" "as_transport s' = Polling u"
    "post_in (as_net s') = rest"
  using assms
  by (auto simp: asocket_emit_def on_anet_def transport_emit_def polling_emit_def log_request_def Let_def)

definition polling_araw :: "(nat, rstring) araw" where
  "polling_araw = (demo_araw [])\<lparr>ra_socket := (demo_assocket [])\<lparr>sa_engine :=
     (demo_asocket [])\<lparr>as_transport := Polling 0, as_net := (demo_net [])\<lparr>post_in := [Inr 200, Inr 200]\<rparr>\<rparr>\<rparr>\<rparr>"

theorem async_disconnect_closes_witness:
  "\<exists>s'. araw_disconnect (demo_slib (\<lambda>h. [])) polling_araw = (Ok (), s') \<and> ra_calls s' = []"
proof -
  let ?L = "demo_slib (\<lambda>h. [])" and ?e = "sa_engine (ra_socket polling_araw)"
  let ?p = "spacket SDisconnect (lit ''/'') None None 0 None"
  obtain t where enc: "encode_text True ?p = Some t" by (simp add: encode_text_def spacket_def)
  have e: "as_connected ?e" "as_transport ?e = Polling 0" "post_in (as_net ?e) = Inr 200 # [Inr 200]"
    by (simp_all add: polling_araw_def)
  obtain e1 where e1: "asocket_emit nibble64 demo_urls (epacket EMessage (utf8 t)) ?e = (Ok (), e1)"
    "as_connected e1" "as_transport e1 = Polling 0" "post_in (as_net e1) = Inr 200 # []"
    using e by (rule apolling_emit_accepted)
  have "as_connected (afire has_close OnClose e1)" "as_transport (afire has_close OnClose e1) = Polling 0"
    "post_in (as_net (afire has_close OnClose e1)) = Inr 200 # []"
    using e1(2,3,4) by simp_all
  then obtain e2 where e2: "asocket_emit nibble64 demo_urls (epacket EClose []) (afire has_close OnClose e1) = (Ok (), e2)"
    by (rule apolling_emit_accepted)
  have "assocket_send True nibble64 demo_urls ?p (ra_socket polling_araw) =
      (Ok (), (ra_socket polling_araw)\<lparr>sa_engine := e1\<rparr>)"
    using e1 e(1) enc
    by (simp add: assocket_send_def is_aengine_connected_def spacket_to_bytes_def on_aengine_def polling_araw_def
        spacket_def seq_def give_def)
  moreover have "fst (assocket_disconnect nibble64 demo_urls ((ra_socket polling_araw)\<lparr>sa_engine := e1\<rparr>)) = Ok ()"
    using e1(2) e2
    by (simp add: assocket_disconnect_def is_aengine_connected_def on_aengine_def asocket_disconnect_def seq_def)
  ultimately have "fst (araw_disconnect ?L polling_araw) = Ok ()"
    by (auto simp: araw_disconnect_def on_asocket_def seq_def polling_araw_def split: prod.split)
  then obtain s' where run: "araw_disconnect ?L polling_araw = (Ok (), s')" by (metis prod.collapse)
  have "ra_calls polling_araw = []" by (simp add: polling_araw_def)
  with async_disconnect_closes [OF run] run show ?thesis by simp
qed

end
