(* ===== verification/Runs.thy ===== *)
theory Runs
  imports Rust_Prelude
begin

text \<open>
  Labelled runs of a step relation, and the contract of a simulation: what a component does, seen
  through an abstraction, is a run of its specification. The engine.io clients interpret it.
\<close>

inductive runs :: "('s \<Rightarrow> 'l \<Rightarrow> 's \<Rightarrow> bool) \<Rightarrow> 's \<Rightarrow> 'l list \<Rightarrow> 's \<Rightarrow> bool" for step where
  runs_nil: "runs step s [] s"
| runs_cons: "step s l t \<Longrightarrow> runs step t ls u \<Longrightarrow> runs step s (l # ls) u"

inductive_simps runs_Nil [simp]: "runs step s [] t"
inductive_simps runs_Cons: "runs step s (l # ls) u"

lemma runs_append: "runs step s (ls @ ks) u \<longleftrightarrow> (\<exists>t. runs step s ls t \<and> runs step t ks u)"
  by (induction ls arbitrary: s) (auto simp: runs_Cons)

lemma runs_invariant:
  assumes "runs step s ls t" "I s" "\<And>s l t. step s l t \<Longrightarrow> I s \<Longrightarrow> I t"
  shows "I t"
  using assms(1,2) by (induction rule: runs.induct) (auto dest: assms(3))

locale simulation =
  fixes step :: "'s \<Rightarrow> 'l \<Rightarrow> 's \<Rightarrow> bool"
    and spec :: "'a \<Rightarrow> 'l \<Rightarrow> 'a \<Rightarrow> bool"
    and abs :: "'s \<Rightarrow> 'a"
    and inv :: "'s \<Rightarrow> bool"
  assumes step_inv: "step s l t \<Longrightarrow> inv s \<Longrightarrow> inv t"
    and step_spec: "step s l t \<Longrightarrow> inv s \<Longrightarrow> spec (abs s) l (abs t)"
begin

lemma runs_spec: "runs step s ls t \<Longrightarrow> inv s \<Longrightarrow> runs spec (abs s) ls (abs t)"
  by (induction rule: runs.induct) (auto intro: runs_cons step_spec dest: step_inv)

lemma runs_inv: "runs step s ls t \<Longrightarrow> inv s \<Longrightarrow> inv t"
  using runs_invariant [of step s ls t inv] step_inv by blast

text \<open>What every run of the specification keeps, the component keeps.\<close>

lemma runs_keep:
  assumes "runs step s ls t" "inv s" "\<And>a b. runs spec a ls b \<Longrightarrow> P a b"
  shows "P (abs s) (abs t)"
  using assms runs_spec by blast

end

end
