(* ===== verification/Engine_Runs.thy ===== *)
theory Engine_Runs
  imports Runs Engine_Socket
begin

text \<open>
  Whole histories of a blocking engine.io client: any sequence of \<open>connect\<close>, \<open>emit\<close>, \<open>poll\<close> and
  \<open>disconnect\<close> calls, as the threads that share the client interleave them (each call runs to its end
  before the next one starts; a call that never returns is no step). The specification is a machine
  with three components: is the connection open, what the server still has to say, and what was put
  on the network. The client simulates it, and its histories are properties of the machine.
\<close>

section \<open>The specification\<close>

text \<open>What a packet looks like on the network: a frame of the websocket or the body of a POST.\<close>

datatype outgoing = Frame ws_message | Body bytes

definition packet_form :: "base64 \<Rightarrow> 'u transport \<Rightarrow> epacket \<Rightarrow> outgoing option" where
  "packet_form B t p =
     (let binary = (e_id p = EMessageBinary) in
      case t of
        Polling _ \<Rightarrow> Some (Body (if binary then of_char CHR ''b'' # b64_encode B (e_data p) else epacket_to_bytes B p))
      | _ \<Rightarrow> if binary then Some (Frame (WsBinary (e_data p)))
             else map_option (\<lambda>str. Frame (WsText str)) (from_utf8 (epacket_to_bytes B p)))"

text \<open>Sending one packet: it is on the network, even when that reports an error, or it has no form.\<close>

inductive sends :: "(epacket \<Rightarrow> outgoing option) \<Rightarrow> epacket \<Rightarrow> (eerror, unit) outcome \<Rightarrow> outgoing list \<Rightarrow> bool"
  for form where
  sent: "form p = Some m \<Longrightarrow> sends form p (Ok ()) [m]"
| lost: "form p = Some m \<Longrightarrow> e \<noteq> EIllegalActionBeforeOpen \<Longrightarrow> sends form p (Err e) [m]"
| unsendable: "form p = None \<Longrightarrow> sends form p (Err EInvalidUtf8) []"

datatype engine_call =
    Connected "(eerror, unit) outcome"
  | Emitted epacket "(eerror, unit) outcome"
  | Polled "(eerror, epacket option) outcome"
  | Disconnected

record machine =
  m_open :: bool
  m_in :: "(eerror + epacket) list"
  m_out :: "outgoing list"

definition machine :: "bool \<Rightarrow> (eerror + epacket) list \<Rightarrow> outgoing list \<Rightarrow> machine" where
  "machine b i out = \<lparr>m_open = b, m_in = i, m_out = out\<rparr>"

inductive machine_step :: "(epacket \<Rightarrow> outgoing option) \<Rightarrow> machine \<Rightarrow> engine_call \<Rightarrow> machine \<Rightarrow> bool"
  for form where
  connect: "sends form (epacket EPong []) r new \<Longrightarrow>
    machine_step form (machine b i out) (Connected r) (machine True i (out @ new))"
| emit: "sends form p r new \<Longrightarrow>
    machine_step form (machine True i out) (Emitted p r) (machine True i (out @ new))"
| refuse: "machine_step form (machine False i out) (Emitted p (Err EIllegalActionBeforeOpen)) (machine False i out)"
| disconnect: "sends form (epacket EClose []) r new \<Longrightarrow>
    machine_step form (machine True i out) Disconnected (machine False i (out @ new))"
| stay_closed: "machine_step form (machine False i out) Disconnected (machine False i out)"
| poll_closed: "machine_step form (machine False i out) (Polled (Ok None)) (machine False i out)"
| poll_error: "machine_step form (machine True (Inl e # i) out) (Polled (Err e)) (machine True i out)"
| poll_data: "e_id p \<in> {EMessage, EMessageBinary, EUpgrade, ENoop} \<Longrightarrow>
    machine_step form (machine True (Inr p # i) out) (Polled (Ok (Some p))) (machine True i out)"
| poll_close: "e_id p = EClose \<Longrightarrow>
    machine_step form (machine True (Inr p # i) out) (Polled (Ok (Some p))) (machine False i out)"
| poll_panic: "e_id p \<in> {EOpen, EPong} \<Longrightarrow>
    machine_step form (machine True (Inr p # i) out) (Polled Panic) (machine True i out)"
| poll_ping: "e_id p = EPing \<Longrightarrow> sends form (epacket EPong []) (Ok ()) new \<Longrightarrow>
    machine_step form (machine True (Inr p # i) out) (Polled (Ok (Some p))) (machine True i (out @ new))"
| poll_ping_fails: "e_id p = EPing \<Longrightarrow> sends form (epacket EPong []) (Err e) new \<Longrightarrow>
    machine_step form (machine True (Inr p # i) out) (Polled (Err e)) (machine True i (out @ new))"

lemma machine_simps [simp]:
  "m_open (machine b i out) = b" "m_in (machine b i out) = i" "m_out (machine b i out) = out"
  "machine b i out = machine b' i' out' \<longleftrightarrow> b = b' \<and> i = i' \<and> out = out'"
  by (simp_all add: machine_def)

inductive_cases machine_stepE: "machine_step form a l b"

section \<open>The client\<close>

text \<open>One call of the client that comes back.\<close>

inductive client_step :: "base64 \<Rightarrow> 'u urllib \<Rightarrow> 'u esocket \<Rightarrow> engine_call \<Rightarrow> 'u esocket \<Rightarrow> bool" for B U where
  call_connect: "esocket_connect B U s = (r, s') \<Longrightarrow> r \<noteq> Block \<Longrightarrow> client_step B U s (Connected r) s'"
| call_emit: "esocket_emit B U p s = (r, s') \<Longrightarrow> r \<noteq> Block \<Longrightarrow> client_step B U s (Emitted p r) s'"
| call_poll: "eclient_poll B U s = (r, s') \<Longrightarrow> r \<noteq> Block \<Longrightarrow> client_step B U s (Polled r) s'"
| call_disconnect: "esocket_disconnect B U s = (Ok (), s') \<Longrightarrow> client_step B U s Disconnected s'"

fun put_on :: "'u request \<Rightarrow> outgoing list" where
  "put_on (WsSend m) = [Frame m]"
| "put_on (HttpPost u b) = [Body b]"
| "put_on (HttpGet u) = []"
| "put_on (WsConnect u) = []"

definition outbox :: "'u net \<Rightarrow> outgoing list" where
  "outbox w = concat (map put_on (wire w))"

definition client_machine :: "base64 \<Rightarrow> 'u esocket \<Rightarrow> machine" where
  "client_machine B s = machine (es_connected s) (backlog B s) (outbox (es_net s))"


section \<open>The client simulates the machine\<close>

lemma put_on_concat [simp]: "outbox (log_request r w) = outbox w @ put_on r"
  "outbox (w\<lparr>clock := n\<rparr>) = outbox w" "outbox (w\<lparr>get_in := gs\<rparr>) = outbox w"
  "outbox (w\<lparr>post_in := ps\<rparr>) = outbox w" "outbox (w\<lparr>ws_in := es\<rparr>) = outbox w"
  "outbox (w\<lparr>ws_send_in := ss\<rparr>) = outbox w"
  by (simp_all add: outbox_def log_request_def)

lemma transport_poll_outbox: "outbox (snd (transport_poll U t w)) = outbox w"
proof -
  obtain es where "ws_poll w = (fst (ws_poll w), w\<lparr>ws_in := es\<rparr>)"
    using ws_poll_net by blast
  then have "snd (ws_poll w) = w\<lparr>ws_in := es\<rparr>" by (metis snd_conv)
  moreover have "outbox (snd (polling_poll U u w)) = outbox w" for u
    by (auto simp: polling_poll_def Let_def split: list.splits sum.splits)
  ultimately show ?thesis by (simp add: transport_poll_def split: transport.splits)
qed

lemma esocket_poll_outbox: "outbox (es_net (snd (esocket_poll B U s))) = outbox (es_net s)"
  by (rule esocket_poll_net_rule [where P = "\<lambda>w. outbox w = outbox (es_net s)"])
    (simp_all add: transport_poll_outbox)

lemma fire_backlog [simp]:
  "backlog B (fire c x s) = backlog B s" "backlog B (s\<lparr>es_connected := c'\<rparr>) = backlog B s"
  by (simp_all add: backlog_def)

lemma transport_emit_sends:
  assumes "transport_emit B U t (if e_id p = EMessageBinary then e_data p else epacket_to_bytes B p)
      (e_id p = EMessageBinary) w = (r, w')" "r \<noteq> Block"
  shows "\<exists>new. sends (packet_form B t) p r new \<and> outbox w' = outbox w @ new"
proof (cases t)
  case (Polling u)
  then show ?thesis
    using assms
    by (auto simp: transport_emit_def polling_emit_def packet_form_def Let_def
        split: list.splits sum.splits if_splits intro!: sent lost)
next
  case (Websocket u)
  then show ?thesis
    using assms
    by (auto simp: transport_emit_def ws_emit_def ws_send_text_def ws_send_def packet_form_def Let_def
        split: list.splits sum.splits if_splits option.splits intro!: sent lost unsendable)
next
  case (WebsocketSecure u)
  then show ?thesis
    using assms
    by (auto simp: transport_emit_def ws_emit_def ws_send_text_def ws_send_def packet_form_def Let_def
        split: list.splits sum.splits if_splits option.splits intro!: sent lost unsendable)
qed

lemma esocket_emit_sends:
  assumes "esocket_emit B U p s = (r, s')" "r \<noteq> Block" "es_connected s"
  shows "\<exists>new. sends (packet_form B (es_transport s)) p r new \<and>
    client_machine B s' = machine True (backlog B s) (outbox (es_net s) @ new)"
proof -
  obtain r' w where emit: "transport_emit B U (es_transport s)
      (if e_id p = EMessageBinary then e_data p else epacket_to_bytes B p) (e_id p = EMessageBinary) (es_net s) = (r', w)"
    by fastforce
  have "r' = r" "es_net s' = w"
    using assms emit by (auto simp: esocket_emit_def on_net_def Let_def split: outcome.splits)
  moreover have "es_connected s'" "backlog B s' = backlog B s"
    using esocket_emit_fields(1) [of B U p s] esocket_emit_backlog [of B B U p s] assms(1,3) by simp_all
  ultimately show ?thesis
    using transport_emit_sends [OF emit] assms(2) by (auto simp: client_machine_def)
qed

lemma client_machine_upd [simp]:
  "client_machine B (s\<lparr>es_connected := c\<rparr>) = machine c (backlog B s) (outbox (es_net s))"
  "client_machine B (fire present x s) = client_machine B s" "client_machine B (pinged s) = client_machine B s"
  "client_machine B (handle_packet p s) = client_machine B s" "client_machine B (handle_data d s) = client_machine B s"
  "client_machine B (handle_close s) = machine False (backlog B s) (outbox (es_net s))"
  by (simp_all add: client_machine_def)

lemma eclient_poll_transport: "es_transport (snd (eclient_poll B U s)) = es_transport s"
proof -
  obtain r s1 where poll: "esocket_poll B U s = (r, s1)" by fastforce
  then have "es_transport s1 = es_transport s" using esocket_poll_frame(2) [of B U s] by simp
  moreover have "es_transport (snd (eclient_react B U p t)) = es_transport t" for p t
    by (auto simp: eclient_react_def esocket_emit_fields(2) split: epacket_id.splits)
  then have "eclient_react B U p (handle_packet p s1) = (r2, s2) \<Longrightarrow> es_transport s2 = es_transport s1" for p r2 s2
    by (metis handle_fields(7) snd_conv)
  ultimately show ?thesis
    by (auto simp: eclient_poll_step poll split: prod.splits outcome.splits option.splits)
qed

lemma esocket_disconnect_steps:
  assumes "esocket_disconnect B U s = (Ok u, s')"
  obtains r s1 where "esocket_emit B U (epacket EClose []) (fire has_close OnClose s) = (r, s1)" "r \<noteq> Block"
    "s' = s1\<lparr>es_connected := False\<rparr>"
  using assms by (auto simp: esocket_disconnect_def seq_def ignore_def split: prod.splits outcome.splits)

lemma client_step_transport: "client_step B U s l s' \<Longrightarrow> es_transport s' = es_transport s"
proof (induction rule: client_step.induct)
  case (call_connect s r s')
  then show ?case
    using esocket_emit_fields(2) [of B U "epacket EPong []" "pinged (fire has_open OnOpen (s\<lparr>es_connected := True\<rparr>))"]
    by (simp add: esocket_connect_def)
next
  case (call_emit p s r s')
  then show ?case using esocket_emit_fields(2) [of B U p s] by simp
next
  case (call_poll s r s')
  then show ?case using eclient_poll_transport [of B U s] by simp
next
  case (call_disconnect s s')
  then show ?case
    using esocket_emit_fields(2) [of B U "epacket EClose []" "fire has_close OnClose s"]
    by (auto elim: esocket_disconnect_steps)
qed

lemma eclient_reaction_simulates:
  assumes "(r, s') = (case eclient_react B U p (handle_packet p s) of
      (Ok _, s2) \<Rightarrow> (Ok (Some p), s2) | (Err e, s2) \<Rightarrow> (Err e, s2)
    | (Panic, s2) \<Rightarrow> (Panic, s2) | (Block, s2) \<Rightarrow> (Block, s2))" "r \<noteq> Block" "es_connected s"
  shows "machine_step (packet_form B (es_transport s)) (machine True (Inr p # backlog B s) (outbox (es_net s)))
    (Polled r) (client_machine B s')"
proof (cases "e_id p = EPing")
  case True
  let ?s2 = "pinged (handle_packet p s)"
  obtain r2 s3 where emit: "esocket_emit B U (epacket EPong []) ?s2 = (r2, s3)" by fastforce
  have e: "r2 \<noteq> Block" "s' = s3" "r = (case r2 of Ok _ \<Rightarrow> Ok (Some p) | Err e \<Rightarrow> Err e | Panic \<Rightarrow> Panic | Block \<Rightarrow> Block)"
    using assms(1,2) emit True by (auto simp: eclient_react_def split: outcome.splits)
  obtain new where new: "sends (packet_form B (es_transport s)) (epacket EPong []) r2 new"
    "client_machine B s3 = machine True (backlog B s) (outbox (es_net s) @ new)"
    using esocket_emit_sends [OF emit e(1)] assms(3) by auto
  have "r2 \<noteq> Panic" using new(1) by (auto elim: sends.cases)
  then show ?thesis
    unfolding e(2) new(2)
    using e(1,3) new(1) poll_ping [OF True] poll_ping_fails [OF True]
    by (cases r2) (auto simp: unit_eq)
next
  case False
  have "client_machine B s = machine True (backlog B s) (outbox (es_net s))"
    using assms(3) by (simp add: client_machine_def)
  with False assms(1,3) show ?thesis
    by (cases "e_id p") (auto simp: eclient_react_def intro: poll_data poll_close poll_panic)
qed

lemma eclient_poll_simulates:
  assumes "eclient_poll B U s = (r, s')" "r \<noteq> Block" "es_connected s"
  shows "machine_step (packet_form B (es_transport s)) (client_machine B s) (Polled r) (client_machine B s')"
proof -
  obtain r1 s1 where poll: "esocket_poll B U s = (r1, s1)" by fastforce
  have head: "(r1, backlog B s1) = poll_spec (backlog B s)"
    using esocket_poll_refines [OF assms(3), of B U] by (simp add: poll)
  have same: "es_connected s1" "es_transport s1 = es_transport s" "outbox (es_net s1) = outbox (es_net s)"
    using esocket_poll_frame [of B U s] esocket_poll_outbox [of B U s] assms(3) by (simp_all add: poll)
  have m: "client_machine B s = machine True (backlog B s) (outbox (es_net s))"
    using assms(3) by (simp add: client_machine_def)
  consider "backlog B s = []" | e rest where "backlog B s = Inl e # rest" | p rest where "backlog B s = Inr p # rest"
    by (cases "backlog B s" rule: list.exhaust) (metis sum.exhaust)+
  then show ?thesis
  proof cases
    case 1
    with head poll assms(1,2) show ?thesis by (simp add: eclient_poll_step)
  next
    case 2
    with head poll assms(1) have "r = Err e" "s' = s1" "backlog B s1 = rest"
      by (simp_all add: eclient_poll_step)
    with m 2 same show ?thesis by (simp add: poll_error client_machine_def)
  next
    case 3
    with head have b1: "r1 = Ok (Some p)" "backlog B s1 = rest" by simp_all
    have "(r, s') = (case eclient_react B U p (handle_packet p s1) of
        (Ok _, s2) \<Rightarrow> (Ok (Some p), s2) | (Err e, s2) \<Rightarrow> (Err e, s2)
      | (Panic, s2) \<Rightarrow> (Panic, s2) | (Block, s2) \<Rightarrow> (Block, s2))"
      using assms(1) poll b1(1) by (simp add: eclient_poll_step)
    from eclient_reaction_simulates [OF this assms(2) same(1)] show ?thesis
      unfolding m 3 using same b1(2) by simp
  qed
qed

lemma client_step_simulates:
  "client_step B U s l s' \<Longrightarrow>
     machine_step (packet_form B (es_transport s)) (client_machine B s) l (client_machine B s')"
proof (induction rule: client_step.induct)
  case (call_connect s r s')
  let ?s = "pinged (fire has_open OnOpen (s\<lparr>es_connected := True\<rparr>))"
  have "esocket_emit B U (epacket EPong []) ?s = (r, s')"
    using call_connect(1) by (simp add: esocket_connect_def)
  from esocket_emit_sends [OF this call_connect(2)] show ?case
    by (auto simp: client_machine_def [of B s] intro: connect)
next
  case (call_emit p s r s')
  show ?case
  proof (cases "es_connected s")
    case True
    with esocket_emit_sends [OF call_emit True] show ?thesis
      by (auto simp: client_machine_def [of B s] intro: emit)
  next
    case False
    with call_emit(1) have "r = Err EIllegalActionBeforeOpen" "client_machine B s' = client_machine B s"
      by (auto simp: esocket_emit_closed)
    with False show ?thesis by (simp add: client_machine_def refuse)
  qed
next
  case (call_poll s r s')
  show ?case
  proof (cases "es_connected s")
    case False
    with call_poll(1) have "r = Ok None" "s' = s" by (simp_all add: eclient_poll_step esocket_poll_closed)
    with False show ?thesis by (simp add: client_machine_def poll_closed)
  qed (use eclient_poll_simulates call_poll in blast)
next
  case (call_disconnect s s')
  then obtain r s1 where emit: "esocket_emit B U (epacket EClose []) (fire has_close OnClose s) = (r, s1)"
    "r \<noteq> Block" and s': "s' = s1\<lparr>es_connected := False\<rparr>"
    by (rule esocket_disconnect_steps)
  show ?case
  proof (cases "es_connected s")
    case True
    with esocket_emit_sends [OF emit] s' show ?thesis
      by (auto simp: client_machine_def intro: disconnect)
  next
    case False
    with emit(1) have "client_machine B s1 = client_machine B s"
      by (auto simp: esocket_emit_closed)
    with False s' show ?thesis by (simp add: client_machine_def stay_closed)
  qed
qed

interpretation client_sim: simulation "client_step B U" "machine_step (packet_form B t)" "client_machine B"
    "\<lambda>s. es_transport s = t"
  for B :: base64 and U :: "'u urllib" and t :: "'u transport"
  by unfold_locales (auto simp: client_step_transport dest: client_step_simulates)

section \<open>Histories of the machine\<close>

text \<open>What was read: the outcomes of the polls, without those of a closed connection.\<close>

fun reports :: "engine_call list \<Rightarrow> (eerror, epacket option) outcome list" where
  "reports [] = []"
| "reports (Polled r # ls) = (if r = Ok None then reports ls else r # reports ls)"
| "reports (l # ls) = reports ls"

text \<open>How an item is reported. Only a ping whose answer could not be sent is not what it was.\<close>

fun reported :: "eerror + epacket \<Rightarrow> (eerror, epacket option) outcome \<Rightarrow> bool" where
  "reported (Inl e) r \<longleftrightarrow> r = Err e"
| "reported (Inr p) r \<longleftrightarrow>
     (case e_id p of
        EOpen \<Rightarrow> r = Panic
      | EPong \<Rightarrow> r = Panic
      | EPing \<Rightarrow> r = Ok (Some p) \<or> (\<exists>e. r = Err e)
      | _ \<Rightarrow> r = Ok (Some p))"

lemma machine_reports:
  "runs (machine_step form) a ls b \<Longrightarrow>
     \<exists>items. m_in a = items @ m_in b \<and> list_all2 reported items (reports ls)"
proof (induction rule: runs.induct)
  case (runs_cons a l b ls c)
  then obtain items where items: "m_in b = items @ m_in c" "list_all2 reported items (reports ls)" by blast
  have "\<exists>new. m_in a = new @ m_in b \<and> list_all2 reported (new @ items) (reports (l # ls))"
    using runs_cons.hyps(1) items(2) by (cases rule: machine_step.cases) auto
  with items(1) show ?case by auto
qed simp

text \<open>What was written, as far as the history shows it, and whether the connection is open after it.\<close>

definition form_list :: "(epacket \<Rightarrow> outgoing option) \<Rightarrow> epacket \<Rightarrow> outgoing list" where
  "form_list form p = (case form p of Some m \<Rightarrow> [m] | None \<Rightarrow> [])"

fun open_after :: "bool \<Rightarrow> engine_call list \<Rightarrow> bool" where
  "open_after b [] = b"
| "open_after b (Connected r # ls) = open_after True ls"
| "open_after b (Disconnected # ls) = open_after False ls"
| "open_after b (Emitted p r # ls) = open_after b ls"
| "open_after b (Polled r # ls) =
     open_after (b \<and> \<not> (\<exists>p. r = Ok (Some p) \<and> e_id p = EClose)) ls"

fun written :: "(epacket \<Rightarrow> outgoing option) \<Rightarrow> bool \<Rightarrow> engine_call list \<Rightarrow> outgoing list" where
  "written form b [] = []"
| "written form b (Connected r # ls) = form_list form (epacket EPong []) @ written form True ls"
| "written form b (Disconnected # ls) =
     (if b then form_list form (epacket EClose []) else []) @ written form False ls"
| "written form b (Emitted p r # ls) =
     (if r = Err EIllegalActionBeforeOpen then [] else form_list form p) @ written form b ls"
| "written form b (Polled r # ls) =
     (case r of
        Ok (Some p) \<Rightarrow>
          (if e_id p = EPing then form_list form (epacket EPong []) else []) @
          written form (b \<and> e_id p \<noteq> EClose) ls
      | _ \<Rightarrow> written form b ls)"

lemma sends_form: "sends form p r new \<Longrightarrow> new = form_list form p"
  by (auto simp: form_list_def elim: sends.cases)

lemma sends_error: "sends form p r new \<Longrightarrow> r \<noteq> Err EIllegalActionBeforeOpen"
  by (auto elim: sends.cases)

lemma machine_open: "runs (machine_step form) a ls b \<Longrightarrow> m_open b = open_after (m_open a) ls"
proof (induction rule: runs.induct)
  case (runs_cons a l b ls c)
  from runs_cons.hyps(1) show ?case
    using runs_cons.IH by (cases rule: machine_step.cases) auto
qed simp

lemma machine_written:
  "runs (machine_step form) a ls b \<Longrightarrow> \<forall>e. Polled (Err e) \<notin> set ls \<Longrightarrow>
     m_out b = m_out a @ written form (m_open a) ls"
proof (induction rule: runs.induct)
  case (runs_cons a l b ls c)
  have "m_out c = m_out b @ written form (m_open b) ls" using runs_cons by simp
  with runs_cons.hyps(1) runs_cons.prems show ?case
    by (cases rule: machine_step.cases) (auto dest: sends_form sends_error)
qed simp

lemma machine_closed:
  "runs (machine_step form) a ls b \<Longrightarrow> \<not> m_open a \<Longrightarrow> \<forall>r. Connected r \<notin> set ls \<Longrightarrow>
     b = a \<and> set ls \<subseteq> {Disconnected, Polled (Ok None)} \<union> (\<lambda>p. Emitted p (Err EIllegalActionBeforeOpen)) ` UNIV"
proof (induction rule: runs.induct)
  case (runs_cons a l b ls c)
  from runs_cons.hyps(1) runs_cons.prems have "b = a"
    "l \<in> {Disconnected, Polled (Ok None)} \<union> (\<lambda>p. Emitted p (Err EIllegalActionBeforeOpen)) ` UNIV"
    by (cases rule: machine_step.cases; auto)+
  with runs_cons show ?case by auto
qed simp

section \<open>Properties\<close>

text \<open>
  A history for the witnesses: a ping and a close are polled, then a packet is refused and a poll
  returns nothing.
\<close>

definition demo_frames :: "ws_event list" where
  "demo_frames = [WsMsg (WsText (lit ''2'')), WsMsg (WsText (lit ''1''))]"

definition demo_open_run :: "engine_call list" where
  "demo_open_run = [Polled (Ok (Some (epacket EPing []))), Polled (Ok (Some (epacket EClose [])))]"

definition demo_closed_run :: "engine_call list" where
  "demo_closed_run =
     [Emitted (epacket EMessage [7]) (Err EIllegalActionBeforeOpen), Polled (Ok None)]"

lemma demo_frames_backlog:
  "backlog B (demo_socket demo_frames) = [Inr (epacket EPing []), Inr (epacket EClose [])]"
  by (simp add: demo_frames_def demo_backlog ws_items_char separator_def epacket_try_from_def
      epacket_id_try_from_def epacket_def del: ws_items.simps)

lemma demo_runs:
  obtains s1 s2 where "runs (client_step nibble64 demo_urls) (demo_socket demo_frames) demo_open_run s1"
    "\<not> es_connected s1" "runs (client_step nibble64 demo_urls) s1 demo_closed_run s2"
proof -
  let ?step = "client_step nibble64 demo_urls"
  let ?s = "demo_socket demo_frames" and ?ping = "epacket EPing []" and ?close = "epacket EClose []"
  obtain t where "eclient_poll nibble64 demo_urls ?s = (Ok (Some ?ping), t)"
    using eclient_ping_accepted [of ?s nibble64 ?ping "[Inr ?close]" demo_urls] demo_frames_backlog by auto
  then have one: "?step ?s (Polled (Ok (Some ?ping))) t" by (auto intro: call_poll)
  have t: "es_connected t" "backlog nibble64 t = [Inr ?close]"
    using client_step_simulates [OF one] demo_frames_backlog [of nibble64]
    by (auto simp: client_machine_def elim!: machine_step.cases)
  obtain s1 where "eclient_poll nibble64 demo_urls t = (Ok (Some ?close), s1)"
    using t by (elim eclient_poll_head [where U = demo_urls]) (auto simp: eclient_react_def)
  then have two: "?step t (Polled (Ok (Some ?close))) s1" by (auto intro: call_poll)
  have closed: "\<not> es_connected s1"
    using client_step_simulates [OF two] by (auto simp: client_machine_def elim!: machine_step.cases)
  let ?s2 = "fire has_error (OnError EIllegalActionBeforeOpen) s1"
  have "runs ?step s1 demo_closed_run ?s2"
    unfolding demo_closed_run_def using closed
    by (auto simp: runs_Cons eclient_poll_step esocket_poll_closed
        intro!: exI [of _ ?s2] call_emit call_poll esocket_emit_closed)
  moreover have "runs ?step ?s demo_open_run s1"
    unfolding demo_open_run_def using one two by (auto simp: runs_Cons)
  ultimately show thesis using that closed by blast
qed

text \<open>Every history of a blocking client is a history of the machine. Whatever sequence of
  \<open>connect\<close>, \<open>emit\<close>, \<open>poll\<close> and \<open>disconnect\<close> calls is made, with whatever results, the connection flag,
  the packets still to come and what was put on the network change as the rules of the machine say.\<close>

theorem client_runs_refine:
  assumes "runs (client_step B U) s ls s'"
  shows "runs (machine_step (packet_form B (es_transport s))) (client_machine B s) ls (client_machine B s')"
  by (rule client_sim.runs_spec [OF assms refl])

theorem client_runs_refine_witness:
  "\<exists>b. runs (machine_step (packet_form nibble64 (Websocket (0::nat))))
     (machine True [Inr (epacket EPing []), Inr (epacket EClose [])] []) demo_open_run b \<and> \<not> m_open b"
proof -
  obtain s1 s2 where run: "runs (client_step nibble64 demo_urls) (demo_socket demo_frames) demo_open_run s1"
    and "\<not> es_connected s1" "runs (client_step nibble64 demo_urls) s1 demo_closed_run s2"
    by (rule demo_runs)
  then show ?thesis
    using client_runs_refine [OF run]
    by (auto simp: client_machine_def demo_frames_backlog outbox_def demo_net_def)
qed

text \<open>C2: over a whole history every item from the server is reported exactly once and in order. What
  the polls reported, leaving out the polls of a closed connection, is item by item what was to come
  in the beginning: errors as errors, packets as they are, \<open>Open\<close> and \<open>Pong\<close> as a panic, a ping as an
  error only if its answer could not be sent. The rest is still to come.\<close>

theorem client_runs_in_order:
  assumes "runs (client_step B U) s ls s'"
  shows "\<exists>items. backlog B s = items @ backlog B s' \<and> list_all2 reported items (reports ls)"
  using machine_reports [OF client_sim.runs_spec [OF assms refl]] by (simp add: client_machine_def)

theorem client_runs_in_order_witness:
  "\<exists>s1 items. runs (client_step nibble64 demo_urls) (demo_socket demo_frames) demo_open_run s1 \<and>
     [Inr (epacket EPing []), Inr (epacket EClose [])] = items @ backlog nibble64 s1 \<and>
     list_all2 reported items [Ok (Some (epacket EPing [])), Ok (Some (epacket EClose []))]"
proof -
  obtain s1 s2 where run: "runs (client_step nibble64 demo_urls) (demo_socket demo_frames) demo_open_run s1"
    and "\<not> es_connected s1" "runs (client_step nibble64 demo_urls) s1 demo_closed_run s2"
    by (rule demo_runs)
  from run client_runs_in_order [OF run] show ?thesis
    by (auto simp: demo_frames_backlog demo_open_run_def)
qed

text \<open>C3: what is on the network is accounted for by the history. As long as no poll reports an error,
  what was written is exactly: one \<open>Pong\<close> for each \<open>connect\<close> and for each ping polled, every packet that
  was emitted while the connection was open, and one \<open>Close\<close> for a \<open>disconnect\<close> of an open connection,
  in the order of the calls.\<close>

theorem client_runs_written:
  assumes "runs (client_step B U) s ls s'" and "\<forall>e. Polled (Err e) \<notin> set ls"
  shows "outbox (es_net s') =
      outbox (es_net s) @ written (packet_form B (es_transport s)) (es_connected s) ls \<and>
    es_connected s' = open_after (es_connected s) ls"
  using machine_written [OF client_sim.runs_spec [OF assms(1) refl] assms(2)]
    machine_open [OF client_sim.runs_spec [OF assms(1) refl]]
  by (simp add: client_machine_def)

theorem client_runs_written_witness:
  "\<exists>s1. runs (client_step nibble64 demo_urls) (demo_socket demo_frames) demo_open_run s1 \<and>
     outbox (es_net s1) = [Frame (WsText (lit ''3''))] \<and> \<not> es_connected s1"
proof -
  obtain s1 s2 where run: "runs (client_step nibble64 demo_urls) (demo_socket demo_frames) demo_open_run s1"
    and "\<not> es_connected s1" "runs (client_step nibble64 demo_urls) s1 demo_closed_run s2"
    by (rule demo_runs)
  have "\<forall>e. Polled (Err e) \<notin> set demo_open_run" by (simp add: demo_open_run_def)
  from run client_runs_written [OF run this] show ?thesis
    by (auto simp: demo_open_run_def form_list_def packet_form_def from_utf8_def outbox_def demo_net_def)
qed

text \<open>C4: a closed connection is silent until the next \<open>connect\<close>. In every history without one, every
  \<open>emit\<close> is refused with \<open>IllegalActionBeforeOpen\<close>, every \<open>poll\<close> returns \<open>None\<close>, nothing is written and
  nothing is consumed.\<close>

theorem client_runs_closed:
  assumes "runs (client_step B U) s ls s'" and "\<not> es_connected s" and "\<forall>r. Connected r \<notin> set ls"
  shows "\<not> es_connected s' \<and> outbox (es_net s') = outbox (es_net s) \<and> backlog B s' = backlog B s \<and>
    set ls \<subseteq> {Disconnected, Polled (Ok None)} \<union> (\<lambda>p. Emitted p (Err EIllegalActionBeforeOpen)) ` UNIV"
  using machine_closed [OF client_sim.runs_spec [OF assms(1) refl] _ assms(3)] assms(2)
  by (simp add: client_machine_def)

theorem client_runs_closed_witness:
  "\<exists>s1 s2. runs (client_step nibble64 demo_urls) s1 demo_closed_run s2 \<and> outbox (es_net s2) = outbox (es_net s1)"
proof -
  obtain s1 s2 where "runs (client_step nibble64 demo_urls) (demo_socket demo_frames) demo_open_run s1"
    and closed: "\<not> es_connected s1" and run: "runs (client_step nibble64 demo_urls) s1 demo_closed_run s2"
    by (rule demo_runs)
  have "\<forall>r. Connected r \<notin> set demo_closed_run" by (simp add: demo_closed_run_def)
  from run client_runs_closed [OF run closed this] show ?thesis by auto
qed

text \<open>Data that was sent is received. If the next packets are messages, upgrades or no-ops, then as
  many polls return exactly these packets, one each, and the connection stays open.\<close>

theorem client_run_delivers:
  assumes "es_connected s" and "backlog B s = map Inr ps @ rest"
    and "\<forall>p \<in> set ps. e_id p \<in> {EMessage, EMessageBinary, EUpgrade, ENoop}"
  shows "\<exists>s'. runs (client_step B U) s (map (\<lambda>p. Polled (Ok (Some p))) ps) s' \<and>
    es_connected s' \<and> backlog B s' = rest"
  using assms
proof (induction ps arbitrary: s)
  case (Cons p ps)
  then obtain s1 where s1: "eclient_poll B U s = (Ok (Some p), s1)"
  proof -
    have "e_id p \<in> {EMessage, EMessageBinary, EUpgrade, ENoop}" "backlog B s = Inr p # (map Inr ps @ rest)"
      using Cons.prems by simp_all
    with Cons.prems(1) show thesis
      by (elim eclient_poll_head [where U = U]) (auto simp: eclient_react_def that)
  qed
  then have step: "client_step B U s (Polled (Ok (Some p))) s1" by (auto intro: call_poll)
  have "es_connected s1 \<and> backlog B s1 = map Inr ps @ rest"
    using client_step_simulates [OF step] Cons.prems
    by (cases rule: machine_step.cases) (auto simp: client_machine_def)
  with Cons.IH [of s1] Cons.prems(3) step show ?case by (auto intro: runs_cons)
qed (auto intro: runs_nil)

theorem client_run_delivers_witness:
  "\<exists>s'. runs (client_step nibble64 demo_urls) (demo_socket [WsMsg (WsBinary [7]), WsMsg (WsBinary [8])])
     [Polled (Ok (Some (epacket EMessage [7]))), Polled (Ok (Some (epacket EMessage [8])))] s'"
proof -
  let ?s = "demo_socket [WsMsg (WsBinary [7]), WsMsg (WsBinary [8])]"
  let ?ps = "[epacket EMessage [7], epacket EMessage [8]]"
  have "backlog nibble64 ?s = map Inr ?ps @ []"
    by (simp add: demo_backlog body_items_def payload_try_from_def payload_scan_split slice_def
        separator_def epacket_try_from_def epacket_id_try_from_def epacket_def)
  from client_run_delivers [OF demo_socket_fields(1) this, of demo_urls] show ?thesis by auto
qed

end
