(* ===== verification/Engine_Async_Runs.thy ===== *)
theory Engine_Async_Runs
  imports Engine_Runs Engine_Async
begin

text \<open>
  Histories of an asynchronous engine.io client: any sequence of \<open>connect\<close>, \<open>emit\<close>, \<open>disconnect\<close> calls and
  of \<open>next\<close> calls on its stream that come back. The specification differs from the one of the blocking
  client where the client does: the stream ends after an error, it does not look at the connection
  flag, an \<open>Open\<close> or \<open>Pong\<close> packet is an error, and \<open>disconnect\<close> can fail.
\<close>

section \<open>The specification\<close>

datatype async_call =
    AConnected "(eerror, unit) outcome"
  | AEmitted epacket "(eerror, unit) outcome"
  | Next "(eerror, epacket option) outcome"
  | ADisconnected "(eerror, unit) outcome"

record stream_machine =
  st_open :: bool
  st_items :: "(eerror + epacket) option list"
  st_out :: "outgoing list"
  st_ended :: bool

definition amachine ::
  "bool \<Rightarrow> (eerror + epacket) option list \<Rightarrow> outgoing list \<Rightarrow> bool \<Rightarrow> stream_machine" where
  "amachine b i out d = \<lparr>st_open = b, st_items = i, st_out = out, st_ended = d\<rparr>"

lemma amachine_simps [simp]:
  "st_open (amachine b i out d) = b" "st_items (amachine b i out d) = i"
  "st_out (amachine b i out d) = out" "st_ended (amachine b i out d) = d"
  "amachine b i out d = amachine b' i' out' d' \<longleftrightarrow> b = b' \<and> i = i' \<and> out = out' \<and> d = d'"
  by (simp_all add: amachine_def)

inductive stream_step ::
  "(epacket \<Rightarrow> outgoing option) \<Rightarrow> stream_machine \<Rightarrow> async_call \<Rightarrow> stream_machine \<Rightarrow> bool"
  for form where
  aconnect: "sends form (epacket EPong []) r new \<Longrightarrow>
    stream_step form (amachine b i out d) (AConnected r) (amachine True i (out @ new) d)"
| aemit: "sends form p r new \<Longrightarrow>
    stream_step form (amachine True i out d) (AEmitted p r) (amachine True i (out @ new) d)"
| arefuse: "stream_step form (amachine False i out d) (AEmitted p (Err EIllegalActionBeforeOpen)) (amachine False i out d)"
| adisconnect: "sends form (epacket EClose []) (Ok ()) new \<Longrightarrow>
    stream_step form (amachine True i out d) (ADisconnected (Ok ())) (amachine False i (out @ new) d)"
| adisconnect_fails: "sends form (epacket EClose []) (Err e) new \<Longrightarrow>
    stream_step form (amachine True i out d) (ADisconnected (Err e)) (amachine True i (out @ new) d)"
| adisconnect_refused:
    "stream_step form (amachine False i out d) (ADisconnected (Err EIllegalActionBeforeOpen)) (amachine False i out d)"
| next_over: "stream_step form (amachine b i out True) (Next (Ok None)) (amachine b i out True)"
| next_end: "stream_step form (amachine b (None # i) out False) (Next (Ok None)) (amachine b [None] out True)"
| next_error: "stream_step form (amachine b (Some (Inl e) # i) out False) (Next (Err e)) (amachine b [None] out True)"
| next_data: "e_id p \<in> {EMessage, EMessageBinary, EUpgrade, ENoop} \<Longrightarrow>
    stream_step form (amachine b (Some (Inr p) # i) out False) (Next (Ok (Some p))) (amachine b i out False)"
| next_close: "e_id p = EClose \<Longrightarrow>
    stream_step form (amachine b (Some (Inr p) # i) out False) (Next (Ok (Some p))) (amachine False i out False)"
| next_invalid: "e_id p \<in> {EOpen, EPong} \<Longrightarrow>
    stream_step form (amachine b (Some (Inr p) # i) out False) (Next (Err EInvalidPacket)) (amachine b i out True)"
| next_ping: "e_id p = EPing \<Longrightarrow> sends form (epacket EPong []) (Ok ()) new \<Longrightarrow>
    stream_step form (amachine True (Some (Inr p) # i) out False) (Next (Ok (Some p))) (amachine True i (out @ new) False)"
| next_ping_fails: "e_id p = EPing \<Longrightarrow> sends form (epacket EPong []) (Err e) new \<Longrightarrow>
    stream_step form (amachine True (Some (Inr p) # i) out False) (Next (Err e)) (amachine True i (out @ new) True)"
| next_ping_closed: "e_id p = EPing \<Longrightarrow>
    stream_step form (amachine False (Some (Inr p) # i) out False) (Next (Err EIllegalActionBeforeOpen)) (amachine False i out True)"

section \<open>The client\<close>

inductive async_step :: "base64 \<Rightarrow> 'u urllib \<Rightarrow> 'u asocket \<Rightarrow> async_call \<Rightarrow> 'u asocket \<Rightarrow> bool" for B U where
  call_aconnect: "asocket_connect B U s = (r, s') \<Longrightarrow> r \<noteq> Block \<Longrightarrow> async_step B U s (AConnected r) s'"
| call_aemit: "asocket_emit B U p s = (r, s') \<Longrightarrow> r \<noteq> Block \<Longrightarrow> async_step B U s (AEmitted p r) s'"
| call_next: "aclient_next B U s = (r, s') \<Longrightarrow> r \<noteq> Block \<Longrightarrow> async_step B U s (Next r) s'"
| call_adisconnect: "asocket_disconnect B U s = (r, s') \<Longrightarrow> r \<noteq> Block \<Longrightarrow> async_step B U s (ADisconnected r) s'"

definition async_machine :: "base64 \<Rightarrow> 'u asocket \<Rightarrow> stream_machine" where
  "async_machine B s = amachine (as_connected s) (abacklog B s) (outbox (as_net s)) (ac_done s)"

section \<open>The client simulates the machine\<close>

lemma outbox_stream_in [simp]: "outbox (w\<lparr>stream_in := rs\<rparr>) = outbox w"
  by (simp add: outbox_def)

lemma apolling_next_outbox: "outbox (snd (snd (apolling_next U u (cs, w)))) = outbox w"
proof (induction U u "(cs, w)" arbitrary: cs w rule: apolling_next.induct)
  case (1 U u cs w)
  then show ?case
    by (auto simp: apolling_next.simps [of U u cs w] Let_def split: list.splits sum.splits)
qed

lemma ws_poll_next_outbox: "outbox (snd (ws_poll_next w)) = outbox w"
  by (simp add: ws_poll_next_def split: prod.split)

lemma abytes_next_keeps:
  "outbox (as_net (snd (abytes_next U s))) = outbox (as_net s) \<and>
   as_transport (snd (abytes_next U s)) = as_transport s"
  using apolling_next_outbox [of U _ "as_chunks s" "as_net s"] ws_poll_next_outbox [of "as_net s"]
  by (auto simp: abytes_next_def on_anet_def split: transport.splits prod.splits) (metis snd_conv)+

lemma finish_keeps [simp]: "as_net (finish s) = as_net s" "as_transport (finish s) = as_transport s"
  "as_net (aclient_finish s) = as_net s"
  by (simp_all add: finish_def aclient_finish_def)

lemma asocket_next_keeps:
  "outbox (as_net (snd (asocket_next B U s))) = outbox (as_net s) \<and>
   as_transport (snd (asocket_next B U s)) = as_transport s"
proof (induction B U s rule: asocket_next.induct)
  case (1 B U s)
  obtain r s1 where bn: "abytes_next U s = (r, s1)" by fastforce
  have "outbox (as_net s1) = outbox (as_net s)" "as_transport s1 = as_transport s"
    using abytes_next_keeps [of U s] by (simp_all add: bn)
  with "1.IH" bn show ?case
    by (auto simp: asocket_next.simps [of B U s] split: list.splits option.splits outcome.splits sum.splits)
qed

lemma abacklog_connected [simp]: "abacklog B (s\<lparr>as_connected := c\<rparr>) = abacklog B s"
  by (simp add: abacklog_def)

lemma asocket_emit_sends:
  assumes "asocket_emit B U p s = (r, s')" "r \<noteq> Block" "as_connected s"
  shows "\<exists>new. sends (packet_form B (as_transport s)) p r new \<and> ac_done s' = ac_done s \<and>
    async_machine B s' = amachine True (abacklog B s) (outbox (as_net s) @ new) (ac_done s)"
proof -
  obtain r' w where emit: "transport_emit B U (as_transport s)
      (if e_id p = EMessageBinary then e_data p else epacket_to_bytes B p) (e_id p = EMessageBinary) (as_net s) = (r', w)"
    by fastforce
  have "r' = r" "as_net s' = w" "ac_done s' = ac_done s"
    using assms emit by (auto simp: asocket_emit_def on_anet_def Let_def split: outcome.splits)
  moreover have "as_connected s'" "abacklog B s' = abacklog B s"
    using asocket_emit_fields(1) [of B U p s] asocket_emit_abacklog [of B B U p s] assms(1,3) by simp_all
  ultimately show ?thesis
    using transport_emit_sends [OF emit] assms(2) by (auto simp: async_machine_def)
qed

lemma async_machine_upd [simp]:
  "async_machine B (s\<lparr>as_connected := c\<rparr>) = amachine c (abacklog B s) (outbox (as_net s)) (ac_done s)"
  "async_machine B (afire present x s) = async_machine B s" "async_machine B (apinged s) = async_machine B s"
  "async_machine B (ahandle_packet p s) = async_machine B s" "async_machine B (ahandle_data d s) = async_machine B s"
  "async_machine B (ahandle_close s) = amachine False (abacklog B s) (outbox (as_net s)) (ac_done s)"
  "async_machine B (aclient_finish s) = amachine (as_connected s) (abacklog B s) (outbox (as_net s)) True"
  by (simp_all add: async_machine_def abacklog_def apinged_def ahandle_packet_def ahandle_data_def
      ahandle_close_def aclient_finish_def)

lemma handle_inconming_keeps:
  "as_transport (snd (handle_inconming_packet B U p s)) = as_transport s"
  by (simp add: handle_inconming_packet_def ahandle_packet_def ahandle_data_def ahandle_close_def apinged_def
      asocket_emit_fields(2) split: epacket_id.split)

lemma aclient_next_transport: "as_transport (snd (aclient_next B U s)) = as_transport s"
proof -
  obtain r s1 where "asocket_next B U s = (r, s1)" by fastforce
  then show ?thesis
    using asocket_next_keeps [of B U s] handle_inconming_keeps [of B U _ s1]
    by (auto simp: aclient_next_def aclient_finish_def split: prod.splits outcome.splits option.splits)
      (metis snd_conv)+
qed

text \<open>How \<open>disconnect\<close> ends follows from how sending the \<open>Close\<close> packet ended.\<close>

lemma asocket_disconnect_steps:
  assumes "asocket_disconnect B U s = (r, s')"
  obtains s1 where "asocket_emit B U (epacket EClose []) (afire has_close OnClose s) = (r, s1)"
    "s' = (if r = Ok () then s1\<lparr>as_connected := False\<rparr> else s1)"
  using assms by (auto simp: asocket_disconnect_def seq_def split: prod.splits outcome.splits)

lemma async_step_transport: "async_step B U s l s' \<Longrightarrow> as_transport s' = as_transport s"
proof (induction rule: async_step.induct)
  case (call_aconnect s r s')
  then show ?case
    using asocket_emit_fields(2) [of B U "epacket EPong []" "apinged (afire has_open OnOpen (s\<lparr>as_connected := True\<rparr>))"]
    by (simp add: asocket_connect_def apinged_def)
next
  case (call_aemit p s r s')
  then show ?case using asocket_emit_fields(2) [of B U p s] by simp
next
  case (call_next s r s')
  then show ?case using aclient_next_transport [of B U s] by simp
next
  case (call_adisconnect s r s')
  then show ?case
    using asocket_emit_fields(2) [of B U "epacket EClose []" "afire has_close OnClose s"]
    by (auto elim!: asocket_disconnect_steps)
qed

text \<open>What the client reports after its reaction to a packet, and the state it reports it in.\<close>

abbreviation reported :: "epacket \<Rightarrow> (eerror, unit) outcome \<Rightarrow> (eerror, epacket option) outcome" where
  "reported p r \<equiv> (case r of Ok _ \<Rightarrow> Ok (Some p) | Err e \<Rightarrow> Err e | Panic \<Rightarrow> Panic | Block \<Rightarrow> Block)"

abbreviation reported_in :: "(eerror, unit) outcome \<Rightarrow> 'u asocket \<Rightarrow> 'u asocket" where
  "reported_in r s \<equiv> (case r of Err e \<Rightarrow> aclient_finish s | _ \<Rightarrow> s)"

lemma ping_simulates:
  assumes "handle_inconming_packet B U p s = (r, s')" "e_id p = EPing" "r \<noteq> Block" "\<not> ac_done s"
  shows "stream_step (packet_form B (as_transport s))
    (amachine (as_connected s) (Some (Inr p) # abacklog B s) (outbox (as_net s)) False)
    (Next (reported p r)) (async_machine B (reported_in r s'))"
proof -
  let ?s = "apinged (ahandle_packet p s)"
  have emit: "asocket_emit B U (epacket EPong []) ?s = (r, s')"
    using assms(1,2) by (simp add: handle_inconming_packet_def)
  have fields: "as_connected ?s = as_connected s" "as_transport ?s = as_transport s"
    "abacklog B ?s = abacklog B s" "outbox (as_net ?s) = outbox (as_net s)" "ac_done ?s = False"
    using assms(4) by (simp_all, simp_all add: apinged_def ahandle_packet_def)
  show ?thesis
  proof (cases "as_connected s")
    case True
    obtain new where new: "sends (packet_form B (as_transport s)) (epacket EPong []) r new"
      "async_machine B s' = amachine True (abacklog B s) (outbox (as_net s) @ new) False"
      using asocket_emit_sends [OF emit assms(3)] True fields by auto
    have fin: "async_machine B (aclient_finish s') = amachine True (abacklog B s) (outbox (as_net s) @ new) True"
      using new(2) by (simp add: async_machine_def)
    have "r \<noteq> Panic" using new(1) by (auto elim: sends.cases)
    then show ?thesis
      using assms(3) new fin True next_ping [OF assms(2)] next_ping_fails [OF assms(2)] by (cases r) auto
  next
    case False
    with emit fields have r: "r = Err EIllegalActionBeforeOpen"
      and m: "async_machine B s' = async_machine B ?s" by (auto simp: asocket_emit_closed)
    have "async_machine B (aclient_finish s') = amachine False (abacklog B s) (outbox (as_net s)) True"
      using m fields False by (simp add: async_machine_def)
    with r False show ?thesis using next_ping_closed [OF assms(2)] by simp
  qed
qed

lemma reaction_simulates:
  assumes "handle_inconming_packet B U p s = (r, s')" "r \<noteq> Block" "\<not> ac_done s"
  shows "stream_step (packet_form B (as_transport s))
    (amachine (as_connected s) (Some (Inr p) # abacklog B s) (outbox (as_net s)) False)
    (Next (reported p r)) (async_machine B (reported_in r s'))"
proof (cases "e_id p = EPing")
  case True
  then show ?thesis using ping_simulates assms by blast
next
  case False
  have m: "async_machine B s = amachine (as_connected s) (abacklog B s) (outbox (as_net s)) False"
    using assms(3) by (simp add: async_machine_def)
  from False assms(1,3) m show ?thesis
    by (cases "e_id p")
      (auto simp: handle_inconming_packet_def ahandle_packet_def intro: next_data next_close next_invalid)
qed

lemma aclient_next_simulates:
  assumes "aclient_next B U s = (r, s')" "r \<noteq> Block"
  shows "stream_step (packet_form B (as_transport s)) (async_machine B s) (Next r) (async_machine B s')"
proof (cases "ac_done s")
  case True
  with assms(1) have "r = Ok None" "s' = s" by (simp_all add: aclient_next_def)
  with True show ?thesis by (simp add: async_machine_def next_over)
next
  case False
  obtain r1 s1 where nx: "asocket_next B U s = (r1, s1)" by fastforce
  have head: "(r1, abacklog B s1) = stream_spec (abacklog B s)"
    using asocket_next_refines [of B U s] by (simp add: nx)
  have same: "as_connected s1 = as_connected s" "\<not> ac_done s1" "as_transport s1 = as_transport s"
    "outbox (as_net s1) = outbox (as_net s)"
    using asocket_next_fields [of B U s] asocket_next_keeps [of B U s] False by (simp_all add: nx)
  have m: "async_machine B s = amachine (as_connected s) (abacklog B s) (outbox (as_net s)) False"
    using False by (simp add: async_machine_def)
  consider "abacklog B s = []" | rest where "abacklog B s = None # rest"
    | e rest where "abacklog B s = Some (Inl e) # rest" | p rest where "abacklog B s = Some (Inr p) # rest"
    by (cases "abacklog B s" rule: list.exhaust) (metis option.exhaust sum.exhaust)+
  then show ?thesis
  proof cases
    case 1
    with head nx assms False show ?thesis by (simp add: aclient_next_def)
  next
    case 2
    with head nx assms(1) False have "r = Ok None" "s' = aclient_finish s1" "abacklog B s1 = [None]"
      by (simp_all add: aclient_next_def)
    with m 2 same show ?thesis by (simp add: next_end)
  next
    case 3
    with head nx assms(1) False have "r = Err e" "s' = aclient_finish s1" "abacklog B s1 = [None]"
      by (simp_all add: aclient_next_def)
    with m 3 same show ?thesis by (simp add: next_error)
  next
    case 4
    with head have b1: "r1 = Ok (Some p)" "abacklog B s1 = rest" by simp_all
    obtain r2 s2 where h: "handle_inconming_packet B U p s1 = (r2, s2)" by fastforce
    have out: "r = reported p r2" "s' = reported_in r2 s2"
      using assms(1) nx b1 False h by (auto simp: aclient_next_def split: outcome.splits)
    have "r2 \<noteq> Block" using out(1) assms(2) by auto
    from reaction_simulates [OF h this same(2)] show ?thesis
      unfolding out m 4 using same b1(2) by simp
  qed
qed

lemma adisconnect_simulates:
  assumes "asocket_disconnect B U s = (r, s')" "r \<noteq> Block"
  shows "stream_step (packet_form B (as_transport s)) (async_machine B s) (ADisconnected r) (async_machine B s')"
proof -
  from assms(1) obtain s1
    where emit: "asocket_emit B U (epacket EClose []) (afire has_close OnClose s) = (r, s1)"
      and s': "s' = (if r = Ok () then s1\<lparr>as_connected := False\<rparr> else s1)"
    by (rule asocket_disconnect_steps)
  show ?thesis
  proof (cases "as_connected s")
    case True
    then obtain new where new: "sends (packet_form B (as_transport s)) (epacket EClose []) r new"
      "async_machine B s1 = amachine True (abacklog B s) (outbox (as_net s) @ new) (ac_done s)"
      using asocket_emit_sends [OF emit assms(2)] by (auto simp: abacklog_def)
    have start: "async_machine B s = amachine True (abacklog B s) (outbox (as_net s)) (ac_done s)"
      using True by (simp add: async_machine_def)
    show ?thesis
    proof (cases r)
      case (Ok u)
      with new s' show ?thesis
        unfolding start by (auto simp: async_machine_def intro: adisconnect)
    next
      case (Err e)
      with new s' show ?thesis unfolding start by (auto intro: adisconnect_fails)
    qed (use new(1) assms(2) in \<open>auto elim: sends.cases\<close>)
  next
    case False
    with emit s' have "r = Err EIllegalActionBeforeOpen" "async_machine B s' = async_machine B s"
      by (auto simp: asocket_emit_closed)
    with False show ?thesis by (simp add: async_machine_def adisconnect_refused)
  qed
qed

lemma async_step_simulates:
  "async_step B U s l s' \<Longrightarrow>
     stream_step (packet_form B (as_transport s)) (async_machine B s) l (async_machine B s')"
proof (induction rule: async_step.induct)
  case (call_aconnect s r s')
  let ?s = "apinged (afire has_open OnOpen (s\<lparr>as_connected := True\<rparr>))"
  have "asocket_emit B U (epacket EPong []) ?s = (r, s')"
    using call_aconnect(1) by (simp add: asocket_connect_def)
  from asocket_emit_sends [OF this call_aconnect(2)] show ?case
    by (auto simp: async_machine_def [of B s] apinged_def abacklog_def intro: aconnect)
next
  case (call_aemit p s r s')
  show ?case
  proof (cases "as_connected s")
    case True
    with asocket_emit_sends [OF call_aemit True] show ?thesis
      by (auto simp: async_machine_def [of B s] intro: aemit)
  next
    case False
    with call_aemit(1) have "r = Err EIllegalActionBeforeOpen" "async_machine B s' = async_machine B s"
      by (auto simp: asocket_emit_closed)
    with False show ?thesis by (simp add: async_machine_def arefuse)
  qed
next
  case (call_next s r s')
  then show ?case by (rule aclient_next_simulates)
next
  case (call_adisconnect s r s')
  then show ?case by (rule adisconnect_simulates)
qed

interpretation async_sim: simulation "async_step B U" "stream_step (packet_form B t)" "async_machine B"
    "\<lambda>s. as_transport s = t"
  for B :: base64 and U :: "'u urllib" and t :: "'u transport"
  by unfold_locales (auto simp: async_step_transport dest: async_step_simulates)

section \<open>Histories of the machine\<close>

fun nexts :: "async_call list \<Rightarrow> (eerror, epacket option) outcome list" where
  "nexts [] = []"
| "nexts (Next r # ls) = r # nexts ls"
| "nexts (l # ls) = nexts ls"

text \<open>What a stream gives: packets, then at most one error, then only the end.\<close>

definition stream_results ::
  "epacket list \<Rightarrow> eerror option \<Rightarrow> nat \<Rightarrow> (eerror, epacket option) outcome list" where
  "stream_results ps err n =
     map (\<lambda>p. Ok (Some p)) ps @ (case err of Some e \<Rightarrow> [Err e] | None \<Rightarrow> []) @ replicate n (Ok None)"

lemma ended_nexts:
  "runs (stream_step form) a ls b \<Longrightarrow> st_ended a \<Longrightarrow>
     st_ended b \<and> (\<exists>n. nexts ls = replicate n (Ok None))"
proof (induction rule: runs.induct)
  case (runs_cons a l b ls c)
  from runs_cons.hyps(1) runs_cons.prems have b: "st_ended b" "\<And>r. l = Next r \<Longrightarrow> r = Ok None"
    by (cases rule: stream_step.cases; simp)+
  with runs_cons.IH obtain n where c: "st_ended c" and n: "nexts ls = replicate n (Ok None)" by blast
  show ?case
  proof (cases "\<exists>r. l = Next r")
    case True
    with b(2) n have "nexts (l # ls) = replicate (Suc n) (Ok None)" by auto
    with c show ?thesis by blast
  next
    case False
    with n have "nexts (l # ls) = replicate n (Ok None)" by (cases l) auto
    with c show ?thesis by blast
  qed
qed (auto intro: exI [of _ 0])

lemma stream_results_Cons: "Ok (Some p) # stream_results ps err n = stream_results (p # ps) err n"
  by (simp add: stream_results_def)

lemma machine_nexts:
  "runs (stream_step form) a ls b \<Longrightarrow> \<not> st_ended a \<Longrightarrow>
     \<exists>ps err n. nexts ls = stream_results ps err n \<and>
       (\<exists>rest. st_items a = map (Some \<circ> Inr) ps @ rest \<and> (\<not> st_ended b \<longrightarrow> st_items b = rest)) \<and>
       (\<not> st_ended b \<longrightarrow> err = None \<and> n = 0)"
proof (induction rule: runs.induct)
  case (runs_nil a)
  have "nexts [] = stream_results [] None 0" by (simp add: stream_results_def)
  then show ?case by force
next
  case (runs_cons a l b ls c)
  show ?case
  proof (cases "st_ended b")
    case True
    from ended_nexts [OF runs_cons.hyps(2) this] obtain n where c: "st_ended c"
      and n: "nexts ls = replicate n (Ok None)" by blast
    from runs_cons.hyps(1) True runs_cons.prems have "l = Next (Ok None) \<or> (\<exists>e. l = Next (Err e))"
      by (cases rule: stream_step.cases) auto
    then show ?thesis
    proof
      assume "l = Next (Ok None)"
      with n have "nexts (l # ls) = stream_results [] None (Suc n)" by (simp add: stream_results_def)
      with c show ?thesis by force
    next
      assume "\<exists>e. l = Next (Err e)"
      then obtain e where "l = Next (Err e)" ..
      with n have "nexts (l # ls) = stream_results [] (Some e) n" by (simp add: stream_results_def)
      with c show ?thesis by force
    qed
  next
    case False
    from runs_cons.IH [OF this] obtain ps err n rest where ih: "nexts ls = stream_results ps err n"
      "st_items b = map (Some \<circ> Inr) ps @ rest" "\<not> st_ended c \<longrightarrow> st_items c = rest"
      "\<not> st_ended c \<longrightarrow> err = None \<and> n = 0" by blast
    from runs_cons.hyps(1) False
    have "(\<exists>p. l = Next (Ok (Some p)) \<and> st_items a = Some (Inr p) # st_items b) \<or>
        ((\<nexists>r. l = Next r) \<and> st_items a = st_items b)"
      by (cases rule: stream_step.cases) auto
    then show ?thesis
    proof
      assume "\<exists>p. l = Next (Ok (Some p)) \<and> st_items a = Some (Inr p) # st_items b"
      then obtain p where p: "l = Next (Ok (Some p))" "st_items a = Some (Inr p) # st_items b" by blast
      have "nexts (l # ls) = stream_results (p # ps) err n"
        using p(1) ih(1) by (simp add: stream_results_Cons)
      moreover have "st_items a = map (Some \<circ> Inr) (p # ps) @ rest" using p(2) ih(2) by simp
      ultimately show ?thesis using ih(3,4) by blast
    next
      assume "(\<nexists>r. l = Next r) \<and> st_items a = st_items b"
      then have "nexts (l # ls) = nexts ls" "st_items a = st_items b" by (cases l; simp)+
      with ih show ?thesis by metis
    qed
  qed
qed

text \<open>What was written, as far as the history shows it.\<close>

fun awritten :: "(epacket \<Rightarrow> outgoing option) \<Rightarrow> async_call list \<Rightarrow> outgoing list" where
  "awritten form [] = []"
| "awritten form (AConnected r # ls) = form_list form (epacket EPong []) @ awritten form ls"
| "awritten form (ADisconnected r # ls) =
     (if r = Err EIllegalActionBeforeOpen then [] else form_list form (epacket EClose [])) @ awritten form ls"
| "awritten form (AEmitted p r # ls) =
     (if r = Err EIllegalActionBeforeOpen then [] else form_list form p) @ awritten form ls"
| "awritten form (Next r # ls) =
     (case r of
        Ok (Some p) \<Rightarrow> if e_id p = EPing then form_list form (epacket EPong []) else []
      | _ \<Rightarrow> []) @ awritten form ls"

lemma machine_awritten:
  "runs (stream_step form) a ls b \<Longrightarrow> \<forall>e. Next (Err e) \<notin> set ls \<Longrightarrow> st_out b = st_out a @ awritten form ls"
proof (induction rule: runs.induct)
  case (runs_cons a l b ls c)
  have "st_out c = st_out b @ awritten form ls" using runs_cons by simp
  with runs_cons.hyps(1) runs_cons.prems show ?case
    by (cases rule: stream_step.cases) (auto dest: sends_form sends_error)
qed simp

section \<open>A history for the witnesses\<close>

text \<open>The connection is opened, a message and a close come from the stream, then a packet is refused.\<close>

definition demo_message_frames :: "ws_event list" where
  "demo_message_frames = [WsMsg (WsBinary [7]), WsMsg (WsText (lit ''1''))]"

definition demo_async_run :: "async_call list" where
  "demo_async_run =
     [AConnected (Ok ()), Next (Ok (Some (epacket EMessage [7]))), Next (Ok (Some (epacket EClose []))),
      AEmitted (epacket EMessage [8]) (Err EIllegalActionBeforeOpen)]"

lemma demo_message_abacklog:
  "abacklog B (demo_asocket demo_message_frames) =
     [Some (Inr (epacket EMessage [7])), Some (Inr (epacket EClose []))]"
  by (simp add: demo_message_frames_def demo_abacklog aws_items_char)
    (simp add: apayload_items_def payload_try_from_def payload_scan_split slice_def
      separator_def epacket_try_from_def epacket_id_try_from_def epacket_def)

lemma next_step:
  assumes "\<not> ac_done s" "abacklog B s = Some (Inr p) # rest" "e_id p \<in> {EMessage, EClose}"
  obtains s' where "async_step B U s (Next (Ok (Some p))) s'" "\<not> ac_done s'" "abacklog B s' = rest"
    "as_connected s' = (as_connected s \<and> e_id p \<noteq> EClose)"
proof -
  obtain s' where "aclient_next B U s = (Ok (Some p), s')"
    using assms(3) by (rule_tac aclient_next_head [OF assms(1,2), of U]) (auto simp: handle_inconming_packet_def)
  then have step: "async_step B U s (Next (Ok (Some p))) s'" by (auto intro: call_next)
  from async_step_simulates [OF step] assms show thesis
    by (intro that [OF step]) (auto simp: async_machine_def elim!: stream_step.cases)
qed

lemma demo_async_runs:
  obtains s' where "runs (async_step nibble64 demo_urls) (demo_asocket demo_message_frames) demo_async_run s'"
    "\<not> ac_done s'"
proof -
  let ?step = "async_step nibble64 demo_urls"
  let ?s = "demo_asocket demo_message_frames" and ?m = "epacket EMessage [7]" and ?close = "epacket EClose []"
  have "fst (asocket_connect nibble64 demo_urls ?s) = Ok ()"
    by (simp add: asocket_connect_def asocket_emit_def apinged_def afire_def on_anet_def transport_emit_def ws_emit_def
        ws_send_text_def from_utf8_def ws_send_def log_request_def Let_def demo_asocket_def asocket_new_def demo_net_def)
  then obtain s1 where "asocket_connect nibble64 demo_urls ?s = (Ok (), s1)" by (metis prod.collapse)
  then have one: "?step ?s (AConnected (Ok ())) s1" by (auto intro: call_aconnect)
  have s1: "\<not> ac_done s1" "abacklog nibble64 s1 = Some (Inr ?m) # [Some (Inr ?close)]"
    using async_step_simulates [OF one] demo_message_abacklog [of nibble64]
    by (auto simp: async_machine_def elim!: stream_step.cases)
  obtain s2 where two: "?step s1 (Next (Ok (Some ?m))) s2" and s2: "\<not> ac_done s2"
    "abacklog nibble64 s2 = Some (Inr ?close) # []"
    by (rule next_step [OF s1, where U = demo_urls]) simp_all
  obtain s3 where three: "?step s2 (Next (Ok (Some ?close))) s3" and s3: "\<not> ac_done s3"
    "as_connected s3 = (as_connected s2 \<and> e_id ?close \<noteq> EClose)"
    by (rule next_step [OF s2, where U = demo_urls]) simp_all
  let ?s4 = "afire has_error (OnError EIllegalActionBeforeOpen) s3"
  have "?step s3 (AEmitted (epacket EMessage [8]) (Err EIllegalActionBeforeOpen)) ?s4"
    using s3(2) by (auto intro!: call_aemit asocket_emit_closed)
  with one two three s3(1) show thesis
    by (intro that [of ?s4]) (auto simp: demo_async_run_def runs_Cons)
qed

section \<open>Properties\<close>

text \<open>C7: the stream of an asynchronous client over a whole history. Whatever other calls are made in
  between, the results of \<open>next\<close> are packets, then at most one error, then only \<open>None\<close>; the packets are
  exactly the first of the items that were to come, in order, none lost or repeated. As long as the
  stream has not ended the rest is still to come.\<close>

theorem async_runs_stream:
  assumes "runs (async_step B U) s ls s'" and "\<not> ac_done s"
  shows "\<exists>ps err n rest. nexts ls = stream_results ps err n \<and>
    abacklog B s = map (Some \<circ> Inr) ps @ rest \<and>
    (\<not> ac_done s' \<longrightarrow> abacklog B s' = rest \<and> err = None \<and> n = 0)"
proof -
  note sim = async_sim.runs_spec [OF assms(1) refl]
  have "\<not> st_ended (async_machine B s)" using assms(2) by (simp add: async_machine_def)
  from machine_nexts [OF sim this] show ?thesis by (force simp: async_machine_def)
qed

theorem async_runs_stream_witness:
  "\<exists>s' ps err n rest. runs (async_step nibble64 demo_urls) (demo_asocket demo_message_frames) demo_async_run s' \<and>
     [Ok (Some (epacket EMessage [7])), Ok (Some (epacket EClose []))] = stream_results ps err n \<and>
     [Some (Inr (epacket EMessage [7])), Some (Inr (epacket EClose []))] =
       map (Some \<circ> (Inr :: epacket \<Rightarrow> eerror + epacket)) ps @ rest"
proof (rule demo_async_runs)
  fix s' assume run: "runs (async_step nibble64 demo_urls) (demo_asocket demo_message_frames) demo_async_run s'"
  have "\<not> ac_done (demo_asocket demo_message_frames)" by simp
  from async_runs_stream [OF run this] obtain ps err n rest
    where "nexts demo_async_run = stream_results ps err n"
      "abacklog nibble64 (demo_asocket demo_message_frames) = map (Some \<circ> Inr) ps @ rest"
    by blast
  then have "[Ok (Some (epacket EMessage [7])), Ok (Some (epacket EClose []))] = stream_results ps err n"
    "[Some (Inr (epacket EMessage [7])), Some (Inr (epacket EClose []))] =
       map (Some \<circ> (Inr :: epacket \<Rightarrow> eerror + epacket)) ps @ rest"
    by (simp_all only: demo_message_abacklog demo_async_run_def nexts.simps)
  with run show ?thesis by blast
qed

text \<open>C8: what an asynchronous client puts on the network is accounted for by its history. As long as the
  stream gives no error, what was written is exactly: one \<open>Pong\<close> for each \<open>connect\<close> and for each ping
  the stream gave, every packet that was emitted while the connection was open, and one \<open>Close\<close> for each
  \<open>disconnect\<close> of an open connection, also a failed one, in the order of the calls.\<close>

theorem async_runs_written:
  assumes "runs (async_step B U) s ls s'" and "\<forall>e. Next (Err e) \<notin> set ls"
  shows "outbox (as_net s') = outbox (as_net s) @ awritten (packet_form B (as_transport s)) ls"
  using machine_awritten [OF async_sim.runs_spec [OF assms(1) refl] assms(2)]
  by (simp add: async_machine_def)

theorem async_runs_written_witness:
  "\<exists>s'. runs (async_step nibble64 demo_urls) (demo_asocket demo_message_frames) demo_async_run s' \<and>
     outbox (as_net s') = [Frame (WsText (lit ''3''))]"
proof (rule demo_async_runs)
  fix s' assume run: "runs (async_step nibble64 demo_urls) (demo_asocket demo_message_frames) demo_async_run s'"
  have "\<forall>e. Next (Err e) \<notin> set demo_async_run" by (simp add: demo_async_run_def)
  from async_runs_written [OF run this] run show ?thesis
    by (auto simp: demo_async_run_def form_list_def packet_form_def from_utf8_def outbox_def demo_net_def)
qed

end
