(* ===== verification/End_To_End.thy ===== *)
theory End_To_End
  imports Raw_Client
begin

text \<open>
  Two clients over one websocket: what a sequence of \<open>emit\<close> calls of one makes of the callbacks of the
  other, which receives exactly the frames that were sent. The sending side is \<open>emit\<close> and
  \<open>Socket::send\<close>, the receiving side is \<open>poll\<close> with everything below it.
\<close>

section \<open>Sequences of operations\<close>

fun emit_all :: "('u, 'j) slib \<Rightarrow> (sevent \<times> spayload) list \<Rightarrow> ('u, 'j, unit) raw_proc" where
  "emit_all L [] = give (Ok ())"
| "emit_all L ((event, payload) # ms) = seq (raw_emit L event payload) (\<lambda>_. emit_all L ms)"

fun poll_times :: "('u, 'j) slib \<Rightarrow> nat \<Rightarrow> ('u, 'j, spacket option list) raw_proc" where
  "poll_times L 0 = give (Ok [])"
| "poll_times L (Suc n) = seq (raw_poll L) (\<lambda>p. seq (poll_times L n) (\<lambda>ps. give (Ok (p # ps))))"

section \<open>What can be delivered\<close>

text \<open>
  The event name and the payload survive: no byte that separates packets, and JSON that prints as it
  was written. \<open>got\<close> is the payload the receiver's callback is called with.
\<close>

definition deliverable :: "'j jsonlib \<Rightarrow> sevent \<Rightarrow> spayload \<Rightarrow> spayload \<Rightarrow> bool" where
  "deliverable J ev sent got \<longleftrightarrow> event_of_string (event_to_string ev) = ev \<and>
     (case sent of
        PString str \<Rightarrow>
          plain_text str \<and> plain_text (event_to_string ev) \<and>
          (let data = (case json_parse J str of Inr _ \<Rightarrow> str | Inl _ \<Rightarrow> quote_json str) in
           \<exists>v n x. json_parse J (event_array ev data) = Inr v \<and> json_print J v = event_array ev data \<and>
             json_as_array J v = Some [n, x] \<and> json_as_string J n = Some (event_to_string ev) \<and>
             json_print J x = data \<and> got = PString data)
      | PBinary d \<Rightarrow>
          d \<noteq> [] \<and> separator \<notin> set d \<and> got = PBinary d \<and>
          (let e = json_print J (json_string J (event_to_string ev)) in
           e \<noteq> [] \<and> plain_text e \<and> of_char CHR ''{'' \<notin> set e \<and>
           filter (\<lambda>c. c \<noteq> of_char CHR 0x22) e = event_to_string ev \<and>
           json_canonical J (lit ''['' @ e @ lit '','' @ placeholder (lit ''0'') @ lit '']'')))"

text \<open>The attachments a packet announces are the ones it carries, and each is one frame.\<close>

definition carried :: "spacket \<Rightarrow> bool" where
  "carried p \<longleftrightarrow>
     (case s_attachments p of None \<Rightarrow> s_count p = 0
      | Some as \<Rightarrow> as \<noteq> [] \<and> unat (s_count p) = length as \<and> list_all (\<lambda>a. a \<noteq> [] \<and> separator \<notin> set a) as)"

definition wire_text :: "spacket \<Rightarrow> rstring" where
  "wire_text p = the (encode_text False p)"

lemma payload_packet:
  assumes "deliverable J ev sent got" "plain_text nsp" "nsp_ok nsp"
    and "p = build_packet_for_payload J sent ev nsp i" "id_ok i"
  shows "encode_text oc p = Some (wire_text p)" "plain_text (wire_text p)" "wire_text p \<noteq> []"
    "decode_text J (wire_text p) = Inr (p\<lparr>s_attachments := None\<rparr>)" "carried p" "s_nsp p = nsp"
proof -
  have "encode_text oc p = Some (wire_text p) \<and> plain_text (wire_text p) \<and> wire_text p \<noteq> [] \<and>
    decode_text J (wire_text p) = Inr (p\<lparr>s_attachments := None\<rparr>) \<and> carried p \<and> s_nsp p = nsp"
  proof (cases sent)
    case (PString str)
    define data where "data = (case json_parse J str of Inr _ \<Rightarrow> str | Inl _ \<Rightarrow> quote_json str)"
    have p: "p = spacket SEvent nsp (Some (event_array ev data)) i 0 None"
      using assms(4) by (simp add: PString build_packet_for_payload_def data_def event_array_def split: sum.splits)
    have ok: "plain_text str" "plain_text (event_to_string ev)" "json_canonical J (event_array ev data)"
      using assms(1) by (auto simp: deliverable_def PString Let_def data_def json_canonical_def)
    have plain: "plain_text (event_array ev data)"
      using ok(1,2) by (auto simp: plain_text_def event_array_def quote_json_def scalar_def data_def split: sum.splits)
    have start: "data_start (event_array ev data)"
      by (simp add: data_start_def event_array_def is_ascii_digit_def)
    have head: "plain_text (encode_head p)" "encode_head p \<noteq> []"
      using encode_head_plain [of p] assms(2) by (simp_all add: p spacket_def)
    have dec: "encode_text oc p = Some (encode_head p @ event_array ev data)"
      "decode_text J (encode_head p @ event_array ev data) = Inr p" for oc
      using decode_plain [where p = p and J = J] assms(2,3,5) ok(3) plain start
      by (simp_all add: p spacket_def is_binary_type_def plain_text_def)
    have t: "wire_text p = encode_head p @ event_array ev data" by (simp add: wire_text_def dec)
    have "p\<lparr>s_attachments := None\<rparr> = p" by (simp add: p spacket_def)
    then show ?thesis
      using dec head plain by (simp add: t carried_def plain_text_def) (simp add: p spacket_def)
  next
    case (PBinary d)
    define e where "e = json_print J (json_string J (event_to_string ev))"
    have p: "p = spacket (if i \<noteq> None then SBinaryAck else SBinaryEvent) nsp (Some e) i 1 (Some [d])"
      using assms(4) by (simp add: PBinary build_packet_for_payload_def e_def)
    have ok: "d \<noteq> []" "separator \<notin> set d" "e \<noteq> []" "plain_text e" "of_char CHR ''{'' \<notin> set e"
      "json_canonical J (lit ''['' @ e @ lit '','' @ placeholder (lit ''0'') @ lit '']'')"
      using assms(1) by (simp_all add: deliverable_def PBinary Let_def e_def)
    let ?t = "encode_head p @ lit ''['' @ e @ lit '','' @ placeholder (lit ''0'') @ lit '']''"
    have head: "plain_text (encode_head p)"
      using encode_head_plain [of p] assms(2) by (simp add: p spacket_def)
    have dec: "encode_text oc p = Some ?t" "decode_text J ?t = Inr (p\<lparr>s_attachments := None\<rparr>)" for oc
      using decode_binary [where p = p and J = J and ev = e and as = "[d]"] assms(2,3,5) ok(3-6)
      by (simp_all add: p spacket_def is_binary_type_def plain_text_def)
    have t: "wire_text p = ?t" by (simp add: wire_text_def dec)
    have "plain_text ?t"
      using head ok(4) by (simp add: plain_text_def placeholder_def scalar_def)
    then show ?thesis
      using dec ok(1,2) by (simp add: t carried_def) (simp add: p spacket_def)
  qed
  then show "encode_text oc p = Some (wire_text p)" "plain_text (wire_text p)" "wire_text p \<noteq> []"
    "decode_text J (wire_text p) = Inr (p\<lparr>s_attachments := None\<rparr>)" "carried p" "s_nsp p = nsp" by simp_all
qed

lemma deliverable_packet:
  assumes "deliverable J ev sent got" "plain_text nsp" "nsp_ok nsp"
    and "p = build_packet_for_payload J sent ev nsp None"
  shows "encode_text oc p = Some (wire_text p)" "plain_text (wire_text p)" "wire_text p \<noteq> []"
    "decode_text J (wire_text p) = Inr (p\<lparr>s_attachments := None\<rparr>)" "carried p" "s_nsp p = nsp"
  by (simp_all add: payload_packet [OF assms] id_ok_def)

section \<open>Receiving\<close>

text \<open>The engine packets the frames of a packet are read as.\<close>

definition frame_items :: "spacket \<Rightarrow> epacket list" where
  "frame_items p = epacket EMessage (utf8 (wire_text p)) #
     map (epacket EMessage) (case s_attachments p of Some as \<Rightarrow> as | None \<Rightarrow> [])"

lemma ws_items_frames:
  assumes "plain_text (wire_text p)" "wire_text p \<noteq> []" "carried p"
  shows "concat (map (ws_items B) (map WsMsg (packet_frames (wire_text p) p))) = map Inr (frame_items p)"
proof -
  have bin: "concat (map (ws_items B) (map WsMsg (map WsBinary as))) = map Inr (map (epacket EMessage) as)"
    if "list_all (\<lambda>a. a \<noteq> [] \<and> separator \<notin> set a) as" for as
    using that by (induction as) (simp_all add: ws_items_message del: ws_items.simps)
  have t: "list_all scalar (wire_text p)" "30 \<notin> set (wire_text p)"
    using assms(1) by (simp_all add: plain_text_def)
  have "list_all (\<lambda>a. a \<noteq> [] \<and> separator \<notin> set a) (case s_attachments p of Some as \<Rightarrow> as | None \<Rightarrow> [])"
    using assms(3) by (auto simp: carried_def split: option.splits)
  from bin [OF this] ws_items_message(2) [OF assms(2) t] show ?thesis
    by (simp add: packet_frames_def frame_items_def del: ws_items.simps)
qed

text \<open>They are put together to the packet again.\<close>

lemma frame_items_packet:
  assumes "plain_text (wire_text p)" "decode_text J (wire_text p) = Inr (p\<lparr>s_attachments := None\<rparr>)" "carried p"
  obtains q qs where "frame_items p = q # qs" "list_all (\<lambda>q. is_message (e_id q)) (q # qs)"
    "spacket_try_from J (e_data q) = Inr (p\<lparr>s_attachments := None\<rparr>)"
    "unat (s_count (p\<lparr>s_attachments := None\<rparr>)) = length qs"
    "(if qs = [] then p\<lparr>s_attachments := None\<rparr> else p\<lparr>s_attachments := None, s_attachments := Some (map e_data qs)\<rparr>) = p"
proof -
  let ?as = "case s_attachments p of Some as \<Rightarrow> as | None \<Rightarrow> []"
  have "map e_data (map (epacket EMessage) xs) = xs" for xs by (simp add: comp_def)
  moreover have "list_all scalar (wire_text p)" using assms(1) by (simp add: plain_text_def)
  ultimately show thesis
    using assms(2,3)
    by (intro that [of "epacket EMessage (utf8 (wire_text p))" "map (epacket EMessage) ?as"])
      (auto simp: frame_items_def is_message_def list_all_iff spacket_try_from_def utf8_scalars carried_def
        split: option.splits)
qed

lemma ssocket_poll_items:
  assumes "plain_text (wire_text p)" "decode_text J (wire_text p) = Inr (p\<lparr>s_attachments := None\<rparr>)" "carried p"
    and "es_connected (ss_engine r)" "backlog B (ss_engine r) = map Inr (frame_items p) @ rest"
  shows "\<exists>e'. ssocket_poll B U J r = (Ok (Some p), ss_handle_packet p (r\<lparr>ss_engine := e'\<rparr>)) \<and>
    es_connected e' \<and> backlog B e' = rest"
proof -
  obtain q qs where q: "frame_items p = q # qs" "list_all (\<lambda>q. is_message (e_id q)) (q # qs)"
    "spacket_try_from J (e_data q) = Inr (p\<lparr>s_attachments := None\<rparr>)"
    "unat (s_count (p\<lparr>s_attachments := None\<rparr>)) = length qs"
    and p: "(if qs = [] then p\<lparr>s_attachments := None\<rparr> else p\<lparr>s_attachments := None, s_attachments := Some (map e_data qs)\<rparr>) = p"
    by (rule frame_items_packet [OF assms(1-3)])
  have h: "ss_handle_packet (p\<lparr>s_attachments := None\<rparr>) t = ss_handle_packet p t" for t
    by (simp add: ss_handle_packet_def)
  show ?thesis
    by (rule ssocket_poll_assembles [OF assms(4) assms(5) [unfolded q(1)] q(2-4), of U, unfolded p h])
qed

text \<open>What a deliverable packet is to its receiver: an array of name and payload, or a name with an
  attachment.\<close>

lemma deliverable_event:
  assumes "deliverable J ev sent got" "p = build_packet_for_payload J sent ev nsp None"
  obtains (array) d v n x where "s_type p = SEvent" "s_data p = Some d" "json_parse J d = Inr v"
      "json_as_array J v = Some [n, x]" "json_as_string J n = Some (event_to_string ev)" "got = PString (json_print J x)"
      "event_of_string (event_to_string ev) = ev"
  | (attached) e d where "s_type p = SBinaryEvent" "s_data p = Some e" "s_attachments p = Some [d]" "got = PBinary d"
      "event_of_string (filter (\<lambda>c. c \<noteq> of_char CHR 0x22) e) = ev"
proof (cases sent)
  case (PString str)
  define data where "data = (case json_parse J str of Inr _ \<Rightarrow> str | Inl _ \<Rightarrow> quote_json str)"
  obtain v n x where "json_parse J (event_array ev data) = Inr v"
    "json_as_array J v = Some [n, x]" "json_as_string J n = Some (event_to_string ev)"
    "json_print J x = data" "got = PString data" "event_of_string (event_to_string ev) = ev"
    using assms(1) by (auto simp: deliverable_def PString Let_def data_def)
  moreover have "s_type p = SEvent" "s_data p = Some (event_array ev data)"
    using assms(2) by (simp_all add: PString build_packet_for_payload_def data_def event_array_def spacket_def split: sum.splits)
  ultimately show thesis using array by blast
next
  case (PBinary d)
  then show thesis
    using assms attached by (simp add: deliverable_def Let_def build_packet_for_payload_def spacket_def)
qed

text \<open>An event the receiver has a callback for, and what it calls.\<close>

lemma deliverable_callback:
  assumes "deliverable (sl_json L) ev sent got" "p = build_packet_for_payload (sl_json L) sent ev (rw_nsp r) None"
    and "map_of (rw_on r) ev = Some cb" "rw_on_any r = None" "\<And>h. sl_script L h = []"
  shows "raw_handle_packet L p r = (Ok (), r\<lparr>rw_calls := rw_calls r @ [CallOn cb got]\<rparr>)"
    "ss_handle_packet p t = t"
proof -
  have calls: "expected_calls r ev got = [CallOn cb got]"
    using assms(3,4) by (simp add: expected_calls_def own_call_def any_call_def split: sevent.splits)
  note silent = raw_callback_silent [OF assms(5), of ev got r, unfolded calls]
  have nsp: "s_nsp p = rw_nsp r"
    using assms(2) by (simp add: build_packet_for_payload_def spacket_def split: spayload.split sum.split)
  from assms(1,2) show "raw_handle_packet L p r = (Ok (), r\<lparr>rw_calls := rw_calls r @ [CallOn cb got]\<rparr>)"
  proof (cases rule: deliverable_event)
    case (array d v n x)
    then have "array_event L [n, x] = ev" "array_payload L [n, x] = got"
      by (simp_all add: array_event_def array_payload_def)
    with handle_event_array [OF array(2-4)] silent show ?thesis
      by (simp add: raw_handle_packet_def array(1) nsp report_def)
  next
    case (attached e d)
    with silent show ?thesis
      by (simp add: raw_handle_packet_def nsp report_def handle_binary_event_def)
  qed
  show "ss_handle_packet p t = t"
    using assms(2) by (simp add: build_packet_for_payload_def ss_handle_packet_def spacket_def split: spayload.split)
qed

section \<open>A sequence of messages\<close>

text \<open>A message to send: the event, the payload and the payload that arrives.\<close>

type_synonym message = "sevent \<times> spayload \<times> spayload"

definition message_packet :: "('u, 'j) slib \<Rightarrow> rstring \<Rightarrow> message \<Rightarrow> spacket" where
  "message_packet L nsp m = build_packet_for_payload (sl_json L) (fst (snd m)) (fst m) nsp None"

definition message_frames :: "('u, 'j) slib \<Rightarrow> rstring \<Rightarrow> message \<Rightarrow> ws_message list" where
  "message_frames L nsp m = packet_frames (wire_text (message_packet L nsp m)) (message_packet L nsp m)"

lemma raw_emit_frames:
  assumes "deliverable (sl_json L) ev sent got" "plain_text (rw_nsp s)" "nsp_ok (rw_nsp s)"
    and "ready (length (message_frames L (rw_nsp s) (ev, sent, got)) + k) (rw_socket s)"
  obtains t where "raw_emit L ev sent s = (Ok (), s\<lparr>rw_socket := t\<rparr>)" "ready k t"
    "wire (es_net (ss_engine t)) = wire (es_net (ss_engine (rw_socket s))) @
       map WsSend (message_frames L (rw_nsp s) (ev, sent, got))"
proof -
  define p where "p = message_packet L (rw_nsp s) (ev, sent, got)"
  have p: "p = build_packet_for_payload (sl_json L) sent ev (rw_nsp s) None"
    by (simp add: p_def message_packet_def)
  note d = deliverable_packet [OF assms(1-3) p]
  have sc: "list_all scalar (wire_text p)" using d(2) by (simp add: plain_text_def)
  have "ready (length (packet_frames (wire_text p) p) + k) (rw_socket s)"
    using assms(4) by (simp add: message_frames_def p_def)
  from ssocket_send_ready [OF d(1) sc this, of "sl_oc L" "sl_b64 L" "sl_url L"] that show thesis
    by (auto simp: raw_emit_def on_socket_def ssocket_emit_def p message_frames_def message_packet_def)
qed

lemma emit_all_frames:
  assumes "\<forall>(ev, sent, got) \<in> set ms. deliverable (sl_json L) ev sent got"
    and "plain_text (rw_nsp s)" "nsp_ok (rw_nsp s)"
    and "ready (length (concat (map (message_frames L (rw_nsp s)) ms))) (rw_socket s)"
  shows "\<exists>s'. emit_all L (map (\<lambda>(ev, sent, got). (ev, sent)) ms) s = (Ok (), s') \<and>
    wire (es_net (ss_engine (rw_socket s'))) = wire (es_net (ss_engine (rw_socket s))) @
      map WsSend (concat (map (message_frames L (rw_nsp s)) ms))"
  using assms
proof (induction ms arbitrary: s)
  case (Cons m ms)
  obtain ev sent got where m: "m = (ev, sent, got)" by (cases m)
  have del: "deliverable (sl_json L) ev sent got" using Cons.prems(1) m by simp
  have "ready (length (message_frames L (rw_nsp s) (ev, sent, got)) +
      length (concat (map (message_frames L (rw_nsp s)) ms))) (rw_socket s)"
    using Cons.prems(4) by (simp add: m)
  from raw_emit_frames [OF del Cons.prems(2,3) this] obtain t where
    t: "raw_emit L ev sent s = (Ok (), s\<lparr>rw_socket := t\<rparr>)"
      "ready (length (concat (map (message_frames L (rw_nsp s)) ms))) t"
      "wire (es_net (ss_engine t)) = wire (es_net (ss_engine (rw_socket s))) @
         map WsSend (message_frames L (rw_nsp s) (ev, sent, got))" .
  with Cons.IH [of "s\<lparr>rw_socket := t\<rparr>"] Cons.prems(1-3) show ?case
    by (auto simp: m)
qed (simp add: give_def)

text \<open>A receiver that has a callback for every event, and none for any event.\<close>

definition listening :: "(sevent \<Rightarrow> nat) \<Rightarrow> message list \<Rightarrow> ('u, 'j) raw \<Rightarrow> bool" where
  "listening cb ms r \<longleftrightarrow> (\<forall>(ev, sent, got) \<in> set ms. map_of (rw_on r) ev = Some (cb ev)) \<and> rw_on_any r = None"

lemma poll_times_calls:
  assumes "\<forall>(ev, sent, got) \<in> set ms. deliverable (sl_json L) ev sent got"
    and "plain_text (rw_nsp r)" "nsp_ok (rw_nsp r)" "\<And>h. sl_script L h = []" "listening cb ms r"
    and "es_connected (ss_engine (rw_socket r))"
    and "backlog (sl_b64 L) (ss_engine (rw_socket r)) =
      map Inr (concat (map (\<lambda>m. frame_items (message_packet L (rw_nsp r) m)) ms)) @ rest"
  shows "\<exists>r'. poll_times L (length ms) r = (Ok (map (\<lambda>m. Some (message_packet L (rw_nsp r) m)) ms), r') \<and>
    rw_calls r' = rw_calls r @ map (\<lambda>(ev, sent, got). CallOn (cb ev) got) ms"
  using assms(1-3,5-7)
proof (induction ms arbitrary: r)
  case (Cons m ms)
  obtain ev sent got where m: "m = (ev, sent, got)" by (cases m)
  let ?p = "message_packet L (rw_nsp r) m"
  have p: "?p = build_packet_for_payload (sl_json L) sent ev (rw_nsp r) None"
    by (simp add: message_packet_def m)
  have del: "deliverable (sl_json L) ev sent got" using Cons.prems(1) m by simp
  note d = deliverable_packet [OF del Cons.prems(2,3) p]
  have "backlog (sl_b64 L) (ss_engine (rw_socket r)) = map Inr (frame_items ?p) @
      (map Inr (concat (map (\<lambda>m. frame_items (message_packet L (rw_nsp r) m)) ms)) @ rest)"
    using Cons.prems(6) by simp
  from ssocket_poll_items [OF d(2,4,5) Cons.prems(5) this, of "sl_url L"] obtain e where
    e: "ssocket_poll (sl_b64 L) (sl_url L) (sl_json L) (rw_socket r) =
        (Ok (Some ?p), ss_handle_packet ?p (rw_socket r\<lparr>ss_engine := e\<rparr>))"
      "es_connected e"
      "backlog (sl_b64 L) e = map Inr (concat (map (\<lambda>m. frame_items (message_packet L (rw_nsp r) m)) ms)) @ rest"
    by blast
  let ?r1 = "r\<lparr>rw_socket := rw_socket r\<lparr>ss_engine := e\<rparr>\<rparr>"
  have tab: "map_of (rw_on ?r1) ev = Some (cb ev)" "rw_on_any ?r1 = None"
    using Cons.prems(4) by (simp_all add: listening_def m)
  have p1: "?p = build_packet_for_payload (sl_json L) sent ev (rw_nsp ?r1) None" using p by simp
  note c = deliverable_callback [OF del p1 tab assms(4)]
  let ?r2 = "?r1\<lparr>rw_calls := rw_calls r @ [CallOn (cb ev) got]\<rparr>"
  have poll: "raw_poll L r = (Ok (Some ?p), ?r2)"
    using raw_poll_step [OF e(1) d(6), unfolded c(2)] c(1) by simp
  have "listening cb ms ?r2" using Cons.prems(4) by (simp add: listening_def)
  with Cons.IH [of ?r2] Cons.prems(1-3) e(2,3) poll show ?case by (auto simp: m)
qed (simp add: give_def)

text \<open>What the frames of a sequence of messages are read as.\<close>

lemma messages_items:
  assumes "\<forall>(ev, sent, got) \<in> set ms. deliverable (sl_json L) ev sent got" "plain_text nsp" "nsp_ok nsp"
  shows "concat (map (ws_items B) (map WsMsg (concat (map (message_frames L nsp) ms)))) =
      map Inr (concat (map (\<lambda>m. frame_items (message_packet L nsp m)) ms))"
  using assms(1)
proof (induction ms)
  case (Cons m ms)
  obtain ev sent got where m: "m = (ev, sent, got)" by (cases m)
  have p: "message_packet L nsp m = build_packet_for_payload (sl_json L) sent ev nsp None"
    by (simp add: message_packet_def m)
  have "deliverable (sl_json L) ev sent got" using Cons.prems m by simp
  note d = deliverable_packet [OF this assms(2,3) p]
  from ws_items_frames [OF d(2,3,5), of B] Cons show ?case
    by (simp add: message_frames_def)
qed simp

text \<open>A client that listens reads them.\<close>

lemma receive_frames:
  assumes "\<forall>(ev, sent, got) \<in> set ms. deliverable (sl_json L) ev sent got"
    and "plain_text (rw_nsp r)" "nsp_ok (rw_nsp r)" "\<And>h. sl_script L h = []" "listening cb ms r"
    and "receiving (concat (map (message_frames L (rw_nsp r)) ms)) (rw_socket r)"
  shows "\<exists>ps r'. poll_times L (length ms) r = (Ok ps, r') \<and>
    rw_calls r' = rw_calls r @ map (\<lambda>(ev, sent, got). CallOn (cb ev) got) ms"
proof -
  have "backlog (sl_b64 L) (ss_engine (rw_socket r)) =
      map Inr (concat (map (\<lambda>m. frame_items (message_packet L (rw_nsp r) m)) ms)) @ []"
    using assms(6) messages_items [OF assms(1-3), of "sl_b64 L"] by (auto simp: receiving_def backlog_def net_items_def)
  moreover have "es_connected (ss_engine (rw_socket r))" using assms(6) by (simp add: receiving_def)
  ultimately show ?thesis
    using poll_times_calls [OF assms(1-5)] by metis
qed

text \<open>C1: deliverable messages arrive in order. A client emits a sequence of deliverable events with text and
  binary payloads over an open websocket that takes all frames; a client of the same namespace that
  receives exactly the frames that were sent, polled once per message, calls for each message the callback
  of its event, once, with its payload, and in the order of the \<open>emit\<close> calls. An event is \<open>deliverable\<close> if its name is read back as the
  same event and written in JSON without escapes; text is then sent as it is if it is JSON, else between
  quotes, and must be printed by the JSON library as it was sent, with its event name, and free of the
  separator 0x1e of payloads; binary data must not be empty or hold a byte 0x1e (a frame with one is cut:
  \<open>binary_frame_delivery\<close>).
  Text that is not JSON thus arrives as a JSON string. The receiver has a callback for each of the events,
  and none for any event (\<open>on_any\<close>), callbacks make no calls of the client, and the namespace starts with a
  slash and holds no comma.\<close>

theorem messages_in_order:
  assumes "\<forall>(ev, sent, got) \<in> set ms. deliverable (sl_json L) ev sent got"
    and "plain_text (rw_nsp s)" "nsp_ok (rw_nsp s)" "\<And>h. sl_script L h = []"
    and "ready (length (concat (map (message_frames L (rw_nsp s)) ms))) (rw_socket s)"
  shows "\<exists>frames s'. emit_all L (map (\<lambda>(ev, sent, got). (ev, sent)) ms) s = (Ok (), s') \<and>
    wire (es_net (ss_engine (rw_socket s'))) = wire (es_net (ss_engine (rw_socket s))) @ map WsSend frames \<and>
    (\<forall>r cb. receiving frames (rw_socket r) \<and> rw_nsp r = rw_nsp s \<and> listening cb ms r \<longrightarrow>
       (\<exists>ps r'. poll_times L (length ms) r = (Ok ps, r') \<and>
          rw_calls r' = rw_calls r @ map (\<lambda>(ev, sent, got). CallOn (cb ev) got) ms))"
proof -
  have "\<exists>ps r'. poll_times L (length ms) r = (Ok ps, r') \<and>
      rw_calls r' = rw_calls r @ map (\<lambda>(ev, sent, got). CallOn (cb ev) got) ms"
    if "receiving (concat (map (message_frames L (rw_nsp s)) ms)) (rw_socket r)" "rw_nsp r = rw_nsp s"
      "listening cb ms r" for r cb
    using receive_frames [OF assms(1) _ _ assms(4) that(3)] assms(2,3) that(1,2) by simp
  with emit_all_frames [OF assms(1-3,5)] show ?thesis by blast
qed

section \<open>Witness\<close>

lemma deliverable_text: "deliverable flat_json EvMessage (PString (lit ''7'')) (PString (lit ''7''))"
proof -
  have "json_parse flat_json (lit ''7'') = Inr (lit ''7'')" by (simp add: flat_json_def)
  then have data: "(case json_parse flat_json (lit ''7'') of Inr _ \<Rightarrow> lit ''7'' | Inl _ \<Rightarrow> quote_json (lit ''7'')) = lit ''7''"
    by simp
  have "event_of_string (event_to_string EvMessage) = EvMessage" "plain_text (lit ''7'')"
    "plain_text (event_to_string EvMessage)"
    by (simp_all add: plain_text_def scalar_def event_of_string_def to_lowercase_def lower_char_def)
  moreover have "event_to_string EvMessage = lit ''message''" by simp
  ultimately show ?thesis
    unfolding deliverable_def Let_def spayload.case data
    using flat_event_array(1,3,4) flat_event_array(2) [of "event_array EvMessage (lit ''7'')"]
      flat_event_array(2) [of "lit ''7''"] by metis
qed

lemma deliverable_binary: "deliverable flat_json EvMessage (PBinary [3, 2]) (PBinary [3, 2])"
proof -
  have e: "json_print flat_json (json_string flat_json (event_to_string EvMessage)) = quote_json (lit ''message'')"
    by (simp add: flat_json_def quote_json_def)
  have ev: "event_of_string (event_to_string EvMessage) = EvMessage" "event_to_string EvMessage = lit ''message''"
    by (simp_all add: event_of_string_def to_lowercase_def lower_char_def)
  have "quote_json (lit ''message'') \<noteq> [] \<and> plain_text (quote_json (lit ''message'')) \<and>
      of_char CHR ''{'' \<notin> set (quote_json (lit ''message'')) \<and>
      filter (\<lambda>c. c \<noteq> of_char CHR 0x22) (quote_json (lit ''message'')) = lit ''message'' \<and>
      json_canonical flat_json (lit ''['' @ quote_json (lit ''message'') @ lit '','' @ placeholder (lit ''0'') @ lit '']'')"
    by (simp add: plain_text_def scalar_def flat_canonical quote_json_def)
  then show ?thesis
    unfolding deliverable_def Let_def spayload.case e using ev by (simp add: separator_def)
qed

theorem messages_in_order_witness:
  "\<exists>frames s'. emit_all (demo_slib (\<lambda>h. [])) [(EvMessage, PString (lit ''7'')), (EvMessage, PBinary [3, 2])]
       ((demo_raw [] [])\<lparr>rw_socket := (demo_ssocket [])\<lparr>ss_engine := (demo_socket [])\<lparr>es_net :=
          (demo_net [])\<lparr>ws_send_in := replicate 3 (Inr ())\<rparr>\<rparr>\<rparr>\<rparr>) = (Ok (), s') \<and>
     (\<exists>ps r'. poll_times (demo_slib (\<lambda>h. [])) 2 (demo_raw (map WsMsg frames) []) = (Ok ps, r') \<and>
        rw_calls r' = [CallOn 1 (PString (lit ''7'')), CallOn 1 (PBinary [3, 2])])"
proof -
  let ?L = "demo_slib (\<lambda>h. [])"
  let ?ms = "[(EvMessage, PString (lit ''7''), PString (lit ''7'')), (EvMessage, PBinary [3, 2], PBinary [3, 2])]"
  let ?s = "(demo_raw [] [])\<lparr>rw_socket := (demo_ssocket [])\<lparr>ss_engine := (demo_socket [])\<lparr>es_net :=
          (demo_net [])\<lparr>ws_send_in := replicate 3 (Inr ())\<rparr>\<rparr>\<rparr>\<rparr>"
  have J: "sl_json ?L = flat_json" by (simp add: demo_slib_def)
  have one: "\<forall>(ev, sent, got) \<in> set ?ms. deliverable (sl_json ?L) ev sent got"
    using deliverable_text deliverable_binary by (simp add: J)
  have two: "plain_text (rw_nsp ?s)" "nsp_ok (rw_nsp ?s)" "\<And>h. sl_script ?L h = []"
    by (simp_all add: plain_text_def nsp_ok_def starts_with_def scalar_def) (simp add: demo_slib_def)
  have "length (concat (map (message_frames ?L (rw_nsp ?s)) ?ms)) = 3"
    by (simp add: message_frames_def packet_frames_def message_packet_def build_packet_for_payload_def spacket_def
        split: sum.split)
  moreover have "ready 3 (rw_socket ?s)"
    by (auto simp: ready_def)
  ultimately have three: "ready (length (concat (map (message_frames ?L (rw_nsp ?s)) ?ms))) (rw_socket ?s)" by simp
  from messages_in_order [OF one two three] obtain frames s' where
    s': "emit_all ?L (map (\<lambda>(ev, sent, got). (ev, sent)) ?ms) ?s = (Ok (), s')"
    and recv: "\<forall>r cb. receiving frames (rw_socket r) \<and> rw_nsp r = rw_nsp ?s \<and> listening cb ?ms r \<longrightarrow>
       (\<exists>ps r'. poll_times ?L (length ?ms) r = (Ok ps, r') \<and>
          rw_calls r' = rw_calls r @ map (\<lambda>(ev, sent, got). CallOn (cb ev) got) ?ms)"
    by blast
  let ?r = "demo_raw (map WsMsg frames) []"
  have "receiving frames (rw_socket ?r)" "rw_nsp ?r = rw_nsp ?s" "listening (\<lambda>ev. 1) ?ms ?r"
    by (simp_all add: receiving_def demo_net_def listening_def)
  with recv have "\<exists>ps r'. poll_times ?L (length ?ms) ?r = (Ok ps, r') \<and>
      rw_calls r' = rw_calls ?r @ map (\<lambda>(ev, sent, got). CallOn 1 got) ?ms" by blast
  then have "\<exists>ps r'. poll_times ?L 2 ?r = (Ok ps, r') \<and>
      rw_calls r' = [CallOn 1 (PString (lit ''7'')), CallOn 1 (PBinary [3, 2])]"
    by (simp add: numeral_2_eq_2 del: poll_times.simps)
  with s' show ?thesis by auto
qed

end
