(* ===== verification/Ack_Books.thy ===== *)
theory Ack_Books
  imports Runs Raw_Client
begin

text \<open>
  The bookkeeping of acknowledgements, which the blocking and the asynchronous client do alike: the
  contract of the list of outstanding requests while a packet is handled, and what follows from it over
  histories. A balance of a callback is the number of its calls plus two for each request that waits
  (one acknowledgement can call it twice, with data and with an attachment).
\<close>

definition returned :: "('e, 'a) outcome \<Rightarrow> bool" where
  "returned r \<longleftrightarrow> r \<noteq> Panic \<and> r \<noteq> Block"

fun is_ack_call :: "nat \<Rightarrow> call \<Rightarrow> bool" where
  "is_ack_call cb (CallAck c p) \<longleftrightarrow> c = cb"
| "is_ack_call cb c \<longleftrightarrow> False"

definition ack_calls :: "nat \<Rightarrow> call list \<Rightarrow> nat" where
  "ack_calls cb cs = length (filter (is_ack_call cb) cs)"

definition ack_waits :: "nat \<Rightarrow> ack list \<Rightarrow> nat" where
  "ack_waits cb acks = length (filter (\<lambda>a. ack_callback a = cb) acks)"

text \<open>No script asks for an acknowledgement with this callback.\<close>

definition quiet :: "('u, 'j) slib \<Rightarrow> nat \<Rightarrow> bool" where
  "quiet L cb \<longleftrightarrow> (\<forall>h e d t. AEmitWithAck e d t cb \<notin> set (sl_script L h))"

lemma ack_calls_append [simp]: "ack_calls cb (xs @ ys) = ack_calls cb xs + ack_calls cb ys"
  by (simp add: ack_calls_def)

lemma ack_calls_simps [simp]:
  "ack_calls cb [] = 0" "ack_calls cb (x # xs) = (if is_ack_call cb x then 1 else 0) + ack_calls cb xs"
  by (simp_all add: ack_calls_def)

lemma ack_waits_append [simp]: "ack_waits cb (xs @ ys) = ack_waits cb xs + ack_waits cb ys"
  by (simp add: ack_waits_def)

lemma ack_waits_simps [simp]:
  "ack_waits cb [] = 0" "ack_waits cb (a # xs) = (if ack_callback a = cb then 1 else 0) + ack_waits cb xs"
  by (simp_all add: ack_waits_def)

text \<open>The requests of the callback with one id.\<close>

definition owed :: "nat \<Rightarrow> i32 \<Rightarrow> ack list \<Rightarrow> nat" where
  "owed cb i acks = ack_waits cb (filter (\<lambda>a. ack_id a = i) acks)"

lemma owed_simps [simp]:
  "owed cb i [] = 0"
  "owed cb i (a # acks) = (if ack_callback a = cb \<and> ack_id a = i then 1 else 0) + owed cb i acks"
  by (simp_all add: owed_def)

lemma owed_rest: "ack_waits cb (filter (\<lambda>a. ack_id a \<noteq> i) acks) + owed cb i acks = ack_waits cb acks"
  by (induction acks) auto

section \<open>The contract of one acknowledgement\<close>

text \<open>\<open>one\<close> settles a request, \<open>loop\<close> goes through the list, \<open>handle\<close> takes a packet; \<open>held\<close> says that
  the list is locked, \<open>own\<close> that nobody but the user asks with a callback.\<close>

locale ack_book =
  fixes acks :: "'s \<Rightarrow> ack list" and calls :: "'s \<Rightarrow> call list" and held :: "'s \<Rightarrow> bool"
    and one :: "spacket \<Rightarrow> ack \<Rightarrow> ('s, serror, unit) proc"
    and loop :: "spacket \<Rightarrow> i32 \<Rightarrow> nat \<Rightarrow> ack list \<Rightarrow> nat list \<Rightarrow> ('s, serror, nat list) proc"
    and handle :: "spacket \<Rightarrow> ('s, serror, unit) proc"
    and own :: "nat \<Rightarrow> bool"
  assumes loop_Nil: "loop p i k [] ks = give (Ok ks)"
    and loop_Cons: "loop p i k (a # as) ks =
      (if ack_id a = i then seq (one p a) (\<lambda>_. loop p i (Suc k) as (ks @ [k])) else loop p i (Suc k) as ks)"
    and one_held: "held s \<Longrightarrow> held (snd (one p a s)) \<and> acks (snd (one p a s)) = acks s"
    and one_calls: "own cb \<Longrightarrow> ack_calls cb (calls (snd (one p a s)))
      \<le> ack_calls cb (calls s) + (if ack_callback a = cb then 2 else 0)"
    and one_no_err: "one p a s \<noteq> (Err e, t)"
    and handle_none: "s_id p = None \<Longrightarrow> handle p s = (Ok (), s)"
    and handle_some: "s_id p = Some i \<Longrightarrow> handle p s = (r, s') \<Longrightarrow> returned r \<Longrightarrow>
      \<exists>s0 r1 s1. held s0 \<and> acks s0 = acks s \<and> calls s0 = calls s \<and> loop p i 0 (acks s) [] s0 = (r1, s1) \<and>
        calls s' = calls s1 \<and> (\<forall>ks. r1 = Ok ks \<longrightarrow> remove_indices ks (acks s1) = Some (acks s')) \<and>
        (\<exists>x. r1 = Ok x \<or> (\<exists>e. r1 = Err e))"
begin

lemma loop_held: "held s \<Longrightarrow> held (snd (loop p i k as ks s)) \<and> acks (snd (loop p i k as ks s)) = acks s"
proof (induction as arbitrary: k ks s)
  case (Cons a as)
  obtain r t where t: "one p a s = (r, t)" by fastforce
  with one_held [OF Cons.prems, of p a] have "held t" "acks t = acks s" by simp_all
  with Cons.IH [OF Cons.prems] Cons.IH [of t] t show ?case
    by (cases r) (auto simp: loop_Cons seq_def)
qed (simp add: loop_Nil)

lemma loop_calls:
  "own cb \<Longrightarrow> ack_calls cb (calls (snd (loop p i k as ks s))) \<le> ack_calls cb (calls s) + 2 * owed cb i as"
proof (induction as arbitrary: k ks s)
  case (Cons a as)
  show ?case
  proof (cases "ack_id a = i")
    case True
    obtain r t where t: "one p a s = (r, t)" by fastforce
    with one_calls [OF Cons.prems, of p a s]
    have "ack_calls cb (calls t) \<le> ack_calls cb (calls s) + (if ack_callback a = cb then 2 else 0)" by simp
    with Cons.IH [OF Cons.prems, of "Suc k" "ks @ [k]" t] t True show ?thesis
      by (cases r) (auto simp: loop_Cons seq_def)
  qed (use Cons in \<open>simp add: loop_Cons\<close>)
qed (simp add: loop_Nil)

lemma loop_no_err: "loop p i k as ks s \<noteq> (Err e, t)"
proof (induction as arbitrary: k ks s)
  case (Cons a as)
  then show ?case using one_no_err by (auto simp: loop_Cons seq_def split: prod.splits outcome.splits)
qed (simp add: loop_Nil)

lemma loop_matching: "loop p i k as ks s = (Ok js, t) \<Longrightarrow> js = ks @ matching i k as"
proof (induction as arbitrary: k ks s)
  case (Cons a as)
  show ?case
  proof (cases "ack_id a = i")
    case True
    with Cons.prems obtain u where "loop p i (Suc k) as (ks @ [k]) u = (Ok js, t)"
      by (auto simp: loop_Cons elim!: seq_OkE)
    from Cons.IH [OF this] True show ?thesis by simp
  next
    case False
    with Cons show ?thesis by (simp add: loop_Cons)
  qed
qed (simp add: loop_Nil)

text \<open>Handling an acknowledgement settles the request with its id and no other.\<close>

lemma handle_settles:
  assumes "handle p s = (r, s')" "returned r" "distinct (map ack_id (acks s))" "s_id p = Some i"
  shows "acks s' = filter (\<lambda>a. ack_id a \<noteq> i) (acks s)"
proof -
  from handle_some [OF assms(4,1,2)] obtain s0 r1 s1 where loop: "held s0" "acks s0 = acks s"
    "loop p i 0 (acks s) [] s0 = (r1, s1)" "\<And>ks. r1 = Ok ks \<Longrightarrow> remove_indices ks (acks s1) = Some (acks s')"
    "\<exists>x. r1 = Ok x \<or> (\<exists>e. r1 = Err e)" by blast
  from loop(3,5) loop_no_err obtain ks where ks: "r1 = Ok ks" by metis
  have "acks s1 = acks s" using loop_held [OF loop(1), of p i 0 "acks s" "[]"] loop(2,3) by simp
  with loop(4) [OF ks] loop_matching [of p i 0 "acks s" "[]" s0 ks s1] loop(3) ks remove_matching [OF assms(3), of i]
  show ?thesis by simp
qed

lemma handle_balance:
  assumes "handle p s = (r, s')" "returned r" "distinct (map ack_id (acks s))" "own cb"
  shows "ack_calls cb (calls s') + 2 * ack_waits cb (acks s') \<le> ack_calls cb (calls s) + 2 * ack_waits cb (acks s)"
proof (cases "s_id p")
  case None
  with assms(1) show ?thesis by (simp add: handle_none)
next
  case (Some i)
  from handle_some [OF Some assms(1,2)] obtain s0 r1 s1 where loop: "calls s0 = calls s"
    "loop p i 0 (acks s) [] s0 = (r1, s1)" "calls s' = calls s1" by blast
  with loop_calls [OF assms(4), of p i 0 "acks s" "[]" s0]
  have "ack_calls cb (calls s') \<le> ack_calls cb (calls s) + 2 * owed cb i (acks s)" by simp
  with handle_settles [OF assms(1-3) Some] owed_rest [of cb i "acks s"] show ?thesis by simp
qed

end

section \<open>Over histories\<close>

text \<open>A client none of whose steps raises a balance by more than it asks for.\<close>

locale ack_history =
  fixes step :: "'s \<Rightarrow> 'l \<Rightarrow> 's \<Rightarrow> bool" and balance :: "'s \<Rightarrow> nat" and asks :: "'l \<Rightarrow> nat"
  assumes step_balance: "step s l t \<Longrightarrow> balance t \<le> balance s + 2 * asks l"
begin

lemma runs_balance: "runs step s ls t \<Longrightarrow> balance t \<le> balance s + 2 * sum_list (map asks ls)"
proof (induction rule: runs.induct)
  case (runs_cons s l t ls u)
  from step_balance [OF runs_cons.hyps(1)] runs_cons.IH show ?case by simp
qed simp

end

end
