(* ===== verification/Raw_Runs.thy ===== *)
theory Raw_Runs
  imports Ack_Books
begin

text \<open>
  Histories of a socket.io \<open>RawClient\<close>: any sequence of calls that come back. What is followed is the
  bookkeeping of acknowledgements, over all polls, callbacks and the calls they make.
\<close>

section \<open>Histories\<close>

datatype raw_call =
    RConnect
  | REmit sevent spayload
  | REmitWithAck sevent spayload nat nat
  | RPoll
  | RDisconnect

inductive raw_step :: "('u, 'j) slib \<Rightarrow> ('u, 'j) raw \<Rightarrow> raw_call \<Rightarrow> ('u, 'j) raw \<Rightarrow> bool" for L where
  step_connect: "raw_connect L s = (r, s') \<Longrightarrow> returned r \<Longrightarrow> raw_step L s RConnect s'"
| step_emit: "raw_emit L e d s = (r, s') \<Longrightarrow> returned r \<Longrightarrow> raw_step L s (REmit e d) s'"
| step_ack: "raw_emit_with_ack L e d t cb s = (r, s') \<Longrightarrow> returned r \<Longrightarrow>
    raw_step L s (REmitWithAck e d t cb) s'"
| step_poll: "raw_poll L s = (r, s') \<Longrightarrow> returned r \<Longrightarrow> raw_step L s RPoll s'"
| step_disconnect: "raw_disconnect L s = (r, s') \<Longrightarrow> returned r \<Longrightarrow> raw_step L s RDisconnect s'"

text \<open>A step from a state in which the outstanding requests have distinct ids.\<close>

definition raw_step_distinct :: "('u, 'j) slib \<Rightarrow> ('u, 'j) raw \<Rightarrow> raw_call \<Rightarrow> ('u, 'j) raw \<Rightarrow> bool" where
  "raw_step_distinct L s l s' \<longleftrightarrow> raw_step L s l s' \<and> distinct (map ack_id (rw_acks s))"

section \<open>Bookkeeping of one acknowledgement callback\<close>

definition called :: "nat \<Rightarrow> ('u, 'j) raw \<Rightarrow> nat" where
  "called cb s = ack_calls cb (rw_calls s)"

definition waiting :: "nat \<Rightarrow> ('u, 'j) raw \<Rightarrow> nat" where
  "waiting cb s = ack_waits cb (rw_acks s)"

fun requests :: "nat \<Rightarrow> raw_call list \<Rightarrow> nat" where
  "requests cb [] = 0"
| "requests cb (REmitWithAck e d t c # ls) = (if c = cb then 1 else 0) + requests cb ls"
| "requests cb (l # ls) = requests cb ls"

abbreviation account :: "nat \<Rightarrow> nat \<Rightarrow> nat \<Rightarrow> ('u, 'j) raw \<Rightarrow> bool" where
  "account cb c w s \<equiv> called cb s = c \<and> waiting cb s = w"

lemma account_upd [simp]:
  "called cb (s\<lparr>rw_socket := t\<rparr>) = called cb s" "waiting cb (s\<lparr>rw_socket := t\<rparr>) = waiting cb s"
  "called cb (s\<lparr>rw_acks_locked := b\<rparr>) = called cb s" "waiting cb (s\<lparr>rw_acks_locked := b\<rparr>) = waiting cb s"
  "called cb (s\<lparr>rw_time := f\<rparr>) = called cb s" "waiting cb (s\<lparr>rw_time := f\<rparr>) = waiting cb s"
  "called cb (s\<lparr>rw_rand := f\<rparr>) = called cb s" "waiting cb (s\<lparr>rw_rand := f\<rparr>) = waiting cb s"
  "called cb (s\<lparr>rw_acks := as\<rparr>) = called cb s"
  "waiting cb (s\<lparr>rw_calls := cs\<rparr>) = waiting cb s"
  "called cb (s\<lparr>rw_calls := rw_calls s @ [x]\<rparr>) = called cb s + (if is_ack_call cb x then 1 else 0)"
  by (simp_all add: called_def waiting_def)

lemma on_socket_account [simp]:
  "called cb (snd (on_socket m s)) = called cb s" "waiting cb (snd (on_socket m s)) = waiting cb s"
  by (simp_all add: on_socket_def split: prod.splits)

lemma keeps_account_socket: "keeps (account cb c w) (on_socket m)"
  by (rule keepsI) simp

lemma raw_emit_account [simp]:
  "called cb (snd (raw_emit L e d s)) = called cb s" "waiting cb (snd (raw_emit L e d s)) = waiting cb s"
  by (simp_all add: raw_emit_def)

lemma emit_with_ack_account:
  "called cb (snd (raw_emit_with_ack L e d t c s)) = called cb s"
  "waiting cb (snd (raw_emit_with_ack L e d t c s)) \<le> waiting cb s + (if c = cb then 1 else 0)"
  "c \<noteq> cb \<Longrightarrow> waiting cb (snd (raw_emit_with_ack L e d t c s)) = waiting cb s"
  by (auto simp: raw_emit_with_ack_def draw_id_def read_clock_def Let_def waiting_def on_socket_def
      split: prod.splits)

lemma keeps_account_disconnect:
  assumes "keeps (account cb c w) close"
  shows "keeps (account cb c w) (raw_disconnect_with L close)"
proof (rule keepsI)
  fix s :: "('a, 'b) raw" assume s: "account cb c w s"
  have "keeps (account cb c w) (seq (ignore (on_socket (ssocket_send (sl_oc L) (sl_b64 L) (sl_url L)
            (spacket SDisconnect nsp None None 0 None)))) (\<lambda>_.
     seq (on_socket (ssocket_disconnect (sl_b64 L) (sl_url L))) (\<lambda>_. ignore close)))" for nsp
    by (intro keeps_seq keeps_ignore keeps_account_socket assms)
  from keepsD [OF this s] show "account cb c w (snd (raw_disconnect_with L close s))"
    by (simp add: raw_disconnect_with_def)
qed

lemma keeps_account_action:
  assumes "keeps (account cb c w) close" "\<And>e d t. a \<noteq> AEmitWithAck e d t cb"
  shows "keeps (account cb c w) (run_action L close a)"
  using assms
  by (cases a) (auto simp: keeps_def emit_with_ack_account keepsD [OF keeps_account_disconnect])

lemma keeps_account_actions:
  assumes "keeps (account cb c w) close" "\<And>e d t. AEmitWithAck e d t cb \<notin> set as"
  shows "keeps (account cb c w) (run_actions L close as)"
  using assms(2)
proof (induction as)
  case Nil
  show ?case by (simp add: keeps_def)
next
  case (Cons a as)
  then show ?case
    by (simp only: run_actions.simps) (intro keeps_seq keeps_account_action assms(1); auto)
qed

lemma run_call_account:
  assumes "keeps (account cb (called cb s + (if is_ack_call cb x then 1 else 0)) (waiting cb s)) close" "quiet L cb"
  shows "called cb (snd (run_call L close x s)) = called cb s + (if is_ack_call cb x then 1 else 0)"
    "waiting cb (snd (run_call L close x s)) = waiting cb s"
  using keepsD [OF keeps_account_actions [OF assms(1), of "sl_script L (rw_calls s @ [x])" L], of "s\<lparr>rw_calls := rw_calls s @ [x]\<rparr>"]
    assms(2)
  by (auto simp: run_call_def quiet_def)

lemma keeps_account_relock: "keeps (account cb c w) relock"
  by (simp add: keeps_def relock_def)

lemma keeps_account_call:
  assumes "keeps (account cb c w) close" "quiet L cb" "\<And>p. x \<noteq> Some (CallAck cb p)"
  shows "keeps (account cb c w) (run_call_option L close x)"
proof (rule keepsI)
  fix s :: "('a, 'b) raw" assume s: "account cb c w s"
  show "account cb c w (snd (run_call_option L close x s))"
  proof (cases x)
    case None
    with s show ?thesis by (simp add: run_call_option_def)
  next
    case (Some y)
    have "\<not> is_ack_call cb y" using assms(3) Some by (cases y) auto
    with s assms(1) Some run_call_account [of cb s y close L] assms(2) show ?thesis
      by (simp add: run_call_option_def)
  qed
qed

lemma keeps_account_callback:
  assumes "quiet L cb"
  shows "keeps (account cb c w) (raw_callback L e p)"
proof (rule keepsI)
  fix s :: "('a, 'b) raw" assume s: "account cb c w s"
  have "keeps (account cb c w) (seq (run_call_option L relock (own_call (rw_on s) e p))
      (\<lambda>_. run_call_option L relock (any_call (rw_on_any s) e p)))"
    by (intro keeps_seq keeps_account_call keeps_account_relock assms)
      (auto simp: own_call_def any_call_def split: sevent.splits)
  from keepsD [OF this s] show "account cb c w (snd (raw_callback L e p s))"
    by (simp add: raw_callback_def)
qed

section \<open>Acknowledgements\<close>

lemma run_call_option_account:
  assumes "quiet L cb"
  shows "waiting cb (snd (run_call_option L (raw_callback L e q) x s)) = waiting cb s"
    "called cb (snd (run_call_option L (raw_callback L e q) x s)) \<le> called cb s + 1"
    "(\<And>p. x \<noteq> Some (CallAck cb p)) \<Longrightarrow>
       called cb (snd (run_call_option L (raw_callback L e q) x s)) = called cb s"
proof -
  note run = run_call_account [OF keeps_account_callback [OF assms] assms]
  show "waiting cb (snd (run_call_option L (raw_callback L e q) x s)) = waiting cb s"
    by (cases x) (simp_all add: run_call_option_def run)
  show "called cb (snd (run_call_option L (raw_callback L e q) x s)) \<le> called cb s + 1"
    by (cases x) (simp_all add: run_call_option_def run)
  show "called cb (snd (run_call_option L (raw_callback L e q) x s)) = called cb s"
    if "\<And>p. x \<noteq> Some (CallAck cb p)"
  proof -
    have "keeps (account cb (called cb s) (waiting cb s)) (run_call_option L (raw_callback L e q) x)"
      by (intro keeps_account_call keeps_account_callback assms that)
    from keepsD [OF this, of s] show ?thesis by simp
  qed
qed

text \<open>At most one call with the data and one with the first attachment.\<close>

lemma call_ack_account:
  assumes "quiet L cb"
  shows "waiting cb (snd (call_ack L p a s)) = waiting cb s"
    "called cb (snd (call_ack L p a s)) \<le> called cb s + (if ack_callback a = cb then 2 else 0)"
proof -
  let ?close = "raw_callback L EvClose (PString [])"
  let ?x = "map_option (\<lambda>d. CallAck (ack_callback a) (PString d)) (s_data p)"
  let ?y = "case s_attachments p of Some (payload # _) \<Rightarrow> Some (CallAck (ack_callback a) (PBinary payload)) | _ \<Rightarrow> None"
  note run = run_call_option_account [OF assms, where e = EvClose and q = "PString []"]
  have two: "waiting cb (snd (seq (run_call_option L ?close ?x) (\<lambda>_. run_call_option L ?close ?y) t)) = waiting cb t \<and>
      called cb (snd (seq (run_call_option L ?close ?x) (\<lambda>_. run_call_option L ?close ?y) t))
        \<le> called cb t + (if ack_callback a = cb then 2 else 0)" for t
  proof (cases "ack_callback a = cb")
    case True
    obtain r u where u: "run_call_option L ?close ?x t = (r, u)" by fastforce
    have "waiting cb u = waiting cb t" "called cb u \<le> called cb t + 1"
      using run(1,2) [of ?x t] by (simp_all add: u)
    with run(1,2) [of ?y u] u True show ?thesis
      by (cases r) (auto simp: seq_def split: prod.split outcome.split)
  next
    case False
    then have "\<And>q. ?x \<noteq> Some (CallAck cb q)" "\<And>q. ?y \<noteq> Some (CallAck cb q)"
      by (auto split: option.splits list.splits)
    then have "keeps (account cb (called cb t) (waiting cb t))
        (seq (run_call_option L ?close ?x) (\<lambda>_. run_call_option L ?close ?y))"
      by (intro keeps_seq keeps_account_call keeps_account_callback assms)
    from keepsD [OF this, of t] False show ?thesis by simp
  qed
  have "called cb (snd (read_clock s)) = called cb s" "waiting cb (snd (read_clock s)) = waiting cb s"
    by (simp_all add: read_clock_def)
  with two [of "snd (read_clock s)"]
  show "waiting cb (snd (call_ack L p a s)) = waiting cb s"
    "called cb (snd (call_ack L p a s)) \<le> called cb s + (if ack_callback a = cb then 2 else 0)"
    by (auto simp: call_ack_def Let_def read_clock_def)
qed

lemma call_ack_no_err: "call_ack L p a s \<noteq> (Err e, t)"
proof -
  have "run_call_option L close c s \<noteq> (Err e, t)" for close c s t
    by (simp add: run_call_option_def run_call_def run_actions_no_err split: option.splits)
  then show ?thesis by (auto simp: call_ack_def Let_def seq_def split: prod.splits outcome.splits if_splits)
qed

text \<open>The client fulfils the contract.\<close>

interpretation raw_book: ack_book rw_acks rw_calls rw_acks_locked "call_ack L" "ack_loop L" "handle_ack L" "quiet L"
  for L :: "('u, 'j) slib"
proof unfold_locales
  show "ack_loop L p i k [] ks = give (Ok ks)" for p i k ks by simp
  show "ack_loop L p i k (a # as) ks =
      (if ack_id a = i then seq (call_ack L p a) (\<lambda>_. ack_loop L p i (Suc k) as (ks @ [k]))
       else ack_loop L p i (Suc k) as ks)" for p i k a as ks by simp
  show "rw_acks_locked s \<Longrightarrow> rw_acks_locked (snd (call_ack L p a s)) \<and> rw_acks (snd (call_ack L p a s)) = rw_acks s"
    for s p a
    using keepsD [OF keeps_call_ack same_tables_refl, of s L p a] by (simp add: same_tables_def)
  show "quiet L cb \<Longrightarrow> ack_calls cb (rw_calls (snd (call_ack L p a s)))
      \<le> ack_calls cb (rw_calls s) + (if ack_callback a = cb then 2 else 0)" for cb p a s
    using call_ack_account(2) [of L cb p a s] by (simp add: called_def)
  show "call_ack L p a s \<noteq> (Err e, t)" for p a s e t by (rule call_ack_no_err)
  show "s_id p = None \<Longrightarrow> handle_ack L p s = (Ok (), s)" for p s by (simp add: handle_ack_def)
  fix p i s r s'
  assume "s_id p = Some i" "handle_ack L p s = (r, s')" "returned r"
  then show "\<exists>s0 r1 s1. rw_acks_locked s0 \<and> rw_acks s0 = rw_acks s \<and> rw_calls s0 = rw_calls s \<and>
      ack_loop L p i 0 (rw_acks s) [] s0 = (r1, s1) \<and> rw_calls s' = rw_calls s1 \<and>
      (\<forall>ks. r1 = Ok ks \<longrightarrow> remove_indices ks (rw_acks s1) = Some (rw_acks s')) \<and>
      (\<exists>x. r1 = Ok x \<or> (\<exists>e. r1 = Err e))"
    by (intro exI [of _ "s\<lparr>rw_acks_locked := True\<rparr>"])
      (auto simp: handle_ack_def seq_def Let_def returned_def split: if_splits prod.splits outcome.splits option.splits)
qed

lemma handle_ack_account:
  assumes "quiet L cb" "distinct (map ack_id (rw_acks s))" "handle_ack L p s = (r, s')" "returned r"
  shows "called cb s' + 2 * waiting cb s' \<le> called cb s + 2 * waiting cb s"
  using raw_book.handle_balance [OF assms(3,4,2,1)] by (simp add: called_def waiting_def)

section \<open>Whole calls\<close>

abbreviation balance :: "nat \<Rightarrow> ('u, 'j) raw \<Rightarrow> nat" where
  "balance cb s \<equiv> called cb s + 2 * waiting cb s"

lemma callback_balance: "quiet L cb \<Longrightarrow> raw_callback L e q s = (r, s') \<Longrightarrow> balance cb s' = balance cb s"
  using keepsD [OF keeps_account_callback [where c = "called cb s" and w = "waiting cb s" and e = e and p = q], of L cb s] by simp

lemma keeps_account_event:
  assumes "quiet L cb"
  shows "keeps (account cb c w) (handle_event L p)" "keeps (account cb c w) (handle_binary_event L p)"
  using keeps_account_callback [OF assms, of c w]
  by (auto simp: handle_event_def handle_binary_event_def keeps_def Let_def
      split: option.split sum.split list.split)

lemma report_balance:
  assumes "quiet L cb" "report L b m s = (r, s')" "returned r"
    and "\<And>r1 s1. m s = (r1, s1) \<Longrightarrow> returned r1 \<Longrightarrow> balance cb s1 \<le> balance cb s"
  shows "balance cb s' \<le> balance cb s"
proof -
  obtain r1 s1 where m: "m s = (r1, s1)" by fastforce
  show ?thesis
  proof (cases r1)
    case (Err e)
    then have "balance cb s1 \<le> balance cb s" using assms(4) [OF m] by (simp add: returned_def)
    moreover obtain r2 where "raw_callback L EvError (PString (sl_display L e)) s1 = (r2, s')"
      using assms(2) m Err by (auto simp: report_def seq_def split: prod.splits outcome.splits)
    ultimately show ?thesis using callback_balance [OF assms(1)] by fastforce
  qed (use assms m in \<open>auto simp: report_def\<close>)
qed

lemma handle_packet_balance:
  assumes "quiet L cb" "distinct (map ack_id (rw_acks s))" "raw_handle_packet L p s = (r, s')" "returned r"
  shows "balance cb s' \<le> balance cb s"
proof -
  have ev: "balance cb s1 \<le> balance cb s" if "handle_event L p s = (r1, s1)" for r1 s1
    using keepsD [OF keeps_account_event(1) [OF assms(1), where c = "called cb s" and w = "waiting cb s" and p = p], of s] that by simp
  have bin: "balance cb s1 \<le> balance cb s" if "handle_binary_event L p s = (r1, s1)" for r1 s1
    using keepsD [OF keeps_account_event(2) [OF assms(1), where c = "called cb s" and w = "waiting cb s" and p = p], of s] that by simp
  have ack: "balance cb s1 \<le> balance cb s" if "handle_ack L p s = (r1, s1)" "returned r1" for r1 s1
    by (rule handle_ack_account [OF assms(1,2) that])
  show ?thesis
  proof (cases "s_nsp p = rw_nsp s")
    case True
    from report_balance [OF assms(1) _ assms(4)] ev bin ack show ?thesis
      using assms(3) callback_balance [OF assms(1)] True
      by (cases "s_type p") (auto simp: raw_handle_packet_def)
  qed (use assms(3) in \<open>simp add: raw_handle_packet_def\<close>)
qed

lemma raw_poll_balance:
  assumes "quiet L cb" "distinct (map ack_id (rw_acks s))" "raw_poll L s = (r, s')" "returned r"
  shows "balance cb s' \<le> balance cb s"
  using assms
proof (induction L s arbitrary: r s' rule: raw_poll.induct)
  case (1 L s)
  obtain r1 s1 where poll: "on_socket (ssocket_poll (sl_b64 L) (sl_url L) (sl_json L)) s = (r1, s1)" by fastforce
  then have same: "balance cb s1 = balance cb s" "rw_acks s1 = rw_acks s"
    using on_socket_account [of cb "ssocket_poll (sl_b64 L) (sl_url L) (sl_json L)" s]
    by (auto simp: on_socket_def split: prod.splits)
  note unfold = raw_poll.simps [of L s, unfolded poll]
  show ?case
  proof (cases r1)
    case (Ok o')
    show ?thesis
    proof (cases o')
      case None
      with unfold Ok "1.prems"(3) same show ?thesis by simp
    next
      case (Some packet)
      show ?thesis
      proof (cases "s_nsp packet = rw_nsp s1")
        case True
        obtain r2 where "raw_handle_packet L packet s1 = (r2, s')" "returned r2"
          using unfold Ok Some True "1.prems"(3,4)
          by (auto simp: seq_def returned_def split: prod.splits outcome.splits)
        with handle_packet_balance [OF "1.prems"(1)] "1.prems"(2) same show ?thesis by metis
      next
        case False
        with unfold Ok Some "1.prems"(3) have "raw_poll L s1 = (r, s')" by simp
        from "1.IH" [OF poll [symmetric] Ok Some False "1.prems"(1) _ this "1.prems"(4)] "1.prems"(2) same
        show ?thesis by simp
      qed
    qed
  next
    case (Err e)
    then obtain r2 where "raw_callback L EvError (PString (sl_display L e)) s1 = (r2, s')"
      using unfold "1.prems"(3) by (auto simp: seq_def split: prod.splits outcome.splits)
    with callback_balance [OF "1.prems"(1)] same show ?thesis by fastforce
  qed (use unfold "1.prems"(3,4) in \<open>simp_all add: returned_def\<close>)
qed

lemma raw_step_balance:
  assumes "quiet L cb" "raw_step_distinct L s l s'"
  shows "balance cb s' \<le> balance cb s + 2 * requests cb [l]"
proof -
  have step: "raw_step L s l s'" and dist: "distinct (map ack_id (rw_acks s))"
    using assms(2) by (simp_all add: raw_step_distinct_def)
  from step show ?thesis
  proof cases
    case (step_connect r)
    have "keeps (account cb (called cb s) (waiting cb s)) (raw_connect L)"
    proof (rule keepsI)
      fix t :: "('a, 'b) raw" assume t: "account cb (called cb s) (waiting cb s) t"
      have "keeps (account cb (called cb s) (waiting cb s))
          (seq (on_socket (ssocket_connect (sl_b64 L) (sl_url L))) (\<lambda>_.
             on_socket (ssocket_send (sl_oc L) (sl_b64 L) (sl_url L) q)))" for q
        by (intro keeps_seq keeps_account_socket)
      from keepsD [OF this t] show "account cb (called cb s) (waiting cb s) (snd (raw_connect L t))"
        by (simp add: raw_connect_def Let_def)
    qed
    from keepsD [OF this, of s] step_connect show ?thesis by simp
  next
    case (step_emit e d r)
    with raw_emit_account [of cb L e d s] show ?thesis by simp
  next
    case (step_ack e d t c r)
    with emit_with_ack_account(1,2) [of cb L e d t c s] show ?thesis by (auto split: if_splits)
  next
    case (step_poll r)
    with raw_poll_balance [OF assms(1) dist step_poll(2,3)] show ?thesis by simp
  next
    case (step_disconnect r)
    have "keeps (account cb (called cb s) (waiting cb s)) (raw_disconnect L)"
      unfolding raw_disconnect_def by (intro keeps_account_disconnect keeps_account_callback assms(1))
    from keepsD [OF this, of s] step_disconnect show ?thesis by simp
  qed
qed

lemma requests_sum: "sum_list (map (\<lambda>l. requests cb [l]) ls) = requests cb ls"
proof (induction ls)
  case (Cons l ls)
  then show ?case by (cases l) auto
qed simp

interpretation raw_history: ack_history
  "\<lambda>s l s'. raw_step_distinct L s l s' \<and> quiet L cb" "\<lambda>s. balance cb s" "\<lambda>l. requests cb [l]"
  for L :: "('u, 'j) slib" and cb :: nat
  by unfold_locales (blast intro: raw_step_balance)

lemma raw_runs_balance:
  assumes "runs (raw_step_distinct L) s ls s'" "quiet L cb"
  shows "balance cb s' \<le> balance cb s + 2 * requests cb ls"
proof -
  from assms have "runs (\<lambda>s l s'. raw_step_distinct L s l s' \<and> quiet L cb) s ls s'" by simp
  from raw_history.runs_balance [OF this] show ?thesis by (simp only: requests_sum)
qed

section \<open>Properties\<close>

text \<open>C5: an acknowledgement callback is called at most twice for each request, over any history. Whatever
  is called and polled, and whatever other callbacks do, as long as the outstanding requests have
  distinct ids when a call starts and no callback asks for an acknowledgement with this callback: the
  number of its calls, plus two for each request still waiting, grows by no more than two for each
  \<open>emit_with_ack\<close>. (Two, because one acknowledgement can carry data and an attachment, and the callback
  is called with each.)\<close>

theorem ack_calls_bounded:
  assumes "runs (raw_step_distinct L) s ls s'" and "quiet L cb"
  shows "called cb s' + 2 * waiting cb s' \<le> called cb s + 2 * waiting cb s + 2 * requests cb ls"
  by (rule raw_runs_balance [OF assms])

text \<open>A request made before the connection is open, which fails but is kept, and the acknowledgement of it.\<close>

definition demo_early :: "(nat, rstring) raw" where
  "demo_early =
     (demo_raw [WsMsg (WsText (lit ''430[7]''))] [])
       \<lparr>rw_socket := (demo_ssocket [WsMsg (WsText (lit ''430[7]''))])\<lparr>ss_connected := False\<rparr>\<rparr>"

definition demo_early_run :: "raw_call list" where
  "demo_early_run = [REmitWithAck EvMessage (PBinary [1]) 10 5, RPoll]"

lemma demo_early_runs:
  obtains s' where "runs (raw_step_distinct (demo_slib (\<lambda>h. []))) demo_early demo_early_run s'"
    "called 5 s' = 1" "rw_acks s' = []"
proof -
  let ?L = "demo_slib (\<lambda>h. [])"
  let ?a = "\<lparr>ack_id = 0, ack_timeout = 10, ack_started = 0, ack_callback = 5\<rparr>"
  let ?s1 = "demo_early\<lparr>rw_rand := (\<lambda>n. Suc n), rw_time := (\<lambda>n. Suc n), rw_acks := [?a]\<rparr>"
  let ?p = "spacket SAck (lit ''/'') (Some (lit ''[7]'')) (Some 0) 0 None"
  have "raw_emit_with_ack ?L EvMessage (PBinary [1]) 10 5 demo_early = (Err SIllegalActionBeforeOpen, ?s1)"
    by (simp add: raw_emit_with_ack_def draw_id_def read_clock_def demo_early_def demo_raw_def raw_new_def
        on_socket_def ssocket_send_def)
  then have one: "raw_step_distinct ?L demo_early (REmitWithAck EvMessage (PBinary [1]) 10 5) ?s1"
    by (auto simp: raw_step_distinct_def returned_def demo_early_def intro: step_ack)
  have "fst (ssocket_poll nibble64 demo_urls flat_json (rw_socket ?s1)) = Ok (Some ?p)"
    by (rule ssocket_poll_frames [where t = "lit ''30[7]''" and v = 0 and later = "[]"])
      (simp_all add: scalar_def spacket_def packet_frames_def demo_net_def decode_text_def spacket_id_try_from_char_def
        decode_count_def is_binary_type_def parse_u8_def digits_value_def spacket_default_def demo_early_def
        decode_nsp_def starts_with_def decode_id_def is_ascii_digit_def parse_i32_def decode_data_def flat_json_def)
  then obtain t where "ssocket_poll (sl_b64 ?L) (sl_url ?L) (sl_json ?L) (rw_socket ?s1) = (Ok (Some ?p), t)"
    by (simp add: demo_slib_def) (metis prod.collapse)
  then have "raw_poll ?L ?s1 = seq (raw_handle_packet ?L ?p) (\<lambda>_. give (Ok (Some ?p))) (?s1\<lparr>rw_socket := t\<rparr>)"
    by (rule raw_poll_step) (simp add: spacket_def demo_early_def)
  moreover have "raw_handle_packet ?L ?p (?s1\<lparr>rw_socket := t\<rparr>) =
      (Ok (), ?s1\<lparr>rw_socket := t, rw_time := (\<lambda>n. Suc (Suc n)), rw_acks_locked := False, rw_acks := [],
         rw_calls := [CallAck 5 (PString (lit ''[7]''))]\<rparr>)"
    by (simp add: raw_handle_packet_def spacket_def report_def handle_ack_def call_ack_def read_clock_def
        run_call_option_def run_call_def demo_slib_def demo_early_def demo_raw_def raw_new_def seq_def)
  ultimately have "raw_poll ?L ?s1 = (Ok (Some ?p), ?s1\<lparr>rw_socket := t, rw_time := (\<lambda>n. Suc (Suc n)),
      rw_acks_locked := False, rw_acks := [], rw_calls := [CallAck 5 (PString (lit ''[7]''))]\<rparr>)"
    by simp
  then have "raw_step_distinct ?L ?s1 RPoll (?s1\<lparr>rw_socket := t, rw_time := (\<lambda>n. Suc (Suc n)),
      rw_acks_locked := False, rw_acks := [], rw_calls := [CallAck 5 (PString (lit ''[7]''))]\<rparr>)"
    by (auto simp: raw_step_distinct_def returned_def intro: step_poll)
  with one show thesis
    by (intro that) (auto simp: demo_early_run_def runs_Cons called_def)
qed

theorem ack_calls_bounded_witness:
  "\<exists>s'. runs (raw_step_distinct (demo_slib (\<lambda>h. []))) demo_early demo_early_run s' \<and>
     called 5 s' = 1 \<and> called 5 s' + 2 * waiting 5 s' \<le> 2"
proof -
  obtain s' where run: "runs (raw_step_distinct (demo_slib (\<lambda>h. []))) demo_early demo_early_run s'"
    and one: "called 5 s' = 1" and "rw_acks s' = []"
    by (rule demo_early_runs)
  have "quiet (demo_slib (\<lambda>h. [])) 5" by (simp add: quiet_def demo_slib_def)
  from ack_calls_bounded [OF run this] run one show ?thesis
    by (auto simp: called_def waiting_def demo_early_def demo_early_run_def)
qed

end
