(* ===== verification/Concurrent_Sends.thy ===== *)
theory Concurrent_Sends
  imports Engine_Runs End_To_End
begin

text \<open>
  Threads that share one client and send at the same time. \<open>Socket::send\<close> holds no lock: it hands the
  packet and then each attachment to the engine's client, and another thread can come in between.
  Here a send is cut into these calls, a step of a run is one call of one thread, and the runs are all
  interleavings. A thread whose call panics or blocks makes no further step. What the runs need of the
  socket is an interface, so that \<open>Async_Concurrent_Sends\<close> gives the same for the tasks that share an
  asynchronous client.
\<close>

section \<open>A send as a sequence of calls\<close>

text \<open>What \<open>send\<close> hands to the engine's client, in order.\<close>

definition send_items :: "bool \<Rightarrow> spacket \<Rightarrow> (serror, epacket list) outcome" where
  "send_items oc p =
     (case spacket_to_bytes oc p of
        Ok bytes \<Rightarrow> Ok (epacket EMessage bytes #
          map (epacket EMessageBinary) (case s_attachments p of Some as \<Rightarrow> as | None \<Rightarrow> []))
      | Err e \<Rightarrow> Err e
      | Panic \<Rightarrow> Panic
      | Block \<Rightarrow> Block)"

fun emit_items :: "(epacket \<Rightarrow> ('s, serror, unit) proc) \<Rightarrow> epacket list \<Rightarrow> ('s, serror, unit) proc" where
  "emit_items emit [] = give (Ok ())"
| "emit_items emit (q # qs) = seq (emit q) (\<lambda>_. emit_items emit qs)"

definition engine_emit :: "base64 \<Rightarrow> 'u urllib \<Rightarrow> epacket \<Rightarrow> ('u ssocket, serror, unit) proc" where
  "engine_emit B U q = on_engine (esocket_emit B U q)"

text \<open>Nothing else happens in \<open>send\<close>.\<close>

lemma ssocket_send_items:
  "ssocket_send oc B U p s =
     (if \<not> ss_open s then (Err SIllegalActionBeforeOpen, s)
      else seq (give (send_items oc p)) (emit_items (engine_emit B U)) s)"
proof -
  have as: "send_attachments B U as = emit_items (engine_emit B U) (map (epacket EMessageBinary) as)" for as
    by (induction as) (simp_all add: engine_emit_def)
  show ?thesis
    by (cases "spacket_to_bytes oc p :: (serror, bytes) outcome")
      (auto simp: ssocket_send_def is_engineio_connected_def send_items_def as seq_def give_def engine_emit_def
        split: option.split prod.split outcome.split)
qed

section \<open>Threads\<close>

text \<open>The packets each thread has yet to send, and what is left of the one it is sending.\<close>

record 's senders =
  sn_socket :: 's
  sn_todo :: "nat \<Rightarrow> spacket list"
  sn_left :: "nat \<Rightarrow> epacket list"

datatype send_event = Started spacket | Refused spacket | Put epacket | Failed serror

text \<open>\<open>opened\<close> is the test of \<open>send\<close>, \<open>emit\<close> the call of the engine's client.\<close>

inductive send_step ::
  "bool \<Rightarrow> (epacket \<Rightarrow> ('s, serror, unit) proc) \<Rightarrow> ('s \<Rightarrow> bool) \<Rightarrow> 's senders \<Rightarrow> nat \<times> send_event \<Rightarrow> 's senders \<Rightarrow> bool"
  for oc emit opened where
  start: "sn_left s i = [] \<Longrightarrow> sn_todo s i = p # ps \<Longrightarrow> opened (sn_socket s) \<Longrightarrow> send_items oc p = Ok items \<Longrightarrow>
    send_step oc emit opened s (i, Started p)
      (s\<lparr>sn_todo := (sn_todo s)(i := ps), sn_left := (sn_left s)(i := items)\<rparr>)"
| refuse: "sn_left s i = [] \<Longrightarrow> sn_todo s i = p # ps \<Longrightarrow> \<not> opened (sn_socket s) \<Longrightarrow>
    send_step oc emit opened s (i, Refused p) (s\<lparr>sn_todo := (sn_todo s)(i := ps)\<rparr>)"
| put: "sn_left s i = q # qs \<Longrightarrow> emit q (sn_socket s) = (Ok (), t) \<Longrightarrow>
    send_step oc emit opened s (i, Put q) (s\<lparr>sn_socket := t, sn_left := (sn_left s)(i := qs)\<rparr>)"
| fail: "sn_left s i = q # qs \<Longrightarrow> emit q (sn_socket s) = (Err e, t) \<Longrightarrow>
    send_step oc emit opened s (i, Failed e) (s\<lparr>sn_socket := t, sn_left := (sn_left s)(i := [])\<rparr>)"

inductive_cases send_stepE: "send_step oc emit opened s (i, ev) s'"

text \<open>The part of a sequence that belongs to a thread, and what the events say.\<close>

definition of_thread :: "nat \<Rightarrow> (nat \<times> 'a) list \<Rightarrow> 'a list" where
  "of_thread i xs = map snd (filter (\<lambda>(j, x). j = i) xs)"

lemma of_thread_simps [simp]:
  "of_thread i [] = []"
  "of_thread i ((j, x) # xs) = (if j = i then x # of_thread i xs else of_thread i xs)"
  "of_thread i (xs @ ys) = of_thread i xs @ of_thread i ys"
  by (simp_all add: of_thread_def)

fun started :: "send_event list \<Rightarrow> spacket list" where
  "started [] = []"
| "started (Started p # evs) = p # started evs"
| "started (_ # evs) = started evs"

fun puts :: "send_event list \<Rightarrow> epacket list" where
  "puts [] = []"
| "puts (Put q # evs) = q # puts evs"
| "puts (_ # evs) = puts evs"

fun fine :: "send_event \<Rightarrow> bool" where
  "fine (Started p) = True"
| "fine (Put q) = True"
| "fine (Refused p) = False"
| "fine (Failed e) = False"

definition items_of :: "bool \<Rightarrow> spacket \<Rightarrow> epacket list" where
  "items_of oc p = (case send_items oc p of Ok items \<Rightarrow> items | _ \<Rightarrow> [])"

section \<open>Every interleaving keeps the order of each thread\<close>

text \<open>Over a run without a refused or failed call: what a thread started is what it put on the network and
  what is left of it.\<close>

lemma sends_balance:
  assumes "runs (send_step oc emit opened) s ls s'" "list_all (\<lambda>(j, ev). fine ev) ls"
  shows "sn_todo s i = started (of_thread i ls) @ sn_todo s' i \<and>
    sn_left s i @ concat (map (items_of oc) (started (of_thread i ls))) = puts (of_thread i ls) @ sn_left s' i"
  using assms
proof (induction rule: runs.induct)
  case (runs_cons s l t ls u)
  obtain j ev where l: "l = (j, ev)" by (cases l)
  with runs_cons have "fine ev" "list_all (\<lambda>(j, ev). fine ev) ls" by simp_all
  with runs_cons.hyps(1) runs_cons.IH show ?case
    by (auto simp: l items_of_def elim!: send_stepE split: if_splits)
qed simp

text \<open>The frame of a call.\<close>

definition item_frame :: "epacket \<Rightarrow> ws_message \<Rightarrow> bool" where
  "item_frame q m \<longleftrightarrow> (\<exists>d. q = epacket EMessageBinary d \<and> m = WsBinary d) \<or>
     (\<exists>t. list_all scalar t \<and> q = epacket EMessage (utf8 t) \<and> m = WsText (of_char CHR ''4'' # t))"

text \<open>What the runs need of a socket: a call that succeeds puts its packet, as the transport writes it, at
  the end of what was sent, and on a websocket that takes the next messages it succeeds.\<close>

locale sender_socket =
  fixes emit :: "epacket \<Rightarrow> ('s, serror, unit) proc" and opened :: "'s \<Rightarrow> bool"
    and transport :: "'s \<Rightarrow> 'u transport" and net :: "'s \<Rightarrow> 'u net" and B :: base64
    and takes :: "nat \<Rightarrow> 's \<Rightarrow> bool"
  assumes emit_puts: "emit q t = (Ok (), t') \<Longrightarrow>
      (\<exists>m. packet_form B (transport t) q = Some m \<and> outbox (net t') = outbox (net t) @ [m]) \<and>
      transport t' = transport t"
    and takes_open: "takes n t \<Longrightarrow> opened t"
    and emit_takes: "takes (Suc n) t \<Longrightarrow> item_frame q m \<Longrightarrow>
      \<exists>t'. emit q t = (Ok (), t') \<and> takes n t' \<and> wire (net t') = wire (net t) @ [WsSend m]"
begin

text \<open>The outbox grows by the packets in the order they were put.\<close>

lemma sends_outbox:
  assumes "runs (send_step oc emit opened) s ls s'" "list_all (\<lambda>(j, ev). fine ev) ls"
  shows "outbox (net (sn_socket s')) = outbox (net (sn_socket s)) @
      map (\<lambda>q. the (packet_form B (transport (sn_socket s)) q)) (puts (map snd ls)) \<and>
    transport (sn_socket s') = transport (sn_socket s)"
  using assms
proof (induction rule: runs.induct)
  case (runs_cons s l t ls u)
  obtain j ev where l: "l = (j, ev)" by (cases l)
  with runs_cons have "fine ev" "list_all (\<lambda>(j, ev). fine ev) ls" by simp_all
  moreover from this have "outbox (net (sn_socket t)) = outbox (net (sn_socket s)) @
        map (\<lambda>q. the (packet_form B (transport (sn_socket s)) q)) (puts [ev]) \<and>
      transport (sn_socket t) = transport (sn_socket s)"
    using runs_cons.hyps(1) unfolding l by (auto elim!: send_stepE dest: emit_puts)
  ultimately show ?case
    using runs_cons.IH by (cases ev) (simp_all add: l)
qed simp

text \<open>On a websocket that accepts, the calls can come in any order that keeps the order of each thread.\<close>

lemma puts_run:
  assumes "list_all2 (\<lambda>(i, q) m. item_frame q m) sched ms" "takes (length sched) (sn_socket s)"
    and "\<And>i. sn_left s i = of_thread i sched"
  shows "\<exists>s'. runs (send_step oc emit opened) s (map (\<lambda>(i, q). (i, Put q)) sched) s' \<and>
    sn_left s' = (\<lambda>_. []) \<and> sn_todo s' = sn_todo s \<and>
    wire (net (sn_socket s')) = wire (net (sn_socket s)) @ map WsSend ms"
  using assms
proof (induction sched ms arbitrary: s rule: list_all2_induct)
  case Nil
  then show ?case by (intro exI [of _ s]) (simp add: fun_eq_iff)
next
  case (Cons x sched m ms)
  obtain i q where x: "x = (i, q)" by (cases x)
  have left: "sn_left s i = q # of_thread i sched" and m: "item_frame q m"
    using Cons.prems(2) [of i] Cons.hyps(1) by (simp_all add: x)
  have "takes (Suc (length sched)) (sn_socket s)" using Cons.prems(1) by simp
  from emit_takes [OF this m] obtain t where t: "emit q (sn_socket s) = (Ok (), t)" "takes (length sched) t"
    "wire (net t) = wire (net (sn_socket s)) @ [WsSend m]" by blast
  let ?s = "s\<lparr>sn_socket := t, sn_left := (sn_left s)(i := of_thread i sched)\<rparr>"
  have "sn_left ?s j = of_thread j sched" for j using Cons.prems(2) [of j] by (simp add: x)
  with Cons.IH [of ?s] t(2) obtain s' where
    s': "runs (send_step oc emit opened) ?s (map (\<lambda>(i, q). (i, Put q)) sched) s'" "sn_left s' = (\<lambda>_. [])"
      "sn_todo s' = sn_todo s" "wire (net (sn_socket s')) = wire (net (sn_socket s)) @ WsSend m # map WsSend ms"
    by (auto simp: t(3))
  have "send_step oc emit opened s (i, Put q) ?s" by (rule put) (rule left, rule t(1))
  from runs_cons [OF this s'(1)] s'(2-4) show ?case by (auto simp: x)
qed

text \<open>Two threads with one packet each, and any schedule of their calls.\<close>

lemma two_threads_run:
  assumes "send_items oc pA = Ok (of_thread 0 sched)" "send_items oc pB = Ok (of_thread 1 sched)"
    and "\<And>i. i > 1 \<Longrightarrow> of_thread i sched = []" "list_all2 (\<lambda>(i, q) m. item_frame q m) sched ms"
    and "takes (length sched) (sn_socket s)" "sn_left s = (\<lambda>_. [])" "sn_todo s = (\<lambda>_. [])(0 := [pA], 1 := [pB])"
  shows "\<exists>ls s'. runs (send_step oc emit opened) s ls s' \<and> list_all (\<lambda>(j, ev). fine ev) ls \<and>
    sn_left s' = (\<lambda>_. []) \<and> sn_todo s' = (\<lambda>_. []) \<and>
    wire (net (sn_socket s')) = wire (net (sn_socket s)) @ map WsSend ms"
proof -
  let ?s1 = "s\<lparr>sn_todo := (sn_todo s)(0 := []), sn_left := (sn_left s)(0 := of_thread 0 sched)\<rparr>"
  let ?s2 = "?s1\<lparr>sn_todo := (sn_todo ?s1)(1 := []), sn_left := (sn_left ?s1)(1 := of_thread 1 sched)\<rparr>"
  have open': "opened (sn_socket s)" using assms(5) by (rule takes_open)
  have one: "send_step oc emit opened s (0, Started pA) ?s1" by (rule start) (use assms open' in simp_all)
  have two: "send_step oc emit opened ?s1 (1, Started pB) ?s2" by (rule start) (use assms open' in simp_all)
  have r: "takes (length sched) (sn_socket ?s2)" using assms(5) by simp
  have left: "sn_left ?s2 i = of_thread i sched" for i
    using assms(3) [of i] assms(6) by (cases "i > 1") (auto simp: not_less le_Suc_eq)
  from puts_run [OF assms(4) r left] obtain s' where
    s': "runs (send_step oc emit opened) ?s2 (map (\<lambda>(i, q). (i, Put q)) sched) s'" "sn_left s' = (\<lambda>_. [])"
      "sn_todo s' = sn_todo ?s2" "wire (net (sn_socket s')) = wire (net (sn_socket s)) @ map WsSend ms"
    by auto
  have todo: "sn_todo s' = (\<lambda>_. [])" using s'(3) assms(7) by (simp add: fun_eq_iff)
  show ?thesis
    by (rule exI, rule exI, rule conjI, rule runs_cons [OF one runs_cons [OF two s'(1)]])
      (use s'(2,4) todo in \<open>auto simp: list_all_iff\<close>)
qed

end

section \<open>Text messages\<close>

text \<open>A merge of sequences can be read back through a map of the elements.\<close>

lemma unmerge:
  assumes "\<And>i. of_thread i ys = map f (xs i)"
  shows "\<exists>zs. (\<forall>i. of_thread i zs = xs i) \<and> map snd ys = map f (map snd zs)"
  using assms
proof (induction ys arbitrary: xs)
  case Nil
  then show ?case by (intro exI [of _ "[]"]) simp
next
  case (Cons y ys)
  obtain j q where y: "y = (j, q)" by (cases y)
  from Cons.prems [of j] obtain x rest where x: "xs j = x # rest" "q = f x"
    by (cases "xs j") (auto simp: y)
  have "of_thread i ys = map f ((xs(j := rest)) i)" for i
    using Cons.prems [of i] Cons.prems [of j] x by (cases "i = j") (simp_all add: y)
  from Cons.IH [OF this] obtain zs where zs: "\<forall>i. of_thread i zs = (xs(j := rest)) i"
    "map snd ys = map f (map snd zs)" by blast
  then have "\<forall>i. of_thread i ((j, x) # zs) = xs i" using x by simp
  with zs(2) x(2) show ?case by (intro exI [of _ "(j, x) # zs"]) (simp add: y)
qed

lemma of_thread_mem: "x \<in> set (map snd zs) \<Longrightarrow> \<exists>i. x \<in> set (of_thread i zs)"
  by (force simp: of_thread_def)

lemma puts_of_threads:
  "\<exists>qs. (\<forall>i. of_thread i qs = puts (of_thread i ls)) \<and> map snd qs = puts (map snd ls)"
proof (induction ls)
  case Nil
  show ?case by (intro exI [of _ "[]"]) simp
next
  case (Cons l ls)
  then obtain qs where qs: "\<forall>i. of_thread i qs = puts (of_thread i ls)" "map snd qs = puts (map snd ls)" by blast
  obtain j ev where l: "l = (j, ev)" by (cases l)
  show ?case
  proof (cases ev)
    case (Put q)
    with qs show ?thesis by (intro exI [of _ "(j, q) # qs"]) (simp add: l)
  qed (use qs in \<open>auto simp: l intro!: exI [of _ qs]\<close>)
qed

definition text_message :: "message \<Rightarrow> bool" where
  "text_message m \<longleftrightarrow> (\<exists>str. fst (snd m) = PString str)"

text \<open>A text message is one call, and one frame.\<close>

lemma text_message_item:
  assumes "deliverable (sl_json L) ev sent got" "plain_text nsp" "nsp_ok nsp" "text_message (ev, sent, got)"
  shows "send_items oc (message_packet L nsp (ev, sent, got)) =
      Ok [epacket EMessage (utf8 (wire_text (message_packet L nsp (ev, sent, got))))]"
    "map Frame (message_frames L nsp (ev, sent, got)) =
      [the (packet_form B (Websocket u) (epacket EMessage (utf8 (wire_text (message_packet L nsp (ev, sent, got))))))]"
proof -
  define p where "p = message_packet L nsp (ev, sent, got)"
  have p: "p = build_packet_for_payload (sl_json L) sent ev nsp None"
    by (simp add: p_def message_packet_def)
  note d = deliverable_packet [OF assms(1-3) p]
  have none: "s_attachments p = None"
    using assms(4) by (auto simp: p text_message_def build_packet_for_payload_def spacket_def split: sum.split)
  then show "send_items oc (message_packet L nsp (ev, sent, got)) =
      Ok [epacket EMessage (utf8 (wire_text (message_packet L nsp (ev, sent, got))))]"
    using d(1) [of oc] by (simp add: send_items_def spacket_to_bytes_def flip: p_def)
  have "epacket_to_bytes B (epacket EMessage (utf8 (wire_text p))) = utf8 (of_char CHR ''4'' # wire_text p)"
    by (simp add: epacket_to_bytes_def epacket_def epacket_id_to_string_def u8_to_string_def decimal_small)
  moreover have "from_utf8 (utf8 (of_char CHR ''4'' # wire_text p)) = Some (of_char CHR ''4'' # wire_text p)"
    using d(2) by (intro utf8_scalars) (simp add: scalar_def plain_text_def)
  ultimately show "map Frame (message_frames L nsp (ev, sent, got)) =
      [the (packet_form B (Websocket u) (epacket EMessage (utf8 (wire_text (message_packet L nsp (ev, sent, got))))))]"
    using none by (simp add: message_frames_def packet_frames_def packet_form_def Let_def flip: p_def
        del: utf8_ascii)
qed

lemma concat_single: "(\<And>x. x \<in> set xs \<Longrightarrow> f x = [g x]) \<Longrightarrow> concat (map f xs) = map g xs"
  by (induction xs) simp_all

text \<open>What the sends of text messages amount to, for every socket with this interface: a receiver of the
  frames calls the callbacks of all messages, those of each thread in its order.\<close>

context sender_socket
begin

lemma texts_in_order:
  assumes run: "runs (send_step (sl_oc L) emit opened) s ls s'" "list_all (\<lambda>(j, ev). fine ev) ls"
    and ends: "\<forall>i. sn_left s i = [] \<and> sn_todo s i = map (message_packet L nsp) (ms i)"
      "\<forall>i. sn_left s' i = [] \<and> sn_todo s' i = []"
    and ws: "transport (sn_socket s) = Websocket u"
    and texts: "\<forall>i. \<forall>(ev, sent, got) \<in> set (ms i). text_message (ev, sent, got) \<and> deliverable (sl_json L) ev sent got"
    and nsp: "plain_text nsp" "nsp_ok nsp" and script: "\<And>h. sl_script L h = []"
  shows "\<exists>order frames. (\<forall>i. of_thread i order = ms i) \<and>
    outbox (net (sn_socket s')) = outbox (net (sn_socket s)) @ map Frame frames \<and>
    (\<forall>r cb. receiving frames (rw_socket r) \<and> rw_nsp r = nsp \<and> listening cb (map snd order) r \<longrightarrow>
       (\<exists>ps r'. poll_times L (length order) r = (Ok ps, r') \<and>
          rw_calls r' = rw_calls r @ map (\<lambda>(ev, sent, got). CallOn (cb ev) got) (map snd order)))"
proof -
  let ?f = "\<lambda>m. epacket EMessage (utf8 (wire_text (message_packet L nsp m)))"
  have item: "items_of (sl_oc L) (message_packet L nsp m) = [?f m]"
    "map Frame (message_frames L nsp m) = [the (packet_form B (transport (sn_socket s)) (?f m))]" if "m \<in> set (ms i)" for m i
    using text_message_item(1) [OF _ nsp, where L = L] text_message_item(2) [OF _ nsp, where L = L and u = u]
      texts that ws by (cases m; force simp: items_of_def)+
  have "puts (of_thread i ls) = map ?f (ms i)" for i
  proof -
    have "concat (map (\<lambda>m. items_of (sl_oc L) (message_packet L nsp m)) (ms i)) = map ?f (ms i)"
      by (rule concat_single) (rule item(1))
    moreover have "started (of_thread i ls) = map (message_packet L nsp) (ms i)"
      "puts (of_thread i ls) = concat (map (items_of (sl_oc L)) (started (of_thread i ls)))"
      using sends_balance [OF run, of i] ends by simp_all
    ultimately show ?thesis by (simp add: comp_def)
  qed
  with puts_of_threads obtain qs where qs: "\<And>i. of_thread i qs = map ?f (ms i)"
    "map snd qs = puts (map snd ls)" by metis
  from unmerge [OF qs(1)] obtain order where order: "\<forall>i. of_thread i order = ms i"
    "map snd qs = map ?f (map snd order)" by blast
  let ?ms = "map snd order"
  have mem: "\<exists>i. m \<in> set (ms i)" if "m \<in> set ?ms" for m
    using of_thread_mem [OF that] order(1) by simp
  have "concat (map (\<lambda>m. map Frame (message_frames L nsp m)) ?ms) = map (\<lambda>m. the (packet_form B (transport (sn_socket s)) (?f m))) ?ms"
    by (rule concat_single) (use item(2) mem in blast)
  then have frames: "map Frame (concat (map (message_frames L nsp) ?ms)) =
      map (\<lambda>q. the (packet_form B (transport (sn_socket s)) q)) (map snd qs)"
    unfolding order(2) by (simp add: map_concat comp_def)
  have del: "\<forall>(ev, sent, got) \<in> set ?ms. deliverable (sl_json L) ev sent got"
  proof
    fix m assume "m \<in> set ?ms"
    with mem obtain i where "m \<in> set (ms i)" by blast
    with texts show "case m of (ev, sent, got) \<Rightarrow> deliverable (sl_json L) ev sent got" by (cases m) auto
  qed
  have recv: "\<exists>ps r'. poll_times L (length order) r = (Ok ps, r') \<and>
      rw_calls r' = rw_calls r @ map (\<lambda>(ev, sent, got). CallOn (cb ev) got) (map snd order)"
    if "receiving (concat (map (message_frames L nsp) ?ms)) (rw_socket r)" "rw_nsp r = nsp" "listening cb ?ms r" for r cb
    using receive_frames [OF del _ _ script that(3)] that(1,2) nsp by simp
  have "outbox (net (sn_socket s')) = outbox (net (sn_socket s)) @ map Frame (concat (map (message_frames L nsp) ?ms))"
    using sends_outbox [OF run] frames qs(2) by simp
  with order(1) recv show ?thesis by blast
qed

end

section \<open>Binary messages\<close>

text \<open>A binary message is two calls.\<close>

lemma binary_message:
  assumes "deliverable (sl_json L) ev (PBinary d) got" "plain_text nsp" "nsp_ok nsp"
    and "p = message_packet L nsp (ev, PBinary d, got)"
  shows "send_items oc p = Ok [epacket EMessage (utf8 (wire_text p)), epacket EMessageBinary d]"
    "list_all scalar (wire_text p)" "30 \<notin> set (wire_text p)" "wire_text p \<noteq> []"
    "decode_text (sl_json L) (wire_text p) = Inr (p\<lparr>s_attachments := None\<rparr>)" "s_nsp p = nsp"
    "d \<noteq> []" "separator \<notin> set d" "s_count p = 1" "s_type p = SBinaryEvent"
    "handle_binary_event L (p\<lparr>s_attachments := Some (x # xs)\<rparr>) = raw_callback L ev (PBinary x)"
proof -
  have p: "p = build_packet_for_payload (sl_json L) (PBinary d) ev nsp None"
    using assms(4) by (simp add: message_packet_def)
  note q = deliverable_packet [OF assms(1-3) p]
  show "send_items oc p = Ok [epacket EMessage (utf8 (wire_text p)), epacket EMessageBinary d]"
    using q(1) [of oc] by (simp add: send_items_def spacket_to_bytes_def)
      (simp add: p build_packet_for_payload_def spacket_def)
  show "list_all scalar (wire_text p)" "30 \<notin> set (wire_text p)" "wire_text p \<noteq> []"
    "decode_text (sl_json L) (wire_text p) = Inr (p\<lparr>s_attachments := None\<rparr>)" "s_nsp p = nsp"
    using q by (simp_all add: plain_text_def)
  show "d \<noteq> []" "separator \<notin> set d" "s_count p = 1" "s_type p = SBinaryEvent"
    "handle_binary_event L (p\<lparr>s_attachments := Some (x # xs)\<rparr>) = raw_callback L ev (PBinary x)"
    using assms(1) by (simp_all add: p build_packet_for_payload_def spacket_def deliverable_def Let_def
        handle_binary_event_def)
qed

text \<open>A receiver that gets the text of the other packet where it expects the attachment of the first.\<close>

lemma mixed_up_poll:
  assumes del: "deliverable (sl_json L) evA (PBinary dA) (PBinary dA)" "deliverable (sl_json L) evB (PBinary dB) (PBinary dB)"
    and nsp: "plain_text nsp" "nsp_ok nsp" and script: "\<And>h. sl_script L h = []"
    and pA: "pA = message_packet L nsp (evA, PBinary dA, PBinary dA)"
    and pB: "pB = message_packet L nsp (evB, PBinary dB, PBinary dB)"
    and r: "receiving [WsText (of_char CHR ''4'' # wire_text pA), WsText (of_char CHR ''4'' # wire_text pB),
        WsBinary dA, WsBinary dB] (rw_socket r)" "rw_nsp r = nsp" "map_of (rw_on r) evA = Some cb" "rw_on_any r = None"
  shows "\<exists>p r'. raw_poll L r = (Ok (Some p), r') \<and>
    rw_calls r' = rw_calls r @ [CallOn cb (PBinary (utf8 (wire_text pB)))]"
proof -
  note A = binary_message [OF del(1) nsp pA] and B = binary_message [OF del(2) nsp pB]
  let ?tA = "wire_text pA" and ?tB = "wire_text pB"
  let ?rest = "map Inr [epacket EMessage dA, epacket EMessage dB]"
  let ?p = "pA\<lparr>s_attachments := None, s_attachments := Some [utf8 ?tB]\<rparr>"
  have "backlog (sl_b64 L) (ss_engine (rw_socket r)) =
      map Inr (epacket EMessage (utf8 ?tA) # [epacket EMessage (utf8 ?tB)]) @ ?rest"
    using r(1) ws_items_message(1) [OF A(7,8)] ws_items_message(1) [OF B(7,8)]
      ws_items_message(2) [OF A(4,2,3)] ws_items_message(2) [OF B(4,2,3)]
    by (auto simp: receiving_def backlog_def net_items_def simp del: ws_items.simps)
  moreover have "es_connected (ss_engine (rw_socket r))" using r(1) by (simp add: receiving_def)
  moreover have "spacket_try_from (sl_json L) (e_data (epacket EMessage (utf8 ?tA))) = Inr (pA\<lparr>s_attachments := None\<rparr>)"
    using A(2,5) by (simp add: spacket_try_from_def utf8_scalars)
  ultimately obtain e where e: "ssocket_poll (sl_b64 L) (sl_url L) (sl_json L) (rw_socket r) =
      (Ok (Some ?p), ss_handle_packet (pA\<lparr>s_attachments := None\<rparr>) (rw_socket r\<lparr>ss_engine := e\<rparr>))"
    using ssocket_poll_assembles [where s = "rw_socket r" and B = "sl_b64 L" and U = "sl_url L" and J = "sl_json L"
        and qs = "[epacket EMessage (utf8 ?tB)]" and rest = ?rest and p = "epacket EMessage (utf8 ?tA)"
        and sp = "pA\<lparr>s_attachments := None\<rparr>"] A(9)
    by (auto simp: is_message_def)
  have p: "s_nsp ?p = rw_nsp r" "s_type ?p = SBinaryEvent" using A(6,10) r(2) by simp_all
  have calls: "expected_calls (r\<lparr>rw_socket := t\<rparr>) evA x = [CallOn cb x]" for t x
    using r(3,4)
    by (simp add: expected_calls_def own_call_def any_call_def split: sevent.splits)
  let ?r = "r\<lparr>rw_socket := ss_handle_packet (pA\<lparr>s_attachments := None\<rparr>) (rw_socket r\<lparr>ss_engine := e\<rparr>)\<rparr>"
  have "raw_handle_packet L ?p ?r = handle_binary_event L ?p ?r"
    using p A(11) [of "utf8 ?tB" "[]"] raw_callback_silent [OF script]
    by (simp add: raw_handle_packet_def report_def)
  also have "\<dots> = (Ok (), ?r\<lparr>rw_calls := rw_calls r @ [CallOn cb (PBinary (utf8 ?tB))]\<rparr>)"
    using A(11) [of "utf8 ?tB" "[]"] raw_callback_silent [OF script] calls by simp
  finally show ?thesis
    using raw_poll_step [OF e p(1)] by (auto simp: give_def)
qed

text \<open>Two threads that each send a binary message, for every socket with this interface.\<close>

context sender_socket
begin

lemma binaries_garbled:
  assumes del: "deliverable (sl_json L) evA (PBinary dA) (PBinary dA)" "deliverable (sl_json L) evB (PBinary dB) (PBinary dB)"
    and nsp: "plain_text nsp" "nsp_ok nsp" and script: "\<And>h. sl_script L h = []"
    and pA: "pA = message_packet L nsp (evA, PBinary dA, PBinary dA)"
    and pB: "pB = message_packet L nsp (evB, PBinary dB, PBinary dB)"
    and s: "takes 4 (sn_socket s)" "sn_left s = (\<lambda>_. [])" "sn_todo s = (\<lambda>_. [])(0 := [pA], 1 := [pB])"
  shows "\<exists>ls s' frames. runs (send_step (sl_oc L) emit opened) s ls s' \<and> list_all (\<lambda>(j, ev). fine ev) ls \<and>
    sn_left s' = (\<lambda>_. []) \<and> sn_todo s' = (\<lambda>_. []) \<and> wire (net (sn_socket s')) = wire (net (sn_socket s)) @ map WsSend frames \<and>
    (\<forall>r cb. receiving frames (rw_socket r) \<and> rw_nsp r = nsp \<and> map_of (rw_on r) evA = Some cb \<and> rw_on_any r = None \<longrightarrow>
       (\<exists>p r'. raw_poll L r = (Ok (Some p), r') \<and>
          rw_calls r' = rw_calls r @ [CallOn cb (PBinary (utf8 (wire_text pB)))]))"
proof -
  note A = binary_message [OF del(1) nsp pA] and B = binary_message [OF del(2) nsp pB]
  let ?tA = "wire_text pA" and ?tB = "wire_text pB"
  let ?frames = "[WsText (of_char CHR ''4'' # ?tA), WsText (of_char CHR ''4'' # ?tB), WsBinary dA, WsBinary dB]"
  let ?sched = "[(0, epacket EMessage (utf8 ?tA)), (1, epacket EMessage (utf8 ?tB)),
      (0, epacket EMessageBinary dA), (1, epacket EMessageBinary dB)]"
  have c: "send_items (sl_oc L) pA = Ok (of_thread 0 ?sched)" "send_items (sl_oc L) pB = Ok (of_thread 1 ?sched)"
    using A(1) B(1) by simp_all
  have d: "of_thread i ?sched = []" if "i > 1" for i using that by simp
  have f: "list_all2 (\<lambda>(i, q) m. item_frame q m) ?sched ?frames" "takes (length ?sched) (sn_socket s)"
    using A(2) B(2) s(1) by (auto simp: item_frame_def eval_nat_numeral)
  from two_threads_run [OF c d f s(2,3)] obtain ls s' where
    "runs (send_step (sl_oc L) emit opened) s ls s' \<and> list_all (\<lambda>(j, ev). fine ev) ls \<and>
      sn_left s' = (\<lambda>_. []) \<and> sn_todo s' = (\<lambda>_. []) \<and> wire (net (sn_socket s')) = wire (net (sn_socket s)) @ map WsSend ?frames"
    by blast
  with mixed_up_poll [OF del nsp script pA pB] show ?thesis
    by (intro exI [of _ ls] exI [of _ s'] exI [of _ ?frames]) simp
qed

end

section \<open>The blocking client\<close>

abbreviation thread_send :: "('u, 'j) slib \<Rightarrow> 'u ssocket senders \<Rightarrow> nat \<times> send_event \<Rightarrow> 'u ssocket senders \<Rightarrow> bool" where
  "thread_send L \<equiv> send_step (sl_oc L) (engine_emit (sl_b64 L) (sl_url L)) ss_open"

abbreviation net_of :: "'u ssocket senders \<Rightarrow> 'u net" where
  "net_of s \<equiv> es_net (ss_engine (sn_socket s))"

interpretation threads: sender_socket "engine_emit B U" ss_open "\<lambda>t. es_transport (ss_engine t)"
    "\<lambda>t. es_net (ss_engine t)" B ready
  for B :: base64 and U :: "'u urllib"
proof unfold_locales
  fix q and t t' :: "'u ssocket"
  assume "engine_emit B U q t = (Ok (), t')"
  then have emit: "esocket_emit B U q (ss_engine t) = (Ok (), ss_engine t')"
    by (simp add: engine_emit_def on_engine_Ok)
  then have "es_connected (ss_engine t)" by (auto simp: esocket_emit_def split: if_splits)
  from esocket_emit_sends [OF emit _ this] obtain new where
    "sends (packet_form B (es_transport (ss_engine t))) q (Ok ()) new"
    "client_machine B (ss_engine t') = machine True (backlog B (ss_engine t)) (outbox (es_net (ss_engine t)) @ new)"
    by auto
  then show "(\<exists>m. packet_form B (es_transport (ss_engine t)) q = Some m \<and>
      outbox (es_net (ss_engine t')) = outbox (es_net (ss_engine t)) @ [m]) \<and>
      es_transport (ss_engine t') = es_transport (ss_engine t)"
    using esocket_emit_fields(2) [of B U q "ss_engine t"] emit by (auto simp: client_machine_def elim: sends.cases)
next
  fix n and t :: "'u ssocket" assume "ready n t"
  then show "ss_open t" by (simp add: ready_def)
next
  fix n q m and t :: "'u ssocket" assume "ready (Suc n) t" "item_frame q m"
  then show "\<exists>t'. engine_emit B U q t = (Ok (), t') \<and> ready n t' \<and>
      wire (es_net (ss_engine t')) = wire (es_net (ss_engine t)) @ [WsSend m]"
    using emit_frame [of n t] unfolding item_frame_def engine_emit_def by metis
qed

text \<open>C31: threads that share a client and send text messages lose nothing: however their calls interleave,
  when all of them are through, a client that receives the frames calls the callbacks of all messages,
  each once with its payload, in an order in which the messages of each thread are in its order. The
  transport is a websocket and every call comes back without an error; the messages are \<open>deliverable\<close>, as
  \<open>End_To_End\<close> explains it (text that is not JSON arrives as a JSON string), callbacks make no calls, and the
  receiver has a callback for each event and none for any event.\<close>

theorem concurrent_texts_in_order:
  assumes "runs (thread_send L) s ls s'" "list_all (\<lambda>(j, ev). fine ev) ls"
    and "\<forall>i. sn_left s i = [] \<and> sn_todo s i = map (message_packet L nsp) (ms i)"
      "\<forall>i. sn_left s' i = [] \<and> sn_todo s' i = []"
    and "es_transport (ss_engine (sn_socket s)) = Websocket u"
    and "\<forall>i. \<forall>(ev, sent, got) \<in> set (ms i). text_message (ev, sent, got) \<and> deliverable (sl_json L) ev sent got"
    and "plain_text nsp" "nsp_ok nsp" and "\<And>h. sl_script L h = []"
  shows "\<exists>order frames. (\<forall>i. of_thread i order = ms i) \<and>
    outbox (net_of s') = outbox (net_of s) @ map Frame frames \<and>
    (\<forall>r cb. receiving frames (rw_socket r) \<and> rw_nsp r = nsp \<and> listening cb (map snd order) r \<longrightarrow>
       (\<exists>ps r'. poll_times L (length order) r = (Ok ps, r') \<and>
          rw_calls r' = rw_calls r @ map (\<lambda>(ev, sent, got). CallOn (cb ev) got) (map snd order)))"
  by (rule threads.texts_in_order [OF assms])

text \<open>C33: threads that share a client and send binary messages spoil them. There is an interleaving of two
  \<open>emit\<close> calls with binary payloads after which both return \<open>Ok\<close>, and a client that receives the frames
  calls the callback of the first event with the text of the second thread's packet in place of the
  payload.\<close>

theorem concurrent_binaries_garbled:
  assumes del: "deliverable (sl_json L) evA (PBinary dA) (PBinary dA)" "deliverable (sl_json L) evB (PBinary dB) (PBinary dB)"
    and nsp: "plain_text nsp" "nsp_ok nsp" and script: "\<And>h. sl_script L h = []"
    and pA: "pA = message_packet L nsp (evA, PBinary dA, PBinary dA)"
    and pB: "pB = message_packet L nsp (evB, PBinary dB, PBinary dB)"
    and s: "ready 4 (sn_socket s)" "sn_left s = (\<lambda>_. [])" "sn_todo s = (\<lambda>_. [])(0 := [pA], 1 := [pB])"
  shows "\<exists>ls s' frames. runs (thread_send L) s ls s' \<and> list_all (\<lambda>(j, ev). fine ev) ls \<and>
    sn_left s' = (\<lambda>_. []) \<and> sn_todo s' = (\<lambda>_. []) \<and> wire (net_of s') = wire (net_of s) @ map WsSend frames \<and>
    (\<forall>r cb. receiving frames (rw_socket r) \<and> rw_nsp r = nsp \<and> map_of (rw_on r) evA = Some cb \<and> rw_on_any r = None \<longrightarrow>
       (\<exists>p r'. raw_poll L r = (Ok (Some p), r') \<and>
          rw_calls r' = rw_calls r @ [CallOn cb (PBinary (utf8 (wire_text pB)))]))"
  by (rule threads.binaries_garbled [OF assms])

section \<open>Witnesses\<close>

definition demo_senders :: "spacket \<Rightarrow> spacket \<Rightarrow> nat ssocket senders" where
  "demo_senders pA pB =
     \<lparr>sn_socket = (demo_ssocket [])\<lparr>ss_engine := (demo_socket [])\<lparr>es_net :=
        (demo_net [])\<lparr>ws_send_in := replicate 4 (Inr ())\<rparr>\<rparr>\<rparr>,
      sn_todo = (\<lambda>_. [])(0 := [pA], 1 := [pB]), sn_left = (\<lambda>_. [])\<rparr>"

lemma demo_senders_fields [simp]:
  "sn_todo (demo_senders pA pB) = (\<lambda>_. [])(0 := [pA], 1 := [pB])" "sn_left (demo_senders pA pB) = (\<lambda>_. [])"
  "n \<le> 4 \<Longrightarrow> ready n (sn_socket (demo_senders pA pB))"
  "\<exists>u. es_transport (ss_engine (sn_socket (demo_senders pA pB))) = Websocket u"
proof -
  have "\<exists>rest. replicate 4 (Inr ()) = replicate n (Inr () :: rstring + unit) @ rest" if "n \<le> 4"
    using that by (intro exI [of _ "replicate (4 - n) (Inr ())"]) (simp flip: replicate_add)
  then show "n \<le> 4 \<Longrightarrow> ready n (sn_socket (demo_senders pA pB))"
    by (auto simp: ready_def demo_senders_def)
qed (simp_all add: demo_senders_def)

lemma demo_nsp: "plain_text (lit ''/'')" "nsp_ok (lit ''/'')" "sl_script (demo_slib (\<lambda>h. [])) h = []"
  "sl_json (demo_slib K) = flat_json"
  by (simp_all add: plain_text_def nsp_ok_def starts_with_def scalar_def demo_slib_def)

theorem concurrent_binaries_garbled_witness:
  "\<exists>pA ls s' frames. runs (send_step True (engine_emit nibble64 demo_urls) ss_open) (demo_senders pA pA) ls s' \<and>
     sn_left s' = (\<lambda>_. []) \<and> sn_todo s' = (\<lambda>_. []) \<and>
     (\<exists>p r'. raw_poll (demo_slib (\<lambda>h. [])) (demo_raw (map WsMsg frames) []) = (Ok (Some p), r') \<and>
        rw_calls r' = [CallOn 1 (PBinary (utf8 (wire_text pA)))])"
proof -
  let ?L = "demo_slib (\<lambda>h. [])"
  let ?p = "message_packet ?L (lit ''/'') (EvMessage, PBinary [3, 2], PBinary [3, 2])"
  have del: "deliverable (sl_json ?L) EvMessage (PBinary [3, 2]) (PBinary [3, 2])"
    using deliverable_binary by (simp add: demo_nsp)
  from concurrent_binaries_garbled [OF del del demo_nsp(1-3) refl refl, of "demo_senders ?p ?p"]
  obtain ls s' frames where run: "runs (thread_send ?L) (demo_senders ?p ?p) ls s'"
    "sn_left s' = (\<lambda>_. [])" "sn_todo s' = (\<lambda>_. [])"
    and recv: "\<forall>r cb. receiving frames (rw_socket r) \<and> rw_nsp r = lit ''/'' \<and> map_of (rw_on r) EvMessage = Some cb \<and>
        rw_on_any r = None \<longrightarrow> (\<exists>p r'. raw_poll ?L r = (Ok (Some p), r') \<and>
          rw_calls r' = rw_calls r @ [CallOn cb (PBinary (utf8 (wire_text ?p)))])"
    by auto
  let ?r = "demo_raw (map WsMsg frames) []"
  have "receiving frames (rw_socket ?r)" "rw_nsp ?r = lit ''/''" "map_of (rw_on ?r) EvMessage = Some 1" "rw_on_any ?r = None"
    by (simp_all add: receiving_def demo_net_def)
  with recv have "\<exists>p r'. raw_poll ?L ?r = (Ok (Some p), r') \<and>
      rw_calls r' = rw_calls ?r @ [CallOn 1 (PBinary (utf8 (wire_text ?p)))]" by blast
  moreover have "sl_oc ?L = True" "sl_b64 ?L = nibble64" "sl_url ?L = demo_urls" "rw_calls ?r = []"
    by (simp_all add: demo_slib_def)
  ultimately show ?thesis using run
    by (intro exI [of _ ?p] exI [of _ ls] exI [of _ s'] exI [of _ frames]) simp
qed

theorem concurrent_texts_in_order_witness:
  "\<exists>p ls s' order frames. runs (send_step True (engine_emit nibble64 demo_urls) ss_open) (demo_senders p p) ls s' \<and>
     of_thread 0 order = [(EvMessage, PString (lit ''7''), PString (lit ''7''))] \<and>
     of_thread 1 order = [(EvMessage, PString (lit ''7''), PString (lit ''7''))] \<and>
     outbox (net_of s') = map Frame frames"
proof -
  let ?L = "demo_slib (\<lambda>h. [])"
  let ?m = "(EvMessage, PString (lit ''7''), PString (lit ''7''))"
  let ?ms = "(\<lambda>_. [])(0 := [?m], 1 := [?m])"
  let ?p = "message_packet ?L (lit ''/'') ?m" and ?s = "demo_senders (message_packet ?L (lit ''/'') ?m) (message_packet ?L (lit ''/'') ?m)"
  let ?q = "epacket EMessage (utf8 (wire_text ?p))"
  have del: "deliverable (sl_json ?L) EvMessage (PString (lit ''7'')) (PString (lit ''7''))"
    using deliverable_text by (simp add: demo_nsp)
  have tm: "text_message ?m" by (simp add: text_message_def)
  have d: "plain_text (wire_text ?p)"
    by (rule deliverable_packet(2) [OF del demo_nsp(1,2)]) (simp add: message_packet_def)
  let ?sched = "[(1, ?q), (0, ?q)]" and ?f = "WsText (of_char CHR ''4'' # wire_text ?p)"
  have c: "send_items (sl_oc ?L) ?p = Ok (of_thread 0 ?sched)" "send_items (sl_oc ?L) ?p = Ok (of_thread 1 ?sched)"
    using text_message_item(1) [OF del demo_nsp(1,2) tm] by simp_all
  have e: "of_thread i ?sched = []" if "i > 1" for i using that by simp
  have f: "list_all2 (\<lambda>(i, q) m. item_frame q m) ?sched [?f, ?f]" "ready (length ?sched) (sn_socket ?s)"
    using d by (auto simp: item_frame_def plain_text_def)
  from threads.two_threads_run [OF c e f demo_senders_fields(2,1)] obtain ls s' where
    run: "runs (thread_send ?L) ?s ls s'" "list_all (\<lambda>(j, ev). fine ev) ls"
    and through: "sn_left s' = (\<lambda>_. [])" "sn_todo s' = (\<lambda>_. [])" by blast
  obtain u where u: "es_transport (ss_engine (sn_socket ?s)) = Websocket u"
    using demo_senders_fields(4) by blast
  have start: "\<forall>i. sn_left ?s i = [] \<and> sn_todo ?s i = map (message_packet ?L (lit ''/'')) (?ms i)"
    "\<forall>i. sn_left s' i = [] \<and> sn_todo s' i = []" using through by simp_all
  have texts: "\<forall>i. \<forall>(ev, sent, got) \<in> set (?ms i). text_message (ev, sent, got) \<and> deliverable (sl_json ?L) ev sent got"
    using del tm by simp
  from concurrent_texts_in_order [OF run start u texts demo_nsp(1-3)] obtain order frames where
    "\<forall>i. of_thread i order = ?ms i" "outbox (net_of s') = outbox (net_of ?s) @ map Frame frames" by blast
  moreover have "sl_oc ?L = True" "sl_b64 ?L = nibble64" "sl_url ?L = demo_urls" "outbox (net_of ?s) = []"
    by (simp_all add: demo_slib_def demo_senders_def outbox_def demo_net_def)
  ultimately show ?thesis using run(1)
    by (intro exI [of _ ?p] exI [of _ ls] exI [of _ s'] exI [of _ order] exI [of _ frames]) simp
qed

end
