(* ===== verification/Clients_Agree.thy ===== *)
theory Clients_Agree
  imports Sio_Async_Client
begin

text \<open>
  The blocking and the asynchronous client side by side. A view is what a state of either has in common
  with a state of the other; two operations correspond when from the same view they give the same
  outcome and the same view. The operations that send correspond, and so does the handling of packets
  with everything callbacks may do, apart from the three differences the last section names.
\<close>

section \<open>Views and correspondence\<close>

text \<open>What the network sees of a blocking and of an asynchronous socket.\<close>

definition engine_view :: "'u esocket \<Rightarrow> 'u transport \<times> 'u net \<times> bool" where
  "engine_view e = (es_transport e, es_net e, es_connected e)"

definition aengine_view :: "'u asocket \<Rightarrow> 'u transport \<times> 'u net \<times> bool" where
  "aengine_view e = (as_transport e, as_net e, as_connected e)"

definition socket_view :: "'u ssocket \<Rightarrow> ('u transport \<times> 'u net \<times> bool) \<times> bool" where
  "socket_view s = (engine_view (ss_engine s), ss_connected s)"

definition asocket_view :: "'u assocket \<Rightarrow> ('u transport \<times> 'u net \<times> bool) \<times> bool" where
  "asocket_view s = (aengine_view (sa_engine s), sa_connected s)"

text \<open>Two steps correspond when from the same view they give the same outcome and the same view.\<close>

definition corresponds :: "('s \<Rightarrow> 'v) \<Rightarrow> ('t \<Rightarrow> 'v) \<Rightarrow> ('s, 'e, 'a) proc \<Rightarrow> ('t, 'e, 'a) proc \<Rightarrow> bool" where
  "corresponds f g m n \<longleftrightarrow>
     (\<forall>s t. f s = g t \<longrightarrow> fst (m s) = fst (n t) \<and> f (snd (m s)) = g (snd (n t)))"

lemma corresponds_rule:
  "corresponds f g m n \<Longrightarrow> f s = g t \<Longrightarrow> fst (m s) = fst (n t) \<and> f (snd (m s)) = g (snd (n t))"
  by (simp add: corresponds_def)

lemma corresponds_seq:
  assumes "corresponds f g m n" "\<And>x. corresponds f g (k x) (l x)"
  shows "corresponds f g (seq m k) (seq n l)"
  unfolding corresponds_def
proof (intro allI impI)
  fix s t assume v: "f s = g t"
  obtain r s' where m: "m s = (r, s')" by fastforce
  obtain t' where n: "n t = (r, t')" and v': "f s' = g t'"
    using assms(1) v m by (metis corresponds_def fst_conv prod.collapse snd_conv)
  show "fst (seq m k s) = fst (seq n l t) \<and> f (snd (seq m k s)) = g (snd (seq n l t))"
    using m n v' assms(2) by (cases r) (auto simp: corresponds_def)
qed

lemma corresponds_give: "corresponds f g (give r) (give r)"
  by (simp add: corresponds_def give_def)

lemma emit_corresponds: "corresponds engine_view aengine_view (esocket_emit B U p) (asocket_emit B U p)"
proof -
  have [simp]: "engine_view (fire c x e) = engine_view e" "aengine_view (afire c x a) = aengine_view a" for c x and e :: "'a esocket" and a :: "'a asocket"
    by (simp_all add: engine_view_def aengine_view_def)
  show ?thesis
    unfolding corresponds_def
    by (auto simp: esocket_emit_def asocket_emit_def on_net_def on_anet_def Let_def engine_view_def aengine_view_def
        split: prod.split outcome.split)
qed

lemma connect_corresponds: "corresponds engine_view aengine_view (esocket_connect B U) (asocket_connect B U)"
  unfolding corresponds_def
proof (intro allI impI)
  fix s :: "'a esocket" and t :: "'a asocket" assume "engine_view s = aengine_view t"
  then have "engine_view (pinged (fire has_open OnOpen (s\<lparr>es_connected := True\<rparr>))) =
      aengine_view (apinged (afire has_open OnOpen (t\<lparr>as_connected := True\<rparr>)))"
    by (simp add: engine_view_def aengine_view_def apinged_def)
  then show "fst (esocket_connect B U s) = fst (asocket_connect B U t) \<and>
      engine_view (snd (esocket_connect B U s)) = aengine_view (snd (asocket_connect B U t))"
    using emit_corresponds unfolding esocket_connect_def asocket_connect_def corresponds_def by blast
qed

lemma on_engine_corresponds:
  assumes "corresponds engine_view aengine_view m n"
  shows "corresponds socket_view asocket_view (on_engine m) (on_aengine n)"
  using assms unfolding corresponds_def
  by (auto simp: socket_view_def asocket_view_def on_engine_def on_aengine_def split: prod.split) (metis fst_conv snd_conv)+

lemma attachments_correspond:
  "corresponds socket_view asocket_view (send_attachments B U as) (asend_attachments B U as)"
proof (induction as)
  case Nil
  show ?case by (simp only: send_attachments.simps asend_attachments.simps corresponds_give)
next
  case (Cons a as)
  then show ?case
    by (simp only: send_attachments.simps asend_attachments.simps)
      (intro corresponds_seq on_engine_corresponds emit_corresponds)
qed

lemma send_corresponds: "corresponds socket_view asocket_view (ssocket_send oc B U p) (assocket_send oc B U p)"
proof -
  have "corresponds socket_view asocket_view
      (seq (give (spacket_to_bytes oc p)) (\<lambda>bytes.
        seq (on_engine (esocket_emit B U (epacket EMessage bytes))) (\<lambda>_.
        case s_attachments p of Some as \<Rightarrow> send_attachments B U as | None \<Rightarrow> give (Ok ()))))
      (seq (give (spacket_to_bytes oc p)) (\<lambda>bytes.
        seq (on_aengine (asocket_emit B U (epacket EMessage bytes))) (\<lambda>_.
        case s_attachments p of Some as \<Rightarrow> asend_attachments B U as | None \<Rightarrow> give (Ok ()))))"
    by (intro corresponds_seq corresponds_give on_engine_corresponds emit_corresponds)
      (auto simp: attachments_correspond corresponds_give split: option.split)
  then show ?thesis
    unfolding corresponds_def
    by (auto simp: ssocket_send_def assocket_send_def is_engineio_connected_def is_aengine_connected_def
        socket_view_def asocket_view_def engine_view_def aengine_view_def)
qed

lemma sconnect_corresponds: "corresponds socket_view asocket_view (ssocket_connect B U) (assocket_connect B U)"
  unfolding ssocket_connect_def assocket_connect_def
  by (intro corresponds_seq on_engine_corresponds connect_corresponds)
    (auto simp: corresponds_def modify_def socket_view_def asocket_view_def)

definition raw_view :: "('u, 'j) raw \<Rightarrow> rstring \<times> 'j option \<times> ('u transport \<times> 'u net \<times> bool) \<times> bool" where
  "raw_view r = (rw_nsp r, rw_auth r, socket_view (rw_socket r))"

definition araw_view :: "('u, 'j) araw \<Rightarrow> rstring \<times> 'j option \<times> ('u transport \<times> 'u net \<times> bool) \<times> bool" where
  "araw_view a = (ra_nsp a, ra_auth a, asocket_view (ra_socket a))"

lemma on_socket_corresponds:
  assumes "corresponds socket_view asocket_view m n"
  shows "corresponds raw_view araw_view (on_socket m) (on_asocket n)"
  using assms unfolding corresponds_def
  by (auto simp: raw_view_def araw_view_def on_socket_def on_asocket_def split: prod.split) (metis fst_conv snd_conv)+

definition json_payload :: "('u, 'j) slib \<Rightarrow> spayload \<Rightarrow> bool" where
  "json_payload L payload \<longleftrightarrow> (case payload of PString t \<Rightarrow> \<not> isl (json_parse (sl_json L) t) | PBinary _ \<Rightarrow> True)"

lemma json_payload_packet:
  "json_payload L payload \<Longrightarrow>
     abuild_packet_for_payload (sl_json L) payload event nsp i =
       Inr (build_packet_for_payload (sl_json L) payload event nsp i)"
  by (auto simp: json_payload_def abuild_packet_for_payload_def build_packet_for_payload_def
      split: spayload.splits sum.splits)

section \<open>Views of a client\<close>

text \<open>A view of the whole client: it contains the namespace and the auth data, and what corresponds on the
  sockets corresponds on the clients. Then opening the connection and sending JSON or binary data do.\<close>

locale client_views =
  fixes f :: "('u, 'j) raw \<Rightarrow> 'v"
    and g :: "('u, 'j) araw \<Rightarrow> 'v"
  assumes same_name: "f r = g a \<Longrightarrow> rw_nsp r = ra_nsp a \<and> rw_auth r = ra_auth a"
    and on_sockets: "corresponds socket_view asocket_view (m :: ('u ssocket, serror, unit) proc) n \<Longrightarrow> corresponds f g (on_socket m) (on_asocket n)"
begin

lemma connects: "corresponds f g (raw_connect L) (araw_connect L)"
  unfolding corresponds_def
proof (intro allI impI)
  fix r a assume v: "f r = g a"
  define p where "p = spacket SConnect (ra_nsp a) (map_option (json_print (sl_json L)) (ra_auth a)) None 0 None"
  have "corresponds f g
      (seq (on_socket (ssocket_connect (sl_b64 L) (sl_url L))) (\<lambda>_. on_socket (ssocket_send (sl_oc L) (sl_b64 L) (sl_url L) p)))
      (seq (on_asocket (assocket_connect (sl_b64 L) (sl_url L))) (\<lambda>_. on_asocket (assocket_send (sl_oc L) (sl_b64 L) (sl_url L) p)))"
    by (intro corresponds_seq on_sockets sconnect_corresponds send_corresponds)
  from corresponds_rule [OF this v] same_name [OF v]
  show "fst (raw_connect L r) = fst (araw_connect L a) \<and> f (snd (raw_connect L r)) = g (snd (araw_connect L a))"
    by (simp add: raw_connect_def araw_connect_def p_def)
qed

lemma emits:
  assumes "json_payload L payload"
  shows "corresponds f g (raw_emit L event payload) (araw_emit L event payload)"
  unfolding corresponds_def
proof (intro allI impI)
  fix r a assume v: "f r = g a"
  define p where "p = build_packet_for_payload (sl_json L) payload event (ra_nsp a) None"
  note corresponds_rule [OF on_sockets [OF send_corresponds] v, of "sl_oc L" "sl_b64 L" "sl_url L" p]
  moreover have "raw_emit L event payload r = on_socket (ssocket_send (sl_oc L) (sl_b64 L) (sl_url L) p) r"
    using same_name [OF v] by (simp add: raw_emit_def ssocket_emit_def p_def)
  moreover have "araw_emit L event payload a = on_asocket (assocket_send (sl_oc L) (sl_b64 L) (sl_url L) p) a"
    by (simp add: araw_emit_def assocket_emit_def p_def json_payload_packet [OF assms] on_asocket_def)
  ultimately show "fst (raw_emit L event payload r) = fst (araw_emit L event payload a) \<and>
      f (snd (raw_emit L event payload r)) = g (snd (araw_emit L event payload a))" by simp
qed

end

interpretation raw_v: client_views raw_view araw_view
proof unfold_locales
  fix m :: "('a ssocket, serror, unit) proc" and n assume "corresponds socket_view asocket_view m n"
  then show "corresponds raw_view araw_view (on_socket m) (on_asocket n)" by (rule on_socket_corresponds)
qed (simp add: raw_view_def araw_view_def)

section \<open>The whole client\<close>

text \<open>The parts the two clients share: tables, acknowledgements and their lock, the history of calls, the
  readings of the clock and the random numbers to come.\<close>

type_synonym 'v shared =
  "'v \<times> (sevent \<times> nat) list \<times> nat option \<times> ack list \<times> bool \<times> call list \<times> (nat \<Rightarrow> nat) \<times> (nat \<Rightarrow> nat)"

definition client_view ::
  "('u, 'j) raw \<Rightarrow> (rstring \<times> 'j option \<times> ('u transport \<times> 'u net \<times> bool) \<times> bool) shared" where
  "client_view r = (raw_view r, rw_on r, rw_on_any r, rw_acks r, rw_acks_locked r, rw_calls r, rw_time r, rw_rand r)"

definition aclient_view ::
  "('u, 'j) araw \<Rightarrow> (rstring \<times> 'j option \<times> ('u transport \<times> 'u net \<times> bool) \<times> bool) shared" where
  "aclient_view a = (araw_view a, ra_on a, ra_on_any a, ra_acks a, ra_acks_locked a, ra_calls a, ra_time a, ra_rand a)"

lemmas view_defs = client_view_def aclient_view_def raw_view_def araw_view_def

lemma corresponds_ignore: "corresponds f g m n \<Longrightarrow> corresponds f g (ignore m) (ignore n)"
  unfolding corresponds_def ignore_def
  by (auto split: prod.split outcome.split) (metis fst_conv snd_conv outcome.simps)+

lemma on_socket_clients:
  assumes "corresponds socket_view asocket_view m n"
  shows "corresponds client_view aclient_view (on_socket m) (on_asocket n)"
  using assms unfolding corresponds_def
  by (auto simp: view_defs on_socket_def on_asocket_def split: prod.split) (metis fst_conv snd_conv)+

interpretation client_v: client_views client_view aclient_view
proof unfold_locales
  fix m :: "('a ssocket, serror, unit) proc" and n assume "corresponds socket_view asocket_view m n"
  then show "corresponds client_view aclient_view (on_socket m) (on_asocket n)" by (rule on_socket_clients)
qed (simp add: view_defs)

lemma emit_with_ack_clients:
  assumes "json_payload L payload"
  shows "corresponds client_view aclient_view (raw_emit_with_ack L event payload timeout cb)
    (araw_emit_with_ack L event payload timeout cb)"
proof -
  have "fst (raw_emit_with_ack L event payload timeout cb r) = fst (araw_emit_with_ack L event payload timeout cb a) \<and>
      client_view (snd (raw_emit_with_ack L event payload timeout cb r)) =
      aclient_view (snd (araw_emit_with_ack L event payload timeout cb a))"
    if v: "client_view r = aclient_view a" for r :: "('a, 'b) raw" and a :: "('a, 'b) araw"
  proof -
    define i :: i32 where "i = word_of_nat (ra_rand a 0 mod 999)"
    define p where "p = build_packet_for_payload (sl_json L) payload event (ra_nsp a) (Some i)"
    define k where "k = \<lparr>ack_id = i, ack_timeout = timeout, ack_started = ra_time a 0, ack_callback = cb\<rparr>"
    let ?r = "r\<lparr>rw_rand := \<lambda>n. ra_rand a (Suc n), rw_time := \<lambda>n. ra_time a (Suc n)\<rparr>"
    let ?a = "a\<lparr>ra_rand := \<lambda>n. ra_rand a (Suc n), ra_time := \<lambda>n. ra_time a (Suc n)\<rparr>"
    have eqs: "rw_nsp r = ra_nsp a" "rw_acks r = ra_acks a" "rw_acks_locked r = ra_acks_locked a"
      "rw_rand r = ra_rand a" "rw_time r = ra_time a"
      using v by (simp_all add: view_defs)
    have "raw_emit_with_ack L event payload timeout cb r = (if ra_acks_locked a then (Block, ?r)
        else on_socket (ssocket_send (sl_oc L) (sl_b64 L) (sl_url L) p) (?r\<lparr>rw_acks := ra_acks a @ [k]\<rparr>))"
      by (simp add: raw_emit_with_ack_def draw_id_def read_clock_def Let_def eqs p_def k_def i_def)
    moreover have "araw_emit_with_ack L event payload timeout cb a = (if ra_acks_locked a then (Block, ?a)
        else on_asocket (assocket_send (sl_oc L) (sl_b64 L) (sl_url L) p) (?a\<lparr>ra_acks := ra_acks a @ [k]\<rparr>))"
      by (simp add: araw_emit_with_ack_def adraw_id_def aread_clock_def Let_def p_def k_def i_def
          json_payload_packet [OF assms])
    moreover have "client_view ?r = aclient_view ?a"
      and v2: "client_view (?r\<lparr>rw_acks := ra_acks a @ [k]\<rparr>) = aclient_view (?a\<lparr>ra_acks := ra_acks a @ [k]\<rparr>)"
      using v by (simp_all add: view_defs)
    ultimately show ?thesis
      using corresponds_rule [OF on_socket_clients [OF send_corresponds] v2] by auto
  qed
  then show ?thesis by (simp add: corresponds_def)
qed

section \<open>Callbacks\<close>

text \<open>The calls of a callback on which the clients agree: all but \<open>disconnect\<close>, with payloads that are
  binary or JSON.\<close>

fun agreed :: "('u, 'j) slib \<Rightarrow> action \<Rightarrow> bool" where
  "agreed L (AEmit event payload) = json_payload L payload"
| "agreed L (AEmitWithAck event payload timeout cb) = json_payload L payload"
| "agreed L ADisconnect = False"

lemma action_clients:
  "agreed L a \<Longrightarrow> corresponds client_view aclient_view (run_action L close a) (arun_action L a)"
  by (cases a) (simp_all add: corresponds_ignore client_v.emits emit_with_ack_clients)

lemma actions_clients:
  "list_all (agreed L) as \<Longrightarrow> corresponds client_view aclient_view (run_actions L close as) (arun_actions L as)"
  by (induction as) (simp_all add: corresponds_give corresponds_seq action_clients)

lemma call_clients:
  assumes "\<And>h. list_all (agreed L) (sl_script L h)"
  shows "corresponds client_view aclient_view (run_call L close c) (arun_call L c)"
  unfolding corresponds_def
proof (intro allI impI)
  fix r :: "('a, 'b) raw" and a :: "('a, 'b) araw" assume v: "client_view r = aclient_view a"
  then have "client_view (r\<lparr>rw_calls := rw_calls r @ [c]\<rparr>) = aclient_view (a\<lparr>ra_calls := ra_calls a @ [c]\<rparr>)"
    and calls: "rw_calls r = ra_calls a"
    by (simp_all add: view_defs)
  from corresponds_rule [OF actions_clients [OF assms] this(1)]
  show "fst (run_call L close c r) = fst (arun_call L c a) \<and>
      client_view (snd (run_call L close c r)) = aclient_view (snd (arun_call L c a))"
    by (simp add: run_call_def arun_call_def calls)
qed

lemma call_option_clients:
  "(\<And>h. list_all (agreed L) (sl_script L h)) \<Longrightarrow>
     corresponds client_view aclient_view (run_call_option L close c) (arun_call_option L c)"
  by (cases c) (simp_all add: run_call_option_def arun_call_option_def corresponds_give call_clients)

lemma callback_clients:
  assumes "\<And>h. list_all (agreed L) (sl_script L h)"
  shows "corresponds client_view aclient_view (raw_callback L event payload) (araw_callback L event payload)"
  unfolding corresponds_def
proof (intro allI impI)
  fix r :: "('a, 'b) raw" and a :: "('a, 'b) araw" assume v: "client_view r = aclient_view a"
  then have tables: "rw_on r = ra_on a" "rw_on_any r = ra_on_any a" by (simp_all add: view_defs)
  have "corresponds client_view aclient_view
      (seq (run_call_option L relock c) (\<lambda>_. run_call_option L relock d))
      (seq (arun_call_option L c) (\<lambda>_. arun_call_option L d))" for c d
    by (intro corresponds_seq call_option_clients assms)
  from corresponds_rule [OF this v]
  show "fst (raw_callback L event payload r) = fst (araw_callback L event payload a) \<and>
      client_view (snd (raw_callback L event payload r)) = aclient_view (snd (araw_callback L event payload a))"
    by (simp add: raw_callback_def araw_callback_def tables)
qed

section \<open>Acknowledgements\<close>

lemma call_ack_clients:
  assumes "\<And>h. list_all (agreed L) (sl_script L h)"
  shows "corresponds client_view aclient_view (call_ack L p k) (acall_ack L p k)"
  unfolding corresponds_def
proof (intro allI impI)
  fix r :: "('a, 'b) raw" and a :: "('a, 'b) araw" assume v: "client_view r = aclient_view a"
  let ?r = "r\<lparr>rw_time := \<lambda>n. rw_time r (Suc n)\<rparr>" and ?a = "a\<lparr>ra_time := \<lambda>n. ra_time a (Suc n)\<rparr>"
  have v': "client_view ?r = aclient_view ?a" and time: "rw_time r = ra_time a"
    using v by (simp_all add: view_defs)
  have "corresponds client_view aclient_view
      (seq (run_call_option L close c) (\<lambda>_. run_call_option L close d))
      (seq (arun_call_option L c) (\<lambda>_. arun_call_option L d))" for close c d
    by (intro corresponds_seq call_option_clients assms)
  from corresponds_rule [OF this v'] v'
  show "fst (call_ack L p k r) = fst (acall_ack L p k a) \<and>
      client_view (snd (call_ack L p k r)) = aclient_view (snd (acall_ack L p k a))"
    by (simp add: call_ack_def acall_ack_def read_clock_def aread_clock_def Let_def time)
qed

lemma ack_loop_clients:
  assumes "\<And>h. list_all (agreed L) (sl_script L h)"
  shows "corresponds client_view aclient_view (ack_loop L p i index acks out) (aack_loop L p i index acks out)"
proof (induction acks arbitrary: index out)
  case Nil
  show ?case by (simp only: ack_loop.simps aack_loop.simps corresponds_give)
next
  case (Cons k acks)
  then show ?case
    by (simp add: corresponds_seq call_ack_clients assms)
qed

lemma handle_ack_clients:
  assumes "\<And>h. list_all (agreed L) (sl_script L h)"
  shows "corresponds client_view aclient_view (handle_ack L p) (ahandle_ack L p)"
proof (cases "s_id p")
  case None
  then show ?thesis by (simp add: corresponds_def handle_ack_def ahandle_ack_def)
next
  case (Some i)
  show ?thesis
    unfolding corresponds_def
  proof (intro allI impI)
    fix r :: "('a, 'b) raw" and a :: "('a, 'b) araw" assume v: "client_view r = aclient_view a"
    then have v': "client_view (r\<lparr>rw_acks_locked := True\<rparr>) = aclient_view (a\<lparr>ra_acks_locked := True\<rparr>)"
      and eqs: "rw_acks_locked r = ra_acks_locked a" "rw_acks r = ra_acks a"
      by (simp_all add: view_defs)
    let ?m = "\<lambda>js s1. let s2 = s1\<lparr>rw_acks_locked := False\<rparr> in
        case remove_indices js (rw_acks s2) of None \<Rightarrow> (Panic, s2) | Some acks \<Rightarrow> (Ok (), s2\<lparr>rw_acks := acks\<rparr>)"
    let ?n = "\<lambda>js s1. let s2 = s1\<lparr>ra_acks_locked := False\<rparr> in
        case remove_indices js (ra_acks s2) of None \<Rightarrow> (Panic, s2) | Some acks \<Rightarrow> (Ok (), s2\<lparr>ra_acks := acks\<rparr>)"
    have "corresponds client_view aclient_view (?m js) (?n js)" for js
      by (auto simp: corresponds_def view_defs Let_def split: option.split)
    then have "corresponds client_view aclient_view (seq (ack_loop L p i 0 (ra_acks a) []) ?m)
        (seq (aack_loop L p i 0 (ra_acks a) []) ?n)"
      by (intro corresponds_seq ack_loop_clients assms)
    from corresponds_rule [OF this v'] v
    show "fst (handle_ack L p r) = fst (ahandle_ack L p a) \<and>
        client_view (snd (handle_ack L p r)) = aclient_view (snd (ahandle_ack L p a))"
      by (simp add: handle_ack_def ahandle_ack_def Some eqs)
  qed
qed

section \<open>Packets\<close>

text \<open>An event whose array is empty: the blocking client panics on it, the asynchronous one reports it.\<close>

definition empty_event :: "('u, 'j) slib \<Rightarrow> spacket \<Rightarrow> bool" where
  "empty_event L p \<longleftrightarrow> s_type p = SEvent \<and>
     (case s_data p of None \<Rightarrow> False
      | Some d \<Rightarrow> (case json_parse (sl_json L) d of Inl _ \<Rightarrow> False
         | Inr v \<Rightarrow> json_as_array (sl_json L) v = Some []))"

lemma handle_event_clients:
  assumes "\<And>h. list_all (agreed L) (sl_script L h)" "\<not> empty_event L p" "s_type p = SEvent"
  shows "corresponds client_view aclient_view (handle_event L p) (ahandle_event L p)"
  using assms(2,3) callback_clients [OF assms(1)]
  by (auto simp: handle_event_def ahandle_event_def empty_event_def corresponds_give Let_def
      split: option.split sum.split list.split)

lemma report_clients:
  assumes "\<And>h. list_all (agreed L) (sl_script L h)" "corresponds client_view aclient_view m n"
  shows "corresponds client_view aclient_view (report L b m) (areport L b n)"
  unfolding corresponds_def
proof (intro allI impI)
  fix r :: "('a, 'b) raw" and a :: "('a, 'b) araw" assume v: "client_view r = aclient_view a"
  obtain x r' where m: "m r = (x, r')" by fastforce
  then obtain a' where "n a = (x, a')" "client_view r' = aclient_view a'"
    using corresponds_rule [OF assms(2) v] by (cases "n a") auto
  note x = m this
  have "corresponds client_view aclient_view (seq (raw_callback L EvError q) (\<lambda>_. give y)) (seq (araw_callback L EvError q) (\<lambda>_. give y))"
    for q and y :: "(serror, unit) outcome"
    by (intro corresponds_seq corresponds_give callback_clients assms(1))
  from corresponds_rule [OF this x(3)] x show "fst (report L b m r) = fst (areport L b n a) \<and>
      client_view (snd (report L b m r)) = aclient_view (snd (areport L b n a))"
    by (cases x) (simp_all add: report_def areport_def)
qed

lemma handle_packet_clients:
  assumes "\<And>h. list_all (agreed L) (sl_script L h)" "\<not> empty_event L p"
  shows "corresponds client_view aclient_view (raw_handle_packet L p) (araw_handle_packet L p)"
  unfolding corresponds_def
proof (intro allI impI)
  fix r :: "('a, 'b) raw" and a :: "('a, 'b) araw" assume v: "client_view r = aclient_view a"
  have rule: "fst (m r) = fst (n a) \<and> client_view (snd (m r)) = aclient_view (snd (n a))"
    if "corresponds client_view aclient_view m n" for m :: "('a, 'b, unit) raw_proc" and n
    using corresponds_rule [OF that v] .
  have nsp: "rw_nsp r = ra_nsp a" using v by (simp add: view_defs)
  have bin: "corresponds client_view aclient_view (handle_binary_event L p) (ahandle_binary_event L p)"
    by (auto simp: handle_binary_event_def ahandle_binary_event_def corresponds_give Let_def
        intro: callback_clients assms(1) split: option.split list.split)
  show "fst (raw_handle_packet L p r) = fst (araw_handle_packet L p a) \<and>
      client_view (snd (raw_handle_packet L p r)) = aclient_view (snd (araw_handle_packet L p a))"
    using v rule [OF report_clients [OF assms(1) handle_ack_clients [OF assms(1)]]]
      rule [OF report_clients [OF assms(1) bin]] rule [OF callback_clients [OF assms(1)]]
      rule [OF report_clients [OF assms(1) handle_event_clients [OF assms]]]
    by (cases "s_type p") (simp_all add: raw_handle_packet_def araw_handle_packet_def nsp)
qed

section \<open>Histories\<close>

text \<open>A history of a client: what its user calls, and the packets its socket hands it.\<close>

datatype client_op =
    OpConnect
  | OpEmit sevent spayload
  | OpEmitWithAck sevent spayload nat nat
  | OpPacket spacket

fun blocking_op :: "('u, 'j) slib \<Rightarrow> client_op \<Rightarrow> ('u, 'j, unit) raw_proc" where
  "blocking_op L OpConnect = raw_connect L"
| "blocking_op L (OpEmit event payload) = raw_emit L event payload"
| "blocking_op L (OpEmitWithAck event payload timeout cb) = raw_emit_with_ack L event payload timeout cb"
| "blocking_op L (OpPacket p) = raw_handle_packet L p"

fun async_op :: "('u, 'j) slib \<Rightarrow> client_op \<Rightarrow> ('u, 'j, unit) araw_proc" where
  "async_op L OpConnect = araw_connect L"
| "async_op L (OpEmit event payload) = araw_emit L event payload"
| "async_op L (OpEmitWithAck event payload timeout cb) = araw_emit_with_ack L event payload timeout cb"
| "async_op L (OpPacket p) = araw_handle_packet L p"

fun agreed_op :: "('u, 'j) slib \<Rightarrow> client_op \<Rightarrow> bool" where
  "agreed_op L OpConnect = True"
| "agreed_op L (OpEmit event payload) = json_payload L payload"
| "agreed_op L (OpEmitWithAck event payload timeout cb) = json_payload L payload"
| "agreed_op L (OpPacket p) = (\<not> empty_event L p)"

lemma op_clients:
  "(\<And>h. list_all (agreed L) (sl_script L h)) \<Longrightarrow> agreed_op L op \<Longrightarrow>
     corresponds client_view aclient_view (blocking_op L op) (async_op L op)"
  by (cases op) (simp_all add: client_v.connects client_v.emits emit_with_ack_clients handle_packet_clients)

lemma corresponds_run_all:
  assumes "\<And>x. x \<in> set xs \<Longrightarrow> corresponds f g (m x) (n x)" "f s = g t"
  shows "fst (run_all m xs s) = fst (run_all n xs t) \<and> f (snd (run_all m xs s)) = g (snd (run_all n xs t))"
  using assms
proof (induction xs arbitrary: s t)
  case (Cons x xs)
  from corresponds_rule [OF Cons.prems(1) Cons.prems(2), of x] Cons.IH Cons.prems(1)
  show ?case by (simp split: prod.split) (metis fst_conv snd_conv)
qed simp

end
