(* ===== verification/Async_End_To_End.thy ===== *)
theory Async_End_To_End
  imports Clients_Agree End_To_End
begin

text \<open>
  Messages of an asynchronous client, received by a blocking or an asynchronous one. The sending half is
  that of the blocking client, to which the asynchronous one corresponds; the receiving half is the
  stream of the socket and the dispatch of its items.
\<close>

section \<open>Sequences of operations\<close>

fun aemit_all :: "('u, 'j) slib \<Rightarrow> (sevent \<times> spayload) list \<Rightarrow> ('u, 'j, unit) araw_proc" where
  "aemit_all L [] = give (Ok ())"
| "aemit_all L ((event, payload) # ms) = seq (araw_emit L event payload) (\<lambda>_. aemit_all L ms)"

fun next_times :: "('u, 'j) slib \<Rightarrow> nat \<Rightarrow> ('u, 'j, (serror + spacket) option list) araw_proc" where
  "next_times L 0 = give (Ok [])"
| "next_times L (Suc n) = seq (as_stream_next L) (\<lambda>p. seq (next_times L n) (\<lambda>ps. give (Ok (p # ps))))"

section \<open>Sending\<close>

definition aready :: "nat \<Rightarrow> 'u assocket \<Rightarrow> bool" where
  "aready n s \<longleftrightarrow> sa_open s \<and> (\<exists>u. as_transport (sa_engine s) = Websocket u) \<and>
     (\<exists>rest. ws_send_in (as_net (sa_engine s)) = replicate n (Inr ()) @ rest)"

lemma emit_all_clients:
  "\<forall>(ev, payload) \<in> set ms. json_payload L payload \<Longrightarrow> corresponds raw_view araw_view (emit_all L ms) (aemit_all L ms)"
proof (induction ms)
  case Nil
  show ?case by (simp only: emit_all.simps aemit_all.simps corresponds_give)
next
  case (Cons m ms)
  obtain ev payload where m: "m = (ev, payload)" by (cases m)
  from Cons show ?case
    unfolding m emit_all.simps aemit_all.simps by (intro corresponds_seq raw_v.emits) simp_all
qed

text \<open>Every asynchronous client looks to the network like some blocking client.\<close>

lemma blocking_twin: "\<exists>r :: ('u, 'j) raw. raw_view r = araw_view a"
proof -
  define e where "e = (esocket_new (as_transport (sa_engine (ra_socket a))) (as_net (sa_engine (ra_socket a)))
    (as_handshake (sa_engine (ra_socket a))) (as_callbacks (sa_engine (ra_socket a))))
    \<lparr>es_connected := as_connected (sa_engine (ra_socket a))\<rparr>"
  define r where "r = raw_new \<lparr>ss_engine = e, ss_connected = sa_connected (ra_socket a)\<rparr> (ra_nsp a) [] None (ra_auth a)
    (\<lambda>n. 0) (\<lambda>n. 0)"
  have "raw_view r = araw_view a"
    by (simp add: r_def e_def raw_new_def raw_view_def araw_view_def socket_view_def asocket_view_def
        engine_view_def aengine_view_def esocket_new_def)
  then show ?thesis by blast
qed

lemma aemit_all_frames:
  assumes "\<forall>(ev, sent, got) \<in> set ms. deliverable (sl_json L) ev sent got \<and> json_payload L sent"
    and "plain_text (ra_nsp s)" "nsp_ok (ra_nsp s)"
    and "aready (length (concat (map (message_frames L (ra_nsp s)) ms))) (ra_socket s)"
  shows "\<exists>s'. aemit_all L (map (\<lambda>(ev, sent, got). (ev, sent)) ms) s = (Ok (), s') \<and>
    wire (as_net (sa_engine (ra_socket s'))) = wire (as_net (sa_engine (ra_socket s))) @
      map WsSend (concat (map (message_frames L (ra_nsp s)) ms))"
proof -
  obtain r where v: "raw_view r = araw_view s" using blocking_twin by blast
  then have nsp: "rw_nsp r = ra_nsp s" and w: "es_net (ss_engine (rw_socket r)) = as_net (sa_engine (ra_socket s))"
    and "ready (length (concat (map (message_frames L (ra_nsp s)) ms))) (rw_socket r)"
    using assms(4)
    by (auto simp: raw_view_def araw_view_def socket_view_def asocket_view_def engine_view_def aengine_view_def
        ready_def aready_def)
  moreover have "\<forall>(ev, sent, got) \<in> set ms. deliverable (sl_json L) ev sent got" using assms(1) by auto
  ultimately obtain r' where r': "emit_all L (map (\<lambda>(ev, sent, got). (ev, sent)) ms) r = (Ok (), r')"
    "wire (es_net (ss_engine (rw_socket r'))) = wire (as_net (sa_engine (ra_socket s))) @
      map WsSend (concat (map (message_frames L (ra_nsp s)) ms))"
    using emit_all_frames [of ms L r] assms(2,3) by auto
  have "corresponds raw_view araw_view (emit_all L (map (\<lambda>(ev, sent, got). (ev, sent)) ms))
      (aemit_all L (map (\<lambda>(ev, sent, got). (ev, sent)) ms))"
    using assms(1) by (intro emit_all_clients) auto
  from corresponds_rule [OF this v] r' obtain s' where
    "aemit_all L (map (\<lambda>(ev, sent, got). (ev, sent)) ms) s = (Ok (), s')" "raw_view r' = araw_view s'"
    by (cases "aemit_all L (map (\<lambda>(ev, sent, got). (ev, sent)) ms) s") auto
  with r'(2) show ?thesis
    by (auto simp: raw_view_def araw_view_def socket_view_def asocket_view_def engine_view_def aengine_view_def)
qed

section \<open>Receiving\<close>

definition areceiving :: "ws_message list \<Rightarrow> 'u assocket \<Rightarrow> bool" where
  "areceiving frames s \<longleftrightarrow> \<not> sa_done s \<and> \<not> ac_done (sa_engine s) \<and> \<not> as_done (sa_engine s) \<and>
     as_packets (sa_engine s) = [] \<and> (\<exists>u. as_transport (sa_engine s) = Websocket u) \<and>
     ws_in (as_net (sa_engine s)) = map WsMsg frames"

definition alistening :: "(sevent \<Rightarrow> nat) \<Rightarrow> message list \<Rightarrow> ('u, 'j) araw \<Rightarrow> bool" where
  "alistening cb ms a \<longleftrightarrow> (\<forall>(ev, sent, got) \<in> set ms. map_of (ra_on a) ev = Some (cb ev)) \<and> ra_on_any a = None"

lemma adeliverable_callback:
  fixes a :: "('u, 'j) araw" and t :: "'u assocket"
  assumes "deliverable (sl_json L) ev sent got" "p = build_packet_for_payload (sl_json L) sent ev (ra_nsp a) None"
    and "map_of (ra_on a) ev = Some cb" "ra_on_any a = None" "\<And>h. sl_script L h = []"
  shows "araw_handle_packet L p a = (Ok (), a\<lparr>ra_calls := ra_calls a @ [CallOn cb got]\<rparr>)"
    "ahandle_socketio_packet p t = t"
proof -
  have "acalls a ev got = [CallOn cb got]"
    using assms(3,4) by (simp add: acalls_def own_call_def any_call_def split: sevent.splits)
  note silent = araw_callback_silent [OF assms(5), of ev got a, unfolded this]
  have nsp: "s_nsp p = ra_nsp a"
    using assms(2) by (simp add: build_packet_for_payload_def spacket_def split: spayload.split sum.split)
  from assms(1,2) show "araw_handle_packet L p a = (Ok (), a\<lparr>ra_calls := ra_calls a @ [CallOn cb got]\<rparr>)"
  proof (cases rule: deliverable_event)
    case (array d v n x)
    with silent show ?thesis by (simp add: araw_handle_packet_def nsp areport_def ahandle_event_def)
  next
    case (attached e d)
    with silent show ?thesis by (simp add: araw_handle_packet_def nsp areport_def ahandle_binary_event_def)
  qed
  show "ahandle_socketio_packet p t = t"
    using assms(2)
    by (simp add: build_packet_for_payload_def ahandle_socketio_packet_def spacket_def split: spayload.split)
qed

lemma assocket_next_items:
  assumes "plain_text (wire_text p)" "decode_text J (wire_text p) = Inr (p\<lparr>s_attachments := None\<rparr>)" "carried p"
    and "\<not> sa_done s" "\<not> ac_done (sa_engine s)"
    and "abacklog B (sa_engine s) = map (Some \<circ> Inr) (frame_items p) @ rest"
  shows "\<exists>e'. assocket_next B U J s = (Ok (Some p), ahandle_socketio_packet p (s\<lparr>sa_engine := e'\<rparr>)) \<and>
    \<not> ac_done e' \<and> abacklog B e' = rest"
proof -
  obtain q qs where q: "frame_items p = q # qs" "list_all (\<lambda>q. is_message (e_id q)) (q # qs)"
    "spacket_try_from J (e_data q) = Inr (p\<lparr>s_attachments := None\<rparr>)"
    "unat (s_count (p\<lparr>s_attachments := None\<rparr>)) = length qs"
    and p: "(if qs = [] then p\<lparr>s_attachments := None\<rparr> else p\<lparr>s_attachments := None, s_attachments := Some (map e_data qs)\<rparr>) = p"
    by (rule frame_items_packet [OF assms(1-3)])
  have h: "ahandle_socketio_packet (p\<lparr>s_attachments := None\<rparr>) t = ahandle_socketio_packet p t" for t
    by (simp add: ahandle_socketio_packet_def)
  from assocket_next_assembles [OF assms(4,5) assms(6) [unfolded q(1)] q(2-4), of U, unfolded p h]
  show ?thesis by blast
qed

lemma next_times_calls:
  assumes "\<forall>(ev, sent, got) \<in> set ms. deliverable (sl_json L) ev sent got"
    and "plain_text (ra_nsp a)" "nsp_ok (ra_nsp a)" "\<And>h. sl_script L h = []" "alistening cb ms a"
    and "\<not> sa_done (ra_socket a)" "\<not> ac_done (sa_engine (ra_socket a))"
    and "abacklog (sl_b64 L) (sa_engine (ra_socket a)) =
      map (Some \<circ> Inr) (concat (map (\<lambda>m. frame_items (message_packet L (ra_nsp a) m)) ms)) @ rest"
  shows "\<exists>a'. next_times L (length ms) a = (Ok (map (\<lambda>m. Some (Inr (message_packet L (ra_nsp a) m))) ms), a') \<and>
    ra_calls a' = ra_calls a @ map (\<lambda>(ev, sent, got). CallOn (cb ev) got) ms"
  using assms(1-3,5-8)
proof (induction ms arbitrary: a)
  case (Cons m ms)
  obtain ev sent got where m: "m = (ev, sent, got)" by (cases m)
  let ?p = "message_packet L (ra_nsp a) m"
  have p: "?p = build_packet_for_payload (sl_json L) sent ev (ra_nsp a) None"
    by (simp add: message_packet_def m)
  have del: "deliverable (sl_json L) ev sent got" using Cons.prems(1) m by simp
  note d = deliverable_packet [OF del Cons.prems(2,3) p]
  have "abacklog (sl_b64 L) (sa_engine (ra_socket a)) = map (Some \<circ> Inr) (frame_items ?p) @
      (map (Some \<circ> Inr) (concat (map (\<lambda>m. frame_items (message_packet L (ra_nsp a) m)) ms)) @ rest)"
    using Cons.prems(7) by simp
  from assocket_next_items [OF d(2,4,5) Cons.prems(5,6) this, of "sl_url L"] obtain e where
    e: "assocket_next (sl_b64 L) (sl_url L) (sl_json L) (ra_socket a) =
        (Ok (Some ?p), ahandle_socketio_packet ?p (ra_socket a\<lparr>sa_engine := e\<rparr>))"
      "\<not> ac_done e"
      "abacklog (sl_b64 L) e = map (Some \<circ> Inr) (concat (map (\<lambda>m. frame_items (message_packet L (ra_nsp a) m)) ms)) @ rest"
    by blast
  let ?a1 = "a\<lparr>ra_socket := ra_socket a\<lparr>sa_engine := e\<rparr>\<rparr>"
  have tab: "map_of (ra_on ?a1) ev = Some (cb ev)" "ra_on_any ?a1 = None"
    using Cons.prems(4) by (simp_all add: alistening_def m)
  have p1: "?p = build_packet_for_payload (sl_json L) sent ev (ra_nsp ?a1) None" using p by simp
  note c = adeliverable_callback [OF del p1 tab assms(4)]
  let ?a2 = "?a1\<lparr>ra_calls := ra_calls a @ [CallOn (cb ev) got]\<rparr>"
  have "as_stream_next L a = (Ok (Some (Inr ?p)), ?a2)"
    using e(1) c by (simp add: as_stream_next_def on_asocket_def)
  moreover have "alistening cb ms ?a2" using Cons.prems(4) by (simp add: alistening_def)
  ultimately show ?case
    using Cons.IH [of ?a2] Cons.prems(1-3,5) e(2,3) by (auto simp: m)
qed (simp add: give_def)

lemma areceive_frames:
  assumes "\<forall>(ev, sent, got) \<in> set ms. deliverable (sl_json L) ev sent got"
    and "plain_text (ra_nsp a)" "nsp_ok (ra_nsp a)" "\<And>h. sl_script L h = []" "alistening cb ms a"
    and "areceiving (concat (map (message_frames L (ra_nsp a)) ms)) (ra_socket a)"
  shows "\<exists>ps a'. next_times L (length ms) a = (Ok ps, a') \<and>
    ra_calls a' = ra_calls a @ map (\<lambda>(ev, sent, got). CallOn (cb ev) got) ms"
proof -
  let ?frames = "concat (map (message_frames L (ra_nsp a)) ms)"
  have agree: "concat (map (aws_items B) (map WsMsg fs)) = map Some (concat (map (ws_items B) (map WsMsg fs)))"
    if "\<forall>f \<in> set fs. agreeable (WsMsg f)" for fs B
    using that by (induction fs) (simp_all add: aws_items_agree)
  have "\<forall>f \<in> set ?frames. agreeable (WsMsg f)"
    by (auto simp: message_frames_def packet_frames_def)
  from agree [OF this, of "sl_b64 L"] assms(6) messages_items [OF assms(1-3), of "sl_b64 L"]
  have "abacklog (sl_b64 L) (sa_engine (ra_socket a)) =
      map (Some \<circ> Inr) (concat (map (\<lambda>m. frame_items (message_packet L (ra_nsp a) m)) ms)) @ []"
    by (auto simp: areceiving_def abacklog_def anet_items_def simp flip: map_map)
  with next_times_calls [OF assms(1-5)] assms(6) show ?thesis unfolding areceiving_def by metis
qed

text \<open>C37: deliverable messages of an asynchronous client arrive in order. It emits a sequence of deliverable
  events with JSON and binary payloads over an open websocket that takes all frames; a client of the same
  namespace that receives exactly the frames that were sent, asynchronous or blocking, calls for each
  message the callback of its event, once, with its payload, and in the order of the \<open>emit\<close> calls. An event is \<open>deliverable\<close> if its name is read back as the
  same event and written in JSON without escapes; text is then sent as it is if it is JSON, else between
  quotes, and must be printed by the JSON library as it was sent, with its event name, and free of the
  separator 0x1e of payloads; binary data must not be empty or hold a byte 0x1e (a frame with one is cut:
  \<open>binary_frame_delivery\<close>).
  Text that is not JSON is no \<open>json_payload\<close>: this client refuses to send it. The receiver has a callback for
  each of the events, and none for any event (\<open>on_any\<close>), callbacks make no calls of the client, and the
  namespace starts with a slash and holds no comma.\<close>

theorem async_messages_in_order:
  assumes "\<forall>(ev, sent, got) \<in> set ms. deliverable (sl_json L) ev sent got \<and> json_payload L sent"
    and "plain_text (ra_nsp s)" "nsp_ok (ra_nsp s)" "\<And>h. sl_script L h = []"
    and "aready (length (concat (map (message_frames L (ra_nsp s)) ms))) (ra_socket s)"
  shows "\<exists>frames s'. aemit_all L (map (\<lambda>(ev, sent, got). (ev, sent)) ms) s = (Ok (), s') \<and>
    wire (as_net (sa_engine (ra_socket s'))) = wire (as_net (sa_engine (ra_socket s))) @ map WsSend frames \<and>
    (\<forall>a cb. areceiving frames (ra_socket a) \<and> ra_nsp a = ra_nsp s \<and> alistening cb ms a \<longrightarrow>
       (\<exists>ps a'. next_times L (length ms) a = (Ok ps, a') \<and>
          ra_calls a' = ra_calls a @ map (\<lambda>(ev, sent, got). CallOn (cb ev) got) ms)) \<and>
    (\<forall>r cb. receiving frames (rw_socket r) \<and> rw_nsp r = ra_nsp s \<and> listening cb ms r \<longrightarrow>
       (\<exists>ps r'. poll_times L (length ms) r = (Ok ps, r') \<and>
          rw_calls r' = rw_calls r @ map (\<lambda>(ev, sent, got). CallOn (cb ev) got) ms))"
proof -
  let ?frames = "concat (map (message_frames L (ra_nsp s)) ms)"
  have del: "\<forall>(ev, sent, got) \<in> set ms. deliverable (sl_json L) ev sent got" using assms(1) by auto
  have "\<exists>ps a'. next_times L (length ms) a = (Ok ps, a') \<and>
      ra_calls a' = ra_calls a @ map (\<lambda>(ev, sent, got). CallOn (cb ev) got) ms"
    if "areceiving ?frames (ra_socket a)" "ra_nsp a = ra_nsp s" "alistening cb ms a" for a cb
    using areceive_frames [OF del _ _ assms(4) that(3)] assms(2,3) that(1,2) by simp
  moreover have "\<exists>ps r'. poll_times L (length ms) r = (Ok ps, r') \<and>
      rw_calls r' = rw_calls r @ map (\<lambda>(ev, sent, got). CallOn (cb ev) got) ms"
    if "receiving ?frames (rw_socket r)" "rw_nsp r = ra_nsp s" "listening cb ms r" for r cb
    using receive_frames [OF del _ _ assms(4) that(3)] assms(2,3) that(1,2) by simp
  ultimately show ?thesis using aemit_all_frames [OF assms(1-3,5)] by blast
qed

section \<open>Witness\<close>

theorem async_messages_in_order_witness:
  "\<exists>frames s'. aemit_all (demo_slib (\<lambda>h. [])) [(EvMessage, PString (lit ''7'')), (EvMessage, PBinary [3, 2])]
       ((demo_araw [])\<lparr>ra_socket := (demo_assocket [])\<lparr>sa_engine := (demo_asocket [])\<lparr>as_net :=
          (demo_net [])\<lparr>ws_send_in := replicate 3 (Inr ())\<rparr>\<rparr>\<rparr>\<rparr>) = (Ok (), s') \<and>
     (\<exists>ps a'. next_times (demo_slib (\<lambda>h. [])) 2 (demo_araw (map WsMsg frames)) = (Ok ps, a') \<and>
        ra_calls a' = [CallOn 1 (PString (lit ''7'')), CallOn 1 (PBinary [3, 2])])"
proof -
  let ?L = "demo_slib (\<lambda>h. [])"
  let ?ms = "[(EvMessage, PString (lit ''7''), PString (lit ''7'')), (EvMessage, PBinary [3, 2], PBinary [3, 2])]"
  let ?s = "(demo_araw [])\<lparr>ra_socket := (demo_assocket [])\<lparr>sa_engine := (demo_asocket [])\<lparr>as_net :=
          (demo_net [])\<lparr>ws_send_in := replicate 3 (Inr ())\<rparr>\<rparr>\<rparr>\<rparr>"
  have J: "sl_json ?L = flat_json" by (simp add: demo_slib_def)
  have one: "\<forall>(ev, sent, got) \<in> set ?ms. deliverable (sl_json ?L) ev sent got \<and> json_payload ?L sent"
    using deliverable_text deliverable_binary by (simp add: J json_payload_def) (simp add: flat_json_def)
  have two: "plain_text (ra_nsp ?s)" "nsp_ok (ra_nsp ?s)" "\<And>h. sl_script ?L h = []"
    by (simp_all add: plain_text_def nsp_ok_def starts_with_def scalar_def)
  have "length (concat (map (message_frames ?L (ra_nsp ?s)) ?ms)) = 3"
    by (simp add: message_frames_def packet_frames_def message_packet_def build_packet_for_payload_def spacket_def
        split: sum.split)
  moreover have "aready 3 (ra_socket ?s)"
    by (auto simp: aready_def demo_assocket_def)
  ultimately have three: "aready (length (concat (map (message_frames ?L (ra_nsp ?s)) ?ms))) (ra_socket ?s)" by simp
  from async_messages_in_order [OF one two three] obtain frames s' where
    s': "aemit_all ?L (map (\<lambda>(ev, sent, got). (ev, sent)) ?ms) ?s = (Ok (), s')"
    and recv: "\<forall>a cb. areceiving frames (ra_socket a) \<and> ra_nsp a = ra_nsp ?s \<and> alistening cb ?ms a \<longrightarrow>
       (\<exists>ps a'. next_times ?L (length ?ms) a = (Ok ps, a') \<and>
          ra_calls a' = ra_calls a @ map (\<lambda>(ev, sent, got). CallOn (cb ev) got) ?ms)"
    by blast
  let ?a = "demo_araw (map WsMsg frames)"
  have "areceiving frames (ra_socket ?a)" "ra_nsp ?a = ra_nsp ?s" "alistening (\<lambda>ev. 1) ?ms ?a"
    by (simp_all add: areceiving_def demo_assocket_def demo_asocket_def asocket_new_def demo_net_def alistening_def)
  with recv have "\<exists>ps a'. next_times ?L (length ?ms) ?a = (Ok ps, a') \<and>
      ra_calls a' = ra_calls ?a @ map (\<lambda>(ev, sent, got). CallOn 1 got) ?ms" by blast
  then have "\<exists>ps a'. next_times ?L 2 ?a = (Ok ps, a') \<and>
      ra_calls a' = [CallOn 1 (PString (lit ''7'')), CallOn 1 (PBinary [3, 2])]"
    by (simp add: numeral_2_eq_2 del: next_times.simps)
  with s' show ?thesis by auto
qed

end
