(* ===== verification/Shared_Streams.thy ===== *)
theory Shared_Streams
  imports Engine_Async_Runs Sio_Async_Socket
begin

text \<open>
  Tasks that share one stream. The sockets and clients of the asynchronous stack hand out clones of a
  \<open>StreamGenerator\<close> (\<open>asynchronous/generator.rs\<close> of both crates), a stream behind a \<open>tokio\<close> mutex. Its
  \<open>poll_next\<close> tries the lock and then polls the stream, so a poll is cut in two steps here, between which
  other tasks can run. What \<open>tokio\<close> documents is used as follows: a lock future that is dropped gives up
  its place in the queue, and a stream that has no item wakes the task that polled it last. A task that
  got \<open>Pending\<close> polls again when it has been woken.
\<close>

section \<open>The generator\<close>

text \<open>The stream, the task that holds its lock, the task the stream will wake, and the tasks that were
  told \<open>Pending\<close> and not woken since.\<close>

record 's shared =
  sh_stream :: 's
  sh_lock :: "nat option"
  sh_waker :: "nat option"
  sh_asleep :: "nat set"

definition generator_new :: "'s \<Rightarrow> 's shared" where
  "generator_new s = \<lparr>sh_stream = s, sh_lock = None, sh_waker = None, sh_asleep = {}\<rparr>"

text \<open>\<open>ready!(Box::pin(self.inner.lock()).poll_unpin(cx))\<close>: with the lock taken by another task the new
  future is dropped at once, and with it the waker it had queued.\<close>

definition poll_lock :: "nat \<Rightarrow> 's shared \<Rightarrow> bool \<times> 's shared" where
  "poll_lock i s =
     (case sh_lock s of
        None \<Rightarrow> (True, s\<lparr>sh_lock := Some i\<rparr>)
      | Some _ \<Rightarrow> (False, s\<lparr>sh_asleep := insert i (sh_asleep s)\<rparr>))"

text \<open>\<open>lock.poll_next_unpin(cx)\<close> and the release of the lock. \<open>arrived\<close> says whether what the stream waits
  for is there; the result is \<open>None\<close> for \<open>Pending\<close>.\<close>

definition poll_inner ::
  "('s, 'e, 'a) proc \<Rightarrow> bool \<Rightarrow> nat \<Rightarrow> 's shared \<Rightarrow> ('e, 'a) outcome option \<times> 's shared" where
  "poll_inner stream arrived i s =
     (let pending = (None, s\<lparr>sh_lock := None, sh_waker := Some i, sh_asleep := insert i (sh_asleep s)\<rparr>)
      in if arrived then
           case stream (sh_stream s) of
             (Block, _) \<Rightarrow> pending
           | (r, t) \<Rightarrow> (Some r, s\<lparr>sh_stream := t, sh_lock := None\<rparr>)
         else pending)"

text \<open>The generators the code has.\<close>

definition asocket_poll_next ::
  "base64 \<Rightarrow> 'u urllib \<Rightarrow> bool \<Rightarrow> nat \<Rightarrow> 'u asocket shared \<Rightarrow>
     (eerror, epacket option) outcome option \<times> 'u asocket shared" where
  "asocket_poll_next B U = poll_inner (asocket_next B U)"

definition aclient_poll_next ::
  "base64 \<Rightarrow> 'u urllib \<Rightarrow> bool \<Rightarrow> nat \<Rightarrow> 'u asocket shared \<Rightarrow>
     (eerror, epacket option) outcome option \<times> 'u asocket shared" where
  "aclient_poll_next B U = poll_inner (aclient_next B U)"

definition assocket_poll_next ::
  "base64 \<Rightarrow> 'u urllib \<Rightarrow> ('j, 'z) jsonlib_scheme \<Rightarrow> bool \<Rightarrow> nat \<Rightarrow> 'u assocket shared \<Rightarrow>
     (serror, spacket option) outcome option \<times> 'u assocket shared" where
  "assocket_poll_next B U J = poll_inner (assocket_next B U J)"

section \<open>Tasks\<close>

datatype ('r, 'l) task_event =
    Entered nat
  | Missed nat
  | Got nat 'r
  | Waited nat
  | Woken
  | Called 'l

text \<open>A step is one of the two parts of a poll, a wake-up, or a call that does not go through the lock.\<close>

inductive task_step ::
  "(bool \<Rightarrow> nat \<Rightarrow> 's shared \<Rightarrow> 'r option \<times> 's shared) \<Rightarrow> ('s \<Rightarrow> 'l \<Rightarrow> 's \<Rightarrow> bool) \<Rightarrow>
     's shared \<Rightarrow> ('r, 'l) task_event \<Rightarrow> 's shared \<Rightarrow> bool" for poll call where
  enter: "i \<notin> sh_asleep s \<Longrightarrow> poll_lock i s = (True, s') \<Longrightarrow> task_step poll call s (Entered i) s'"
| miss: "i \<notin> sh_asleep s \<Longrightarrow> sh_lock s \<noteq> Some i \<Longrightarrow> poll_lock i s = (False, s') \<Longrightarrow>
    task_step poll call s (Missed i) s'"
| got: "sh_lock s = Some i \<Longrightarrow> poll True i s = (Some r, s') \<Longrightarrow> task_step poll call s (Got i r) s'"
| wait: "sh_lock s = Some i \<Longrightarrow> poll arrived i s = (None, s') \<Longrightarrow> task_step poll call s (Waited i) s'"
| wake: "sh_waker s = Some i \<Longrightarrow>
    task_step poll call s Woken (s\<lparr>sh_waker := None, sh_asleep := sh_asleep s - {i}\<rparr>)"
| call: "call (sh_stream s) l t \<Longrightarrow> task_step poll call s (Called l) (s\<lparr>sh_stream := t\<rparr>)"

inductive_cases task_stepE: "task_step poll call s ev s'"

fun task_of :: "('r, 'l) task_event \<Rightarrow> nat option" where
  "task_of (Entered i) = Some i"
| "task_of (Missed i) = Some i"
| "task_of (Got i r) = Some i"
| "task_of (Waited i) = Some i"
| "task_of Woken = None"
| "task_of (Called l) = None"

fun gots :: "('r, 'l) task_event list \<Rightarrow> (nat \<times> 'r) list" where
  "gots [] = []"
| "gots (Got i r # evs) = (i, r) # gots evs"
| "gots (_ # evs) = gots evs"

lemma poll_lock_simps [simp]:
  "poll_lock i s = (True, s') \<longleftrightarrow> sh_lock s = None \<and> s' = s\<lparr>sh_lock := Some i\<rparr>"
  "poll_lock i s = (False, s') \<longleftrightarrow> sh_lock s \<noteq> None \<and> s' = s\<lparr>sh_asleep := insert i (sh_asleep s)\<rparr>"
  by (auto simp: poll_lock_def split: option.split)

lemma poll_inner_simps [simp]:
  "poll_inner stream arrived i s = (Some r, s') \<longleftrightarrow>
     arrived \<and> r \<noteq> Block \<and> (\<exists>t. stream (sh_stream s) = (r, t) \<and> s' = s\<lparr>sh_stream := t, sh_lock := None\<rparr>)"
  "poll_inner stream arrived i s = (None, s') \<longleftrightarrow>
     (arrived \<longrightarrow> fst (stream (sh_stream s)) = Block) \<and>
     s' = s\<lparr>sh_lock := None, sh_waker := Some i, sh_asleep := insert i (sh_asleep s)\<rparr>"
  by (auto simp: poll_inner_def Let_def split: prod.split outcome.split)

lemmas generators = asocket_poll_next_def aclient_poll_next_def assocket_poll_next_def

section \<open>The contract of a shared stream\<close>

text \<open>The calls of one owner, seen as the steps of a history: what the tasks do together is such a
  history, whatever their steps are.\<close>

fun history :: "('r \<Rightarrow> 'l) \<Rightarrow> ('r, 'l) task_event list \<Rightarrow> 'l list" where
  "history lab [] = []"
| "history lab (Got i r # evs) = lab r # history lab evs"
| "history lab (Called l # evs) = l # history lab evs"
| "history lab (_ # evs) = history lab evs"

locale owned_stream =
  fixes stream :: "('s, 'e, 'a) proc"
    and lab :: "('e, 'a) outcome \<Rightarrow> 'l"
    and call owner :: "'s \<Rightarrow> 'l \<Rightarrow> 's \<Rightarrow> bool"
  assumes stream_owner: "stream s = (r, t) \<Longrightarrow> r \<noteq> Block \<Longrightarrow> owner s (lab r) t"
    and call_owner: "call s l t \<Longrightarrow> owner s l t"
begin

lemma tasks_as_owner:
  "runs (task_step (poll_inner stream) call) s evs s' \<Longrightarrow>
     runs owner (sh_stream s) (history lab evs) (sh_stream s')"
proof (induction rule: runs.induct)
  case (runs_cons s ev t evs u)
  from runs_cons.hyps(1) runs_cons.IH show ?case
    by (cases rule: task_step.cases) (auto intro: runs.runs_cons stream_owner call_owner)
qed simp

end

text \<open>The engine.io client: its other calls take no lock of the generator.\<close>

definition other_call :: "base64 \<Rightarrow> 'u urllib \<Rightarrow> 'u asocket \<Rightarrow> async_call \<Rightarrow> 'u asocket \<Rightarrow> bool" where
  "other_call B U s l t \<longleftrightarrow> async_step B U s l t \<and> (\<forall>r. l \<noteq> Next r)"

interpretation shared_client: owned_stream "aclient_next B U" Next "other_call B U" "async_step B U"
  for B :: base64 and U :: "'u urllib"
  by unfold_locales (auto simp: other_call_def intro: call_next)

lemma nexts_history:
  assumes "runs (task_step poll (other_call B U)) s evs s'"
  shows "nexts (history Next evs) = map snd (gots evs)"
  using assms
proof (induction rule: runs.induct)
  case (runs_cons s ev t evs u)
  from runs_cons.hyps(1) runs_cons.IH show ?case
    by (cases rule: task_step.cases) (auto simp: other_call_def elim!: async_step.cases)
qed simp

section \<open>Who is woken\<close>

text \<open>The task that is to be woken sleeps, the one that holds the lock does not.\<close>

definition tasks_ok :: "'s shared \<Rightarrow> bool" where
  "tasks_ok s \<longleftrightarrow> (\<forall>i. sh_waker s = Some i \<longrightarrow> i \<in> sh_asleep s) \<and> (\<forall>i. sh_lock s = Some i \<longrightarrow> i \<notin> sh_asleep s)"

lemma tasks_ok_new [simp]: "tasks_ok (generator_new s)"
  by (simp add: tasks_ok_def generator_new_def)

lemma tasks_ok_step: "task_step (poll_inner stream) call s ev s' \<Longrightarrow> tasks_ok s \<Longrightarrow> tasks_ok s'"
  by (erule task_stepE) (auto simp: tasks_ok_def)

lemma tasks_ok_runs: "runs (task_step (poll_inner stream) call) s evs s' \<Longrightarrow> tasks_ok s \<Longrightarrow> tasks_ok s'"
  using runs_invariant [where I = tasks_ok] tasks_ok_step by metis

text \<open>A task that sleeps and that nobody will wake.\<close>

definition lost :: "nat \<Rightarrow> 's shared \<Rightarrow> bool" where
  "lost i s \<longleftrightarrow> i \<in> sh_asleep s \<and> sh_waker s \<noteq> Some i \<and> sh_lock s \<noteq> Some i"

lemma lost_step:
  "task_step (poll_inner stream) call s ev s' \<Longrightarrow> lost i s \<Longrightarrow> lost i s' \<and> task_of ev \<noteq> Some i"
  by (erule task_stepE) (auto simp: lost_def)

lemma lost_runs:
  "runs (task_step (poll_inner stream) call) s evs s' \<Longrightarrow> lost i s \<Longrightarrow>
     lost i s' \<and> (\<forall>ev \<in> set evs. task_of ev \<noteq> Some i)"
  by (induction rule: runs.induct) (auto dest: lost_step)

lemma missed_lost:
  "task_step (poll_inner stream) call s (Missed i) s' \<Longrightarrow> tasks_ok s \<Longrightarrow> lost i s'"
  by (erule task_stepE) (auto simp: lost_def tasks_ok_def)

text \<open>A task that waits for the stream goes on sleeping as long as the stream wakes nobody.\<close>

lemma waiting_step:
  "task_step (poll_inner stream) call s ev s' \<Longrightarrow> i \<in> sh_asleep s \<Longrightarrow> sh_lock s \<noteq> Some i \<Longrightarrow> ev \<noteq> Woken \<Longrightarrow>
     i \<in> sh_asleep s' \<and> sh_lock s' \<noteq> Some i"
  by (erule task_stepE) auto

lemma waiting_runs:
  "runs (task_step (poll_inner stream) call) s evs s' \<Longrightarrow> i \<in> sh_asleep s \<Longrightarrow> sh_lock s \<noteq> Some i \<Longrightarrow>
     Woken \<notin> set evs \<Longrightarrow> i \<in> sh_asleep s' \<and> sh_lock s' \<noteq> Some i"
  by (induction rule: runs.induct) (auto dest: waiting_step)

lemma overtaken_lost:
  "task_step (poll_inner stream) call s (Waited j) s' \<Longrightarrow> i \<in> sh_asleep s \<Longrightarrow> sh_lock s \<noteq> Some i \<Longrightarrow> lost i s'"
  by (erule task_stepE) (auto simp: lost_def)

lemma waited_asleep:
  "task_step (poll_inner stream) call s (Waited i) s' \<Longrightarrow> i \<in> sh_asleep s' \<and> sh_lock s' \<noteq> Some i"
  by (erule task_stepE) auto

text \<open>A task alone.\<close>

definition alone :: "nat \<Rightarrow> 's shared \<Rightarrow> bool" where
  "alone i s \<longleftrightarrow> (\<forall>j. sh_lock s = Some j \<longrightarrow> j = i) \<and> sh_asleep s \<subseteq> {i} \<and> (i \<in> sh_asleep s \<longrightarrow> sh_waker s = Some i)"

lemma alone_step:
  "task_step (poll_inner stream) call s ev s' \<Longrightarrow> alone i s \<Longrightarrow> tasks_ok s \<Longrightarrow> task_of ev \<in> {None, Some i} \<Longrightarrow>
     alone i s' \<and> ev \<noteq> Missed i"
  by (erule task_stepE) (auto simp: alone_def tasks_ok_def)

lemma alone_runs:
  "runs (task_step (poll_inner stream) call) s evs s' \<Longrightarrow> alone i s \<Longrightarrow> tasks_ok s \<Longrightarrow>
     \<forall>ev \<in> set evs. task_of ev \<in> {None, Some i} \<Longrightarrow> alone i s' \<and> Missed i \<notin> set evs"
  by (induction rule: runs.induct) (auto dest: alone_step tasks_ok_step)

section \<open>A history of two tasks\<close>

text \<open>Task 1 takes the lock, task 0 finds it taken, task 1 gets a message and then the close packet.\<close>

definition demo_tasks :: "((eerror, epacket option) outcome, async_call) task_event list" where
  "demo_tasks =
     [Entered 1, Missed 0, Got 1 (Ok (Some (epacket EMessage [7]))), Entered 1,
      Got 1 (Ok (Some (epacket EClose [])))]"

lemma demo_tasks_runs:
  obtains s' where
    "runs (task_step (aclient_poll_next nibble64 demo_urls) (other_call nibble64 demo_urls))
       (generator_new (demo_asocket demo_message_frames)) demo_tasks s'"
proof -
  let ?s = "demo_asocket demo_message_frames" and ?m = "epacket EMessage [7]" and ?close = "epacket EClose []"
  have s: "\<not> ac_done ?s" "abacklog nibble64 ?s = Some (Inr ?m) # [Some (Inr ?close)]"
    by (simp_all add: demo_message_abacklog)
  obtain s1 where one: "async_step nibble64 demo_urls ?s (Next (Ok (Some ?m))) s1" and s1: "\<not> ac_done s1"
    "abacklog nibble64 s1 = Some (Inr ?close) # []"
    by (rule next_step [OF s, where U = demo_urls]) simp_all
  obtain s2 where two: "async_step nibble64 demo_urls s1 (Next (Ok (Some ?close))) s2"
    by (rule next_step [OF s1, where U = demo_urls]) simp_all
  from one two have nx: "aclient_next nibble64 demo_urls ?s = (Ok (Some ?m), s1)"
    "aclient_next nibble64 demo_urls s1 = (Ok (Some ?close), s2)" by (auto elim: async_step.cases)
  let ?g = "generator_new ?s" and ?step = "task_step (poll_inner (aclient_next nibble64 demo_urls)) (other_call nibble64 demo_urls)"
  have "?step ?g (Entered 1) (?g\<lparr>sh_lock := Some 1\<rparr>)" (is "task_step _ _ _ _ ?g1")
    by (rule enter) (simp_all add: generator_new_def)
  moreover have "?step ?g1 (Missed 0) (?g1\<lparr>sh_asleep := {0}\<rparr>)" (is "task_step _ _ _ _ ?g2")
    by (rule miss) (simp_all add: generator_new_def)
  moreover have "?step ?g2 (Got 1 (Ok (Some ?m))) (?g2\<lparr>sh_stream := s1, sh_lock := None\<rparr>)" (is "task_step _ _ _ _ ?g3")
    by (rule got) (simp_all add: generator_new_def nx)
  moreover have "?step ?g3 (Entered 1) (?g3\<lparr>sh_lock := Some 1\<rparr>)" (is "task_step _ _ _ _ ?g4")
    by (rule enter) (simp_all add: generator_new_def)
  moreover have "?step ?g4 (Got 1 (Ok (Some ?close))) (?g4\<lparr>sh_stream := s2, sh_lock := None\<rparr>)" (is "task_step _ _ _ _ ?g5")
    by (rule got) (simp_all add: nx)
  ultimately have "runs ?step ?g demo_tasks ?g5"
    unfolding demo_tasks_def by (blast intro: runs.intros)
  then show thesis by (intro that [of ?g5]) (simp add: generators)
qed

section \<open>Properties\<close>

text \<open>C20: several tasks that read from clones of one asynchronous client divide its stream among them. However
  their polls interleave with each other and with the other calls, what they got all together, in the
  order in which they got it, is packets, then at most one error, then only \<open>None\<close>; the packets are the
  first of the items that were to come, none lost and none given to two tasks.\<close>

theorem shared_stream_in_order:
  assumes "runs (task_step (aclient_poll_next B U) (other_call B U)) (generator_new s) evs s'" "\<not> ac_done s"
  shows "\<exists>ps err n rest. map snd (gots evs) = stream_results ps err n \<and>
    abacklog B s = map (Some \<circ> Inr) ps @ rest \<and>
    (\<not> ac_done (sh_stream s') \<longrightarrow> abacklog B (sh_stream s') = rest \<and> err = None \<and> n = 0)"
proof -
  note run = assms(1) [unfolded generators]
  have "runs (async_step B U) s (history Next evs) (sh_stream s')"
    using shared_client.tasks_as_owner [OF run] by (simp add: generator_new_def)
  note sim = async_sim.runs_spec [OF this refl]
  have "\<not> st_ended (async_machine B s)" using assms(2) by (simp add: async_machine_def)
  from machine_nexts [OF sim this] show ?thesis
    unfolding nexts_history [OF run] by (force simp: async_machine_def)
qed

theorem shared_stream_in_order_witness:
  "\<exists>ps err n rest. [Ok (Some (epacket EMessage [7])), Ok (Some (epacket EClose []))] = stream_results ps err n \<and>
     [Some (Inr (epacket EMessage [7])), Some (Inr (epacket EClose []))] =
       map (Some \<circ> (Inr :: epacket \<Rightarrow> eerror + epacket)) ps @ rest"
proof (rule demo_tasks_runs)
  fix s' assume run: "runs (task_step (aclient_poll_next nibble64 demo_urls) (other_call nibble64 demo_urls))
    (generator_new (demo_asocket demo_message_frames)) demo_tasks s'"
  have "\<not> ac_done (demo_asocket demo_message_frames)" by simp
  from shared_stream_in_order [OF run this] obtain ps err n rest
    where "map snd (gots demo_tasks) = stream_results ps err n"
      "abacklog nibble64 (demo_asocket demo_message_frames) = map (Some \<circ> Inr) ps @ rest"
    by blast
  then show ?thesis
    by (simp only: demo_message_abacklog demo_tasks_def gots.simps list.map prod.sel) blast
qed

text \<open>C39: tasks that share a stream can be forgotten. A task whose poll finds the lock taken by another task,
  or that waits for an item when another task comes to wait for one, is never woken: whatever the
  stream gives from then on, the task does nothing any more.\<close>

theorem sharing_loses_wakeups:
  assumes "runs (task_step (poll_inner stream) call) (generator_new s) (ks @ evs) s'"
    and "(\<exists>ms. ks = ms @ [Missed i]) \<or>
      (\<exists>ms js j. ks = ms @ Waited i # js @ [Waited j] \<and> Woken \<notin> set js)"
  shows "i \<in> sh_asleep s' \<and> (\<forall>ev \<in> set evs. task_of ev \<noteq> Some i)"
proof -
  let ?step = "task_step (poll_inner stream) call"
  from assms(1) obtain t where t: "runs ?step (generator_new s) ks t" "runs ?step t evs s'"
    by (auto simp: runs_append)
  have "lost i t"
    using assms(2)
  proof (elim disjE exE conjE)
    fix ms assume "ks = ms @ [Missed i]"
    with t(1) obtain a where "runs ?step (generator_new s) ms a" "?step a (Missed i) t"
      by (auto simp: runs_append runs_Cons)
    then show ?thesis using missed_lost tasks_ok_runs tasks_ok_new by metis
  next
    fix ms js j assume ks: "ks = ms @ Waited i # js @ [Waited j]" "Woken \<notin> set js"
    with t(1) obtain a b c where "?step a (Waited i) b" "runs ?step b js c" "?step c (Waited j) t"
      by (auto simp: runs_append runs_Cons)
    then show ?thesis using waited_asleep waiting_runs [OF _ _ _ ks(2)] overtaken_lost by metis
  qed
  from lost_runs [OF t(2) this] show ?thesis by (simp add: lost_def)
qed

theorem sharing_loses_wakeups_witness:
  "\<exists>s'. runs (task_step (aclient_poll_next nibble64 demo_urls) (other_call nibble64 demo_urls))
      (generator_new (demo_asocket demo_message_frames)) demo_tasks s' \<and> 0 \<in> sh_asleep s'"
proof (rule demo_tasks_runs)
  fix s' assume run: "runs (task_step (aclient_poll_next nibble64 demo_urls) (other_call nibble64 demo_urls))
    (generator_new (demo_asocket demo_message_frames)) demo_tasks s'"
  have "demo_tasks = [Entered 1, Missed 0] @ drop 2 demo_tasks" by (simp add: demo_tasks_def)
  with run have "runs (task_step (poll_inner (aclient_next nibble64 demo_urls)) (other_call nibble64 demo_urls))
    (generator_new (demo_asocket demo_message_frames)) ([Entered 1, Missed 0] @ drop 2 demo_tasks) s'"
    by (simp add: generators)
  from sharing_loses_wakeups [OF this, of 0] run show ?thesis by auto
qed

text \<open>One task alone, as the polling task of a socket.io client, is not forgotten: its polls always get
  the lock, and when it sleeps the stream has it to wake.\<close>

theorem single_task_woken:
  assumes "runs (task_step (assocket_poll_next B U J) call) (generator_new s) evs s'"
    and "\<forall>ev \<in> set evs. task_of ev \<in> {None, Some i}"
  shows "Missed i \<notin> set evs \<and>
    (i \<in> sh_asleep s' \<longrightarrow> (\<exists>t. task_step (assocket_poll_next B U J) call s' Woken t \<and> i \<notin> sh_asleep t))"
proof -
  have "alone i (generator_new s)" by (simp add: alone_def generator_new_def)
  from alone_runs [OF assms(1) [unfolded generators] this tasks_ok_new assms(2)]
  have "Missed i \<notin> set evs" "i \<in> sh_asleep s' \<Longrightarrow> sh_waker s' = Some i" by (simp_all add: alone_def)
  then show ?thesis by (fastforce intro: task_step.wake)
qed

theorem single_task_woken_witness:
  "\<exists>s' t. runs (task_step (assocket_poll_next nibble64 demo_urls flat_json) (\<lambda>_ (_ :: unit) _. False))
       (generator_new (demo_assocket [])) [Entered 5, Waited 5] s' \<and>
     task_step (assocket_poll_next nibble64 demo_urls flat_json) (\<lambda>_ (_ :: unit) _. False) s' Woken t \<and> 5 \<notin> sh_asleep t"
proof -
  let ?step = "task_step (assocket_poll_next nibble64 demo_urls flat_json) (\<lambda>_ (_ :: unit) _. False)"
  let ?g = "generator_new (demo_assocket [])"
  let ?g2 = "?g\<lparr>sh_lock := Some 5, sh_lock := None, sh_waker := Some 5, sh_asleep := {5}\<rparr>"
  have "?step ?g (Entered 5) (?g\<lparr>sh_lock := Some 5\<rparr>)"
    by (rule enter) (simp_all add: generator_new_def)
  moreover have "?step (?g\<lparr>sh_lock := Some 5\<rparr>) (Waited 5) ?g2"
    by (rule wait [where arrived = False]) (simp_all add: generators generator_new_def)
  ultimately have run: "runs ?step ?g [Entered 5, Waited 5] ?g2" by (auto intro: runs.intros)
  from single_task_woken [OF run, of 5] run show ?thesis by auto
qed

end
