(* ===== verification/Concurrent_Polls.thy ===== *)
theory Concurrent_Polls
  imports Engine_Runs "HOL-Library.Multiset"
begin

text \<open>
  Threads that share one blocking engine.io client and poll it at the same time. \<open>Socket::poll\<close> takes the
  lock of the remaining packets for a moment at a time, so a poll is cut into the accesses it makes to
  the shared state: the flag, the test for remaining packets, taking the next of them, asking the
  transport, storing the rest of a payload. A step is one access of one thread, or a whole call of
  another method.
\<close>

section \<open>A poll as a sequence of accesses\<close>

text \<open>Where a thread is in \<open>poll\<close>: at the head of the loop, at the test, at \<open>iter.next()\<close>, at the request,
  and with a decoded payload in its hands.\<close>

datatype poll_point = AtLoop | AtTest | AtNext | AtRequest | AtStore epacket "epacket list"

fun poll_access ::
  "base64 \<Rightarrow> 'u urllib \<Rightarrow> poll_point \<Rightarrow> 'u esocket \<Rightarrow>
     (poll_point + (eerror, epacket option) outcome) \<times> 'u esocket" where
  "poll_access B U AtLoop s = ((if es_connected s then Inl AtTest else Inr (Ok None)), s)"
| "poll_access B U AtTest s = ((if es_remaining s \<noteq> None then Inl AtNext else Inl AtRequest), s)"
| "poll_access B U AtNext s =
     (case es_remaining s of
        None \<Rightarrow> (Inr Panic, s)
      | Some [] \<Rightarrow> (Inl AtRequest, s)
      | Some (packet # rest) \<Rightarrow> (Inr (Ok (Some packet)), s\<lparr>es_remaining := Some rest\<rparr>))"
| "poll_access B U AtRequest s =
     (case on_net (transport_poll U (es_transport s)) s of
        (Ok data, s1) \<Rightarrow>
          (if data = [] then Inl AtLoop
           else (case payload_try_from B data of
                   Inl e \<Rightarrow> Inr (Err e)
                 | Inr [] \<Rightarrow> Inl AtLoop
                 | Inr (packet # iter) \<Rightarrow> Inl (AtStore packet iter)), s1)
      | (Err e, s1) \<Rightarrow> (Inr (Err e), s1)
      | (Panic, s1) \<Rightarrow> (Inr Panic, s1)
      | (Block, s1) \<Rightarrow> (Inr Block, s1))"
| "poll_access B U (AtStore packet iter) s = (Inr (Ok (Some packet)), s\<lparr>es_remaining := Some iter\<rparr>)"

section \<open>Threads\<close>

text \<open>The shared socket, and where each thread is if it is in \<open>poll\<close>.\<close>

record 'u pollers =
  pl_socket :: "'u esocket"
  pl_at :: "nat \<Rightarrow> poll_point option"

datatype poll_event = Begun | Moved | Returned "(eerror, epacket option) outcome" | Other engine_call

inductive poll_step :: "base64 \<Rightarrow> 'u urllib \<Rightarrow> 'u pollers \<Rightarrow> nat \<times> poll_event \<Rightarrow> 'u pollers \<Rightarrow> bool"
  for B U where
  begin_poll: "pl_at s i = None \<Longrightarrow>
    poll_step B U s (i, Begun) (s\<lparr>pl_at := (pl_at s)(i := Some AtLoop)\<rparr>)"
| access: "pl_at s i = Some c \<Longrightarrow> poll_access B U c (pl_socket s) = (Inl c', t) \<Longrightarrow>
    poll_step B U s (i, Moved) (s\<lparr>pl_socket := t, pl_at := (pl_at s)(i := Some c')\<rparr>)"
| return: "pl_at s i = Some c \<Longrightarrow> poll_access B U c (pl_socket s) = (Inr r, t) \<Longrightarrow> r \<noteq> Block \<Longrightarrow>
    poll_step B U s (i, Returned r) (s\<lparr>pl_socket := t, pl_at := (pl_at s)(i := None)\<rparr>)"
| other: "pl_at s i = None \<Longrightarrow> client_step B U (pl_socket s) l t \<Longrightarrow> (\<forall>r. l \<noteq> Polled r) \<Longrightarrow>
    poll_step B U s (i, Other l) (s\<lparr>pl_socket := t\<rparr>)"

inductive_cases poll_stepE: "poll_step B U s (i, ev) s'"

section \<open>A thread alone\<close>

text \<open>What a poll that has come to a point still computes, and what holds there if no other thread
  comes in between.\<close>

fun poll_from :: "base64 \<Rightarrow> 'u urllib \<Rightarrow> poll_point \<Rightarrow> ('u esocket, eerror, epacket option) proc" where
  "poll_from B U (AtStore packet iter) s = (Ok (Some packet), s\<lparr>es_remaining := Some iter\<rparr>)"
| "poll_from B U c s = esocket_poll B U s"

fun point_ok :: "poll_point \<Rightarrow> 'u esocket \<Rightarrow> bool" where
  "point_ok AtTest s \<longleftrightarrow> es_connected s"
| "point_ok AtNext s \<longleftrightarrow> es_connected s \<and> es_remaining s \<noteq> None"
| "point_ok AtRequest s \<longleftrightarrow> es_connected s \<and> (\<nexists>p ps. es_remaining s = Some (p # ps))"
| "point_ok c s \<longleftrightarrow> True"

lemma poll_from_access:
  assumes "point_ok c s"
  shows "case poll_access B U c s of
      (Inl c', t) \<Rightarrow> poll_from B U c s = poll_from B U c' t \<and> point_ok c' t
    | (Inr r, t) \<Rightarrow> poll_from B U c s = (r, t)"
proof (cases c)
  case AtRequest
  then show ?thesis
    using assms
    by (auto simp: esocket_poll.simps [of B U s] on_net_def
        split: prod.splits outcome.splits sum.splits list.splits option.splits)
qed (use assms in \<open>auto simp: esocket_poll.simps [of B U s] split: option.splits list.splits\<close>)

lemma lone_moves:
  assumes "runs (poll_step B U) s evs s'" "evs = map (Pair i) (replicate n Moved) @ [(i, Returned r)]"
    and "pl_at s i = Some c" "point_ok c (pl_socket s)"
  shows "poll_from B U c (pl_socket s) = (r, pl_socket s')"
  using assms
proof (induction n arbitrary: s c evs)
  case 0
  then show ?case
    using poll_from_access [of c "pl_socket s" B U] by (auto simp: runs_Cons elim!: poll_stepE)
next
  case (Suc n)
  then obtain t where step: "poll_step B U s (i, Moved) t"
    and rest: "runs (poll_step B U) t (map (Pair i) (replicate n Moved) @ [(i, Returned r)]) s'"
    by (auto simp: runs_Cons)
  from step Suc.prems(3) obtain c' u where u: "poll_access B U c (pl_socket s) = (Inl c', u)"
    "t = s\<lparr>pl_socket := u, pl_at := (pl_at s)(i := Some c')\<rparr>"
    by (auto elim!: poll_stepE)
  with Suc.prems(4) poll_from_access [of c "pl_socket s" B U]
  have "poll_from B U c (pl_socket s) = poll_from B U c' u" "point_ok c' u" by simp_all
  with Suc.IH [OF rest refl, of c'] u(2) show ?case by simp
qed

text \<open>A poll comes to its end: a request uses up an answer, and every other access comes closer to one.\<close>

fun rank :: "poll_point \<Rightarrow> nat" where
  "rank AtLoop = 3"
| "rank AtTest = 2"
| "rank AtNext = 1"
| "rank _ = 0"

lemma access_decreases:
  assumes "poll_access B U c s = (Inl c', t)"
  shows "4 * pending (es_net t) + rank c' < 4 * pending (es_net s) + rank c"
proof (cases c)
  case AtRequest
  obtain r s1 where on: "on_net (transport_poll U (es_transport s)) s = (r, s1)" by fastforce
  from assms AtRequest on obtain data where "r = Ok data" "t = s1"
    by (auto split: outcome.splits sum.splits list.splits if_splits)
  with on on_net_pending [of data t U "es_transport s" s] have "pending (es_net t) < pending (es_net s)" by simp
  moreover have "rank c' \<le> 3" by (cases c') simp_all
  ultimately show ?thesis using AtRequest by simp
qed (use assms in \<open>auto split: if_splits option.splits list.splits\<close>)

lemma lone_poll_ends:
  assumes "pl_at s i = Some c" "point_ok c (pl_socket s)" "poll_from B U c (pl_socket s) = (r, t)" "r \<noteq> Block"
  shows "\<exists>n. runs (poll_step B U) s (map (Pair i) (replicate n Moved) @ [(i, Returned r)])
    (s\<lparr>pl_socket := t, pl_at := (pl_at s)(i := None)\<rparr>)"
  using assms
proof (induction "4 * pending (es_net (pl_socket s)) + rank c" arbitrary: s c rule: less_induct)
  case less
  note step = poll_from_access [OF less.prems(2), of B U]
  obtain o' u where a: "poll_access B U c (pl_socket s) = (o', u)" by fastforce
  show ?case
  proof (cases o')
    case (Inr r')
    with step a less.prems(3) have "r' = r" "u = t" by simp_all
    with a Inr less.prems(1,4) have "poll_step B U s (i, Returned r) (s\<lparr>pl_socket := t, pl_at := (pl_at s)(i := None)\<rparr>)"
      by (intro return) simp_all
    then show ?thesis by (intro exI [of _ 0]) (simp add: runs_Cons)
  next
    case (Inl c')
    let ?s = "s\<lparr>pl_socket := u, pl_at := (pl_at s)(i := Some c')\<rparr>"
    have one: "poll_step B U s (i, Moved) ?s" using a Inl less.prems(1) by (intro access) simp_all
    have "poll_from B U c' u = (r, t)" "point_ok c' u" using step a Inl less.prems(3) by simp_all
    with less.hyps [of ?s c'] access_decreases [of B U c "pl_socket s" c' u] a Inl less.prems(4)
    obtain n where "runs (poll_step B U) ?s (map (Pair i) (replicate n Moved) @ [(i, Returned r)])
        (?s\<lparr>pl_socket := t, pl_at := (pl_at ?s)(i := None)\<rparr>)" by auto
    with one have "runs (poll_step B U) s ((i, Moved) # map (Pair i) (replicate n Moved) @ [(i, Returned r)])
        (s\<lparr>pl_socket := t, pl_at := (pl_at s)(i := None)\<rparr>)"
      by (auto intro: runs_cons)
    then show ?thesis by (intro exI [of _ "Suc n"]) simp
  qed
qed

section \<open>Many threads\<close>

text \<open>The items that the polls of a history gave, and what the threads have in their hands.\<close>

fun given :: "(nat \<times> poll_event) list \<Rightarrow> (eerror + epacket) list" where
  "given [] = []"
| "given ((i, Returned (Ok (Some p))) # evs) = Inr p # given evs"
| "given ((i, Returned (Err e)) # evs) = Inl e # given evs"
| "given (_ # evs) = given evs"

fun held :: "poll_point option \<Rightarrow> (eerror + epacket) multiset" where
  "held (Some (AtStore p ps)) = mset (map Inr (p # ps))"
| "held _ = {#}"

definition in_hands :: "(nat \<Rightarrow> poll_point option) \<Rightarrow> (eerror + epacket) multiset" where
  "in_hands f = (\<Sum>i | f i \<noteq> None. held (f i))"

definition stock :: "base64 \<Rightarrow> 'u pollers \<Rightarrow> (eerror + epacket) multiset" where
  "stock B s = in_hands (pl_at s) + mset (backlog B (pl_socket s))"

lemma in_hands_upd:
  assumes "finite {i. f i \<noteq> None}"
  shows "in_hands (f(i := x)) + held (f i) = in_hands f + held x"
proof -
  let ?A = "insert i {i. f i \<noteq> None}"
  have over: "in_hands g = (\<Sum>j\<in>?A. held (g j))" if "{j. g j \<noteq> None} \<subseteq> ?A" for g
    unfolding in_hands_def using assms that by (intro sum.mono_neutral_left) auto
  have "in_hands f = (\<Sum>j\<in>?A. held (f j))" by (intro over) blast
  moreover have "in_hands (f(i := x)) = (\<Sum>j\<in>?A. held ((f(i := x)) j))" by (intro over) auto
  moreover have "(\<Sum>j\<in>?A. held ((f(i := x)) j)) = held x + (\<Sum>j\<in>?A - {i}. held (f j))"
    using assms by (subst sum.remove [of _ i]) auto
  moreover have "(\<Sum>j\<in>?A. held (f j)) = held (f i) + (\<Sum>j\<in>?A - {i}. held (f j))"
    using assms by (subst sum.remove [of _ i]) auto
  ultimately show ?thesis by (simp add: add_ac)
qed

lemma other_keeps:
  assumes "client_step B U s l t" "\<forall>r. l \<noteq> Polled r"
  shows "backlog B t = backlog B s" "es_remaining t = es_remaining s"
proof -
  have "m_in (client_machine B t) = m_in (client_machine B s)"
    using client_step_simulates [OF assms(1)] assms(2) by (auto elim!: machine_stepE)
  then show "backlog B t = backlog B s" by (simp add: client_machine_def)
  have sent: "es_remaining u = es_remaining v" if "esocket_emit B U p v = (r, u)" for p v r u
    using esocket_emit_fields(3) [of B U p v] that by simp
  from assms(1) show "es_remaining t = es_remaining s"
  proof cases
    case (call_connect r)
    then show ?thesis by (auto simp: esocket_connect_def pinged_def dest: sent)
  next
    case (call_disconnect)
    then show ?thesis by (auto elim!: esocket_disconnect_steps dest: sent)
  qed (use assms(2) in \<open>auto dest: sent\<close>)
qed

lemma step_finite: "poll_step B U s ev s' \<Longrightarrow> finite {i. pl_at s i \<noteq> None} \<Longrightarrow> finite {i. pl_at s' i \<noteq> None}"
proof (induction rule: poll_step.induct)
  case (begin_poll s i)
  have "{j. ((pl_at s)(i := Some AtLoop)) j \<noteq> None} = insert i {j. pl_at s j \<noteq> None}" by auto
  with begin_poll show ?case by simp
next
  case (access s i c c' t)
  have "{j. ((pl_at s)(i := Some c')) j \<noteq> None} = insert i {j. pl_at s j \<noteq> None}" by auto
  with access show ?case by simp
qed (auto elim: rev_finite_subset)

text \<open>What an access takes from the packets to come it has in its hands or gives back; only storing can
  lose something, the packets that another thread stored before.\<close>

lemma access_stock:
  assumes "poll_access B U c s = (o', t)"
  shows "(case o' of Inl c' \<Rightarrow> held (Some c') | Inr r \<Rightarrow> mset (given [(i, Returned r)])) + mset (backlog B t)
    \<subseteq># held (Some c) + mset (backlog B s)"
proof (cases c)
  case AtRequest
  obtain r w where poll: "transport_poll U (es_transport s) (es_net s) = (r, w)" by fastforce
  note items = transport_poll_items [where U = U and t = "es_transport s" and w = "es_net s" and B = B, unfolded poll]
  from poll assms AtRequest items show ?thesis
    by (auto simp: on_net_def backlog_def body_items_def
        split: outcome.splits sum.splits list.splits if_splits option.splits)
qed (use assms in \<open>auto simp: backlog_def split: if_splits option.splits list.splits\<close>)

lemma exchange:
  fixes a b x y g h :: "'a multiset"
  assumes "a + h = b + g" "g + y \<subseteq># h + x"
  shows "a + y \<subseteq># b + x"
proof -
  from assms(2) obtain z where "h + x = g + y + z" by (auto simp: mset_subset_eq_exists_conv)
  then have "h + (b + x) = b + g + (y + z)" by (simp add: add_ac)
  also have "\<dots> = h + (a + y + z)" using assms(1) by (simp add: add_ac flip: assms(1))
  finally have "b + x = a + y + z" by simp
  then show ?thesis by simp
qed

lemma step_stock:
  assumes "poll_step B U s ev s'" "finite {i. pl_at s i \<noteq> None}"
  shows "mset (given [ev]) + stock B s' \<subseteq># stock B s"
  using assms
proof (induction rule: poll_step.induct)
  case (begin_poll s i)
  then show ?case using in_hands_upd [of "pl_at s" i "Some AtLoop"] by (simp add: stock_def)
next
  case (access s i c c' t)
  have "in_hands ((pl_at s)(i := Some c')) + held (Some c) = in_hands (pl_at s) + held (Some c')"
    using in_hands_upd [OF access(3), of i "Some c'"] access(1) by simp
  moreover have "held (Some c') + mset (backlog B t) \<subseteq># held (Some c) + mset (backlog B (pl_socket s))"
    using access_stock [OF access(2), of i] by simp
  ultimately show ?case unfolding stock_def by (auto dest: exchange)
next
  case (return s i c r t)
  let ?g = "mset (given [(i, Returned r)])"
  have "?g + in_hands ((pl_at s)(i := None)) + held (Some c) = in_hands (pl_at s) + ?g"
    using in_hands_upd [OF return(4), of i None] return(1) by (simp add: add_ac)
  moreover have "?g + mset (backlog B t) \<subseteq># held (Some c) + mset (backlog B (pl_socket s))"
    using access_stock [OF return(2), of i] by simp
  ultimately have "?g + in_hands ((pl_at s)(i := None)) + mset (backlog B t) \<subseteq>#
      in_hands (pl_at s) + mset (backlog B (pl_socket s))"
    by (rule exchange)
  then show ?case by (simp add: stock_def add.assoc)
next
  case (other s i l t)
  then show ?case using other_keeps(1) [OF other(2,3)] by (simp add: stock_def)
qed

lemma given_Cons: "given (ev # evs) = given [ev] @ given evs"
proof -
  obtain i e where ev: "ev = (i, e)" by fastforce
  show ?thesis
  proof (cases e)
    case (Returned r)
    then show ?thesis using ev by (cases "(i, Returned r) # evs" rule: given.cases) auto
  qed (simp_all add: ev)
qed

lemma runs_stock:
  "runs (poll_step B U) s evs s' \<Longrightarrow> finite {i. pl_at s i \<noteq> None} \<Longrightarrow>
     mset (given evs) + stock B s' \<subseteq># stock B s"
proof (induction rule: runs.induct)
  case (runs_cons s ev t evs u)
  from step_stock [OF runs_cons.hyps(1) runs_cons.prems]
  have "mset (given [ev]) + stock B t \<subseteq># stock B s" .
  moreover have "mset (given evs) + stock B u \<subseteq># stock B t"
    using runs_cons.IH step_finite [OF runs_cons.hyps(1) runs_cons.prems] by blast
  ultimately have "mset (given [ev]) + (mset (given evs) + stock B u) \<subseteq># stock B s"
    by (meson subset_mset.add_left_mono subset_mset.order_trans)
  then show ?case by (subst given_Cons) (simp add: add.assoc)
qed simp

text \<open>The rest of a payload, once stored, is never taken away again, so the test and \<open>unwrap\<close> agree.\<close>

definition tests_hold :: "'u pollers \<Rightarrow> bool" where
  "tests_hold s \<longleftrightarrow> (\<forall>i. pl_at s i = Some AtNext \<longrightarrow> es_remaining (pl_socket s) \<noteq> None)"

lemma access_remaining:
  "poll_access B U c s = (o', t) \<Longrightarrow> es_remaining s \<noteq> None \<Longrightarrow> es_remaining t \<noteq> None"
  by (cases c) (auto simp: on_net_def split: prod.splits outcome.splits list.splits if_splits)

lemma access_no_panic:
  assumes "poll_access B U c s = (Inr Panic, t)" "c = AtNext \<Longrightarrow> es_remaining s \<noteq> None"
  shows False
proof (cases c)
  case AtRequest
  obtain r w where poll: "transport_poll U (es_transport s) (es_net s) = (r, w)" by fastforce
  note items = transport_poll_items [where U = U and t = "es_transport s" and w = "es_net s" and B = B, unfolded poll]
  from poll assms(1) AtRequest items show ?thesis
    by (auto simp: on_net_def split: outcome.splits list.splits sum.splits if_splits)
qed (use assms in \<open>auto split: if_splits option.splits list.splits\<close>)

lemma tests_hold_step:
  assumes "poll_step B U s ev s'" "tests_hold s"
  shows "tests_hold s' \<and> snd ev \<noteq> Returned Panic"
  using assms
proof (induction rule: poll_step.induct)
  case (access s i c c' t)
  have "es_remaining t \<noteq> None" if "c' = AtNext"
    using access(2) that by (cases c) (auto split: prod.splits outcome.splits list.splits sum.splits option.splits if_splits)
  with access access_remaining [OF access(2)] show ?case by (auto simp: tests_hold_def)
next
  case (return s i c r t)
  have "r \<noteq> Panic"
    using access_no_panic [of B U c "pl_socket s" t] return(1,2,4) by (auto simp: tests_hold_def)
  with return access_remaining [OF return(2)] show ?case by (auto simp: tests_hold_def)
next
  case (other s i l t)
  then show ?case using other_keeps(2) [OF other(2,3)] by (auto simp: tests_hold_def)
qed (auto simp: tests_hold_def)

lemma tests_hold_runs:
  "runs (poll_step B U) s evs s' \<Longrightarrow> tests_hold s \<Longrightarrow> \<forall>ev \<in> set evs. snd ev \<noteq> Returned Panic"
  by (induction rule: runs.induct) (auto dest: tests_hold_step)

section \<open>A connection for the witnesses\<close>

text \<open>Two frames of two packets each, as a server may send them.\<close>

definition demo_chains :: "ws_event list" where
  "demo_chains = [WsMsg (WsText (lit ''4a'' @ [30] @ lit ''4b'')), WsMsg (WsText (lit ''4c'' @ [30] @ lit ''4d''))]"

definition demo_pollers :: "nat pollers" where
  "demo_pollers = \<lparr>pl_socket = demo_socket demo_chains, pl_at = (\<lambda>_. None)\<rparr>"

lemma demo_chain:
  "payload_try_from B [52, 97, 30, 52, 98] = Inr [epacket EMessage [97], epacket EMessage [98]]"
  "payload_try_from B [52, 99, 30, 52, 100] = Inr [epacket EMessage [99], epacket EMessage [100]]"
  by (simp_all add: payload_try_from_def payload_scan_split slice_def separator_def epacket_try_from_def
      epacket_id_try_from_def epacket_def)

lemma demo_chain_polls:
  "transport_poll U (Websocket 0) (demo_net demo_chains) =
     (Ok [52, 97, 30, 52, 98], (demo_net demo_chains)\<lparr>ws_in := tl demo_chains\<rparr>)"
  "transport_poll U (Websocket 0) ((demo_net demo_chains)\<lparr>ws_in := tl demo_chains\<rparr>) =
     (Ok [52, 99, 30, 52, 100], (demo_net demo_chains)\<lparr>ws_in := []\<rparr>)"
  by (simp_all add: transport_poll_def ws_poll_def ws_poll_next_def demo_net_def demo_chains_def utf8_append)

lemma demo_pollers_fields [simp]:
  "pl_at demo_pollers = (\<lambda>_. None)" "pl_socket demo_pollers = demo_socket demo_chains"
  by (simp_all add: demo_pollers_def)

lemma demo_esocket_poll:
  "fst (esocket_poll nibble64 demo_urls (demo_socket demo_chains)) = Ok (Some (epacket EMessage [97]))"
  by (subst esocket_poll.simps) (simp add: on_net_def demo_chain_polls demo_chain)

section \<open>Properties\<close>





lemma requesting_steps:
  assumes "pl_at u k = None" "es_connected (pl_socket u)" "es_remaining (pl_socket u) = None"
  shows "runs (poll_step B U) u [(k, Begun), (k, Moved), (k, Moved)] (u\<lparr>pl_at := (pl_at u)(k := Some AtRequest)\<rparr>)"
proof -
  let ?at = "\<lambda>c. u\<lparr>pl_at := (pl_at u)(k := c)\<rparr>"
  have u: "u\<lparr>pl_socket := pl_socket u, pl_at := f\<rparr> = u\<lparr>pl_at := f\<rparr>" for f by (cases u) simp
  have "poll_step B U u (k, Begun) (?at (Some AtLoop))" using assms(1) by (rule begin_poll)
  moreover have "poll_step B U (?at (Some AtLoop)) (k, Moved) (?at (Some AtTest))"
    using access [of "?at (Some AtLoop)" k AtLoop B U AtTest "pl_socket u"] assms(2) by (simp add: u)
  moreover have "poll_step B U (?at (Some AtTest)) (k, Moved) (?at (Some AtRequest))"
    using access [of "?at (Some AtTest)" k AtTest B U AtRequest "pl_socket u"] assms(3) by (simp add: u)
  ultimately show ?thesis by (auto intro: runs.intros)
qed

text \<open>C34: but items can be lost. When two threads wait for the transport at the same time, each gets a payload,
  and the one that stores last throws away what is left of the other: both polls succeed, and the
  packets after the first of the first payload are neither given nor still to come.\<close>

theorem concurrent_polls_lose:
  fixes s :: "'u pollers" and i j :: nat
  assumes "i \<noteq> j" "pl_at s = (\<lambda>_. None)" "es_connected (pl_socket s)" "es_remaining (pl_socket s) = None"
    and t: "es_transport (pl_socket s) = t" and w: "es_net (pl_socket s) = w"
    and "transport_poll U t w = (Ok d1, w1)" "d1 \<noteq> []" "payload_try_from B d1 = Inr (p1 # ps1)"
    and "transport_poll U t w1 = (Ok d2, w2)" "d2 \<noteq> []" "payload_try_from B d2 = Inr (p2 # ps2)"
  shows "\<exists>evs s'. runs (poll_step B U) s evs s' \<and> given evs = [Inr p1, Inr p2] \<and> pl_at s' = (\<lambda>_. None) \<and>
    backlog B (pl_socket s) = map Inr (p1 # ps1 @ p2 # ps2) @ net_items B t w2 \<and>
    backlog B (pl_socket s') = map Inr ps2 @ net_items B t w2"
proof -
  let ?at = "\<lambda>s i c. s\<lparr>pl_at := (pl_at s)(i := c)\<rparr>"
  let ?s2 = "?at (?at s i (Some AtRequest)) j (Some AtRequest)"
  let ?e = "pl_socket s" and ?go = "\<lambda>k c v. s\<lparr>pl_socket := v, pl_at := (pl_at s)(k := c)\<rparr>"
  let ?w1 = "?e\<lparr>es_net := w1\<rparr>" and ?w2 = "?e\<lparr>es_remaining := Some ps1, es_net := w2\<rparr>"
  let ?s3 = "s\<lparr>pl_socket := ?w1, pl_at := (pl_at s)(i := Some (AtStore p1 ps1), j := Some AtRequest)\<rparr>"
  let ?s4 = "s\<lparr>pl_socket := ?w1\<lparr>es_remaining := Some ps1\<rparr>, pl_at := (pl_at s)(i := None, j := Some AtRequest)\<rparr>"
  let ?s5 = "s\<lparr>pl_socket := ?w2, pl_at := (pl_at s)(i := None, j := Some (AtStore p2 ps2))\<rparr>"
  let ?s6 = "s\<lparr>pl_socket := ?e\<lparr>es_net := w2, es_remaining := Some ps2\<rparr>, pl_at := (pl_at s)(i := None, j := None)\<rparr>"
  have s2: "?s2 = s\<lparr>pl_at := (pl_at s)(i := Some AtRequest, j := Some AtRequest)\<rparr>" by simp
  have "poll_step B U ?s2 (i, Moved) ?s3"
    using access [of ?s2 i AtRequest B U "AtStore p1 ps1" ?w1] assms(1,7-9) t w
    by (simp add: on_net_def fun_upd_twist)
  moreover have "poll_step B U ?s3 (i, Returned (Ok (Some p1))) ?s4"
    using return [of ?s3 i "AtStore p1 ps1" B U "Ok (Some p1)"] assms(1) by (simp add: fun_upd_twist)
  moreover have "poll_step B U ?s4 (j, Moved) ?s5"
    using access [of ?s4 j AtRequest B U "AtStore p2 ps2"] assms(1,10-12) t
    by (simp add: on_net_def)
  moreover have "poll_step B U ?s5 (j, Returned (Ok (Some p2))) ?s6"
    using return [of ?s5 j "AtStore p2 ps2" B U "Ok (Some p2)"] by simp
  ultimately have tail: "runs (poll_step B U) ?s2
      [(i, Moved), (i, Returned (Ok (Some p1))), (j, Moved), (j, Returned (Ok (Some p2)))] ?s6"
    by (blast intro: runs.intros)
  have "runs (poll_step B U) s [(i, Begun), (i, Moved), (i, Moved)] (?at s i (Some AtRequest))"
    "runs (poll_step B U) (?at s i (Some AtRequest)) [(j, Begun), (j, Moved), (j, Moved)] ?s2"
    by (rule requesting_steps; use assms(1-4) in simp)+
  with tail have "runs (poll_step B U) s ([(i, Begun), (i, Moved), (i, Moved)] @ [(j, Begun), (j, Moved), (j, Moved)] @
      [(i, Moved), (i, Returned (Ok (Some p1))), (j, Moved), (j, Returned (Ok (Some p2)))]) ?s6"
    unfolding runs_append by blast
  moreover have "backlog B ?e = map Inr (p1 # ps1 @ p2 # ps2) @ net_items B t w2"
    using transport_poll_items [where B = B and U = U and t = t and w = w]
      transport_poll_items [where B = B and U = U and t = t and w = w1] assms(4,7-12) t w
    by (simp add: backlog_def body_items_def)
  ultimately show ?thesis
    using assms(2) t by (intro exI conjI) (assumption | simp add: backlog_def fun_eq_iff)+
qed

theorem concurrent_polls_lose_witness:
  "\<exists>evs s'. runs (poll_step nibble64 demo_urls) demo_pollers evs s' \<and>
     given evs = [Inr (epacket EMessage [97]), Inr (epacket EMessage [99])] \<and>
     backlog nibble64 (pl_socket s') = [Inr (epacket EMessage [100])]"
proof -
  have idle: "(0 :: nat) \<noteq> 1" "pl_at demo_pollers = (\<lambda>_. None)" "es_connected (pl_socket demo_pollers)"
    "es_remaining (pl_socket demo_pollers) = None" "es_transport (pl_socket demo_pollers) = Websocket 0"
    "es_net (pl_socket demo_pollers) = demo_net demo_chains" by simp_all
  have ne: "[52, 97, 30, 52, 98] \<noteq> ([] :: bytes)" "[52, 99, 30, 52, 100] \<noteq> ([] :: bytes)" by simp_all
  from concurrent_polls_lose [OF idle demo_chain_polls(1) ne(1) demo_chain(1) demo_chain_polls(2) [of demo_urls] ne(2)
      demo_chain(2) [of nibble64]]
  show ?thesis by (auto simp: net_items_def)
qed

end
