(* ===== verification/Client_Threads.thy ===== *)
theory Client_Threads
  imports Sio_Client Raw_Runs
begin

text \<open>
  The two sides of a socket.io \<open>Client\<close>: the thread that \<open>poll_callback\<close> starts, which reads packets and
  replaces the connection after an error, and the threads of the user, which emit and disconnect in
  between. A step of the polling thread is one call of \<open>next\<close>, the \<open>disconnect\<close> before a reconnection, or
  one attempt of the reconnect loop with its wait; a step of the user is one call.
\<close>

section \<open>The polling thread, step by step\<close>

text \<open>Where the thread is: about to read, about to leave the old connection, or in the reconnect loop
  with the counter at a value.\<close>

datatype thread_point = Reading | Leaving | Trying u8

datatype thread_event = Took "serror + spacket" | Left | Failed serror | Replaced | GaveUp | User raw_call

fun thread_action ::
  "('u, 'j) slib \<Rightarrow> thread_point \<Rightarrow> (('u, 'j) client, serror, thread_event \<times> thread_point) proc" where
  "thread_action L Reading =
     seq (client_next L) (\<lambda>item c.
       (Ok (Took item, if should_reconnect (cl_builder c) item then Leaving else Reading), c))"
| "thread_action L Leaving =
     seq (ignore (client_disconnect L)) (\<lambda>_ c.
       (Ok (Left, if sb_reconnect (cl_builder c) then Trying 0 else Reading), c))"
| "thread_action L (Trying reconnect_attempts) = (\<lambda>c.
     if (case sb_max_attempts (cl_builder c) of
           Some max_reconnect_attempts \<Rightarrow> reconnect_attempts > max_reconnect_attempts
         | None \<Rightarrow> False)
     then (Ok (GaveUp, Reading), c)
     else if sl_oc L \<and> reconnect_attempts = 255 then (Panic, c)
     else case do_reconnect L (wait_backoff c) of
       (Ok _, c') \<Rightarrow> (Ok (Replaced, Reading), c')
     | (Err e, c') \<Rightarrow> (Ok (Failed e, Trying (reconnect_attempts + 1)), c')
     | (Panic, c') \<Rightarrow> (Panic, c')
     | (Block, c') \<Rightarrow> (Block, c'))"

text \<open>The calls of the user go to the raw client through the read lock.\<close>

inductive thread_step ::
  "('u, 'j) slib \<Rightarrow> thread_point \<times> ('u, 'j) client \<Rightarrow> thread_event \<Rightarrow> thread_point \<times> ('u, 'j) client \<Rightarrow> bool"
  for L where
  thread: "thread_action L at c = (Ok (ev, at'), c') \<Longrightarrow> thread_step L (at, c) ev (at', c')"
| user: "raw_step L (cl_raw c) l r \<Longrightarrow> l \<noteq> RConnect \<Longrightarrow> l \<noteq> RPoll \<Longrightarrow>
    thread_step L (at, c) (User l) (at, c\<lparr>cl_raw := r\<rparr>)"

inductive_cases thread_stepE: "thread_step L s ev s'"

lemma thread_step_iff:
  "thread_step L (at, c) ev (at', c') \<longleftrightarrow> thread_action L at c = (Ok (ev, at'), c') \<or>
     (\<exists>l r. ev = User l \<and> raw_step L (cl_raw c) l r \<and> l \<noteq> RConnect \<and> l \<noteq> RPoll \<and> at' = at \<and> c' = c\<lparr>cl_raw := r\<rparr>)"
  by (auto elim!: thread_stepE intro: thread user)

text \<open>An attempt that is allowed.\<close>

definition may_try :: "('u, 'j) slib \<Rightarrow> u8 \<Rightarrow> ('u, 'j) client \<Rightarrow> bool" where
  "may_try L a c \<longleftrightarrow> (case sb_max_attempts (cl_builder c) of Some m \<Rightarrow> \<not> a > m | None \<Rightarrow> True) \<and>
     \<not> (sl_oc L \<and> a = 255)"

text \<open>The steps by their events.\<close>

lemma step_simps:
  "thread_step L s (Took item) s' \<longleftrightarrow> fst s = Reading \<and> client_next L (snd s) = (Ok item, snd s') \<and>
     fst s' = (if should_reconnect (cl_builder (snd s')) item then Leaving else Reading)"
  "thread_step L s Left s' \<longleftrightarrow> fst s = Leaving \<and> ignore (client_disconnect L) (snd s) = (Ok (), snd s') \<and>
     fst s' = (if sb_reconnect (cl_builder (snd s')) then Trying 0 else Reading)"
  "thread_step L s (Failed e) s' \<longleftrightarrow> (\<exists>a. fst s = Trying a \<and> may_try L a (snd s) \<and>
     do_reconnect L (wait_backoff (snd s)) = (Err e, snd s') \<and> fst s' = Trying (a + 1))"
  "thread_step L s Replaced s' \<longleftrightarrow> (\<exists>a. fst s = Trying a \<and> may_try L a (snd s) \<and>
     do_reconnect L (wait_backoff (snd s)) = (Ok (), snd s') \<and> fst s' = Reading)"
  "thread_step L s GaveUp s' \<longleftrightarrow> (\<exists>a m. fst s = Trying a \<and> sb_max_attempts (cl_builder (snd s)) = Some m \<and> a > m \<and>
     s' = (Reading, snd s))"
  "thread_step L s (User l) s' \<longleftrightarrow> l \<noteq> RConnect \<and> l \<noteq> RPoll \<and>
     (\<exists>r. raw_step L (cl_raw (snd s)) l r \<and> s' = (fst s, snd s\<lparr>cl_raw := r\<rparr>))"
  by (cases s; cases s'; cases "fst s"; auto simp: thread_step_iff seq_def may_try_def
      split: prod.splits outcome.splits if_splits option.splits)+

section \<open>One round\<close>

text \<open>The events of the thread between two reads.\<close>

fun inner :: "thread_event \<Rightarrow> bool" where
  "inner (Took item) = False"
| "inner (User l) = False"
| "inner _ = True"

lemma may_try_loop:
  "may_try L a c \<Longrightarrow> reconnect_loop L (Suc fuel) a c =
     (case do_reconnect L (wait_backoff c) of
        (Ok _, c') \<Rightarrow> Some (Ok (), c')
      | (Err _, c') \<Rightarrow> reconnect_loop L fuel (a + 1) c'
      | (Panic, c') \<Rightarrow> Some (Panic, c')
      | (Block, c') \<Rightarrow> Some (Block, c'))"
  by (auto simp: may_try_def split: option.splits)

lemma reading_stays:
  "runs (thread_step L) (Reading, c) evs s' \<Longrightarrow> list_all inner evs \<Longrightarrow> evs = [] \<and> s' = (Reading, c)"
proof (induction "(Reading, c)" evs s' rule: runs.induct)
  case (runs_cons ev t evs u)
  then show ?case by (cases ev) (auto simp: step_simps)
qed simp

lemma steps_loop:
  assumes "runs (thread_step L) s evs (Reading, c')" "fst s = Trying a" "list_all inner evs"
  shows "\<exists>fuel. reconnect_loop L fuel a (snd s) = Some (Ok (), c')"
  using assms
proof (induction s evs "(Reading, c' :: ('a, 'b) client)" arbitrary: a rule: runs.induct)
  case (runs_cons s ev t evs)
  show ?case
  proof (cases ev)
    case (Failed e)
    with runs_cons.hyps(1) runs_cons.prems(1) have t: "may_try L a (snd s)"
      "do_reconnect L (wait_backoff (snd s)) = (Err e, snd t)" "fst t = Trying (a + 1)" by (auto simp: step_simps)
    with runs_cons.hyps(3) runs_cons.prems(2) obtain fuel
      where "reconnect_loop L fuel (a + 1) (snd t) = Some (Ok (), c')" by auto
    with t(2) show ?thesis by (intro exI [of _ "Suc fuel"]) (simp add: may_try_loop [OF t(1)] del: reconnect_loop.simps)
  next
    case Replaced
    with runs_cons.hyps(1) runs_cons.prems(1) have t: "may_try L a (snd s)"
      "do_reconnect L (wait_backoff (snd s)) = (Ok (), snd t)" "fst t = Reading" by (auto simp: step_simps)
    from t(3) obtain d where d: "t = (Reading, d)" by (cases t) simp
    with reading_stays [of L d evs "(Reading, c')"] runs_cons.hyps(2) runs_cons.prems(2)
    have "c' = snd t" by simp
    with t(2) show ?thesis by (intro exI [of _ "Suc 0"]) (simp add: may_try_loop [OF t(1)] del: reconnect_loop.simps)
  next
    case GaveUp
    with runs_cons.hyps(1) runs_cons.prems(1) obtain m where t: "sb_max_attempts (cl_builder (snd s)) = Some m" "a > m"
      "t = (Reading, snd s)" by (auto simp: step_simps)
    with reading_stays [of L "snd s" evs "(Reading, c')"] runs_cons.hyps(2) runs_cons.prems(2) have "c' = snd s" by simp
    with t show ?thesis by (intro exI [of _ 1]) simp
  qed (use runs_cons in \<open>auto simp: step_simps\<close>)
qed simp

lemma loop_steps:
  "reconnect_loop L fuel a c = Some (Ok (), c') \<Longrightarrow>
     \<exists>evs. runs (thread_step L) (Trying a, c) evs (Reading, c') \<and> list_all inner evs"
proof (induction fuel arbitrary: a c)
  case (Suc fuel)
  show ?case
  proof (cases "may_try L a c")
    case True
    note unfold = Suc.prems [unfolded may_try_loop [OF True]]
    obtain r d where d: "do_reconnect L (wait_backoff c) = (r, d)" by fastforce
    show ?thesis
    proof (cases r)
      case (Ok u)
      with unfold d True have "thread_step L (Trying a, c) Replaced (Reading, c')" by (simp add: step_simps)
      then show ?thesis by (intro exI [of _ "[Replaced]"]) (simp add: runs_Cons)
    next
      case (Err e)
      with unfold d have "reconnect_loop L fuel (a + 1) d = Some (Ok (), c')" by simp
      with Suc.IH obtain evs where "runs (thread_step L) (Trying (a + 1), d) evs (Reading, c')" "list_all inner evs"
        by blast
      moreover have "thread_step L (Trying a, c) (Failed e) (Trying (a + 1), d)"
        using d Err True by (simp add: step_simps)
      ultimately show ?thesis by (intro exI [of _ "Failed e # evs"]) (auto simp: runs_Cons)
    qed (use unfold d in simp_all)
  next
    case False
    with Suc.prems obtain m where "sb_max_attempts (cl_builder c) = Some m" "a > m" "c' = c"
      by (auto simp: may_try_def split: option.splits if_splits prod.splits outcome.splits)
    then have "thread_step L (Trying a, c) GaveUp (Reading, c')" by (simp add: step_simps)
    then show ?thesis by (intro exI [of _ "[GaveUp]"]) (simp add: runs_Cons)
  qed
qed simp

text \<open>The two readings of \<open>poll_callback\<close> fit together: without calls of the user in between, the steps from one read
  to the next are a round of \<open>poll_round\<close>, and the other way round.\<close>

lemma round_steps:
  assumes round: "poll_round L fuel c = Some (Ok (), c')"
  shows "\<exists>item evs. runs (thread_step L) (Reading, c) (Took item # evs) (Reading, c') \<and> list_all inner evs"
proof -
  from round obtain item d where took: "client_next L c = (Ok item, d)"
    by (auto simp: poll_round_def split: prod.splits outcome.splits)
  show "\<exists>item evs. runs (thread_step L) (Reading, c) (Took item # evs) (Reading, c') \<and> list_all inner evs"
  proof (cases "should_reconnect (cl_builder d) item")
    case False
    with round took have "thread_step L (Reading, c) (Took item) (Reading, c')"
      by (simp add: poll_round_def step_simps)
    then show ?thesis by (intro exI [of _ item] exI [of _ "[]"]) (simp add: runs_Cons)
  next
    case True
    with round took obtain e where left: "ignore (client_disconnect L) d = (Ok (), e)"
      and rec: "reconnect L fuel e = Some (Ok (), c')"
      by (auto simp: poll_round_def split: prod.splits outcome.splits)
    have "\<exists>evs. runs (thread_step L) (Leaving, d) evs (Reading, c') \<and> list_all inner evs"
    proof (cases "sb_reconnect (cl_builder e)")
      case True
      with rec loop_steps [of L fuel 0 e c'] obtain evs
        where "runs (thread_step L) (Trying 0, e) evs (Reading, c')" "list_all inner evs" by (auto simp: reconnect_def)
      with left True show ?thesis by (intro exI [of _ "Left # evs"]) (auto simp: runs_Cons step_simps)
    next
      case False
      with rec left show ?thesis by (intro exI [of _ "[Left]"]) (simp add: reconnect_def runs_Cons step_simps)
    qed
    with took True show ?thesis by (auto simp: runs_Cons step_simps)
  qed
qed

lemma steps_round:
  assumes run0: "runs (thread_step L) (Reading, c) (Took item # evs) (Reading, c')" and evs: "list_all inner evs"
  shows "\<exists>fuel. poll_round L fuel c = Some (Ok (), c')"
proof -
  from run0 evs obtain s where took: "client_next L c = (Ok item, snd s)"
    "fst s = (if should_reconnect (cl_builder (snd s)) item then Leaving else Reading)"
    and run: "runs (thread_step L) s evs (Reading, c')"
    by (auto simp: runs_Cons step_simps)
  obtain at d where s: "s = (at, d)" by fastforce
  show "\<exists>fuel. poll_round L fuel c = Some (Ok (), c')"
  proof (cases "should_reconnect (cl_builder d) item")
    case False
    with took run s reading_stays [OF _ evs] have "c' = d" by auto
    with False took s show ?thesis by (simp add: poll_round_def)
  next
    case True
    with took run s have "runs (thread_step L) (Leaving, d) evs (Reading, c')" by simp
    then obtain ev t es where "evs = ev # es" "thread_step L (Leaving, d) ev t" "runs (thread_step L) t es (Reading, c')"
      by (cases rule: runs.cases) auto
    with evs have left: "ignore (client_disconnect L) d = (Ok (), snd t)"
      "fst t = (if sb_reconnect (cl_builder (snd t)) then Trying 0 else Reading)"
      and rest: "runs (thread_step L) t es (Reading, c')" "list_all inner es"
      by (cases ev; auto simp: step_simps)+
    have "\<exists>fuel. reconnect L fuel (snd t) = Some (Ok (), c')"
    proof (cases "sb_reconnect (cl_builder (snd t))")
      case True
      with steps_loop [OF rest(1) _ rest(2)] left(2) show ?thesis by (auto simp: reconnect_def)
    next
      case False
      obtain e where "t = (Reading, e)" using False left(2) by (cases t) simp
      with False rest reading_stays [of L e es] show ?thesis by (auto simp: reconnect_def)
    qed
    with took(1) True left(1) s show ?thesis by (auto simp: poll_round_def)
  qed
qed

section \<open>What the steps keep\<close>

text \<open>What the builder configures.\<close>

definition configured :: "'j sbuilder \<Rightarrow> ('u, 'j) raw \<Rightarrow> bool" where
  "configured b s \<longleftrightarrow> rw_on s = sb_on b \<and> rw_on_any s = sb_on_any b \<and> rw_nsp s = sb_namespace b \<and> rw_auth s = sb_auth b"

lemma keeps_configured:
  fixes m :: "('u, 'j, 'a) raw_proc"
  assumes "\<And>s0. keeps (same_tables s0) m"
  shows "keeps (configured b) m"
proof (rule keepsI)
  fix s :: "('u, 'j) raw" assume "configured b s"
  with keepsD [OF assms same_tables_refl, of s] show "configured b (snd (m s))"
    by (simp add: configured_def same_tables_def)
qed

lemma configured_upd [simp]:
  "configured b (s\<lparr>rw_acks := as\<rparr>) = configured b s" "configured b (s\<lparr>rw_acks_locked := l\<rparr>) = configured b s"
  "configured b (s\<lparr>rw_socket := t\<rparr>) = configured b s" "configured b (with_net w s) = configured b s"
  by (simp_all add: configured_def with_net_def)

lemma keeps_configured_parts:
  "keeps (configured b) (raw_callback L e q)" "keeps (configured b) (on_socket m)"
  "keeps (configured b) (ack_loop L p i k acks r)" "keeps (configured b) (raw_emit L e d)"
  "keeps (configured b) (raw_emit_with_ack L e d t cb)" "keeps (configured b) (raw_disconnect L)"
  by (rule keeps_configured, simp add: keeps_raw_callback keeps_on_socket keeps_ack_loop keeps_raw_emit
      keeps_emit_with_ack raw_disconnect_def keeps_disconnect_with)+

lemma keeps_configured_ack: "keeps (configured b) (handle_ack L p)"
proof (rule keepsI)
  fix s :: "('a, 'b) raw" assume s: "configured b s"
  have "keeps (configured b) (seq (ack_loop L p i k acks r) (\<lambda>to_be_removed s1.
      let s2 = s1\<lparr>rw_acks_locked := False\<rparr> in
      case remove_indices to_be_removed (rw_acks s2) of
        None \<Rightarrow> (Panic, s2)
      | Some acks \<Rightarrow> (Ok (), s2\<lparr>rw_acks := acks\<rparr>)))" for i k acks r
    by (intro keeps_seq keeps_configured_parts) (auto simp: keeps_def Let_def split: option.split)
  from keepsD [OF this, of "s\<lparr>rw_acks_locked := True\<rparr>"] s show "configured b (snd (handle_ack L p s))"
    by (auto simp: handle_ack_def split: option.split)
qed

lemma keeps_configured_report:
  assumes "keeps (configured b) m"
  shows "keeps (configured b) (report L ret m)"
proof (rule keepsI)
  fix s :: "('a, 'b) raw" assume s: "configured b s"
  obtain r s1 where m: "m s = (r, s1)" by fastforce
  with keepsD [OF assms s] have s1: "configured b s1" by simp
  have "keeps (configured b) (seq (raw_callback L EvError q) (\<lambda>_. give x))" for q and x :: "(serror, unit) outcome"
    by (intro keeps_seq keeps_configured_parts) simp
  from keepsD [OF this s1] m s1 show "configured b (snd (report L ret m s))"
    by (simp add: report_def split: outcome.split)
qed

lemma keeps_configured_packet: "keeps (configured b) (raw_handle_packet L p)"
proof (rule keepsI)
  fix s :: "('a, 'b) raw" assume s: "configured b s"
  have event: "keeps (configured b) (handle_event L p)" "keeps (configured b) (handle_binary_event L p)"
    by (auto simp: handle_event_def handle_binary_event_def Let_def intro: keeps_configured_parts
        split: option.split sum.split list.split)
  show "configured b (snd (raw_handle_packet L p s))"
    using s event
    by (cases "s_type p") (simp_all add: raw_handle_packet_def keepsD [OF keeps_configured_report]
        keepsD [OF keeps_configured_parts(1)] keeps_configured_ack)
qed

lemma keeps_configured_poll: "configured b s \<Longrightarrow> configured b (snd (raw_poll L s))"
proof (induction L s rule: raw_poll.induct)
  case (1 L s)
  obtain r s1 where poll: "on_socket (ssocket_poll (sl_b64 L) (sl_url L) (sl_json L)) s = (r, s1)" by fastforce
  with keepsD [OF keeps_configured_parts(2) "1.prems"] have s1: "configured b s1" by (metis snd_conv)
  have err: "keeps (configured b) (seq (raw_callback L EvError q) (\<lambda>_. give x))" for q and x :: "(serror, spacket option) outcome"
    by (intro keeps_seq keeps_configured_parts) simp
  have pk: "keeps (configured b) (seq (raw_handle_packet L p) (\<lambda>_. give x))" for p and x :: "(serror, spacket option) outcome"
    by (intro keeps_seq keeps_configured_packet) simp
  show ?case
    using poll s1 "1.IH" keepsD [OF err s1] keepsD [OF pk s1]
    by (subst raw_poll.simps) (auto split: outcome.split option.split)
qed

lemma raw_step_configured: "raw_step L s l s' \<Longrightarrow> l \<noteq> RConnect \<Longrightarrow> configured b s \<Longrightarrow> configured b s'"
  using keepsD [OF keeps_configured_parts(4), of b s] keepsD [OF keeps_configured_parts(5), of b s]
    keepsD [OF keeps_configured_parts(6), of b s L] keeps_configured_poll [of b s L]
  by (fastforce elim!: raw_step.cases dest: arg_cong [where f = snd])

text \<open>Every step of a thread on the raw client is a call of the raw client, or an attempt.\<close>

lemma took_raw:
  "client_next L c = (Ok item, c') \<Longrightarrow> raw_step L (cl_raw c) RPoll (cl_raw c') \<and> cl_builder c' = cl_builder c"
  by (auto simp: client_next_def on_raw_def returned_def split: prod.splits outcome.splits option.splits intro!: step_poll)

lemma left_raw:
  "ignore (client_disconnect L) c = (Ok (), c') \<Longrightarrow>
     raw_step L (cl_raw c) RDisconnect (cl_raw c') \<and> cl_builder c' = cl_builder c"
  by (auto simp: client_disconnect_def ignore_def on_raw_def returned_def split: prod.splits outcome.splits
      intro!: step_disconnect)

lemma failed_raw:
  "do_reconnect L c = (Err e, c') \<Longrightarrow> \<exists>w. cl_raw c' = with_net w (cl_raw c) \<and> cl_builder c' = cl_builder c"
  by (auto simp: do_reconnect_def Let_def split: prod.splits outcome.splits)

lemma thread_step_cases:
  assumes "thread_step L s ev s'"
  obtains l where "raw_step L (cl_raw (snd s)) l (cl_raw (snd s'))" "l \<noteq> RConnect"
      "cl_builder (snd s') = cl_builder (snd s)" "ev = User l \<or> (\<nexists>k. ev = User k) \<and> l \<in> {RPoll, RDisconnect}"
    | w where "cl_raw (snd s') = with_net w (cl_raw (snd s))" "cl_builder (snd s') = cl_builder (snd s)" "\<nexists>l. ev = User l"
    | "do_reconnect L (wait_backoff (snd s)) = (Ok (), snd s')" "ev = Replaced"
proof (cases ev)
  case (Took item)
  with assms took_raw show thesis by (intro that(1) [of RPoll]) (auto simp: step_simps)
next
  case Left
  with assms left_raw show thesis by (intro that(1) [of RDisconnect]) (auto simp: step_simps)
next
  case (Failed e)
  with assms failed_raw show thesis by (fastforce simp: step_simps intro: that(2))
next
  case Replaced
  with assms that(3) show thesis by (auto simp: step_simps)
next
  case GaveUp
  have "with_net (raw_net r) r = r" for r :: "('a, 'b) raw" by (simp add: with_net_def raw_net_def)
  with assms GaveUp show thesis by (intro that(2) [of "raw_net (cl_raw (snd s))"]) (auto simp: step_simps)
next
  case (User l)
  with assms show thesis by (intro that(1) [of l]) (auto simp: step_simps)
qed

section \<open>Histories\<close>

fun user_calls :: "thread_event list \<Rightarrow> raw_call list" where
  "user_calls [] = []"
| "user_calls (User l # evs) = l # user_calls evs"
| "user_calls (_ # evs) = user_calls evs"

lemma user_calls_other [simp]: "\<nexists>l. ev = User l \<Longrightarrow> user_calls (ev # evs) = user_calls evs"
  by (cases ev) auto

lemma thread_step_configured:
  assumes "thread_step L s ev s'" "configured (cl_builder (snd s)) (cl_raw (snd s))"
  shows "configured (cl_builder (snd s')) (cl_raw (snd s')) \<and> cl_builder (snd s') = cl_builder (snd s)"
  using assms(1)
proof (cases rule: thread_step_cases)
  case 3
  with do_reconnect_fresh [of L "wait_backoff (snd s)"] do_reconnect_fields(2) [of L "wait_backoff (snd s)"]
  show ?thesis by (simp add: configured_def)
next
  case (1 l)
  with raw_step_configured [OF 1(1,2)] assms(2) show ?thesis by simp
qed (use assms(2) in simp)

text \<open>A step from a state in which the outstanding requests have distinct ids.\<close>

definition thread_step_distinct ::
  "('u, 'j) slib \<Rightarrow> thread_point \<times> ('u, 'j) client \<Rightarrow> thread_event \<Rightarrow> thread_point \<times> ('u, 'j) client \<Rightarrow> bool" where
  "thread_step_distinct L s ev s' \<longleftrightarrow> thread_step L s ev s' \<and> distinct (map ack_id (rw_acks (cl_raw (snd s))))"

abbreviation client_balance :: "nat \<Rightarrow> thread_point \<times> ('u, 'j) client \<Rightarrow> nat" where
  "client_balance cb s \<equiv> balance cb (cl_raw (snd s))"

lemma replaced_balance:
  assumes "do_reconnect L c = (Ok (), c')"
  shows "balance cb (cl_raw c') = called cb (cl_raw c)"
  using do_reconnect_fresh [OF assms] by (simp add: called_def waiting_def)

lemma thread_step_balance:
  assumes "quiet L cb" "thread_step_distinct L s ev s'"
  shows "client_balance cb s' \<le> client_balance cb s + 2 * requests cb (user_calls [ev])"
proof -
  have step: "thread_step L s ev s'" and dist: "distinct (map ack_id (rw_acks (cl_raw (snd s))))"
    using assms(2) by (simp_all add: thread_step_distinct_def)
  from step show ?thesis
  proof (cases rule: thread_step_cases)
    case (1 l)
    have "client_balance cb s' \<le> client_balance cb s + 2 * requests cb [l]"
      using raw_step_balance [OF assms(1)] 1(1) dist by (simp add: raw_step_distinct_def)
    with 1(4) show ?thesis by auto
  next
    case (2 w)
    then show ?thesis by (simp add: with_net_def)
  next
    case 3
    from replaced_balance [OF 3(1), of cb] show ?thesis by simp
  qed
qed

lemma user_calls_Cons: "user_calls (ev # evs) = user_calls [ev] @ user_calls evs"
  by (cases ev) simp_all

lemma requests_append: "requests cb (ls @ ks) = requests cb ls + requests cb ks"
  by (induction cb ls rule: requests.induct) simp_all

interpretation thread_history: ack_history
  "\<lambda>s ev s'. thread_step_distinct L s ev s' \<and> quiet L cb" "\<lambda>s. client_balance cb s"
  "\<lambda>ev. requests cb (user_calls [ev])"
  for L :: "('u, 'j) slib" and cb :: nat
  by unfold_locales (blast intro: thread_step_balance)

lemma user_requests: "sum_list (map (\<lambda>ev. requests cb (user_calls [ev])) evs) = requests cb (user_calls evs)"
  by (induction evs) (simp, subst (2) user_calls_Cons, simp add: requests_append)

lemma thread_runs_balance:
  assumes "runs (thread_step_distinct L) s evs s'" "quiet L cb"
  shows "client_balance cb s' \<le> client_balance cb s + 2 * requests cb (user_calls evs)"
proof -
  from assms have "runs (\<lambda>s ev s'. thread_step_distinct L s ev s' \<and> quiet L cb) s evs s'" by simp
  from thread_history.runs_balance [OF this] show ?thesis by (simp only: user_requests)
qed

section \<open>A history for the witnesses\<close>

text \<open>A client whose connection was closed, with a request waiting, in the reconnect loop; the server is
  back. The user disconnects, then the attempt succeeds.\<close>

definition lost_client :: "(nat, rstring) client" where
  "lost_client =
     waiting_client\<lparr>cl_builder := cl_builder (demo_client None 0)\<lparr>sb_on := [(EvMessage, 1), (EvClose, 2)]\<rparr>,
       cl_raw := (demo_raw [] [demo_ack 7 5 9])\<lparr>rw_socket :=
         \<lparr>ss_engine = (demo_socket [])\<lparr>es_connected := False, es_net := demo_restarted\<rparr>, ss_connected = True\<rparr>\<rparr>\<rparr>"

lemma lost_client_runs:
  obtains c' where "runs (thread_step (demo_slib (\<lambda>h. []))) (Trying 0, lost_client) [User RDisconnect, Replaced] (Reading, c')"
proof -
  let ?L = "demo_slib (\<lambda>h. [])" and ?raw = "cl_raw lost_client"
  have script: "sl_script ?L h = []" for h by (simp add: demo_slib_def)
  let ?r = "?raw\<lparr>rw_socket := (rw_socket ?raw)\<lparr>ss_connected := False\<rparr>, rw_calls := [CallOn 2 (PString [])]\<rparr>"
  have "raw_disconnect ?L ?raw = (Ok (), ?r)"
    using raw_callback_silent [OF script]
    by (simp add: raw_disconnect_def raw_disconnect_with_def seq_def ignore_def on_socket_def ssocket_send_def
        is_engineio_connected_def ssocket_disconnect_def lost_client_def)
      (simp add: expected_calls_def own_call_def any_call_def demo_raw_def raw_new_def)
  then have "raw_step ?L ?raw RDisconnect ?r" by (rule step_disconnect) (simp add: returned_def)
  then have one: "thread_step ?L (Trying 0, lost_client) (User RDisconnect) (Trying 0, lost_client\<lparr>cl_raw := ?r\<rparr>)"
    by (rule user) simp_all
  have "fst (do_reconnect ?L (wait_backoff (lost_client\<lparr>cl_raw := ?r\<rparr>))) = Ok ()"
    by (rule restarted_reconnects [where on = "[(EvMessage, 1), (EvClose, 2)]"])
      (simp_all add: lost_client_def raw_net_def demo_raw_def raw_new_def)
  then obtain c' where "do_reconnect ?L (wait_backoff (lost_client\<lparr>cl_raw := ?r\<rparr>)) = (Ok (), c')"
    by (metis prod.collapse)
  moreover have "may_try ?L 0 (lost_client\<lparr>cl_raw := ?r\<rparr>)"
    by (simp add: may_try_def lost_client_def)
  ultimately have "thread_step ?L (Trying 0, lost_client\<lparr>cl_raw := ?r\<rparr>) Replaced (Reading, c')"
    by (simp add: step_simps)
  with one show thesis by (intro that) (auto simp: runs_Cons)
qed

section \<open>Properties\<close>

text \<open>C26: the client stays the one that was built. Over any history of the polling thread and the user,
  through any number of reconnections, the raw client has the callbacks, the namespace and the auth
  data of the builder, and the builder is the same.\<close>

theorem configuration_kept:
  assumes "runs (thread_step L) s evs s'" "configured (cl_builder (snd s)) (cl_raw (snd s))"
  shows "configured (cl_builder (snd s)) (cl_raw (snd s')) \<and> cl_builder (snd s') = cl_builder (snd s)"
  using assms
proof (induction rule: runs.induct)
  case (runs_cons s ev t evs u)
  from thread_step_configured [OF runs_cons.hyps(1) runs_cons.prems] runs_cons.IH show ?case by metis
qed simp

theorem configuration_kept_witness:
  "\<exists>c'. runs (thread_step (demo_slib (\<lambda>h. []))) (Trying 0, lost_client) [User RDisconnect, Replaced] (Reading, c') \<and>
     configured (cl_builder lost_client) (cl_raw c')"
proof -
  obtain c' where run: "runs (thread_step (demo_slib (\<lambda>h. []))) (Trying 0, lost_client) [User RDisconnect, Replaced] (Reading, c')"
    by (rule lost_client_runs)
  have "configured (cl_builder (snd (Trying 0, lost_client))) (cl_raw (snd (Trying 0, lost_client)))"
    by (simp add: configured_def lost_client_def demo_client_def sbuilder_new_def demo_raw_def raw_new_def)
  from configuration_kept [OF run this] run show ?thesis by auto
qed

text \<open>C27: requests do not survive a reconnection. From the moment the connection is replaced, an
  acknowledgement callback is called at most twice for each request made with it since then; a request
  that was waiting is neither answered nor given up, its callback is just never called. This holds as long
  as no callback itself asks for an acknowledgement with this callback (\<open>quiet\<close>) and the outstanding
  requests have distinct ids before every step (\<open>thread_step_distinct\<close>): ids are random, and with two equal
  ones a request that was answered can stay in the list and be answered again.\<close>

theorem requests_forgotten:
  assumes "runs (thread_step_distinct L) s (Replaced # evs) s'" "quiet L cb"
  shows "called cb (cl_raw (snd s')) \<le> called cb (cl_raw (snd s)) + 2 * requests cb (user_calls evs)"
proof -
  from assms(1) obtain t where t: "thread_step L s Replaced t" "runs (thread_step_distinct L) t evs s'"
    by (auto simp: runs_Cons thread_step_distinct_def)
  from t(1) have "client_balance cb t = called cb (cl_raw (wait_backoff (snd s)))"
    by (intro replaced_balance) (auto simp: step_simps)
  with thread_runs_balance [OF t(2) assms(2)] show ?thesis by simp
qed

theorem requests_forgotten_witness:
  "\<exists>c'. runs (thread_step_distinct (demo_slib (\<lambda>h. []))) (Trying 0, waiting_client) [Replaced] (Reading, c') \<and>
     waiting 9 (cl_raw waiting_client) = 1 \<and> called 9 (cl_raw c') = 0"
proof -
  let ?L = "demo_slib (\<lambda>h. [])"
  have "fst (do_reconnect ?L (wait_backoff waiting_client)) = Ok ()"
    by (rule restarted_reconnects [where on = "[]"])
      (simp_all add: waiting_client_def, simp_all add: demo_client_def sbuilder_new_def demo_raw_def raw_new_def)
  then obtain c' where "do_reconnect ?L (wait_backoff waiting_client) = (Ok (), c')" by (metis prod.collapse)
  moreover have "may_try ?L 0 waiting_client" by (simp add: may_try_def waiting_client_def)
  ultimately have "thread_step ?L (Trying 0, waiting_client) Replaced (Reading, c')" by (simp add: step_simps)
  then have run: "runs (thread_step_distinct ?L) (Trying 0, waiting_client) [Replaced] (Reading, c')"
    by (simp add: runs_Cons thread_step_distinct_def waiting_client_def with_net_def)
  have "quiet ?L 9" by (simp add: quiet_def demo_slib_def)
  from requests_forgotten [OF run this] have "called 9 (cl_raw c') = 0"
    by (simp add: called_def waiting_client_def)
  with run show ?thesis
    by (auto simp: waiting_def waiting_client_def with_net_def demo_ack_def)
qed

text \<open>A \<open>disconnect\<close> while the thread reconnects is undone. Whatever the user calls in the reconnect loop, a
  later attempt that succeeds leaves the client open, with its callbacks called again, although
  \<open>disconnect\<close> has returned and the close callback was called.\<close>

theorem disconnect_undone:
  assumes "runs (thread_step L) (Trying a, c) (User RDisconnect # evs @ [Replaced]) (at', c')"
  shows "at' = Reading \<and> ss_open (rw_socket (cl_raw c')) \<and> rw_on (cl_raw c') = sb_on (cl_builder c')"
proof -
  from assms obtain s where "thread_step L s Replaced (at', c')"
    by (auto simp: runs_Cons runs_append)
  then obtain d where "at' = Reading" "do_reconnect L d = (Ok (), c')" by (auto simp: step_simps)
  with do_reconnect_fresh [of L d "()" c'] do_reconnect_fields(2) [of L d] show ?thesis by simp
qed

theorem disconnect_undone_witness:
  "\<exists>c'. runs (thread_step (demo_slib (\<lambda>h. []))) (Trying 0, lost_client) [User RDisconnect, Replaced] (Reading, c') \<and>
     ss_open (rw_socket (cl_raw c'))"
proof -
  obtain c' where run: "runs (thread_step (demo_slib (\<lambda>h. []))) (Trying 0, lost_client) [User RDisconnect, Replaced] (Reading, c')"
    by (rule lost_client_runs)
  from disconnect_undone [of "demo_slib (\<lambda>h. [])" 0 lost_client "[]"] run show ?thesis by auto
qed

end
