(* ===== verification/Async_Raw_Runs.thy ===== *)
theory Async_Raw_Runs
  imports Ack_Books Sio_Async_Client
begin

text \<open>
  Histories of the asynchronous socket.io client: any sequence of calls that come back and of items of
  its stream. It fulfils the contract of \<open>Ack_Books\<close>, so its acknowledgement callbacks are called as
  often as those of the blocking client.
\<close>

section \<open>Histories\<close>

datatype araw_call =
    AConnected
  | AEmitted sevent spayload
  | ARequested sevent spayload nat nat
  | AItem "(serror + spacket) option"
  | ADisconnected

inductive araw_step :: "('u, 'j) slib \<Rightarrow> ('u, 'j) araw \<Rightarrow> araw_call \<Rightarrow> ('u, 'j) araw \<Rightarrow> bool" for L where
  astep_connect: "araw_connect L s = (r, s') \<Longrightarrow> returned r \<Longrightarrow> araw_step L s AConnected s'"
| astep_emit: "araw_emit L e d s = (r, s') \<Longrightarrow> returned r \<Longrightarrow> araw_step L s (AEmitted e d) s'"
| astep_ack: "araw_emit_with_ack L e d t cb s = (r, s') \<Longrightarrow> returned r \<Longrightarrow>
    araw_step L s (ARequested e d t cb) s'"
| astep_item: "as_stream_next L s = (Ok item, s') \<Longrightarrow> araw_step L s (AItem item) s'"
| astep_disconnect: "araw_disconnect L s = (r, s') \<Longrightarrow> returned r \<Longrightarrow> araw_step L s ADisconnected s'"

inductive_cases araw_stepE: "araw_step L s l s'"

text \<open>A step from a state in which the outstanding requests have distinct ids.\<close>

definition araw_step_distinct :: "('u, 'j) slib \<Rightarrow> ('u, 'j) araw \<Rightarrow> araw_call \<Rightarrow> ('u, 'j) araw \<Rightarrow> bool" where
  "araw_step_distinct L s l s' \<longleftrightarrow> araw_step L s l s' \<and> distinct (map ack_id (ra_acks s))"

fun arequests :: "nat \<Rightarrow> araw_call list \<Rightarrow> nat" where
  "arequests cb [] = 0"
| "arequests cb (ARequested e d t c # ls) = (if c = cb then 1 else 0) + arequests cb ls"
| "arequests cb (l # ls) = arequests cb ls"

section \<open>What scripts keep\<close>

lemma keeps_arun_actions: "(\<And>a. a \<in> set as \<Longrightarrow> keeps I (arun_action L a)) \<Longrightarrow> keeps I (arun_actions L as)"
proof (induction as)
  case (Cons a as)
  then show ?case by (simp only: arun_actions.simps) (intro keeps_seq; simp)
qed (simp add: keeps_def)

text \<open>The tables, the namespace and the auth data, with the list of requests while it is locked.\<close>

definition atables ::
  "ack list \<Rightarrow> (sevent \<times> nat) list \<Rightarrow> nat option \<Rightarrow> rstring \<Rightarrow> 'j option \<Rightarrow> bool \<Rightarrow> ('u, 'j) araw \<Rightarrow> bool" where
  "atables as on any nsp auth locked s \<longleftrightarrow> ra_on s = on \<and> ra_on_any s = any \<and> ra_nsp s = nsp \<and> ra_auth s = auth \<and>
     ra_acks_locked s = locked \<and> (locked \<longrightarrow> ra_acks s = as)"

abbreviation the_tables :: "('u, 'j) araw \<Rightarrow> ('u, 'j) araw \<Rightarrow> bool" where
  "the_tables s \<equiv> atables (ra_acks s) (ra_on s) (ra_on_any s) (ra_nsp s) (ra_auth s) (ra_acks_locked s)"

lemma the_tables_refl [simp]: "the_tables s s"
  by (simp add: atables_def)

lemma keeps_tables_asocket: "keeps (atables as on any nsp auth locked) (on_asocket m)"
  by (rule keepsI) (simp add: on_asocket_def atables_def split: prod.splits)

lemma keeps_tables_action: "keeps (atables as on any nsp auth locked) (arun_action L a)"
proof (cases a)
  case (AEmit e d)
  have "keeps (atables as on any nsp auth locked) (araw_emit L e d)"
    by (rule keepsI) (simp add: araw_emit_def keepsD [OF keeps_tables_asocket])
  with AEmit show ?thesis by (simp only: arun_action.simps) (rule keeps_ignore)
next
  case (AEmitWithAck e d t cb)
  have "keeps (atables as on any nsp auth locked) (araw_emit_with_ack L e d t cb)"
    by (rule keepsI)
      (auto simp: araw_emit_with_ack_def adraw_id_def aread_clock_def on_asocket_def atables_def Let_def
        split: prod.splits sum.split)
  with AEmitWithAck show ?thesis by (simp only: arun_action.simps) (rule keeps_ignore)
next
  case ADisconnect
  have "keeps (atables as on any nsp auth locked) (araw_disconnect L)"
  proof (rule keepsI)
    fix s :: "('a, 'b) araw" assume s: "atables as on any nsp auth locked s"
    have "keeps (atables as on any nsp auth locked)
        (seq (on_asocket m) (\<lambda>_. on_asocket (assocket_disconnect (sl_b64 L) (sl_url L))))" for m
      by (intro keeps_seq keeps_tables_asocket)
    from keepsD [OF this s] show "atables as on any nsp auth locked (snd (araw_disconnect L s))"
      by (simp add: araw_disconnect_def)
  qed
  with ADisconnect show ?thesis by (simp only: arun_action.simps) (rule keeps_ignore)
qed

lemma keeps_tables_call: "keeps (atables as on any nsp auth locked) (arun_call_option L c)"
proof (rule keepsI)
  fix s :: "('a, 'b) araw" assume "atables as on any nsp auth locked s"
  then have "atables as on any nsp auth locked (s\<lparr>ra_calls := ra_calls s @ [the c]\<rparr>)" by (simp add: atables_def)
  with \<open>atables as on any nsp auth locked s\<close> keepsD [OF keeps_arun_actions [OF keeps_tables_action]]
  show "atables as on any nsp auth locked (snd (arun_call_option L c s))"
    by (cases c) (simp_all add: arun_call_option_def arun_call_def)
qed

lemma keeps_tables_callback: "keeps (atables as on any nsp auth locked) (araw_callback L e q)"
proof (rule keepsI)
  fix s :: "('a, 'b) araw" assume s: "atables as on any nsp auth locked s"
  have "keeps (atables as on any nsp auth locked) (seq (arun_call_option L c) (\<lambda>_. arun_call_option L d))" for c d
    by (intro keeps_seq keeps_tables_call)
  from keepsD [OF this s] show "atables as on any nsp auth locked (snd (araw_callback L e q s))"
    by (simp add: araw_callback_def)
qed

section \<open>Calls of one acknowledgement callback\<close>

definition acalled :: "nat \<Rightarrow> ('u, 'j) araw \<Rightarrow> nat" where
  "acalled cb s = ack_calls cb (ra_calls s)"

definition awaiting :: "nat \<Rightarrow> ('u, 'j) araw \<Rightarrow> nat" where
  "awaiting cb s = ack_waits cb (ra_acks s)"

abbreviation aaccount :: "nat \<Rightarrow> nat \<Rightarrow> nat \<Rightarrow> ('u, 'j) araw \<Rightarrow> bool" where
  "aaccount cb c w s \<equiv> acalled cb s = c \<and> awaiting cb s = w"

lemma aaccount_upd [simp]:
  "acalled cb (s\<lparr>ra_socket := t\<rparr>) = acalled cb s" "awaiting cb (s\<lparr>ra_socket := t\<rparr>) = awaiting cb s"
  "acalled cb (s\<lparr>ra_time := f\<rparr>) = acalled cb s" "awaiting cb (s\<lparr>ra_time := f\<rparr>) = awaiting cb s"
  "acalled cb (s\<lparr>ra_rand := f\<rparr>) = acalled cb s" "awaiting cb (s\<lparr>ra_rand := f\<rparr>) = awaiting cb s"
  "acalled cb (s\<lparr>ra_acks := as\<rparr>) = acalled cb s" "awaiting cb (s\<lparr>ra_calls := cs\<rparr>) = awaiting cb s"
  "acalled cb (s\<lparr>ra_calls := ra_calls s @ [x]\<rparr>) = acalled cb s + (if is_ack_call cb x then 1 else 0)"
  by (simp_all add: acalled_def awaiting_def)

lemma keeps_aaccount_asocket: "keeps (aaccount cb c w) (on_asocket m)"
  by (rule keepsI) (simp add: on_asocket_def split: prod.splits)

lemma aemit_account [simp]:
  "acalled cb (snd (araw_emit L e d s)) = acalled cb s" "awaiting cb (snd (araw_emit L e d s)) = awaiting cb s"
  by (simp_all add: araw_emit_def on_asocket_def split: prod.splits)

lemma aemit_with_ack_account:
  "acalled cb (snd (araw_emit_with_ack L e d t c s)) = acalled cb s"
  "awaiting cb (snd (araw_emit_with_ack L e d t c s)) \<le> awaiting cb s + (if c = cb then 1 else 0)"
  "c \<noteq> cb \<Longrightarrow> awaiting cb (snd (araw_emit_with_ack L e d t c s)) = awaiting cb s"
  by (auto simp: araw_emit_with_ack_def adraw_id_def aread_clock_def Let_def awaiting_def on_asocket_def
      split: prod.splits sum.splits)

lemma keeps_aaccount_two:
  "keeps (aaccount cb c w) (\<lambda>s. seq (on_asocket (m s)) (\<lambda>_. on_asocket (n s)) s)"
proof (rule keepsI)
  fix s :: "('a, 'b) araw" assume "aaccount cb c w s"
  moreover have "keeps (aaccount cb c w) (seq (on_asocket (m s)) (\<lambda>_. on_asocket (n s)))"
    by (intro keeps_seq keeps_aaccount_asocket)
  ultimately show "aaccount cb c w (snd (seq (on_asocket (m s)) (\<lambda>_. on_asocket (n s)) s))" by (rule keepsD [rotated])
qed

lemma keeps_aaccount_disconnect: "keeps (aaccount cb c w) (araw_disconnect L)"
  using keeps_aaccount_two [of cb c w] by (simp add: keeps_def araw_disconnect_def)

lemma keeps_aaccount_connect: "keeps (aaccount cb c w) (araw_connect L)"
  using keeps_aaccount_two [of cb c w] by (simp add: keeps_def araw_connect_def Let_def)

lemma keeps_aaccount_action:
  "(\<And>e d t. a \<noteq> AEmitWithAck e d t cb) \<Longrightarrow> keeps (aaccount cb c w) (arun_action L a)"
  by (cases a) (auto simp: keeps_def aemit_with_ack_account keepsD [OF keeps_aaccount_disconnect])

lemma arun_call_account:
  assumes "quiet L cb"
  shows "aaccount cb (acalled cb s + (if is_ack_call cb x then 1 else 0)) (awaiting cb s) (snd (arun_call L x s))"
proof -
  have "keeps (aaccount cb (acalled cb s + (if is_ack_call cb x then 1 else 0)) (awaiting cb s))
      (arun_actions L (sl_script L (ra_calls s @ [x])))"
    using assms by (intro keeps_arun_actions keeps_aaccount_action) (auto simp: quiet_def)
  from keepsD [OF this, of "s\<lparr>ra_calls := ra_calls s @ [x]\<rparr>"] show ?thesis by (simp add: arun_call_def)
qed

lemma keeps_aaccount_call:
  assumes "quiet L cb" "\<And>q. x \<noteq> Some (CallAck cb q)"
  shows "keeps (aaccount cb c w) (arun_call_option L x)"
proof (rule keepsI)
  fix s :: "('a, 'b) araw" assume s: "aaccount cb c w s"
  show "aaccount cb c w (snd (arun_call_option L x s))"
  proof (cases x)
    case (Some y)
    have "\<not> is_ack_call cb y" using assms(2) Some by (cases y) auto
    with arun_call_account [OF assms(1), of y s] s Some show ?thesis by (simp add: arun_call_option_def)
  qed (use s in \<open>simp add: arun_call_option_def\<close>)
qed

lemma keeps_aaccount_callback:
  assumes "quiet L cb"
  shows "keeps (aaccount cb c w) (araw_callback L e q)"
proof (rule keepsI)
  fix s :: "('a, 'b) araw" assume s: "aaccount cb c w s"
  have "keeps (aaccount cb c w) (seq (arun_call_option L (own_call (ra_on s) e q))
      (\<lambda>_. arun_call_option L (any_call (ra_on_any s) e q)))"
    by (intro keeps_seq keeps_aaccount_call assms) (auto simp: own_call_def any_call_def split: sevent.splits)
  from keepsD [OF this s] show "aaccount cb c w (snd (araw_callback L e q s))" by (simp add: araw_callback_def)
qed

section \<open>Acknowledgements\<close>

lemma arun_call_option_account:
  assumes "quiet L cb"
  shows "acalled cb (snd (arun_call_option L x s)) \<le> acalled cb s + 1"
  using arun_call_account [OF assms, of "the x" s] by (cases x) (simp_all add: arun_call_option_def)

lemma keeps_acall_ack:
  assumes "\<And>c. keeps I (arun_call_option L c)" "I (snd (aread_clock s))"
  shows "I (snd (acall_ack L p a s))"
proof -
  have "keeps I (seq (arun_call_option L c) (\<lambda>_. arun_call_option L d))" for c d
    by (intro keeps_seq assms(1))
  from keepsD [OF this assms(2)] assms(2) show ?thesis
    by (auto simp: acall_ack_def Let_def split: prod.splits)
qed

lemma acall_ack_account:
  assumes "quiet L cb"
  shows "acalled cb (snd (acall_ack L p a s)) \<le> acalled cb s + (if ack_callback a = cb then 2 else 0)"
proof -
  let ?x = "map_option (\<lambda>d. CallAck (ack_callback a) (PString d)) (s_data p)"
  let ?y = "case s_attachments p of Some (payload # _) \<Rightarrow> Some (CallAck (ack_callback a) (PBinary payload)) | _ \<Rightarrow> None"
  let ?two = "seq (arun_call_option L ?x) (\<lambda>_. arun_call_option L ?y)"
  have two: "acalled cb (snd (?two t)) \<le> acalled cb t + (if ack_callback a = cb then 2 else 0)" for t
  proof (cases "ack_callback a = cb")
    case True
    let ?u = "snd (arun_call_option L ?x t)"
    have "acalled cb ?u \<le> acalled cb t + 1" "acalled cb (snd (arun_call_option L ?y ?u)) \<le> acalled cb ?u + 1"
      by (rule arun_call_option_account [OF assms])+
    moreover have "snd (?two t) = ?u \<or> snd (?two t) = snd (arun_call_option L ?y ?u)"
      using snd_seq_cases [of "arun_call_option L ?x" "\<lambda>_. arun_call_option L ?y" t] by blast
    ultimately show ?thesis using True by (elim disjE) simp_all
  next
    case False
    then have "\<And>q. ?x \<noteq> Some (CallAck cb q)" "\<And>q. ?y \<noteq> Some (CallAck cb q)"
      by (auto split: option.splits list.splits)
    then have "keeps (aaccount cb (acalled cb t) (awaiting cb t)) ?two"
      by (intro keeps_seq keeps_aaccount_call assms)
    from keepsD [OF this, of t] False show ?thesis by simp
  qed
  have "acalled cb (snd (aread_clock s)) = acalled cb s" by (simp add: aread_clock_def)
  with two [of "snd (aread_clock s)"] show ?thesis by (auto simp: acall_ack_def Let_def aread_clock_def)
qed

lemma arun_call_option_no_err: "arun_call_option L c s \<noteq> (Err e, t)"
proof -
  have "arun_action L a s \<noteq> (Err e, t)" for a s
    by (cases a) (simp_all add: ignore_no_err)
  then have "arun_actions L as s \<noteq> (Err e, t)" for as s
    by (induction as arbitrary: s) (auto simp: seq_def split: prod.splits outcome.splits)
  then show ?thesis by (simp add: arun_call_option_def arun_call_def split: option.splits)
qed

lemma araw_callback_no_err: "araw_callback L e q s \<noteq> (Err x, t)"
  by (auto simp: araw_callback_def seq_def arun_call_option_no_err split: prod.splits outcome.splits)

lemma acall_ack_no_err: "acall_ack L p a s \<noteq> (Err e, t)"
  by (auto simp: acall_ack_def Let_def seq_def arun_call_option_no_err split: prod.splits outcome.splits if_splits)

text \<open>The client fulfils the contract.\<close>

interpretation araw_book: ack_book ra_acks ra_calls ra_acks_locked "acall_ack L" "aack_loop L" "ahandle_ack L" "quiet L"
  for L :: "('u, 'j) slib"
proof unfold_locales
  show "aack_loop L p i k [] ks = give (Ok ks)" for p i k ks by simp
  show "aack_loop L p i k (a # as) ks =
      (if ack_id a = i then seq (acall_ack L p a) (\<lambda>_. aack_loop L p i (Suc k) as (ks @ [k]))
       else aack_loop L p i (Suc k) as ks)" for p i k a as ks by simp
  show "ra_acks_locked (snd (acall_ack L p a s)) \<and> ra_acks (snd (acall_ack L p a s)) = ra_acks s"
    if "ra_acks_locked s" for s p a
    using keeps_acall_ack [OF keeps_tables_call, where s = s] that
    by (fastforce simp: atables_def aread_clock_def)
  show "quiet L cb \<Longrightarrow> ack_calls cb (ra_calls (snd (acall_ack L p a s)))
      \<le> ack_calls cb (ra_calls s) + (if ack_callback a = cb then 2 else 0)" for cb p a s
    using acall_ack_account [of L cb p a s] by (simp add: acalled_def)
  show "acall_ack L p a s \<noteq> (Err e, t)" for p a s e t by (rule acall_ack_no_err)
  show "s_id p = None \<Longrightarrow> ahandle_ack L p s = (Ok (), s)" for p s by (simp add: ahandle_ack_def)
  fix p i s r s'
  assume "s_id p = Some i" "ahandle_ack L p s = (r, s')" "returned r"
  then show "\<exists>s0 r1 s1. ra_acks_locked s0 \<and> ra_acks s0 = ra_acks s \<and> ra_calls s0 = ra_calls s \<and>
      aack_loop L p i 0 (ra_acks s) [] s0 = (r1, s1) \<and> ra_calls s' = ra_calls s1 \<and>
      (\<forall>ks. r1 = Ok ks \<longrightarrow> remove_indices ks (ra_acks s1) = Some (ra_acks s')) \<and>
      (\<exists>x. r1 = Ok x \<or> (\<exists>e. r1 = Err e))"
    by (intro exI [of _ "s\<lparr>ra_acks_locked := True\<rparr>"])
      (auto simp: ahandle_ack_def seq_def Let_def returned_def split: if_splits prod.splits outcome.splits option.splits)
qed

abbreviation abalance :: "nat \<Rightarrow> ('u, 'j) araw \<Rightarrow> nat" where
  "abalance cb s \<equiv> acalled cb s + 2 * awaiting cb s"

lemma ahandle_ack_balance:
  assumes "quiet L cb" "distinct (map ack_id (ra_acks s))" "ahandle_ack L p s = (r, s')" "returned r"
  shows "abalance cb s' \<le> abalance cb s"
  using araw_book.handle_balance [OF assms(3,4,2,1)] by (simp add: acalled_def awaiting_def)

section \<open>Packets and items\<close>

lemma acallback_balance: "quiet L cb \<Longrightarrow> araw_callback L e q s = (r, s') \<Longrightarrow> abalance cb s' = abalance cb s"
  using keepsD [OF keeps_aaccount_callback [of L cb "acalled cb s" "awaiting cb s" e q], of s] by simp

lemma aevent_balance:
  assumes "quiet L cb"
  shows "ahandle_event L p s = (r, s') \<Longrightarrow> abalance cb s' = abalance cb s"
    "ahandle_binary_event L p s = (r, s') \<Longrightarrow> abalance cb s' = abalance cb s"
  using acallback_balance [OF assms]
  by (auto simp: ahandle_event_def ahandle_binary_event_def Let_def split: option.splits sum.splits list.splits)

lemma areport_balance:
  assumes "quiet L cb" "areport L b m s = (r, s')" "returned r"
    and "\<And>r1 s1. m s = (r1, s1) \<Longrightarrow> returned r1 \<Longrightarrow> abalance cb s1 \<le> abalance cb s"
  shows "abalance cb s' \<le> abalance cb s"
proof -
  obtain r1 s1 where m: "m s = (r1, s1)" by fastforce
  show ?thesis
  proof (cases r1)
    case (Err e)
    then have "abalance cb s1 \<le> abalance cb s" using assms(4) [OF m] by (simp add: returned_def)
    moreover obtain r2 where "araw_callback L EvError (PString (sl_display L e)) s1 = (r2, s')"
      using assms(2) m Err by (auto simp: areport_def seq_def split: prod.splits outcome.splits)
    ultimately show ?thesis using acallback_balance [OF assms(1)] by fastforce
  qed (use assms m in \<open>auto simp: areport_def\<close>)
qed

lemma ahandle_packet_balance:
  assumes "quiet L cb" "distinct (map ack_id (ra_acks s))" "araw_handle_packet L p s = (r, s')" "returned r"
  shows "abalance cb s' \<le> abalance cb s"
proof (cases "s_nsp p = ra_nsp s")
  case True
  note report = areport_balance [OF assms(1) _ assms(4)]
  have events: "abalance cb s1 \<le> abalance cb s" if "ahandle_event L p s = (r1, s1) \<or> ahandle_binary_event L p s = (r1, s1)" for r1 s1
    using aevent_balance [OF assms(1), of p s r1 s1] that by auto
  from True report events ahandle_ack_balance [OF assms(1,2), of p] acallback_balance [OF assms(1)] assms(3) show ?thesis
    by (cases "s_type p") (fastforce simp: araw_handle_packet_def)+
qed (use assms(3) in \<open>simp add: araw_handle_packet_def\<close>)

lemma on_asocket_account:
  assumes "on_asocket m s = (r, s1)"
  shows "abalance cb s1 = abalance cb s" "ra_acks s1 = ra_acks s" "ra_nsp s1 = ra_nsp s"
  using assms by (auto simp: on_asocket_def split: prod.splits)

lemma astream_balance:
  assumes "quiet L cb" "distinct (map ack_id (ra_acks s))" "as_stream_next L s = (Ok item, s')"
  shows "abalance cb s' \<le> abalance cb s"
proof -
  obtain r s1 where poll: "on_asocket (assocket_next (sl_b64 L) (sl_url L) (sl_json L)) s = (r, s1)" by fastforce
  note same = on_asocket_account [OF poll]
  show ?thesis
  proof (cases r)
    case (Ok o')
    show ?thesis
    proof (cases o')
      case None
      with assms(3) poll Ok same(1) [of cb] show ?thesis by (simp add: as_stream_next_def)
    next
      case (Some packet)
      obtain r2 s2 where packet: "araw_handle_packet L packet s1 = (r2, s2)" by fastforce
      with assms(3) poll Ok Some have "s2 = s'" "returned r2"
        by (auto simp: as_stream_next_def returned_def split: outcome.splits)
      with ahandle_packet_balance [OF assms(1) _ packet] same(1) [of cb] same(2) assms(2) show ?thesis by simp
    qed
  next
    case (Err e)
    obtain r2 s2 where callback: "araw_callback L EvError (PString (sl_display L e)) s1 = (r2, s2)" by fastforce
    with assms(3) poll Err have "s2 = s'" by (auto simp: as_stream_next_def split: outcome.splits)
    with acallback_balance [OF assms(1) callback] same(1) [of cb] show ?thesis by simp
  qed (use assms(3) poll in \<open>simp_all add: as_stream_next_def\<close>)
qed

section \<open>Whole histories\<close>

lemma araw_step_balance:
  assumes "quiet L cb" "araw_step_distinct L s l s'"
  shows "abalance cb s' \<le> abalance cb s + 2 * arequests cb [l]"
proof -
  have dist: "distinct (map ack_id (ra_acks s))" using assms(2) by (simp add: araw_step_distinct_def)
  from assms(2) have "araw_step L s l s'" by (simp add: araw_step_distinct_def)
  then show ?thesis
  proof cases
    case (astep_connect r)
    with keepsD [OF keeps_aaccount_connect [of cb "acalled cb s" "awaiting cb s" L], of s] show ?thesis by simp
  next
    case (astep_emit e d r)
    with aemit_account [of cb L e d s] show ?thesis by simp
  next
    case (astep_ack e d t c r)
    with aemit_with_ack_account(1,2) [of cb L e d t c s] show ?thesis by (auto split: if_splits)
  next
    case (astep_item item)
    with astream_balance [OF assms(1) dist astep_item(2)] show ?thesis by simp
  next
    case (astep_disconnect r)
    with keepsD [OF keeps_aaccount_disconnect [of cb "acalled cb s" "awaiting cb s" L], of s] show ?thesis by simp
  qed
qed

lemma arequests_sum: "sum_list (map (\<lambda>l. arequests cb [l]) ls) = arequests cb ls"
proof (induction ls)
  case (Cons l ls)
  then show ?case by (cases l) auto
qed simp

interpretation araw_history: ack_history
  "\<lambda>s l s'. araw_step_distinct L s l s' \<and> quiet L cb" "\<lambda>s. abalance cb s" "\<lambda>l. arequests cb [l]"
  for L :: "('u, 'j) slib" and cb :: nat
  by unfold_locales (blast intro: araw_step_balance)

section \<open>A history for the witnesses\<close>

text \<open>A request made before the connection is open, which fails but is kept, and the acknowledgement of it.\<close>

definition early_araw :: "(nat, rstring) araw" where
  "early_araw =
     (demo_araw [])\<lparr>ra_socket := (demo_assocket [WsMsg (WsText (lit ''430[7]''))])\<lparr>sa_connected := False\<rparr>\<rparr>"

definition early_ack :: spacket where
  "early_ack = spacket SAck (lit ''/'') (Some (lit ''[7]'')) (Some 0) 0 None"

lemma early_packet: "spacket_try_from flat_json (utf8 (lit ''30[7]'')) = Inr early_ack"
proof -
  have "list_all scalar (lit ''30[7]'')" by (simp add: scalar_def)
  from utf8_scalars [OF this] show ?thesis
    by (simp add: spacket_try_from_def early_ack_def spacket_def decode_text_def spacket_id_try_from_char_def
        decode_count_def is_binary_type_def parse_u8_def digits_value_def spacket_default_def decode_nsp_def
        starts_with_def decode_id_def is_ascii_digit_def parse_i32_def decode_data_def flat_json_def)
qed

lemma early_items:
  "abacklog nibble64 (sa_engine (ra_socket early_araw)) = map (Some \<circ> Inr) (epacket EMessage (utf8 (lit ''30[7]'')) # []) @ []"
  using ws_items_message(2) [of "lit ''30[7]''" nibble64] aws_items_agree [of "WsMsg (WsText (lit ''430[7]''))"]
  by (simp add: early_araw_def demo_abacklog scalar_def del: aws_items.simps ws_items.simps)

lemma early_next:
  obtains t where "assocket_next nibble64 demo_urls flat_json (ra_socket early_araw) = (Ok (Some early_ack), t)"
proof -
  from early_items early_packet show thesis
    using assocket_next_assembles [of "ra_socket early_araw" nibble64 "epacket EMessage (utf8 (lit ''30[7]''))" "[]" "[]"
        flat_json early_ack demo_urls] that
    by (fastforce simp: early_araw_def is_message_def early_ack_def spacket_def)
qed

lemma early_runs:
  obtains s' where "araw_step_distinct (demo_slib (\<lambda>h. [])) early_araw (ARequested EvMessage (PBinary [1]) 10 5) s'"
    "ra_acks s' = [\<lparr>ack_id = 0, ack_timeout = 10, ack_started = 0, ack_callback = 5\<rparr>]" "ra_nsp s' = lit ''/''"
    "\<exists>s''. as_stream_next (demo_slib (\<lambda>h. [])) s' = (Ok (Some (Inr early_ack)), s'') \<and> ra_acks s'' = [] \<and>
       ra_calls s'' = [CallAck 5 (PString (lit ''[7]''))]"
proof -
  let ?L = "demo_slib (\<lambda>h. [])"
  let ?a = "\<lparr>ack_id = 0, ack_timeout = 10, ack_started = 0, ack_callback = 5\<rparr>"
  let ?s1 = "early_araw\<lparr>ra_rand := (\<lambda>n. Suc n), ra_time := (\<lambda>n. Suc n), ra_acks := [?a]\<rparr>"
  have "araw_emit_with_ack ?L EvMessage (PBinary [1]) 10 5 early_araw = (Err SIllegalActionBeforeOpen, ?s1)"
    by (simp add: araw_emit_with_ack_def adraw_id_def aread_clock_def early_araw_def demo_araw_def araw_new_def
        on_asocket_def assocket_send_def abuild_packet_for_payload_def)
  then have one: "araw_step_distinct ?L early_araw (ARequested EvMessage (PBinary [1]) 10 5) ?s1"
    by (auto simp: araw_step_distinct_def returned_def early_araw_def demo_araw_def araw_new_def intro: astep_ack)
  obtain t where t: "assocket_next nibble64 demo_urls flat_json (ra_socket early_araw) = (Ok (Some early_ack), t)"
    by (rule early_next)
  have "assocket_next (sl_b64 ?L) (sl_url ?L) (sl_json ?L) (ra_socket ?s1) = (Ok (Some early_ack), t)"
    using t by simp
  then have "\<exists>s''. as_stream_next ?L ?s1 = (Ok (Some (Inr early_ack)), s'') \<and> ra_acks s'' = [] \<and>
      ra_calls s'' = [CallAck 5 (PString (lit ''[7]''))]"
    by (simp add: as_stream_next_def on_asocket_def araw_handle_packet_def early_ack_def spacket_def areport_def
        ahandle_ack_def acall_ack_def aread_clock_def arun_call_option_def arun_call_def early_araw_def
        demo_araw_def araw_new_def seq_def)
  with one show thesis
    by (intro that [of ?s1]) (simp_all add: early_araw_def)
qed

lemma early_history:
  obtains s' where "runs (araw_step_distinct (demo_slib (\<lambda>h. []))) early_araw
      [ARequested EvMessage (PBinary [1]) 10 5, AItem (Some (Inr early_ack))] s'"
    "ra_acks s' = []" "ra_calls s' = [CallAck 5 (PString (lit ''[7]''))]"
proof -
  let ?L = "demo_slib (\<lambda>h. [])"
  obtain s1 where one: "araw_step_distinct ?L early_araw (ARequested EvMessage (PBinary [1]) 10 5) s1"
    and acks: "ra_acks s1 = [\<lparr>ack_id = 0, ack_timeout = 10, ack_started = 0, ack_callback = 5\<rparr>]"
    and "\<exists>s'. as_stream_next ?L s1 = (Ok (Some (Inr early_ack)), s') \<and> ra_acks s' = [] \<and>
       ra_calls s' = [CallAck 5 (PString (lit ''[7]''))]"
    by (rule early_runs)
  then obtain s' where s': "as_stream_next ?L s1 = (Ok (Some (Inr early_ack)), s')"
    "ra_acks s' = []" "ra_calls s' = [CallAck 5 (PString (lit ''[7]''))]" by blast
  then have "araw_step_distinct ?L s1 (AItem (Some (Inr early_ack))) s'"
    using acks by (simp add: araw_step_distinct_def astep_item)
  with one s'(2,3) show thesis by (intro that) (auto simp: runs_Cons)
qed

section \<open>Properties\<close>

text \<open>C6: an acknowledgement callback of the asynchronous client is called at most twice for each request,
  over any history. Whatever is called, whatever the stream gives and whatever other callbacks do, as
  long as the outstanding requests have distinct ids when a call starts and no callback asks for an
  acknowledgement with this callback: the number of its calls, plus two for each request that still
  waits, grows by no more than two for each \<open>emit_with_ack\<close>.\<close>

theorem async_ack_calls_bounded:
  assumes "runs (araw_step_distinct L) s ls s'" "quiet L cb"
  shows "acalled cb s' + 2 * awaiting cb s' \<le> acalled cb s + 2 * awaiting cb s + 2 * arequests cb ls"
proof -
  from assms have "runs (\<lambda>s l s'. araw_step_distinct L s l s' \<and> quiet L cb) s ls s'" by simp
  from araw_history.runs_balance [OF this] show ?thesis by (simp only: arequests_sum)
qed

theorem async_ack_calls_bounded_witness:
  "\<exists>s'. runs (araw_step_distinct (demo_slib (\<lambda>h. []))) early_araw
       [ARequested EvMessage (PBinary [1]) 10 5, AItem (Some (Inr early_ack))] s' \<and>
     acalled 5 s' = 1 \<and> acalled 5 s' + 2 * awaiting 5 s' \<le> 2"
proof -
  let ?L = "demo_slib (\<lambda>h. [])"
  obtain s' where run: "runs (araw_step_distinct ?L) early_araw
      [ARequested EvMessage (PBinary [1]) 10 5, AItem (Some (Inr early_ack))] s'"
    and calls: "ra_calls s' = [CallAck 5 (PString (lit ''[7]''))]"
    by (rule early_history)
  have "quiet ?L 5" by (simp add: quiet_def)
  from async_ack_calls_bounded [OF run this] have "acalled 5 s' + 2 * awaiting 5 s' \<le> 2"
    by (simp add: acalled_def awaiting_def early_araw_def demo_araw_def araw_new_def)
  with run calls show ?thesis by (auto simp: acalled_def)
qed

text \<open>An acknowledgement that the stream gives settles the request with its id and no other, as long as the
  ids of the outstanding requests are distinct, whatever the acknowledgement callbacks do.\<close>

theorem async_ack_settles:
  assumes "as_stream_next L s = (Ok (Some (Inr p)), s')" "s_type p = SAck \<or> s_type p = SBinaryAck"
    and "s_nsp p = ra_nsp s" "s_id p = Some i" "distinct (map ack_id (ra_acks s))"
  shows "ra_acks s' = filter (\<lambda>a. ack_id a \<noteq> i) (ra_acks s)"
proof -
  from assms(1) obtain s1 where poll: "on_asocket (assocket_next (sl_b64 L) (sl_url L) (sl_json L)) s = (Ok (Some p), s1)"
    and packet: "araw_handle_packet L p s1 = (Ok (), s')"
    by (auto simp: as_stream_next_def split: prod.splits outcome.splits option.splits)
  note same = on_asocket_account(2,3) [OF poll]
  have "ahandle_ack L p s1 = (Ok (), s')"
    using packet assms(2,3) same(2)
    by (auto simp: araw_handle_packet_def areport_def seq_def split: prod.splits outcome.splits)
  then have "ra_acks s' = filter (\<lambda>a. ack_id a \<noteq> i) (ra_acks s1)"
    by (rule araw_book.handle_settles) (simp_all add: returned_def same assms(4,5))
  with same(1) show ?thesis by simp
qed

theorem async_ack_settles_witness:
  "\<exists>s s'. as_stream_next (demo_slib (\<lambda>h. [])) s = (Ok (Some (Inr early_ack)), s') \<and> length (ra_acks s) = 1 \<and> ra_acks s' = []"
proof -
  let ?L = "demo_slib (\<lambda>h. [])"
  obtain s1 where nsp: "ra_nsp s1 = lit ''/''"
    and acks: "ra_acks s1 = [\<lparr>ack_id = 0, ack_timeout = 10, ack_started = 0, ack_callback = 5\<rparr>]"
    and "\<exists>s'. as_stream_next ?L s1 = (Ok (Some (Inr early_ack)), s') \<and> ra_acks s' = [] \<and>
       ra_calls s' = [CallAck 5 (PString (lit ''[7]''))]"
    by (rule early_runs)
  then obtain s' where s': "as_stream_next ?L s1 = (Ok (Some (Inr early_ack)), s')" by blast
  have "s_nsp early_ack = ra_nsp s1" "s_type early_ack = SAck \<or> s_type early_ack = SBinaryAck"
    "s_id early_ack = Some 0" using nsp by (simp_all add: early_ack_def spacket_def)
  from async_ack_settles [OF s' this(2,1,3)] acks s' show ?thesis
    by (intro exI [of _ s1] exI [of _ s']) simp
qed

end
