(* ===== verification/Requests.thy ===== *)
theory Requests
  imports End_To_End
begin

text \<open>
  Requests with an acknowledgement from end to end: what \<open>emit_with_ack\<close> puts on a websocket, the answers of
  a server that reads the ids from it, in any order, and the callbacks they reach.
\<close>

section \<open>Answers\<close>

text \<open>The packet that answers a request, as a server sends it, and data that survives the way: canonical
  JSON that cannot be mistaken for an id.\<close>

definition answer :: "rstring \<Rightarrow> i32 \<Rightarrow> rstring \<Rightarrow> spacket" where
  "answer nsp i d = spacket SAck nsp (Some d) (Some i) 0 None"

definition answer_ok :: "'j jsonlib \<Rightarrow> rstring \<Rightarrow> bool" where
  "answer_ok J d \<longleftrightarrow> data_start d \<and> json_canonical J d \<and> plain_text d"

lemma answer_fields [simp]:
  "s_nsp (answer nsp i d) = nsp" "s_type (answer nsp i d) = SAck" "s_id (answer nsp i d) = Some i"
  "s_data (answer nsp i d) = Some d" "s_attachments (answer nsp i d) = None" "s_count (answer nsp i d) = 0"
  by (simp_all add: answer_def spacket_def)

lemma answer_packet:
  assumes "plain_text nsp" "nsp_ok nsp" "answer_ok J d" "0 \<le> sint i"
  shows "plain_text (wire_text (answer nsp i d))"
    "decode_text J (wire_text (answer nsp i d)) = Inr ((answer nsp i d)\<lparr>s_attachments := None\<rparr>)"
    "carried (answer nsp i d)"
proof -
  let ?p = "answer nsp i d"
  have dec: "encode_text oc ?p = Some (encode_head ?p @ d)" "decode_text J (encode_head ?p @ d) = Inr ?p" for oc
    using decode_plain [where p = ?p and J = J] assms
    by (simp_all add: answer_ok_def plain_text_def id_ok_def is_binary_type_def)
  then have t: "wire_text ?p = encode_head ?p @ d" by (simp add: wire_text_def)
  show "plain_text (wire_text ?p)"
    using encode_head_plain [of ?p] assms(1,3) by (simp add: t answer_ok_def plain_text_def)
  have "?p\<lparr>s_attachments := None\<rparr> = ?p" by (simp add: answer_def spacket_def)
  then show "decode_text J (wire_text ?p) = Inr (?p\<lparr>s_attachments := None\<rparr>)" by (simp only: t dec)
  show "carried ?p" by (simp add: carried_def)
qed

text \<open>One poll settles one request.\<close>

definition settled :: "('u, 'j) raw \<Rightarrow> ack \<Rightarrow> rstring \<Rightarrow> ('u, 'j) raw" where
  "settled s a d = s\<lparr>rw_time := (\<lambda>n. rw_time s (Suc n)), rw_acks := filter (\<lambda>b. ack_id b \<noteq> ack_id a) (rw_acks s),
     rw_calls := rw_calls s @
       (if rw_time s 0 - ack_started a < ack_timeout a then [CallAck (ack_callback a) (PString d)] else [])\<rparr>"

lemma settle:
  assumes "a \<in> set (rw_acks s)" "distinct (map ack_id (rw_acks s))" "\<not> rw_acks_locked s" "\<And>h. sl_script L h = []"
  shows "raw_handle_packet L (answer (rw_nsp s) (ack_id a) d) s = (Ok (), settled s a d)"
proof -
  obtain xs ys where acks: "rw_acks s = xs @ a # ys" using assms(1) by (auto dest: split_list)
  have none: "ack_id a \<notin> ack_id ` set xs" "ack_id a \<notin> ack_id ` set ys"
    using assms(2) by (auto simp: acks)
  then have "filter (\<lambda>b. ack_id b \<noteq> ack_id a) xs = xs" "filter (\<lambda>b. ack_id b \<noteq> ack_id a) ys = ys"
    by (auto simp: filter_id_conv) (metis imageI)+
  then have rest: "xs @ ys = filter (\<lambda>b. ack_id b \<noteq> ack_id a) (rw_acks s)" by (simp add: acks)
  have "handle_ack L (answer (rw_nsp s) (ack_id a) d) s = (Ok (), settled s a d)"
    using handle_ack_one [OF acks none refl, of "answer (rw_nsp s) (ack_id a) d" d L] assms(3,4)
    by (simp add: settled_def rest)
  then show ?thesis by (simp add: raw_handle_packet_def report_def)
qed

lemma poll_answer:
  assumes "plain_text (rw_nsp s)" "nsp_ok (rw_nsp s)" "\<And>h. sl_script L h = []" "\<not> rw_acks_locked s"
    and "answer_ok (sl_json L) d" "0 \<le> sint (ack_id a)" "a \<in> set (rw_acks s)" "distinct (map ack_id (rw_acks s))"
    and "es_connected (ss_engine (rw_socket s))"
    and "backlog (sl_b64 L) (ss_engine (rw_socket s)) = map Inr (frame_items (answer (rw_nsp s) (ack_id a) d)) @ rest"
  obtains t where "raw_poll L s = (Ok (Some (answer (rw_nsp s) (ack_id a) d)), settled (s\<lparr>rw_socket := t\<rparr>) a d)"
    "es_connected (ss_engine t)" "backlog (sl_b64 L) (ss_engine t) = rest"
proof -
  let ?p = "answer (rw_nsp s) (ack_id a) d"
  from ssocket_poll_items [OF answer_packet [OF assms(1,2,5,6)] assms(9,10), of "sl_url L"] obtain e where
    e: "ssocket_poll (sl_b64 L) (sl_url L) (sl_json L) (rw_socket s) =
        (Ok (Some ?p), ss_handle_packet ?p (rw_socket s\<lparr>ss_engine := e\<rparr>))"
      "es_connected e" "backlog (sl_b64 L) e = rest" by blast
  let ?t = "rw_socket s\<lparr>ss_engine := e\<rparr>"
  have "ss_handle_packet ?p ?t = ?t" by (simp add: ss_handle_packet_def)
  with raw_poll_step [OF e(1)] settle [of a "s\<lparr>rw_socket := ?t\<rparr>" L d] assms(3,4,7,8)
  have "raw_poll L s = (Ok (Some ?p), settled (s\<lparr>rw_socket := ?t\<rparr>) a d)" by simp
  with e(2,3) show thesis by (intro that [of ?t]) simp_all
qed

section \<open>Any number of answers\<close>

text \<open>The calls a sequence of answers makes; each handling reads the clock once.\<close>

fun answer_calls :: "(nat \<Rightarrow> nat) \<Rightarrow> (ack \<times> rstring) list \<Rightarrow> call list" where
  "answer_calls time [] = []"
| "answer_calls time ((a, d) # ads) =
     (if time 0 - ack_started a < ack_timeout a then [CallAck (ack_callback a) (PString d)] else []) @
     answer_calls (\<lambda>n. time (Suc n)) ads"

definition answers :: "rstring \<Rightarrow> (ack \<times> rstring) list \<Rightarrow> spacket list" where
  "answers nsp ads = map (\<lambda>(a, d). answer nsp (ack_id a) d) ads"

lemma answers_polled:
  assumes "plain_text (rw_nsp s)" "nsp_ok (rw_nsp s)" "\<And>h. sl_script L h = []" "\<not> rw_acks_locked s"
    and "\<forall>(a, d) \<in> set ads. a \<in> set (rw_acks s) \<and> 0 \<le> sint (ack_id a) \<and> answer_ok (sl_json L) d"
    and "distinct (map (\<lambda>(a, d). ack_id a) ads)" "distinct (map ack_id (rw_acks s))"
    and "es_connected (ss_engine (rw_socket s))"
    and "backlog (sl_b64 L) (ss_engine (rw_socket s)) = map Inr (concat (map frame_items (answers (rw_nsp s) ads))) @ rest"
  shows "\<exists>s'. poll_times L (length ads) s = (Ok (map Some (answers (rw_nsp s) ads)), s') \<and>
    rw_calls s' = rw_calls s @ answer_calls (rw_time s) ads \<and>
    rw_acks s' = filter (\<lambda>a. ack_id a \<notin> set (map (\<lambda>(a, d). ack_id a) ads)) (rw_acks s)"
  using assms(1,2,4-9)
proof (induction ads arbitrary: s)
  case (Cons ad ads)
  obtain a d where ad: "ad = (a, d)" by fastforce
  have a: "a \<in> set (rw_acks s)" "0 \<le> sint (ack_id a)" "answer_ok (sl_json L) d" using Cons.prems(4) ad by simp_all
  have "backlog (sl_b64 L) (ss_engine (rw_socket s)) = map Inr (frame_items (answer (rw_nsp s) (ack_id a) d)) @
      (map Inr (concat (map frame_items (answers (rw_nsp s) ads))) @ rest)"
    using Cons.prems(8) by (simp add: answers_def ad)
  from poll_answer [OF Cons.prems(1,2) assms(3) Cons.prems(3) a(3,2,1) Cons.prems(6,7) this] obtain t where
    t: "raw_poll L s = (Ok (Some (answer (rw_nsp s) (ack_id a) d)), settled (s\<lparr>rw_socket := t\<rparr>) a d)"
      "es_connected (ss_engine t)"
      "backlog (sl_b64 L) (ss_engine t) = map Inr (concat (map frame_items (answers (rw_nsp s) ads))) @ rest" .
  let ?s = "settled (s\<lparr>rw_socket := t\<rparr>) a d"
  have same: "rw_nsp ?s = rw_nsp s" "\<not> rw_acks_locked ?s" "rw_socket ?s = t" "rw_time ?s = (\<lambda>n. rw_time s (Suc n))"
    "rw_acks ?s = filter (\<lambda>b. ack_id b \<noteq> ack_id a) (rw_acks s)"
    using Cons.prems(3) by (simp_all add: settled_def)
  have "\<forall>(b, d) \<in> set ads. b \<in> set (rw_acks ?s) \<and> 0 \<le> sint (ack_id b) \<and> answer_ok (sl_json L) d"
    using Cons.prems(4,5) by (auto simp: same ad image_iff)
  moreover have "distinct (map ack_id (rw_acks ?s))"
    using Cons.prems(6) by (simp add: same distinct_map_filter)
  ultimately obtain s' where s': "poll_times L (length ads) ?s = (Ok (map Some (answers (rw_nsp s) ads)), s')"
    "rw_calls s' = rw_calls ?s @ answer_calls (rw_time ?s) ads"
    "rw_acks s' = filter (\<lambda>b. ack_id b \<notin> set (map (\<lambda>(a, d). ack_id a) ads)) (rw_acks ?s)"
    using Cons.IH [of ?s] Cons.prems(1,2,5) t(2,3) by (auto simp: same)
  have "poll_times L (length (ad # ads)) s = (Ok (map Some (answers (rw_nsp s) (ad # ads))), s')"
    using t(1) s'(1) by (simp add: answers_def ad)
  moreover have "rw_calls s' = rw_calls s @ answer_calls (rw_time s) (ad # ads)"
    using s'(2) by (simp add: ad same) (simp add: settled_def)
  moreover have "rw_acks s' = filter (\<lambda>b. ack_id b \<notin> set (map (\<lambda>(a, d). ack_id a) (ad # ads))) (rw_acks s)"
    using s'(3) by (simp add: ad same filter_filter conj_commute)
  ultimately show ?case by blast
qed (simp add: answers_def)

section \<open>A request\<close>

text \<open>What \<open>emit_with_ack\<close> sends and keeps.\<close>

definition next_id :: "('u, 'j) raw \<Rightarrow> i32" where
  "next_id s = word_of_nat (rw_rand s 0 mod 999)"

lemma next_id_ok: "0 \<le> sint (next_id s)"
proof -
  have "rw_rand s 0 mod 999 < 999" by simp
  then have "sint (word_of_nat (rw_rand s 0 mod 999) :: i32) = int (rw_rand s 0 mod 999)"
    by (simp add: sint_uint unsigned_of_nat take_bit_nat_eq_self signed_take_bit_int_eq_self)
  then show ?thesis by (simp add: next_id_def)
qed

definition request :: "('u, 'j) slib \<Rightarrow> sevent \<Rightarrow> spayload \<Rightarrow> ('u, 'j) raw \<Rightarrow> spacket" where
  "request L ev sent s = build_packet_for_payload (sl_json L) sent ev (rw_nsp s) (Some (next_id s))"

definition requested :: "('u, 'j) raw \<Rightarrow> nat \<Rightarrow> nat \<Rightarrow> ack" where
  "requested s timeout cb = \<lparr>ack_id = next_id s, ack_timeout = timeout, ack_started = rw_time s 0, ack_callback = cb\<rparr>"

lemma request_sent:
  assumes "deliverable (sl_json L) ev sent got" "plain_text (rw_nsp s)" "nsp_ok (rw_nsp s)" "\<not> rw_acks_locked s"
    and "ready (length (packet_frames (wire_text (request L ev sent s)) (request L ev sent s))) (rw_socket s)"
  obtains t where "raw_emit_with_ack L ev sent timeout cb s = (Ok (), s\<lparr>rw_socket := t, rw_rand := (\<lambda>n. rw_rand s (Suc n)),
      rw_time := (\<lambda>n. rw_time s (Suc n)), rw_acks := rw_acks s @ [requested s timeout cb]\<rparr>)"
    "wire (es_net (ss_engine t)) = wire (es_net (ss_engine (rw_socket s))) @
       map WsSend (packet_frames (wire_text (request L ev sent s)) (request L ev sent s))"
    "decode_text (sl_json L) (wire_text (request L ev sent s)) = Inr ((request L ev sent s)\<lparr>s_attachments := None\<rparr>)"
proof -
  let ?p = "request L ev sent s"
  have p: "?p = build_packet_for_payload (sl_json L) sent ev (rw_nsp s) (Some (next_id s))" by (simp add: request_def)
  have "id_ok (Some (next_id s))" by (simp add: id_ok_def next_id_ok)
  note d = payload_packet [OF assms(1-3) p this]
  have "list_all scalar (wire_text ?p)" using d(2) by (simp add: plain_text_def)
  from ssocket_send_frames [OF d(1) this assms(5), of "sl_oc L" "sl_b64 L" "sl_url L"] obtain t where
    t: "ssocket_send (sl_oc L) (sl_b64 L) (sl_url L) ?p (rw_socket s) = (Ok (), t)"
      "wire (es_net (ss_engine t)) = wire (es_net (ss_engine (rw_socket s))) @ map WsSend (packet_frames (wire_text ?p) ?p)"
    by blast
  have "raw_emit_with_ack L ev sent timeout cb s = (Ok (), s\<lparr>rw_socket := t, rw_rand := (\<lambda>n. rw_rand s (Suc n)),
      rw_time := (\<lambda>n. rw_time s (Suc n)), rw_acks := rw_acks s @ [requested s timeout cb]\<rparr>)"
    using assms(4) t(1)
    by (simp add: raw_emit_with_ack_def draw_id_def read_clock_def on_socket_def request_def next_id_def requested_def)
  from this t(2) d(4) show thesis by (rule that)
qed

text \<open>The frames of the answers, and what they are read as.\<close>

definition answer_frames :: "rstring \<Rightarrow> (ack \<times> rstring) list \<Rightarrow> ws_message list" where
  "answer_frames nsp ads = concat (map (\<lambda>p. packet_frames (wire_text p) p) (answers nsp ads))"

lemma answer_frames_items:
  assumes "plain_text nsp" "nsp_ok nsp" "\<forall>(a, d) \<in> set ads. 0 \<le> sint (ack_id a) \<and> answer_ok J d"
  shows "concat (map (ws_items B) (map WsMsg (answer_frames nsp ads))) = map Inr (concat (map frame_items (answers nsp ads)))"
  using assms(3)
proof (induction ads)
  case (Cons ad ads)
  obtain a d where ad: "ad = (a, d)" by fastforce
  let ?p = "answer nsp (ack_id a) d"
  have a: "answer_ok J d" "0 \<le> sint (ack_id a)" using Cons.prems ad by simp_all
  have "wire_text ?p \<noteq> []"
    using encode_head_plain [of ?p] assms(1) by (simp add: wire_text_def encode_text_def)
  from ws_items_frames [OF answer_packet(1) [OF assms(1,2) a] this answer_packet(3) [OF assms(1,2) a], of B] Cons
  show ?case by (simp add: answer_frames_def answers_def ad)
qed (simp add: answer_frames_def answers_def)

lemma receiving_answers:
  assumes "receiving (answer_frames nsp ads) t" "plain_text nsp" "nsp_ok nsp"
    and "\<forall>(a, d) \<in> set ads. 0 \<le> sint (ack_id a) \<and> answer_ok J d"
  shows "es_connected (ss_engine t)"
    "backlog B (ss_engine t) = map Inr (concat (map frame_items (answers nsp ads))) @ []"
  using assms(1) answer_frames_items [OF assms(2-4), of B]
  by (auto simp: receiving_def backlog_def net_items_def)

section \<open>Properties\<close>

text \<open>C18: answers in any order. A client with any number of outstanding requests of distinct ids receives answers
  to some of them, in any order: every poll returns one answer, the callback of its request is called
  once with its data, in the order of the answers, if the time since the request is below the timeout,
  and what is left outstanding are the requests without an answer. The data of an answer is canonical JSON
  that does not start with a digit or a slash, without the separator 0x1e, no request is answered twice,
  callbacks make no calls, and the list of requests is not locked at the start.\<close>

theorem answers_in_any_order:
  assumes "receiving (answer_frames (rw_nsp s) ads) (rw_socket s)" "plain_text (rw_nsp s)" "nsp_ok (rw_nsp s)"
    and "\<And>h. sl_script L h = []" "\<not> rw_acks_locked s"
    and "\<forall>(a, d) \<in> set ads. a \<in> set (rw_acks s) \<and> 0 \<le> sint (ack_id a) \<and> answer_ok (sl_json L) d"
    and "distinct (map (\<lambda>(a, d). ack_id a) ads)" "distinct (map ack_id (rw_acks s))"
  shows "\<exists>s'. poll_times L (length ads) s = (Ok (map Some (answers (rw_nsp s) ads)), s') \<and>
    rw_calls s' = rw_calls s @ answer_calls (rw_time s) ads \<and>
    rw_acks s' = filter (\<lambda>a. ack_id a \<notin> set (map (\<lambda>(a, d). ack_id a) ads)) (rw_acks s)"
proof -
  have "\<forall>(a, d) \<in> set ads. 0 \<le> sint (ack_id a) \<and> answer_ok (sl_json L) d" using assms(6) by auto
  from receiving_answers [OF assms(1-3) this] show ?thesis
    by (rule answers_polled [OF assms(2-8)])
qed

text \<open>Two requests, the later one answered first.\<close>

theorem answers_in_any_order_witness:
  "\<exists>frames s'. poll_times (demo_slib (\<lambda>h. [])) 2 (demo_raw (map WsMsg frames) [demo_ack 7 5 9, demo_ack 8 5 3, demo_ack 6 5 4])
       = (Ok [Some (answer (lit ''/'') 8 (lit ''[2]'')), Some (answer (lit ''/'') 7 (lit ''[1]''))], s') \<and>
     rw_calls s' = [CallAck 3 (PString (lit ''[2]'')), CallAck 9 (PString (lit ''[1]''))] \<and> rw_acks s' = [demo_ack 6 5 4]"
proof -
  let ?L = "demo_slib (\<lambda>h. [])"
  let ?ads = "[(demo_ack 8 5 3, lit ''[2]''), (demo_ack 7 5 9, lit ''[1]'')]"
  let ?frames = "answer_frames (lit ''/'') ?ads"
  let ?s = "demo_raw (map WsMsg ?frames) [demo_ack 7 5 9, demo_ack 8 5 3, demo_ack 6 5 4]"
  have one: "receiving (answer_frames (rw_nsp ?s) ?ads) (rw_socket ?s)" by (simp add: receiving_def demo_net_def)
  have two: "plain_text (rw_nsp ?s)" "nsp_ok (rw_nsp ?s)" "\<And>h. sl_script ?L h = []" "\<not> rw_acks_locked ?s"
    by (simp_all add: plain_text_def nsp_ok_def starts_with_def scalar_def) (simp add: demo_slib_def)
  have "sl_json ?L = flat_json" by (simp add: demo_slib_def)
  then have three: "\<forall>(a, d) \<in> set ?ads. a \<in> set (rw_acks ?s) \<and> 0 \<le> sint (ack_id a) \<and> answer_ok (sl_json ?L) d"
    by (simp add: demo_ack_def answer_ok_def data_start_def is_ascii_digit_def flat_canonical plain_text_def scalar_def)
  have four: "distinct (map (\<lambda>(a, d). ack_id a) ?ads)" "distinct (map ack_id (rw_acks ?s))"
    by (simp_all add: demo_ack_def)
  from answers_in_any_order [OF one two three four] obtain s' where
    s': "poll_times ?L (length ?ads) ?s = (Ok (map Some (answers (rw_nsp ?s) ?ads)), s')"
      "rw_calls s' = rw_calls ?s @ answer_calls (rw_time ?s) ?ads"
      "rw_acks s' = filter (\<lambda>a. ack_id a \<notin> set (map (\<lambda>(a, d). ack_id a) ?ads)) (rw_acks ?s)" by blast
  have "answers (rw_nsp ?s) ?ads = [answer (lit ''/'') 8 (lit ''[2]''), answer (lit ''/'') 7 (lit ''[1]'')]"
    by (simp add: answers_def demo_ack_def)
  with s' show ?thesis
    by (intro exI [of _ ?frames] exI [of _ s']) (simp add: demo_ack_def numeral_2_eq_2 del: poll_times.simps)
qed

text \<open>C17: a request and its answer. \<open>emit_with_ack\<close> with a deliverable payload puts one packet on an open
  websocket that takes its frames; a server decodes it, and it has an id. If the server answers with that id
  and data (canonical JSON that does not start with a digit or a slash, without the separator 0x1e), and the client polls,
  the callback of the request is called once with the data, or not at all after the timeout, and nothing of
  the request is left. The id, which the client draws at random below 999, must be none of those outstanding,
  and these must be distinct: with two requests of one id the answer panics or removes another request
  (\<open>duplicate_acks\<close>). Callbacks make no calls, and the list of requests is not locked when the call starts.\<close>

theorem request_answered:
  assumes "deliverable (sl_json L) ev sent got" "plain_text (rw_nsp s)" "nsp_ok (rw_nsp s)" "\<not> rw_acks_locked s"
    and "ready (length (packet_frames (wire_text (request L ev sent s)) (request L ev sent s))) (rw_socket s)"
    and "\<And>h. sl_script L h = []" "distinct (next_id s # map ack_id (rw_acks s))"
  shows "\<exists>s1 t p attachments. raw_emit_with_ack L ev sent timeout cb s = (Ok (), s1) \<and>
    wire (es_net (ss_engine (rw_socket s1))) = wire (es_net (ss_engine (rw_socket s))) @
      map WsSend (WsText (of_char CHR ''4'' # t) # attachments) \<and>
    decode_text (sl_json L) t = Inr p \<and> s_nsp p = rw_nsp s \<and> s_id p = Some (next_id s) \<and>
    (\<forall>e d rest. es_connected e \<and> answer_ok (sl_json L) d \<and>
       backlog (sl_b64 L) e = map Inr (frame_items (answer (s_nsp p) (the (s_id p)) d)) @ rest \<longrightarrow>
       (\<exists>s2. raw_poll L (s1\<lparr>rw_socket := (rw_socket s1)\<lparr>ss_engine := e\<rparr>\<rparr>) =
            (Ok (Some (answer (s_nsp p) (the (s_id p)) d)), s2) \<and>
          rw_acks s2 = rw_acks s \<and>
          rw_calls s2 = rw_calls s @ (if rw_time s 1 - rw_time s 0 < timeout then [CallAck cb (PString d)] else [])))"
proof -
  let ?p = "request L ev sent s"
  obtain t where emit: "raw_emit_with_ack L ev sent timeout cb s = (Ok (), s\<lparr>rw_socket := t, rw_rand := (\<lambda>n. rw_rand s (Suc n)),
      rw_time := (\<lambda>n. rw_time s (Suc n)), rw_acks := rw_acks s @ [requested s timeout cb]\<rparr>)"
    and sent: "wire (es_net (ss_engine t)) = wire (es_net (ss_engine (rw_socket s))) @ map WsSend (packet_frames (wire_text ?p) ?p)"
    and read: "decode_text (sl_json L) (wire_text ?p) = Inr (?p\<lparr>s_attachments := None\<rparr>)"
    by (rule request_sent [OF assms(1-5)])
  let ?s1 = "s\<lparr>rw_socket := t, rw_rand := (\<lambda>n. rw_rand s (Suc n)),
      rw_time := (\<lambda>n. rw_time s (Suc n)), rw_acks := rw_acks s @ [requested s timeout cb]\<rparr>"
  have p: "s_nsp ?p = rw_nsp s" "s_id ?p = Some (next_id s)"
    by (simp_all add: request_def build_packet_for_payload_def spacket_def split: spayload.split)
  have id: "ack_id (requested s timeout cb) = next_id s" by (simp add: requested_def)
  have others: "filter (\<lambda>b. ack_id b \<noteq> next_id s) (rw_acks s) = rw_acks s"
    using assms(7) by (auto simp: filter_id_conv) (metis imageI)
  have answered: "\<exists>s2. raw_poll L (?s1\<lparr>rw_socket := t\<lparr>ss_engine := e\<rparr>\<rparr>) = (Ok (Some (answer (rw_nsp s) (next_id s) d)), s2) \<and>
      rw_acks s2 = rw_acks s \<and>
      rw_calls s2 = rw_calls s @ (if rw_time s 1 - rw_time s 0 < timeout then [CallAck cb (PString d)] else [])"
    if e: "es_connected e" "answer_ok (sl_json L) d"
      "backlog (sl_b64 L) e = map Inr (frame_items (answer (rw_nsp s) (next_id s) d)) @ rest" for e d rest
  proof -
    let ?r = "?s1\<lparr>rw_socket := t\<lparr>ss_engine := e\<rparr>\<rparr>"
    have "plain_text (rw_nsp ?r)" "nsp_ok (rw_nsp ?r)" "\<not> rw_acks_locked ?r" "0 \<le> sint (ack_id (requested s timeout cb))"
      "requested s timeout cb \<in> set (rw_acks ?r)" "distinct (map ack_id (rw_acks ?r))" "es_connected (ss_engine (rw_socket ?r))"
      "backlog (sl_b64 L) (ss_engine (rw_socket ?r)) =
         map Inr (frame_items (answer (rw_nsp ?r) (ack_id (requested s timeout cb)) d)) @ rest"
      using assms(2-4,7) e(1,3) by (auto simp: id next_id_ok)
    from poll_answer [OF this(1,2) assms(6) this(3) e(2) this(4-8)] obtain u where
      "raw_poll L ?r = (Ok (Some (answer (rw_nsp ?r) (ack_id (requested s timeout cb)) d)),
         settled (?r\<lparr>rw_socket := u\<rparr>) (requested s timeout cb) d)" .
    then show ?thesis
      using others by (auto simp: id settled_def) (simp_all add: requested_def)
  qed
  show ?thesis
    using emit sent read answered p
    by (intro exI [of _ ?s1] exI [of _ "wire_text ?p"] exI [of _ "?p\<lparr>s_attachments := None\<rparr>"]
        exI [of _ "map WsBinary (case s_attachments ?p of Some as \<Rightarrow> as | None \<Rightarrow> [])"])
      (simp add: packet_frames_def)
qed

definition asking :: "(nat, rstring) raw" where
  "asking = (demo_raw [] [demo_ack 8 5 3])\<lparr>rw_socket := (demo_ssocket [])\<lparr>ss_engine := (demo_socket [])\<lparr>es_net :=
     (demo_net [])\<lparr>ws_send_in := replicate 2 (Inr ())\<rparr>\<rparr>\<rparr>\<rparr>"

theorem request_answered_witness:
  "\<exists>s1 s2 e. raw_emit_with_ack (demo_slib (\<lambda>h. [])) EvMessage (PBinary [3, 2]) 5 9 asking = (Ok (), s1) \<and>
     raw_poll (demo_slib (\<lambda>h. [])) (s1\<lparr>rw_socket := (rw_socket s1)\<lparr>ss_engine := e\<rparr>\<rparr>) =
       (Ok (Some (answer (lit ''/'') 0 (lit ''[1]''))), s2) \<and>
     rw_acks s2 = [demo_ack 8 5 3] \<and> rw_calls s2 = [CallAck 9 (PString (lit ''[1]''))]"
proof -
  let ?L = "demo_slib (\<lambda>h. [])" and ?a = "(demo_ack 0 5 9, lit ''[1]'')"
  let ?e = "demo_socket (map WsMsg (answer_frames (lit ''/'') [?a]))"
  have J: "sl_json ?L = flat_json" "sl_b64 ?L = nibble64" by (simp_all add: demo_slib_def)
  have fields: "rw_nsp asking = lit ''/''" "rw_acks asking = [demo_ack 8 5 3]" "rw_calls asking = []"
    "rw_time asking n = n" "rw_rand asking = (\<lambda>n. n)" "\<not> rw_acks_locked asking" for n
    by (simp_all add: asking_def) (simp add: demo_raw_def raw_new_def)
  have one: "deliverable (sl_json ?L) EvMessage (PBinary [3, 2]) (PBinary [3, 2])" using deliverable_binary by (simp add: J)
  have two: "plain_text (rw_nsp asking)" "nsp_ok (rw_nsp asking)" "\<not> rw_acks_locked asking"
    by (simp_all add: fields plain_text_def nsp_ok_def starts_with_def scalar_def)
  have "ready 2 (rw_socket asking)" by (auto simp: ready_def asking_def)
  then have three: "ready (length (packet_frames (wire_text (request ?L EvMessage (PBinary [3, 2]) asking))
      (request ?L EvMessage (PBinary [3, 2]) asking))) (rw_socket asking)"
    by (simp add: packet_frames_def request_def build_packet_for_payload_def spacket_def numeral_2_eq_2)
  have four: "sl_script ?L h = []" "distinct (next_id asking # map ack_id (rw_acks asking))" for h
    by (simp add: demo_slib_def) (simp add: fields next_id_def demo_ack_def)
  have ok: "answer_ok (sl_json ?L) (lit ''[1]'')"
    by (simp add: J answer_ok_def data_start_def is_ascii_digit_def flat_canonical plain_text_def scalar_def)
  have "receiving (answer_frames (lit ''/'') [?a]) (demo_ssocket (map WsMsg (answer_frames (lit ''/'') [?a])))"
    by (simp add: receiving_def demo_net_def)
  from receiving_answers(2) [OF this, of flat_json nibble64] two(1,2) ok
  have "backlog nibble64 ?e = map Inr (frame_items (answer (lit ''/'') 0 (lit ''[1]''))) @ []"
    by (simp add: fields J answers_def demo_ack_def)
  then have e: "es_connected ?e" "backlog (sl_b64 ?L) ?e =
      map Inr (frame_items (answer (rw_nsp asking) (next_id asking) (lit ''[1]''))) @ []"
    by (simp_all add: J fields next_id_def)
  from request_answered [OF one two three four, of 5 9] obtain s1 and p :: spacket where
    s1: "raw_emit_with_ack ?L EvMessage (PBinary [3, 2]) 5 9 asking = (Ok (), s1)"
    and p: "s_nsp p = rw_nsp asking" "s_id p = Some (next_id asking)"
    and polled: "\<forall>e d rest. es_connected e \<and> answer_ok (sl_json ?L) d \<and>
       backlog (sl_b64 ?L) e = map Inr (frame_items (answer (s_nsp p) (the (s_id p)) d)) @ rest \<longrightarrow>
       (\<exists>s2. raw_poll ?L (s1\<lparr>rw_socket := (rw_socket s1)\<lparr>ss_engine := e\<rparr>\<rparr>) =
            (Ok (Some (answer (s_nsp p) (the (s_id p)) d)), s2) \<and> rw_acks s2 = rw_acks asking \<and>
          rw_calls s2 = rw_calls asking @ (if rw_time asking 1 - rw_time asking 0 < 5 then [CallAck 9 (PString d)] else []))"
    by blast
  from e ok have "\<exists>s2. raw_poll ?L (s1\<lparr>rw_socket := (rw_socket s1)\<lparr>ss_engine := ?e\<rparr>\<rparr>) =
      (Ok (Some (answer (s_nsp p) (the (s_id p)) (lit ''[1]''))), s2) \<and> rw_acks s2 = rw_acks asking \<and>
    rw_calls s2 = rw_calls asking @
      (if rw_time asking 1 - rw_time asking 0 < 5 then [CallAck 9 (PString (lit ''[1]''))] else [])"
    by (intro polled [rule_format, of ?e "lit ''[1]''" "[]"]) (simp only: p option.sel)
  with s1 show ?thesis by (auto simp: p fields next_id_def)
qed

text \<open>Binary data in a request reaches no event callback. The packet of a request with binary data has the
  type of an answer; a receiver of the same namespace that has no request with this id of its own
  takes it for a late answer and drops it, while the same event with text calls its callback.\<close>

theorem binary_request_unheard:
  assumes "i \<notin> ack_id ` set (rw_acks r)" "\<not> rw_acks_locked r"
  shows "raw_handle_packet L (build_packet_for_payload (sl_json L) (PBinary d) ev (rw_nsp r) (Some i)) r = (Ok (), r)"
proof -
  let ?p = "build_packet_for_payload (sl_json L) (PBinary d) ev (rw_nsp r) (Some i)"
  have p: "s_type ?p = SBinaryAck" "s_nsp ?p = rw_nsp r" "s_id ?p = Some i"
    by (simp_all add: build_packet_for_payload_def spacket_def)
  have "ack_loop L ?p i k as ks t = (Ok ks, t)" if "i \<notin> ack_id ` set as" for k as ks t
    using that by (induction as arbitrary: k) auto
  from this [OF assms(1)] show ?thesis
    using assms(2) by (simp add: raw_handle_packet_def p report_def handle_ack_def)
qed

theorem binary_request_unheard_witness:
  "raw_handle_packet (demo_slib (\<lambda>h. [])) (build_packet_for_payload flat_json (PBinary [1]) EvMessage (lit ''/'') (Some 7))
     (demo_raw [] [demo_ack 8 5 3]) = (Ok (), demo_raw [] [demo_ack 8 5 3])"
  using binary_request_unheard [of 7 "demo_raw [] [demo_ack 8 5 3]" "demo_slib (\<lambda>h. [])" "[1]" EvMessage]
  by (simp add: demo_ack_def demo_slib_def)

end
