(* ===== verification/Unit_Tests.thy ===== *)
theory Unit_Tests
  imports Engine_Packet Sio_Packet
begin

text \<open>
  The unit tests of the two packet modules, as data: what each test feeds to the code and what it
  expects. The model passes them. What \<open>serde_json\<close> and \<open>base64\<close> do with the texts of the tests is a
  hypothesis: that a JSON text is printed as it was written, and the encodings the tests quote.
\<close>

section \<open>socket.io packets\<close>

text \<open>The JSON texts of the tests; \<open>8482\<close> is the character of the test with a namespace that is not
  ASCII.\<close>

definition test_token :: rstring where
  \<open>test_token = lit ''{"token":"123"}''\<close>

definition test_token_tm :: rstring where
  \<open>test_token_tm = lit ''{"token'' @ [8482] @ lit ''":"123"}''\<close>

definition test_hello :: rstring where
  \<open>test_hello = lit ''["hello",1]''\<close>

definition test_delete :: rstring where
  \<open>test_delete = lit ''["project:delete",123]''\<close>

definition test_not_authorized :: rstring where
  \<open>test_not_authorized = lit ''{"message":"Not authorized"}''\<close>

definition test_placeholder :: rstring where
  \<open>test_placeholder = lit ''{"_placeholder":true,"num":0}''\<close>

definition test_hello_binary :: rstring where
  \<open>test_hello_binary = lit ''["hello",'' @ test_placeholder @ lit '']''\<close>

definition test_delete_binary :: rstring where
  \<open>test_delete_binary = lit ''["project:delete",'' @ test_placeholder @ lit '']''\<close>

definition test_ack_binary :: rstring where
  \<open>test_ack_binary = lit ''['' @ test_placeholder @ lit '']''\<close>

definition test_json :: "rstring list" where
  "test_json =
     [test_token, test_token_tm, test_hello, test_delete, lit ''[]'', test_not_authorized,
      test_hello_binary, test_delete_binary, test_ack_binary]"

lemmas test_texts = test_token_def test_token_tm_def test_hello_def test_delete_def test_not_authorized_def
  test_placeholder_def test_hello_binary_def test_delete_binary_def test_ack_binary_def

text \<open>\<open>test_decode\<close>: the text of the payload and the packet.\<close>

definition test_decode :: "(rstring \<times> spacket) list" where
  \<open>test_decode =
     [(lit ''0'' @ test_token, spacket SConnect (lit ''/'') (Some test_token) None 0 None),
      (lit ''0/admin'' @ [8482] @ lit '','' @ test_token_tm,
        spacket SConnect (lit ''/admin'' @ [8482]) (Some test_token_tm) None 0 None),
      (lit ''1/admin,'', spacket SDisconnect (lit ''/admin'') None None 0 None),
      (lit ''2'' @ test_hello, spacket SEvent (lit ''/'') (Some test_hello) None 0 None),
      (lit ''2/admin,456'' @ test_delete, spacket SEvent (lit ''/admin'') (Some test_delete) (Some 456) 0 None),
      (lit ''3/admin,456[]'', spacket SAck (lit ''/admin'') (Some (lit ''[]'')) (Some 456) 0 None),
      (lit ''4/admin,'' @ test_not_authorized,
        spacket SConnectError (lit ''/admin'') (Some test_not_authorized) None 0 None),
      (lit ''51-'' @ test_hello_binary,
        spacket SBinaryEvent (lit ''/'') (Some (lit ''"hello"'')) None 1 None),
      (lit ''51-/admin,456'' @ test_delete_binary,
        spacket SBinaryEvent (lit ''/admin'') (Some (lit ''"project:delete"'')) (Some 456) 1 None),
      (lit ''61-/admin,456'' @ test_ack_binary, spacket SBinaryAck (lit ''/admin'') None (Some 456) 1 None)]\<close>

text \<open>\<open>test_encode\<close>: the packet and the text of its encoding.\<close>

definition test_encode :: "(spacket \<times> rstring) list" where
  \<open>test_encode =
     [(spacket SConnect (lit ''/'') (Some test_token) None 0 None, lit ''0'' @ test_token),
      (spacket SConnect (lit ''/admin'') (Some test_token) None 0 None, lit ''0/admin,'' @ test_token),
      (spacket SDisconnect (lit ''/admin'') None None 0 None, lit ''1/admin,''),
      (spacket SEvent (lit ''/'') (Some test_hello) None 0 None, lit ''2'' @ test_hello),
      (spacket SEvent (lit ''/admin'') (Some test_delete) (Some 456) 0 None, lit ''2/admin,456'' @ test_delete),
      (spacket SAck (lit ''/admin'') (Some (lit ''[]'')) (Some 456) 0 None, lit ''3/admin,456[]''),
      (spacket SConnectError (lit ''/admin'') (Some test_not_authorized) None 0 None,
        lit ''4/admin,'' @ test_not_authorized),
      (spacket SBinaryEvent (lit ''/'') (Some (lit ''"hello"'')) None 1 (Some [[1, 2, 3]]),
        lit ''51-'' @ test_hello_binary),
      (spacket SBinaryEvent (lit ''/admin'') (Some (lit ''"project:delete"'')) (Some 456) 1 (Some [[1, 2, 3]]),
        lit ''51-/admin,456'' @ test_delete_binary),
      (spacket SBinaryAck (lit ''/admin'') None (Some 456) 1 (Some [[3, 2, 1]]),
        lit ''61-/admin,456'' @ test_ack_binary)]\<close>

text \<open>How data that is printed as it was written is decoded.\<close>

lemma decode_canonical:
  assumes "json_canonical J d"
  shows "decode_data J p d =
    (if is_binary_type (s_type p) then
       let str = remove_all (placeholder (lit ''0'')) d;
           str1 = (if starts_with str (of_char CHR ''['') then tl str else str);
           str2 = strip_close str1
       in Inr (p\<lparr>s_data := (if str2 = [] then None else Some str2)\<rparr>)
     else Inr (p\<lparr>s_data := Some d\<rparr>))"
  using assms by (auto simp: json_canonical_def decode_data_def)

lemma test_removed:
  \<open>remove_all (placeholder [48]) test_hello_binary = lit ''["hello",]''\<close>
  \<open>remove_all (placeholder [48]) test_delete_binary = lit ''["project:delete",]''\<close>
  \<open>remove_all (placeholder [48]) test_ack_binary = lit ''[]''\<close>
  by (simp_all add: test_texts placeholder_def)

text \<open>No JSON text of the tests begins with a digit or a slash.\<close>

lemma test_starts:
  assumes "d \<in> set test_json"
  shows "takeWhile is_ascii_digit d = []" "dropWhile is_ascii_digit d = d" "d \<noteq> []"
    "\<not> starts_with d 47" "list_all scalar d"
  using assms by (auto simp: test_json_def test_texts starts_with_def is_ascii_digit_def scalar_def)

lemma decode_test:
  assumes "list_all (json_canonical J) test_json" "d \<in> set test_json"
  shows "decode_id J p d = decode_data J p d" "decode_id J p (52 # 53 # 54 # d) = decode_data J (p\<lparr>s_id := Some 456\<rparr>) d"
  using test_starts [OF assms(2)]
  by (simp_all add: decode_id_def is_ascii_digit_def parse_i32_def digits_value_def)

lemma test_members [simp]:
  "test_token \<in> set test_json" "test_token_tm \<in> set test_json" "test_hello \<in> set test_json"
  "test_delete \<in> set test_json" "[91, 93] \<in> set test_json" "test_not_authorized \<in> set test_json"
  "test_hello_binary \<in> set test_json" "test_delete_binary \<in> set test_json" "test_ack_binary \<in> set test_json"
  by (simp_all add: test_json_def)

lemmas decode_test_simps = spacket_try_from_def utf8_scalars scalar_def test_starts decode_text_def
  spacket_id_try_from_char_def decode_count_def is_binary_type_def parse_u8_def digits_value_def
  decode_nsp_def starts_with_def [of "_ # _"] spacket_default_def test_removed strip_close_def spacket_def is_ascii_digit_def

text \<open>The model passes the decoding and the encoding test of the socket.io packets.\<close>

theorem encoding_tests_pass:
  "list_all (\<lambda>(packet, text). spacket_to_bytes oc packet = (Ok (utf8 text) :: (serror, bytes) outcome)) test_encode"
  unfolding test_encode_def
  by (simp add: spacket_to_bytes_def encode_text_def encode_head_def spacket_def is_binary_type_def u8_to_string_def
      i32_to_string_def decimal.simps placeholder_def test_texts del: utf8_append utf8_Nil utf8_ascii)

theorem decoding_tests_pass:
  assumes "list_all (json_canonical J) test_json"
  shows "list_all (\<lambda>(text, packet). spacket_try_from J (utf8 text) = Inr packet) test_decode"
proof -
  have c: "json_canonical J d" if "d \<in> set test_json" for d using assms that by (auto simp: list_all_iff)
  show ?thesis
    unfolding test_decode_def list.pred_inject prod.case
    by (intro conjI TrueI)
      (simp_all add: decode_test_simps c decode_canonical decode_test [OF assms] Let_def
         del: utf8_append utf8_Nil utf8_ascii)
qed

theorem decoding_tests_pass_witness:
  "list_all (\<lambda>(text, packet). spacket_try_from flat_json (utf8 text) = Inr packet) test_decode"
proof -
  have "list_all (json_canonical flat_json) test_json"
    by (simp add: test_json_def test_texts flat_canonical)
  then show ?thesis by (rule decoding_tests_pass)
qed

section \<open>Payloads of events\<close>

text \<open>The text of \<open>test_from\<close>, with the character \<open>8482\<close>.\<close>

definition test_foo :: rstring where
  \<open>test_foo = lit ''foo '' @ [8482]\<close>

text \<open>What each conversion of \<open>test_from\<close> gives and what it is compared with.\<close>

definition test_from :: "('j, 'z) jsonlib_scheme \<Rightarrow> (spayload \<times> spayload) list" where
  \<open>test_from J =
     [(payload_of_string test_foo, PString test_foo),
      (payload_of_value J (json_string J test_foo), PString (lit ''"'' @ test_foo @ lit ''"'')),
      (payload_of_bytes [1, 2, 3], PBinary [1, 2, 3])]\<close>

theorem from_tests_pass:
  assumes \<open>json_print J (json_string J test_foo) = lit ''"'' @ test_foo @ lit ''"''\<close>
  shows "list_all (\<lambda>(given, expected). given = expected) (test_from J)"
  using assms by (simp add: test_from_def payload_of_string_def payload_of_value_def payload_of_bytes_def)

theorem from_tests_pass_witness: "list_all (\<lambda>(given, expected). given = expected) (test_from flat_json)"
  by (rule from_tests_pass) (simp add: flat_json_def)

section \<open>engine.io packets\<close>

text \<open>\<open>test_is_reflexive\<close>, \<open>test_binary_packet\<close>: the bytes and the packet.\<close>

definition test_epackets :: "(bytes \<times> epacket) list" where
  \<open>test_epackets =
     [(ascii ''1Hello World'', epacket EClose (ascii ''Hello World'')),
      (ascii ''bSGVsbG8='', epacket EMessageBinary (ascii ''Hello''))]\<close>

text \<open>\<open>test_decode_payload\<close>, \<open>test_binary_payload\<close>: the bytes and the packets; \<open>30\<close> is the separator.\<close>

definition test_epayloads :: "(bytes \<times> epacket list) list" where
  \<open>test_epayloads =
     [(ascii ''1Hello'' @ 30 # ascii ''1HelloWorld'',
        [epacket EClose (ascii ''Hello''), epacket EClose (ascii ''HelloWorld'')]),
      (ascii ''bSGVsbG8='' @ 30 # ascii ''bSGVsbG9Xb3JsZA=='' @ 30 # ascii ''bSGVsbG8='',
        [epacket EMessageBinary (ascii ''Hello''), epacket EMessageBinary (ascii ''HelloWorld''),
         epacket EMessageBinary (ascii ''Hello'')])]\<close>

text \<open>\<open>test_packet_error\<close> and the first part of \<open>test_packet_id_conversion_and_incompl_packet\<close>: bytes that
  are no packet.\<close>

definition test_eerrors :: "bytes list" where
  \<open>test_eerrors = [[], ascii ''4'']\<close>

text \<open>The rest of it: a type byte and the type, or the error.\<close>

definition test_epacket_ids :: "(u8 \<times> (eerror + epacket_id)) list" where
  \<open>test_epacket_ids =
     [(of_char CHR ''0'', Inr EOpen), (of_char CHR ''1'', Inr EClose), (of_char CHR ''2'', Inr EPing),
      (of_char CHR ''3'', Inr EPong), (of_char CHR ''4'', Inr EMessage), (of_char CHR ''5'', Inr EUpgrade),
      (of_char CHR ''6'', Inr ENoop), (42, Inl (EInvalidPacketId 42))]\<close>

text \<open>The encodings the tests quote.\<close>

definition test_base64 :: "base64 \<Rightarrow> bool" where
  \<open>test_base64 B \<longleftrightarrow>
     b64_encode B (ascii ''Hello'') = ascii ''SGVsbG8='' \<and>
     b64_decode B (ascii ''SGVsbG8='') = Inr (ascii ''Hello'') \<and>
     b64_encode B (ascii ''HelloWorld'') = ascii ''SGVsbG9Xb3JsZA=='' \<and>
     b64_decode B (ascii ''SGVsbG9Xb3JsZA=='') = Inr (ascii ''HelloWorld'')\<close>

lemma payload_try_from_split:
  "payload_try_from B d = decode_all (epacket_try_from B) (split_at separator d)"
  by (simp add: payload_try_from_def payload_scan_split slice_def split: sum.splits)

lemmas epacket_test_simps = test_base64_def epacket_try_from_def epacket_to_bytes_def epacket_def
  epacket_id_try_from_def epacket_id_to_string_def u8_to_string_def decimal.simps payload_try_from_split
  payload_to_bytes_def separator_def

text \<open>The model passes the tests of the engine.io packets: what is to be decoded is, and encodes to the
  same bytes; what is no packet is an error.\<close>

theorem epacket_tests_pass:
  assumes "test_base64 B"
  shows "list_all (\<lambda>(bs, p). epacket_try_from B bs = Inr p \<and> epacket_to_bytes B p = bs) test_epackets"
  using assms by (simp add: test_epackets_def epacket_test_simps)

theorem epayload_tests_pass:
  assumes "test_base64 B"
  shows "list_all (\<lambda>(bs, ps). payload_try_from B bs = Inr ps \<and> payload_to_bytes B ps = Ok bs) test_epayloads"
  using assms by (simp add: test_epayloads_def epacket_test_simps)

theorem eerror_tests_pass: "list_all (\<lambda>bs. epacket_try_from B bs = Inl EIncompletePacket) test_eerrors"
  by (simp add: test_eerrors_def epacket_test_simps)

theorem epacket_id_tests_pass: "list_all (\<lambda>(b, r). epacket_id_try_from b = r) test_epacket_ids"
  by (simp add: test_epacket_ids_def epacket_test_simps)

text \<open>A codec that knows the texts of the tests only.\<close>

definition test_codec :: base64 where
  \<open>test_codec =
     \<lparr>b64_encode = (\<lambda>d. if d = ascii ''Hello'' then ascii ''SGVsbG8='' else ascii ''SGVsbG9Xb3JsZA==''),
      b64_decode = (\<lambda>s. if s = ascii ''SGVsbG8='' then Inr (ascii ''Hello'') else Inr (ascii ''HelloWorld''))\<rparr>\<close>

lemma test_codec_base64: "test_base64 test_codec"
  by (simp add: test_base64_def test_codec_def)

theorem epacket_tests_pass_witness:
  "list_all (\<lambda>(bs, p). epacket_try_from test_codec bs = Inr p \<and> epacket_to_bytes test_codec p = bs) test_epackets"
  using test_codec_base64 by (rule epacket_tests_pass)

theorem epayload_tests_pass_witness:
  "list_all (\<lambda>(bs, ps). payload_try_from test_codec bs = Inr ps \<and> payload_to_bytes test_codec ps = Ok bs)
     test_epayloads"
  using test_codec_base64 by (rule epayload_tests_pass)

end
