(* ===== verification/Transport_Objects.thy ===== *)
theory Transport_Objects
  imports Async_Transports
begin

text \<open>
  The traits \<open>Transport\<close> and \<open>AsyncTransport\<close> (\<open>engineio/src/transport.rs\<close>,
  \<open>engineio/src/asynchronous/transport.rs\<close>) and the objects that implement them: the websocket
  transports of \<open>asynchronous/async_transports/websocket.rs\<close> and \<open>websocket_secure.rs\<close>, and those of
  \<open>transports/websocket.rs\<close> and \<open>websocket_secure.rs\<close>, which run the asynchronous ones on a runtime of
  their own. An object is its base url, which is behind a lock, over the network.
\<close>

section \<open>The asynchronous websocket transports\<close>

type_synonym ('u, 'a) ws_proc = "('u \<times> 'u net, eerror, 'a) proc"

text \<open>A call of \<open>inner\<close>, the sender and the receiver.\<close>

definition on_wire :: "('u net, eerror, 'a) proc \<Rightarrow> ('u, 'a) ws_proc" where
  "on_wire m s = (case s of (u, w) \<Rightarrow> case m w of (r, w') \<Rightarrow> (r, (u, w')))"

definition awst_upgrade :: "base64 \<Rightarrow> ('u, unit) ws_proc" where
  "awst_upgrade B = on_wire (ws_upgrade B)"

definition awst_poll_next :: "('u, bytes option) ws_proc" where
  "awst_poll_next = on_wire ws_poll_next"

text \<open>As a stream the transport reads with the same loop.\<close>

definition awst_stream_poll :: "('u, bytes option) ws_proc" where
  "awst_stream_poll = on_wire (\<lambda>w. case ws_read (ws_in w) of (r, es) \<Rightarrow> (r, w\<lparr>ws_in := es\<rparr>))"

definition awst_emit :: "bytes \<Rightarrow> bool \<Rightarrow> ('u, unit) ws_proc" where
  "awst_emit data is_binary_att = on_wire (ws_emit data is_binary_att)"

definition awst_base_url :: "('u, 'u) ws_proc" where
  "awst_base_url s = (Ok (fst s), s)"

definition awst_set_base_url :: "'u urllib \<Rightarrow> 'u \<Rightarrow> ('u, unit) ws_proc" where
  "awst_set_base_url U base s =
     (case ws_set_base_url U (lit ''ws'') base of
        None \<Rightarrow> (Panic, s)
      | Some url \<Rightarrow> (Ok (), (url, snd s)))"

definition awsst_upgrade :: "base64 \<Rightarrow> ('u, unit) ws_proc" where
  "awsst_upgrade B = on_wire (ws_upgrade B)"

definition awsst_poll_next :: "('u, bytes option) ws_proc" where
  "awsst_poll_next = on_wire ws_poll_next"

definition awsst_stream_poll :: "('u, bytes option) ws_proc" where
  "awsst_stream_poll = on_wire (\<lambda>w. case ws_read (ws_in w) of (r, es) \<Rightarrow> (r, w\<lparr>ws_in := es\<rparr>))"

definition awsst_emit :: "bytes \<Rightarrow> bool \<Rightarrow> ('u, unit) ws_proc" where
  "awsst_emit data is_binary_att = on_wire (ws_emit data is_binary_att)"

definition awsst_base_url :: "('u, 'u) ws_proc" where
  "awsst_base_url s = (Ok (fst s), s)"

definition awsst_set_base_url :: "'u urllib \<Rightarrow> 'u \<Rightarrow> ('u, unit) ws_proc" where
  "awsst_set_base_url U base s =
     (case wss_set_base_url U base of
        None \<Rightarrow> (Panic, s)
      | Some url \<Rightarrow> (Ok (), (url, snd s)))"

section \<open>The blocking websocket transports\<close>

text \<open>\<open>Runtime::block_on\<close> drives the future to its end on the calling thread.\<close>

definition block_on :: "('s, 'e, 'a) proc \<Rightarrow> ('s, 'e, 'a) proc" where
  "block_on future = future"

text \<open>\<open>new\<close> first makes the runtime; \<open>runtime\<close> is the error the operating system gives, if any.\<close>

definition wst_new :: "'u urllib \<Rightarrow> rstring option \<Rightarrow> 'u \<Rightarrow> ('u net, eerror, 'u transport) proc" where
  "wst_new U runtime base =
     (case runtime of
        Some e \<Rightarrow> give (Err (EIncompleteIo e))
      | None \<Rightarrow> block_on (websocket_new U base))"

definition wst_upgrade :: "base64 \<Rightarrow> ('u, unit) ws_proc" where
  "wst_upgrade B = block_on (awst_upgrade B)"

definition wst_emit :: "bytes \<Rightarrow> bool \<Rightarrow> ('u, unit) ws_proc" where
  "wst_emit data is_binary_att = block_on (awst_emit data is_binary_att)"

text \<open>The end of the stream and every error become \<open>IncompletePacket\<close>.\<close>

definition wst_poll :: "('u, bytes) ws_proc" where
  "wst_poll = block_on (\<lambda>s.
     case awst_poll_next s of
       (Ok (Some b), t) \<Rightarrow> (Ok b, t)
     | (Ok None, t) \<Rightarrow> (Err EIncompletePacket, t)
     | (Err _, t) \<Rightarrow> (Err EIncompletePacket, t)
     | (Panic, t) \<Rightarrow> (Panic, t)
     | (Block, t) \<Rightarrow> (Block, t))"

definition wst_base_url :: "('u, 'u) ws_proc" where
  "wst_base_url = block_on awst_base_url"

definition wst_set_base_url :: "'u urllib \<Rightarrow> 'u \<Rightarrow> ('u, unit) ws_proc" where
  "wst_set_base_url U url = block_on (awst_set_base_url U url)"

definition wsst_new :: "'u urllib \<Rightarrow> rstring option \<Rightarrow> 'u \<Rightarrow> ('u net, eerror, 'u transport) proc" where
  "wsst_new U runtime base =
     (case runtime of
        Some e \<Rightarrow> give (Err (EIncompleteIo e))
      | None \<Rightarrow> block_on (websocket_secure_new U base))"

definition wsst_upgrade :: "base64 \<Rightarrow> ('u, unit) ws_proc" where
  "wsst_upgrade B = block_on (awsst_upgrade B)"

definition wsst_emit :: "bytes \<Rightarrow> bool \<Rightarrow> ('u, unit) ws_proc" where
  "wsst_emit data is_binary_att = block_on (awsst_emit data is_binary_att)"

definition wsst_poll :: "('u, bytes) ws_proc" where
  "wsst_poll = block_on (\<lambda>s.
     case awsst_poll_next s of
       (Ok (Some b), t) \<Rightarrow> (Ok b, t)
     | (Ok None, t) \<Rightarrow> (Err EIncompletePacket, t)
     | (Err _, t) \<Rightarrow> (Err EIncompletePacket, t)
     | (Panic, t) \<Rightarrow> (Panic, t)
     | (Block, t) \<Rightarrow> (Block, t))"

definition wsst_base_url :: "('u, 'u) ws_proc" where
  "wsst_base_url = block_on awsst_base_url"

definition wsst_set_base_url :: "'u urllib \<Rightarrow> 'u \<Rightarrow> ('u, unit) ws_proc" where
  "wsst_set_base_url U url = block_on (awsst_set_base_url U url)"

section \<open>The polling transports\<close>

definition pt_emit :: "base64 \<Rightarrow> 'u urllib \<Rightarrow> bytes \<Rightarrow> bool \<Rightarrow> ('u, unit) ws_proc" where
  "pt_emit B U data is_binary_att s = on_wire (polling_emit B U (fst s) data is_binary_att) s"

definition pt_poll :: "'u urllib \<Rightarrow> ('u, bytes) ws_proc" where
  "pt_poll U s = on_wire (polling_poll U (fst s)) s"

definition pt_base_url :: "('u, 'u) ws_proc" where
  "pt_base_url s = (Ok (fst s), s)"

definition pt_set_base_url :: "'u urllib \<Rightarrow> 'u \<Rightarrow> ('u, unit) ws_proc" where
  "pt_set_base_url U base s = (Ok (), (polling_set_base_url U base, snd s))"

definition apt_emit :: "base64 \<Rightarrow> 'u urllib \<Rightarrow> bytes \<Rightarrow> bool \<Rightarrow> ('u apolling \<times> 'u net, eerror, unit) proc" where
  "apt_emit B U data is_binary_att s =
     (case s of (p, w) \<Rightarrow> case apolling_emit B U p data is_binary_att w of (r, w') \<Rightarrow> (r, (p, w')))"

definition apt_base_url :: "('u apolling \<times> 'u net, eerror, 'u) proc" where
  "apt_base_url s = (Ok (ap_base_url (fst s)), s)"

definition apt_set_base_url :: "'u urllib \<Rightarrow> 'u \<Rightarrow> ('u apolling \<times> 'u net, eerror, unit) proc" where
  "apt_set_base_url U base s = (Ok (), (apolling_set_base_url U base (fst s), snd s))"

section \<open>The contract of the traits\<close>

datatype 'u transport_call = TEmit bytes bool | TReceive | TSetUrl 'u

text \<open>What the clients rely on: reading the base url changes nothing and returns the url of the object,
  sending and receiving leave it, and a url that is accepted fits the transport and puts nothing on the
  network.\<close>

locale transport_trait =
  fixes emit :: "bytes \<Rightarrow> bool \<Rightarrow> ('s, eerror, unit) proc"
    and receive :: "('s, eerror, 'b) proc"
    and get_url :: "('s, eerror, 'u) proc"
    and set_url :: "'u \<Rightarrow> ('s, eerror, unit) proc"
    and url :: "'s \<Rightarrow> 'u" and net :: "'s \<Rightarrow> 'u net" and fits :: "'u \<Rightarrow> bool"
  assumes get: "get_url s = (Ok (url s), s)"
    and emit_url: "url (snd (emit d b s)) = url s"
    and receive_url: "url (snd (receive s)) = url s"
    and set_ok: "set_url u s = (Ok (), t) \<Longrightarrow> fits (url t) \<and> net t = net s"
    and set_refused: "set_url u s = (r, t) \<Longrightarrow> r \<noteq> Ok () \<Longrightarrow> t = s"
begin

fun perform :: "'u transport_call \<Rightarrow> 's \<Rightarrow> 's" where
  "perform (TEmit d b) s = snd (emit d b s)"
| "perform TReceive s = snd (receive s)"
| "perform (TSetUrl u) s = snd (set_url u s)"

lemma perform_fits: "fits (url s) \<Longrightarrow> fits (url (perform c s))"
proof (cases c)
  case (TSetUrl u)
  assume "fits (url s)"
  moreover obtain r t where "set_url u s = (r, t)" by fastforce
  ultimately show ?thesis using TSetUrl set_ok [of u s t] set_refused [of u s r t] by (cases "r = Ok ()") auto
qed (simp_all add: emit_url receive_url)

lemma history_fits: "fits (url s) \<Longrightarrow> fits (url (fold perform cs s))"
  by (induction cs arbitrary: s) (simp_all add: perform_fits)

text \<open>Only \<open>set_base_url\<close> changes the url.\<close>

lemma history_same: "(\<And>u. TSetUrl u \<notin> set cs) \<Longrightarrow> url (fold perform cs s) = url s"
proof (induction cs arbitrary: s)
  case (Cons c cs)
  then have "url (perform c s) = url s" by (cases c) (auto simp: emit_url receive_url)
  with Cons show ?case by simp
qed simp

end

text \<open>A base url that fits: with a \<open>url\<close> crate that keeps its laws, it names the transport and has the
  scheme of its kind.\<close>

definition ws_fits :: "'u urllib \<Rightarrow> string \<Rightarrow> 'u \<Rightarrow> bool" where
  "ws_fits U scheme u \<longleftrightarrow> (url_laws U \<longrightarrow> url_scheme U u = lit scheme \<and> names_transport U ''websocket'' u)"

definition polling_fits :: "'u urllib \<Rightarrow> 'u \<Rightarrow> bool" where
  "polling_fits U u \<longleftrightarrow> (url_laws U \<longrightarrow> names_transport U ''polling'' u)"

lemma on_wire_fst [simp]: "fst (snd (on_wire m s)) = fst s"
  by (simp add: on_wire_def split: prod.split)

lemma wss_names:
  "url_laws U \<Longrightarrow> wss_set_base_url U url = Some u \<Longrightarrow> url_scheme U u = lit ''wss'' \<and> names_transport U ''websocket'' u"
  by (rule names_transport_set(3)) (simp_all add: names_transport_set(4) del: lit_simps)

lemma ws_set_fits:
  "awst_set_base_url U u s = (Ok (), t) \<Longrightarrow> ws_fits U ''ws'' (fst t) \<and> snd t = snd s"
  "awst_set_base_url U u s = (r, t) \<Longrightarrow> r \<noteq> Ok () \<Longrightarrow> t = s"
  "awsst_set_base_url U u s = (Ok (), t) \<Longrightarrow> ws_fits U ''wss'' (fst t) \<and> snd t = snd s"
  "awsst_set_base_url U u s = (r, t) \<Longrightarrow> r \<noteq> Ok () \<Longrightarrow> t = s"
  by (auto simp: awst_set_base_url_def awsst_set_base_url_def ws_fits_def simp del: lit_simps
      split: option.splits dest: names_transport_set(3) wss_names)

lemma on_wire_poll:
  "fst (snd (case on_wire m s of
     (Ok (Some b), t) \<Rightarrow> (Ok b, t) | (Ok None, t) \<Rightarrow> (Err EIncompletePacket, t)
   | (Err _, t) \<Rightarrow> (Err EIncompletePacket, t) | (Panic, t) \<Rightarrow> (Panic, t) | (Block, t) \<Rightarrow> (Block, t))) = fst s"
  using on_wire_fst [of m s] by (auto split: prod.split outcome.split option.split simp del: on_wire_fst)

lemmas async_ws_defs = awst_emit_def awst_poll_next_def awst_base_url_def
  awsst_emit_def awsst_poll_next_def awsst_base_url_def

lemmas blocking_ws_defs = wst_emit_def wst_poll_def wst_base_url_def wst_set_base_url_def
  wsst_emit_def wsst_poll_def wsst_base_url_def wsst_set_base_url_def block_on_def

interpretation awst: transport_trait awst_emit awst_poll_next awst_base_url "awst_set_base_url U" fst snd "ws_fits U ''ws''"
  for U :: "'u urllib"
  by unfold_locales (simp_all add: async_ws_defs ws_set_fits(1), rule ws_set_fits(2))

interpretation awsst: transport_trait awsst_emit awsst_poll_next awsst_base_url "awsst_set_base_url U" fst snd "ws_fits U ''wss''"
  for U :: "'u urllib"
  by unfold_locales (simp_all add: async_ws_defs ws_set_fits(3), rule ws_set_fits(4))

interpretation wst: transport_trait wst_emit wst_poll wst_base_url "wst_set_base_url U" fst snd "ws_fits U ''ws''"
  for U :: "'u urllib"
  by unfold_locales
    (simp_all add: blocking_ws_defs async_ws_defs ws_set_fits(1) on_wire_poll, rule ws_set_fits(2))

interpretation wsst: transport_trait wsst_emit wsst_poll wsst_base_url "wsst_set_base_url U" fst snd "ws_fits U ''wss''"
  for U :: "'u urllib"
  by unfold_locales
    (simp_all add: blocking_ws_defs async_ws_defs ws_set_fits(3) on_wire_poll, rule ws_set_fits(4))

interpretation pt: transport_trait "pt_emit B U" "pt_poll U" pt_base_url "pt_set_base_url U" fst snd "polling_fits U"
  for B :: base64 and U :: "'u urllib"
proof unfold_locales
  fix u :: 'u and s t
  assume "pt_set_base_url U u s = (Ok (), t)"
  then show "polling_fits U (fst t) \<and> snd t = snd s"
    using names_transport_set(1) [of U u "apolling_new U u"] by (auto simp: polling_fits_def pt_set_base_url_def apolling_agrees(4))
qed (simp_all add: pt_emit_def pt_poll_def pt_base_url_def pt_set_base_url_def)

interpretation apt: transport_trait "apt_emit B U" "apolling_poll_next U" apt_base_url "apt_set_base_url U"
    "\<lambda>s. ap_base_url (fst s)" snd "polling_fits U"
  for B :: base64 and U :: "'u urllib"
proof unfold_locales
  fix u :: 'u and s t
  assume "apt_set_base_url U u s = (Ok (), t)"
  then show "polling_fits U (ap_base_url (fst t)) \<and> snd t = snd s"
    using names_transport_set(1) [of U u] by (auto simp: polling_fits_def apt_set_base_url_def)
qed (auto simp: apt_emit_def apolling_poll_next_def apt_base_url_def apt_set_base_url_def split: prod.splits)

section \<open>Properties\<close>

text \<open>Whatever is sent, received and set, the base url of a websocket transport, as \<open>base_url\<close> returns
  it, names the websocket transport and has the scheme of its kind, and that of a polling transport says
  that it polls, if it did when the transport was made. This holds for the blocking and the asynchronous
  transports alike.\<close>

theorem base_urls_kept:
  assumes "url_laws U" "ws_fits U ''ws'' u" "ws_fits U ''wss'' v" "polling_fits U p"
  shows "(\<exists>x. fst (wst_base_url (fold (wst.perform U) cs (u, w))) = Ok x \<and> url_scheme U x = lit ''ws'' \<and> names_transport U ''websocket'' x) \<and>
    (\<exists>x. fst (wsst_base_url (fold (wsst.perform U) cs (v, w))) = Ok x \<and> url_scheme U x = lit ''wss'' \<and> names_transport U ''websocket'' x) \<and>
    (\<exists>x. fst (awst_base_url (fold (awst.perform U) cs (u, w))) = Ok x \<and> url_scheme U x = lit ''ws'' \<and> names_transport U ''websocket'' x) \<and>
    (\<exists>x. fst (awsst_base_url (fold (awsst.perform U) cs (v, w))) = Ok x \<and> url_scheme U x = lit ''wss'' \<and> names_transport U ''websocket'' x) \<and>
    (\<exists>x. fst (pt_base_url (fold (pt.perform B U) cs (p, w))) = Ok x \<and> names_transport U ''polling'' x)"
  using wst.history_fits [of U "(u, w)" cs] wsst.history_fits [of U "(v, w)" cs] awst.history_fits [of U "(u, w)" cs]
    awsst.history_fits [of U "(v, w)" cs] pt.history_fits [of U "(p, w)" B cs] assms
  by (simp add: wst.get wsst.get awst.get awsst.get pt.get ws_fits_def polling_fits_def)

theorem base_urls_kept_witness:
  "\<exists>x. fst (wst_base_url (fold (wst.perform plain_urls) [TSetUrl (lit ''http'', lit ''/a'', []), TReceive]
     ((lit ''ws'', lit ''/'', [(lit ''transport'', lit ''websocket'')]), w))) = Ok x \<and> url_scheme plain_urls x = lit ''ws''"
proof -
  have "ws_fits plain_urls ''ws'' (lit ''ws'', lit ''/'', [(lit ''transport'', lit ''websocket'')])"
    "ws_fits plain_urls ''wss'' (lit ''wss'', lit ''/'', [(lit ''transport'', lit ''websocket'')])"
    "polling_fits plain_urls (lit ''http'', lit ''/'', [(lit ''transport'', lit ''polling'')])"
    by (simp_all add: ws_fits_def polling_fits_def names_transport_def plain_urls_def)
  from base_urls_kept [OF plain_urls_laws this] show ?thesis by blast
qed

text \<open>The blocking objects are what the sockets dispatch to.\<close>

lemma dispatch_objects:
  "transport_emit B U (Websocket u) d b w = (case wst_emit d b (u, w) of (r, s) \<Rightarrow> (r, snd s))"
  "transport_emit B U (WebsocketSecure u) d b w = (case wsst_emit d b (u, w) of (r, s) \<Rightarrow> (r, snd s))"
  "transport_emit B U (Polling u) d b w = (case pt_emit B U d b (u, w) of (r, s) \<Rightarrow> (r, snd s))"
  "transport_poll U (Websocket u) w = (case wst_poll (u, w) of (r, s) \<Rightarrow> (r, snd s))"
  "transport_poll U (WebsocketSecure u) w = (case wsst_poll (u, w) of (r, s) \<Rightarrow> (r, snd s))"
  "transport_poll U (Polling u) w = (case pt_poll U (u, w) of (r, s) \<Rightarrow> (r, snd s))"
  by (auto simp: transport_emit_def transport_poll_def blocking_ws_defs async_ws_defs pt_emit_def pt_poll_def
      on_wire_def ws_poll_def split: prod.split outcome.split option.split)

end
