(* ===== verification/Client_Handles.thy ===== *)
theory Client_Handles
  imports Engine_Client Engine_Async
begin

text \<open>
  The engine.io clients as their users hold them (\<open>engineio/src/client/client.rs\<close>,
  \<open>engineio/src/asynchronous/client/async_client.rs\<close>): a handle on the socket, with a method each for
  connecting, sending and closing. The state of a handle is the socket its clones share.
\<close>

section \<open>The blocking client\<close>

definition eclient_close :: "base64 \<Rightarrow> 'u urllib \<Rightarrow> ('u esocket, eerror, unit) proc" where
  "eclient_close B U = esocket_disconnect B U"

definition eclient_connect :: "base64 \<Rightarrow> 'u urllib \<Rightarrow> ('u esocket, eerror, unit) proc" where
  "eclient_connect B U = esocket_connect B U"

definition eclient_disconnect :: "base64 \<Rightarrow> 'u urllib \<Rightarrow> ('u esocket, eerror, unit) proc" where
  "eclient_disconnect B U = esocket_disconnect B U"

definition eclient_emit :: "base64 \<Rightarrow> 'u urllib \<Rightarrow> epacket \<Rightarrow> ('u esocket, eerror, unit) proc" where
  "eclient_emit B U packet = esocket_emit B U packet"

definition esocket_is_connected :: "('u esocket, eerror, bool) proc" where
  "esocket_is_connected s = (Ok (es_connected s), s)"

definition eclient_is_connected :: "('u esocket, eerror, bool) proc" where
  "eclient_is_connected = esocket_is_connected"

section \<open>The asynchronous client\<close>

definition aclient_close :: "base64 \<Rightarrow> 'u urllib \<Rightarrow> ('u asocket, eerror, unit) proc" where
  "aclient_close B U = asocket_disconnect B U"

definition aclient_connect :: "base64 \<Rightarrow> 'u urllib \<Rightarrow> ('u asocket, eerror, unit) proc" where
  "aclient_connect B U = asocket_connect B U"

definition aclient_disconnect :: "base64 \<Rightarrow> 'u urllib \<Rightarrow> ('u asocket, eerror, unit) proc" where
  "aclient_disconnect B U = asocket_disconnect B U"

definition aclient_emit :: "base64 \<Rightarrow> 'u urllib \<Rightarrow> epacket \<Rightarrow> ('u asocket, eerror, unit) proc" where
  "aclient_emit B U packet = asocket_emit B U packet"

definition asocket_is_connected :: "('u asocket, eerror, bool) proc" where
  "asocket_is_connected s = (Ok (as_connected s), s)"

definition aclient_is_connected :: "('u asocket, eerror, bool) proc" where
  "aclient_is_connected = asocket_is_connected"

lemmas handle_defs = eclient_close_def eclient_connect_def eclient_disconnect_def eclient_emit_def
  eclient_is_connected_def esocket_is_connected_def
  aclient_close_def aclient_connect_def aclient_disconnect_def aclient_emit_def
  aclient_is_connected_def asocket_is_connected_def

section \<open>The handles are connections\<close>

interpretation ehandle: connection "eclient_emit B U" "eclient_close B U"
    "\<lambda>s. fst (eclient_is_connected s) = Ok True" "\<lambda>s. wire (es_net s)" EIllegalActionBeforeOpen
  for B :: base64 and U :: "'u urllib"
  by unfold_locales
    (simp_all add: handle_defs esock.emit_refused esock.emit_silent esock.emit_connected esock.close_closes)

interpretation ahandle: connection "aclient_emit B U" "aclient_close B U"
    "\<lambda>s. fst (aclient_is_connected s) = Ok True" "\<lambda>s. wire (as_net s)" EIllegalActionBeforeOpen
  for B :: base64 and U :: "'u urllib"
  by unfold_locales
    (simp_all add: handle_defs asock.emit_refused asock.emit_silent asock.emit_connected asock.close_closes)

section \<open>Properties\<close>

lemma connect_opens:
  "es_connected (snd (eclient_connect B U s))" "as_connected (snd (aclient_connect B U a))"
  by (simp_all add: handle_defs esocket_connect_def asocket_connect_def esocket_emit_fields asocket_emit_fields
      pinged_def fire_def apinged_def afire_def)

text \<open>The life of a client seen through its methods: connected after a successful \<open>connect\<close>, no longer
  after a \<open>close\<close>, and then every \<open>emit\<close> is refused and nothing reaches the network, however many follow.
  The same holds for the asynchronous client.\<close>

theorem handle_lifecycle:
  shows "eclient_connect B U s = (Ok u, s') \<Longrightarrow> eclient_is_connected s' = (Ok True, s')"
    and "eclient_close B U s = (Ok u, s') \<Longrightarrow> eclient_is_connected s' = (Ok False, s') \<and>
      fst (run_all (eclient_emit B U) ps s') = replicate (length ps) (Err EIllegalActionBeforeOpen) \<and>
      wire (es_net (snd (run_all (eclient_emit B U) ps s'))) = wire (es_net s')"
    and "aclient_connect B U a = (Ok u, a') \<Longrightarrow> aclient_is_connected a' = (Ok True, a')"
    and "aclient_close B U a = (Ok u, a') \<Longrightarrow> aclient_is_connected a' = (Ok False, a') \<and>
      fst (run_all (aclient_emit B U) ps a') = replicate (length ps) (Err EIllegalActionBeforeOpen) \<and>
      wire (as_net (snd (run_all (aclient_emit B U) ps a'))) = wire (as_net a')"
  using connect_opens(1) [of B U s] connect_opens(2) [of B U a] ehandle.closed_silent [of B U s u s' ps]
    ehandle.close_closes [of B U s u s'] ahandle.closed_silent [of B U a u a' ps] ahandle.close_closes [of B U a u a']
  by (simp_all add: eclient_is_connected_def esocket_is_connected_def aclient_is_connected_def asocket_is_connected_def)

end
