(* ===== verification/Panics.thy ===== *)
theory Panics
  imports Raw_Runs Async_Raw_Runs Clients_Agree
begin

text \<open>
  When the two socket.io clients panic. What can make them panic is written as a condition on the items
  the server has sent and on the ids of the outstanding requests; from states that fulfil it no call of
  a history panics, whatever the callbacks do.
\<close>

section \<open>What callbacks leave alone\<close>

definition in_socket :: "('u ssocket \<Rightarrow> bool) \<Rightarrow> ('u, 'j) raw \<Rightarrow> bool" where
  "in_socket J s \<longleftrightarrow> J (rw_socket s)"

lemma in_socket_upd [simp]:
  "in_socket J (s\<lparr>rw_acks := as\<rparr>) = in_socket J s" "in_socket J (s\<lparr>rw_acks_locked := b\<rparr>) = in_socket J s"
  "in_socket J (s\<lparr>rw_calls := cs\<rparr>) = in_socket J s" "in_socket J (s\<lparr>rw_time := f\<rparr>) = in_socket J s"
  "in_socket J (s\<lparr>rw_rand := f\<rparr>) = in_socket J s" "in_socket J (s\<lparr>rw_socket := t\<rparr>) = J t"
  by (simp_all add: in_socket_def)

lemma on_socket_frame: "keeps J m \<Longrightarrow> keeps (in_socket J) (on_socket m)"
  by (rule keepsI) (simp add: on_socket_def in_socket_def case_prod_beta keepsD)

text \<open>A property of the socket that sending and closing keep is kept by every call of the client but
  \<open>connect\<close> and \<open>poll\<close>, with all callbacks and the calls they make.\<close>

locale socket_frame =
  fixes L :: "('u, 'j) slib" and J :: "'u ssocket \<Rightarrow> bool"
  assumes send_keeps: "keeps J (ssocket_send (sl_oc L) (sl_b64 L) (sl_url L) p)"
    and disconnect_keeps: "keeps J (ssocket_disconnect (sl_b64 L) (sl_url L))"
begin

lemmas socket_keeps = on_socket_frame [OF send_keeps] on_socket_frame [OF disconnect_keeps]

lemma emits_frame: "keeps (in_socket J) (raw_emit L e d)"
  by (rule keepsI) (simp add: raw_emit_def ssocket_emit_def keepsD [OF socket_keeps(1)])

lemma emit_with_ack_frame: "keeps (in_socket J) (raw_emit_with_ack L e d t cb)"
  by (rule keepsI)
    (auto simp: raw_emit_with_ack_def draw_id_def read_clock_def Let_def intro: keepsD [OF socket_keeps(1)])

lemma disconnect_with_frame:
  assumes "keeps (in_socket J) close"
  shows "keeps (in_socket J) (raw_disconnect_with L close)"
  by (rule keepsI)
    (simp add: raw_disconnect_with_def
      keepsD [OF keeps_seq [OF keeps_ignore [OF socket_keeps(1)] keeps_seq [OF socket_keeps(2) keeps_ignore [OF assms]]]])

lemma actions_frame: "keeps (in_socket J) close \<Longrightarrow> keeps (in_socket J) (run_actions L close as)"
proof (induction as)
  case (Cons a as)
  then have "keeps (in_socket J) (run_action L close a)"
    by (cases a) (auto intro: emits_frame emit_with_ack_frame disconnect_with_frame)
  with Cons show ?case by (simp only: run_actions.simps) (intro keeps_seq; simp)
qed (simp add: keeps_def)

lemma call_frame: "keeps (in_socket J) close \<Longrightarrow> keeps (in_socket J) (run_call_option L close c)"
  by (rule keepsI, cases c)
    (simp_all add: run_call_option_def run_call_def keepsD [OF actions_frame])

lemma callback_frame: "keeps (in_socket J) (raw_callback L e p)"
proof -
  have "keeps (in_socket J) relock" by (simp add: keeps_def relock_def)
  from call_frame [OF this] show ?thesis
    by (intro keepsI) (simp add: raw_callback_def keepsD [OF keeps_seq])
qed

lemma disconnect_frame: "keeps (in_socket J) (raw_disconnect L)"
  unfolding raw_disconnect_def by (intro disconnect_with_frame callback_frame)

lemma call_ack_frame: "keeps (in_socket J) (call_ack L p a)"
proof (rule keepsI)
  fix s :: "('u, 'j) raw" assume s: "in_socket J s"
  have "keeps (in_socket J) (seq (run_call_option L (raw_callback L EvClose (PString [])) c)
      (\<lambda>_. run_call_option L (raw_callback L EvClose (PString [])) c'))" for c c'
    by (intro keeps_seq call_frame callback_frame)
  from keepsD [OF this] s show "in_socket J (snd (call_ack L p a s))"
    by (simp add: call_ack_def read_clock_def Let_def)
qed

lemma ack_loop_frame: "keeps (in_socket J) (ack_loop L p i k acks r)"
proof (induction acks arbitrary: k r)
  case (Cons a acks)
  then show ?case
    by (simp only: ack_loop.simps split: if_split) (intro conjI impI keeps_seq call_ack_frame; simp)
qed (simp add: keeps_def)

lemma handle_ack_frame: "keeps (in_socket J) (handle_ack L p)"
proof (rule keepsI)
  fix s :: "('u, 'j) raw" assume s: "in_socket J s"
  have "keeps (in_socket J) (seq (ack_loop L p i 0 (rw_acks s) []) (\<lambda>ks s1. let s2 = s1\<lparr>rw_acks_locked := False\<rparr> in
      case remove_indices ks (rw_acks s2) of None \<Rightarrow> (Panic, s2) | Some acks \<Rightarrow> (Ok (), s2\<lparr>rw_acks := acks\<rparr>)))" for i
    by (intro keeps_seq ack_loop_frame) (auto simp: keeps_def Let_def split: option.splits)
  from keepsD [OF this] s show "in_socket J (snd (handle_ack L p s))"
    by (simp add: handle_ack_def split: option.split)
qed

lemma report_frame:
  assumes "keeps (in_socket J) m"
  shows "keeps (in_socket J) (report L b m)"
proof (rule keepsI)
  fix s :: "('u, 'j) raw" assume s: "in_socket J s"
  have "keeps (in_socket J) (seq (raw_callback L e d) (\<lambda>_. give r))" for e d and r :: "(serror, unit) outcome"
    by (intro keeps_seq callback_frame keeps_give)
  from keepsD [OF assms s] keepsD [OF this] show "in_socket J (snd (report L b m s))"
    by (auto simp: report_def split: prod.splits outcome.splits)
qed

lemma event_frame: "keeps (in_socket J) (handle_event L p)" "keeps (in_socket J) (handle_binary_event L p)"
  using callback_frame
  by (auto simp: handle_event_def handle_binary_event_def Let_def split: option.splits sum.splits list.splits)

lemma packet_frame: "keeps (in_socket J) (raw_handle_packet L p)"
  by (rule keepsI)
    (auto simp: raw_handle_packet_def split: spacket_id.splits
      intro!: keepsD [OF report_frame] keepsD [OF callback_frame] handle_ack_frame event_frame)

lemma step_frame:
  assumes "raw_step L s l s'" "l \<noteq> RConnect" "l \<noteq> RPoll" "J (rw_socket s)"
  shows "J (rw_socket s')"
proof -
  have keep: "J (rw_socket t)" if "m s = (r, t)" "keeps (in_socket J) m" for m :: "('u, 'j, unit) raw_proc" and r t
    using keepsD [OF that(2), of s] assms(4) by (simp add: in_socket_def that(1))
  from assms(1-3) show ?thesis
    by cases (auto intro: keep emits_frame emit_with_ack_frame disconnect_frame)
qed

end

text \<open>The same with \<open>connect\<close>.\<close>

locale open_frame = socket_frame +
  assumes connect_keeps: "keeps J (ssocket_connect (sl_b64 L) (sl_url L))"
begin

lemma connect_frame: "keeps (in_socket J) (raw_connect L)"
  by (rule keepsI)
    (simp add: raw_connect_def Let_def keepsD [OF keeps_seq [OF on_socket_frame [OF connect_keeps] socket_keeps(1)]])

end

text \<open>It is enough that a property of the engine's socket is kept by an emit and by the two steps of its
  closing.\<close>

lemma keeps_on_engine: "keeps I m \<Longrightarrow> keeps (\<lambda>t. I (ss_engine t)) (on_engine m)"
  by (rule keepsI) (simp add: keepsD [of I])

locale engine_frame =
  fixes L :: "('u, 'j) slib" and I :: "'u esocket \<Rightarrow> bool"
  assumes emit: "I e \<Longrightarrow> I (snd (esocket_emit (sl_b64 L) (sl_url L) p e))"
    and closed: "I e \<Longrightarrow> I (e\<lparr>es_connected := False\<rparr>)"
    and fired: "I e \<Longrightarrow> I (fire present c e)"
begin

lemma emit_keeps: "keeps I (esocket_emit (sl_b64 L) (sl_url L) p)"
  by (rule keepsI) (rule emit)

lemma attachments_keep: "keeps (\<lambda>t. I (ss_engine t)) (send_attachments (sl_b64 L) (sl_url L) as)"
proof (induction as)
  case (Cons a as)
  then show ?case
    by (simp only: send_attachments.simps) (intro keeps_seq keeps_on_engine emit_keeps)
qed (simp add: keeps_def)

lemma send_keep: "keeps (\<lambda>t. I (ss_engine t)) (ssocket_send (sl_oc L) (sl_b64 L) (sl_url L) p)"
proof -
  let ?B = "sl_b64 L" and ?U = "sl_url L"
  have "keeps (\<lambda>t. I (ss_engine t)) (case s_attachments p of Some as \<Rightarrow> send_attachments ?B ?U as | None \<Rightarrow> give (Ok ()))"
    by (simp add: attachments_keep split: option.split)
  then have "keeps (\<lambda>t. I (ss_engine t)) (seq (give (spacket_to_bytes (sl_oc L) p)) (\<lambda>bytes.
      seq (on_engine (esocket_emit ?B ?U (epacket EMessage bytes))) (\<lambda>_.
      case s_attachments p of Some as \<Rightarrow> send_attachments ?B ?U as | None \<Rightarrow> give (Ok ()))))"
    by (intro keeps_seq keeps_give keeps_on_engine emit_keeps)
  from keepsD [OF this] show ?thesis by (auto simp: keeps_def ssocket_send_def)
qed

lemma disconnect_keep: "keeps (\<lambda>t. I (ss_engine t)) (ssocket_disconnect (sl_b64 L) (sl_url L))"
proof -
  let ?B = "sl_b64 L" and ?U = "sl_url L"
  have modify: "keeps I (modify f)" if "\<And>e. I e \<Longrightarrow> I (f e)" for f
    using that by (simp add: keeps_def)
  have "keeps I (esocket_disconnect ?B ?U)"
    unfolding esocket_disconnect_def by (intro keeps_seq keeps_ignore emit_keeps modify) (auto intro: fired closed)
  from keeps_on_engine [OF this]
  have "keeps (\<lambda>t. I (ss_engine t)) (if b then on_engine (esocket_disconnect ?B ?U) else give (Ok ()))" for b
    by simp
  then have "keeps (\<lambda>t. I (ss_engine t)) (seq (if b then on_engine (esocket_disconnect ?B ?U) else give (Ok ()))
      (\<lambda>_. modify (\<lambda>s. if ss_connected s then s\<lparr>ss_connected := False\<rparr> else s)))" for b
    by (intro keeps_seq) (simp_all add: keeps_def)
  then show ?thesis unfolding ssocket_disconnect_def by (intro keepsI) (rule keepsD)
qed

end

sublocale engine_frame \<subseteq> client: socket_frame L "\<lambda>t. I (ss_engine t)"
  by unfold_locales (rule send_keep, rule disconnect_keep)

section \<open>Acknowledgements\<close>

text \<open>The contract of \<open>Ack_Books\<close>, with what a panic can come from: a callback, or the removal.\<close>

locale ack_book_safe = ack_book +
  assumes one_no_panic: "one p a s \<noteq> (Panic, t)"
    and handle_panic: "s_id p = Some i \<Longrightarrow> handle p s = (Panic, s') \<Longrightarrow>
      \<exists>s0 r1 s1. held s0 \<and> acks s0 = acks s \<and> loop p i 0 (acks s) [] s0 = (r1, s1) \<and>
        (r1 = Panic \<or> (\<exists>ks. r1 = Ok ks \<and> remove_indices ks (acks s1) = None))"
begin

lemma loop_no_panic: "loop p i k as ks s \<noteq> (Panic, t)"
proof (induction as arbitrary: k ks s)
  case (Cons a as)
  then show ?case using one_no_panic by (auto simp: loop_Cons seq_def split: prod.splits outcome.splits)
qed (simp add: loop_Nil)

lemma handle_no_panic:
  assumes "distinct (map ack_id (acks s))"
  shows "handle p s \<noteq> (Panic, s')"
proof
  assume h: "handle p s = (Panic, s')"
  then obtain i where i: "s_id p = Some i" by (cases "s_id p") (auto simp: handle_none)
  from handle_panic [OF i h] obtain s0 ks s1 where loop: "held s0" "acks s0 = acks s"
    "loop p i 0 (acks s) [] s0 = (Ok ks, s1)" "remove_indices ks (acks s1) = None"
    using loop_no_panic by metis
  have "acks s1 = acks s" using loop_held [OF loop(1), of p i 0 "acks s" "[]"] loop(2,3) by simp
  with loop(4) loop_matching [OF loop(3)] remove_matching [OF assms, of i] show False by simp
qed

end

lemma no_panic_sent: "no_panic (on_socket (ssocket_send (sl_oc L) (sl_b64 L) (sl_url L) (spacket i nsp d a 0 None)))"
  by (intro no_panic_on_socket no_panic_send) (simp add: spacket_def)

lemma no_panic_emits: "no_panic (raw_emit L e d)" "no_panic (raw_emit_with_ack L e d t cb)" "no_panic (raw_connect L)"
proof -
  have built: "no_panic (on_socket (ssocket_send (sl_oc L) (sl_b64 L) (sl_url L) (build_packet_for_payload J d e nsp i)))"
    for J :: "('j, 'z) jsonlib_scheme" and nsp i
    by (intro no_panic_on_socket no_panic_send build_packet_encodes)
  show "no_panic (raw_emit L e d)" "no_panic (raw_emit_with_ack L e d t cb)"
    by (auto simp: no_panic_def raw_emit_def ssocket_emit_def raw_emit_with_ack_def Let_def no_panicD [OF built]
        split: prod.splits)
  have "no_panic (ssocket_connect (sl_b64 L) (sl_url L))"
    unfolding ssocket_connect_def
    by (intro no_panic_seq no_panic_on_engine) (simp_all add: no_panic_def esocket_connect_def esocket_emit_no_panic)
  then show "no_panic (raw_connect L)"
    by (simp add: no_panic_def [of "raw_connect L"] raw_connect_def Let_def
        no_panicD [OF no_panic_seq [OF no_panic_on_socket no_panic_sent]])
qed

lemma no_panic_disconnect_with:
  assumes "no_panic close"
  shows "no_panic (raw_disconnect_with L close)"
proof -
  have "no_panic (seq (ignore (on_socket (ssocket_send (sl_oc L) (sl_b64 L) (sl_url L) (spacket SDisconnect nsp None None 0 None))))
      (\<lambda>_. seq (on_socket (ssocket_disconnect (sl_b64 L) (sl_url L))) (\<lambda>_. ignore close)))" for nsp
    by (intro no_panic_seq no_panic_ignore no_panic_sent no_panic_on_socket no_panic_disconnect assms)
  then show ?thesis by (simp add: no_panic_def raw_disconnect_with_def)
qed

lemma no_panic_call_ack: "no_panic (call_ack L p a)"
proof -
  have "no_panic (seq (run_call_option L (raw_callback L EvClose (PString [])) c)
      (\<lambda>_. run_call_option L (raw_callback L EvClose (PString [])) c'))" for c c'
    by (intro no_panic_seq no_panic_run_call_option no_panic_raw_callback)
  then show ?thesis by (auto simp: no_panic_def call_ack_def read_clock_def Let_def)
qed

interpretation raw_safe: ack_book_safe rw_acks rw_calls rw_acks_locked "call_ack L" "ack_loop L" "handle_ack L" "quiet L"
  for L :: "('u, 'j) slib"
proof unfold_locales
  show "call_ack L p a s \<noteq> (Panic, t)" for p a s t
    using no_panicD [OF no_panic_call_ack, of L p a s] by auto
  fix p i s s' assume "s_id p = Some i" "handle_ack L p s = (Panic, s')"
  then show "\<exists>s0 r1 s1. rw_acks_locked s0 \<and> rw_acks s0 = rw_acks s \<and>
      ack_loop L p i 0 (rw_acks s) [] s0 = (r1, s1) \<and>
      (r1 = Panic \<or> (\<exists>ks. r1 = Ok ks \<and> remove_indices ks (rw_acks s1) = None))"
    by (intro exI [of _ "s\<lparr>rw_acks_locked := True\<rparr>"])
      (auto simp: handle_ack_def seq_def Let_def split: if_splits prod.splits outcome.splits option.splits)
qed

section \<open>The blocking client\<close>

text \<open>An item from the server that makes nothing panic: no \<open>Open\<close> and no \<open>Pong\<close> packet, and no message
  that is an event whose array is empty.\<close>

definition harmless :: "('u, 'j) slib \<Rightarrow> eerror + epacket \<Rightarrow> bool" where
  "harmless L item =
     (case item of
        Inl _ \<Rightarrow> True
      | Inr p \<Rightarrow> e_id p \<noteq> EOpen \<and> e_id p \<noteq> EPong \<and>
          (is_message (e_id p) \<longrightarrow>
             (case spacket_try_from (sl_json L) (e_data p) of Inl _ \<Rightarrow> True | Inr sp \<Rightarrow> \<not> empty_event L sp)))"

abbreviation raw_items :: "('u, 'j) slib \<Rightarrow> ('u, 'j) raw \<Rightarrow> (eerror + epacket) list" where
  "raw_items L s \<equiv> backlog (sl_b64 L) (ss_engine (rw_socket s))"

lemma fired_items [simp]: "backlog B (fire c x s) = backlog B s" "backlog B (s\<lparr>es_connected := b\<rparr>) = backlog B s"
  by (simp_all add: backlog_def)

interpretation items_kept: engine_frame L "\<lambda>e. backlog B e = c" for L :: "('u, 'j) slib" and B :: base64 and c
  by unfold_locales (simp_all add: esocket_emit_backlog)

interpretation raw_frame: open_frame L "\<lambda>t. backlog B (ss_engine t) = c"
  for L :: "('u, 'j) slib" and B :: base64 and c
proof unfold_locales
  have "keeps (\<lambda>e. backlog B e = c) (esocket_connect (sl_b64 L) (sl_url L))"
    by (simp add: keeps_def esocket_connect_def esocket_emit_backlog)
  from keeps_on_engine [OF this] show "keeps (\<lambda>t. backlog B (ss_engine t) = c) (ssocket_connect (sl_b64 L) (sl_url L))"
    unfolding ssocket_connect_def by (intro keeps_seq) (simp_all add: keeps_def)
qed

lemma eclient_poll_items: "set (backlog B (snd (eclient_poll B U s))) \<subseteq> set (backlog B s)"
proof (cases "es_connected s")
  case True
  obtain r s1 where r: "esocket_poll B U s = (r, s1)" by fastforce
  have "(r, backlog B s1) = poll_spec (backlog B s)"
    using esocket_poll_refines [OF True, of B U] r by simp
  then have "set (backlog B s1) \<subseteq> set (backlog B s)"
    by (auto simp: poll_spec_def split: list.splits sum.splits)
  moreover have "backlog B (snd (eclient_poll B U s)) = backlog B s1"
    using r eclient_react_backlog [of B B U _ "handle_packet _ s1"]
    by (auto simp: eclient_poll_step split: outcome.splits option.splits prod.splits) (metis snd_conv backlog_steps(2))+
  ultimately show ?thesis by simp
qed (simp add: eclient_poll_step esocket_poll_closed)

abbreviation calm :: "('u, 'j) slib \<Rightarrow> 'u ssocket \<Rightarrow> bool" where
  "calm L t \<equiv> list_all (harmless L) (backlog (sl_b64 L) (ss_engine t))"

lemma keeps_calm_poll: "keeps (calm L) (on_engine (eclient_poll (sl_b64 L) U))"
  using eclient_poll_items [of "sl_b64 L" U] by (force simp: keeps_def list_all_iff)

lemma on_engine_poll_no_panic:
  assumes "calm L t"
  shows "fst (on_engine (eclient_poll (sl_b64 L) U) t) \<noteq> Panic"
proof -
  have "fst (eclient_poll (sl_b64 L) U (ss_engine t)) \<noteq> Panic"
    using assms eclient_poll_panics [of "sl_b64 L" U "ss_engine t"] by (auto simp: harmless_def)
  then show ?thesis
    by (cases "eclient_poll (sl_b64 L) U (ss_engine t)"; cases "fst (eclient_poll (sl_b64 L) U (ss_engine t))")
      (auto simp: on_engine_def)
qed

lemma read_attachments_calm:
  assumes "calm L t"
  shows "fst (read_attachments (sl_b64 L) U n as t) \<noteq> Panic \<and> calm L (snd (read_attachments (sl_b64 L) U n as t))"
  using assms
proof (induction n arbitrary: as t)
  case (Suc n)
  obtain r u where r: "on_engine (eclient_poll (sl_b64 L) U) t = (r, u)" by fastforce
  have "r \<noteq> Panic" "calm L u"
    using on_engine_poll_no_panic [OF Suc.prems, of U] keepsD [OF keeps_calm_poll Suc.prems, of U] by (simp_all add: r)
  with Suc.IH [of u] r show ?case by (cases r) (auto simp: seq_def split: option.splits)
qed simp

lemma handle_engineio_packet_calm:
  assumes "calm L t" "harmless L (Inr q)" "is_message (e_id q)"
    and "handle_engineio_packet (sl_b64 L) U (sl_json L) q t = (r, v)"
  shows "r \<noteq> Panic \<and> calm L v \<and> (\<forall>p. r = Ok p \<longrightarrow> \<not> empty_event L p)"
proof (cases "spacket_try_from (sl_json L) (e_data q)")
  case (Inl e)
  with assms(1,4) show ?thesis by (auto simp: handle_engineio_packet_def)
next
  case (Inr sp)
  with assms(2,3) have sp: "\<not> empty_event L (sp\<lparr>s_attachments := as\<rparr>)" "\<not> empty_event L sp" for as
    by (simp_all add: harmless_def empty_event_def)
  obtain r1 u where u: "read_attachments (sl_b64 L) U (unat (s_count sp)) [] t = (r1, u)" by fastforce
  with read_attachments_calm [OF assms(1), of U "unat (s_count sp)" "[]"] have "r1 \<noteq> Panic" "calm L u" by simp_all
  with assms(1,4) Inr u sp show ?thesis
    by (cases r1) (auto simp: handle_engineio_packet_def split: if_splits)
qed

lemma ssocket_poll_calm:
  "calm L t \<Longrightarrow> fst (ssocket_poll (sl_b64 L) U (sl_json L) t) \<noteq> Panic \<and>
     calm L (snd (ssocket_poll (sl_b64 L) U (sl_json L) t)) \<and>
     (\<forall>p. fst (ssocket_poll (sl_b64 L) U (sl_json L) t) = Ok (Some p) \<longrightarrow> \<not> empty_event L p)"
proof (induction "sl_b64 L" U "sl_json L" t rule: ssocket_poll.induct)
  case (1 U t)
  obtain r u where r: "on_engine (eclient_poll (sl_b64 L) U) t = (r, u)" by fastforce
  then obtain r0 e where e: "eclient_poll (sl_b64 L) U (ss_engine t) = (r0, e)" "u = t\<lparr>ss_engine := e\<rparr>"
    "r = map_err SIncompleteResponseFromEngineIo r0"
    by (auto simp: on_engine_def split: prod.splits)
  have u: "r \<noteq> Panic" "calm L u"
    using on_engine_poll_no_panic [OF "1.prems", of U] keepsD [OF keeps_calm_poll "1.prems", of U] by (simp_all add: r)
  show ?case
  proof (cases "\<exists>q. r0 = Ok (Some q)")
    case True
    then obtain q where q: "r0 = Ok (Some q)" by blast
    then have harm: "harmless L (Inr q)"
      using eclient_poll_backlog [of "sl_b64 L" U "ss_engine t" q e] e(1) "1.prems" by (simp add: list_all_iff)
    show ?thesis
    proof (cases "is_message (e_id q)")
      case True
      obtain r2 v where v: "handle_engineio_packet (sl_b64 L) U (sl_json L) q u = (r2, v)" by fastforce
      have "r2 \<noteq> Panic \<and> calm L v \<and> (\<forall>p. r2 = Ok p \<longrightarrow> \<not> empty_event L p)"
        by (rule handle_engineio_packet_calm [OF u(2) harm True v])
      with v True q e show ?thesis by (subst (1 2 3) ssocket_poll.simps) (cases r2; simp)
    next
      case False
      with "1.hyps" [OF e(1) [symmetric, unfolded q] refl refl False] u(2) e q show ?thesis
        by (subst (1 2 3) ssocket_poll.simps) simp
    qed
  next
    case False
    with e u show ?thesis
      by (subst (1 2 3) ssocket_poll.simps) (cases r0; auto split: option.splits)
  qed
qed

lemma raw_callback_no_panic: "fst (raw_callback L e p s) \<noteq> Panic"
  by (rule no_panicD [OF no_panic_raw_callback])

lemma report_no_panic: "fst (m s) \<noteq> Panic \<Longrightarrow> fst (report L b m s) \<noteq> Panic"
proof -
  have "no_panic (seq (raw_callback L e d) (\<lambda>_. give (if b then Err x else Ok ())))" for e d and x :: serror
    by (intro no_panic_seq no_panic_raw_callback) (simp add: no_panic_def)
  then show "fst (m s) \<noteq> Panic \<Longrightarrow> fst (report L b m s) \<noteq> Panic"
    by (auto simp: report_def no_panic_def split: prod.splits outcome.splits)
qed

lemma handle_event_no_panic: "s_type p = SEvent \<Longrightarrow> \<not> empty_event L p \<Longrightarrow> fst (handle_event L p s) \<noteq> Panic"
  unfolding event_panic by (auto simp: empty_event_def)

lemma handle_binary_event_no_panic: "fst (handle_binary_event L p s) \<noteq> Panic"
  by (auto simp: handle_binary_event_def Let_def raw_callback_no_panic split: option.split list.split)

lemma raw_handle_packet_no_panic:
  assumes "distinct (map ack_id (rw_acks s))" "\<not> empty_event L p"
  shows "fst (raw_handle_packet L p s) \<noteq> Panic"
proof -
  have "fst (handle_ack L p s) \<noteq> Panic"
    using raw_safe.handle_no_panic [OF assms(1), of L p "snd (handle_ack L p s)"] by (metis prod.collapse)
  with assms(2) show ?thesis
    by (cases "s_type p")
      (simp_all add: raw_handle_packet_def report_no_panic handle_event_no_panic handle_binary_event_no_panic
        raw_callback_no_panic)
qed

lemma raw_poll_calm:
  assumes "calm L (rw_socket s)" "distinct (map ack_id (rw_acks s))"
  shows "fst (raw_poll L s) \<noteq> Panic" "calm L (rw_socket (snd (raw_poll L s)))"
proof -
  have "fst (raw_poll L s) \<noteq> Panic \<and> calm L (rw_socket (snd (raw_poll L s)))" using assms
  proof (induction L s rule: raw_poll.induct)
    case (1 L s)
    obtain r t where rt: "ssocket_poll (sl_b64 L) (sl_url L) (sl_json L) (rw_socket s) = (r, t)" by fastforce
    let ?s1 = "s\<lparr>rw_socket := t\<rparr>"
    have poll: "on_socket (ssocket_poll (sl_b64 L) (sl_url L) (sl_json L)) s = (r, ?s1)"
      by (simp add: on_socket_def rt)
    have t: "r \<noteq> Panic" "calm L t" "\<And>p. r = Ok (Some p) \<Longrightarrow> \<not> empty_event L p"
      using ssocket_poll_calm [OF "1.prems"(1), of "sl_url L"] by (simp_all add: rt)
    have keep: "calm L (rw_socket (snd (m ?s1)))"
      if "\<And>c. keeps (in_socket (\<lambda>t. backlog (sl_b64 L) (ss_engine t) = c)) m" for m :: "('a, 'b, 'c) raw_proc"
      using keepsD [OF that, of _ ?s1] t(2) by (auto simp: in_socket_def)
    show ?case
    proof (cases "\<exists>p. r = Ok (Some p) \<and> s_nsp p = rw_nsp ?s1")
      case True
      then obtain p where p: "r = Ok (Some p)" "s_nsp p = rw_nsp ?s1" by blast
      have "fst (raw_handle_packet L p ?s1) \<noteq> Panic"
        by (rule raw_handle_packet_no_panic) (use t(3) [OF p(1)] "1.prems"(2) in simp_all)
      moreover have "calm L (rw_socket (snd (raw_handle_packet L p ?s1)))"
        by (rule keep) (rule items_kept.client.packet_frame)
      ultimately show ?thesis
        using p by (subst (1 2) raw_poll.simps) (auto simp: poll seq_def split: prod.splits outcome.splits)
    next
      case other: False
      show ?thesis
      proof (cases r)
        case (Err e)
        have "no_panic (raw_callback L EvError d)" for d by (rule no_panic_raw_callback)
        moreover have "calm L (rw_socket (snd (raw_callback L EvError d ?s1)))" for d
          by (rule keep) (rule items_kept.client.callback_frame)
        ultimately show ?thesis
          using Err by (subst (1 2) raw_poll.simps)
            (auto simp: poll seq_def no_panic_def split: prod.splits outcome.splits; metis fst_conv snd_conv)
      next
        case (Ok x)
        with other t "1.IH" [OF poll [symmetric] Ok] "1.prems"(2) show ?thesis
          by (subst (1 2) raw_poll.simps) (cases x; simp add: poll)
      qed (use t in \<open>subst (1 2) raw_poll.simps, simp add: poll\<close>)+
    qed
  qed
  then show "fst (raw_poll L s) \<noteq> Panic" "calm L (rw_socket (snd (raw_poll L s)))" by simp_all
qed

lemma raw_step_calm:
  assumes "raw_step_distinct L s l s'" "calm L (rw_socket s)"
  shows "calm L (rw_socket s')"
proof -
  have dist: "distinct (map ack_id (rw_acks s))" and step: "raw_step L s l s'"
    using assms(1) by (simp_all add: raw_step_distinct_def)
  have same: "raw_items L s' = raw_items L s" if "l \<noteq> RPoll"
  proof (cases "l = RConnect")
    case True
    with step obtain r where "raw_connect L s = (r, s')" by (auto elim: raw_step.cases)
    with keepsD [OF raw_frame.connect_frame, of "sl_b64 L" "raw_items L s" s L] show ?thesis
      by (simp add: in_socket_def)
  next
    case False
    from items_kept.client.step_frame [OF step this that] show ?thesis by blast
  qed
  show ?thesis
  proof (cases "l = RPoll")
    case True
    with step raw_poll_calm(2) [OF assms(2) dist] show ?thesis by (auto elim!: raw_step.cases dest: arg_cong [where f = snd])
  qed (use same assms(2) in simp)
qed

section \<open>Properties\<close>

text \<open>C35: the blocking client never panics, over any history, except on what is named here. Whatever is
  called, whatever the callbacks do and whatever the server sends, as long as it sends no \<open>Open\<close> and no
  \<open>Pong\<close> packet and no event whose array is empty, and the outstanding requests have distinct ids when a
  call starts: in no state that is reached does a poll, a connect, an emit, a request or a disconnect
  panic.\<close>

theorem client_never_panics:
  assumes "runs (raw_step_distinct L) s ls s'" "list_all (harmless L) (raw_items L s)"
    and "distinct (map ack_id (rw_acks s'))"
  shows "fst (raw_poll L s') \<noteq> Panic \<and> fst (raw_connect L s') \<noteq> Panic \<and> fst (raw_emit L e d s') \<noteq> Panic \<and>
    fst (raw_emit_with_ack L e d t cb s') \<noteq> Panic \<and> fst (raw_disconnect L s') \<noteq> Panic"
proof -
  have "calm L (rw_socket s')"
    using runs_invariant [where I = "\<lambda>s. calm L (rw_socket s)", OF assms(1,2)] raw_step_calm by blast
  moreover have "no_panic (raw_disconnect L)"
    unfolding raw_disconnect_def by (rule no_panic_disconnect_with [OF no_panic_raw_callback])
  ultimately show ?thesis
    using raw_poll_calm(1) [OF _ assms(3)] by (simp add: no_panicD [OF no_panic_emits(1)]
        no_panicD [OF no_panic_emits(2)] no_panicD [OF no_panic_emits(3)] no_panicD)
qed

theorem client_never_panics_witness:
  "\<exists>s'. runs (raw_step_distinct (demo_slib (\<lambda>h. []))) demo_early demo_early_run s' \<and>
     fst (raw_poll (demo_slib (\<lambda>h. [])) s') \<noteq> Panic"
proof -
  let ?L = "demo_slib (\<lambda>h. [])"
  obtain s' where run: "runs (raw_step_distinct ?L) demo_early demo_early_run s'" and acks: "rw_acks s' = []"
    by (rule demo_early_runs)
  have "raw_items ?L demo_early = [Inr (epacket EMessage (utf8 (lit ''30[7]'')))]"
    using ws_items_message(2) [of "lit ''30[7]''" nibble64]
    by (simp add: demo_early_def demo_backlog scalar_def del: ws_items.simps)
  then have "list_all (harmless ?L) (raw_items ?L demo_early)"
    using early_packet by (simp add: harmless_def empty_event_def early_ack_def spacket_def demo_slib_def is_message_def)
  from client_never_panics [OF run this] run acks show ?thesis by auto
qed

text \<open>These conditions on the items are needed: if the next item breaks one of them, and a message is for
  the client's namespace, the poll panics.\<close>

theorem harmful_item_panics:
  assumes "es_connected (ss_engine (rw_socket s))" "raw_items L s = Inr p # rest" "\<not> harmless L (Inr p)"
    and "\<And>sp. spacket_try_from (sl_json L) (e_data p) = Inr sp \<Longrightarrow> s_nsp sp = rw_nsp s \<and> s_count sp = 0"
  shows "fst (raw_poll L s) = Panic"
proof (cases "e_id p = EOpen \<or> e_id p = EPong")
  case True
  with assms(1,2) eclient_poll_panics [of "sl_b64 L" "sl_url L" "ss_engine (rw_socket s)"]
  have "fst (eclient_poll (sl_b64 L) (sl_url L) (ss_engine (rw_socket s))) = Panic" by blast
  then obtain e where "eclient_poll (sl_b64 L) (sl_url L) (ss_engine (rw_socket s)) = (Panic, e)"
    by (metis prod.collapse)
  then show ?thesis by (subst raw_poll.simps) (simp add: on_socket_def ssocket_poll.simps)
next
  case False
  with assms(3) obtain sp where sp: "is_message (e_id p)" "spacket_try_from (sl_json L) (e_data p) = Inr sp" "empty_event L sp"
    by (auto simp: harmless_def split: sum.splits)
  from assms(4) [OF sp(2)] have same: "s_nsp sp = rw_nsp s" "s_count sp = 0" by simp_all
  from ssocket_poll_assembles [of "rw_socket s" "sl_b64 L" p "[]" rest "sl_json L" sp "sl_url L"] assms(1,2) sp(1,2) same(2)
  obtain t where "ssocket_poll (sl_b64 L) (sl_url L) (sl_json L) (rw_socket s) = (Ok (Some sp), t)" by auto
  from raw_poll_step [OF this same(1)]
  have "raw_poll L s = seq (raw_handle_packet L sp) (\<lambda>_. give (Ok (Some sp))) (s\<lparr>rw_socket := t\<rparr>)" .
  moreover have "fst (raw_handle_packet L sp (s\<lparr>rw_socket := t\<rparr>)) = Panic"
  proof -
    have "s_type sp = SEvent" "fst (handle_event L sp (s\<lparr>rw_socket := t\<rparr>)) = Panic"
      using sp(3) unfolding event_panic by (auto simp: empty_event_def split: option.splits sum.splits)
    with same(1) show ?thesis by (auto simp: raw_handle_packet_def report_def split: prod.split)
  qed
  ultimately show ?thesis by (auto simp: seq_def split: prod.split)
qed

theorem harmful_item_panics_witness:
  "fst (raw_poll (demo_slib (\<lambda>h. [])) (demo_raw [WsMsg (WsText (lit ''0''))] [])) = Panic"
proof -
  let ?s = "demo_raw [WsMsg (WsText (lit ''0''))] []" and ?L = "demo_slib (\<lambda>h. [])"
  have items: "raw_items ?L ?s = Inr (epacket EOpen []) # []"
    by (simp add: demo_backlog ws_items_char separator_def epacket_try_from_def epacket_id_try_from_def
        epacket_def del: ws_items.simps)
  have "\<not> harmless ?L (Inr (epacket EOpen []))" by (simp add: harmless_def)
  moreover have "spacket_try_from (sl_json ?L) (e_data (epacket EOpen [])) \<noteq> Inr sp" for sp
    by (simp add: spacket_try_from_def decode_text_def from_utf8_def utf8_scan.simps)
  ultimately show ?thesis using harmful_item_panics [OF _ items] by simp
qed

end
