(* ===== verification/Async_Panics.thy ===== *)
theory Async_Panics
  imports Panics
begin

text \<open>
  When the asynchronous socket.io client panics: on outstanding requests with the same id, and when the
  engine's stream ends between a packet and its attachments. Nothing else the server sends and no
  callback makes it panic.
\<close>

section \<open>Procedures that keep an invariant and do not panic\<close>

definition safe :: "('s \<Rightarrow> bool) \<Rightarrow> ('s, 'e, 'a) proc \<Rightarrow> bool" where
  "safe I m \<longleftrightarrow> (\<forall>s. I s \<longrightarrow> fst (m s) \<noteq> Panic \<and> I (snd (m s)))"

lemma safeI: "(\<And>s. I s \<Longrightarrow> fst (m s) \<noteq> Panic) \<Longrightarrow> (\<And>s. I s \<Longrightarrow> I (snd (m s))) \<Longrightarrow> safe I m"
  by (simp add: safe_def)

lemma safeD: "safe I m \<Longrightarrow> I s \<Longrightarrow> fst (m s) \<noteq> Panic" "safe I m \<Longrightarrow> I s \<Longrightarrow> I (snd (m s))"
  by (simp_all add: safe_def)

lemma safe_seq:
  assumes "safe I m" "\<And>x. safe I (k x)"
  shows "safe I (seq m k)"
proof -
  have "fst (seq m k s) \<noteq> Panic \<and> I (snd (seq m k s))" if "I s" for s
  proof -
    obtain r t where rt: "m s = (r, t)" by fastforce
    with safeD [OF assms(1) that] have "r \<noteq> Panic" "I t" by simp_all
    with rt safeD [OF assms(2)] show ?thesis by (cases r) simp_all
  qed
  then show ?thesis by (simp add: safe_def)
qed

lemma safe_ignore:
  assumes "safe I m"
  shows "safe I (ignore m)"
proof -
  have "fst (ignore m s) \<noteq> Panic" if "I s" for s
    using safeD(1) [OF assms that] by (auto simp: ignore_def split: prod.splits outcome.splits)
  with safeD(2) [OF assms] show ?thesis by (simp add: safe_def)
qed

lemma safe_give: "r \<noteq> Panic \<Longrightarrow> safe I (give r)"
  by (simp add: safe_def)

lemma safe_modify: "(\<And>s. I s \<Longrightarrow> I (f s)) \<Longrightarrow> safe I (modify f)"
  by (simp add: safe_def)

section \<open>What callbacks leave alone\<close>

definition in_asocket :: "('u assocket \<Rightarrow> bool) \<Rightarrow> ('u, 'j) araw \<Rightarrow> bool" where
  "in_asocket J s \<longleftrightarrow> J (ra_socket s)"

lemma in_asocket_upd [simp]:
  "in_asocket J (s\<lparr>ra_acks := as\<rparr>) = in_asocket J s" "in_asocket J (s\<lparr>ra_acks_locked := b\<rparr>) = in_asocket J s"
  "in_asocket J (s\<lparr>ra_calls := cs\<rparr>) = in_asocket J s" "in_asocket J (s\<lparr>ra_time := f\<rparr>) = in_asocket J s"
  "in_asocket J (s\<lparr>ra_rand := f\<rparr>) = in_asocket J s" "in_asocket J (s\<lparr>ra_socket := t\<rparr>) = J t"
  by (simp_all add: in_asocket_def)

lemma on_asocket_safe: "safe J m \<Longrightarrow> safe (in_asocket J) (on_asocket m)"
  by (rule safeI) (simp_all add: on_asocket_def in_asocket_def case_prod_beta safeD)

abbreviation encodable :: "spacket \<Rightarrow> bool" where
  "encodable p \<equiv> s_attachments p = None \<or> s_count p \<noteq> 0"

lemma abuild_encodable: "abuild_packet_for_payload J d e nsp i = Inr p \<Longrightarrow> encodable p"
  by (auto simp: abuild_packet_for_payload_def spacket_def Let_def split: spayload.splits sum.splits)

text \<open>A property of the socket that sending, closing and connecting keep without a panic.\<close>

locale asocket_frame =
  fixes L :: "('u, 'j) slib" and J :: "'u assocket \<Rightarrow> bool"
  assumes send_safe: "encodable p \<Longrightarrow> safe J (assocket_send (sl_oc L) (sl_b64 L) (sl_url L) p)"
    and disconnect_safe: "safe J (assocket_disconnect (sl_b64 L) (sl_url L))"
    and connect_safe: "safe J (assocket_connect (sl_b64 L) (sl_url L))"
begin

lemma packet_safe:
  "safe (in_asocket J) (on_asocket (assocket_send (sl_oc L) (sl_b64 L) (sl_url L) (spacket t nsp d i 0 None)))"
  by (rule on_asocket_safe [OF send_safe]) (simp add: spacket_def)

lemma araw_connect_safe: "safe (in_asocket J) (araw_connect L)"
  by (rule safeI)
    (simp_all add: araw_connect_def Let_def safeD [OF safe_seq [OF on_asocket_safe [OF connect_safe] packet_safe]])

lemma araw_disconnect_safe: "safe (in_asocket J) (araw_disconnect L)"
  by (rule safeI)
    (simp_all add: araw_disconnect_def safeD [OF safe_seq [OF packet_safe on_asocket_safe [OF disconnect_safe]]])

lemma araw_emit_safe: "safe (in_asocket J) (araw_emit L e d)"
proof -
  have "safe J (assocket_emit (sl_oc L) (sl_b64 L) (sl_url L) (sl_json L) nsp e d)" for nsp
  proof (cases "abuild_packet_for_payload (sl_json L) d e nsp None")
    case (Inl x)
    then show ?thesis by (simp add: safe_def assocket_emit_def)
  next
    case (Inr p)
    with send_safe [OF abuild_encodable [OF Inr]] show ?thesis by (simp add: safe_def assocket_emit_def)
  qed
  then show ?thesis by (intro safeI) (simp_all add: araw_emit_def safeD [OF on_asocket_safe [of J]])
qed

lemma araw_emit_with_ack_safe: "safe (in_asocket J) (araw_emit_with_ack L e d t cb)"
proof -
  have "fst (araw_emit_with_ack L e d t cb s) \<noteq> Panic \<and> in_asocket J (snd (araw_emit_with_ack L e d t cb s))"
    if "in_asocket J s" for s
  proof (cases "abuild_packet_for_payload (sl_json L) d e (ra_nsp s) (Some (fst (adraw_id s)))")
    case (Inl x)
    with that show ?thesis by (simp add: araw_emit_with_ack_def adraw_id_def)
  next
    case (Inr p)
    with that show ?thesis
      by (simp add: araw_emit_with_ack_def adraw_id_def aread_clock_def Let_def
          safeD [OF on_asocket_safe [OF send_safe [OF abuild_encodable [OF Inr]]]])
  qed
  then show ?thesis by (simp add: safe_def)
qed

lemma actions_safe: "safe (in_asocket J) (arun_actions L as)"
proof (induction as)
  case (Cons a as)
  have "safe (in_asocket J) (arun_action L a)"
    by (cases a) (auto intro: safe_ignore araw_emit_safe araw_emit_with_ack_safe araw_disconnect_safe)
  with Cons show ?case by (simp only: arun_actions.simps) (intro safe_seq)
qed (simp add: safe_def)

lemma call_safe: "safe (in_asocket J) (arun_call_option L c)"
  by (rule safeI; cases c)
    (simp_all add: arun_call_option_def arun_call_def safeD [OF actions_safe])

lemma callback_safe: "safe (in_asocket J) (araw_callback L e p)"
  by (rule safeI) (simp_all add: araw_callback_def safeD [OF safe_seq [OF call_safe call_safe]])

lemma call_ack_safe: "safe (in_asocket J) (acall_ack L p a)"
  by (rule safeI)
    (simp_all add: acall_ack_def aread_clock_def safeD [OF safe_seq [OF call_safe call_safe]])

lemma ack_loop_safe: "safe (in_asocket J) (aack_loop L p i k acks r)"
proof (induction acks arbitrary: k r)
  case (Cons a acks)
  then show ?case
    by (simp only: aack_loop.simps split: if_split) (intro conjI impI safe_seq call_ack_safe; simp)
qed (simp add: safe_def)

lemma handle_ack_kept: "in_asocket J s \<Longrightarrow> in_asocket J (snd (ahandle_ack L p s))"
proof (cases "s_id p")
  case (Some i)
  assume "in_asocket J s"
  moreover obtain r t where "aack_loop L p i 0 (ra_acks s) [] (s\<lparr>ra_acks_locked := True\<rparr>) = (r, t)" by fastforce
  ultimately show ?thesis
    using safeD(2) [OF ack_loop_safe, of "s\<lparr>ra_acks_locked := True\<rparr>" p i 0 "ra_acks s" "[]"] Some
    by (cases r) (auto simp: ahandle_ack_def Let_def split: option.split)
qed (simp add: ahandle_ack_def)

lemma report_safe: "safe (in_asocket J) m \<Longrightarrow> safe (in_asocket J) (areport L b m)"
proof (rule safeI)
  fix s :: "('u, 'j) araw" assume m: "safe (in_asocket J) m" and s: "in_asocket J s"
  obtain r t where rt: "m s = (r, t)" by fastforce
  have "safe (in_asocket J) (seq (araw_callback L e d) (\<lambda>_. give (if b then Err x else Ok ())))" for e d and x :: serror
    by (intro safe_seq callback_safe safe_give) simp
  from safeD [OF m s] safeD [OF this] rt
  show "fst (areport L b m s) \<noteq> Panic" "in_asocket J (snd (areport L b m s))"
    by (cases r; simp add: areport_def)+
qed

lemma events_safe: "safe (in_asocket J) (ahandle_event L p)" "safe (in_asocket J) (ahandle_binary_event L p)"
  using callback_safe
  by (auto simp: ahandle_event_def ahandle_binary_event_def Let_def safe_give
      split: option.splits sum.splits list.splits)

end

section \<open>The items to come\<close>

text \<open>How many attachments a packet of the engine announces, and that the stream does not end before they
  have all come.\<close>

definition announced :: "('j, 'z) jsonlib_scheme \<Rightarrow> epacket \<Rightarrow> nat" where
  "announced J p =
     (if is_message (e_id p) then
        (case spacket_try_from J (e_data p) of Inl _ \<Rightarrow> 0 | Inr sp \<Rightarrow> unat (s_count sp))
      else 0)"

fun whole :: "('j, 'z) jsonlib_scheme \<Rightarrow> (eerror + epacket) option list \<Rightarrow> bool" where
  "whole J [] \<longleftrightarrow> True"
| "whole J (Some (Inr p) # rest) \<longleftrightarrow> None \<notin> set (take (announced J p) rest) \<and> whole J rest"
| "whole J (item # rest) \<longleftrightarrow> whole J rest"

lemma whole_spec: "whole J items \<Longrightarrow> whole J (snd (stream_spec items))"
  by (induction J items rule: whole.induct) simp_all

lemma safe_on_aengine: "safe (\<lambda>e. Q (abacklog B e)) m \<Longrightarrow> safe (\<lambda>t. Q (abacklog B (sa_engine t))) (on_aengine m)"
proof (rule safeI)
  fix t :: "'a assocket" assume m: "safe (\<lambda>e. Q (abacklog B e)) m" and t: "Q (abacklog B (sa_engine t))"
  obtain r e where re: "m (sa_engine t) = (r, e)" by fastforce
  with safeD [OF m t] show "fst (on_aengine m t) \<noteq> Panic" "Q (abacklog B (sa_engine (snd (on_aengine m t))))"
    by (cases r; simp add: on_aengine_def)+
qed

lemma aemit_safe: "safe (\<lambda>e. Q (abacklog B e)) (asocket_emit B' U p)"
  by (rule safeI) (simp_all add: asocket_emit_no_panic asocket_emit_abacklog)

lemma attachments_safe: "safe (\<lambda>t. Q (abacklog B (sa_engine t))) (asend_attachments B' U as)"
proof (induction as)
  case (Cons a as)
  then show ?case by (simp only: asend_attachments.simps) (intro safe_seq safe_on_aengine aemit_safe)
qed (simp add: safe_def)

lemma abacklog_flag [simp]: "abacklog B (s\<lparr>as_connected := c\<rparr>) = abacklog B s"
  by (simp add: abacklog_def)

interpretation araw_frame: asocket_frame L "\<lambda>t. Q (abacklog B (sa_engine t))"
  for L :: "('u, 'j) slib" and B :: base64 and Q
proof unfold_locales
  let ?J = "\<lambda>t :: 'u assocket. Q (abacklog B (sa_engine t))"
  let ?B = "sl_b64 L" and ?U = "sl_url L"
  show "safe ?J (assocket_send (sl_oc L) ?B ?U p)" if "encodable p" for p
  proof -
    from that obtain t where "encode_text (sl_oc L) p = Some t"
      by (cases "s_attachments p = None") (simp_all add: encode_text_def)
    then have "spacket_to_bytes (sl_oc L) p \<noteq> (Panic :: (serror, bytes) outcome)" by (simp add: spacket_to_bytes_def)
    moreover have "safe ?J (case s_attachments p of Some as \<Rightarrow> asend_attachments ?B ?U as | None \<Rightarrow> give (Ok ()))"
      by (simp add: attachments_safe safe_give split: option.split)
    ultimately have "safe ?J (seq (give (spacket_to_bytes (sl_oc L) p)) (\<lambda>bytes.
        seq (on_aengine (asocket_emit ?B ?U (epacket EMessage bytes))) (\<lambda>_.
        case s_attachments p of Some as \<Rightarrow> asend_attachments ?B ?U as | None \<Rightarrow> give (Ok ()))))"
      by (intro safe_seq safe_give safe_on_aengine aemit_safe)
    from safeD [OF this] show ?thesis by (auto intro!: safeI simp: assocket_send_def split: if_splits)
  qed
  have "safe (\<lambda>e. Q (abacklog B e)) (asocket_disconnect ?B ?U)"
    unfolding asocket_disconnect_def by (intro safe_seq aemit_safe safe_modify) simp_all
  from safe_on_aengine [OF this] have "safe ?J (seq (if b then on_aengine (asocket_disconnect ?B ?U) else give (Ok ()))
      (\<lambda>_. modify (\<lambda>s. if sa_connected s then s\<lparr>sa_connected := False\<rparr> else s)))" for b
    by (intro safe_seq safe_modify) (simp_all add: safe_give)
  from safeD [OF this] show "safe ?J (assocket_disconnect ?B ?U)"
    by (auto intro!: safeI simp: assocket_disconnect_def)
  have "safe (\<lambda>e. Q (abacklog B e)) (asocket_connect ?B ?U)"
    by (simp add: safe_def asocket_connect_def asocket_emit_no_panic asocket_emit_abacklog)
  from safe_on_aengine [OF this] show "safe ?J (assocket_connect ?B ?U)"
    unfolding assocket_connect_def by (intro safe_seq safe_modify) simp_all
qed

section \<open>The streams\<close>

lemma aclient_next_items:
  "abacklog B (snd (aclient_next B U e)) = (if ac_done e then abacklog B e else snd (stream_spec (abacklog B e)))"
proof (cases "ac_done e")
  case False
  obtain r e1 where e1: "asocket_next B U e = (r, e1)" by fastforce
  then have spec: "abacklog B e1 = snd (stream_spec (abacklog B e))"
    using asocket_next_refines [of B U e] by (metis snd_conv)
  have "abacklog B (snd (handle_inconming_packet B U p e1)) = abacklog B e1" for p
    by (rule handle_inconming_abacklog)
  with False e1 spec show ?thesis
    by (auto simp: aclient_next_def split: outcome.splits option.splits prod.splits) (metis snd_conv)+
qed (simp add: aclient_next_def)

text \<open>Reading goes on after a packet; \<open>None\<close> is the end of the items.\<close>

lemma handle_inconming_done: "ac_done (snd (handle_inconming_packet B U p e)) = ac_done e"
proof -
  have "ac_done (snd (asocket_emit B U q e)) = ac_done e" for q e
    by (auto simp: asocket_emit_def on_anet_def Let_def split: prod.splits outcome.splits)
  then show ?thesis
    by (simp add: handle_inconming_packet_def ahandle_packet_def ahandle_data_def ahandle_close_def apinged_def
        split: epacket_id.split)
qed

lemma aclient_next_open:
  assumes "\<not> ac_done e" "aclient_next B U e = (Ok x, e')"
  shows "case x of None \<Rightarrow> \<exists>rest. abacklog B e = None # rest
    | Some p \<Rightarrow> \<not> ac_done e' \<and> abacklog B e = Some (Inr p) # abacklog B e'"
proof (cases x)
  case None
  with assms have "fst (asocket_next B U e) = Ok None"
    by (auto simp: aclient_next_def split: prod.splits outcome.splits option.splits)
  with asocket_next_refines [of B U e] None show ?thesis
    by (auto simp: stream_spec_def split: list.splits option.splits sum.splits)
next
  case (Some p)
  with assms obtain e1 where e1: "asocket_next B U e = (Ok (Some p), e1)"
    "snd (handle_inconming_packet B U p e1) = e'"
    by (auto simp: aclient_next_def split: prod.splits outcome.splits option.splits)
  with handle_inconming_done [of B U p e1] asocket_next_fields [of B U e] assms(1) have "\<not> ac_done e'" by simp
  with aclient_next_abacklog [of B U e p e'] assms(2) Some show ?thesis by simp
qed

lemma aread_no_panic:
  assumes "\<not> ac_done (sa_engine t)" "None \<notin> set (take n (abacklog B (sa_engine t)))"
  shows "fst (aread_attachments B U n as t) \<noteq> Panic"
  using assms
proof (induction n arbitrary: as t)
  case (Suc n)
  obtain r e where e: "aclient_next B U (sa_engine t) = (r, e)" by fastforce
  have "r \<noteq> Panic" using aclient_next_no_panic [of B U "sa_engine t"] by (simp add: e)
  then show ?case
  proof (cases r)
    case (Ok x)
    from aclient_next_open [OF Suc.prems(1) e [unfolded Ok]] Suc.prems(2) obtain p where
      "x = Some p" "\<not> ac_done e" "None \<notin> set (take n (abacklog B e))"
      by (cases x) auto
    with e Ok Suc.IH [of "t\<lparr>sa_engine := e\<rparr>"] show ?thesis by (simp add: on_aengine_def)
  qed (use e in \<open>simp_all add: on_aengine_def\<close>)
qed simp

section \<open>The asynchronous client\<close>

abbreviation unbroken :: "('u, 'j) slib \<Rightarrow> 'u assocket \<Rightarrow> bool" where
  "unbroken L t \<equiv> whole (sl_json L) (abacklog (sl_b64 L) (sa_engine t))"

lemma keeps_unbroken_next: "keeps (unbroken L) (on_aengine (aclient_next (sl_b64 L) U))"
  by (rule keepsI) (simp add: aclient_next_items whole_spec)

lemma keeps_unbroken_read: "keeps (unbroken L) (aread_attachments (sl_b64 L) U n as)"
proof (induction n arbitrary: as)
  case (Suc n)
  show ?case
    unfolding aread_attachments.simps
    by (intro keeps_seq keeps_unbroken_next) (auto split: option.split intro: Suc)
qed (simp add: keeps_def)

lemma ahandle_engineio_packet_unbroken:
  assumes "unbroken L t" "\<not> ac_done (sa_engine t)"
    and "None \<notin> set (take (announced (sl_json L) q) (abacklog (sl_b64 L) (sa_engine t)))" "is_message (e_id q)"
  shows "fst (ahandle_engineio_packet (sl_b64 L) U (sl_json L) q t) \<noteq> Panic"
    "unbroken L (snd (ahandle_engineio_packet (sl_b64 L) U (sl_json L) q t))"
proof -
  have "fst (ahandle_engineio_packet (sl_b64 L) U (sl_json L) q t) \<noteq> Panic \<and>
    unbroken L (snd (ahandle_engineio_packet (sl_b64 L) U (sl_json L) q t))"
  proof (cases "spacket_try_from (sl_json L) (e_data q)")
    case (Inl e)
    with assms(1) show ?thesis by (simp add: ahandle_engineio_packet_def)
  next
    case (Inr sp)
    obtain r u where u: "aread_attachments (sl_b64 L) U (unat (s_count sp)) [] t = (r, u)" by fastforce
    with aread_no_panic [OF assms(2), of "unat (s_count sp)" "sl_b64 L" U "[]"] assms(3,4) Inr
      keepsD [OF keeps_unbroken_read assms(1), of U "unat (s_count sp)" "[]"]
    have "r \<noteq> Panic" "unbroken L u" by (simp_all add: announced_def)
    with assms(1) Inr u show ?thesis by (cases r) (auto simp: ahandle_engineio_packet_def)
  qed
  then show "fst (ahandle_engineio_packet (sl_b64 L) U (sl_json L) q t) \<noteq> Panic"
    "unbroken L (snd (ahandle_engineio_packet (sl_b64 L) U (sl_json L) q t))" by simp_all
qed

lemma assocket_next_unbroken:
  "unbroken L t \<Longrightarrow> fst (assocket_next (sl_b64 L) U (sl_json L) t) \<noteq> Panic \<and>
     unbroken L (snd (assocket_next (sl_b64 L) U (sl_json L) t))"
proof (induction "sl_b64 L" U "sl_json L" t rule: assocket_next.induct)
  case (1 U t)
  show ?case
  proof (cases "sa_done t")
    case True
    with "1.prems" show ?thesis by (simp add: assocket_next.simps)
  next
    case open': False
    obtain r e where e: "aclient_next (sl_b64 L) U (sa_engine t) = (r, e)" by fastforce
    let ?u = "t\<lparr>sa_engine := e\<rparr>"
    have u: "on_aengine (aclient_next (sl_b64 L) U) t = (map_err SIncompleteResponseFromEngineIo r, ?u)"
      by (simp add: on_aengine_def e)
    have r: "r \<noteq> Panic" using aclient_next_no_panic [of "sl_b64 L" U "sa_engine t"] by (simp add: e)
    have kept: "unbroken L ?u" using keepsD [OF keeps_unbroken_next "1.prems", of U] by (simp add: u)
    show ?thesis
    proof (cases "\<exists>q. r = Ok (Some q)")
      case True
      then obtain q where q: "r = Ok (Some q)" by blast
      then have "\<not> ac_done (sa_engine t)" using e by (auto simp: aclient_next_def)
      from aclient_next_open [OF this e [unfolded q]] "1.prems"
      have q': "\<not> ac_done e" "None \<notin> set (take (announced (sl_json L) q) (abacklog (sl_b64 L) e))" by simp_all
      show ?thesis
      proof (cases "is_message (e_id q)")
        case True
        obtain r2 v where v: "ahandle_engineio_packet (sl_b64 L) U (sl_json L) q ?u = (r2, v)" by fastforce
        with ahandle_engineio_packet_unbroken [of L ?u q U] kept q' True have "r2 \<noteq> Panic" "unbroken L v" by simp_all
        with v True q u open' show ?thesis
          by (subst (1 2) assocket_next.simps)
            (cases r2; simp add: ahandle_socketio_packet_def assocket_finish_def split: spacket_id.split)
      next
        case False
        have "(Ok (Some q), ?u) = on_aengine (aclient_next (sl_b64 L) U) t" by (simp add: u q)
        from "1.hyps" [OF open' this refl refl False kept] False q u open' show ?thesis
          by (subst (1 2) assocket_next.simps) simp
      qed
    next
      case False
      with r kept u open' show ?thesis
        by (subst (1 2) assocket_next.simps) (cases r; auto simp: assocket_finish_def split: option.splits)
    qed
  qed
qed

text \<open>Acknowledgements: the contract of \<open>Panics\<close>, which callbacks fulfil as they never panic.\<close>

interpretation araw_any: asocket_frame L "\<lambda>t. True" for L :: "('u, 'j) slib"
  by (rule araw_frame.asocket_frame_axioms [where Q = "\<lambda>_. True"])

interpretation araw_safe: ack_book_safe ra_acks ra_calls ra_acks_locked "acall_ack L" "aack_loop L" "ahandle_ack L" "quiet L"
  for L :: "('u, 'j) slib"
proof unfold_locales
  show "acall_ack L p a s \<noteq> (Panic, t)" for p a s t
    using safeD(1) [OF araw_any.call_ack_safe, of s L p a] by (auto simp: in_asocket_def)
  fix p i s s' assume "s_id p = Some i" "ahandle_ack L p s = (Panic, s')"
  then show "\<exists>s0 r1 s1. ra_acks_locked s0 \<and> ra_acks s0 = ra_acks s \<and>
      aack_loop L p i 0 (ra_acks s) [] s0 = (r1, s1) \<and>
      (r1 = Panic \<or> (\<exists>ks. r1 = Ok ks \<and> remove_indices ks (ra_acks s1) = None))"
    by (intro exI [of _ "s\<lparr>ra_acks_locked := True\<rparr>"])
      (auto simp: ahandle_ack_def seq_def Let_def split: if_splits prod.splits outcome.splits option.splits)
qed

lemma areport_outcome:
  assumes "fst (m s) \<noteq> Panic" "in_asocket (unbroken L) (snd (m s))"
  shows "fst (areport L b m s) \<noteq> Panic \<and> in_asocket (unbroken L) (snd (areport L b m s))"
proof -
  obtain r t where rt: "m s = (r, t)" by fastforce
  have "safe (in_asocket (unbroken L)) (seq (araw_callback L e d) (\<lambda>_. give (if b then Err x else Ok ())))" for e d and x :: serror
    by (intro safe_seq araw_frame.callback_safe safe_give) simp
  from safeD [OF this] assms rt show ?thesis by (cases r) (simp_all add: areport_def)
qed

lemma araw_handle_packet_safe:
  assumes "distinct (map ack_id (ra_acks s))" "in_asocket (unbroken L) s"
  shows "fst (araw_handle_packet L p s) \<noteq> Panic \<and> in_asocket (unbroken L) (snd (araw_handle_packet L p s))"
proof -
  have "fst (ahandle_ack L p s) \<noteq> Panic"
    using araw_safe.handle_no_panic [OF assms(1), of L p "snd (ahandle_ack L p s)"] by (metis prod.collapse)
  with araw_frame.handle_ack_kept [OF assms(2)]
  have acks: "fst (areport L b (ahandle_ack L p) s) \<noteq> Panic \<and> in_asocket (unbroken L) (snd (areport L b (ahandle_ack L p) s))" for b
    by (intro areport_outcome)
  have events: "fst (areport L b m s) \<noteq> Panic \<and> in_asocket (unbroken L) (snd (areport L b m s))"
    if "safe (in_asocket (unbroken L)) m" for b m
    using safeD [OF that assms(2)] by (intro areport_outcome)
  show ?thesis
    using acks events [OF araw_frame.events_safe(1)] events [OF araw_frame.events_safe(2)]
      safeD [OF araw_frame.callback_safe assms(2)] assms(2)
    by (cases "s_type p") (simp_all add: araw_handle_packet_def)
qed

lemma as_stream_next_safe:
  assumes "distinct (map ack_id (ra_acks s))" "unbroken L (ra_socket s)"
  shows "fst (as_stream_next L s) \<noteq> Panic" "unbroken L (ra_socket (snd (as_stream_next L s)))"
proof -
  obtain r t where rt: "assocket_next (sl_b64 L) (sl_url L) (sl_json L) (ra_socket s) = (r, t)" by fastforce
  let ?s1 = "s\<lparr>ra_socket := t\<rparr>"
  have u: "on_asocket (assocket_next (sl_b64 L) (sl_url L) (sl_json L)) s = (r, ?s1)"
    by (simp add: on_asocket_def rt)
  have t: "r \<noteq> Panic" "in_asocket (unbroken L) ?s1"
    using assocket_next_unbroken [OF assms(2), of "sl_url L"] by (simp_all add: rt)
  have packet: "fst (araw_handle_packet L p ?s1) \<noteq> Panic \<and> in_asocket (unbroken L) (snd (araw_handle_packet L p ?s1))" for p
    by (rule araw_handle_packet_safe [OF _ t(2)]) (simp add: assms(1))
  have "fst (as_stream_next L s) \<noteq> Panic \<and> in_asocket (unbroken L) (snd (as_stream_next L s))"
  proof (cases r)
    case (Ok x)
    show ?thesis
    proof (cases x)
      case (Some p)
      obtain r2 v where "araw_handle_packet L p ?s1 = (r2, v)" by fastforce
      with packet [of p] u Ok Some show ?thesis by (cases r2) (simp_all add: as_stream_next_def)
    qed (use u t Ok in \<open>simp add: as_stream_next_def\<close>)
  next
    case (Err e)
    obtain r2 v where "araw_callback L EvError (PString (sl_display L e)) ?s1 = (r2, v)" by fastforce
    with u Err safeD [OF araw_frame.callback_safe t(2), of L EvError "PString (sl_display L e)"] show ?thesis
      by (cases r2) (simp_all add: as_stream_next_def)
  qed (use u t in \<open>simp_all add: as_stream_next_def\<close>)
  then show "fst (as_stream_next L s) \<noteq> Panic" "unbroken L (ra_socket (snd (as_stream_next L s)))"
    by (simp_all add: in_asocket_def)
qed

lemma araw_step_unbroken:
  assumes "araw_step_distinct L s l s'" "unbroken L (ra_socket s)"
  shows "unbroken L (ra_socket s')"
proof -
  have keep: "unbroken L (ra_socket t)" if "m s = (r, t)" "safe (in_asocket (unbroken L)) m" for m :: "('a, 'b, unit) araw_proc" and r t
    using safeD(2) [OF that(2), of s] assms(2) by (simp add: in_asocket_def that(1))
  have dist: "distinct (map ack_id (ra_acks s))" and step: "araw_step L s l s'"
    using assms(1) by (simp_all add: araw_step_distinct_def)
  from step show ?thesis
  proof cases
    case (astep_connect r)
    show ?thesis by (rule keep [OF astep_connect(2) araw_frame.araw_connect_safe])
  next
    case (astep_emit e d r)
    show ?thesis by (rule keep [OF astep_emit(2) araw_frame.araw_emit_safe])
  next
    case (astep_ack e d t cb r)
    show ?thesis by (rule keep [OF astep_ack(2) araw_frame.araw_emit_with_ack_safe])
  next
    case (astep_item item)
    with as_stream_next_safe(2) [OF dist assms(2)] show ?thesis by simp
  next
    case (astep_disconnect r)
    show ?thesis by (rule keep [OF astep_disconnect(2) araw_frame.araw_disconnect_safe])
  qed
qed

section \<open>Properties\<close>



end
