(* ===== verification/Thread_Waits.thy ===== *)
theory Thread_Waits
  imports Client_Threads
begin

text \<open>
  What a call that does not come back waits for. \<open>Block\<close> is a read or a write the network has not answered, or
  a mutex that the caller holds itself. Here the two are told apart: a call that blocks leaves a state in
  which the last request on the wire has no answer, or nothing has come on a websocket it reads from.
\<close>

section \<open>Calls and what they wait for\<close>

text \<open>From a state with \<open>I\<close> the call ends in a state with \<open>J\<close>; if it does not come back, \<open>W\<close> holds where it stands.\<close>

definition waits_in :: "('s \<Rightarrow> bool) \<Rightarrow> ('s \<Rightarrow> bool) \<Rightarrow> ('s \<Rightarrow> bool) \<Rightarrow> ('s, 'e, 'a) proc \<Rightarrow> bool" where
  "waits_in W I J m \<longleftrightarrow>
     (\<forall>s. I s \<longrightarrow> (fst (m s) = Block \<longrightarrow> W (snd (m s))) \<and> (returned (fst (m s)) \<longrightarrow> J (snd (m s))))"

abbreviation anywhere :: "'s \<Rightarrow> bool" where
  "anywhere \<equiv> \<lambda>_. True"

lemma waits_inI:
  "(\<And>s r t. I s \<Longrightarrow> m s = (r, t) \<Longrightarrow> (r = Block \<longrightarrow> W t) \<and> (returned r \<longrightarrow> J t)) \<Longrightarrow> waits_in W I J m"
  unfolding waits_in_def by (metis prod.collapse)

lemma waits_inD:
  assumes "waits_in W I J m" "I s" "m s = (r, t)"
  shows "r = Block \<Longrightarrow> W t" "returned r \<Longrightarrow> J t"
  using assms by (auto simp: waits_in_def)

lemma waits_seq:
  assumes "waits_in W I J m" "\<And>x. waits_in W J K (k x)" "\<And>s. J s \<Longrightarrow> K s"
  shows "waits_in W I K (seq m k)"
proof (rule waits_inI)
  fix s r t assume s: "I s" and run: "seq m k s = (r, t)"
  obtain r1 s1 where m: "m s = (r1, s1)" by fastforce
  note D = waits_inD [OF assms(1) s m]
  show "(r = Block \<longrightarrow> W t) \<and> (returned r \<longrightarrow> K t)"
  proof (cases r1)
    case (Ok x)
    with D(2) have "J s1" by (simp add: returned_def)
    moreover have "k x s1 = (r, t)" using run m Ok by simp
    ultimately show ?thesis using waits_inD [OF assms(2), of s1 x r t] by blast
  qed (use run m D assms(3) in \<open>auto simp: returned_def\<close>)
qed

lemma waits_then:
  "waits_in W I I m \<Longrightarrow> (\<And>x. waits_in W I I (k x)) \<Longrightarrow> waits_in W I I (seq m k)"
  by (rule waits_seq)

lemma waits_give [simp]: "r \<noteq> Block \<Longrightarrow> waits_in W I I (give r)"
  by (simp add: waits_in_def)

lemma waits_pair [simp]: "r \<noteq> Block \<Longrightarrow> waits_in W I I (Pair r)"
  by (simp add: waits_in_def)

lemma waits_modify: "(\<And>s. I s \<Longrightarrow> J (f s)) \<Longrightarrow> waits_in W I J (modify f)"
  by (simp add: waits_in_def)

lemma waits_ignore: "waits_in W I J m \<Longrightarrow> waits_in W I J (ignore m)"
  unfolding waits_in_def ignore_def returned_def by (auto split: prod.splits outcome.splits)

lemma waits_weaken:
  "waits_in W I J m \<Longrightarrow> (\<And>s. I' s \<Longrightarrow> I s) \<Longrightarrow> (\<And>s. J s \<Longrightarrow> J' s) \<Longrightarrow> (\<And>s. W s \<Longrightarrow> W' s) \<Longrightarrow> waits_in W' I' J' m"
  by (simp add: waits_in_def)

lemma waits_keeps: "waits_in W anywhere anywhere m \<Longrightarrow> keeps I m \<Longrightarrow> waits_in W I I m"
  by (simp add: waits_in_def keeps_def)

section \<open>The network\<close>

text \<open>The last request has no answer yet.\<close>

definition unanswered :: "'u net \<Rightarrow> bool" where
  "unanswered w \<longleftrightarrow> wire w \<noteq> [] \<and>
     (case last (wire w) of
        HttpGet _ \<Rightarrow> get_in w = []
      | HttpPost _ _ \<Rightarrow> post_in w = []
      | WsConnect _ \<Rightarrow> ws_connect_in w = []
      | WsSend _ \<Rightarrow> ws_send_in w = [])"

definition starved :: "'u transport \<Rightarrow> 'u net \<Rightarrow> bool" where
  "starved t w \<longleftrightarrow> unanswered w \<or> (ws_in w = [] \<and> (case t of Polling _ \<Rightarrow> False | _ \<Rightarrow> True))"

lemma waits_ws_send: "waits_in unanswered I anywhere (ws_send m)"
  by (auto simp: waits_in_def ws_send_def unanswered_def log_request_def Let_def split: list.split sum.split)

lemma waits_emit:
  fixes U :: "'u urllib"
  shows "waits_in unanswered anywhere anywhere (transport_emit B U t d b)"
proof -
  have "waits_in unanswered anywhere anywhere (ws_emit d b :: ('u net, eerror, unit) proc)"
    using waits_ws_send by (auto simp: ws_emit_def ws_send_text_def split: option.split)
  moreover have "waits_in unanswered anywhere anywhere (polling_emit B U u d b)" for u
    by (auto simp: waits_in_def polling_emit_def unanswered_def log_request_def Let_def split: list.split sum.split)
  ultimately show ?thesis by (simp add: transport_emit_def split: transport.split)
qed

lemma ws_read_blocks: "ws_read es = (Block, es') \<Longrightarrow> es' = []"
  by (induction es rule: ws_read.induct) simp_all

lemma waits_poll:
  fixes U :: "'u urllib"
  shows "waits_in (starved t) anywhere anywhere (transport_poll U t)"
proof -
  have http: "waits_in unanswered anywhere anywhere (polling_poll U u)" for u
    by (auto simp: waits_in_def polling_poll_def unanswered_def log_request_def Let_def split: list.split sum.split)
  have ws: "waits_in (\<lambda>w. ws_in w = []) anywhere anywhere (ws_poll :: ('u net, eerror, bytes) proc)"
    by (rule waits_inI)
      (auto simp: ws_poll_def ws_poll_next_def dest: ws_read_blocks split: prod.splits outcome.splits option.splits)
  show ?thesis
    by (cases t; simp add: transport_poll_def, rule waits_weaken [OF http] waits_weaken [OF ws])
      (simp_all add: starved_def)
qed

section \<open>The sockets\<close>

definition engine_waits :: "'u esocket \<Rightarrow> bool" where
  "engine_waits e \<longleftrightarrow> starved (es_transport e) (es_net e)"

text \<open>Writing waits for the answer to what was written.\<close>

abbreviation unsent :: "'u esocket \<Rightarrow> bool" where
  "unsent e \<equiv> unanswered (es_net e)"

lemma unsent_waits: "unsent e \<Longrightarrow> engine_waits e"
  by (simp add: engine_waits_def starved_def)

lemma emit_unsent: "waits_in unsent anywhere anywhere (esocket_emit B U p)"
proof (rule waits_inI)
  fix s r t assume "esocket_emit B U p s = (r, t)"
  then show "(r = Block \<longrightarrow> unsent t) \<and> (returned r \<longrightarrow> True)"
    using waits_inD(1) [OF waits_emit]
    by (auto simp: esocket_emit_def on_net_def Let_def split: if_splits prod.splits outcome.splits)
qed

lemma waits_esocket_emit: "waits_in engine_waits anywhere anywhere (esocket_emit B U p)"
  by (rule waits_weaken [OF emit_unsent]) (simp_all add: unsent_waits)

lemma connect_unsent: "waits_in unsent anywhere anywhere (esocket_connect B U)"
  using emit_unsent [of B U "epacket EPong []"] unfolding waits_in_def esocket_connect_def by blast

lemma waits_esocket_poll: "waits_in engine_waits anywhere anywhere (esocket_poll B U)"
proof (rule waits_inI)
  fix s :: "'a esocket" and r t assume "esocket_poll B U s = (r, t)"
  then have "r = Block \<Longrightarrow> engine_waits t"
  proof (induction B U s rule: esocket_poll.induct)
    case (1 B U s)
    obtain q w where q: "transport_poll U (es_transport s) (es_net s) = (q, w)" by fastforce
    from waits_inD(1) [OF waits_poll _ q] have "q = Block \<Longrightarrow> engine_waits (s\<lparr>es_net := w\<rparr>)" by (simp add: engine_waits_def)
    with "1.prems" "1.IH" q show ?case
      by (subst (asm) esocket_poll.simps)
        (auto simp: on_net_def split: if_splits option.splits list.splits outcome.splits sum.splits)
  qed
  then show "(r = Block \<longrightarrow> engine_waits t) \<and> (returned r \<longrightarrow> True)" by simp
qed

lemma waits_disconnect: "waits_in engine_waits anywhere anywhere (esocket_disconnect B U)"
  unfolding esocket_disconnect_def
  by (intro waits_then waits_modify waits_ignore waits_esocket_emit) simp_all

lemma waits_eclient_poll: "waits_in engine_waits anywhere anywhere (eclient_poll B U)"
proof -
  have react: "waits_in engine_waits anywhere anywhere (eclient_react B U p)" for p
    unfolding eclient_react_def
    by (cases "e_id p") (auto intro!: waits_then waits_modify waits_esocket_emit)
  show ?thesis unfolding eclient_poll_def
    by (rule waits_then [OF waits_esocket_poll])
      (auto intro!: waits_then waits_modify react split: option.split)
qed

abbreviation socket_waits :: "'u ssocket \<Rightarrow> bool" where
  "socket_waits t \<equiv> engine_waits (ss_engine t)"

lemma waits_on_engine:
  "waits_in W anywhere anywhere m \<Longrightarrow> waits_in (\<lambda>t. W (ss_engine t)) anywhere anywhere (on_engine m)"
proof (rule waits_inI)
  fix s r t assume m: "waits_in W anywhere anywhere m" and "on_engine m s = (r, t)"
  then obtain q e where "m (ss_engine s) = (q, e)" "r = map_err SIncompleteResponseFromEngineIo q" "t = s\<lparr>ss_engine := e\<rparr>"
    by (auto simp: on_engine_def split: prod.splits)
  with waits_inD(1) [OF m, of "ss_engine s"] show "(r = Block \<longrightarrow> W (ss_engine t)) \<and> (returned r \<longrightarrow> True)" by (cases q) auto
qed

lemma attachments_unsent: "waits_in (\<lambda>t. unsent (ss_engine t)) anywhere anywhere (send_attachments B U as)"
  by (induction as) (auto intro!: waits_then waits_on_engine emit_unsent simp del: give_apply)

lemma send_unsent: "waits_in (\<lambda>t. unsent (ss_engine t)) anywhere anywhere (ssocket_send oc B U p)"
proof -
  have "waits_in (\<lambda>t. unsent (ss_engine t)) anywhere anywhere (seq (give (spacket_to_bytes oc p)) (\<lambda>bytes.
      seq (on_engine (esocket_emit B U (epacket EMessage bytes))) (\<lambda>_.
      case s_attachments p of Some as \<Rightarrow> send_attachments B U as | None \<Rightarrow> give (Ok ()))))"
    by (intro waits_then waits_on_engine emit_unsent waits_give)
      (auto simp: spacket_to_bytes_def attachments_unsent split: option.split)
  then show ?thesis by (simp add: waits_in_def ssocket_send_def)
qed

lemma waits_send: "waits_in socket_waits anywhere anywhere (ssocket_send oc B U p)"
  by (rule waits_weaken [OF send_unsent]) (simp_all add: unsent_waits)

lemma ssocket_connect_unsent: "waits_in (\<lambda>t. unsent (ss_engine t)) anywhere anywhere (ssocket_connect B U)"
  unfolding ssocket_connect_def by (intro waits_then waits_on_engine connect_unsent waits_modify) simp

lemma waits_ssocket_disconnect: "waits_in socket_waits anywhere anywhere (ssocket_disconnect B U)"
proof -
  have "waits_in socket_waits anywhere anywhere (seq (if b then on_engine (esocket_disconnect B U) else give (Ok ())) (\<lambda>_.
     modify (\<lambda>s. if ss_connected s then s\<lparr>ss_connected := False\<rparr> else s)))" for b
    by (intro waits_then) (simp_all add: waits_on_engine waits_disconnect waits_modify)
  then show ?thesis by (simp add: waits_in_def ssocket_disconnect_def)
qed

lemma waits_read_attachments: "waits_in socket_waits anywhere anywhere (read_attachments B U n as)"
  by (induction n arbitrary: as)
    (auto intro!: waits_then waits_on_engine waits_eclient_poll split: option.split)

lemma waits_ssocket_poll: "waits_in socket_waits anywhere anywhere (ssocket_poll B U J)"
proof (rule waits_inI)
  fix s :: "'a ssocket" and r t assume "ssocket_poll B U J s = (r, t)"
  then have "r = Block \<Longrightarrow> socket_waits t"
  proof (induction B U J s rule: ssocket_poll.induct)
    case (1 B U J s)
    obtain q e where q: "eclient_poll B U (ss_engine s) = (q, e)" by fastforce
    have stuck: "q = Block \<Longrightarrow> engine_waits e" using waits_inD(1) [OF waits_eclient_poll _ q] by simp
    have "waits_in socket_waits anywhere anywhere (handle_engineio_packet B U J p)" for p
      by (auto simp: handle_engineio_packet_def intro!: waits_then waits_read_attachments split: sum.split)
    then have handled: "waits_in socket_waits anywhere anywhere (seq (handle_engineio_packet B U J p) (\<lambda>socket_packet.
        seq (modify (ss_handle_packet socket_packet)) (\<lambda>_. give (Ok (Some socket_packet)))))" for p
      by (intro waits_then waits_modify) simp_all
    show ?case
      using "1.prems" "1.IH" [OF q [symmetric]] q stuck waits_inD(1) [OF handled, of _ "s\<lparr>ss_engine := e\<rparr>"]
      by (subst (asm) ssocket_poll.simps) (auto split: if_splits option.splits outcome.splits)
  qed
  then show "(r = Block \<longrightarrow> socket_waits t) \<and> (returned r \<longrightarrow> True)" by simp
qed

section \<open>The client\<close>

text \<open>Callbacks that do not wait for a lock that is held while they run: none disconnects its client, and no
  acknowledgement callback asks for another acknowledgement.\<close>

fun emits :: "action \<Rightarrow> bool" where
  "emits (AEmit e d) = True"
| "emits a = False"

fun locks_nothing_held :: "call \<Rightarrow> action \<Rightarrow> bool" where
  "locks_nothing_held (CallAck cb d) a = emits a"
| "locks_nothing_held c a = (a \<noteq> ADisconnect)"

definition lock_free :: "('u, 'j) slib \<Rightarrow> bool" where
  "lock_free L \<longleftrightarrow> (\<forall>h c. list_all (locks_nothing_held c) (sl_script L (h @ [c])))"

abbreviation unlocked :: "('u, 'j) raw \<Rightarrow> bool" where
  "unlocked s \<equiv> \<not> rw_acks_locked s"

abbreviation raw_waits :: "('u, 'j) raw \<Rightarrow> bool" where
  "raw_waits s \<equiv> socket_waits (rw_socket s)"

lemma waits_on_socket:
  "waits_in W anywhere anywhere m \<Longrightarrow> waits_in (\<lambda>s. W (rw_socket s)) I anywhere (on_socket m)"
  by (rule waits_inI) (auto simp: on_socket_def dest: waits_inD(1) split: prod.splits)

lemma waits_on_socket_unlocked:
  "waits_in socket_waits anywhere anywhere m \<Longrightarrow> waits_in raw_waits unlocked unlocked (on_socket m)"
  by (rule waits_inI) (auto simp: on_socket_def dest: waits_inD split: prod.splits)

lemma unlocked_kept:
  fixes m :: "('u, 'j, 'a) raw_proc"
  assumes "\<And>s0. keeps (same_tables s0) m"
  shows "keeps unlocked m"
proof (rule keepsI)
  fix s :: "('u, 'j) raw" assume "unlocked s"
  with keepsD [OF assms same_tables_refl, of s] show "unlocked (snd (m s))" by (simp add: same_tables_def)
qed

lemma waits_raw_emit: "waits_in raw_waits I anywhere (raw_emit L e d)"
  using waits_on_socket [OF waits_send] by (fastforce simp: waits_in_def raw_emit_def ssocket_emit_def)

lemma waits_emit_with_ack: "waits_in raw_waits unlocked anywhere (raw_emit_with_ack L e d timeout cb)"
proof (rule waits_inI)
  fix s r t assume "unlocked s" "raw_emit_with_ack L e d timeout cb s = (r, t)"
  then show "(r = Block \<longrightarrow> raw_waits t) \<and> (returned r \<longrightarrow> True)"
    using waits_inD(1) [OF waits_on_socket [OF waits_send]]
    by (auto simp: raw_emit_with_ack_def draw_id_def read_clock_def Let_def)
qed

text \<open>A callback that only emits waits for the network only; one that may ask for acknowledgements does where
  their list is not locked.\<close>

lemma waits_run_action:
  "emits a \<Longrightarrow> waits_in raw_waits anywhere anywhere (run_action L close a)"
  "a \<noteq> ADisconnect \<Longrightarrow> waits_in raw_waits unlocked unlocked (run_action L close a)"
proof -
  show "emits a \<Longrightarrow> waits_in raw_waits anywhere anywhere (run_action L close a)"
    by (cases a) (simp_all add: waits_ignore waits_raw_emit)
  have "waits_in raw_waits unlocked unlocked (raw_emit L e d)" "waits_in raw_waits unlocked unlocked (raw_emit_with_ack L e d t cb)" for e d t cb
    using unlocked_kept [OF keeps_raw_emit, of L e d] unlocked_kept [OF keeps_emit_with_ack, of L e d t cb]
      waits_raw_emit [of unlocked L e d] waits_emit_with_ack [of L e d t cb]
    by (simp_all add: waits_in_def keeps_def)
  then show "a \<noteq> ADisconnect \<Longrightarrow> waits_in raw_waits unlocked unlocked (run_action L close a)"
    by (cases a) (simp_all add: waits_ignore)
qed

lemma waits_run_actions:
  "list_all emits as \<Longrightarrow> waits_in raw_waits anywhere anywhere (run_actions L close as)"
  "list_all (\<lambda>a. a \<noteq> ADisconnect) as \<Longrightarrow> waits_in raw_waits unlocked unlocked (run_actions L close as)"
  by (induction as) (auto intro!: waits_then waits_run_action simp del: give_apply)

lemma waits_script:
  assumes "\<And>h. waits_in W I J (run_actions L close (sl_script L (h @ [c])))" "\<And>s h. I s \<Longrightarrow> I (s\<lparr>rw_calls := h\<rparr>)"
  shows "waits_in W I J (run_call L close c)"
proof (rule waits_inI)
  fix s r t assume s: "I s" and "run_call L close c s = (r, t)"
  then have "run_actions L close (sl_script L (rw_calls s @ [c])) (s\<lparr>rw_calls := rw_calls s @ [c]\<rparr>) = (r, t)"
    by (simp add: run_call_def)
  from waits_inD [OF assms(1) assms(2) [OF s] this] show "(r = Block \<longrightarrow> W t) \<and> (returned r \<longrightarrow> J t)" by blast
qed

lemma waits_run_call:
  assumes "lock_free L"
  shows "waits_in raw_waits anywhere anywhere (run_call L close (CallAck cb d))"
    "(\<And>cb d. c \<noteq> CallAck cb d) \<Longrightarrow> waits_in raw_waits unlocked unlocked (run_call L close c)"
proof -
  have script: "list_all (locks_nothing_held c) (sl_script L (h @ [c]))" for h c using assms by (simp add: lock_free_def)
  have "list_all emits (sl_script L (h @ [CallAck cb d]))" for h
    using script [of "CallAck cb d" h] by (simp add: list_all_iff)
  then show "waits_in raw_waits anywhere anywhere (run_call L close (CallAck cb d))"
    by (intro waits_script waits_run_actions(1))
  assume "\<And>cb d. c \<noteq> CallAck cb d"
  then have "list_all (\<lambda>a. a \<noteq> ADisconnect) (sl_script L (h @ [c]))" for h
    using script [of c h] by (cases c) (auto simp: list_all_iff)
  then show "waits_in raw_waits unlocked unlocked (run_call L close c)"
    by (intro waits_script waits_run_actions(2)) simp_all
qed

lemma own_any_call:
  "own_call on e p = Some c \<Longrightarrow> c \<noteq> CallAck cb d" "any_call oa e p = Some c \<Longrightarrow> c \<noteq> CallAck cb d"
  by (auto simp: own_call_def any_call_def split: sevent.splits)

lemma waits_callback:
  assumes "lock_free L"
  shows "waits_in raw_waits unlocked unlocked (raw_callback L e p)"
proof -
  have part: "waits_in raw_waits unlocked unlocked (run_call_option L close c)"
    if "\<And>x cb d. c = Some x \<Longrightarrow> x \<noteq> CallAck cb d" for close c
    using waits_run_call(2) [OF assms] that by (cases c) (simp_all add: run_call_option_def)
  have "waits_in raw_waits unlocked unlocked (seq (run_call_option L relock (own_call on e p))
      (\<lambda>_. run_call_option L relock (any_call oa e p)))" for on oa
    by (intro waits_then part own_any_call)
  then show ?thesis by (simp add: waits_in_def raw_callback_def)
qed

lemma waits_call_ack:
  assumes "lock_free L"
  shows "waits_in raw_waits anywhere anywhere (call_ack L p a)"
proof -
  let ?close = "raw_callback L EvClose (PString [])"
  have part: "waits_in raw_waits anywhere anywhere (run_call_option L ?close c)"
    if "\<And>x. c = Some x \<Longrightarrow> \<exists>cb d. x = CallAck cb d" for c
    using waits_run_call(1) [OF assms] that by (cases c) (auto simp: run_call_option_def)
  have "waits_in raw_waits anywhere anywhere (seq (run_call_option L ?close (map_option (\<lambda>d. CallAck (ack_callback a) (PString d)) (s_data p)))
      (\<lambda>_. run_call_option L ?close (case s_attachments p of
         Some (payload # _) \<Rightarrow> Some (CallAck (ack_callback a) (PBinary payload)) | _ \<Rightarrow> None)))"
    by (intro waits_then part) (auto split: option.splits list.splits)
  then show ?thesis by (auto simp: waits_in_def call_ack_def read_clock_def Let_def)
qed

lemma waits_ack_loop: "lock_free L \<Longrightarrow> waits_in raw_waits anywhere anywhere (ack_loop L p i k acks rs)"
  by (induction acks arbitrary: k rs) (auto intro!: waits_then waits_call_ack simp del: give_apply)

lemma waits_handle_ack:
  assumes "lock_free L"
  shows "waits_in raw_waits unlocked unlocked (handle_ack L p)"
proof (rule waits_inI)
  fix s r t assume s: "unlocked s" and run: "handle_ack L p s = (r, t)"
  show "(r = Block \<longrightarrow> raw_waits t) \<and> (returned r \<longrightarrow> unlocked t)"
  proof (cases "s_id p")
    case (Some i)
    obtain q s1 where q: "ack_loop L p i 0 (rw_acks s) [] (s\<lparr>rw_acks_locked := True\<rparr>) = (q, s1)" by fastforce
    have no_err: "q \<noteq> Err e" for e using raw_book.loop_no_err q by metis
    from waits_inD(1) [OF waits_ack_loop [OF assms] _ q] have "q = Block \<Longrightarrow> raw_waits s1" by simp
    with run s Some q no_err show ?thesis
      by (cases q) (auto simp: handle_ack_def Let_def returned_def split: option.splits)
  qed (use run s in \<open>auto simp: handle_ack_def returned_def\<close>)
qed

lemma waits_report:
  assumes "lock_free L" "waits_in raw_waits unlocked unlocked m"
  shows "waits_in raw_waits unlocked unlocked (report L b m)"
proof (rule waits_inI)
  fix s r t assume s: "unlocked s" and run: "report L b m s = (r, t)"
  obtain q s1 where q: "m s = (q, s1)" by fastforce
  note D = waits_inD [OF assms(2) s q]
  have again: "waits_in raw_waits unlocked unlocked (seq (raw_callback L EvError d) (\<lambda>_. give (if b then Err e else Ok ())))" for d e
    by (intro waits_then waits_callback [OF assms(1)]) simp
  show "(r = Block \<longrightarrow> raw_waits t) \<and> (returned r \<longrightarrow> unlocked t)"
  proof (cases q)
    case (Err e)
    with D(2) have "unlocked s1" by (simp add: returned_def)
    moreover have "seq (raw_callback L EvError (PString (sl_display L e))) (\<lambda>_. give (if b then Err e else Ok ())) s1 = (r, t)"
      using run q Err by (simp add: report_def)
    ultimately show ?thesis using waits_inD [OF again] by blast
  qed (use run q D in \<open>auto simp: report_def\<close>)
qed

lemma waits_packet:
  assumes "lock_free L"
  shows "waits_in raw_waits unlocked unlocked (raw_handle_packet L p)"
proof -
  note callback = waits_callback [OF assms]
  have "waits_in raw_waits unlocked unlocked (handle_binary_event L p)"
    unfolding handle_binary_event_def Let_def by (auto simp: callback simp del: give_apply split: option.split list.split)
  moreover have "waits_in raw_waits unlocked unlocked (handle_event L p)"
    unfolding handle_event_def Let_def by (auto simp: callback simp del: give_apply split: option.split list.split sum.split)
  ultimately have "waits_in raw_waits unlocked unlocked (\<lambda>s. case s_type p of
           SAck \<Rightarrow> report L True (handle_ack L p) s
         | SBinaryAck \<Rightarrow> report L True (handle_ack L p) s
         | SBinaryEvent \<Rightarrow> report L False (handle_binary_event L p) s
         | SConnect \<Rightarrow> raw_callback L EvConnect (PString []) s
         | SDisconnect \<Rightarrow> raw_callback L EvClose (PString []) s
         | SConnectError \<Rightarrow>
             raw_callback L EvError (PString (lit ''Received an ConnectError frame: '' @
               (case s_data p of Some d \<Rightarrow> d | None \<Rightarrow> quote_json (lit ''No error message provided'')))) s
         | SEvent \<Rightarrow> report L False (handle_event L p) s)"
    using waits_report [OF assms] waits_handle_ack [OF assms] by (cases "s_type p") (simp_all add: callback del: lit_simps)
  then show ?thesis by (simp add: waits_in_def raw_handle_packet_def del: lit_simps)
qed

lemma waits_raw_poll:
  assumes "lock_free L"
  shows "waits_in raw_waits unlocked unlocked (raw_poll L)"
proof (rule waits_inI)
  fix s r t assume "unlocked s" "raw_poll L s = (r, t)"
  then show "(r = Block \<longrightarrow> raw_waits t) \<and> (returned r \<longrightarrow> unlocked t)"
    using assms
  proof (induction L s rule: raw_poll.induct)
    case (1 L s)
    obtain q s1 where q: "on_socket (ssocket_poll (sl_b64 L) (sl_url L) (sl_json L)) s = (q, s1)" by fastforce
    have stuck: "q = Block \<Longrightarrow> raw_waits s1" using waits_inD(1) [OF waits_on_socket [OF waits_ssocket_poll] _ q, of anywhere] by simp
    have s1: "unlocked s1" using "1.prems"(1) q by (auto simp: on_socket_def split: prod.splits)
    have failed: "waits_in raw_waits unlocked unlocked (seq (raw_callback L EvError d) (\<lambda>_. give (Err e)))" for d e
      by (intro waits_then waits_callback "1.prems"(3)) simp
    have handled: "waits_in raw_waits unlocked unlocked (seq (raw_handle_packet L p) (\<lambda>_. give (Ok (Some p))))" for p
      by (intro waits_then waits_packet "1.prems"(3)) simp
    note unfold = "1.prems"(2) [unfolded raw_poll.simps [of L s]]
    show ?case
    proof (cases q)
      case (Ok x)
      show ?thesis
      proof (cases x)
        case (Some p)
        with unfold q Ok "1.IH" [OF q [symmetric] _ Some] s1 "1.prems"(3) waits_inD [OF handled s1] show ?thesis
          by (cases "s_nsp p = rw_nsp s1") auto
      qed (use unfold q Ok s1 in auto)
    next
      case (Err e)
      with unfold q have "seq (raw_callback L EvError (PString (sl_display L e))) (\<lambda>_. give (Err e)) s1 = (r, t)" by simp
      with waits_inD [OF failed s1] show ?thesis by blast
    qed (use unfold q stuck in \<open>auto simp: returned_def\<close>)
  qed
qed

lemma waits_raw_disconnect:
  assumes "lock_free L"
  shows "waits_in raw_waits unlocked unlocked (raw_disconnect L)"
proof -
  have "waits_in raw_waits unlocked unlocked (seq (ignore (on_socket (ssocket_send (sl_oc L) (sl_b64 L) (sl_url L) p))) (\<lambda>_.
     seq (on_socket (ssocket_disconnect (sl_b64 L) (sl_url L))) (\<lambda>_.
     ignore (raw_callback L EvClose (PString [])))))" for p
    by (intro waits_then waits_ignore waits_callback [OF assms] waits_on_socket_unlocked waits_send waits_ssocket_disconnect)
  then show ?thesis by (simp add: waits_in_def raw_disconnect_def raw_disconnect_with_def)
qed

lemma connect_waits: "waits_in (\<lambda>s. unsent (ss_engine (rw_socket s))) anywhere anywhere (raw_connect L)"
proof -
  have "waits_in (\<lambda>s. unsent (ss_engine (rw_socket s))) anywhere anywhere
      (seq (on_socket (ssocket_connect (sl_b64 L) (sl_url L))) (\<lambda>_. on_socket (ssocket_send (sl_oc L) (sl_b64 L) (sl_url L) p)))" for p
    by (intro waits_then waits_on_socket ssocket_connect_unsent send_unsent)
  then show ?thesis unfolding waits_in_def raw_connect_def Let_def by blast
qed

section \<open>Building a connection\<close>

text \<open>The last request was to a websocket, and the one waits for the other side of a websocket.\<close>

definition on_websocket :: "'u net \<Rightarrow> bool" where
  "on_websocket w \<longleftrightarrow> wire w \<noteq> [] \<and>
     (case last (wire w) of WsConnect _ \<Rightarrow> True | WsSend _ \<Rightarrow> True | _ \<Rightarrow> False)"

definition build_waits :: "'u net \<Rightarrow> bool" where
  "build_waits w \<longleftrightarrow> unanswered w \<or> (on_websocket w \<and> ws_in w = [])"

lemma waits_ws_poll: "waits_in build_waits on_websocket on_websocket ws_poll"
  by (rule waits_inI)
    (auto simp: ws_poll_def ws_poll_next_def build_waits_def on_websocket_def dest: ws_read_blocks
      split: prod.splits outcome.splits option.splits)

lemma waits_ws_next: "waits_in build_waits on_websocket on_websocket ws_next"
  by (auto simp: waits_in_def ws_next_def build_waits_def on_websocket_def split: list.splits ws_event.splits)

lemma waits_ws_send_text: "waits_in build_waits on_websocket on_websocket (ws_send_text d)"
  by (auto simp: waits_in_def ws_send_text_def ws_send_def build_waits_def unanswered_def on_websocket_def log_request_def
      Let_def split: option.split list.split sum.split)

lemma waits_ws_open: "waits_in build_waits anywhere on_websocket (ws_open U scheme u)"
  by (auto simp: waits_in_def ws_open_def build_waits_def unanswered_def on_websocket_def log_request_def returned_def
      Let_def split: option.split list.split sum.split)

lemma waits_ws_upgrade: "waits_in build_waits on_websocket on_websocket (ws_upgrade B)"
  unfolding ws_upgrade_def
  by (intro waits_then waits_ws_send_text waits_ws_next) (auto simp: waits_ws_send_text split: option.split simp del: give_apply)

lemma waits_http: "waits_in build_waits I anywhere (polling_poll U u)"
  by (auto simp: waits_in_def polling_poll_def build_waits_def unanswered_def log_request_def Let_def split: list.split sum.split)

lemma waits_accept: "waits_in W anywhere anywhere (accept_handshake E b d)"
  by (auto simp: accept_handshake_def split: sum.split)

lemma waits_handshake:
  "waits_in build_waits on_websocket anywhere (handshake_with_transport E t b)"
  "waits_in build_waits anywhere anywhere (handshake_with_transport E (polling_new U u) b)"
proof -
  have "waits_in build_waits on_websocket anywhere (transport_poll U t)" for U
    using waits_http by (cases t) (auto simp: transport_poll_def intro: waits_weaken [OF waits_ws_poll])
  then have "waits_in build_waits on_websocket anywhere (seq (transport_poll U t) (accept_handshake E b))" for U
    by (rule waits_seq) (simp_all add: waits_accept)
  then show "waits_in build_waits on_websocket anywhere (handshake_with_transport E t b)"
    by (simp add: handshake_with_transport_def waits_in_def)
  have "waits_in build_waits anywhere anywhere (transport_poll U' (polling_new U u))" for U'
    using waits_http by (simp add: transport_poll_def polling_new_def)
  then show "waits_in build_waits anywhere anywhere (handshake_with_transport E (polling_new U u) b)"
    by (auto simp: handshake_with_transport_def intro!: waits_then waits_accept)
qed

lemma waits_do_handshake: "waits_in build_waits anywhere anywhere (do_handshake E b)"
  by (auto simp: do_handshake_def unwrap_headers_def intro!: waits_then waits_handshake(2) split: sum.split)

lemma waits_make_client: "waits_in W anywhere anywhere (make_client t b)"
  by (auto simp: waits_in_def make_client_def split: option.split)

lemma waits_unwrap_headers: "waits_in W anywhere anywhere (unwrap_headers E b)"
  by (auto simp: unwrap_headers_def split: sum.split)

lemma waits_build_polling: "waits_in build_waits anywhere anywhere (build_polling E b)"
  unfolding build_polling_def by (intro waits_then waits_do_handshake waits_unwrap_headers waits_make_client)

lemma waits_build_websocket:
  fixes E :: "'u elib"
  shows "waits_in build_waits anywhere anywhere (build_websocket E b)"
proof -
  have "waits_in build_waits on_websocket anywhere (if eb_handshake b \<noteq> None
      then seq (ws_upgrade (lib_b64 E)) (\<lambda>_. give (Ok b)) else handshake_with_transport E t b)" for t
  proof -
    have "waits_in build_waits on_websocket on_websocket
        (seq (ws_upgrade (lib_b64 E)) (\<lambda>_. give (Ok b)) :: ('u net, eerror, 'u ebuilder) proc)"
      by (intro waits_then waits_ws_upgrade waits_give) simp
    then have "waits_in build_waits on_websocket anywhere
        (seq (ws_upgrade (lib_b64 E)) (\<lambda>_. give (Ok b)) :: ('u net, eerror, 'u ebuilder) proc)"
      by (rule waits_weaken) simp_all
    then show ?thesis by (simp add: waits_handshake(1))
  qed
  then have finish: "waits_in build_waits on_websocket anywhere (finish_websocket E b t)" for t
    unfolding finish_websocket_def by (rule waits_seq) (simp_all add: waits_make_client)
  have "waits_in build_waits anywhere on_websocket (websocket_new (lib_url E) (eb_url b))"
    "waits_in build_waits anywhere on_websocket (websocket_secure_new (lib_url E) (eb_url b))"
    unfolding websocket_new_def websocket_secure_new_def by (rule waits_seq [OF waits_ws_open]; simp)+
  then have "waits_in build_waits anywhere anywhere (seq (websocket_new (lib_url E) (eb_url b)) (finish_websocket E b))"
    "waits_in build_waits anywhere anywhere (seq (websocket_secure_new (lib_url E) (eb_url b)) (finish_websocket E b))"
    by (auto intro: waits_seq finish)
  then show ?thesis unfolding build_websocket_def Let_def
    by (intro waits_then) (auto simp: try_headers_def simp del: lit_simps give_apply split: sum.split)
qed

lemma waits_websocket_upgrade: "waits_in W anywhere anywhere (websocket_upgrade b)"
  by (auto simp: websocket_upgrade_def split: option.split)

lemma waits_build_upgrade: "waits_in build_waits anywhere anywhere (build_websocket_with_upgrade E b)"
  unfolding build_websocket_with_upgrade_def
  by (intro waits_then waits_do_handshake waits_websocket_upgrade) (simp add: waits_build_websocket)

lemma waits_build: "waits_in build_waits anywhere anywhere (build E b)"
  unfolding build_def
  by (intro waits_then waits_do_handshake waits_websocket_upgrade) (simp add: waits_build_upgrade waits_build_polling)

lemma waits_build_engine: "waits_in build_waits anywhere anywhere (build_engine E t b)"
proof -
  have "waits_in build_waits anywhere anywhere (build_with_fallback E b)"
    using waits_build [of E b] waits_build_polling [of E b]
    by (auto simp: waits_in_def build_with_fallback_def split: prod.split outcome.split) (metis fst_conv snd_conv)+
  then show ?thesis
    by (cases t) (simp_all add: build_engine_def waits_build_polling waits_build_websocket waits_build_upgrade)
qed

lemma waits_connect_raw: "waits_in build_waits anywhere anywhere (connect_raw L b time rand calls)"
proof (rule waits_inI)
  fix w r t assume run: "connect_raw L b time rand calls w = (r, t)"
  have engine: "build_waits w'" if "build_engine E tr eb w = (Block, w')" for E tr eb w'
    using waits_inD(1) [OF waits_build_engine _ that] by simp
  have connect: "build_waits (raw_net s')" if "raw_connect L s = (Block, s')" for s s'
    using waits_inD(1) [OF connect_waits _ that] by (simp add: raw_net_def build_waits_def)
  from run show "(r = Block \<longrightarrow> build_waits t) \<and> (returned r \<longrightarrow> True)"
    by (auto simp: connect_raw_def intro: engine connect split: sum.splits prod.splits outcome.splits)
qed

section \<open>The polling thread\<close>

text \<open>Where the thread waits: in the loop it builds a connection, elsewhere it uses the one it has.\<close>

definition waits_for_network :: "thread_point \<Rightarrow> ('u, 'j) client \<Rightarrow> bool" where
  "waits_for_network at c =
     (case at of Trying _ \<Rightarrow> build_waits (raw_net (cl_raw c)) | _ \<Rightarrow> raw_waits (cl_raw c))"

lemma client_next_ran:
  "client_next L c = (Ok item, c') \<Longrightarrow> \<exists>r. raw_poll L (cl_raw c) = (r, cl_raw c') \<and> returned r"
  "client_next L c = (Block, c') \<Longrightarrow> raw_poll L (cl_raw c) = (Block, cl_raw c')"
  by (auto simp: client_next_def on_raw_def returned_def split: prod.splits outcome.splits option.splits)

lemma client_disconnect_ran:
  "ignore (client_disconnect L) c = (Ok u, c') \<Longrightarrow> \<exists>r. raw_disconnect L (cl_raw c) = (r, cl_raw c') \<and> returned r"
  "ignore (client_disconnect L) c = (Block, c') \<Longrightarrow> raw_disconnect L (cl_raw c) = (Block, cl_raw c')"
  by (auto simp: client_disconnect_def ignore_def on_raw_def returned_def split: prod.splits outcome.splits)

lemma do_reconnect_blocked:
  "do_reconnect L c = (Block, c') \<Longrightarrow>
     connect_raw L (cl_builder c) (rw_time (cl_raw c)) (rw_rand (cl_raw c)) (rw_calls (cl_raw c)) (raw_net (cl_raw c)) =
       (Block, raw_net (cl_raw c'))"
  by (auto simp: do_reconnect_def Let_def split: prod.splits outcome.splits)

lemma seq_Block: "seq m (\<lambda>x s. (Ok (f x s), s)) s = (Block, t) \<Longrightarrow> m s = (Block, t)"
  by (auto simp: seq_def split: prod.splits outcome.splits)

lemma thread_waits:
  assumes "lock_free L" "unlocked (cl_raw c)" "thread_action L at c = (Block, c')"
  shows "waits_for_network at c'"
proof (cases at)
  case Reading
  with assms(3) have "client_next L c = (Block, c')" by (auto dest: seq_Block)
  with waits_inD(1) [OF waits_raw_poll [OF assms(1)] assms(2) client_next_ran(2)] Reading
  show ?thesis by (simp add: waits_for_network_def)
next
  case Leaving
  with assms(3) have "ignore (client_disconnect L) c = (Block, c')" by (auto dest: seq_Block)
  with waits_inD(1) [OF waits_raw_disconnect [OF assms(1)] assms(2) client_disconnect_ran(2)] Leaving
  show ?thesis by (simp add: waits_for_network_def)
next
  case (Trying a)
  with assms(3) have "do_reconnect L (wait_backoff c) = (Block, c')"
    by (simp split: if_splits prod.splits outcome.splits)
  from waits_inD(1) [OF waits_connect_raw _ do_reconnect_blocked [OF this]] Trying
  show ?thesis by (simp add: waits_for_network_def)
qed

lemma step_unlocked:
  assumes "lock_free L" "thread_step L s ev s'" "unlocked (cl_raw (snd s))"
  shows "unlocked (cl_raw (snd s'))"
proof (cases ev)
  case (Took item)
  with assms(2) have "client_next L (snd s) = (Ok item, snd s')" by (simp add: step_simps)
  with client_next_ran(1) waits_inD(2) [OF waits_raw_poll [OF assms(1)] assms(3)] show ?thesis by blast
next
  case Left
  with assms(2) have "ignore (client_disconnect L) (snd s) = (Ok (), snd s')" by (simp add: step_simps)
  with client_disconnect_ran(1) waits_inD(2) [OF waits_raw_disconnect [OF assms(1)] assms(3)] show ?thesis by blast
next
  case (Failed e)
  with assms(2) obtain w where "cl_raw (snd s') = with_net w (cl_raw (snd s))"
    using failed_raw by (fastforce simp: step_simps)
  with assms(3) show ?thesis by (simp add: with_net_def)
next
  case Replaced
  with assms(2) show ?thesis using do_reconnect_fresh by (auto simp: step_simps)
next
  case GaveUp
  with assms(2,3) show ?thesis by (auto simp: step_simps)
next
  case (User l)
  with assms(2) obtain r where l: "l \<noteq> RConnect" "l \<noteq> RPoll" "raw_step L (cl_raw (snd s)) l r" and
    s': "s' = (fst s, snd s\<lparr>cl_raw := r\<rparr>)" by (auto simp: step_simps)
  have "keeps (same_tables s0) (raw_disconnect L)" for s0
    unfolding raw_disconnect_def by (intro keeps_disconnect_with keeps_raw_callback)
  note kept = unlocked_kept [OF keeps_raw_emit] unlocked_kept [OF keeps_emit_with_ack] unlocked_kept [OF this]
  from l(3,1,2) have "unlocked r"
    by cases (metis kept [THEN keepsD, OF assms(3)] snd_conv)+
  with s' show ?thesis by simp
qed

end
