(* ===== verification/Thread_Panics.thy ===== *)
theory Thread_Panics
  imports Panics Thread_Waits
begin

text \<open>
  What keeps the polling thread of a \<open>Client\<close> alive. A panic in it would end it silently: no packet
  would be read any more. The sources of a panic are in three places: in handling what the server sends
  (\<open>Panics\<close>), in building a connection (headers the HTTP library refuses, a url whose scheme cannot be
  changed) and in the counter of the attempts. Here they are put together over all histories of the
  thread and the user, through any number of reconnections.
\<close>

section \<open>Calls that do not panic and what they return\<close>

definition yields :: "('a \<Rightarrow> bool) \<Rightarrow> ('s, 'e, 'a) proc \<Rightarrow> bool" where
  "yields Q m \<longleftrightarrow> (\<forall>s. fst (m s) \<noteq> Panic \<and> (\<forall>x. fst (m s) = Ok x \<longrightarrow> Q x))"

lemma yieldsI: "(\<And>s. fst (m s) \<noteq> Panic) \<Longrightarrow> (\<And>s x. fst (m s) = Ok x \<Longrightarrow> Q x) \<Longrightarrow> yields Q m"
  by (simp add: yields_def)

lemma yields_panic: "yields Q m \<Longrightarrow> fst (m s) \<noteq> Panic"
  by (simp add: yields_def)

lemma yields_seq: "yields P m \<Longrightarrow> (\<And>x. P x \<Longrightarrow> yields Q (k x)) \<Longrightarrow> yields Q (seq m k)"
proof (unfold yields_def, intro allI)
  fix s assume m: "\<forall>s. fst (m s) \<noteq> Panic \<and> (\<forall>x. fst (m s) = Ok x \<longrightarrow> P x)"
    and k: "\<And>x. P x \<Longrightarrow> \<forall>s. fst (k x s) \<noteq> Panic \<and> (\<forall>y. fst (k x s) = Ok y \<longrightarrow> Q y)"
  obtain r t where r: "m s = (r, t)" by fastforce
  with m have "r \<noteq> Panic \<and> (\<forall>x. r = Ok x \<longrightarrow> P x)" by (metis fst_conv)
  with k show "fst (seq m k s) \<noteq> Panic \<and> (\<forall>y. fst (seq m k s) = Ok y \<longrightarrow> Q y)"
    by (cases r) (simp_all add: r)
qed

lemma yields_give [simp]: "yields Q (give r) \<longleftrightarrow> r \<noteq> Panic \<and> (\<forall>x. r = Ok x \<longrightarrow> Q x)"
  by (simp add: yields_def)

lemma yields_weaken: "yields P m \<Longrightarrow> (\<And>x. P x \<Longrightarrow> Q x) \<Longrightarrow> yields Q m"
  by (simp add: yields_def)

section \<open>Building a connection\<close>

text \<open>What the \<open>url\<close> crate documents: a pair added to the query leaves the scheme, and the scheme can be
  changed between those of the web.\<close>

definition scheme_laws :: "('u, 'z) urllib_scheme \<Rightarrow> bool" where
  "scheme_laws U \<longleftrightarrow> (\<forall>u k v. url_scheme U (url_append U u k v) = url_scheme U u) \<and>
     (\<forall>u. url_scheme U u \<in> {lit ''http'', lit ''https'', lit ''ws'', lit ''wss''} \<longrightarrow>
        url_set_scheme U u (lit ''ws'') \<noteq> None \<and> url_set_scheme U u (lit ''wss'') \<noteq> None)"

text \<open>Headers the HTTP library accepts.\<close>

definition sound_headers :: "'u elib \<Rightarrow> header_map option \<Rightarrow> bool" where
  "sound_headers E h \<longleftrightarrow> (\<exists>hs. convert_headers (lib_http E) h = Inr hs)"

lemma yields_transport_poll: "yields (\<lambda>_. True) (transport_poll U t)"
proof (rule yieldsI)
  have "ws_read es \<noteq> (Panic, es')" for es es' by (induction es rule: ws_read.induct) simp_all
  then show "fst (transport_poll U t s) \<noteq> Panic" for s
    by (auto simp: transport_poll_def polling_poll_def ws_poll_def ws_poll_next_def Let_def
        split: transport.split list.split sum.split prod.split outcome.split option.split)
qed simp

lemma yields_handshake:
  "yields (\<lambda>b'. eb_handshake b' \<noteq> None \<and> eb_headers b' = eb_headers b) (handshake_with_transport E t b)"
proof (cases "eb_handshake b")
  case None
  have "yields (\<lambda>b'. eb_handshake b' \<noteq> None \<and> eb_headers b' = eb_headers b) (accept_handshake E b data)" for data
    by (auto simp: accept_handshake_def split: sum.split)
  with None show ?thesis by (auto simp: handshake_with_transport_def intro: yields_seq [OF yields_transport_poll])
qed (simp add: handshake_with_transport_def)

lemma yields_do_handshake:
  assumes "sound_headers E (eb_headers b)"
  shows "yields (\<lambda>b'. eb_handshake b' \<noteq> None \<and> eb_headers b' = eb_headers b) (do_handshake E b)"
proof (cases "eb_handshake b")
  case None
  have "yields (\<lambda>_. True) (unwrap_headers E b)"
    using assms by (auto simp: unwrap_headers_def sound_headers_def)
  from yields_seq [OF this yields_handshake] None show ?thesis by (simp add: do_handshake_def)
qed (simp add: do_handshake_def)

lemma yields_make_client: "eb_handshake b \<noteq> None \<Longrightarrow> yields (\<lambda>_. True) (make_client t b)"
  by (auto simp: yields_def make_client_def)

lemma yields_build_polling:
  assumes "sound_headers E (eb_headers b)"
  shows "yields (\<lambda>_. True) (build_polling E b)"
proof -
  have "yields (\<lambda>_. True) (seq (unwrap_headers E b') (\<lambda>_. make_client (polling_new (lib_url E) (eb_url b')) b'))"
    if "eb_handshake b' \<noteq> None \<and> eb_headers b' = eb_headers b" for b'
  proof -
    have "yields (\<lambda>_. True) (unwrap_headers E b')"
      using assms that by (auto simp: unwrap_headers_def sound_headers_def)
    with that show ?thesis by (blast intro: yields_seq yields_make_client)
  qed
  then show ?thesis unfolding build_polling_def by (rule yields_seq [OF yields_do_handshake [OF assms]])
qed

lemma yields_ws_upgrade: "yields (\<lambda>_. True) (ws_upgrade B)"
proof -
  have send: "yields (\<lambda>_. True) (ws_send_text d)" for d
    by (auto simp: yields_def ws_send_text_def ws_send_def Let_def split: option.split list.split sum.split)
  have next': "yields (\<lambda>_. True) ws_next"
    by (auto simp: yields_def ws_next_def split: list.split ws_event.split)
  show ?thesis unfolding ws_upgrade_def
    by (rule yields_seq [OF send], rule yields_seq [OF next']) (simp add: send split: option.split)
qed

lemma yields_finish_websocket: "yields (\<lambda>_. True) (finish_websocket E b t)"
proof -
  have "yields (\<lambda>b'. eb_handshake b' \<noteq> None) (if eb_handshake b \<noteq> None
      then seq (ws_upgrade (lib_b64 E)) (\<lambda>_. give (Ok b)) else handshake_with_transport E t b)"
    using yields_handshake [of b E t]
    by (auto intro: yields_seq [OF yields_ws_upgrade] elim: yields_weaken)
  then show ?thesis unfolding finish_websocket_def by (rule yields_seq) (rule yields_make_client)
qed

lemma yields_build_websocket:
  assumes "scheme_laws (lib_url E)"
  shows "yields (\<lambda>_. True) (build_websocket E b)"
proof -
  let ?U = "lib_url E" and ?scheme = "url_scheme (lib_url E) (eb_url b)"
  have open': "yields (\<lambda>_. True) (ws_open ?U sch (eb_url b))"
    if "?scheme \<in> {lit ''http'', lit ''https'', lit ''ws'', lit ''wss''}" "sch \<in> {lit ''ws'', lit ''wss''}" for sch
  proof (rule yieldsI)
    let ?u = "url_append ?U (eb_url b) (lit ''transport'') (lit ''websocket'')"
    have "url_scheme ?U ?u = ?scheme" using assms by (simp only: scheme_laws_def)
    with that(1) have "url_scheme ?U ?u \<in> {lit ''http'', lit ''https'', lit ''ws'', lit ''wss''}" by (simp only:)
    with assms have "url_set_scheme ?U ?u (lit ''ws'') \<noteq> None" "url_set_scheme ?U ?u (lit ''wss'') \<noteq> None"
      unfolding scheme_laws_def by blast+
    with that(2) obtain v where "url_set_scheme ?U ?u sch = Some v" by blast
    then show "fst (ws_open ?U sch (eb_url b) s) \<noteq> Panic" for s
      by (simp add: ws_open_def Let_def del: lit_simps split: list.split sum.split)
  qed simp
  have ws: "yields (\<lambda>_. True) (seq (websocket_new ?U (eb_url b)) (finish_websocket E b))"
    if "?scheme \<in> {lit ''http'', lit ''https'', lit ''ws'', lit ''wss''}"
    unfolding websocket_new_def
    by (intro yields_seq [OF _ yields_finish_websocket] yields_seq [OF open' [OF that]]) (simp_all del: lit_simps)
  have wss: "yields (\<lambda>_. True) (seq (websocket_secure_new ?U (eb_url b)) (finish_websocket E b))"
    if "?scheme \<in> {lit ''http'', lit ''https'', lit ''ws'', lit ''wss''}"
    unfolding websocket_secure_new_def
    by (intro yields_seq [OF _ yields_finish_websocket] yields_seq [OF open' [OF that]]) (simp_all del: lit_simps)
  have "yields (\<lambda>_. True) (try_headers E b)" by (auto simp: try_headers_def split: sum.split)
  then show ?thesis unfolding build_websocket_def Let_def
  proof (rule yields_seq)
    show "yields (\<lambda>_. True)
      (if ?scheme = lit ''http'' \<or> ?scheme = lit ''ws'' then seq (websocket_new ?U (eb_url b)) (finish_websocket E b)
       else if ?scheme = lit ''https'' \<or> ?scheme = lit ''wss''
       then seq (websocket_secure_new ?U (eb_url b)) (finish_websocket E b)
       else give (Err (EInvalidUrlScheme ?scheme)))"
      using ws wss by (simp del: lit_simps split: if_split)
  qed
qed

lemma yields_build_upgrade:
  assumes "scheme_laws (lib_url E)" "sound_headers E (eb_headers b)"
  shows "yields (\<lambda>_. True) (build_websocket_with_upgrade E b)"
  unfolding build_websocket_with_upgrade_def
proof (rule yields_seq [OF yields_do_handshake [OF assms(2)]])
  fix b' :: "'a ebuilder" assume "eb_handshake b' \<noteq> None \<and> eb_headers b' = eb_headers b"
  then have "yields (\<lambda>_. True) (websocket_upgrade b')" by (auto simp: websocket_upgrade_def)
  then show "yields (\<lambda>_. True) (seq (websocket_upgrade b') (\<lambda>upgrade.
      if upgrade then build_websocket E b' else give (Err EIllegalWebsocketUpgrade)))"
    by (rule yields_seq) (simp add: yields_build_websocket [OF assms(1)])
qed

lemma yields_build:
  assumes "scheme_laws (lib_url E)" "sound_headers E (eb_headers b)"
  shows "yields (\<lambda>_. True) (build E b)"
  unfolding build_def
proof (rule yields_seq [OF yields_do_handshake [OF assms(2)]])
  fix b' :: "'a ebuilder" assume b': "eb_handshake b' \<noteq> None \<and> eb_headers b' = eb_headers b"
  then have "yields (\<lambda>_. True) (websocket_upgrade b')" by (auto simp: websocket_upgrade_def)
  then show "yields (\<lambda>_. True) (seq (websocket_upgrade b') (\<lambda>upgrade.
      if upgrade then build_websocket_with_upgrade E b' else build_polling E b'))"
    by (rule yields_seq) (use assms b' in \<open>simp add: yields_build_upgrade yields_build_polling\<close>)
qed

lemma yields_build_engine:
  assumes "scheme_laws (lib_url E)" "sound_headers E (eb_headers b)"
  shows "yields (\<lambda>_. True) (build_engine E t b)"
proof -
  have "yields (\<lambda>_. True) (build_with_fallback E b)"
  proof (rule yieldsI)
    fix s
    obtain r t where r: "build E b s = (r, t)" by fastforce
    with yields_panic [OF yields_build [OF assms], of s] yields_panic [OF yields_build_polling [OF assms(2)], of t]
    show "fst (build_with_fallback E b s) \<noteq> Panic" by (cases r) (simp_all add: build_with_fallback_def)
  qed simp
  then show ?thesis
    using assms by (cases t) (simp_all add: build_engine_def yields_build_polling yields_build_websocket yields_build_upgrade)
qed

text \<open>A new connection, with any builder whose headers are accepted.\<close>

definition sturdy :: "('u, 'j) slib \<Rightarrow> 'j sbuilder \<Rightarrow> bool" where
  "sturdy L b \<longleftrightarrow> scheme_laws (sl_url L) \<and> sound_headers (sl_engine L) (sb_headers b) \<and>
     (sl_oc L \<longrightarrow> (\<exists>m. sb_max_attempts b = Some m \<and> m < 255))"

lemma engine_builder_headers: "eb_headers (engine_builder E b url) = sb_headers b"
  by (simp add: engine_builder_def ebuilder_new_def ebuilder_headers_def Let_def split: option.split)

lemma do_reconnect_no_panic:
  assumes "sturdy L (cl_builder c)"
  shows "fst (do_reconnect L c) \<noteq> Panic"
proof -
  have "fst (build_engine (sl_engine L) t (engine_builder (sl_engine L) (cl_builder c) url) w) \<noteq> Panic" for t url w
    using assms by (intro yields_panic [OF yields_build_engine]) (simp_all add: sturdy_def engine_builder_headers)
  moreover have "fst (raw_connect L r) \<noteq> Panic" for r by (rule no_panicD [OF no_panic_emits(3)])
  ultimately have "fst (connect_raw L (cl_builder c) time rand calls w) \<noteq> Panic" for time rand calls w
    unfolding connect_raw_def
    by (auto split: sum.split prod.split outcome.split) (metis fst_conv)+
  then show ?thesis
    by (auto simp: do_reconnect_def Let_def split: prod.split outcome.split) (metis fst_conv)
qed

section \<open>The polling thread\<close>

interpretation closed_kept: engine_frame L "\<lambda>e. \<not> es_connected e" for L :: "('u, 'j) slib"
  by unfold_locales (simp_all add: esocket_emit_fields fire_def)

text \<open>What holds after a call that ends.\<close>

definition leads_to :: "('s \<Rightarrow> bool) \<Rightarrow> ('s, 'e, 'a) proc \<Rightarrow> bool" where
  "leads_to I m \<longleftrightarrow> (\<forall>s r t. m s = (r, t) \<longrightarrow> returned r \<longrightarrow> I t)"

lemma leads_to_seq:
  assumes "leads_to I m" "\<And>x. keeps I (k x)"
  shows "leads_to I (seq m k)"
  unfolding leads_to_def
proof (intro allI impI)
  fix s r t assume run: "seq m k s = (r, t)" "returned r"
  obtain r1 s1 where m: "m s = (r1, s1)" by fastforce
  show "I t"
  proof (cases "returned r1")
    case True
    with assms(1) m have "I s1" by (auto simp: leads_to_def)
    with run m keepsD [OF assms(2), of s1] show ?thesis by (cases r1) (auto, metis snd_conv)
  next
    case False
    with run m show ?thesis by (cases r1) (simp_all add: returned_def)
  qed
qed

lemma leads_to_after:
  assumes "\<And>s e. fst (m s) \<noteq> Err e" "\<And>x. leads_to I (k x)"
  shows "leads_to I (seq m k)"
  unfolding leads_to_def
proof (intro allI impI)
  fix s r t assume run: "seq m k s = (r, t)" "returned r"
  obtain r1 s1 where m: "m s = (r1, s1)" by fastforce
  with run assms(1) [of s] assms(2) show "I t" by (cases r1) (auto simp: leads_to_def returned_def)
qed

lemma ignore_ok [simp]: "fst (ignore m s) \<noteq> Err e"
  by (simp add: ignore_def split: prod.split outcome.split)

lemma leads_to_ignore: "leads_to I m \<Longrightarrow> leads_to I (ignore m)"
  by (auto simp: leads_to_def ignore_def returned_def split: prod.splits outcome.splits)

lemma leads_to_engine: "leads_to I m \<Longrightarrow> leads_to (\<lambda>t. I (ss_engine t)) (on_engine m)"
  unfolding leads_to_def on_engine_def
  by (auto simp: returned_def split: prod.splits) (metis map_err.simps)

lemma leads_to_socket: "leads_to J m \<Longrightarrow> leads_to (in_socket J) (on_socket m)"
  by (auto simp: leads_to_def on_socket_def split: prod.splits)

abbreviation disconnected :: "'u ssocket \<Rightarrow> bool" where
  "disconnected t \<equiv> \<not> es_connected (ss_engine t)"

lemma disconnect_leads: "leads_to (in_socket disconnected) (raw_disconnect L)"
proof -
  let ?B = "sl_b64 L" and ?U = "sl_url L"
  have "leads_to (\<lambda>e. \<not> es_connected e) (esocket_disconnect ?B ?U)"
    unfolding esocket_disconnect_def by (intro leads_to_after) (simp_all add: leads_to_def)
  note engine = leads_to_engine [OF this]
  have "leads_to disconnected (ssocket_disconnect ?B ?U)"
    unfolding leads_to_def
  proof (intro allI impI)
    fix t t' r assume run: "ssocket_disconnect ?B ?U t = (r, t')" "returned r"
    have "leads_to disconnected (seq (on_engine (esocket_disconnect ?B ?U))
        (\<lambda>_. modify (\<lambda>s. if ss_connected s then s\<lparr>ss_connected := False\<rparr> else s)))"
      by (rule leads_to_seq [OF engine]) (simp add: keeps_def)
    with run show "disconnected t'"
      by (auto simp: ssocket_disconnect_def is_engineio_connected_def leads_to_def split: if_splits)
  qed
  from leads_to_socket [OF this] have "leads_to (in_socket disconnected) (seq (on_socket (ssocket_disconnect ?B ?U))
      (\<lambda>_. ignore (raw_callback L EvClose (PString []))))"
    by (intro leads_to_seq keeps_ignore closed_kept.client.callback_frame)
  then have "leads_to (in_socket disconnected) (seq (ignore send) (\<lambda>_. seq (on_socket (ssocket_disconnect ?B ?U))
      (\<lambda>_. ignore (raw_callback L EvClose (PString [])))))" for send :: "('a, 'b, unit) raw_proc"
    by (rule leads_to_after [OF ignore_ok])
  then show ?thesis
    unfolding leads_to_def raw_disconnect_def raw_disconnect_with_def by blast
qed

lemma client_disconnect_closes:
  assumes "ignore (client_disconnect L) c = (Ok (), c')"
  shows "disconnected (rw_socket (cl_raw c'))"
proof -
  from assms obtain r where "raw_disconnect L (cl_raw c) = (r, cl_raw c')" "returned r"
    by (auto simp: client_disconnect_def ignore_def on_raw_def returned_def split: prod.splits outcome.splits)
  with disconnect_leads [of L] show ?thesis by (auto simp: leads_to_def in_socket_def)
qed

text \<open>A state from which the thread cannot be made to panic by what the server sent: the engine is closed, or
  the thread is not in the loop and the items to come are harmless.\<close>

definition peaceful :: "('u, 'j) slib \<Rightarrow> thread_point \<times> ('u, 'j) client \<Rightarrow> bool" where
  "peaceful L s \<longleftrightarrow> disconnected (rw_socket (cl_raw (snd s))) \<or>
     (calm L (rw_socket (cl_raw (snd s))) \<and> (\<forall>a. fst s \<noteq> Trying a))"

text \<open>A step from a state in which the outstanding requests have distinct ids, where a new connection is one
  to a server that will send harmless items.\<close>

definition thread_step_calm ::
  "('u, 'j) slib \<Rightarrow> thread_point \<times> ('u, 'j) client \<Rightarrow> thread_event \<Rightarrow> thread_point \<times> ('u, 'j) client \<Rightarrow> bool" where
  "thread_step_calm L s ev s' \<longleftrightarrow> thread_step_distinct L s ev s' \<and>
     (ev = Replaced \<longrightarrow> calm L (rw_socket (cl_raw (snd s'))))"

lemma client_next_raw: "cl_raw (snd (client_next L c)) = snd (raw_poll L (cl_raw c))"
  by (auto simp: client_next_def on_raw_def split: prod.split outcome.split option.split)

lemma thread_step_builder: "thread_step L s ev s' \<Longrightarrow> cl_builder (snd s') = cl_builder (snd s)"
  using do_reconnect_fields(2) [of L "wait_backoff (snd s)"] by (auto elim!: thread_step_cases)

lemma thread_step_peaceful:
  assumes "thread_step_calm L s ev s'" "peaceful L s"
  shows "peaceful L s'"
proof -
  have step: "thread_step L s ev s'" and dist: "distinct (map ack_id (rw_acks (cl_raw (snd s))))"
    and new: "ev = Replaced \<Longrightarrow> calm L (rw_socket (cl_raw (snd s')))"
    using assms(1) by (simp_all add: thread_step_calm_def thread_step_distinct_def)
  show ?thesis
  proof (cases ev)
    case (Took item)
    with step have took: "fst s = Reading" "client_next L (snd s) = (Ok item, snd s')"
      "\<forall>a. fst s' \<noteq> Trying a" by (auto simp: step_simps)
    have "cl_raw (snd s') = snd (raw_poll L (cl_raw (snd s)))"
      using client_next_raw [of L "snd s"] took(2) by simp
    with assms(2) took(3) raw_poll_calm(2) [OF _ dist, of L] show ?thesis
      by (auto simp: peaceful_def closed_engine_polls_nothing)
  next
    case Left
    with step client_disconnect_closes show ?thesis by (auto simp: step_simps peaceful_def)
  next
    case (Failed e)
    with step obtain a w where "fst s = Trying a" "cl_raw (snd s') = with_net w (cl_raw (snd s))"
      using failed_raw by (fastforce simp: step_simps)
    with assms(2) show ?thesis by (simp add: peaceful_def with_net_def)
  next
    case Replaced
    with step new show ?thesis by (auto simp: step_simps peaceful_def)
  next
    case GaveUp
    with step assms(2) show ?thesis by (auto simp: step_simps peaceful_def)
  next
    case (User l)
    with step obtain r where l: "l \<noteq> RConnect" "l \<noteq> RPoll" "raw_step L (cl_raw (snd s)) l r" and
      s': "s' = (fst s, snd s\<lparr>cl_raw := r\<rparr>)" by (auto simp: step_simps)
    have "raw_items L r = raw_items L (cl_raw (snd s))"
      by (rule items_kept.client.step_frame [OF l(3,1,2)]) simp
    with assms(2) closed_kept.client.step_frame [OF l(3,1,2)] show ?thesis by (auto simp: peaceful_def s')
  qed
qed

lemma thread_action_event: "thread_action L at c = (Ok (ev, at'), c') \<Longrightarrow> ev \<noteq> User l"
  by (cases "at") (auto simp: seq_def split: prod.splits outcome.splits if_splits)

lemma thread_action_lives:
  assumes "peaceful L (at, c)" "distinct (map ack_id (rw_acks (cl_raw c)))" "sturdy L (cl_builder c)"
  shows "(\<exists>ev at' c'. thread_action L at c = (Ok (ev, at'), c')) \<or> fst (thread_action L at c) = Block"
proof (cases at)
  case Reading
  have "fst (raw_poll L (cl_raw c)) \<noteq> Panic"
    using assms(1) raw_poll_calm(1) [OF _ assms(2), of L] by (auto simp: peaceful_def closed_engine_polls_nothing)
  then have "(\<exists>item d. client_next L c = (Ok item, d)) \<or> fst (client_next L c) = Block"
    by (auto simp: client_next_def on_raw_def split: prod.splits outcome.splits option.splits)
  with Reading show ?thesis by (auto simp: seq_def split: prod.splits)
next
  case Leaving
  have "no_panic (raw_disconnect L)"
    unfolding raw_disconnect_def by (rule no_panic_disconnect_with [OF no_panic_raw_callback])
  from no_panicD [OF this, of "cl_raw c"]
  have "(\<exists>d. ignore (client_disconnect L) c = (Ok (), d)) \<or> fst (ignore (client_disconnect L) c) = Block"
    by (auto simp: ignore_def client_disconnect_def on_raw_def split: prod.splits outcome.splits)
  with Leaving show ?thesis by (auto simp: seq_def split: prod.splits)
next
  case (Trying a)
  have "fst (do_reconnect L (wait_backoff c)) \<noteq> Panic" using assms(3) by (intro do_reconnect_no_panic) simp
  moreover have "\<not> (sl_oc L \<and> a = 255)"
    if "\<not> (case sb_max_attempts (cl_builder c) of Some m \<Rightarrow> a > m | None \<Rightarrow> False)"
    using that assms(3) by (auto simp: sturdy_def)
  ultimately show ?thesis
    unfolding Trying thread_action.simps
    by (auto split: prod.splits outcome.splits)
qed

section \<open>Properties\<close>

text \<open>Whatever the callbacks do: no panic.\<close>

lemma polling_thread_lives:
  assumes "runs (thread_step_calm L) (at0, c) evs (at, c')" "peaceful L (at0, c)"
    and "sturdy L (cl_builder c)" "distinct (map ack_id (rw_acks (cl_raw c')))"
  shows "(\<exists>ev s'. thread_step L (at, c') ev s' \<and> (\<forall>l. ev \<noteq> User l)) \<or> fst (thread_action L at c') = Block"
proof -
  have "peaceful L (at, c')"
    using runs_invariant [where I = "peaceful L", OF assms(1,2)] thread_step_peaceful by blast
  moreover have "cl_builder c' = cl_builder c"
    using runs_invariant [where I = "\<lambda>s. cl_builder (snd s) = cl_builder c", OF assms(1)] thread_step_builder
    by (fastforce simp: thread_step_calm_def thread_step_distinct_def)
  ultimately show ?thesis
    using thread_action_lives [of L "at" c'] thread_action_event [of L "at" c'] assms(3,4) by (metis thread)
qed

text \<open>C22: the polling thread of a blocking client survives every history: of reading, leaving a lost connection
  and trying for a new one, with the calls of the user in between and through any number of
  reconnections. It can make its next step, or it waits for the network: the last request it made has no
  answer yet, or it reads from a websocket on which nothing has come. It never panics, and it never waits
  for a lock it holds itself. The calls of the user run to their end between the steps of the thread. The conditions: the HTTP library accepts the headers, and the \<open>url\<close> crate changes schemes as it
  documents; a maximum of attempts below 255 is set or overflow is not checked; no connection brings an
  \<open>Open\<close>, a \<open>Pong\<close> or an event with an empty array; the outstanding requests have distinct ids when a step
  starts; no callback disconnects its client, and no acknowledgement callback asks for another
  acknowledgement (C40 shows what these do). The start may be any state in which the items to come are
  harmless, or the connection is closed, and the list of acknowledgements is not locked.\<close>

theorem polling_thread_survives:
  assumes "runs (thread_step_calm L) (at0, c) evs (at, c')" "peaceful L (at0, c)"
    and "sturdy L (cl_builder c)" "distinct (map ack_id (rw_acks (cl_raw c')))"
    and "lock_free L" "\<not> rw_acks_locked (cl_raw c)"
  shows "(\<exists>ev s'. thread_step L (at, c') ev s' \<and> (\<forall>l. ev \<noteq> User l)) \<or>
    (\<exists>d. thread_action L at c' = (Block, d) \<and> waits_for_network at d)"
proof -
  have "\<not> rw_acks_locked (cl_raw (snd (at, c')))"
    using runs_invariant [where I = "\<lambda>s. \<not> rw_acks_locked (cl_raw (snd s))", OF assms(1)] step_unlocked [OF assms(5)] assms(6)
    by (fastforce simp: thread_step_calm_def thread_step_distinct_def)
  then have "fst (thread_action L at c') = Block \<Longrightarrow> \<exists>d. thread_action L at c' = (Block, d) \<and> waits_for_network at d"
    using thread_waits [OF assms(5)] by (metis prod.collapse snd_conv)
  with polling_thread_lives [OF assms(1-4)] show ?thesis by blast
qed

definition left_client :: "(nat, rstring) client" where
  "left_client = (let c = demo_client (Some 3) 1; r = cl_raw c; s = rw_socket r in
     c\<lparr>cl_raw := r\<lparr>rw_socket := s\<lparr>ss_engine := (ss_engine s)\<lparr>es_connected := False\<rparr>\<rparr>\<rparr>\<rparr>)"

lemma left_client_fields [simp]:
  "cl_builder left_client = cl_builder (demo_client (Some 3) 1)" "rw_acks (cl_raw left_client) = []"
  "raw_net (cl_raw left_client) = raw_net (cl_raw (demo_client (Some 3) 1))"
  "disconnected (rw_socket (cl_raw left_client))" "\<not> rw_acks_locked (cl_raw left_client)"
  by (simp_all add: left_client_def Let_def raw_net_def) (simp_all add: demo_client_def with_net_def)

text \<open>A thread that has left its connection, and whose first attempt for a new one fails.\<close>

theorem polling_thread_survives_witness:
  "\<exists>e c'. runs (thread_step_calm (demo_slib (\<lambda>h. []))) (Trying 0, left_client) [Failed e] (Trying 1, c') \<and>
     ((\<exists>ev s'. thread_step (demo_slib (\<lambda>h. [])) (Trying 1, c') ev s' \<and> (\<forall>l. ev \<noteq> User l)) \<or>
      (\<exists>d. thread_action (demo_slib (\<lambda>h. [])) (Trying 1) c' = (Block, d) \<and> waits_for_network (Trying 1) d))"
proof -
  let ?L = "demo_slib (\<lambda>h. [])" and ?c = left_client
  have "polls_by_http ?L (cl_builder (wait_backoff ?c))" "down_for (Suc 0) (raw_net (cl_raw (wait_backoff ?c)))"
    using demo_client_polls demo_client_fields(7) [of 1 "Some 3"] by simp_all
  then obtain e w where failed: "do_reconnect ?L (wait_backoff ?c) =
      (Err e, (wait_backoff ?c)\<lparr>cl_attempts := cl_attempts (wait_backoff ?c) + 1, cl_raw := with_net w (cl_raw (wait_backoff ?c))\<rparr>)"
    (is "_ = (_, ?c')") by (rule do_reconnect_down)
  have "may_try ?L 0 ?c" by (simp add: may_try_def)
  with failed have "thread_step ?L (Trying 0, ?c) (Failed e) (Trying 1, ?c')" by (simp add: step_simps)
  then have run: "runs (thread_step_calm ?L) (Trying 0, ?c) [Failed e] (Trying 1, ?c')"
    by (simp add: runs_Cons thread_step_calm_def thread_step_distinct_def)
  have "peaceful ?L (Trying 0, ?c)" by (simp add: peaceful_def)
  moreover have "sturdy ?L (cl_builder ?c)"
    by (simp add: sturdy_def scheme_laws_def sound_headers_def convert_headers_def)
      (simp add: demo_slib_def demo_urls_def demo_client_def sbuilder_new_def)
  moreover have "distinct (map ack_id (rw_acks (cl_raw ?c')))" by (simp add: with_net_def)
  moreover have "lock_free ?L" by (simp add: lock_free_def demo_slib_def)
  moreover have "\<not> rw_acks_locked (cl_raw ?c)" by simp
  ultimately have "(\<exists>ev s'. thread_step ?L (Trying 1, ?c') ev s' \<and> (\<forall>l. ev \<noteq> User l)) \<or>
      (\<exists>d. thread_action ?L (Trying 1) ?c' = (Block, d) \<and> waits_for_network (Trying 1) d)"
    by (rule polling_thread_survives [OF run])
  with run show ?thesis by blast
qed

end
