(* ===== verification/Async_Concurrent_Sends.thy ===== *)
theory Async_Concurrent_Sends
  imports Concurrent_Sends Async_End_To_End
begin

text \<open>
  Tasks that share one asynchronous client and send at the same time. The asynchronous \<open>Socket::send\<close>
  awaits the engine's client for the packet and again for each attachment, and another task can send at
  each of these points. To the network its calls are those of the blocking socket, so the interface of
  \<open>Concurrent_Sends\<close> is fulfilled, and with it the same follows.
\<close>

definition aengine_emit :: "base64 \<Rightarrow> 'u urllib \<Rightarrow> epacket \<Rightarrow> ('u assocket, serror, unit) proc" where
  "aengine_emit B U q = on_aengine (asocket_emit B U q)"

lemma assocket_send_items:
  "assocket_send oc B U p s =
     (if \<not> sa_open s then (Err SIllegalActionBeforeOpen, s)
      else seq (give (send_items oc p)) (emit_items (aengine_emit B U)) s)"
proof -
  have as: "asend_attachments B U as = emit_items (aengine_emit B U) (map (epacket EMessageBinary) as)" for as
    by (induction as) (simp_all add: aengine_emit_def)
  show ?thesis
    by (cases "spacket_to_bytes oc p :: (serror, bytes) outcome")
      (auto simp: assocket_send_def is_aengine_connected_def send_items_def as seq_def give_def aengine_emit_def
        split: option.split prod.split outcome.split)
qed

text \<open>A blocking socket that looks to the network like an asynchronous one.\<close>

lemma socket_twin: "\<exists>t :: 'u ssocket. socket_view t = asocket_view a"
proof -
  define e where "e = (esocket_new (as_transport (sa_engine a)) (as_net (sa_engine a)) (as_handshake (sa_engine a))
    (as_callbacks (sa_engine a)))\<lparr>es_connected := as_connected (sa_engine a)\<rparr>"
  have "socket_view \<lparr>ss_engine = e, ss_connected = sa_connected a\<rparr> = asocket_view a"
    by (simp add: e_def socket_view_def asocket_view_def engine_view_def aengine_view_def esocket_new_def)
  then show ?thesis by blast
qed

lemma engine_emit_corresponds: "corresponds socket_view asocket_view (engine_emit B U q) (aengine_emit B U q)"
  unfolding engine_emit_def aengine_emit_def by (rule on_engine_corresponds [OF emit_corresponds])

lemmas view_fields = socket_view_def asocket_view_def engine_view_def aengine_view_def

abbreviation task_send :: "('u, 'j) slib \<Rightarrow> 'u assocket senders \<Rightarrow> nat \<times> send_event \<Rightarrow> 'u assocket senders \<Rightarrow> bool" where
  "task_send L \<equiv> send_step (sl_oc L) (aengine_emit (sl_b64 L) (sl_url L)) sa_open"

abbreviation anet_of :: "'u assocket senders \<Rightarrow> 'u net" where
  "anet_of s \<equiv> as_net (sa_engine (sn_socket s))"

interpretation tasks: sender_socket "aengine_emit B U" sa_open "\<lambda>t. as_transport (sa_engine t)"
    "\<lambda>t. as_net (sa_engine t)" B aready
  for B :: base64 and U :: "'u urllib"
proof unfold_locales
  fix q and a a' :: "'u assocket"
  assume emit: "aengine_emit B U q a = (Ok (), a')"
  obtain t :: "'u ssocket" where t: "socket_view t = asocket_view a" using socket_twin by blast
  from corresponds_rule [OF engine_emit_corresponds t, of B U q] emit
  obtain t' where t': "engine_emit B U q t = (Ok (), t')" "socket_view t' = asocket_view a'"
    by (cases "engine_emit B U q t") auto
  from threads.emit_puts [OF t'(1)] t t'(2)
  show "(\<exists>m. packet_form B (as_transport (sa_engine a)) q = Some m \<and>
      outbox (as_net (sa_engine a')) = outbox (as_net (sa_engine a)) @ [m]) \<and>
      as_transport (sa_engine a') = as_transport (sa_engine a)"
    by (simp add: view_fields)
next
  fix n and a :: "'u assocket" assume "aready n a"
  then show "sa_open a" by (simp add: aready_def)
next
  fix n q m and a :: "'u assocket" assume a: "aready (Suc n) a" and q: "item_frame q m"
  obtain t :: "'u ssocket" where t: "socket_view t = asocket_view a" using socket_twin by blast
  with a have "ready (Suc n) t" by (auto simp: ready_def aready_def view_fields)
  from threads.emit_takes [OF this q, of B U] obtain t' where t': "engine_emit B U q t = (Ok (), t')" "ready n t'"
    "wire (es_net (ss_engine t')) = wire (es_net (ss_engine t)) @ [WsSend m]" by blast
  from corresponds_rule [OF engine_emit_corresponds t, of B U q] t'(1)
  obtain a' where a': "aengine_emit B U q a = (Ok (), a')" "socket_view t' = asocket_view a'"
    by (cases "aengine_emit B U q a") auto
  with t t' show "\<exists>a'. aengine_emit B U q a = (Ok (), a') \<and> aready n a' \<and>
      wire (as_net (sa_engine a')) = wire (as_net (sa_engine a)) @ [WsSend m]"
    by (auto simp: ready_def aready_def view_fields)
qed

section \<open>Properties\<close>

text \<open>Tasks that share an asynchronous client and send text messages lose nothing: however they take
  turns, when all of them are through, a client that receives the frames calls the callbacks of all
  messages, each once with its payload, those of each task in its order.\<close>

theorem async_concurrent_texts:
  assumes "runs (task_send L) s ls s'" "list_all (\<lambda>(j, ev). fine ev) ls"
    and "\<forall>i. sn_left s i = [] \<and> sn_todo s i = map (message_packet L nsp) (ms i)"
      "\<forall>i. sn_left s' i = [] \<and> sn_todo s' i = []"
    and "as_transport (sa_engine (sn_socket s)) = Websocket u"
    and "\<forall>i. \<forall>(ev, sent, got) \<in> set (ms i). text_message (ev, sent, got) \<and> deliverable (sl_json L) ev sent got"
    and "plain_text nsp" "nsp_ok nsp" and "\<And>h. sl_script L h = []"
  shows "\<exists>order frames. (\<forall>i. of_thread i order = ms i) \<and>
    outbox (anet_of s') = outbox (anet_of s) @ map Frame frames \<and>
    (\<forall>r cb. receiving frames (rw_socket r) \<and> rw_nsp r = nsp \<and> listening cb (map snd order) r \<longrightarrow>
       (\<exists>ps r'. poll_times L (length order) r = (Ok ps, r') \<and>
          rw_calls r' = rw_calls r @ map (\<lambda>(ev, sent, got). CallOn (cb ev) got) (map snd order)))"
  by (rule tasks.texts_in_order [OF assms])

text \<open>Tasks that share an asynchronous client and send binary messages spoil them, as threads do with a
  blocking one: both sends succeed, and the receiver gives the callback of the first event the text of
  the second packet.\<close>

theorem async_concurrent_binaries_garbled:
  assumes "deliverable (sl_json L) evA (PBinary dA) (PBinary dA)" "deliverable (sl_json L) evB (PBinary dB) (PBinary dB)"
    and "plain_text nsp" "nsp_ok nsp" and "\<And>h. sl_script L h = []"
    and "pA = message_packet L nsp (evA, PBinary dA, PBinary dA)"
    and "pB = message_packet L nsp (evB, PBinary dB, PBinary dB)"
    and "aready 4 (sn_socket s)" "sn_left s = (\<lambda>_. [])" "sn_todo s = (\<lambda>_. [])(0 := [pA], 1 := [pB])"
  shows "\<exists>ls s' frames. runs (task_send L) s ls s' \<and> list_all (\<lambda>(j, ev). fine ev) ls \<and>
    sn_left s' = (\<lambda>_. []) \<and> sn_todo s' = (\<lambda>_. []) \<and> wire (anet_of s') = wire (anet_of s) @ map WsSend frames \<and>
    (\<forall>r cb. receiving frames (rw_socket r) \<and> rw_nsp r = nsp \<and> map_of (rw_on r) evA = Some cb \<and> rw_on_any r = None \<longrightarrow>
       (\<exists>p r'. raw_poll L r = (Ok (Some p), r') \<and>
          rw_calls r' = rw_calls r @ [CallOn cb (PBinary (utf8 (wire_text pB)))]))"
  by (rule tasks.binaries_garbled [OF assms])

definition demo_tasks :: "spacket \<Rightarrow> spacket \<Rightarrow> nat assocket senders" where
  "demo_tasks pA pB =
     \<lparr>sn_socket = (demo_assocket [])\<lparr>sa_engine := (demo_asocket [])\<lparr>as_net :=
        (demo_net [])\<lparr>ws_send_in := replicate 4 (Inr ())\<rparr>\<rparr>\<rparr>,
      sn_todo = (\<lambda>_. [])(0 := [pA], 1 := [pB]), sn_left = (\<lambda>_. [])\<rparr>"

theorem async_concurrent_binaries_garbled_witness:
  "\<exists>pA ls s' frames. runs (task_send (demo_slib (\<lambda>h. []))) (demo_tasks pA pA) ls s' \<and>
     sn_left s' = (\<lambda>_. []) \<and> sn_todo s' = (\<lambda>_. []) \<and>
     (\<exists>p r'. raw_poll (demo_slib (\<lambda>h. [])) (demo_raw (map WsMsg frames) []) = (Ok (Some p), r') \<and>
        rw_calls r' = [CallOn 1 (PBinary (utf8 (wire_text pA)))])"
proof -
  let ?L = "demo_slib (\<lambda>h. [])"
  let ?p = "message_packet ?L (lit ''/'') (EvMessage, PBinary [3, 2], PBinary [3, 2])"
  have del: "deliverable (sl_json ?L) EvMessage (PBinary [3, 2]) (PBinary [3, 2])"
    using deliverable_binary by (simp add: demo_nsp)
  have start: "aready 4 (sn_socket (demo_tasks ?p ?p))" "sn_left (demo_tasks ?p ?p) = (\<lambda>_. [])"
    "sn_todo (demo_tasks ?p ?p) = (\<lambda>_. [])(0 := [?p], 1 := [?p])"
    by (auto simp: aready_def demo_tasks_def)
  from async_concurrent_binaries_garbled [OF del del demo_nsp(1-3) refl refl start]
  obtain ls s' frames where run: "runs (task_send ?L) (demo_tasks ?p ?p) ls s'" "sn_left s' = (\<lambda>_. [])" "sn_todo s' = (\<lambda>_. [])"
    and recv: "\<forall>r cb. receiving frames (rw_socket r) \<and> rw_nsp r = lit ''/'' \<and> map_of (rw_on r) EvMessage = Some cb \<and>
        rw_on_any r = None \<longrightarrow> (\<exists>p r'. raw_poll ?L r = (Ok (Some p), r') \<and>
          rw_calls r' = rw_calls r @ [CallOn cb (PBinary (utf8 (wire_text ?p)))])"
    by blast
  let ?r = "demo_raw (map WsMsg frames) []"
  have "receiving frames (rw_socket ?r)" "rw_nsp ?r = lit ''/''" "map_of (rw_on ?r) EvMessage = Some 1" "rw_on_any ?r = None"
    by (simp_all add: receiving_def demo_net_def)
  with recv have "\<exists>p r'. raw_poll ?L ?r = (Ok (Some p), r') \<and>
      rw_calls r' = rw_calls ?r @ [CallOn 1 (PBinary (utf8 (wire_text ?p)))]" by blast
  with run show ?thesis
    by (intro exI [of _ ?p] exI [of _ ls] exI [of _ s'] exI [of _ frames]) simp
qed

end
