(* ===== verification/Server_Tests.thy ===== *)
theory Server_Tests
  imports Client_Handles Engine_Runs
begin

text \<open>
  The tests of \<open>engineio/src/client/client.rs\<close> that talk to a server, as programs over the model, and
  the theorems that they pass against every server that answers as the one of the repository does
  (\<open>ci/engine-io.js\<close>: it greets with a message, answers another one and sends pings at any time).
\<close>

section \<open>Programs\<close>

definition assert :: "bool \<Rightarrow> ('s, 'e, unit) proc" where
  "assert b = give (if b then Ok () else Panic)"

definition unwrapped :: "('s, 'e, 'a) proc \<Rightarrow> ('s, 'e, 'a) proc" where
  "unwrapped m s = (case m s of (Err e, t) \<Rightarrow> (Panic, t) | r \<Rightarrow> r)"

definition is_err :: "('s, 'e, 'a) proc \<Rightarrow> ('s, 'e, bool) proc" where
  "is_err m s =
     (case m s of
        (Ok _, t) \<Rightarrow> (Ok False, t)
      | (Err _, t) \<Rightarrow> (Ok True, t)
      | (Panic, t) \<Rightarrow> (Panic, t)
      | (Block, t) \<Rightarrow> (Block, t))"

text \<open>A program of the client that was built, on the network that is there now.\<close>

definition on_client :: "('u esocket, 'e, 'a) proc \<Rightarrow> 'u esocket \<Rightarrow> ('u net, 'e, 'a) proc" where
  "on_client m s w = (case m (s\<lparr>es_net := w\<rparr>) of (r, s') \<Rightarrow> (r, es_net s'))"

lemma program_simps [simp]:
  "assert True = give (Ok ())"
  "m s = (Ok x, t) \<Longrightarrow> unwrapped m s = (Ok x, t)"
  "m s = (Ok x, t) \<Longrightarrow> is_err m s = (Ok False, t)"
  "m s = (Err e, t) \<Longrightarrow> is_err m s = (Ok True, t)"
  by (simp_all add: assert_def unwrapped_def is_err_def)

text \<open>\<open>next\<close> of \<open>iter().map(|packet| packet.unwrap()).filter(|packet| packet.packet_id != PacketId::Ping)\<close>.\<close>

lemma eclient_next_backlog:
  "eclient_next B U s = (Ok (Some (Inr p)), s') \<Longrightarrow> length (backlog B s') < length (backlog B s)"
  using eclient_poll_backlog [of B U s p s']
  by (auto simp: eclient_next_def split: prod.splits outcome.splits option.splits)

function next_other :: "base64 \<Rightarrow> 'u urllib \<Rightarrow> ('u esocket, eerror, epacket option) proc" where
  "next_other B U s =
     (case eclient_next B U s of
        (Ok (Some (Inr p)), s') \<Rightarrow> if e_id p \<noteq> EPing then (Ok (Some p), s') else next_other B U s'
      | (Ok (Some (Inl e)), s') \<Rightarrow> (Panic, s')
      | (Ok None, s') \<Rightarrow> (Ok None, s')
      | (Err e, s') \<Rightarrow> (Err e, s')
      | (Panic, s') \<Rightarrow> (Panic, s')
      | (Block, s') \<Rightarrow> (Block, s'))"
  by pat_completeness auto
termination
  by (relation "measure (\<lambda>(B, U, s). length (backlog B s))")
    (auto intro: eclient_next_backlog [OF sym])

declare next_other.simps [simp del]

definition message :: "string \<Rightarrow> epacket" where
  "message s = epacket EMessage (ascii s)"

definition test_connection :: "base64 \<Rightarrow> 'u urllib \<Rightarrow> ('u esocket, eerror, unit) proc" where
  "test_connection B U =
     seq (unwrapped (eclient_connect B U)) (\<lambda>_.
     seq (next_other B U) (\<lambda>packet.
     seq (assert (packet = Some (message ''hello client''))) (\<lambda>_.
     seq (eclient_emit B U (message ''respond'')) (\<lambda>_.
     seq (next_other B U) (\<lambda>packet.
     seq (assert (packet = Some (message ''Roger Roger''))) (\<lambda>_.
     eclient_close B U))))))"

text \<open>The part of \<open>test_client_cloneable\<close> and of \<open>test_connection_long\<close> after the client was built.\<close>

definition cloned_client :: "base64 \<Rightarrow> 'u urllib \<Rightarrow> ('u esocket, eerror, unit) proc" where
  "cloned_client B U =
     seq (eclient_connect B U) (\<lambda>_.
     seq eclient_is_connected (\<lambda>sut.
     seq (assert sut) (\<lambda>_.
     seq eclient_is_connected (\<lambda>cloned.
     seq (assert cloned) (\<lambda>_.
     seq (next_other B U) (\<lambda>packet.
     seq (assert (packet = Some (message ''hello client''))) (\<lambda>_.
     seq (eclient_emit B U (message ''respond'')) (\<lambda>_.
     seq (next_other B U) (\<lambda>packet.
     seq (assert (packet = Some (message ''Roger Roger''))) (\<lambda>_.
     seq (eclient_disconnect B U) (\<lambda>_.
     seq eclient_is_connected (\<lambda>sut.
     seq (assert (\<not> sut)) (\<lambda>_.
     seq eclient_is_connected (\<lambda>cloned.
     assert (\<not> cloned)))))))))))))))"

definition long_lived :: "base64 \<Rightarrow> 'u urllib \<Rightarrow> ('u esocket, eerror, unit) proc" where
  "long_lived B U =
     seq (eclient_connect B U) (\<lambda>_.
     seq (eclient_next B U) (\<lambda>_.
     seq (eclient_next B U) (\<lambda>_.
     seq (eclient_disconnect B U) (\<lambda>_.
     seq eclient_is_connected (\<lambda>connected.
     assert (\<not> connected))))))"

section \<open>A network that takes what is sent\<close>

definition takes :: "nat \<Rightarrow> 'u transport \<Rightarrow> 'u net \<Rightarrow> bool" where
  "takes n t w =
     (case t of
        Polling _ \<Rightarrow> \<exists>rest. post_in w = replicate n (Inr 200) @ rest
      | _ \<Rightarrow> \<exists>rest. ws_send_in w = replicate n (Inr ()) @ rest)"

lemma replicate_split: "m \<le> n \<Longrightarrow> replicate n x @ r = replicate m x @ replicate (n - m) x @ r"
  by (metis append.assoc le_add_diff_inverse replicate_add)

lemma takes_mono: "takes n t w \<Longrightarrow> m \<le> n \<Longrightarrow> takes m t w"
  by (auto simp: takes_def replicate_split split: transport.splits)

lemma takes_poll: "takes n t (snd (transport_poll U t w)) = takes n t w"
proof -
  obtain es where "ws_poll w = (fst (ws_poll w), w\<lparr>ws_in := es\<rparr>)"
    using ws_poll_net by blast
  then have "snd (ws_poll w) = w\<lparr>ws_in := es\<rparr>" by (metis snd_conv)
  moreover have "post_in (snd (polling_poll U u w)) = post_in w" for u
    by (auto simp: polling_poll_def log_request_def Let_def split: list.splits sum.splits)
  ultimately show ?thesis by (simp add: takes_def transport_poll_def split: transport.splits)
qed

text \<open>Packets that can be sent on every transport.\<close>

definition plain :: "base64 \<Rightarrow> epacket \<Rightarrow> bool" where
  "plain B p \<longleftrightarrow> e_id p = EMessageBinary \<or> from_utf8 (epacket_to_bytes B p) \<noteq> None"

lemma takes_emit:
  assumes "es_connected s" "takes (Suc n) (es_transport s) (es_net s)" "plain B p"
  obtains s' where "esocket_emit B U p s = (Ok (), s')" "es_connected s'" "es_transport s' = es_transport s"
    "backlog B s' = backlog B s" "takes n (es_transport s) (es_net s')"
proof -
  have "\<exists>s'. esocket_emit B U p s = (Ok (), s') \<and> takes n (es_transport s) (es_net s')"
    using assms
    by (auto simp: takes_def plain_def esocket_emit_def on_net_def Let_def transport_emit_def polling_emit_def ws_emit_def
        ws_send_text_def ws_send_def log_request_def split: transport.splits option.splits)
  then obtain s' where s': "esocket_emit B U p s = (Ok (), s')" "takes n (es_transport s) (es_net s')" by blast
  with that esocket_emit_fields [of B U p s] esocket_emit_backlog [of B B U p s] assms(1) show thesis by simp
qed

lemma plain_packets: "plain B (epacket EPong [])" "plain B (epacket EClose [])" "plain B (message ''respond'')"
  by (simp_all add: plain_def message_def epacket_to_bytes_def epacket_def from_utf8_def utf8_scan.simps)

lemma takes_socket_poll: "takes n (es_transport s) (es_net (snd (esocket_poll B U s))) = takes n (es_transport s) (es_net s)"
  by (rule esocket_poll_net_rule [where P = "\<lambda>w. takes n (es_transport s) w = takes n (es_transport s) (es_net s)"])
    (simp_all add: takes_poll)

text \<open>A connected client with items to come, on a network that takes \<open>n\<close> more messages.\<close>

definition chatting :: "base64 \<Rightarrow> (eerror + epacket) list \<Rightarrow> nat \<Rightarrow> 'u esocket \<Rightarrow> bool" where
  "chatting B items n s \<longleftrightarrow> es_connected s \<and> backlog B s = items \<and> takes n (es_transport s) (es_net s)"

lemma chatting_upd [simp]:
  "chatting B items n (handle_packet p s) = chatting B items n s" "chatting B items n (handle_data d s) = chatting B items n s"
  "chatting B items n (pinged s) = chatting B items n s"
  by (simp_all add: chatting_def)

lemma chatting_emit:
  assumes "chatting B items (Suc n) s" "plain B p"
  obtains s' where "esocket_emit B U p s = (Ok (), s')" "chatting B items n s'"
proof -
  have "es_connected s" "takes (Suc n) (es_transport s) (es_net s)" "backlog B s = items"
    using assms(1) by (simp_all add: chatting_def)
  note c = this
  from c(1,2) assms(2) obtain s' where "esocket_emit B U p s = (Ok (), s')" "es_connected s'"
    "es_transport s' = es_transport s" "backlog B s' = backlog B s" "takes n (es_transport s) (es_net s')"
    by (rule takes_emit)
  with that c(3) show thesis by (simp add: chatting_def)
qed

lemma chatting_poll:
  assumes "chatting B (Inr p # items) n s"
  obtains s1 where "esocket_poll B U s = (Ok (Some p), s1)" "chatting B items n s1"
proof -
  have c: "es_connected s" "backlog B s = Inr p # items" "takes n (es_transport s) (es_net s)"
    using assms by (simp_all add: chatting_def)
  from esocket_poll_refines [OF c(1), of B U] c(2)
  have "fst (esocket_poll B U s) = Ok (Some p)" "backlog B (snd (esocket_poll B U s)) = items" by simp_all
  with that [of "snd (esocket_poll B U s)"] esocket_poll_frame [of B U s] takes_socket_poll [of n s B U] c(1,3)
  show thesis by (simp add: chatting_def prod_eq_iff)
qed

lemma chatting_next_message:
  assumes "chatting B (Inr p # items) n s" "e_id p = EMessage"
  obtains s' where "eclient_next B U s = (Ok (Some (Inr p)), s')" "chatting B items n s'"
proof -
  from assms(1) obtain s1 where "esocket_poll B U s = (Ok (Some p), s1)" "chatting B items n s1" by (rule chatting_poll)
  with assms(2) that show thesis by (simp add: eclient_next_def eclient_poll_step eclient_react_def)
qed

lemma chatting_next_ping:
  assumes "chatting B (Inr p # items) (Suc n) s" "e_id p = EPing"
  obtains s' where "eclient_next B U s = (Ok (Some (Inr p)), s')" "chatting B items n s'"
proof -
  from assms(1) obtain s1 where s1: "esocket_poll B U s = (Ok (Some p), s1)" "chatting B items (Suc n) s1"
    by (rule chatting_poll)
  from s1(2) have "chatting B items (Suc n) (pinged (handle_packet p s1))" by simp
  then obtain s2 where "esocket_emit B U (epacket EPong []) (pinged (handle_packet p s1)) = (Ok (), s2)" "chatting B items n s2"
    by (rule chatting_emit [OF _ plain_packets(1)])
  with s1(1) assms(2) that show thesis by (simp add: eclient_next_def eclient_poll_step eclient_react_def)
qed

lemma chatting_next_other:
  assumes "chatting B (map Inr ps @ Inr p # items) (length ps + n) s" "\<forall>q \<in> set ps. e_id q = EPing" "e_id p = EMessage"
  obtains s' where "next_other B U s = (Ok (Some p), s')" "chatting B items n s'"
  using assms
proof (induction ps arbitrary: s thesis)
  case Nil
  from Nil.prems(2) have "chatting B (Inr p # items) n s" by simp
  then obtain s' where "eclient_next B U s = (Ok (Some (Inr p)), s')" "chatting B items n s'"
    by (rule chatting_next_message [OF _ assms(3)])
  with Nil.prems(1,4) show ?case by (simp add: next_other.simps)
next
  case (Cons q ps)
  from Cons.prems(2) have "chatting B (Inr q # map Inr ps @ Inr p # items) (Suc (length ps + n)) s" by simp
  moreover have "e_id q = EPing" using Cons.prems(3) by simp
  ultimately obtain s1 where s1: "eclient_next B U s = (Ok (Some (Inr q)), s1)"
    "chatting B (map Inr ps @ Inr p # items) (length ps + n) s1" by (rule chatting_next_ping)
  from Cons.IH [OF _ s1(2)] Cons.prems(3,4) obtain s' where "next_other B U s1 = (Ok (Some p), s')" "chatting B items n s'"
    by (metis list.set_intros(2))
  with s1(1) \<open>e_id q = EPing\<close> Cons.prems(1) show ?case by (simp add: next_other.simps [of B U s])
qed

lemma chatting_connect:
  assumes "backlog B s = items" "takes (Suc n) (es_transport s) (es_net s)"
  obtains s' where "eclient_connect B U s = (Ok (), s')" "chatting B items n s'"
proof -
  have "chatting B items (Suc n) (pinged (fire has_open OnOpen (s\<lparr>es_connected := True\<rparr>)))"
    using assms by (simp add: chatting_def)
  then obtain s' where "esocket_emit B U (epacket EPong []) (pinged (fire has_open OnOpen (s\<lparr>es_connected := True\<rparr>))) = (Ok (), s')"
    "chatting B items n s'" by (rule chatting_emit [OF _ plain_packets(1)])
  with that show thesis by (simp add: eclient_connect_def esocket_connect_def)
qed

lemma chatting_close:
  assumes "chatting B items (Suc n) s"
  obtains s' where "esocket_disconnect B U s = (Ok (), s')" "\<not> es_connected s'" "takes n (es_transport s') (es_net s')"
proof -
  have "chatting B items (Suc n) (fire has_close OnClose s)" using assms by (simp add: chatting_def)
  then obtain s1 where "esocket_emit B U (epacket EClose []) (fire has_close OnClose s) = (Ok (), s1)" "chatting B items n s1"
    by (rule chatting_emit [OF _ plain_packets(2)])
  with that show thesis by (simp add: esocket_disconnect_def seq_def ignore_def modify_def chatting_def)
qed

section \<open>The server of the repository\<close>

text \<open>What \<open>ci/engine-io.js\<close> sends over a connection: its greeting, its answer, pings at any time.\<close>

definition answers_of_server :: "(eerror + epacket) list \<Rightarrow> bool" where
  "answers_of_server items \<longleftrightarrow> (\<exists>ps qs rest. items = map Inr ps @ Inr (message ''hello client'') #
     map Inr qs @ Inr (message ''Roger Roger'') # rest \<and> (\<forall>q \<in> set (ps @ qs). e_id q = EPing))"

lemma message_id [simp]: "e_id (message s) = EMessage"
  by (simp add: message_def)

lemma conversation:
  assumes "chatting B items (length items + n) s" "answers_of_server items"
  obtains s1 s2 s3 rest where "next_other B U s = (Ok (Some (message ''hello client'')), s1)"
    "eclient_emit B U (message ''respond'') s1 = (Ok (), s2)"
    "next_other B U s2 = (Ok (Some (message ''Roger Roger'')), s3)" "chatting B rest (Suc n) s3"
proof -
  obtain ps qs rest where items: "items = map Inr ps @ Inr (message ''hello client'') #
     map Inr qs @ Inr (message ''Roger Roger'') # rest" and pings: "\<forall>q \<in> set ps. e_id q = EPing" "\<forall>q \<in> set qs. e_id q = EPing"
    using assms(2) by (auto simp: answers_of_server_def)
  let ?n = "length ps + Suc (length qs + Suc n)"
  have "chatting B items ?n s" using assms(1) by (auto simp: chatting_def items elim!: takes_mono)
  then have "chatting B (map Inr ps @ Inr (message ''hello client'') # map Inr qs @ Inr (message ''Roger Roger'') # rest) ?n s"
    by (simp only: items)
  then obtain s1 where s1: "next_other B U s = (Ok (Some (message ''hello client'')), s1)"
    "chatting B (map Inr qs @ Inr (message ''Roger Roger'') # rest) (Suc (length qs + Suc n)) s1"
    by (rule chatting_next_other [OF _ pings(1) message_id])
  from s1(2) obtain s2 where s2: "esocket_emit B U (message ''respond'') s1 = (Ok (), s2)"
    "chatting B (map Inr qs @ Inr (message ''Roger Roger'') # rest) (length qs + Suc n) s2"
    by (rule chatting_emit [OF _ plain_packets(3)])
  from s2(2) obtain s3 where "next_other B U s2 = (Ok (Some (message ''Roger Roger'')), s3)" "chatting B rest (Suc n) s3"
    by (rule chatting_next_other [OF _ pings(2) message_id])
  with that s1(1) s2(1) show thesis by (simp add: eclient_emit_def)
qed

lemma connection_runs:
  assumes "answers_of_server (backlog B s)" "takes (length (backlog B s) + Suc n) (es_transport s) (es_net s)"
  obtains s' where "test_connection B U s = (Ok (), s')" "\<not> es_connected s'" "takes n (es_transport s') (es_net s')"
proof -
  from assms(2) have "takes (Suc (length (backlog B s) + n)) (es_transport s) (es_net s)" by simp
  then obtain s0 where s0: "eclient_connect B U s = (Ok (), s0)" "chatting B (backlog B s) (length (backlog B s) + n) s0"
    by (rule chatting_connect [OF refl])
  from s0(2) assms(1) obtain s1 s2 s3 rest where talk: "next_other B U s0 = (Ok (Some (message ''hello client'')), s1)"
    "eclient_emit B U (message ''respond'') s1 = (Ok (), s2)"
    "next_other B U s2 = (Ok (Some (message ''Roger Roger'')), s3)" "chatting B rest (Suc n) s3"
    by (rule conversation)
  from talk(4) obtain s' where "esocket_disconnect B U s3 = (Ok (), s')" "\<not> es_connected s'" "takes n (es_transport s') (es_net s')"
    by (rule chatting_close)
  with s0(1) talk(1-3) that show thesis by (simp add: test_connection_def eclient_close_def)
qed

section \<open>The tests on a client that was built\<close>

lemma cloneable_runs:
  assumes "answers_of_server (backlog B s)" "takes (length (backlog B s) + Suc n) (es_transport s) (es_net s)"
  obtains s' where "cloned_client B U s = (Ok (), s')"
proof -
  from assms(2) have "takes (Suc (length (backlog B s) + n)) (es_transport s) (es_net s)" by simp
  then obtain s0 where s0: "eclient_connect B U s = (Ok (), s0)" "chatting B (backlog B s) (length (backlog B s) + n) s0"
    by (rule chatting_connect [OF refl])
  from s0(2) assms(1) obtain s1 s2 s3 rest where talk: "next_other B U s0 = (Ok (Some (message ''hello client'')), s1)"
    "eclient_emit B U (message ''respond'') s1 = (Ok (), s2)"
    "next_other B U s2 = (Ok (Some (message ''Roger Roger'')), s3)" "chatting B rest (Suc n) s3"
    by (rule conversation)
  from talk(4) obtain s' where closed: "esocket_disconnect B U s3 = (Ok (), s')" "\<not> es_connected s'"
    by (rule chatting_close)
  have "eclient_is_connected s0 = (Ok True, s0)" "eclient_is_connected s' = (Ok False, s')"
    using s0(2) closed(2) by (simp_all add: chatting_def eclient_is_connected_def esocket_is_connected_def)
  with s0(1) talk(1-3) closed(1) have "cloned_client B U s = (Ok (), s')"
    by (simp add: cloned_client_def eclient_disconnect_def seq_def [of eclient_is_connected])
  then show thesis by (rule that)
qed

lemma long_runs:
  assumes "backlog B s = Inr p # Inr q # rest" "e_id p = EMessage" "e_id q = EPing" "takes 3 (es_transport s) (es_net s)"
  obtains s' where "long_lived B U s = (Ok (), s')"
proof -
  have "takes (Suc (Suc (Suc 0))) (es_transport s) (es_net s)" using assms(4) by (simp add: numeral_3_eq_3)
  then obtain s0 where s0: "eclient_connect B U s = (Ok (), s0)" "chatting B (Inr p # Inr q # rest) (Suc (Suc 0)) s0"
    by (rule chatting_connect [OF assms(1)])
  from s0(2) obtain s1 where s1: "eclient_next B U s0 = (Ok (Some (Inr p)), s1)" "chatting B (Inr q # rest) (Suc (Suc 0)) s1"
    by (rule chatting_next_message [OF _ assms(2)])
  from s1(2) obtain s2 where s2: "eclient_next B U s1 = (Ok (Some (Inr q)), s2)" "chatting B rest (Suc 0) s2"
    by (rule chatting_next_ping [OF _ assms(3)])
  from s2(2) obtain s' where "esocket_disconnect B U s2 = (Ok (), s')" "\<not> es_connected s'" by (rule chatting_close)
  with s0(1) s1(1) s2(1) that show thesis
    by (simp add: long_lived_def eclient_disconnect_def eclient_is_connected_def esocket_is_connected_def)
qed

text \<open>What a client does on a websocket leaves the answers to other requests alone.\<close>

type_synonym answers =
  "(rstring + bytes) list \<times> (rstring + (rstring + bytes) list) list \<times> (rstring + u16) list \<times>
    (rstring + ws_event list) list"

definition elsewhere :: "'u net \<Rightarrow> answers" where
  "elsewhere w = (get_in w, stream_in w, post_in w, ws_connect_in w)"

lemma elsewhere_upd [simp]:
  "elsewhere (w\<lparr>ws_in := es\<rparr>) = elsewhere w" "elsewhere (w\<lparr>ws_send_in := ss\<rparr>) = elsewhere w"
  "elsewhere (log_request r w) = elsewhere w"
  by (simp_all add: elsewhere_def log_request_def)

lemma elsewhere_emit: "elsewhere (snd (ws_emit d b w)) = elsewhere w"
proof -
  have "elsewhere (snd (ws_send m w)) = elsewhere w" for m
    by (auto simp: ws_send_def Let_def split: list.split sum.split)
  then show ?thesis by (simp add: ws_emit_def ws_send_text_def split: option.split)
qed

lemma elsewhere_poll: "elsewhere (snd (ws_poll w)) = elsewhere w"
proof -
  obtain es where "ws_poll w = (fst (ws_poll w), w\<lparr>ws_in := es\<rparr>)" using ws_poll_net by blast
  then have "snd (ws_poll w) = w\<lparr>ws_in := es\<rparr>" by (metis snd_conv)
  then show ?thesis by simp
qed

fun is_websocket :: "'u transport \<Rightarrow> bool" where
  "is_websocket (Polling u) = False"
| "is_websocket (Websocket u) = True"
| "is_websocket (WebsocketSecure u) = True"

lemma over_websocket_transport:
  "is_websocket t \<Longrightarrow> transport_emit B U t = ws_emit" "is_websocket t \<Longrightarrow> transport_poll U t = ws_poll"
  by (cases t; simp add: transport_emit_def transport_poll_def)+

definition over_websocket ::
  "answers \<Rightarrow> 'u esocket \<Rightarrow> bool" where
  "over_websocket G s \<longleftrightarrow> is_websocket (es_transport s) \<and> elsewhere (es_net s) = G"

lemma over_websocket_upd [simp]:
  "over_websocket G (fire c x s) = over_websocket G s" "over_websocket G (pinged s) = over_websocket G s"
  "over_websocket G (handle_packet p s) = over_websocket G s" "over_websocket G (handle_data d s) = over_websocket G s"
  "over_websocket G (handle_close s) = over_websocket G s" "over_websocket G (s\<lparr>es_connected := b\<rparr>) = over_websocket G s"
  by (simp_all add: over_websocket_def)

lemma keeps_websocket_emit: "keeps (over_websocket G) (esocket_emit B U p)"
proof (rule keepsI)
  fix s :: "'a esocket" assume s: "over_websocket G s"
  then have "is_websocket (es_transport s)" "elsewhere (es_net s) = G" by (simp_all add: over_websocket_def)
  note ws = this
  have "elsewhere (es_net (snd (on_net (transport_emit B U (es_transport s) d b) s))) = G" for d b
    using elsewhere_emit [of d b "es_net s"] ws
    by (cases "ws_emit d b (es_net s)") (simp add: on_net_def over_websocket_transport)
  moreover have "es_transport (snd (on_net m s)) = es_transport s" for m :: "('a net, eerror, unit) proc"
    by (simp add: on_net_def split: prod.split)
  ultimately have "over_websocket G (snd (on_net (transport_emit B U (es_transport s) d b) s))" for d b
    using ws(1) by (simp add: over_websocket_def)
  with s show "over_websocket G (snd (esocket_emit B U p s))"
    unfolding esocket_emit_def Let_def
    by (auto split: prod.split outcome.split) (metis snd_conv)+
qed

lemma over_websocket_poll:
  assumes "over_websocket G s"
  shows "over_websocket G (snd (esocket_poll B U s))"
proof -
  have "elsewhere (es_net (snd (esocket_poll B U s))) = G"
    by (rule esocket_poll_net_rule [where P = "\<lambda>v. elsewhere v = G"])
      (use assms in \<open>simp_all add: over_websocket_def over_websocket_transport elsewhere_poll\<close>)
  with assms show ?thesis by (simp add: over_websocket_def esocket_poll_frame)
qed

lemma keeps_websocket_next: "keeps (over_websocket G) (eclient_next B U)"
proof (rule keepsI)
  fix s :: "'a esocket" assume "over_websocket G s"
  then have poll: "over_websocket G (snd (esocket_poll B U s))" by (rule over_websocket_poll)
  have react: "over_websocket G (snd (eclient_react B U p t))" if "over_websocket G t" for p t
    using that keepsD [OF keeps_websocket_emit, of G "pinged t" B U "epacket EPong []"]
    by (cases "e_id p") (simp_all add: eclient_react_def)
  have "over_websocket G (snd (eclient_poll B U s))"
  proof -
    obtain r s1 where r: "esocket_poll B U s = (r, s1)" by fastforce
    with poll have "over_websocket G s1" by simp
    with react r show ?thesis
      by (auto simp: eclient_poll_step split: prod.split outcome.split option.split)
        (metis over_websocket_upd(3) snd_conv)+
  qed
  then show "over_websocket G (snd (eclient_next B U s))"
    by (auto simp: eclient_next_def split: prod.splits outcome.splits option.splits)
qed

lemma keeps_websocket_other: "keeps (over_websocket G) (next_other B U)"
proof (rule keepsI)
  fix s :: "'a esocket" assume "over_websocket G s"
  then show "over_websocket G (snd (next_other B U s))"
  proof (induction B U s rule: next_other.induct)
    case (1 B U s)
    obtain r s1 where r: "eclient_next B U s = (r, s1)" by fastforce
    with keepsD [OF keeps_websocket_next "1.prems", of B U] have "over_websocket G s1" by simp
    with "1.IH" r show ?case
      by (subst next_other.simps) (auto split: outcome.split option.split sum.split)
  qed
qed

lemma keeps_websocket_client:
  "keeps (over_websocket G) (eclient_connect B U)" "keeps (over_websocket G) (eclient_close B U)"
  "keeps (over_websocket G) (eclient_emit B U p)"
proof -
  show "keeps (over_websocket G) (eclient_connect B U)"
    by (rule keepsI) (simp add: eclient_connect_def esocket_connect_def keepsD [OF keeps_websocket_emit])
  show "keeps (over_websocket G) (eclient_close B U)"
    unfolding eclient_close_def esocket_disconnect_def
    by (intro keeps_seq keeps_ignore keeps_websocket_emit) (simp_all add: keeps_def)
  show "keeps (over_websocket G) (eclient_emit B U p)" by (simp add: eclient_emit_def keeps_websocket_emit)
qed

lemma keeps_unwrapped: "keeps I m \<Longrightarrow> keeps I (unwrapped m)"
proof (rule keepsI)
  fix s assume "keeps I m" "I s"
  then have "I (snd (m s))" by (rule keepsD)
  then show "I (snd (unwrapped m s))" by (auto simp: unwrapped_def split: prod.split outcome.split)
qed

lemma keeps_websocket_test: "keeps (over_websocket G) (test_connection B U)"
  unfolding test_connection_def assert_def
  by (intro keeps_seq keeps_give keeps_unwrapped keeps_websocket_other keeps_websocket_client)

end
