(* ===== verification/Server_Test_Runs.thy ===== *)
theory Server_Test_Runs
  imports Server_Tests
begin

text \<open>
  The tests of \<open>engineio/src/client/client.rs\<close> as a whole: they build one client or several and run
  \<open>Server_Tests\<close> on each, all over the network of the test. The addresses of the servers are what the
  environment variables hold. The test of the TLS connector is left out where the builder leaves it out.
\<close>

section \<open>The tests\<close>

text \<open>\<open>engine_io_server\<close> and its two variants, after the variable was read.\<close>

definition parse_url :: "'u elib \<Rightarrow> rstring \<Rightarrow> ('u net, eerror, 'u) proc" where
  "parse_url E s = give (case url_parse (lib_url E) s of Inl e \<Rightarrow> Err (EInvalidUrl e) | Inr u \<Rightarrow> Ok u)"

definition set_scheme_unwrapped :: "'u elib \<Rightarrow> rstring \<Rightarrow> 'u \<Rightarrow> ('u net, eerror, 'u) proc" where
  "set_scheme_unwrapped E scheme url =
     give (case url_set_scheme (lib_url E) url scheme of None \<Rightarrow> Panic | Some u \<Rightarrow> Ok u)"

definition test_builder :: "'u elib \<Rightarrow> 'u \<Rightarrow> 'u ebuilder" where
  "test_builder E url =
     ebuilder_on_error (ebuilder_on_close (ebuilder_on_data (ebuilder_on_packet (ebuilder_on_open
       (ebuilder_new E url)))))"

definition run_test :: "'u elib \<Rightarrow> 'u esocket \<Rightarrow> ('u net, eerror, unit) proc" where
  "run_test E = on_client (test_connection (lib_b64 E) (lib_url E))"

definition test_client_cloneable :: "'u elib \<Rightarrow> rstring \<Rightarrow> ('u net, eerror, unit) proc" where
  "test_client_cloneable E server =
     seq (parse_url E server) (\<lambda>url.
     seq (build E (test_builder E url)) (\<lambda>sut.
     on_client (cloned_client (lib_b64 E) (lib_url E)) sut))"

definition test_connection_long :: "'u elib \<Rightarrow> rstring \<Rightarrow> ('u net, eerror, unit) proc" where
  "test_connection_long E server =
     seq (parse_url E server) (\<lambda>url.
     seq (build E (test_builder E url)) (\<lambda>socket.
     on_client (long_lived (lib_b64 E) (lib_url E)) socket))"

text \<open>The calls of \<open>test_illegal_actions\<close> on its client.\<close>

definition illegal_then_legal :: "base64 \<Rightarrow> 'u urllib \<Rightarrow> ('u esocket, eerror, unit) proc" where
  "illegal_then_legal B U =
     seq (is_err (eclient_emit B U (epacket EClose []))) (\<lambda>refused.
     seq (assert refused) (\<lambda>_.
     seq (eclient_connect B U) (\<lambda>_.
     seq (is_err (eclient_poll B U)) (\<lambda>failed.
     assert (\<not> failed)))))"

definition test_illegal_actions :: "'u elib \<Rightarrow> rstring \<Rightarrow> ('u net, eerror, unit) proc" where
  "test_illegal_actions E server =
     seq (parse_url E server) (\<lambda>url.
     seq (build E (test_builder E url)) (\<lambda>sut.
     seq (on_client (illegal_then_legal (lib_b64 E) (lib_url E)) sut) (\<lambda>_.
     seq (unwrapped (parse_url E (lit ''fake://fake.fake''))) (\<lambda>fake.
     seq (is_err (build_websocket E (test_builder E fake))) assert))))"

definition test_connection_polling :: "'u elib \<Rightarrow> rstring \<Rightarrow> ('u net, eerror, unit) proc" where
  "test_connection_polling E server =
     seq (parse_url E server) (\<lambda>url.
     seq (build_polling E (test_builder E url)) (run_test E))"

definition test_connection_dynamic :: "'u elib \<Rightarrow> rstring \<Rightarrow> rstring \<Rightarrow> ('u net, eerror, unit) proc" where
  "test_connection_dynamic E server polling_server =
     seq (parse_url E server) (\<lambda>url.
     seq (build E (test_builder E url)) (\<lambda>socket.
     seq (run_test E socket) (\<lambda>_.
     seq (parse_url E polling_server) (\<lambda>url.
     seq (build E (test_builder E url)) (run_test E)))))"

definition test_connection_dynamic_secure :: "'u elib \<Rightarrow> rstring \<Rightarrow> ('u net, eerror, unit) proc" where
  "test_connection_dynamic_secure E secure_server =
     seq (parse_url E secure_server) (\<lambda>url.
     seq (build E (test_builder E url)) (run_test E))"

definition test_connection_fallback :: "'u elib \<Rightarrow> rstring \<Rightarrow> rstring \<Rightarrow> ('u net, eerror, unit) proc" where
  "test_connection_fallback E server polling_server =
     seq (parse_url E server) (\<lambda>url.
     seq (build_with_fallback E (test_builder E url)) (\<lambda>socket.
     seq (run_test E socket) (\<lambda>_.
     seq (parse_url E polling_server) (\<lambda>url.
     seq (build_with_fallback E (test_builder E url)) (run_test E)))))"

definition test_connection_ws :: "'u elib \<Rightarrow> rstring \<Rightarrow> rstring \<Rightarrow> ('u net, eerror, unit) proc" where
  "test_connection_ws E server polling_server =
     seq (parse_url E polling_server) (\<lambda>url.
     seq (is_err (build_websocket E (test_builder E url))) (\<lambda>refused.
     seq (assert refused) (\<lambda>_.
     seq (is_err (build_websocket_with_upgrade E (test_builder E url))) (\<lambda>refused.
     seq (assert refused) (\<lambda>_.
     seq (parse_url E server) (\<lambda>url.
     seq (build_websocket E (test_builder E url)) (\<lambda>socket.
     seq (run_test E socket) (\<lambda>_.
     seq (build_websocket_with_upgrade E (test_builder E url)) (\<lambda>socket.
     seq (run_test E socket) (\<lambda>_.
     seq (set_scheme_unwrapped E (lit ''ws'') url) (\<lambda>url.
     seq (build_websocket E (test_builder E url)) (\<lambda>socket.
     seq (run_test E socket) (\<lambda>_.
     seq (is_err (build_websocket_with_upgrade E (test_builder E url))) assert)))))))))))))"

text \<open>The secure variant sends a \<open>Host\<close> header, \<open>http::header::HOST\<close> by its name.\<close>

definition host_headers :: "rstring \<Rightarrow> header_map" where
  "host_headers host =
     snd (header_map_insert (header_name_of_http (lit ''host'')) (header_value_of_string host) header_map_new)"

definition test_connection_wss ::
  "'u elib \<Rightarrow> rstring \<Rightarrow> rstring \<Rightarrow> rstring \<Rightarrow> ('u net, eerror, unit) proc" where
  "test_connection_wss E secure_server polling_server host =
     seq (parse_url E polling_server) (\<lambda>url.
     seq (is_err (build_websocket_with_upgrade E (test_builder E url))) (\<lambda>refused.
     seq (assert refused) (\<lambda>_.
     seq (parse_url E secure_server) (\<lambda>url.
     let builder = ebuilder_headers (host_headers host) (test_builder E url) in
     seq (build_websocket_with_upgrade E builder) (\<lambda>socket.
     seq (run_test E socket) (\<lambda>_.
     seq (build_websocket E builder) (\<lambda>socket.
     seq (run_test E socket) (\<lambda>_.
     seq (set_scheme_unwrapped E (lit ''wss'') url) (\<lambda>url.
     let builder = ebuilder_headers (host_headers host) (test_builder E url) in
     seq (build_websocket E builder) (\<lambda>socket.
     seq (run_test E socket) (\<lambda>_.
     seq (is_err (build_websocket_with_upgrade E builder)) assert)))))))))))"

text \<open>\<open>expect_err\<close> panics on a result that is not an error; the \<open>matches!\<close> after it binds a
  fresh \<open>_error\<close> and holds of everything.\<close>

definition test_open_invariants :: "'u elib \<Rightarrow> rstring \<Rightarrow> rstring \<Rightarrow> ('u net, eerror, unit) proc" where
  "test_open_invariants E server host =
     seq (parse_url E server) (\<lambda>url.
     seq (is_err (parse_url E (lit ''this is illegal''))) (\<lambda>refused.
     seq (assert refused) (\<lambda>_.
     seq (unwrapped (parse_url E (lit ''file:///tmp/foo''))) (\<lambda>invalid.
     seq (is_err (build E (test_builder E invalid))) (\<lambda>refused.
     seq (assert refused) (\<lambda>_.
     seq (build E (test_builder E url)) (\<lambda>sut.
     seq (on_client (is_err (eclient_emit (lib_b64 E) (lib_url E) (epacket EClose []))) sut) (\<lambda>refused.
     seq (assert refused) (\<lambda>_.
     seq (build E (test_builder E url)) (\<lambda>_.
     seq (build E (ebuilder_headers (host_headers host) (test_builder E url))) (\<lambda>_.
     give (Ok ()))))))))))))"

section \<open>Building over a network that answers\<close>

text \<open>What is left of the answers elsewhere, and that the next \<open>n\<close> frames are taken.\<close>

definition answering ::
  "answers \<Rightarrow> nat \<Rightarrow> 'u net \<Rightarrow> bool" where
  "answering R n w \<longleftrightarrow> elsewhere w = R \<and> (\<exists>rest. ws_send_in w = replicate n (Inr ()) @ rest)"

text \<open>The body is a packet whose data is the handshake.\<close>

definition greets :: "'u elib \<Rightarrow> bytes \<Rightarrow> handshake \<Rightarrow> bool" where
  "greets E body hs \<longleftrightarrow>
     (\<exists>p. epacket_try_from (lib_b64 E) body = Inr p \<and> lib_handshake E (e_data p) = Inr hs)"

text \<open>The \<open>url\<close> crate changes this scheme to the one of the websocket.\<close>

definition websocket_scheme :: "'u urllib \<Rightarrow> rstring \<Rightarrow> rstring \<Rightarrow> bool" where
  "websocket_scheme U s scheme \<longleftrightarrow>
     (s \<in> {lit ''http'', lit ''ws''} \<and> scheme = lit ''ws'' \<or> s \<in> {lit ''https'', lit ''wss''} \<and> scheme = lit ''wss'') \<and>
     (\<forall>u. url_scheme U u = s \<longrightarrow> url_set_scheme U u scheme \<noteq> None)"

definition unshaken :: "'u elib \<Rightarrow> 'u ebuilder \<Rightarrow> bool" where
  "unshaken E b \<longleftrightarrow> eb_handshake b = None \<and> (\<exists>h. convert_headers (lib_http E) (eb_headers b) = Inr h)"

abbreviation shaken :: "'u elib \<Rightarrow> 'u ebuilder \<Rightarrow> handshake \<Rightarrow> 'u ebuilder" where
  "shaken E b hs \<equiv>
     b\<lparr>eb_url := url_append (lib_url E) (eb_url b) (lit ''sid'') (sid hs), eb_handshake := Some hs\<rparr>"

lemma test_builder_fields:
  "unshaken E (test_builder E url)" "url_laws (lib_url E) \<Longrightarrow> url_scheme (lib_url E) (eb_url (test_builder E url)) = url_scheme (lib_url E) url"
  by (simp_all add: unshaken_def convert_headers_def test_builder_def ebuilder_on_error_def ebuilder_on_close_def
      ebuilder_on_data_def ebuilder_on_packet_def ebuilder_on_open_def ebuilder_new_def Let_def url_laws_simps)

lemma do_handshake_ready:
  assumes "unshaken E b" "greets E body hs" "answering (Inr body # G, R) n w"
  obtains w' where "do_handshake E b w = (Ok (shaken E b hs), w')" "answering (G, R) n w'"
  using assms
  by (auto simp: unshaken_def greets_def answering_def elsewhere_def do_handshake_def unwrap_headers_def
      handshake_with_transport_def polling_new_def transport_poll_def polling_poll_def accept_handshake_def
      handshake_try_from_def log_request_def Let_def seq_def)

lemma do_handshake_down:
  assumes "unshaken E b" "answering (Inl e # G, R) n w"
  obtains w' where "do_handshake E b w = (Err (EIncompleteResponseFromReqwest e), w')" "answering (G, R) n w'"
  using assms
  by (auto simp: unshaken_def answering_def elsewhere_def do_handshake_def unwrap_headers_def
      handshake_with_transport_def polling_new_def transport_poll_def polling_poll_def log_request_def Let_def seq_def)

lemma ws_open_ready:
  assumes "url_set_scheme U (url_append U base (lit ''transport'') (lit ''websocket'')) scheme = Some url"
    "answering (G, A, P, Inr es # C) n w"
  obtains w' where "ws_open U scheme base w = (Ok url, w')" "answering (G, A, P, C) n w'" "ws_in w' = es"
  using assms by (auto simp: ws_open_def answering_def elsewhere_def log_request_def Let_def simp del: lit_simps)

lemma ws_open_refused:
  assumes "url_set_scheme U (url_append U base (lit ''transport'') (lit ''websocket'')) scheme = Some url"
    "answering (G, A, P, Inl e # C) n w"
  obtains w' where "ws_open U scheme base w = (Err (EWebsocketError e), w')" "answering (G, A, P, C) n w'"
  using assms by (auto simp: ws_open_def answering_def elsewhere_def log_request_def Let_def simp del: lit_simps)

lemma ws_send_ready:
  assumes "answering R (Suc n) w"
  obtains w' where "ws_send m w = (Ok (), w')" "answering R n w'" "ws_in w' = ws_in w"
  using assms by (auto simp: answering_def elsewhere_def ws_send_def log_request_def Let_def)

lemma ws_upgrade_ready:
  assumes "answering R (Suc (Suc n)) w" "ws_in w = WsMsg (WsText (lit ''3probe'')) # es"
  obtains w' where "ws_upgrade B w = (Ok (), w')" "answering R n w'" "ws_in w' = es"
proof -
  from assms(1) obtain w1 where w1: "ws_send (WsText (lit ''2probe'')) w = (Ok (), w1)" "answering R (Suc n) w1"
    "ws_in w1 = ws_in w" by (rule ws_send_ready)
  let ?w2 = "w1\<lparr>ws_in := es\<rparr>"
  have "answering R (Suc n) ?w2" using w1(2) by (simp add: answering_def)
  then obtain w' where w': "ws_send (WsText (lit ''5'')) ?w2 = (Ok (), w')" "answering R n w'" "ws_in w' = ws_in ?w2"
    by (rule ws_send_ready)
  have "ws_next w1 = (Ok (Some (WsText (lit ''3probe''))), ?w2)" using w1(3) assms(2) by (simp add: ws_next_def)
  moreover have "into_data (WsText (lit ''3probe'')) = ascii ''3probe''" by simp
  ultimately have "ws_upgrade B w = (Ok (), w')"
    unfolding ws_upgrade_eq using w1(1) w'(1) by (simp del: lit_simps ascii_simps)
  with w'(2,3) that show thesis by simp
qed

text \<open>The two arms of \<open>build_websocket\<close>, of either client, differ in the scheme and in the transport.\<close>

lemma opens_by_scheme:
  fixes finish_ws :: "'u transport \<Rightarrow> ('u net, eerror, 'a) proc"
  assumes "url_laws U" "websocket_scheme U (url_scheme U u) scheme"
  obtains url t where
    "url_set_scheme U (url_append U u (lit ''transport'') (lit ''websocket'')) scheme = Some url" "is_websocket t"
    "\<And>w. (let s = url_scheme U u in
       if s = lit ''http'' \<or> s = lit ''ws'' then seq (websocket_new U u) finish_ws
       else if s = lit ''https'' \<or> s = lit ''wss'' then seq (websocket_secure_new U u) finish_ws
       else give (Err (EInvalidUrlScheme s))) w = seq (ws_open U scheme u) (\<lambda>_. finish_ws t) w"
proof -
  have "url_set_scheme U (url_append U u (lit ''transport'') (lit ''websocket'')) scheme \<noteq> None"
    using assms(2) url_laws_simps(2) [OF assms(1)] unfolding websocket_scheme_def by blast
  then obtain url where url: "url_set_scheme U (url_append U u (lit ''transport'') (lit ''websocket'')) scheme = Some url"
    by blast
  have opened: "ws_open U scheme u w = (Ok x, w1) \<Longrightarrow> x = url" for w x w1
    using url by (auto simp: ws_open_def Let_def split: list.splits sum.splits simp del: lit_simps)
  have seq_mk: "seq (seq (ws_open U scheme u) (\<lambda>url. give (Ok (mk url)))) finish_ws w
    = seq (ws_open U scheme u) (\<lambda>_. finish_ws (mk url)) w" for mk w
    using opened [of w] by (auto simp: seq_def split: prod.split outcome.split)
  show thesis
  proof (cases "url_scheme U u \<in> {lit ''http'', lit ''ws''}")
    case True
    then have "scheme = lit ''ws''" using assms(2) by (auto simp: websocket_scheme_def)
    with True seq_mk [of Websocket] show thesis
      by (intro that [OF url, of "Websocket url"]) (simp_all add: websocket_new_def Let_def del: lit_simps)
  next
    case False
    then have "scheme = lit ''wss''" "url_scheme U u \<in> {lit ''https'', lit ''wss''}"
      using assms(2) by (auto simp: websocket_scheme_def)
    with False seq_mk [of WebsocketSecure] show thesis
      by (intro that [OF url, of "WebsocketSecure url"]) (simp_all add: websocket_secure_new_def Let_def del: lit_simps)
  qed
qed

lemma build_websocket_opens:
  assumes "url_laws (lib_url E)" "websocket_scheme (lib_url E) (url_scheme (lib_url E) (eb_url b)) scheme"
    "convert_headers (lib_http E) (eb_headers b) = Inr h"
  obtains url t where
    "url_set_scheme (lib_url E) (url_append (lib_url E) (eb_url b) (lit ''transport'') (lit ''websocket'')) scheme = Some url"
    "is_websocket t"
    "\<And>w. build_websocket E b w = seq (ws_open (lib_url E) scheme (eb_url b)) (\<lambda>_. finish_websocket E b t) w"
proof -
  have headers: "try_headers E b w = (Ok (), w)" for w :: "'a net" using assms(3) by (simp add: try_headers_def)
  show thesis
    by (rule opens_by_scheme [OF assms(1,2), where finish_ws = "finish_websocket E b"])
      (rule that; simp add: build_websocket_def headers seq_simps(1) [of "try_headers E b"] del: lit_simps)
qed

text \<open>What a built websocket client starts from.\<close>

definition fresh_websocket ::
  "base64 \<Rightarrow> answers \<Rightarrow> nat \<Rightarrow>
     (eerror + epacket) list \<Rightarrow> 'u esocket \<Rightarrow> bool" where
  "fresh_websocket B R n items s \<longleftrightarrow>
     is_websocket (es_transport s) \<and> answering R n (es_net s) \<and> backlog B s = items \<and> \<not> es_connected s"

lemma websocket_items: "is_websocket t \<Longrightarrow> net_items B t w = concat (map (ws_items B) (ws_in w))"
  by (cases t) (simp_all add: net_items_def)

lemma fresh_websocket_new:
  "is_websocket t \<Longrightarrow> answering R n w \<Longrightarrow> ws_in w = es \<Longrightarrow>
     fresh_websocket B R n (concat (map (ws_items B) es)) (esocket_new t w hs cbs)"
  by (simp add: fresh_websocket_def backlog_def websocket_items)

lemma build_upgraded_websocket:
  assumes "url_laws (lib_url E)" "websocket_scheme (lib_url E) (url_scheme (lib_url E) (eb_url b)) scheme"
    "convert_headers (lib_http E) (eb_headers b) = Inr h" "eb_handshake b = Some hs"
    "answering (G, A, P, Inr (WsMsg (WsText (lit ''3probe'')) # es) # C) (Suc (Suc n)) w"
  obtains s w' where "build_websocket E b w = (Ok s, w')" "es_net s = w'"
    "fresh_websocket (lib_b64 E) (G, A, P, C) n (concat (map (ws_items (lib_b64 E)) es)) s"
proof -
  obtain url t where url:
    "url_set_scheme (lib_url E) (url_append (lib_url E) (eb_url b) (lit ''transport'') (lit ''websocket'')) scheme = Some url"
    and t: "is_websocket t"
    and b: "build_websocket E b w = seq (ws_open (lib_url E) scheme (eb_url b)) (\<lambda>_. finish_websocket E b t) w"
    using build_websocket_opens [OF assms(1-3)] by metis
  from url assms(5) obtain w1 where w1: "ws_open (lib_url E) scheme (eb_url b) w = (Ok url, w1)"
    "answering (G, A, P, C) (Suc (Suc n)) w1" "ws_in w1 = WsMsg (WsText (lit ''3probe'')) # es" by (rule ws_open_ready)
  from w1(2,3) obtain w' where w': "ws_upgrade (lib_b64 E) w1 = (Ok (), w')" "answering (G, A, P, C) n w'" "ws_in w' = es"
    by (rule ws_upgrade_ready)
  have "build_websocket E b w = (Ok (esocket_new t w' hs (eb_callbacks b)), w')"
    using b w1(1) w'(1) assms(4) by (simp add: finish_websocket_def make_client_def del: lit_simps)
  with fresh_websocket_new [OF t w'(2,3)] that show thesis by (metis esocket_new_fields(2))
qed

text \<open>Without a handshake so far, the first frame is the handshake.\<close>

lemma build_direct_websocket:
  assumes "url_laws (lib_url E)" "websocket_scheme (lib_url E) (url_scheme (lib_url E) (eb_url b)) scheme"
    "unshaken E b" "answering (G, A, P, Inr (WsMsg (WsText m) # es) # C) n w" "greets E (utf8 m) hs"
  obtains s w' where "build_websocket E b w = (Ok s, w')" "es_net s = w'"
    "fresh_websocket (lib_b64 E) (G, A, P, C) n (concat (map (ws_items (lib_b64 E)) es)) s"
proof -
  obtain h where h: "convert_headers (lib_http E) (eb_headers b) = Inr h" "eb_handshake b = None"
    using assms(3) by (auto simp: unshaken_def)
  obtain url t where url:
    "url_set_scheme (lib_url E) (url_append (lib_url E) (eb_url b) (lit ''transport'') (lit ''websocket'')) scheme = Some url"
    and t: "is_websocket t"
    and b: "build_websocket E b w = seq (ws_open (lib_url E) scheme (eb_url b)) (\<lambda>_. finish_websocket E b t) w"
    using build_websocket_opens [OF assms(1,2) h(1)] by metis
  from url assms(4) obtain w1 where w1: "ws_open (lib_url E) scheme (eb_url b) w = (Ok url, w1)"
    "answering (G, A, P, C) n w1" "ws_in w1 = WsMsg (WsText m) # es" by (rule ws_open_ready)
  let ?w' = "w1\<lparr>ws_in := es\<rparr>"
  have "transport_poll (lib_url E) t w1 = (Ok (utf8 m), ?w')"
    using w1(3) by (simp add: over_websocket_transport [OF t] ws_poll_def ws_poll_next_def)
  then have "handshake_with_transport E t b w1 = (Ok (shaken E b hs), ?w')"
    using assms(5) h(2)
    by (auto simp: handshake_with_transport_def greets_def accept_handshake_def handshake_try_from_def)
  then have "build_websocket E b w = (Ok (esocket_new t ?w' hs (eb_callbacks b)), ?w')"
    using b w1(1) h(2) by (simp add: finish_websocket_def make_client_def del: lit_simps)
  moreover have "fresh_websocket (lib_b64 E) (G, A, P, C) n (concat (map (ws_items (lib_b64 E)) es))
      (esocket_new t ?w' hs (eb_callbacks b))"
    by (rule fresh_websocket_new [OF t]) (use w1(2) in \<open>simp_all add: answering_def\<close>)
  ultimately show thesis by (intro that [of "esocket_new t ?w' hs (eb_callbacks b)" ?w']) simp_all
qed

text \<open>Opening with the handshake of a server that offers the upgrade: \<open>build\<close>, \<open>build_with_fallback\<close> and
  \<open>build_websocket_with_upgrade\<close> do the same.\<close>

lemma build_over_websocket:
  assumes "url_laws (lib_url E)" "websocket_scheme (lib_url E) (url_scheme (lib_url E) (eb_url b)) scheme"
    "unshaken E b" "greets E body hs" "offers_websocket hs"
    "answering (Inr body # G, A, P, Inr (WsMsg (WsText (lit ''3probe'')) # es) # C) (Suc (Suc n)) w"
  obtains s w' where "build E b w = (Ok s, w')" "build_with_fallback E b w = (Ok s, w')"
    "build_websocket_with_upgrade E b w = (Ok s, w')" "es_net s = w'"
    "fresh_websocket (lib_b64 E) (G, A, P, C) n (concat (map (ws_items (lib_b64 E)) es)) s"
proof -
  from assms(3,4,6) obtain w1 where d: "do_handshake E b w = (Ok (shaken E b hs), w1)"
    and w1: "answering (G, A, P, Inr (WsMsg (WsText (lit ''3probe'')) # es) # C) (Suc (Suc n)) w1"
    by (rule do_handshake_ready)
  obtain h where "convert_headers (lib_http E) (eb_headers (shaken E b hs)) = Inr h"
    using assms(3) by (auto simp: unshaken_def)
  moreover have "eb_handshake (shaken E b hs) = Some hs" by simp
  note hs = this
  moreover have "websocket_scheme (lib_url E) (url_scheme (lib_url E) (eb_url (shaken E b hs))) scheme"
    using assms(2) by (simp add: url_laws_simps [OF assms(1)] del: lit_simps)
  ultimately obtain s w' where s: "build_websocket E (shaken E b hs) w1 = (Ok s, w')" "es_net s = w'"
    "fresh_websocket (lib_b64 E) (G, A, P, C) n (concat (map (ws_items (lib_b64 E)) es)) s"
    using build_upgraded_websocket [OF assms(1) _ _ _ w1] by metis
  have "websocket_upgrade (shaken E b hs) w1 = (Ok True, w1)"
    using assms(5) by (simp add: websocket_upgrade_def)
  with d s(1) have "build_websocket_with_upgrade E b w = (Ok s, w')"
    by (simp add: build_websocket_with_upgrade_def)
  moreover have "build E b w = (Ok s, w')"
    using build_upgrade_run [OF d hs assms(5)] s(1) by simp
  ultimately show thesis using that s(2,3) by (simp add: build_with_fallback_def)
qed

lemma build_over_polling:
  assumes "unshaken E b" "greets E body hs" "answering (Inr body # G, A, P, C) n w"
  obtains s w' where "build_polling E b w = (Ok s, w')" "\<not> offers_websocket hs \<longrightarrow> build E b w = (Ok s, w')"
    "\<not> offers_websocket hs \<longrightarrow> build_websocket_with_upgrade E b w = (Err EIllegalWebsocketUpgrade, w')"
    "es_net s = w'" "\<not> es_connected s" "backlog (lib_b64 E) s = concat (map (get_items (lib_b64 E)) G)"
    "P = replicate m (Inr 200) @ P' \<longrightarrow> takes m (es_transport s) w'"
proof -
  from assms obtain w' where d: "do_handshake E b w = (Ok (shaken E b hs), w')" and w': "answering (G, A, P, C) n w'"
    by (rule do_handshake_ready)
  let ?s = "esocket_new (polling_new (lib_url E) (eb_url (shaken E b hs))) w' hs (eb_callbacks b)"
  have headers: "unwrap_headers E (shaken E b hs) w' = (Ok (), w')"
    using assms(1) by (auto simp: unwrap_headers_def unshaken_def)
  have made: "make_client (polling_new (lib_url E) (eb_url (shaken E b hs))) (shaken E b hs) w' = (Ok ?s, w')"
    by (simp add: make_client_def del: lit_simps)
  have again: "do_handshake E (shaken E b hs) w' = (Ok (shaken E b hs), w')" by (simp add: do_handshake_def del: lit_simps)
  have b: "build_polling E b w = (Ok ?s, w')" "build_polling E (shaken E b hs) w' = (Ok ?s, w')"
    unfolding build_polling_def seq_simps(1) [of "do_handshake E b", OF d]
      seq_simps(1) [of "do_handshake E (shaken E b hs)", OF again]
      seq_simps(1) [of "unwrap_headers E (shaken E b hs)", OF headers]
    by (rule made)+
  have up: "websocket_upgrade (shaken E b hs) w' = (Ok (offers_websocket hs), w')"
    by (simp add: websocket_upgrade_def)
  show thesis
  proof (rule that [OF b(1)])
    show "\<not> offers_websocket hs \<longrightarrow> build E b w = (Ok ?s, w')"
      "\<not> offers_websocket hs \<longrightarrow> build_websocket_with_upgrade E b w = (Err EIllegalWebsocketUpgrade, w')"
      unfolding build_def build_websocket_with_upgrade_def seq_simps(1) [of "do_handshake E b", OF d]
        seq_simps(1) [of "websocket_upgrade (shaken E b hs)", OF up] using b(2) by simp_all
    show "backlog (lib_b64 E) ?s = concat (map (get_items (lib_b64 E)) G)"
      "P = replicate m (Inr 200) @ P' \<longrightarrow> takes m (es_transport ?s) w'"
      using w' by (simp_all add: backlog_def net_items_def polling_new_def answering_def elsewhere_def takes_def)
  qed simp_all
qed

section \<open>Sessions\<close>

lemma on_client_net: "es_net s = w \<Longrightarrow> m s = (r, s') \<Longrightarrow> on_client m s w = (r, es_net s')"
  by (auto simp: on_client_def)

lemma ready_takes: "is_websocket t \<Longrightarrow> answering R n w \<Longrightarrow> takes n t w"
  by (cases t) (auto simp: answering_def takes_def)

lemma session_over_websocket:
  assumes "fresh_websocket (lib_b64 E) R (length items + Suc n) items s" "answers_of_server items" "es_net s = w"
  obtains w' where "run_test E s w = (Ok (), w')" "answering R n w'"
proof -
  let ?B = "lib_b64 E"
  have s: "is_websocket (es_transport s)" "answering R (length items + Suc n) (es_net s)" "backlog ?B s = items"
    using assms(1) by (simp_all add: fresh_websocket_def)
  have "answers_of_server (backlog ?B s)" "takes (length (backlog ?B s) + Suc n) (es_transport s) (es_net s)"
    using assms(2) s(3) ready_takes [OF s(1,2)] by simp_all
  then obtain s' where s': "test_connection ?B (lib_url E) s = (Ok (), s')" "takes n (es_transport s') (es_net s')"
    by (rule connection_runs)
  have "over_websocket R s" using s(1,2) by (simp add: over_websocket_def answering_def)
  from keepsD [OF keeps_websocket_test this, of ?B "lib_url E"] have "over_websocket R s'" by (simp add: s'(1))
  with s'(2) have "answering R n (es_net s')"
    by (cases "es_transport s'") (auto simp: over_websocket_def answering_def takes_def)
  with on_client_net [where m = "test_connection ?B (lib_url E)", OF assms(3) s'(1)] that show thesis by (simp add: run_test_def)
qed

lemma session_over_polling:
  assumes "answers_of_server (backlog (lib_b64 E) s)"
    "takes (length (backlog (lib_b64 E) s) + Suc 0) (es_transport s) w" "es_net s = w"
  obtains w' where "run_test E s w = (Ok (), w')"
proof -
  from assms(2,3) have "takes (length (backlog (lib_b64 E) s) + Suc 0) (es_transport s) (es_net s)" by simp
  with assms(1) obtain s' where "test_connection (lib_b64 E) (lib_url E) s = (Ok (), s')" by (rule connection_runs)
  from on_client_net [where m = "test_connection (lib_b64 E) (lib_url E)", OF assms(3) this] that show thesis by (simp add: run_test_def)
qed

text \<open>A server, with or without websockets, that sends \<open>items\<close> after the handshake and takes \<open>n\<close> messages.\<close>

definition serves :: "'u elib \<Rightarrow> rstring \<Rightarrow> (eerror + epacket) list \<Rightarrow> nat \<Rightarrow> 'u net \<Rightarrow> bool" where
  "serves E scheme items n w \<longleftrightarrow>
     (\<exists>body hs G A P C m. greets E body hs \<and> answering (Inr body # G, A, P, C) m w \<and>
        (if offers_websocket hs
         then m = Suc (Suc n) \<and> (\<exists>es C' ws. C = Inr (WsMsg (WsText (lit ''3probe'')) # es) # C' \<and>
           items = concat (map (ws_items (lib_b64 E)) es) \<and> websocket_scheme (lib_url E) scheme ws)
         else (\<exists>P'. P = replicate n (Inr 200) @ P') \<and> items = concat (map (get_items (lib_b64 E)) G)))"

lemma build_served:
  assumes "url_laws (lib_url E)" "unshaken E b" "serves E (url_scheme (lib_url E) (eb_url b)) items n w"
  obtains s w' where "build E b w = (Ok s, w')" "es_net s = w'" "backlog (lib_b64 E) s = items"
    "takes n (es_transport s) w'" "\<not> es_connected s"
proof -
  obtain body hs G A P C m where hs: "greets E body hs" and w: "answering (Inr body # G, A, P, C) m w"
    and kind: "if offers_websocket hs
         then m = Suc (Suc n) \<and> (\<exists>es C' ws. C = Inr (WsMsg (WsText (lit ''3probe'')) # es) # C' \<and>
           items = concat (map (ws_items (lib_b64 E)) es) \<and>
           websocket_scheme (lib_url E) (url_scheme (lib_url E) (eb_url b)) ws)
         else (\<exists>P'. P = replicate n (Inr 200) @ P') \<and> items = concat (map (get_items (lib_b64 E)) G)"
    using assms(3) by (auto simp: serves_def simp del: lit_simps)
  show thesis
  proof (cases "offers_websocket hs")
    case True
    with kind obtain es C' ws where k: "m = Suc (Suc n)" "C = Inr (WsMsg (WsText (lit ''3probe'')) # es) # C'"
      "items = concat (map (ws_items (lib_b64 E)) es)"
      "websocket_scheme (lib_url E) (url_scheme (lib_url E) (eb_url b)) ws" by auto
    obtain s w' where "build E b w = (Ok s, w')" "es_net s = w'"
      and s: "fresh_websocket (lib_b64 E) (G, A, P, C') n items s"
      using build_over_websocket [OF assms(1) k(4) assms(2) hs True w [unfolded k(1,2)]] k(3) by metis
    with that ready_takes [of "es_transport s" "(G, A, P, C')" n w'] show thesis by (simp add: fresh_websocket_def)
  next
    case False
    with kind obtain P' where k: "P = replicate n (Inr 200) @ P'" "items = concat (map (get_items (lib_b64 E)) G)" by auto
    obtain s w' where "build E b w = (Ok s, w')" "es_net s = w'" "backlog (lib_b64 E) s = items"
      "takes n (es_transport s) w'" "\<not> es_connected s"
      using build_over_polling [OF assms(2) hs w, of n P'] False k by metis
    with that show thesis by blast
  qed
qed

section \<open>The tests pass\<close>

lemma parse_url_ok: "url_parse (lib_url E) s = Inr url \<Longrightarrow> parse_url E s w = (Ok url, w)"
  by (simp add: parse_url_def)

text \<open>One client against a server of either kind.\<close>

lemma test_served:
  assumes "url_laws (lib_url E)" "url_parse (lib_url E) server = Inr url"
    "serves E (url_scheme (lib_url E) url) items n w"
    and run: "\<And>s. backlog (lib_b64 E) s = items \<Longrightarrow> takes n (es_transport s) (es_net s) \<Longrightarrow> \<not> es_connected s \<Longrightarrow>
      fst (m s) = Ok ()"
  shows "\<exists>w'. seq (parse_url E server) (\<lambda>url. seq (build E (test_builder E url)) (on_client m)) w = (Ok (), w')"
proof -
  from assms(3) have "serves E (url_scheme (lib_url E) (eb_url (test_builder E url))) items n w"
    by (simp only: test_builder_fields(2) [OF assms(1)])
  with assms(1) test_builder_fields(1) obtain s w' where s: "build E (test_builder E url) w = (Ok s, w')" "es_net s = w'"
    "backlog (lib_b64 E) s = items" "takes n (es_transport s) w'" "\<not> es_connected s" by (rule build_served)
  obtain s' where "m s = (Ok (), s')" using run [of s] s(2-5) by (metis prod.collapse)
  from on_client_net [OF s(2), of m, OF this] s(1) parse_url_ok [OF assms(2)] show ?thesis by simp
qed

theorem test_client_cloneable_passes:
  assumes "url_laws (lib_url E)" "url_parse (lib_url E) server = Inr url" "answers_of_server items"
    and "serves E (url_scheme (lib_url E) url) items (length items + Suc n) w"
  shows "\<exists>w'. test_client_cloneable E server w = (Ok (), w')"
  unfolding test_client_cloneable_def
proof (rule test_served [OF assms(1,2,4)])
  fix s :: "'a esocket"
  assume "backlog (lib_b64 E) s = items" "takes (length items + Suc n) (es_transport s) (es_net s)"
  with assms(3) show "fst (cloned_client (lib_b64 E) (lib_url E) s) = Ok ()"
    by (metis cloneable_runs fst_conv)
qed

theorem test_connection_long_passes:
  assumes "url_laws (lib_url E)" "url_parse (lib_url E) server = Inr url" "e_id p = EMessage" "e_id q = EPing"
    and "serves E (url_scheme (lib_url E) url) (Inr p # Inr q # rest) 3 w"
  shows "\<exists>w'. test_connection_long E server w = (Ok (), w')"
  unfolding test_connection_long_def
proof (rule test_served [OF assms(1,2,5)])
  fix s :: "'a esocket"
  assume "backlog (lib_b64 E) s = Inr p # Inr q # rest" "takes 3 (es_transport s) (es_net s)"
  with assms(3,4) show "fst (long_lived (lib_b64 E) (lib_url E) s) = Ok ()" by (metis long_runs fst_conv)
qed

theorem test_connection_dynamic_secure_passes:
  assumes "url_laws (lib_url E)" "url_parse (lib_url E) server = Inr url" "answers_of_server items"
    and "serves E (url_scheme (lib_url E) url) items (length items + Suc n) w"
  shows "\<exists>w'. test_connection_dynamic_secure E server w = (Ok (), w')"
  unfolding test_connection_dynamic_secure_def run_test_def
proof (rule test_served [OF assms(1,2,4)])
  fix s :: "'a esocket"
  assume "backlog (lib_b64 E) s = items" "takes (length items + Suc n) (es_transport s) (es_net s)"
  with assms(3) show "fst (test_connection (lib_b64 E) (lib_url E) s) = Ok ()"
    by (metis connection_runs fst_conv)
qed

lemma chatting_poll_ok:
  assumes "chatting B items (length items + n) s" "answers_of_server items"
  obtains p s' where "eclient_poll B U s = (Ok (Some p), s')"
proof -
  obtain ps rest where items: "items = map Inr ps @ Inr (message ''hello client'') # rest"
    "\<forall>q \<in> set ps. e_id q = EPing" using assms(2) by (auto simp: answers_of_server_def)
  have "\<exists>p s'. eclient_next B U s = (Ok (Some (Inr p)), s')"
  proof (cases ps)
    case Nil
    with assms(1) items have "chatting B (Inr (message ''hello client'') # rest) (length items + n) s" by simp
    then show ?thesis by (rule chatting_next_message [OF _ message_id]) blast
  next
    case (Cons q qs)
    with assms(1) items have
      "chatting B (Inr q # map Inr qs @ Inr (message ''hello client'') # rest) (Suc (length qs + Suc (length rest) + n)) s"
      by simp
    then show ?thesis by (rule chatting_next_ping) (use items Cons in auto)
  qed
  with that show thesis by (auto simp: eclient_next_def split: prod.splits outcome.splits option.splits)
qed

lemma illegal_then_legal_runs:
  assumes "answers_of_server (backlog B s)" "takes (length (backlog B s) + Suc n) (es_transport s) (es_net s)"
    "\<not> es_connected s"
  shows "fst (illegal_then_legal B U s) = Ok ()"
proof -
  let ?s = "fire has_error (OnError EIllegalActionBeforeOpen) s"
  have "takes (Suc (length (backlog B s) + n)) (es_transport ?s) (es_net ?s)" using assms(2) by simp
  then obtain s1 where s1: "eclient_connect B U ?s = (Ok (), s1)" "chatting B (backlog B s) (length (backlog B s) + n) s1"
    by (rule chatting_connect [OF fire_backlog(1)])
  from s1(2) assms(1) obtain p s2 where "eclient_poll B U s1 = (Ok (Some p), s2)" by (rule chatting_poll_ok)
  then have "is_err (eclient_poll B U) s1 = (Ok False, s2)" by simp
  moreover have "is_err (eclient_emit B U (epacket EClose [])) s = (Ok True, ?s)"
    using esocket_emit_closed [OF assms(3), of B U "epacket EClose []"] by (simp add: eclient_emit_def)
  ultimately show ?thesis using s1(1) by (simp add: illegal_then_legal_def seq_def [of "is_err _"])
qed

lemma build_websocket_scheme:
  assumes "url_laws (lib_url E)" "url_scheme (lib_url E) url \<notin> {lit ''http'', lit ''ws'', lit ''https'', lit ''wss''}"
  shows "is_err (build_websocket E (test_builder E url)) w = (Ok True, w)"
proof -
  obtain h where "convert_headers (lib_http E) (eb_headers (test_builder E url)) = Inr h"
    using test_builder_fields(1) [of E url] by (auto simp: unshaken_def)
  with assms have "build_websocket E (test_builder E url) w = (Err (EInvalidUrlScheme (url_scheme (lib_url E) url)), w)"
    by (simp add: build_websocket_def try_headers_def Let_def test_builder_fields(2) del: lit_simps)
  then show ?thesis by simp
qed

theorem test_illegal_actions_passes:
  assumes "url_laws (lib_url E)" "url_parse (lib_url E) server = Inr url" "answers_of_server items"
    and "serves E (url_scheme (lib_url E) url) items (length items + Suc n) w"
    and "url_parse (lib_url E) (lit ''fake://fake.fake'') = Inr fake" "url_scheme (lib_url E) fake = lit ''fake''"
  shows "\<exists>w'. test_illegal_actions E server w = (Ok (), w')"
proof -
  let ?m = "illegal_then_legal (lib_b64 E) (lib_url E)"
  obtain w1 where "seq (parse_url E server) (\<lambda>url. seq (build E (test_builder E url)) (on_client ?m)) w = (Ok (), w1)"
    using test_served [OF assms(1,2,4), of ?m] illegal_then_legal_runs [of "lib_b64 E"] assms(3) by blast
  then obtain s w2 where b: "build E (test_builder E url) w = (Ok s, w2)" "on_client ?m s w2 = (Ok (), w1)"
    by (auto simp: parse_url_ok [OF assms(2)] elim!: seq_OkE)
  have "url_scheme (lib_url E) fake \<notin> {lit ''http'', lit ''ws'', lit ''https'', lit ''wss''}"
    by (simp add: assms(6))
  from build_websocket_scheme [OF assms(1) this]
  have "is_err (build_websocket E (test_builder E fake)) w1 = (Ok True, w1)" .
  moreover have "unwrapped (parse_url E (lit ''fake://fake.fake'')) w1 = (Ok fake, w1)"
    using parse_url_ok [OF assms(5)] by (rule program_simps(2))
  ultimately show ?thesis
    using b by (simp add: test_illegal_actions_def parse_url_ok [OF assms(2)] del: lit_simps)
qed

section \<open>Tests that build several clients\<close>

text \<open>A server without websockets: one client that was built by \<open>build\<close>, \<open>build_polling\<close> or the fallback.\<close>

lemma polling_session:
  assumes "unshaken E b" "greets E body hs" "\<not> offers_websocket hs"
    "answering (Inr body # G, A, replicate (length items + Suc 0) (Inr 200) @ P, C) n w"
    "answers_of_server items" "items = concat (map (get_items (lib_b64 E)) G)"
  obtains s w1 w2 where "build E b w = (Ok s, w1)" "build_polling E b w = (Ok s, w1)"
    "build_with_fallback E b w = (Ok s, w1)" "run_test E s w1 = (Ok (), w2)"
proof -
  obtain s w1 where b: "build_polling E b w = (Ok s, w1)" "build E b w = (Ok s, w1)" and s: "es_net s = w1"
    "backlog (lib_b64 E) s = items" "takes (length items + Suc 0) (es_transport s) w1"
    using build_over_polling [OF assms(1,2,4), of "length items + Suc 0" P] assms(3,6) by metis
  have "answers_of_server (backlog (lib_b64 E) s)"
    "takes (length (backlog (lib_b64 E) s) + Suc 0) (es_transport s) w1"
    unfolding s(2) by (rule assms(5), rule s(3))
  then obtain w2 where "run_test E s w1 = (Ok (), w2)" using s(1) by (rule session_over_polling)
  with b that show thesis by (simp add: build_with_fallback_def)
qed

text \<open>One with websockets, by the upgrade or directly; what it says to others is left for them.\<close>

lemma upgraded_session:
  assumes "url_laws (lib_url E)" "websocket_scheme (lib_url E) (url_scheme (lib_url E) (eb_url b)) scheme"
    "unshaken E b" "greets E body hs" "offers_websocket hs"
    "answering (Inr body # G, A, P, Inr (WsMsg (WsText (lit ''3probe'')) # es) # C) (Suc (Suc (length items + Suc n))) w"
    "answers_of_server items" "items = concat (map (ws_items (lib_b64 E)) es)"
  obtains s w1 w2 where "build E b w = (Ok s, w1)" "build_with_fallback E b w = (Ok s, w1)"
    "build_websocket_with_upgrade E b w = (Ok s, w1)" "run_test E s w1 = (Ok (), w2)" "answering (G, A, P, C) n w2"
proof -
  from assms(1-6) obtain s w1 where b: "build E b w = (Ok s, w1)" "build_with_fallback E b w = (Ok s, w1)"
    "build_websocket_with_upgrade E b w = (Ok s, w1)" "es_net s = w1"
    and s: "fresh_websocket (lib_b64 E) (G, A, P, C) (length items + Suc n) (concat (map (ws_items (lib_b64 E)) es)) s"
    by (rule build_over_websocket)
  from s [folded assms(8)] assms(7) b(4) obtain w2 where "run_test E s w1 = (Ok (), w2)" "answering (G, A, P, C) n w2"
    by (rule session_over_websocket)
  with b that show thesis by blast
qed

lemma direct_session:
  assumes "url_laws (lib_url E)" "websocket_scheme (lib_url E) (url_scheme (lib_url E) (eb_url b)) scheme"
    "unshaken E b" "answering (G, A, P, Inr (WsMsg (WsText m) # es) # C) (length items + Suc n) w" "greets E (utf8 m) hs"
    "answers_of_server items" "items = concat (map (ws_items (lib_b64 E)) es)"
  obtains s w1 w2 where "build_websocket E b w = (Ok s, w1)" "run_test E s w1 = (Ok (), w2)" "answering (G, A, P, C) n w2"
proof -
  from assms(1-5) obtain s w1 where b: "build_websocket E b w = (Ok s, w1)" "es_net s = w1"
    and s: "fresh_websocket (lib_b64 E) (G, A, P, C) (length items + Suc n) (concat (map (ws_items (lib_b64 E)) es)) s"
    by (rule build_direct_websocket)
  from s [folded assms(7)] assms(6) b(2) obtain w2 where "run_test E s w1 = (Ok (), w2)" "answering (G, A, P, C) n w2"
    by (rule session_over_websocket)
  with b that show thesis by blast
qed

text \<open>The failures the tests expect: a websocket that is refused, an upgrade that is not offered, and a
  handshake that does not come.\<close>

lemma websocket_refused:
  assumes "url_laws (lib_url E)" "websocket_scheme (lib_url E) (url_scheme (lib_url E) (eb_url b)) scheme"
    "unshaken E b" "answering (G, A, P, Inl e # C) n w"
  obtains w' where "is_err (build_websocket E b) w = (Ok True, w')" "answering (G, A, P, C) n w'"
proof -
  obtain h where "convert_headers (lib_http E) (eb_headers b) = Inr h" using assms(3) by (auto simp: unshaken_def)
  then obtain url t where url:
    "url_set_scheme (lib_url E) (url_append (lib_url E) (eb_url b) (lit ''transport'') (lit ''websocket'')) scheme = Some url"
    and b: "build_websocket E b w = seq (ws_open (lib_url E) scheme (eb_url b)) (\<lambda>_. finish_websocket E b t) w"
    using build_websocket_opens [OF assms(1,2)] by metis
  from url assms(4) obtain w' where w': "ws_open (lib_url E) scheme (eb_url b) w = (Err (EWebsocketError e), w')"
    "answering (G, A, P, C) n w'" by (rule ws_open_refused)
  from w'(1) b have "build_websocket E b w = (Err (EWebsocketError e), w')" by simp
  with w'(2) that show thesis by simp
qed

lemma upgrade_refused:
  assumes "unshaken E b" "greets E body hs" "\<not> offers_websocket hs" "answering (Inr body # G, A, P, C) n w"
  obtains w' where "is_err (build_websocket_with_upgrade E b) w = (Ok True, w')" "answering (G, A, P, C) n w'"
proof -
  from assms(1,2,4) obtain w' where d: "do_handshake E b w = (Ok (shaken E b hs), w')" and w': "answering (G, A, P, C) n w'"
    by (rule do_handshake_ready)
  have "websocket_upgrade (shaken E b hs) w' = (Ok False, w')"
    using assms(3) by (simp add: websocket_upgrade_def)
  with d have "build_websocket_with_upgrade E b w = (Err EIllegalWebsocketUpgrade, w')"
    by (simp add: build_websocket_with_upgrade_def seq_def)
  with w' that show thesis by simp
qed

lemma handshake_refused:
  assumes "unshaken E b" "answering (Inl e # G, A, P, C) n w"
  obtains w' where "is_err (build E b) w = (Ok True, w')" "is_err (build_websocket_with_upgrade E b) w = (Ok True, w')"
    "answering (G, A, P, C) n w'"
proof -
  from assms obtain w' where "do_handshake E b w = (Err (EIncompleteResponseFromReqwest e), w')" "answering (G, A, P, C) n w'"
    by (rule do_handshake_down)
  with that show thesis by (simp add: build_def build_websocket_with_upgrade_def)
qed

text \<open>What a websocket has to say to a test, and what the bodies have.\<close>

abbreviation websocket_says :: "'u elib \<Rightarrow> ws_event list \<Rightarrow> (eerror + epacket) list" where
  "websocket_says E es \<equiv> concat (map (ws_items (lib_b64 E)) es)"

abbreviation bodies_say :: "'u elib \<Rightarrow> (rstring + bytes) list \<Rightarrow> (eerror + epacket) list" where
  "bodies_say E G \<equiv> concat (map (get_items (lib_b64 E)) G)"

theorem test_connection_polling_passes:
  assumes "url_parse (lib_url E) server = Inr url" "greets E body hs" "answers_of_server (bodies_say E G)"
    and "answering (Inr body # G, A, replicate (Suc (length (bodies_say E G))) (Inr 200) @ P, C) n w"
  shows "\<exists>w'. test_connection_polling E server w = (Ok (), w')"
proof -
  let ?b = "test_builder E url" and ?items = "bodies_say E G"
  obtain s w1 where b: "build_polling E ?b w = (Ok s, w1)" and s: "es_net s = w1" "backlog (lib_b64 E) s = ?items"
    "takes (Suc (length ?items)) (es_transport s) w1"
    using build_over_polling [OF test_builder_fields(1) assms(2,4)] by metis
  have "answers_of_server (backlog (lib_b64 E) s)"
    "takes (length (backlog (lib_b64 E) s) + Suc 0) (es_transport s) w1"
    using assms(3) s(3) by (simp_all add: s(2))
  then obtain w2 where "run_test E s w1 = (Ok (), w2)" using s(1) by (rule session_over_polling)
  with b show ?thesis by (simp add: test_connection_polling_def parse_url_ok [OF assms(1)])
qed

text \<open>A server with websockets, then one without.\<close>

theorem test_connection_dynamic_passes:
  assumes "url_laws (lib_url E)" "url_parse (lib_url E) server = Inr url" "url_parse (lib_url E) polling_server = Inr url'"
    and "websocket_scheme (lib_url E) (url_scheme (lib_url E) url) scheme"
    and "greets E body hs" "offers_websocket hs" "greets E body' hs'" "\<not> offers_websocket hs'"
    and "answers_of_server (websocket_says E es)" "answers_of_server (bodies_say E G)"
    and "answering (Inr body # Inr body' # G, A, replicate (length (bodies_say E G) + Suc 0) (Inr 200) @ P,
           Inr (WsMsg (WsText (lit ''3probe'')) # es) # C) (Suc (Suc (length (websocket_says E es) + Suc n))) w"
  shows "\<exists>w'. test_connection_dynamic E server polling_server w = (Ok (), w')"
    and "\<exists>w'. test_connection_fallback E server polling_server w = (Ok (), w')"
proof -
  let ?b = "test_builder E url" and ?b' = "test_builder E url'"
  have "websocket_scheme (lib_url E) (url_scheme (lib_url E) (eb_url ?b)) scheme"
    using assms(4) by (simp only: test_builder_fields(2) [OF assms(1)])
  from assms(1) this test_builder_fields(1) assms(5,6,11,9) refl obtain s w1 w2 where
    one: "build E ?b w = (Ok s, w1)" "build_with_fallback E ?b w = (Ok s, w1)" "run_test E s w1 = (Ok (), w2)"
    and w2: "answering (Inr body' # G, A, replicate (length (bodies_say E G) + Suc 0) (Inr 200) @ P, C) n w2"
    by (rule upgraded_session)
  from test_builder_fields(1) assms(7,8) w2 assms(10) refl obtain t w3 w4 where
    two: "build E ?b' w2 = (Ok t, w3)" "build_with_fallback E ?b' w2 = (Ok t, w3)" "run_test E t w3 = (Ok (), w4)"
    by (rule polling_session)
  show "\<exists>w'. test_connection_dynamic E server polling_server w = (Ok (), w')"
    using one two by (simp add: test_connection_dynamic_def parse_url_ok assms(2,3))
  show "\<exists>w'. test_connection_fallback E server polling_server w = (Ok (), w')"
    using one two by (simp add: test_connection_fallback_def parse_url_ok assms(2,3))
qed

lemma set_scheme_ok:
  "url_set_scheme (lib_url E) url scheme = Some url' \<Longrightarrow> set_scheme_unwrapped E scheme url w = (Ok url', w)"
  by (simp add: set_scheme_unwrapped_def)

text \<open>Three websockets to the first server, after the second one refused the websocket and the upgrade;
  with the scheme \<open>ws\<close> there is no handshake over HTTP.\<close>

theorem test_connection_ws_passes:
  assumes "url_laws (lib_url E)" "url_parse (lib_url E) server = Inr url" "url_parse (lib_url E) polling_server = Inr url'"
    and "websocket_scheme (lib_url E) (url_scheme (lib_url E) url) scheme"
      "websocket_scheme (lib_url E) (url_scheme (lib_url E) url') scheme'"
      "websocket_scheme (lib_url E) (lit ''ws'') scheme''" "url_set_scheme (lib_url E) url (lit ''ws'') = Some url_ws"
    and "greets E body hs" "offers_websocket hs" "greets E body' hs'" "\<not> offers_websocket hs'"
      "greets E (utf8 m1) hs1" "greets E (utf8 m3) hs3"
    and "answers_of_server (websocket_says E es1)" "answers_of_server (websocket_says E es2)"
      "answers_of_server (websocket_says E es3)"
    and "answering (Inr body' # Inr body # Inl down # G, A, P,
           Inl refused # Inr (WsMsg (WsText m1) # es1) # Inr (WsMsg (WsText (lit ''3probe'')) # es2) #
             Inr (WsMsg (WsText m3) # es3) # C)
           (length (websocket_says E es1) + Suc (Suc (Suc (length (websocket_says E es2) + Suc
             (length (websocket_says E es3) + Suc n))))) w"
  shows "\<exists>w'. test_connection_ws E server polling_server w = (Ok (), w')"
proof -
  let ?b = "test_builder E url" and ?b' = "test_builder E url'" and ?b_ws = "test_builder E url_ws"
  have "url_scheme (lib_url E) url_ws = lit ''ws''"
    by (rule url_laws_simps(7) [OF assms(1,7)]) simp
  then have schemes: "websocket_scheme (lib_url E) (url_scheme (lib_url E) (eb_url ?b)) scheme"
    "websocket_scheme (lib_url E) (url_scheme (lib_url E) (eb_url ?b')) scheme'"
    "websocket_scheme (lib_url E) (url_scheme (lib_url E) (eb_url ?b_ws)) scheme''"
    using assms(4-6) by (simp_all only: test_builder_fields(2) [OF assms(1)])
  note unshaken = test_builder_fields(1)
  from assms(1) schemes(2) unshaken assms(17) obtain w1 where r1: "is_err (build_websocket E ?b') w = (Ok True, w1)"
    and "answering (Inr body' # Inr body # Inl down # G, A, P, Inr (WsMsg (WsText m1) # es1) #
      Inr (WsMsg (WsText (lit ''3probe'')) # es2) # Inr (WsMsg (WsText m3) # es3) # C)
      (length (websocket_says E es1) + Suc (Suc (Suc (length (websocket_says E es2) + Suc
        (length (websocket_says E es3) + Suc n))))) w1" by (rule websocket_refused)
  from unshaken assms(10,11) this(2) obtain w2 where r2: "is_err (build_websocket_with_upgrade E ?b') w1 = (Ok True, w2)"
    and "answering (Inr body # Inl down # G, A, P, Inr (WsMsg (WsText m1) # es1) #
      Inr (WsMsg (WsText (lit ''3probe'')) # es2) # Inr (WsMsg (WsText m3) # es3) # C)
      (length (websocket_says E es1) + Suc (Suc (Suc (length (websocket_says E es2) + Suc
        (length (websocket_says E es3) + Suc n))))) w2" by (rule upgrade_refused)
  from assms(1) schemes(1) unshaken this(2) assms(12,14) refl obtain s1 w3 w4 where
    t1: "build_websocket E ?b w2 = (Ok s1, w3)" "run_test E s1 w3 = (Ok (), w4)"
    and "answering (Inr body # Inl down # G, A, P, Inr (WsMsg (WsText (lit ''3probe'')) # es2) # Inr (WsMsg (WsText m3) # es3) # C)
      (Suc (Suc (length (websocket_says E es2) + Suc (length (websocket_says E es3) + Suc n)))) w4"
    by (rule direct_session)
  from assms(1) schemes(1) unshaken assms(8,9) this(3) assms(15) refl obtain s2 w5 w6 where
    t2: "build_websocket_with_upgrade E ?b w4 = (Ok s2, w5)" "run_test E s2 w5 = (Ok (), w6)"
    and "answering (Inl down # G, A, P, Inr (WsMsg (WsText m3) # es3) # C) (length (websocket_says E es3) + Suc n) w6"
    by (rule upgraded_session)
  from assms(1) schemes(3) unshaken this(3) assms(13,16) refl obtain s3 w7 w8 where
    t3: "build_websocket E ?b_ws w6 = (Ok s3, w7)" "run_test E s3 w7 = (Ok (), w8)"
    and "answering (Inl down # G, A, P, C) n w8" by (rule direct_session)
  from unshaken this(3) obtain w9 where r3: "is_err (build_websocket_with_upgrade E ?b_ws) w8 = (Ok True, w9)"
    by (rule handshake_refused)
  show ?thesis
    using r1 r2 t1 t2 t3 r3
    by (simp add: test_connection_ws_def parse_url_ok assms(2,3) set_scheme_ok [OF assms(7)] del: lit_simps)
qed

text \<open>The same with TLS and a header, which the library has to accept.\<close>

lemma header_builder_fields:
  assumes "convert_headers (lib_http E) (Some hs) = Inr h"
  shows "unshaken E (ebuilder_headers hs (test_builder E url))"
    and "eb_url (ebuilder_headers hs (test_builder E url)) = eb_url (test_builder E url)"
  using assms test_builder_fields(1) [of E url] by (auto simp: unshaken_def ebuilder_headers_def)

theorem test_connection_wss_passes:
  assumes "url_laws (lib_url E)" "url_parse (lib_url E) secure_server = Inr url" "url_parse (lib_url E) polling_server = Inr url'"
    and "websocket_scheme (lib_url E) (url_scheme (lib_url E) url) scheme"
      "websocket_scheme (lib_url E) (lit ''wss'') scheme'" "url_set_scheme (lib_url E) url (lit ''wss'') = Some url_wss"
    and "convert_headers (lib_http E) (Some (host_headers host)) = Inr h"
    and "greets E body hs" "offers_websocket hs" "greets E body' hs'" "\<not> offers_websocket hs'"
      "greets E (utf8 m2) hs2" "greets E (utf8 m3) hs3"
    and "answers_of_server (websocket_says E es1)" "answers_of_server (websocket_says E es2)"
      "answers_of_server (websocket_says E es3)"
    and "answering (Inr body' # Inr body # Inl down # G, A, P,
           Inr (WsMsg (WsText (lit ''3probe'')) # es1) # Inr (WsMsg (WsText m2) # es2) # Inr (WsMsg (WsText m3) # es3) # C)
           (Suc (Suc (length (websocket_says E es1) + Suc (length (websocket_says E es2) + Suc
             (length (websocket_says E es3) + Suc n))))) w"
  shows "\<exists>w'. test_connection_wss E secure_server polling_server host w = (Ok (), w')"
proof -
  let ?b = "ebuilder_headers (host_headers host) (test_builder E url)" and ?b' = "test_builder E url'"
    and ?b_wss = "ebuilder_headers (host_headers host) (test_builder E url_wss)"
  have "url_scheme (lib_url E) url_wss = lit ''wss''"
    by (rule url_laws_simps(7) [OF assms(1,6)]) simp
  then have schemes: "websocket_scheme (lib_url E) (url_scheme (lib_url E) (eb_url ?b)) scheme"
    "websocket_scheme (lib_url E) (url_scheme (lib_url E) (eb_url ?b_wss)) scheme'"
    using assms(4,5) by (simp_all only: test_builder_fields(2) [OF assms(1)] header_builder_fields(2) [OF assms(7)])
  note unshaken = header_builder_fields(1) [OF assms(7)]
  from test_builder_fields(1) assms(10,11,17) obtain w1 where r1: "is_err (build_websocket_with_upgrade E ?b') w = (Ok True, w1)"
    and "answering (Inr body # Inl down # G, A, P,
      Inr (WsMsg (WsText (lit ''3probe'')) # es1) # Inr (WsMsg (WsText m2) # es2) # Inr (WsMsg (WsText m3) # es3) # C)
      (Suc (Suc (length (websocket_says E es1) + Suc (length (websocket_says E es2) + Suc
        (length (websocket_says E es3) + Suc n))))) w1" by (rule upgrade_refused)
  from assms(1) schemes(1) unshaken assms(8,9) this(2) assms(14) refl obtain s1 w2 w3 where
    t1: "build_websocket_with_upgrade E ?b w1 = (Ok s1, w2)" "run_test E s1 w2 = (Ok (), w3)"
    and "answering (Inl down # G, A, P, Inr (WsMsg (WsText m2) # es2) # Inr (WsMsg (WsText m3) # es3) # C)
      (length (websocket_says E es2) + Suc (length (websocket_says E es3) + Suc n)) w3" by (rule upgraded_session)
  from assms(1) schemes(1) unshaken this(3) assms(12,15) refl obtain s2 w4 w5 where
    t2: "build_websocket E ?b w3 = (Ok s2, w4)" "run_test E s2 w4 = (Ok (), w5)"
    and "answering (Inl down # G, A, P, Inr (WsMsg (WsText m3) # es3) # C) (length (websocket_says E es3) + Suc n) w5"
    by (rule direct_session)
  from assms(1) schemes(2) unshaken this(3) assms(13,16) refl obtain s3 w6 w7 where
    t3: "build_websocket E ?b_wss w5 = (Ok s3, w6)" "run_test E s3 w6 = (Ok (), w7)"
    and "answering (Inl down # G, A, P, C) n w7" by (rule direct_session)
  from unshaken this(3) obtain w8 where r2: "is_err (build_websocket_with_upgrade E ?b_wss) w7 = (Ok True, w8)"
    by (rule handshake_refused)
  show ?thesis
    using r1 t1 t2 t3 r2
    by (simp add: test_connection_wss_def Let_def parse_url_ok assms(2,3) set_scheme_ok [OF assms(6)] del: lit_simps)
qed

lemma parse_url_is_err: "is_err (parse_url E s) w = (Ok True, w)" if "url_parse (lib_url E) s = Inl e"
  using that by (simp add: parse_url_def)

theorem test_open_invariants_passes:
  assumes "url_laws (lib_url E)" "url_parse (lib_url E) server = Inr url"
    and "url_parse (lib_url E) (lit ''this is illegal'') = Inl illegal"
      "url_parse (lib_url E) (lit ''file:///tmp/foo'') = Inr invalid"
    and "websocket_scheme (lib_url E) (url_scheme (lib_url E) url) scheme"
    and "convert_headers (lib_http E) (Some (host_headers host)) = Inr h"
    and "greets E body hs" "offers_websocket hs"
    and "answering (Inl unsupported # Inr body # Inr body # Inr body # G, A, P,
           Inr (WsMsg (WsText (lit ''3probe'')) # es1) # Inr (WsMsg (WsText (lit ''3probe'')) # es2) #
             Inr (WsMsg (WsText (lit ''3probe'')) # es3) # C) (Suc (Suc (Suc (Suc (Suc (Suc n)))))) w"
  shows "\<exists>w'. test_open_invariants E server host w = (Ok (), w')"
proof -
  let ?b = "test_builder E url" and ?h = "ebuilder_headers (host_headers host) (test_builder E url)"
  have scheme: "websocket_scheme (lib_url E) (url_scheme (lib_url E) (eb_url ?b)) scheme"
    using assms(5) by (simp only: test_builder_fields(2) [OF assms(1)])
  then have scheme_h: "websocket_scheme (lib_url E) (url_scheme (lib_url E) (eb_url ?h)) scheme"
    by (simp only: header_builder_fields(2) [OF assms(6)])
  note unshaken = test_builder_fields(1) and unshaken_h = header_builder_fields(1) [OF assms(6)]
  from unshaken assms(9) obtain w1 where r1: "is_err (build E (test_builder E invalid)) w = (Ok True, w1)"
    and "answering (Inr body # Inr body # Inr body # G, A, P,
      Inr (WsMsg (WsText (lit ''3probe'')) # es1) # Inr (WsMsg (WsText (lit ''3probe'')) # es2) #
        Inr (WsMsg (WsText (lit ''3probe'')) # es3) # C) (Suc (Suc (Suc (Suc (Suc (Suc n)))))) w1"
    by (rule handshake_refused)
  from assms(1) scheme unshaken assms(7,8) this(2) obtain s1 w2 where b1: "build E ?b w1 = (Ok s1, w2)" "es_net s1 = w2"
    and s1: "fresh_websocket (lib_b64 E) (Inr body # Inr body # G, A, P, Inr (WsMsg (WsText (lit ''3probe'')) # es2) #
      Inr (WsMsg (WsText (lit ''3probe'')) # es3) # C) (Suc (Suc (Suc (Suc n)))) (websocket_says E es1) s1"
    by (rule build_over_websocket)
  have "esocket_emit (lib_b64 E) (lib_url E) (epacket EClose []) s1 =
      (Err EIllegalActionBeforeOpen, fire has_error (OnError EIllegalActionBeforeOpen) s1)"
    using s1 by (intro esocket_emit_closed) (simp add: fresh_websocket_def)
  then have "is_err (eclient_emit (lib_b64 E) (lib_url E) (epacket EClose [])) s1 =
      (Ok True, fire has_error (OnError EIllegalActionBeforeOpen) s1)" by (simp add: eclient_emit_def)
  from on_client_net [where m = "is_err (eclient_emit (lib_b64 E) (lib_url E) (epacket EClose []))", OF b1(2) this]
  have r2: "on_client (is_err (eclient_emit (lib_b64 E) (lib_url E) (epacket EClose []))) s1 w2 = (Ok True, w2)"
    using b1(2) by simp
  have "answering (Inr body # Inr body # G, A, P, Inr (WsMsg (WsText (lit ''3probe'')) # es2) #
      Inr (WsMsg (WsText (lit ''3probe'')) # es3) # C) (Suc (Suc (Suc (Suc n)))) w2"
    using s1 b1(2) by (simp add: fresh_websocket_def)
  from assms(1) scheme unshaken assms(7,8) this obtain s2 w3 where b2: "build E ?b w2 = (Ok s2, w3)" "es_net s2 = w3"
    and s2: "fresh_websocket (lib_b64 E) (Inr body # G, A, P, Inr (WsMsg (WsText (lit ''3probe'')) # es3) # C)
      (Suc (Suc n)) (websocket_says E es2) s2" by (rule build_over_websocket)
  have "answering (Inr body # G, A, P, Inr (WsMsg (WsText (lit ''3probe'')) # es3) # C) (Suc (Suc n)) w3"
    using s2 b2(2) by (simp add: fresh_websocket_def)
  from assms(1) scheme_h unshaken_h assms(7,8) this obtain s3 w4 where b3: "build E ?h w3 = (Ok s3, w4)"
    by (rule build_over_websocket)
  have "unwrapped (parse_url E (lit ''file:///tmp/foo'')) w = (Ok invalid, w)"
    using parse_url_ok [OF assms(4)] by (rule program_simps(2))
  then show ?thesis
    using r1 b1(1) r2 b2(1) b3
    by (simp add: test_open_invariants_def parse_url_ok [OF assms(2)] parse_url_is_err [OF assms(3)] del: lit_simps)
qed

section \<open>A server the tests pass against\<close>

text \<open>The hypotheses hold together: a network as \<open>ci/engine-io.js\<close> and its variant without websockets
  would make it, on which \<open>test_connection_ws\<close> passes.\<close>

definition test_frames :: "ws_event list" where
  "test_frames = [WsMsg (WsText (lit ''4hello client'')), WsMsg (WsText (lit ''2'')), WsMsg (WsText (lit ''4Roger Roger''))]"

definition test_net :: "plain_url net" where
  "test_net =
     \<lparr>get_in = [Inr (ascii ''0{}''), Inr (ascii ''0{u}''), Inl (lit ''unsupported scheme'')], stream_in = [], post_in = [],
      ws_connect_in = [Inl (lit ''400''), Inr (WsMsg (WsText (lit ''0{u}'')) # test_frames),
        Inr (WsMsg (WsText (lit ''3probe'')) # test_frames), Inr (WsMsg (WsText (lit ''0{u}'')) # test_frames)],
      ws_in = [], ws_send_in = replicate 15 (Inr ()), wire = [], clock = 0\<rparr>"

lemma test_frame_items:
  "ws_items B (WsMsg (WsText (lit ''4hello client''))) = [Inr (message ''hello client'')]"
  "ws_items B (WsMsg (WsText (lit ''2''))) = [Inr (epacket EPing [])]"
  "ws_items B (WsMsg (WsText (lit ''4Roger Roger''))) = [Inr (message ''Roger Roger'')]"
  by (simp_all add: ws_items_plain separator_def epacket_try_from_def epacket_id_try_from_def epacket_def message_def
      del: ws_items.simps)

lemma test_frames_say:
  "websocket_says E test_frames =
     [Inr (message ''hello client''), Inr (epacket EPing []), Inr (message ''Roger Roger'')]"
  by (simp add: test_frames_def test_frame_items del: ws_items.simps lit_simps)

lemma test_frames_answer: "answers_of_server (websocket_says E test_frames)"
proof -
  have "websocket_says E test_frames = map Inr [] @ Inr (message ''hello client'') #
      map Inr [epacket EPing []] @ Inr (message ''Roger Roger'') # []" "\<forall>q \<in> set ([] @ [epacket EPing []]). e_id q = EPing"
    by (simp_all add: test_frames_say)
  then show ?thesis unfolding answers_of_server_def by blast
qed

lemma demo_greets: "greets demo_elib (ascii ''0{u}'') (demo_handshake True)" "greets demo_elib (ascii ''0{}'') (demo_handshake False)"
  "greets demo_elib (utf8 (lit ''0{u}'')) (demo_handshake True)"
proof -
  show "greets demo_elib (ascii ''0{u}'') (demo_handshake True)" "greets demo_elib (ascii ''0{}'') (demo_handshake False)"
    unfolding greets_def demo_answer using demo_facts(3,4) epacket_sel by metis+
  moreover have "utf8 (lit ''0{u}'') = ascii ''0{u}''" by simp
  ultimately show "greets demo_elib (utf8 (lit ''0{u}'')) (demo_handshake True)" by simp
qed

lemma test_net_ready: "answering (get_in test_net, [], [], ws_connect_in test_net) 15 test_net"
  by (simp add: answering_def elsewhere_def test_net_def)

theorem test_connection_ws_on_demo:
  "\<exists>w'. test_connection_ws demo_elib server polling_server test_net = (Ok (), w')"
proof -
  let ?U = "lib_url demo_elib" and ?url = "(lit ''http'', lit ''/'', []) :: plain_url"
  have lib: "url_parse ?U s = Inr ?url" "websocket_scheme ?U (url_scheme ?U ?url) (lit ''ws'')"
    "websocket_scheme ?U (lit ''ws'') (lit ''ws'')" "url_set_scheme ?U ?url (lit ''ws'') = Some (lit ''ws'', lit ''/'', [])" for s
    by (auto simp: demo_elib_def plain_urls_def websocket_scheme_def)
  have count: "length (websocket_says demo_elib test_frames) + Suc (Suc (Suc (length (websocket_says demo_elib test_frames) +
      Suc (length (websocket_says demo_elib test_frames) + Suc 1)))) = 15"
    by (simp only: test_frames_say) simp
  have net: "answering (Inr (ascii ''0{}'') # Inr (ascii ''0{u}'') # Inl (lit ''unsupported scheme'') # [], [], [],
      Inl (lit ''400'') # Inr (WsMsg (WsText (lit ''0{u}'')) # test_frames) #
        Inr (WsMsg (WsText (lit ''3probe'')) # test_frames) # Inr (WsMsg (WsText (lit ''0{u}'')) # test_frames) # [])
      (length (websocket_says demo_elib test_frames) + Suc (Suc (Suc (length (websocket_says demo_elib test_frames) +
        Suc (length (websocket_says demo_elib test_frames) + Suc 1))))) test_net"
    unfolding count using test_net_ready by (simp add: test_net_def del: lit_simps ascii_simps)
  show ?thesis
    by (rule test_connection_ws_passes [OF demo_elib_laws(1) lib(1,1,2,2,3,4) demo_greets(1) demo_offers(1)
          demo_greets(2) demo_offers(2) demo_greets(3,3) test_frames_answer test_frames_answer test_frames_answer net])
qed

end
