(* ===== verification/Async_Server_Tests.thy ===== *)
theory Async_Server_Tests
  imports Server_Test_Runs Engine_Async_Client Engine_Async_Runs
begin

text \<open>
  The tests of \<open>engineio/src/asynchronous/client/async_client.rs\<close> that talk to a server. They are those of
  the blocking client, but read the client's stream without leaving out the pings: they pass against a
  server that sends none before its two messages.
\<close>

section \<open>Programs\<close>

text \<open>\<open>next().await.unwrap()?\<close>.\<close>

definition next_unwrapped :: "base64 \<Rightarrow> 'u urllib \<Rightarrow> ('u asocket, eerror, epacket) proc" where
  "next_unwrapped B U =
     seq (aclient_next B U) (\<lambda>item. give (case item of None \<Rightarrow> Panic | Some packet \<Rightarrow> Ok packet))"

definition atest_connection :: "base64 \<Rightarrow> 'u urllib \<Rightarrow> ('u asocket, eerror, unit) proc" where
  "atest_connection B U =
     seq (unwrapped (aclient_connect B U)) (\<lambda>_.
     seq (next_unwrapped B U) (\<lambda>packet.
     seq (assert (packet = message ''hello client'')) (\<lambda>_.
     seq (aclient_emit B U (message ''respond'')) (\<lambda>_.
     seq (next_unwrapped B U) (\<lambda>packet.
     seq (assert (packet = message ''Roger Roger'')) (\<lambda>_.
     aclient_close B U))))))"

text \<open>The clones of a client are one state.\<close>

definition acloned_client :: "base64 \<Rightarrow> 'u urllib \<Rightarrow> ('u asocket, eerror, unit) proc" where
  "acloned_client B U =
     seq (aclient_connect B U) (\<lambda>_.
     seq aclient_is_connected (\<lambda>sut.
     seq (assert sut) (\<lambda>_.
     seq aclient_is_connected (\<lambda>cloned.
     seq (assert cloned) (\<lambda>_.
     seq (next_unwrapped B U) (\<lambda>packet.
     seq (assert (packet = message ''hello client'')) (\<lambda>_.
     seq (aclient_emit B U (message ''respond'')) (\<lambda>_.
     seq (next_unwrapped B U) (\<lambda>packet.
     seq (assert (packet = message ''Roger Roger'')) (\<lambda>_.
     seq (aclient_disconnect B U) (\<lambda>_.
     seq aclient_is_connected (\<lambda>sut.
     seq (assert (\<not> sut)) (\<lambda>_.
     seq aclient_is_connected (\<lambda>cloned.
     assert (\<not> cloned)))))))))))))))"

definition along_lived :: "base64 \<Rightarrow> 'u urllib \<Rightarrow> ('u asocket, eerror, unit) proc" where
  "along_lived B U =
     seq (aclient_connect B U) (\<lambda>_.
     seq (next_unwrapped B U) (\<lambda>packet.
     seq (assert (e_id packet = EMessage)) (\<lambda>_.
     seq (next_unwrapped B U) (\<lambda>packet.
     seq (assert (e_id packet = EPing)) (\<lambda>_.
     seq (aclient_disconnect B U) (\<lambda>_.
     seq aclient_is_connected (\<lambda>connected.
     assert (\<not> connected))))))))"

definition aillegal_then_legal :: "base64 \<Rightarrow> 'u urllib \<Rightarrow> ('u asocket, eerror, unit) proc" where
  "aillegal_then_legal B U =
     seq (is_err (aclient_emit B U (epacket EClose []))) (\<lambda>refused.
     seq (assert refused) (\<lambda>_.
     seq (aclient_connect B U) (\<lambda>_.
     seq (is_err (next_unwrapped B U)) (\<lambda>failed.
     assert (\<not> failed)))))"

text \<open>A program of a client that was built, on the network that is there now; it gives the client back.\<close>

definition on_aclient :: "('u asocket, 'e, unit) proc \<Rightarrow> 'u asocket \<Rightarrow> ('u net, 'e, 'u asocket) proc" where
  "on_aclient m s w =
     (case m (s\<lparr>as_net := w\<rparr>) of
        (Ok _, s') \<Rightarrow> (Ok s', as_net s')
      | (Err e, s') \<Rightarrow> (Err e, as_net s')
      | (Panic, s') \<Rightarrow> (Panic, as_net s')
      | (Block, s') \<Rightarrow> (Block, as_net s'))"

definition over :: "('u net, 'e, 'a) proc \<Rightarrow> ('u net, 'e, unit) proc" where
  "over m = seq m (\<lambda>_. give (Ok ()))"

section \<open>The tests\<close>

definition atest_builder :: "'u elib \<Rightarrow> 'u \<Rightarrow> 'u ebuilder" where
  "atest_builder E url =
     abuilder_on_error (abuilder_on_close (abuilder_on_data (abuilder_on_packet (abuilder_on_open
       (abuilder_new E url)))))"

definition arun_test :: "'u elib \<Rightarrow> 'u asocket \<Rightarrow> ('u net, eerror, unit) proc" where
  "arun_test E s = over (on_aclient (atest_connection (lib_b64 E) (lib_url E)) s)"

definition atest_client_cloneable :: "'u elib \<Rightarrow> rstring \<Rightarrow> ('u net, eerror, unit) proc" where
  "atest_client_cloneable E server =
     seq (parse_url E server) (\<lambda>url.
     seq (abuild E (atest_builder E url)) (\<lambda>sut.
     over (on_aclient (acloned_client (lib_b64 E) (lib_url E)) sut)))"

definition atest_illegal_actions :: "'u elib \<Rightarrow> rstring \<Rightarrow> ('u net, eerror, unit) proc" where
  "atest_illegal_actions E server =
     seq (parse_url E server) (\<lambda>url.
     seq (abuild E (atest_builder E url)) (\<lambda>sut.
     seq (on_aclient (aillegal_then_legal (lib_b64 E) (lib_url E)) sut) (\<lambda>sut.
     seq (unwrapped (parse_url E (lit ''fake://fake.fake''))) (\<lambda>fake.
     seq (is_err (abuild_websocket E (atest_builder E fake))) (\<lambda>refused.
     seq (assert refused) (\<lambda>_.
     over (on_aclient (aclient_disconnect (lib_b64 E) (lib_url E)) sut)))))))"

definition atest_connection_long :: "'u elib \<Rightarrow> rstring \<Rightarrow> ('u net, eerror, unit) proc" where
  "atest_connection_long E server =
     seq (parse_url E server) (\<lambda>url.
     seq (abuild E (atest_builder E url)) (\<lambda>socket.
     over (on_aclient (along_lived (lib_b64 E) (lib_url E)) socket)))"

definition atest_connection_dynamic :: "'u elib \<Rightarrow> rstring \<Rightarrow> rstring \<Rightarrow> ('u net, eerror, unit) proc" where
  "atest_connection_dynamic E server polling_server =
     seq (parse_url E server) (\<lambda>url.
     seq (abuild E (atest_builder E url)) (\<lambda>socket.
     seq (arun_test E socket) (\<lambda>_.
     seq (parse_url E polling_server) (\<lambda>url.
     seq (abuild E (atest_builder E url)) (arun_test E)))))"

definition atest_connection_fallback :: "'u elib \<Rightarrow> rstring \<Rightarrow> rstring \<Rightarrow> ('u net, eerror, unit) proc" where
  "atest_connection_fallback E server polling_server =
     seq (parse_url E server) (\<lambda>url.
     seq (abuild_with_fallback E (atest_builder E url)) (\<lambda>socket.
     seq (arun_test E socket) (\<lambda>_.
     seq (parse_url E polling_server) (\<lambda>url.
     seq (abuild_with_fallback E (atest_builder E url)) (arun_test E)))))"

definition atest_connection_dynamic_secure :: "'u elib \<Rightarrow> rstring \<Rightarrow> ('u net, eerror, unit) proc" where
  "atest_connection_dynamic_secure E secure_server =
     seq (parse_url E secure_server) (\<lambda>url.
     seq (abuild E (atest_builder E url)) (arun_test E))"

definition atest_connection_polling :: "'u elib \<Rightarrow> rstring \<Rightarrow> ('u net, eerror, unit) proc" where
  "atest_connection_polling E server =
     seq (parse_url E server) (\<lambda>url.
     seq (abuild_polling E (atest_builder E url)) (arun_test E))"

definition atest_connection_wss ::
  "'u elib \<Rightarrow> rstring \<Rightarrow> rstring \<Rightarrow> rstring \<Rightarrow> ('u net, eerror, unit) proc" where
  "atest_connection_wss E secure_server polling_server host =
     seq (parse_url E polling_server) (\<lambda>url.
     seq (is_err (abuild_websocket_with_upgrade E (atest_builder E url))) (\<lambda>refused.
     seq (assert refused) (\<lambda>_.
     seq (parse_url E secure_server) (\<lambda>url.
     let builder = abuilder_headers (host_headers host) (atest_builder E url) in
     seq (abuild_websocket_with_upgrade E builder) (\<lambda>socket.
     seq (arun_test E socket) (\<lambda>_.
     seq (abuild_websocket E builder) (\<lambda>socket.
     seq (arun_test E socket) (\<lambda>_.
     seq (set_scheme_unwrapped E (lit ''wss'') url) (\<lambda>url.
     let builder = abuilder_headers (host_headers host) (atest_builder E url) in
     seq (abuild_websocket E builder) (\<lambda>socket.
     seq (arun_test E socket) (\<lambda>_.
     seq (is_err (abuild_websocket_with_upgrade E builder)) assert)))))))))))"

definition atest_connection_ws :: "'u elib \<Rightarrow> rstring \<Rightarrow> rstring \<Rightarrow> ('u net, eerror, unit) proc" where
  "atest_connection_ws E server polling_server =
     seq (parse_url E polling_server) (\<lambda>url.
     seq (is_err (abuild_websocket E (atest_builder E url))) (\<lambda>refused.
     seq (assert refused) (\<lambda>_.
     seq (is_err (abuild_websocket_with_upgrade E (atest_builder E url))) (\<lambda>refused.
     seq (assert refused) (\<lambda>_.
     seq (parse_url E server) (\<lambda>url.
     seq (abuild_websocket E (atest_builder E url)) (\<lambda>socket.
     seq (arun_test E socket) (\<lambda>_.
     seq (abuild_websocket_with_upgrade E (atest_builder E url)) (\<lambda>socket.
     seq (arun_test E socket) (\<lambda>_.
     seq (set_scheme_unwrapped E (lit ''ws'') url) (\<lambda>url.
     seq (abuild_websocket E (atest_builder E url)) (\<lambda>socket.
     seq (arun_test E socket) (\<lambda>_.
     seq (is_err (abuild_websocket_with_upgrade E (atest_builder E url))) assert)))))))))))))"

definition atest_open_invariants :: "'u elib \<Rightarrow> rstring \<Rightarrow> rstring \<Rightarrow> ('u net, eerror, unit) proc" where
  "atest_open_invariants E server host =
     seq (parse_url E server) (\<lambda>url.
     seq (is_err (parse_url E (lit ''this is illegal''))) (\<lambda>refused.
     seq (assert refused) (\<lambda>_.
     seq (unwrapped (parse_url E (lit ''file:///tmp/foo''))) (\<lambda>invalid.
     seq (is_err (abuild E (atest_builder E invalid))) (\<lambda>refused.
     seq (assert refused) (\<lambda>_.
     seq (abuild E (atest_builder E url)) (\<lambda>sut.
     seq (is_err (on_aclient (aclient_emit (lib_b64 E) (lib_url E) (epacket EClose [])) sut)) (\<lambda>refused.
     seq (assert refused) (\<lambda>_.
     seq (abuild E (atest_builder E url)) (\<lambda>_.
     seq (abuild E (abuilder_headers (host_headers host) (atest_builder E url))) (\<lambda>_.
     give (Ok ()))))))))))))"

section \<open>A client in conversation\<close>

lemma atest_builder_same [simp]: "atest_builder = test_builder"
  by (simp add: fun_eq_iff atest_builder_def test_builder_def)

definition achatting :: "base64 \<Rightarrow> (eerror + epacket) option list \<Rightarrow> nat \<Rightarrow> 'u asocket \<Rightarrow> bool" where
  "achatting B items n s \<longleftrightarrow>
     as_connected s \<and> \<not> ac_done s \<and> abacklog B s = items \<and> takes n (as_transport s) (as_net s)"

lemma asocket_steps [simp]:
  "as_net (apinged s) = as_net s" "as_transport (apinged s) = as_transport s" "as_connected (apinged s) = as_connected s"
  "ac_done (apinged s) = ac_done s"
  "as_net (ahandle_packet p s) = as_net s" "as_transport (ahandle_packet p s) = as_transport s"
  "as_connected (ahandle_packet p s) = as_connected s" "ac_done (ahandle_packet p s) = ac_done s"
  "as_net (ahandle_data d s) = as_net s" "as_transport (ahandle_data d s) = as_transport s"
  "as_connected (ahandle_data d s) = as_connected s" "ac_done (ahandle_data d s) = ac_done s"
  by (simp_all add: apinged_def ahandle_packet_def ahandle_data_def)

lemma achatting_upd [simp]:
  "achatting B items n (afire c e s) = achatting B items n s" "achatting B items n (apinged s) = achatting B items n s"
  "achatting B items n (ahandle_packet p s) = achatting B items n s"
  "achatting B items n (ahandle_data d s) = achatting B items n s"
  by (simp_all add: achatting_def)

lemma achatting_emit:
  assumes "achatting B items (Suc n) s" "plain B p"
  obtains s' where "asocket_emit B U p s = (Ok (), s')" "achatting B items n s'"
proof -
  have s: "as_connected s" "takes (Suc n) (as_transport s) (as_net s)" "abacklog B s = items" "\<not> ac_done s"
    using assms(1) by (simp_all add: achatting_def)
  have "\<exists>s'. asocket_emit B U p s = (Ok (), s') \<and> takes n (as_transport s) (as_net s') \<and> ac_done s' = ac_done s"
    using s(1,2) assms(2)
    by (auto simp: takes_def plain_def asocket_emit_def on_anet_def Let_def transport_emit_def polling_emit_def ws_emit_def
        ws_send_text_def ws_send_def log_request_def split: transport.splits option.splits)
  then obtain s' where "asocket_emit B U p s = (Ok (), s')" "takes n (as_transport s) (as_net s')" "ac_done s' = ac_done s"
    by blast
  with that asocket_emit_fields [of B U p s] asocket_emit_abacklog [of B B U p s] s show thesis
    by (simp add: achatting_def)
qed

text \<open>What every read of the byte stream keeps of the network, the packet stream keeps.\<close>

lemma asocket_next_net_rule:
  assumes "\<And>s. P (as_net s) \<Longrightarrow> as_transport s = t \<Longrightarrow> P (as_net (snd (abytes_next U s)))"
    "P (as_net s)" "as_transport s = t"
  shows "P (as_net (snd (asocket_next B U s)))"
proof -
  obtain r s1 where r: "abytes_next U s = (r, s1)" by fastforce
  have one: "P (as_net s1)" "as_transport s1 = t"
    using assms abytes_next_keeps [of U s] by (simp_all add: r) (metis r snd_conv)
  show ?thesis
  proof (cases "as_done s \<or> as_packets s \<noteq> []")
    case True
    with assms(2) show ?thesis by (auto simp: asocket_next.simps [of B U s] split: list.split)
  next
    case False
    with one show ?thesis
      by (simp add: asocket_next.simps [of B U s] r payload_try_from_ne split: outcome.split option.split sum.split list.split)
  qed
qed

lemma apolling_next_post: "post_in (snd (snd (apolling_next U u (cs, w)))) = post_in w"
proof (induction U u "(cs, w)" arbitrary: cs w rule: apolling_next.induct)
  case (1 U u cs w)
  then show ?case
    by (subst apolling_next.simps) (auto simp: log_request_def Let_def split: list.split sum.split)
qed

lemma takes_bytes: "takes n (as_transport s) (as_net (snd (abytes_next U s))) = takes n (as_transport s) (as_net s)"
proof (cases "as_transport s")
  case (Polling u)
  then have "post_in (as_net (snd (abytes_next U s))) = post_in (as_net s)"
    using apolling_next_post [of U u "as_chunks s" "as_net s"]
    by (cases "apolling_next U u (as_chunks s, as_net s)") (auto simp: abytes_next_def)
  with Polling show ?thesis by (simp add: takes_def)
qed (auto simp: abytes_next_def takes_def on_anet_def ws_poll_next_def split: prod.split)

lemma takes_anext: "takes n (as_transport s) (as_net (snd (asocket_next B U s))) = takes n (as_transport s) (as_net s)"
  by (rule asocket_next_net_rule [where P = "\<lambda>w. takes n (as_transport s) w = takes n (as_transport s) (as_net s)" and
        t = "as_transport s"]) (metis takes_bytes, simp_all)

lemma achatting_poll:
  assumes "achatting B (Some (Inr p) # items) n s"
  obtains s1 where "asocket_next B U s = (Ok (Some p), s1)" "achatting B items n s1"
proof -
  have "fst (asocket_next B U s) = Ok (Some p)" "abacklog B (snd (asocket_next B U s)) = items"
    using asocket_next_refines [of B U s] assms by (simp_all add: achatting_def)
  with that [of "snd (asocket_next B U s)"] asocket_next_fields [of B U s] asocket_next_keeps [of B U s]
    takes_anext [of n s B U] assms
  show thesis by (simp add: achatting_def prod_eq_iff)
qed

lemma achatting_next_message:
  assumes "achatting B (Some (Inr p) # items) n s" "e_id p = EMessage"
  obtains s' where "next_unwrapped B U s = (Ok p, s')" "achatting B items n s'"
proof -
  from assms(1) obtain s1 where s1: "asocket_next B U s = (Ok (Some p), s1)" "achatting B items n s1" by (rule achatting_poll)
  then have "aclient_next B U s = (Ok (Some p), ahandle_data (e_data p) (ahandle_packet p s1))"
    using assms by (simp add: aclient_next_def handle_inconming_packet_def achatting_def)
  with s1(2) that show thesis by (simp add: next_unwrapped_def)
qed

lemma achatting_next_ping:
  assumes "achatting B (Some (Inr p) # items) (Suc n) s" "e_id p = EPing"
  obtains s' where "next_unwrapped B U s = (Ok p, s')" "achatting B items n s'"
proof -
  from assms(1) obtain s1 where s1: "asocket_next B U s = (Ok (Some p), s1)" "achatting B items (Suc n) s1"
    by (rule achatting_poll)
  from s1(2) have "achatting B items (Suc n) (apinged (ahandle_packet p s1))" by simp
  then obtain s2 where s2: "asocket_emit B U (epacket EPong []) (apinged (ahandle_packet p s1)) = (Ok (), s2)"
    "achatting B items n s2" by (rule achatting_emit [OF _ plain_packets(1)])
  then have "aclient_next B U s = (Ok (Some p), s2)"
    using s1(1) assms by (simp add: aclient_next_def handle_inconming_packet_def achatting_def)
  with s2(2) that show thesis by (simp add: next_unwrapped_def)
qed

lemma achatting_connect:
  assumes "abacklog B s = items" "takes (Suc n) (as_transport s) (as_net s)" "\<not> ac_done s"
  obtains s' where "aclient_connect B U s = (Ok (), s')" "achatting B items n s'"
proof -
  have "achatting B items (Suc n) (apinged (afire has_open OnOpen (s\<lparr>as_connected := True\<rparr>)))"
    using assms by (simp add: achatting_def)
  then obtain s' where "asocket_emit B U (epacket EPong []) (apinged (afire has_open OnOpen (s\<lparr>as_connected := True\<rparr>))) = (Ok (), s')"
    "achatting B items n s'" by (rule achatting_emit [OF _ plain_packets(1)])
  with that show thesis by (simp add: aclient_connect_def asocket_connect_def)
qed

lemma achatting_close:
  assumes "achatting B items (Suc n) s"
  obtains s' where "asocket_disconnect B U s = (Ok (), s')" "\<not> as_connected s'" "takes n (as_transport s') (as_net s')"
proof -
  have "achatting B items (Suc n) (afire has_close OnClose s)" using assms by simp
  then obtain s1 where "asocket_emit B U (epacket EClose []) (afire has_close OnClose s) = (Ok (), s1)" "achatting B items n s1"
    by (rule achatting_emit [OF _ plain_packets(2)])
  with that [of "s1\<lparr>as_connected := False\<rparr>"] show thesis by (simp add: asocket_disconnect_def seq_def modify_def achatting_def)
qed

section \<open>On a websocket\<close>

definition aover_websocket :: "answers \<Rightarrow> 'u asocket \<Rightarrow> bool" where
  "aover_websocket R s \<longleftrightarrow> is_websocket (as_transport s) \<and> elsewhere (as_net s) = R"

lemma aover_websocket_upd [simp]:
  "aover_websocket R (afire c x s) = aover_websocket R s" "aover_websocket R (apinged s) = aover_websocket R s"
  "aover_websocket R (ahandle_packet p s) = aover_websocket R s" "aover_websocket R (ahandle_data d s) = aover_websocket R s"
  "aover_websocket R (ahandle_close s) = aover_websocket R s"
  "aover_websocket R (s\<lparr>as_connected := b\<rparr>) = aover_websocket R s" "aover_websocket R (aclient_finish s) = aover_websocket R s"
  by (simp_all add: aover_websocket_def ahandle_close_def aclient_finish_def)

lemma akeeps_emit: "keeps (aover_websocket R) (asocket_emit B U p)"
proof (rule keepsI)
  fix s :: "'a asocket" assume s: "aover_websocket R s"
  then have ws: "is_websocket (as_transport s)" "elsewhere (as_net s) = R" by (simp_all add: aover_websocket_def)
  have "aover_websocket R (snd (on_anet (transport_emit B U (as_transport s) d b) s))" for d b
    using elsewhere_emit [of d b "as_net s"] ws
    by (cases "ws_emit d b (as_net s)") (simp add: on_anet_def over_websocket_transport aover_websocket_def)
  with s show "aover_websocket R (snd (asocket_emit B U p s))"
    unfolding asocket_emit_def Let_def
    by (auto split: prod.split outcome.split) (metis snd_conv)+
qed

lemma akeeps_bytes:
  assumes "is_websocket (as_transport s)"
  shows "elsewhere (as_net (snd (abytes_next U s))) = elsewhere (as_net s)"
  using assms by (cases "as_transport s") (simp_all add: abytes_next_def on_anet_def ws_poll_next_def split: prod.split)

lemma akeeps_next: "keeps (aover_websocket R) (next_unwrapped B U)"
proof -
  have socket: "aover_websocket R (snd (asocket_next B U s))" if "aover_websocket R s" for s :: "'a asocket"
  proof -
    have step: "elsewhere (as_net (snd (abytes_next U v))) = R"
      if "elsewhere (as_net v) = R" "as_transport v = as_transport s" for v
      using that akeeps_bytes [of v U] \<open>aover_websocket R s\<close> by (simp add: aover_websocket_def)
    have "elsewhere (as_net (snd (asocket_next B U s))) = R"
      by (rule asocket_next_net_rule [where P = "\<lambda>w. elsewhere w = R" and t = "as_transport s", OF step])
        (use that in \<open>simp_all add: aover_websocket_def\<close>)
    with that asocket_next_keeps [of B U s] show ?thesis by (simp add: aover_websocket_def)
  qed
  have react: "aover_websocket R (snd (handle_inconming_packet B U p t))" if "aover_websocket R t" for p and t :: "'a asocket"
    using that keepsD [OF akeeps_emit, of R "apinged (ahandle_packet p t)" B U "epacket EPong []"]
    by (simp add: handle_inconming_packet_def split: epacket_id.split)
  have "keeps (aover_websocket R) (aclient_next B U)"
  proof (rule keepsI)
    fix s :: "'a asocket" assume s: "aover_websocket R s"
    obtain r s1 where r: "asocket_next B U s = (r, s1)" by fastforce
    with socket [OF s] have "aover_websocket R s1" by simp
    with s r react show "aover_websocket R (snd (aclient_next B U s))"
      by (auto simp: aclient_next_def split: prod.split outcome.split option.split) (metis snd_conv)+
  qed
  then show ?thesis unfolding next_unwrapped_def by (intro keeps_seq keeps_give)
qed

lemma akeeps_test: "keeps (aover_websocket R) (atest_connection B U)"
proof -
  have "keeps (aover_websocket R) (aclient_connect B U)"
    by (rule keepsI) (simp add: aclient_connect_def asocket_connect_def keepsD [OF akeeps_emit])
  moreover have "keeps (aover_websocket R) (aclient_close B U)"
    unfolding aclient_close_def asocket_disconnect_def
    by (intro keeps_seq akeeps_emit) (simp_all add: keeps_def)
  moreover have "keeps (aover_websocket R) (aclient_emit B U p)" for p by (simp add: aclient_emit_def akeeps_emit)
  ultimately show ?thesis
    unfolding atest_connection_def assert_def by (intro keeps_seq keeps_give keeps_unwrapped akeeps_next)
qed

section \<open>The tests on a client that was built\<close>

text \<open>The two messages of the server come first.\<close>

definition abuilt :: "base64 \<Rightarrow> (eerror + epacket) option list \<Rightarrow> nat \<Rightarrow> 'u asocket \<Rightarrow> bool" where
  "abuilt B items n s \<longleftrightarrow>
     abacklog B s = items \<and> takes n (as_transport s) (as_net s) \<and> \<not> ac_done s \<and> \<not> as_connected s"

abbreviation two_messages :: "(eerror + epacket) option list \<Rightarrow> (eerror + epacket) option list" where
  "two_messages rest \<equiv> Some (Inr (message ''hello client'')) # Some (Inr (message ''Roger Roger'')) # rest"

lemma abuilt_connects:
  assumes "abuilt B items (Suc n) s"
  obtains s' where "aclient_connect B U s = (Ok (), s')" "achatting B items n s'"
  using assms achatting_connect [of B s items n U] by (auto simp: abuilt_def)

lemma aconversation:
  assumes "achatting B (two_messages rest) (Suc n) s"
  obtains s1 s2 s3 where "next_unwrapped B U s = (Ok (message ''hello client''), s1)"
    "asocket_emit B U (message ''respond'') s1 = (Ok (), s2)"
    "next_unwrapped B U s2 = (Ok (message ''Roger Roger''), s3)" "achatting B rest n s3"
proof -
  from assms obtain s1 where s1: "next_unwrapped B U s = (Ok (message ''hello client''), s1)"
    "achatting B (Some (Inr (message ''Roger Roger'')) # rest) (Suc n) s1"
    by (rule achatting_next_message [OF _ message_id])
  from s1(2) obtain s2 where s2: "asocket_emit B U (message ''respond'') s1 = (Ok (), s2)"
    "achatting B (Some (Inr (message ''Roger Roger'')) # rest) n s2" by (rule achatting_emit [OF _ plain_packets(3)])
  from s2(2) obtain s3 where "next_unwrapped B U s2 = (Ok (message ''Roger Roger''), s3)" "achatting B rest n s3"
    by (rule achatting_next_message [OF _ message_id])
  with that s1(1) s2(1) show thesis by blast
qed

lemma aconnection_runs:
  assumes "abuilt B (two_messages rest) (Suc (Suc (Suc n))) s"
  obtains s' where "atest_connection B U s = (Ok (), s')" "takes n (as_transport s') (as_net s')"
proof -
  from assms obtain s0 where s0: "aclient_connect B U s = (Ok (), s0)" "achatting B (two_messages rest) (Suc (Suc n)) s0"
    by (rule abuilt_connects)
  from s0(2) obtain s1 s2 s3 where talk: "next_unwrapped B U s0 = (Ok (message ''hello client''), s1)"
    "asocket_emit B U (message ''respond'') s1 = (Ok (), s2)"
    "next_unwrapped B U s2 = (Ok (message ''Roger Roger''), s3)" "achatting B rest (Suc n) s3" by (rule aconversation)
  from talk(4) obtain s' where "asocket_disconnect B U s3 = (Ok (), s')" "takes n (as_transport s') (as_net s')"
    by (rule achatting_close)
  with s0(1) talk(1-3) that show thesis by (simp add: atest_connection_def aclient_emit_def aclient_close_def)
qed

lemma acloneable_runs:
  assumes "abuilt B (two_messages rest) (Suc (Suc (Suc n))) s"
  obtains s' where "acloned_client B U s = (Ok (), s')"
proof -
  from assms obtain s0 where s0: "aclient_connect B U s = (Ok (), s0)" "achatting B (two_messages rest) (Suc (Suc n)) s0"
    by (rule abuilt_connects)
  from s0(2) obtain s1 s2 s3 where talk: "next_unwrapped B U s0 = (Ok (message ''hello client''), s1)"
    "asocket_emit B U (message ''respond'') s1 = (Ok (), s2)"
    "next_unwrapped B U s2 = (Ok (message ''Roger Roger''), s3)" "achatting B rest (Suc n) s3" by (rule aconversation)
  from talk(4) obtain s' where closed: "asocket_disconnect B U s3 = (Ok (), s')" "\<not> as_connected s'"
    by (rule achatting_close)
  have "aclient_is_connected s0 = (Ok True, s0)" "aclient_is_connected s' = (Ok False, s')"
    using s0(2) closed(2) by (simp_all add: achatting_def aclient_is_connected_def asocket_is_connected_def)
  with s0(1) talk(1-3) closed(1) have "acloned_client B U s = (Ok (), s')"
    by (simp add: acloned_client_def aclient_emit_def aclient_disconnect_def seq_def [of aclient_is_connected])
  then show thesis by (rule that)
qed

lemma along_runs:
  assumes "abuilt B (Some (Inr p) # Some (Inr q) # rest) 3 s" "e_id p = EMessage" "e_id q = EPing"
  obtains s' where "along_lived B U s = (Ok (), s')"
proof -
  have "abuilt B (Some (Inr p) # Some (Inr q) # rest) (Suc (Suc (Suc 0))) s"
    using assms(1) by (simp add: numeral_3_eq_3)
  then obtain s0 where s0: "aclient_connect B U s = (Ok (), s0)"
    "achatting B (Some (Inr p) # Some (Inr q) # rest) (Suc (Suc 0)) s0" by (rule abuilt_connects)
  from s0(2) obtain s1 where s1: "next_unwrapped B U s0 = (Ok p, s1)" "achatting B (Some (Inr q) # rest) (Suc (Suc 0)) s1"
    by (rule achatting_next_message [OF _ assms(2)])
  from s1(2) obtain s2 where s2: "next_unwrapped B U s1 = (Ok q, s2)" "achatting B rest (Suc 0) s2"
    by (rule achatting_next_ping [OF _ assms(3)])
  from s2(2) obtain s' where "asocket_disconnect B U s2 = (Ok (), s')" "\<not> as_connected s'" by (rule achatting_close)
  with s0(1) s1(1) s2(1) assms(2,3) that show thesis
    by (simp add: along_lived_def aclient_disconnect_def aclient_is_connected_def asocket_is_connected_def)
qed

lemma aillegal_runs:
  assumes "abuilt B (Some (Inr p) # rest) (Suc (Suc n)) s" "e_id p = EMessage"
  obtains s' where "aillegal_then_legal B U s = (Ok (), s')" "achatting B rest (Suc n) s'"
proof -
  let ?s = "afire has_error (OnError EIllegalActionBeforeOpen) s"
  have "abuilt B (Some (Inr p) # rest) (Suc (Suc n)) ?s" using assms(1) by (simp add: abuilt_def)
  then obtain s0 where s0: "aclient_connect B U ?s = (Ok (), s0)" "achatting B (Some (Inr p) # rest) (Suc n) s0"
    by (rule abuilt_connects)
  from s0(2) obtain s1 where s1: "next_unwrapped B U s0 = (Ok p, s1)" "achatting B rest (Suc n) s1"
    by (rule achatting_next_message [OF _ assms(2)])
  have "is_err (aclient_emit B U (epacket EClose [])) s = (Ok True, ?s)"
    using asocket_emit_closed [of s B U "epacket EClose []"] assms(1) by (simp add: aclient_emit_def abuilt_def)
  moreover have "is_err (next_unwrapped B U) s0 = (Ok False, s1)" using s1(1) by simp
  ultimately have "aillegal_then_legal B U s = (Ok (), s1)"
    using s0(1) by (simp add: aillegal_then_legal_def seq_def [of "is_err _"])
  with s1(2) that show thesis by blast
qed

end
