(* ===== verification/Async_Server_Test_Runs.thy ===== *)
theory Async_Server_Test_Runs
  imports Async_Server_Tests
begin

text \<open>
  The tests of \<open>async_client.rs\<close> pass: what the asynchronous build functions make of a network that
  answers, sessions on the clients they build, and a theorem for each test.
\<close>

section \<open>Building\<close>

text \<open>The handshake is the first chunk of the first response.\<close>

lemma apolling_first_ready:
  assumes "answering (G, Inr (Inr body # cs) # A, R) n w"
  obtains w' where "atransport_first U (Polling u) w = (Ok (Some body), w')" "answering (G, A, R) n w'"
  using assms
  by (auto simp: atransport_first_def apolling_next.simps [of U u "[]"] apolling_next.simps [of U u "Inr body # cs"]
      answering_def elsewhere_def log_request_def Let_def)

lemma ado_handshake_ready:
  assumes "unshaken E b" "greets E body hs" "answering (G, Inr (Inr body # cs) # A, R) n w"
  obtains w' where "ado_handshake E b w = (Ok (shaken E b hs), w')" "answering (G, A, R) n w'"
proof -
  let ?u = "url_append (lib_url E) (eb_url b) (lit ''transport'') (lit ''polling'')"
  from assms(3) obtain w' where w': "atransport_first (lib_url E) (Polling ?u) w = (Ok (Some body), w')" "answering (G, A, R) n w'"
    by (rule apolling_first_ready)
  have "ado_handshake E b w = (Ok (shaken E b hs), w')"
    using assms(1,2) w'(1)
    by (auto simp: unshaken_def greets_def ado_handshake_def try_headers_def ahandshake_with_transport_def polling_new_def
        accept_handshake_def handshake_try_from_def seq_def simp del: lit_simps)
  with w'(2) that show thesis by blast
qed

lemma ado_handshake_down:
  assumes "unshaken E b" "answering (G, Inl e # A, R) n w"
  obtains w' where "ado_handshake E b w = (Err (EIncompleteResponseFromReqwest e), w')" "answering (G, A, R) n w'"
  using assms
  by (auto simp: unshaken_def ado_handshake_def try_headers_def ahandshake_with_transport_def polling_new_def
      atransport_first_def apolling_next.simps [of _ _ "[]"] answering_def elsewhere_def log_request_def Let_def seq_def)

lemma ado_handshake_again: "ado_handshake E (shaken E b hs) w = (Ok (shaken E b hs), w)"
  by (simp add: ado_handshake_def del: lit_simps)

lemma awebsocket_upgrade_shaken: "awebsocket_upgrade (shaken E b hs) w = (Ok (offers_websocket hs), w)"
  by (simp add: awebsocket_upgrade_def del: lit_simps)

lemma abuild_websocket_opens:
  assumes "url_laws (lib_url E)" "websocket_scheme (lib_url E) (url_scheme (lib_url E) (eb_url b)) scheme"
    "convert_headers (lib_http E) (eb_headers b) = Inr h"
  obtains url t where
    "url_set_scheme (lib_url E) (url_append (lib_url E) (eb_url b) (lit ''transport'') (lit ''websocket'')) scheme = Some url"
    "is_websocket t"
    "\<And>w. abuild_websocket E b w = seq (ws_open (lib_url E) scheme (eb_url b)) (\<lambda>_. afinish_websocket E b t) w"
proof -
  have headers: "try_headers E b w = (Ok (), w)" for w :: "'a net" using assms(3) by (simp add: try_headers_def)
  show thesis
    by (rule opens_by_scheme [OF assms(1,2), where finish_ws = "afinish_websocket E b"])
      (rule that; simp add: abuild_websocket_def headers seq_simps(1) [of "try_headers E b"] del: lit_simps)
qed

definition afresh_websocket :: "base64 \<Rightarrow> answers \<Rightarrow> nat \<Rightarrow> (eerror + epacket) option list \<Rightarrow> 'u asocket \<Rightarrow> bool" where
  "afresh_websocket B R n items s \<longleftrightarrow>
     is_websocket (as_transport s) \<and> answering R n (as_net s) \<and> abacklog B s = items \<and> \<not> ac_done s \<and> \<not> as_connected s"

lemma asocket_new_fields [simp]:
  "as_transport (asocket_new t w hs cbs) = t" "as_net (asocket_new t w hs cbs) = w" "\<not> as_connected (asocket_new t w hs cbs)"
  "\<not> ac_done (asocket_new t w hs cbs)"
  by (simp_all add: asocket_new_def)

abbreviation awebsocket_says :: "'u elib \<Rightarrow> ws_event list \<Rightarrow> (eerror + epacket) option list" where
  "awebsocket_says E es \<equiv> concat (map (aws_items (lib_b64 E)) es)"

abbreviation chunks_say :: "'u elib \<Rightarrow> (rstring + (rstring + bytes) list) list \<Rightarrow> (eerror + epacket) option list" where
  "chunks_say E A \<equiv> concat (map (response_items (lib_b64 E)) A)"

lemma afresh_websocket_new:
  "is_websocket t \<Longrightarrow> answering R n w \<Longrightarrow> ws_in w = es \<Longrightarrow>
     afresh_websocket B R n (concat (map (aws_items B) es)) (asocket_new t w hs cbs)"
  by (cases t) (simp_all add: afresh_websocket_def abacklog_def asocket_new_def anet_items_def)

lemma abuild_upgraded_websocket:
  assumes "url_laws (lib_url E)" "websocket_scheme (lib_url E) (url_scheme (lib_url E) (eb_url b)) scheme"
    "convert_headers (lib_http E) (eb_headers b) = Inr h" "eb_handshake b = Some hs"
    "answering (G, A, P, Inr (WsMsg (WsText (lit ''3probe'')) # es) # C) (Suc (Suc n)) w"
  obtains s w' where "abuild_websocket E b w = (Ok s, w')" "as_net s = w'"
    "afresh_websocket (lib_b64 E) (G, A, P, C) n (awebsocket_says E es) s"
proof -
  obtain url t where url:
    "url_set_scheme (lib_url E) (url_append (lib_url E) (eb_url b) (lit ''transport'') (lit ''websocket'')) scheme = Some url"
    and t: "is_websocket t"
    and b: "abuild_websocket E b w = seq (ws_open (lib_url E) scheme (eb_url b)) (\<lambda>_. afinish_websocket E b t) w"
    using abuild_websocket_opens [OF assms(1-3)] by metis
  from url assms(5) obtain w1 where w1: "ws_open (lib_url E) scheme (eb_url b) w = (Ok url, w1)"
    "answering (G, A, P, C) (Suc (Suc n)) w1" "ws_in w1 = WsMsg (WsText (lit ''3probe'')) # es" by (rule ws_open_ready)
  from w1(2,3) obtain w' where w': "ws_upgrade (lib_b64 E) w1 = (Ok (), w')" "answering (G, A, P, C) n w'" "ws_in w' = es"
    by (rule ws_upgrade_ready)
  have "abuild_websocket E b w = (Ok (asocket_new t w' hs (eb_callbacks b)), w')"
    using b w1(1) w'(1) assms(4) by (simp add: afinish_websocket_def make_aclient_def del: lit_simps)
  with afresh_websocket_new [OF t w'(2,3)] that show thesis by (metis asocket_new_fields(2))
qed

lemma abuild_direct_websocket:
  assumes "url_laws (lib_url E)" "websocket_scheme (lib_url E) (url_scheme (lib_url E) (eb_url b)) scheme"
    "unshaken E b" "answering (G, A, P, Inr (WsMsg (WsText m) # es) # C) n w" "greets E (utf8 m) hs"
  obtains s w' where "abuild_websocket E b w = (Ok s, w')" "as_net s = w'"
    "afresh_websocket (lib_b64 E) (G, A, P, C) n (awebsocket_says E es) s"
proof -
  obtain h where h: "convert_headers (lib_http E) (eb_headers b) = Inr h" "eb_handshake b = None"
    using assms(3) by (auto simp: unshaken_def)
  obtain url t where url:
    "url_set_scheme (lib_url E) (url_append (lib_url E) (eb_url b) (lit ''transport'') (lit ''websocket'')) scheme = Some url"
    and t: "is_websocket t"
    and b: "abuild_websocket E b w = seq (ws_open (lib_url E) scheme (eb_url b)) (\<lambda>_. afinish_websocket E b t) w"
    using abuild_websocket_opens [OF assms(1,2) h(1)] by metis
  from url assms(4) obtain w1 where w1: "ws_open (lib_url E) scheme (eb_url b) w = (Ok url, w1)"
    "answering (G, A, P, C) n w1" "ws_in w1 = WsMsg (WsText m) # es" by (rule ws_open_ready)
  let ?w' = "w1\<lparr>ws_in := es\<rparr>"
  have "atransport_first (lib_url E) t w1 = (Ok (Some (utf8 m)), ?w')"
    using w1(3) t by (cases t) (simp_all add: atransport_first_def ws_poll_next_def)
  then have "ahandshake_with_transport E t b w1 = (Ok (shaken E b hs), ?w')"
    using assms(5) h(2)
    by (auto simp: ahandshake_with_transport_def greets_def accept_handshake_def handshake_try_from_def)
  then have "abuild_websocket E b w = (Ok (asocket_new t ?w' hs (eb_callbacks b)), ?w')"
    using b w1(1) h(2) by (simp add: afinish_websocket_def make_aclient_def del: lit_simps)
  moreover have "afresh_websocket (lib_b64 E) (G, A, P, C) n (awebsocket_says E es) (asocket_new t ?w' hs (eb_callbacks b))"
    by (rule afresh_websocket_new [OF t]) (use w1(2) in \<open>simp_all add: answering_def\<close>)
  ultimately show thesis by (intro that [of "asocket_new t ?w' hs (eb_callbacks b)" ?w']) simp_all
qed

lemma abuild_over_websocket:
  assumes "url_laws (lib_url E)" "websocket_scheme (lib_url E) (url_scheme (lib_url E) (eb_url b)) scheme"
    "unshaken E b" "greets E body hs" "offers_websocket hs"
    "answering (G, Inr (Inr body # cs) # A, P, Inr (WsMsg (WsText (lit ''3probe'')) # es) # C) (Suc (Suc n)) w"
  obtains s w' where "abuild E b w = (Ok s, w')" "abuild_with_fallback E b w = (Ok s, w')"
    "abuild_websocket_with_upgrade E b w = (Ok s, w')" "as_net s = w'"
    "afresh_websocket (lib_b64 E) (G, A, P, C) n (awebsocket_says E es) s"
proof -
  from assms(3,4,6) obtain w1 where d: "ado_handshake E b w = (Ok (shaken E b hs), w1)"
    and w1: "answering (G, A, P, Inr (WsMsg (WsText (lit ''3probe'')) # es) # C) (Suc (Suc n)) w1"
    by (rule ado_handshake_ready)
  obtain h where "convert_headers (lib_http E) (eb_headers (shaken E b hs)) = Inr h"
    using assms(3) by (auto simp: unshaken_def)
  moreover have "eb_handshake (shaken E b hs) = Some hs" by simp
  moreover have "websocket_scheme (lib_url E) (url_scheme (lib_url E) (eb_url (shaken E b hs))) scheme"
    using assms(2) by (simp add: url_laws_simps [OF assms(1)] del: lit_simps)
  ultimately obtain s w' where s: "abuild_websocket E (shaken E b hs) w1 = (Ok s, w')" "as_net s = w'"
    "afresh_websocket (lib_b64 E) (G, A, P, C) n (awebsocket_says E es) s"
    using abuild_upgraded_websocket [OF assms(1) _ _ _ w1] by metis
  have up: "awebsocket_upgrade (shaken E b hs) w1 = (Ok True, w1)"
    using assms(5) by (simp add: awebsocket_upgrade_def)
  have upgrade: "abuild_websocket_with_upgrade E c v = (Ok s, w')"
    if "ado_handshake E c v = (Ok (shaken E b hs), w1)" for c v
    using that up s(1) by (simp add: abuild_websocket_with_upgrade_def del: lit_simps)
  have "abuild E b w = (Ok s, w')"
    using d up upgrade [OF ado_handshake_again] by (simp add: abuild_def del: lit_simps)
  with that upgrade [OF d] s(2,3) show thesis by (simp add: abuild_with_fallback_def)
qed

lemma abuild_over_polling:
  assumes "unshaken E b" "greets E body hs" "answering (G, Inr (Inr body # cs) # A, P, C) n w"
  obtains s w' where "abuild_polling E b w = (Ok s, w')" "\<not> offers_websocket hs \<longrightarrow> abuild E b w = (Ok s, w')"
    "as_net s = w'" "P = replicate m (Inr 200) @ P' \<longrightarrow> abuilt (lib_b64 E) (chunks_say E A) m s"
proof -
  from assms obtain w' where d: "ado_handshake E b w = (Ok (shaken E b hs), w')" and w': "answering (G, A, P, C) n w'"
    by (rule ado_handshake_ready)
  let ?s = "asocket_new (polling_new (lib_url E) (eb_url (shaken E b hs))) w' hs (eb_callbacks b)"
  have headers: "unwrap_headers E (shaken E b hs) w' = (Ok (), w')"
    using assms(1) by (auto simp: unwrap_headers_def unshaken_def)
  have polling: "abuild_polling E c v = (Ok ?s, w')" if "ado_handshake E c v = (Ok (shaken E b hs), w')" for c v
    using that headers by (simp add: abuild_polling_def make_aclient_def del: lit_simps)
  show thesis
  proof (rule that [OF polling [OF d]])
    show "\<not> offers_websocket hs \<longrightarrow> abuild E b w = (Ok ?s, w')"
      using d polling [OF ado_handshake_again] awebsocket_upgrade_shaken [where E = E and b = b and hs = hs and w = w']
      by (simp add: abuild_def seq_def del: lit_simps)
    show "P = replicate m (Inr 200) @ P' \<longrightarrow> abuilt (lib_b64 E) (chunks_say E A) m ?s"
      using w' by (simp add: abuilt_def abacklog_def asocket_new_def anet_items_def polling_new_def answering_def
          elsewhere_def takes_def)
  qed simp
qed

section \<open>Sessions\<close>

lemma on_aclient_net: "as_net s = w \<Longrightarrow> m s = (Ok (), s') \<Longrightarrow> on_aclient m s w = (Ok s', as_net s')"
  by (auto simp: on_aclient_def)

lemma over_ok: "m w = (Ok x, w') \<Longrightarrow> over m w = (Ok (), w')"
  by (simp add: over_def)

lemma arun_test_ok:
  assumes "atest_connection (lib_b64 E) (lib_url E) s = (Ok (), s')" "as_net s = w"
  shows "arun_test E s w = (Ok (), as_net s')"
  unfolding arun_test_def
  by (rule over_ok, rule on_aclient_net [where m = "atest_connection (lib_b64 E) (lib_url E)", OF assms(2,1)])

lemma afresh_built: "afresh_websocket B R n items s \<Longrightarrow> abuilt B items n s"
  using ready_takes [of "as_transport s" R n "as_net s"] by (simp add: afresh_websocket_def abuilt_def)

lemma asession_over_websocket:
  assumes "afresh_websocket (lib_b64 E) R (Suc (Suc (Suc n))) (two_messages rest) s" "as_net s = w"
  obtains w' where "arun_test E s w = (Ok (), w')" "answering R n w'"
proof -
  from afresh_built [OF assms(1)] obtain s' where s': "atest_connection (lib_b64 E) (lib_url E) s = (Ok (), s')"
    "takes n (as_transport s') (as_net s')" by (rule aconnection_runs)
  have "aover_websocket R s" using assms(1) by (simp add: afresh_websocket_def aover_websocket_def answering_def)
  from keepsD [OF akeeps_test this, of "lib_b64 E" "lib_url E"] have "aover_websocket R s'" by (simp add: s'(1))
  with s'(2) have "answering R n (as_net s')"
    by (cases "as_transport s'") (auto simp: aover_websocket_def answering_def takes_def)
  with arun_test_ok [OF s'(1) assms(2)] that show thesis by blast
qed

lemma aupgraded_session:
  assumes "url_laws (lib_url E)" "websocket_scheme (lib_url E) (url_scheme (lib_url E) (eb_url b)) scheme"
    "unshaken E b" "greets E body hs" "offers_websocket hs"
    "answering (G, Inr (Inr body # cs) # A, P, Inr (WsMsg (WsText (lit ''3probe'')) # es) # C)
       (Suc (Suc (Suc (Suc (Suc n))))) w" "awebsocket_says E es = two_messages rest"
  obtains s w1 w2 where "abuild E b w = (Ok s, w1)" "abuild_with_fallback E b w = (Ok s, w1)"
    "abuild_websocket_with_upgrade E b w = (Ok s, w1)" "arun_test E s w1 = (Ok (), w2)" "answering (G, A, P, C) n w2"
proof -
  from assms(1-6) obtain s w1 where b: "abuild E b w = (Ok s, w1)" "abuild_with_fallback E b w = (Ok s, w1)"
    "abuild_websocket_with_upgrade E b w = (Ok s, w1)" "as_net s = w1"
    and s: "afresh_websocket (lib_b64 E) (G, A, P, C) (Suc (Suc (Suc n))) (awebsocket_says E es) s"
    by (rule abuild_over_websocket)
  from s [unfolded assms(7)] b(4) obtain w2 where "arun_test E s w1 = (Ok (), w2)" "answering (G, A, P, C) n w2"
    by (rule asession_over_websocket)
  with b that show thesis by blast
qed

lemma adirect_session:
  assumes "url_laws (lib_url E)" "websocket_scheme (lib_url E) (url_scheme (lib_url E) (eb_url b)) scheme"
    "unshaken E b" "answering (G, A, P, Inr (WsMsg (WsText m) # es) # C) (Suc (Suc (Suc n))) w" "greets E (utf8 m) hs"
    "awebsocket_says E es = two_messages rest"
  obtains s w1 w2 where "abuild_websocket E b w = (Ok s, w1)" "arun_test E s w1 = (Ok (), w2)" "answering (G, A, P, C) n w2"
proof -
  from assms(1-5) obtain s w1 where b: "abuild_websocket E b w = (Ok s, w1)" "as_net s = w1"
    and s: "afresh_websocket (lib_b64 E) (G, A, P, C) (Suc (Suc (Suc n))) (awebsocket_says E es) s"
    by (rule abuild_direct_websocket)
  from s [unfolded assms(6)] b(2) obtain w2 where "arun_test E s w1 = (Ok (), w2)" "answering (G, A, P, C) n w2"
    by (rule asession_over_websocket)
  with b that show thesis by blast
qed

lemma apolling_session:
  assumes "unshaken E b" "greets E body hs"
    "answering (G, Inr (Inr body # cs) # A, replicate 3 (Inr 200) @ P, C) n w" "chunks_say E A = two_messages rest"
  obtains s w1 w2 where "abuild_polling E b w = (Ok s, w1)" "\<not> offers_websocket hs \<longrightarrow> abuild E b w = (Ok s, w1)"
    "\<not> offers_websocket hs \<longrightarrow> abuild_with_fallback E b w = (Ok s, w1)" "arun_test E s w1 = (Ok (), w2)"
proof -
  obtain s w1 where b: "abuild_polling E b w = (Ok s, w1)" "\<not> offers_websocket hs \<longrightarrow> abuild E b w = (Ok s, w1)"
    "as_net s = w1" and s: "abuilt (lib_b64 E) (chunks_say E A) 3 s"
    using abuild_over_polling [OF assms(1-3), of 3 P] by metis
  have "abuilt (lib_b64 E) (two_messages rest) (Suc (Suc (Suc 0))) s"
    using s by (simp only: assms(4) numeral_3_eq_3)
  then obtain s' where "atest_connection (lib_b64 E) (lib_url E) s = (Ok (), s')" by (rule aconnection_runs)
  from arun_test_ok [OF this b(3)] b(1,2) that show thesis by (auto simp: abuild_with_fallback_def)
qed

lemma awebsocket_refused:
  assumes "url_laws (lib_url E)" "websocket_scheme (lib_url E) (url_scheme (lib_url E) (eb_url b)) scheme"
    "unshaken E b" "answering (G, A, P, Inl e # C) n w"
  obtains w' where "is_err (abuild_websocket E b) w = (Ok True, w')" "answering (G, A, P, C) n w'"
proof -
  obtain h where "convert_headers (lib_http E) (eb_headers b) = Inr h" using assms(3) by (auto simp: unshaken_def)
  then obtain url t where url:
    "url_set_scheme (lib_url E) (url_append (lib_url E) (eb_url b) (lit ''transport'') (lit ''websocket'')) scheme = Some url"
    and b: "abuild_websocket E b w = seq (ws_open (lib_url E) scheme (eb_url b)) (\<lambda>_. afinish_websocket E b t) w"
    using abuild_websocket_opens [OF assms(1,2)] by metis
  from url assms(4) obtain w' where w': "ws_open (lib_url E) scheme (eb_url b) w = (Err (EWebsocketError e), w')"
    "answering (G, A, P, C) n w'" by (rule ws_open_refused)
  from w'(1) b have "abuild_websocket E b w = (Err (EWebsocketError e), w')" by simp
  with w'(2) that show thesis by simp
qed

lemma aupgrade_refused:
  assumes "unshaken E b" "greets E body hs" "\<not> offers_websocket hs" "answering (G, Inr (Inr body # cs) # A, R) n w"
  obtains w' where "is_err (abuild_websocket_with_upgrade E b) w = (Ok True, w')" "answering (G, A, R) n w'"
proof -
  from assms(1,2,4) obtain w' where d: "ado_handshake E b w = (Ok (shaken E b hs), w')" and w': "answering (G, A, R) n w'"
    by (rule ado_handshake_ready)
  have "abuild_websocket_with_upgrade E b w = (Err EIllegalWebsocketUpgrade, w')"
    using d assms(3) awebsocket_upgrade_shaken [where E = E and b = b and hs = hs and w = w']
    by (simp add: abuild_websocket_with_upgrade_def seq_def del: lit_simps)
  with w' that show thesis by simp
qed

lemma ahandshake_refused:
  assumes "unshaken E b" "answering (G, Inl e # A, R) n w"
  obtains w' where "is_err (abuild E b) w = (Ok True, w')" "is_err (abuild_websocket_with_upgrade E b) w = (Ok True, w')"
    "answering (G, A, R) n w'"
proof -
  from assms obtain w' where "ado_handshake E b w = (Err (EIncompleteResponseFromReqwest e), w')" "answering (G, A, R) n w'"
    by (rule ado_handshake_down)
  with that show thesis by (simp add: abuild_def abuild_websocket_with_upgrade_def)
qed

section \<open>The tests pass\<close>

text \<open>One client against a server with websockets or without.\<close>

definition aserves :: "'u elib \<Rightarrow> rstring \<Rightarrow> (eerror + epacket) option list \<Rightarrow> nat \<Rightarrow> 'u net \<Rightarrow> bool" where
  "aserves E scheme items n w \<longleftrightarrow>
     (\<exists>body cs hs G A P C m. greets E body hs \<and> answering (G, Inr (Inr body # cs) # A, P, C) m w \<and>
        (if offers_websocket hs
         then m = Suc (Suc n) \<and> (\<exists>es C' ws. C = Inr (WsMsg (WsText (lit ''3probe'')) # es) # C' \<and>
           items = awebsocket_says E es \<and> websocket_scheme (lib_url E) scheme ws)
         else (\<exists>P'. P = replicate n (Inr 200) @ P') \<and> items = chunks_say E A))"

lemma abuild_served:
  assumes "url_laws (lib_url E)" "unshaken E b" "aserves E (url_scheme (lib_url E) (eb_url b)) items n w"
  obtains s w' where "abuild E b w = (Ok s, w')" "as_net s = w'" "abuilt (lib_b64 E) items n s"
proof -
  obtain body cs hs G A P C m where hs: "greets E body hs" and w: "answering (G, Inr (Inr body # cs) # A, P, C) m w"
    and kind: "if offers_websocket hs
         then m = Suc (Suc n) \<and> (\<exists>es C' ws. C = Inr (WsMsg (WsText (lit ''3probe'')) # es) # C' \<and>
           items = awebsocket_says E es \<and> websocket_scheme (lib_url E) (url_scheme (lib_url E) (eb_url b)) ws)
         else (\<exists>P'. P = replicate n (Inr 200) @ P') \<and> items = chunks_say E A"
    using assms(3) by (auto simp: aserves_def simp del: lit_simps)
  show thesis
  proof (cases "offers_websocket hs")
    case True
    with kind obtain es C' ws where k: "m = Suc (Suc n)" "C = Inr (WsMsg (WsText (lit ''3probe'')) # es) # C'"
      "items = awebsocket_says E es" "websocket_scheme (lib_url E) (url_scheme (lib_url E) (eb_url b)) ws" by auto
    obtain s w' where "abuild E b w = (Ok s, w')" "as_net s = w'" "afresh_websocket (lib_b64 E) (G, A, P, C') n items s"
      using abuild_over_websocket [OF assms(1) k(4) assms(2) hs True w [unfolded k(1,2)]] k(3) by metis
    with that afresh_built show thesis by blast
  next
    case False
    with kind obtain P' where k: "P = replicate n (Inr 200) @ P'" "items = chunks_say E A" by auto
    obtain s w' where "abuild E b w = (Ok s, w')" "as_net s = w'" "abuilt (lib_b64 E) items n s"
      using abuild_over_polling [OF assms(2) hs w, of n P'] False k by metis
    with that show thesis by blast
  qed
qed

lemma atest_served:
  assumes "url_laws (lib_url E)" "url_parse (lib_url E) server = Inr url"
    "aserves E (url_scheme (lib_url E) url) items n w"
    and run: "\<And>s. abuilt (lib_b64 E) items n s \<Longrightarrow> \<exists>s'. m s = (Ok (), s') \<and> Q s'"
  shows "\<exists>s w1 s'. abuild E (atest_builder E url) w = (Ok s, w1) \<and> on_aclient m s w1 = (Ok s', as_net s') \<and> Q s' \<and>
    seq (parse_url E server) (\<lambda>url. seq (abuild E (atest_builder E url)) (\<lambda>s. over (on_aclient m s))) w = (Ok (), as_net s')"
proof -
  have "aserves E (url_scheme (lib_url E) (eb_url (test_builder E url))) items n w"
    using assms(3) by (simp only: test_builder_fields(2) [OF assms(1)])
  with assms(1) test_builder_fields(1) obtain s w1 where s: "abuild E (test_builder E url) w = (Ok s, w1)" "as_net s = w1"
    "abuilt (lib_b64 E) items n s" by (rule abuild_served)
  from run [OF s(3)] obtain s' where "m s = (Ok (), s')" "Q s'" by blast
  with on_aclient_net [OF s(2), of m s'] s(1) parse_url_ok [OF assms(2)] over_ok [of "on_aclient m s" w1 s' "as_net s'"]
  show ?thesis by (simp del: atest_builder_same) (simp add: s(1))
qed

theorem atest_client_cloneable_passes:
  assumes "url_laws (lib_url E)" "url_parse (lib_url E) server = Inr url"
    and "aserves E (url_scheme (lib_url E) url) (two_messages rest) (Suc (Suc (Suc n))) w"
  shows "\<exists>w'. atest_client_cloneable E server w = (Ok (), w')"
  using atest_served [OF assms, of "acloned_client (lib_b64 E) (lib_url E)" "\<lambda>_. True"]
    acloneable_runs [of "lib_b64 E" rest n _ "lib_url E"]
  unfolding atest_client_cloneable_def by blast

theorem atest_connection_dynamic_secure_passes:
  assumes "url_laws (lib_url E)" "url_parse (lib_url E) server = Inr url"
    and "aserves E (url_scheme (lib_url E) url) (two_messages rest) (Suc (Suc (Suc n))) w"
  shows "\<exists>w'. atest_connection_dynamic_secure E server w = (Ok (), w')"
  using atest_served [OF assms, of "atest_connection (lib_b64 E) (lib_url E)" "\<lambda>_. True"]
    aconnection_runs [of "lib_b64 E" rest n _ "lib_url E"]
  unfolding atest_connection_dynamic_secure_def arun_test_def by blast

text \<open>The server's second item is a ping: the test that waits for one.\<close>

theorem atest_connection_long_passes:
  assumes "url_laws (lib_url E)" "url_parse (lib_url E) server = Inr url" "e_id p = EMessage" "e_id q = EPing"
    and "aserves E (url_scheme (lib_url E) url) (Some (Inr p) # Some (Inr q) # rest) 3 w"
  shows "\<exists>w'. atest_connection_long E server w = (Ok (), w')"
  using atest_served [OF assms(1,2,5), of "along_lived (lib_b64 E) (lib_url E)" "\<lambda>_. True"]
    along_runs [OF _ assms(3,4), of "lib_b64 E" rest _ "lib_url E"]
  unfolding atest_connection_long_def by blast

lemma abuild_websocket_scheme:
  assumes "url_laws (lib_url E)" "url_scheme (lib_url E) url \<notin> {lit ''http'', lit ''ws'', lit ''https'', lit ''wss''}"
  shows "is_err (abuild_websocket E (test_builder E url)) w = (Ok True, w)"
proof -
  obtain h where "convert_headers (lib_http E) (eb_headers (test_builder E url)) = Inr h"
    using test_builder_fields(1) [of E url] by (auto simp: unshaken_def)
  with assms have "abuild_websocket E (test_builder E url) w = (Err (EInvalidUrlScheme (url_scheme (lib_url E) url)), w)"
    by (simp add: abuild_websocket_def try_headers_def Let_def test_builder_fields(2) del: lit_simps)
  then show ?thesis by simp
qed

theorem atest_illegal_actions_passes:
  assumes "url_laws (lib_url E)" "url_parse (lib_url E) server = Inr url" "e_id p = EMessage"
    and "aserves E (url_scheme (lib_url E) url) (Some (Inr p) # rest) (Suc (Suc n)) w"
    and "url_parse (lib_url E) (lit ''fake://fake.fake'') = Inr fake" "url_scheme (lib_url E) fake = lit ''fake''"
  shows "\<exists>w'. atest_illegal_actions E server w = (Ok (), w')"
proof -
  let ?m = "aillegal_then_legal (lib_b64 E) (lib_url E)"
  obtain s w1 s' where b: "abuild E (test_builder E url) w = (Ok s, w1)" "on_aclient ?m s w1 = (Ok s', as_net s')"
    and s': "achatting (lib_b64 E) rest (Suc n) s'"
    using atest_served [OF assms(1,2,4), of ?m "achatting (lib_b64 E) rest (Suc n)"]
      aillegal_runs [OF _ assms(3), of "lib_b64 E" rest n _ "lib_url E"] by (metis atest_builder_same)
  from s' obtain s2 where "asocket_disconnect (lib_b64 E) (lib_url E) s' = (Ok (), s2)" by (rule achatting_close)
  then have d: "over (on_aclient (aclient_disconnect (lib_b64 E) (lib_url E)) s') (as_net s') = (Ok (), as_net s2)"
    by (simp add: over_def on_aclient_def aclient_disconnect_def)
  have "url_scheme (lib_url E) fake \<notin> {lit ''http'', lit ''ws'', lit ''https'', lit ''wss''}" by (simp add: assms(6))
  from abuild_websocket_scheme [OF assms(1) this]
  have "is_err (abuild_websocket E (test_builder E fake)) (as_net s') = (Ok True, as_net s')" .
  moreover have "unwrapped (parse_url E (lit ''fake://fake.fake'')) (as_net s') = (Ok fake, as_net s')"
    using parse_url_ok [OF assms(5)] by (rule program_simps(2))
  ultimately show ?thesis
    using b d by (simp add: atest_illegal_actions_def parse_url_ok [OF assms(2)] del: lit_simps)
qed

theorem atest_connection_polling_passes:
  assumes "url_parse (lib_url E) server = Inr url" "greets E body hs" "chunks_say E A = two_messages rest"
    and "answering (G, Inr (Inr body # cs) # A, replicate 3 (Inr 200) @ P, C) n w"
  shows "\<exists>w'. atest_connection_polling E server w = (Ok (), w')"
  using apolling_session [OF test_builder_fields(1) assms(2,4,3)]
  by (metis atest_connection_polling_def atest_builder_same parse_url_ok [OF assms(1)] seq_simps(1))

theorem atest_connection_dynamic_passes:
  assumes "url_laws (lib_url E)" "url_parse (lib_url E) server = Inr url" "url_parse (lib_url E) polling_server = Inr url'"
    and "websocket_scheme (lib_url E) (url_scheme (lib_url E) url) scheme"
    and "greets E body hs" "offers_websocket hs" "greets E body' hs'" "\<not> offers_websocket hs'"
    and "awebsocket_says E es = two_messages rest" "chunks_say E A = two_messages rest'"
    and "answering (G, Inr (Inr body # cs) # Inr (Inr body' # cs') # A, replicate 3 (Inr 200) @ P,
           Inr (WsMsg (WsText (lit ''3probe'')) # es) # C) (Suc (Suc (Suc (Suc (Suc n))))) w"
  shows "\<exists>w'. atest_connection_dynamic E server polling_server w = (Ok (), w')"
    and "\<exists>w'. atest_connection_fallback E server polling_server w = (Ok (), w')"
proof -
  let ?b = "test_builder E url" and ?b' = "test_builder E url'"
  have "websocket_scheme (lib_url E) (url_scheme (lib_url E) (eb_url ?b)) scheme"
    using assms(4) by (simp only: test_builder_fields(2) [OF assms(1)])
  from assms(1) this test_builder_fields(1) assms(5,6,11,9) obtain s w1 w2 where
    one: "abuild E ?b w = (Ok s, w1)" "abuild_with_fallback E ?b w = (Ok s, w1)" "arun_test E s w1 = (Ok (), w2)"
    and w2: "answering (G, Inr (Inr body' # cs') # A, replicate 3 (Inr 200) @ P, C) n w2"
    by (rule aupgraded_session)
  from test_builder_fields(1) assms(7) w2 assms(10) obtain t w3 w4 where
    two: "\<not> offers_websocket hs' \<longrightarrow> abuild E ?b' w2 = (Ok t, w3)"
      "\<not> offers_websocket hs' \<longrightarrow> abuild_with_fallback E ?b' w2 = (Ok t, w3)" "arun_test E t w3 = (Ok (), w4)"
    by (rule apolling_session)
  show "\<exists>w'. atest_connection_dynamic E server polling_server w = (Ok (), w')"
    using one two assms(8) by (simp add: atest_connection_dynamic_def parse_url_ok assms(2,3))
  show "\<exists>w'. atest_connection_fallback E server polling_server w = (Ok (), w')"
    using one two assms(8) by (simp add: atest_connection_fallback_def parse_url_ok assms(2,3))
qed

theorem atest_connection_ws_passes:
  assumes "url_laws (lib_url E)" "url_parse (lib_url E) server = Inr url" "url_parse (lib_url E) polling_server = Inr url'"
    and "websocket_scheme (lib_url E) (url_scheme (lib_url E) url) scheme"
      "websocket_scheme (lib_url E) (url_scheme (lib_url E) url') scheme'"
      "websocket_scheme (lib_url E) (lit ''ws'') scheme''" "url_set_scheme (lib_url E) url (lit ''ws'') = Some url_ws"
    and "greets E body hs" "offers_websocket hs" "greets E body' hs'" "\<not> offers_websocket hs'"
      "greets E (utf8 m1) hs1" "greets E (utf8 m3) hs3"
    and "awebsocket_says E es1 = two_messages rest1" "awebsocket_says E es2 = two_messages rest2"
      "awebsocket_says E es3 = two_messages rest3"
    and "answering (G, Inr (Inr body' # cs') # Inr (Inr body # cs) # Inl down # A, P,
           Inl refused # Inr (WsMsg (WsText m1) # es1) # Inr (WsMsg (WsText (lit ''3probe'')) # es2) #
             Inr (WsMsg (WsText m3) # es3) # C)
           (Suc (Suc (Suc (Suc (Suc (Suc (Suc (Suc (Suc (Suc (Suc n))))))))))) w"
  shows "\<exists>w'. atest_connection_ws E server polling_server w = (Ok (), w')"
proof -
  let ?b = "test_builder E url" and ?b' = "test_builder E url'" and ?b_ws = "test_builder E url_ws"
  have "url_scheme (lib_url E) url_ws = lit ''ws''"
    by (rule url_laws_simps(7) [OF assms(1,7)]) simp
  then have schemes: "websocket_scheme (lib_url E) (url_scheme (lib_url E) (eb_url ?b)) scheme"
    "websocket_scheme (lib_url E) (url_scheme (lib_url E) (eb_url ?b')) scheme'"
    "websocket_scheme (lib_url E) (url_scheme (lib_url E) (eb_url ?b_ws)) scheme''"
    using assms(4-6) by (simp_all only: test_builder_fields(2) [OF assms(1)])
  note unshaken = test_builder_fields(1)
  from assms(1) schemes(2) unshaken assms(17) obtain w1 where r1: "is_err (abuild_websocket E ?b') w = (Ok True, w1)"
    and "answering (G, Inr (Inr body' # cs') # Inr (Inr body # cs) # Inl down # A, P, Inr (WsMsg (WsText m1) # es1) #
      Inr (WsMsg (WsText (lit ''3probe'')) # es2) # Inr (WsMsg (WsText m3) # es3) # C)
      (Suc (Suc (Suc (Suc (Suc (Suc (Suc (Suc (Suc (Suc (Suc n))))))))))) w1" by (rule awebsocket_refused)
  from unshaken assms(10,11) this(2) obtain w2 where r2: "is_err (abuild_websocket_with_upgrade E ?b') w1 = (Ok True, w2)"
    and "answering (G, Inr (Inr body # cs) # Inl down # A, P, Inr (WsMsg (WsText m1) # es1) #
      Inr (WsMsg (WsText (lit ''3probe'')) # es2) # Inr (WsMsg (WsText m3) # es3) # C)
      (Suc (Suc (Suc (Suc (Suc (Suc (Suc (Suc (Suc (Suc (Suc n))))))))))) w2" by (rule aupgrade_refused)
  from assms(1) schemes(1) unshaken this(2) assms(12,14) obtain s1 w3 w4 where
    t1: "abuild_websocket E ?b w2 = (Ok s1, w3)" "arun_test E s1 w3 = (Ok (), w4)"
    and "answering (G, Inr (Inr body # cs) # Inl down # A, P,
      Inr (WsMsg (WsText (lit ''3probe'')) # es2) # Inr (WsMsg (WsText m3) # es3) # C)
      (Suc (Suc (Suc (Suc (Suc (Suc (Suc (Suc n)))))))) w4" by (rule adirect_session)
  from assms(1) schemes(1) unshaken assms(8,9) this(3) assms(15) obtain s2 w5 w6 where
    t2: "abuild_websocket_with_upgrade E ?b w4 = (Ok s2, w5)" "arun_test E s2 w5 = (Ok (), w6)"
    and "answering (G, Inl down # A, P, Inr (WsMsg (WsText m3) # es3) # C) (Suc (Suc (Suc n))) w6"
    by (rule aupgraded_session)
  from assms(1) schemes(3) unshaken this(3) assms(13,16) obtain s3 w7 w8 where
    t3: "abuild_websocket E ?b_ws w6 = (Ok s3, w7)" "arun_test E s3 w7 = (Ok (), w8)"
    and "answering (G, Inl down # A, P, C) n w8" by (rule adirect_session)
  from unshaken this(3) obtain w9 where r3: "is_err (abuild_websocket_with_upgrade E ?b_ws) w8 = (Ok True, w9)"
    by (rule ahandshake_refused)
  show ?thesis
    using r1 r2 t1 t2 t3 r3
    by (simp add: atest_connection_ws_def parse_url_ok assms(2,3) set_scheme_ok [OF assms(7)] del: lit_simps)
qed

theorem atest_connection_wss_passes:
  assumes "url_laws (lib_url E)" "url_parse (lib_url E) secure_server = Inr url" "url_parse (lib_url E) polling_server = Inr url'"
    and "websocket_scheme (lib_url E) (url_scheme (lib_url E) url) scheme"
      "websocket_scheme (lib_url E) (lit ''wss'') scheme'" "url_set_scheme (lib_url E) url (lit ''wss'') = Some url_wss"
    and "convert_headers (lib_http E) (Some (host_headers host)) = Inr h"
    and "greets E body hs" "offers_websocket hs" "greets E body' hs'" "\<not> offers_websocket hs'"
      "greets E (utf8 m2) hs2" "greets E (utf8 m3) hs3"
    and "awebsocket_says E es1 = two_messages rest1" "awebsocket_says E es2 = two_messages rest2"
      "awebsocket_says E es3 = two_messages rest3"
    and "answering (G, Inr (Inr body' # cs') # Inr (Inr body # cs) # Inl down # A, P,
           Inr (WsMsg (WsText (lit ''3probe'')) # es1) # Inr (WsMsg (WsText m2) # es2) # Inr (WsMsg (WsText m3) # es3) # C)
           (Suc (Suc (Suc (Suc (Suc (Suc (Suc (Suc (Suc (Suc (Suc n))))))))))) w"
  shows "\<exists>w'. atest_connection_wss E secure_server polling_server host w = (Ok (), w')"
proof -
  let ?b = "ebuilder_headers (host_headers host) (test_builder E url)" and ?b' = "test_builder E url'"
    and ?b_wss = "ebuilder_headers (host_headers host) (test_builder E url_wss)"
  have "url_scheme (lib_url E) url_wss = lit ''wss''"
    by (rule url_laws_simps(7) [OF assms(1,6)]) simp
  then have schemes: "websocket_scheme (lib_url E) (url_scheme (lib_url E) (eb_url ?b)) scheme"
    "websocket_scheme (lib_url E) (url_scheme (lib_url E) (eb_url ?b_wss)) scheme'"
    using assms(4,5) by (simp_all only: test_builder_fields(2) [OF assms(1)] header_builder_fields(2) [OF assms(7)])
  note unshaken = header_builder_fields(1) [OF assms(7)]
  from test_builder_fields(1) assms(10,11,17) obtain w1 where r1: "is_err (abuild_websocket_with_upgrade E ?b') w = (Ok True, w1)"
    and "answering (G, Inr (Inr body # cs) # Inl down # A, P,
      Inr (WsMsg (WsText (lit ''3probe'')) # es1) # Inr (WsMsg (WsText m2) # es2) # Inr (WsMsg (WsText m3) # es3) # C)
      (Suc (Suc (Suc (Suc (Suc (Suc (Suc (Suc (Suc (Suc (Suc n))))))))))) w1" by (rule aupgrade_refused)
  from assms(1) schemes(1) unshaken assms(8,9) this(2) assms(14) obtain s1 w2 w3 where
    t1: "abuild_websocket_with_upgrade E ?b w1 = (Ok s1, w2)" "arun_test E s1 w2 = (Ok (), w3)"
    and "answering (G, Inl down # A, P, Inr (WsMsg (WsText m2) # es2) # Inr (WsMsg (WsText m3) # es3) # C)
      (Suc (Suc (Suc (Suc (Suc (Suc n)))))) w3" by (rule aupgraded_session)
  from assms(1) schemes(1) unshaken this(3) assms(12,15) obtain s2 w4 w5 where
    t2: "abuild_websocket E ?b w3 = (Ok s2, w4)" "arun_test E s2 w4 = (Ok (), w5)"
    and "answering (G, Inl down # A, P, Inr (WsMsg (WsText m3) # es3) # C) (Suc (Suc (Suc n))) w5"
    by (rule adirect_session)
  from assms(1) schemes(2) unshaken this(3) assms(13,16) obtain s3 w6 w7 where
    t3: "abuild_websocket E ?b_wss w5 = (Ok s3, w6)" "arun_test E s3 w6 = (Ok (), w7)"
    and "answering (G, Inl down # A, P, C) n w7" by (rule adirect_session)
  from unshaken this(3) obtain w8 where r2: "is_err (abuild_websocket_with_upgrade E ?b_wss) w7 = (Ok True, w8)"
    by (rule ahandshake_refused)
  show ?thesis
    using r1 t1 t2 t3 r2
    by (simp add: atest_connection_wss_def Let_def parse_url_ok assms(2,3) set_scheme_ok [OF assms(6)] del: lit_simps)
qed

theorem atest_open_invariants_passes:
  assumes "url_laws (lib_url E)" "url_parse (lib_url E) server = Inr url"
    and "url_parse (lib_url E) (lit ''this is illegal'') = Inl illegal"
      "url_parse (lib_url E) (lit ''file:///tmp/foo'') = Inr invalid"
    and "websocket_scheme (lib_url E) (url_scheme (lib_url E) url) scheme"
    and "convert_headers (lib_http E) (Some (host_headers host)) = Inr h"
    and "greets E body hs" "offers_websocket hs"
    and "answering (G, Inl unsupported # Inr (Inr body # cs1) # Inr (Inr body # cs2) # Inr (Inr body # cs3) # A, P,
           Inr (WsMsg (WsText (lit ''3probe'')) # es1) # Inr (WsMsg (WsText (lit ''3probe'')) # es2) #
             Inr (WsMsg (WsText (lit ''3probe'')) # es3) # C) (Suc (Suc (Suc (Suc (Suc (Suc n)))))) w"
  shows "\<exists>w'. atest_open_invariants E server host w = (Ok (), w')"
proof -
  let ?b = "test_builder E url" and ?h = "ebuilder_headers (host_headers host) (test_builder E url)"
    and ?refuse = "aclient_emit (lib_b64 E) (lib_url E) (epacket EClose [])"
  have scheme: "websocket_scheme (lib_url E) (url_scheme (lib_url E) (eb_url ?b)) scheme"
    using assms(5) by (simp only: test_builder_fields(2) [OF assms(1)])
  then have scheme_h: "websocket_scheme (lib_url E) (url_scheme (lib_url E) (eb_url ?h)) scheme"
    by (simp only: header_builder_fields(2) [OF assms(6)])
  note unshaken = test_builder_fields(1) and unshaken_h = header_builder_fields(1) [OF assms(6)]
  from unshaken assms(9) obtain w1 where r1: "is_err (abuild E (test_builder E invalid)) w = (Ok True, w1)"
    and "answering (G, Inr (Inr body # cs1) # Inr (Inr body # cs2) # Inr (Inr body # cs3) # A, P,
      Inr (WsMsg (WsText (lit ''3probe'')) # es1) # Inr (WsMsg (WsText (lit ''3probe'')) # es2) #
        Inr (WsMsg (WsText (lit ''3probe'')) # es3) # C) (Suc (Suc (Suc (Suc (Suc (Suc n)))))) w1"
    by (rule ahandshake_refused)
  from assms(1) scheme unshaken assms(7,8) this(2) obtain s1 w2 where b1: "abuild E ?b w1 = (Ok s1, w2)" "as_net s1 = w2"
    and s1: "afresh_websocket (lib_b64 E) (G, Inr (Inr body # cs2) # Inr (Inr body # cs3) # A, P,
      Inr (WsMsg (WsText (lit ''3probe'')) # es2) # Inr (WsMsg (WsText (lit ''3probe'')) # es3) # C)
      (Suc (Suc (Suc (Suc n)))) (awebsocket_says E es1) s1"
    by (rule abuild_over_websocket)
  have "?refuse s1 = (Err EIllegalActionBeforeOpen, afire has_error (OnError EIllegalActionBeforeOpen) s1)"
    using s1 by (simp add: aclient_emit_def asocket_emit_closed afresh_websocket_def)
  then have "on_aclient ?refuse s1 w2 = (Err EIllegalActionBeforeOpen, w2)"
    using b1(2) by (auto simp: on_aclient_def)
  then have r2: "is_err (on_aclient ?refuse s1) w2 = (Ok True, w2)" by simp
  have "answering (G, Inr (Inr body # cs2) # Inr (Inr body # cs3) # A, P, Inr (WsMsg (WsText (lit ''3probe'')) # es2) #
      Inr (WsMsg (WsText (lit ''3probe'')) # es3) # C) (Suc (Suc (Suc (Suc n)))) w2"
    using s1 b1(2) by (simp add: afresh_websocket_def)
  from assms(1) scheme unshaken assms(7,8) this obtain s2 w3 where b2: "abuild E ?b w2 = (Ok s2, w3)" "as_net s2 = w3"
    and s2: "afresh_websocket (lib_b64 E) (G, Inr (Inr body # cs3) # A, P, Inr (WsMsg (WsText (lit ''3probe'')) # es3) # C)
      (Suc (Suc n)) (awebsocket_says E es2) s2" by (rule abuild_over_websocket)
  have "answering (G, Inr (Inr body # cs3) # A, P, Inr (WsMsg (WsText (lit ''3probe'')) # es3) # C) (Suc (Suc n)) w3"
    using s2 b2(2) by (simp add: afresh_websocket_def)
  from assms(1) scheme_h unshaken_h assms(7,8) this obtain s3 w4 where b3: "abuild E ?h w3 = (Ok s3, w4)"
    by (rule abuild_over_websocket)
  have "unwrapped (parse_url E (lit ''file:///tmp/foo'')) w = (Ok invalid, w)"
    using parse_url_ok [OF assms(4)] by (rule program_simps(2))
  then show ?thesis
    using r1 b1(1) r2 b2(1) b3
    by (simp add: atest_open_invariants_def parse_url_ok [OF assms(2)] parse_url_is_err [OF assms(3)] del: lit_simps)
qed

section \<open>A server the tests pass against\<close>

definition atest_frames :: "ws_event list" where
  "atest_frames = [WsMsg (WsText (lit ''4hello client'')), WsMsg (WsText (lit ''4Roger Roger''))]"

definition atest_net :: "plain_url net" where
  "atest_net =
     \<lparr>get_in = [], stream_in = [Inr [Inr (ascii ''0{}'')], Inr [Inr (ascii ''0{u}'')], Inl (lit ''unsupported scheme'')],
      post_in = [],
      ws_connect_in = [Inl (lit ''400''), Inr (WsMsg (WsText (lit ''0{u}'')) # atest_frames),
        Inr (WsMsg (WsText (lit ''3probe'')) # atest_frames), Inr (WsMsg (WsText (lit ''0{u}'')) # atest_frames)],
      ws_in = [], ws_send_in = replicate 11 (Inr ()), wire = [], clock = 0\<rparr>"

lemma atest_frames_say: "awebsocket_says E atest_frames = two_messages []"
proof -
  have "aws_items B (WsMsg (WsText (lit (c # cs)))) = map Some (ws_items B (WsMsg (WsText (lit (c # cs)))))" for B c cs
    by (rule aws_items_agree) simp
  then show ?thesis by (simp add: atest_frames_def test_frame_items del: aws_items.simps ws_items.simps lit_simps)
qed

theorem atest_connection_ws_on_demo:
  "\<exists>w'. atest_connection_ws demo_elib server polling_server atest_net = (Ok (), w')"
proof -
  let ?U = "lib_url demo_elib" and ?url = "(lit ''http'', lit ''/'', []) :: plain_url"
  have lib: "url_parse ?U s = Inr ?url" "websocket_scheme ?U (url_scheme ?U ?url) (lit ''ws'')"
    "websocket_scheme ?U (lit ''ws'') (lit ''ws'')" "url_set_scheme ?U ?url (lit ''ws'') = Some (lit ''ws'', lit ''/'', [])" for s
    by (auto simp: demo_elib_def plain_urls_def websocket_scheme_def)
  have net: "answering ([], Inr (Inr (ascii ''0{}'') # []) # Inr (Inr (ascii ''0{u}'') # []) #
        Inl (lit ''unsupported scheme'') # [], [],
      Inl (lit ''400'') # Inr (WsMsg (WsText (lit ''0{u}'')) # atest_frames) #
        Inr (WsMsg (WsText (lit ''3probe'')) # atest_frames) # Inr (WsMsg (WsText (lit ''0{u}'')) # atest_frames) # [])
      (Suc (Suc (Suc (Suc (Suc (Suc (Suc (Suc (Suc (Suc (Suc 0))))))))))) atest_net"
    by (simp add: answering_def elsewhere_def atest_net_def eval_nat_numeral del: lit_simps ascii_simps)
  show ?thesis
    by (rule atest_connection_ws_passes [OF demo_elib_laws(1) lib(1,1,2,2,3,4) demo_greets(1) demo_offers(1)
          demo_greets(2) demo_offers(2) demo_greets(3,3) atest_frames_say atest_frames_say atest_frames_say net])
qed

end
