(* ===== verification/Sio_Server_Tests.thy ===== *)
theory Sio_Server_Tests
  imports Server_Test_Runs Panics Sio_Client Unit_Tests
begin

text \<open>
  The tests of \<open>socketio/src/client/raw_client.rs\<close> in which one thread polls a \<open>RawClient\<close> itself, as programs
  over the model, and that they pass against a server that sends what \<open>ci/socket-io.js\<close> sends. The
  addresses are those that the environment variables hold; the TLS connector is left out as it is in the
  builder. The callbacks of the tests only print.
\<close>

section \<open>Programs\<close>

text \<open>\<open>Iter::next\<close> of a \<open>RawClient\<close>.\<close>

definition raw_next :: "('u, 'j) slib \<Rightarrow> ('u, 'j, (serror + spacket) option) raw_proc" where
  "raw_next L s =
     (case raw_poll L s of
        (Err err, s') \<Rightarrow> (Ok (Some (Inl err)), s')
      | (Ok (Some packet), s') \<Rightarrow> (Ok (Some (Inr packet)), s')
      | (Ok None, s') \<Rightarrow> (Ok None, s')
      | (Panic, s') \<Rightarrow> (Panic, s')
      | (Block, s') \<Rightarrow> (Block, s'))"

text \<open>Polling takes its packet from the items to come; callbacks take none.\<close>

lemma raw_poll_consumes: "raw_poll L s = (Ok (Some p), s') \<Longrightarrow> raw_backlog L s' < raw_backlog L s"
proof (induction L s rule: raw_poll.induct)
  case (1 L s)
  obtain r s1 where r: "on_socket (ssocket_poll (sl_b64 L) (sl_url L) (sl_json L)) s = (r, s1)" by fastforce
  with "1.prems" obtain q where q: "r = Ok (Some q)"
    by (subst (asm) raw_poll.simps) (auto elim!: seq_OkE split: outcome.splits option.splits)
  have less: "raw_backlog L s1 < raw_backlog L s"
    using on_socket_poll_backlog [of q s1 L "sl_url L" "sl_json L" s] r q by simp
  show ?case
  proof (cases "s_nsp q = rw_nsp s1")
    case True
    then obtain u where "raw_handle_packet L q s1 = (Ok u, s')"
      using "1.prems" r q by (subst (asm) raw_poll.simps) (auto elim!: seq_OkE)
    moreover have "in_socket (\<lambda>t. backlog (sl_b64 L) (ss_engine t) = raw_items L s1) s1" by (simp add: in_socket_def)
    ultimately have "in_socket (\<lambda>t. backlog (sl_b64 L) (ss_engine t) = raw_items L s1) s'"
      using keepsD [OF items_kept.client.packet_frame] by (metis snd_conv)
    with less show ?thesis by (simp add: in_socket_def raw_backlog_def)
  next
    case False
    with "1.prems" r q have "raw_poll L s1 = (Ok (Some p), s')" by (subst (asm) raw_poll.simps) simp
    with "1.IH" [OF r [symmetric] q refl False] less show ?thesis by simp
  qed
qed

lemma raw_next_backlog: "raw_next L s = (Ok (Some (Inr p)), s') \<Longrightarrow> raw_backlog L s' < raw_backlog L s"
  by (auto simp: raw_next_def dest!: raw_poll_consumes split: prod.splits outcome.splits option.splits)

text \<open>\<open>iter().map(|packet| packet.unwrap()).filter(|packet| packet.packet_type != PacketId::Connect)\<close>.\<close>

function raw_next_other :: "('u, 'j) slib \<Rightarrow> ('u, 'j, spacket option) raw_proc" where
  "raw_next_other L s =
     (case raw_next L s of
        (Ok (Some (Inr p)), s') \<Rightarrow> if s_type p \<noteq> SConnect then (Ok (Some p), s') else raw_next_other L s'
      | (Ok (Some (Inl err)), s') \<Rightarrow> (Panic, s')
      | (Ok None, s') \<Rightarrow> (Ok None, s')
      | (Err err, s') \<Rightarrow> (Err err, s')
      | (Panic, s') \<Rightarrow> (Panic, s')
      | (Block, s') \<Rightarrow> (Block, s'))"
  by pat_completeness auto
termination
  by (relation "measure (\<lambda>(L, s). raw_backlog L s)") (auto dest: raw_next_backlog [OF sym])

declare raw_next_other.simps [simp del]

text \<open>\<open>assert!(packet.is_some())\<close>, \<open>packet.unwrap()\<close> and \<open>assert_eq!\<close>.\<close>

definition expect_packet :: "('u, 'j) slib \<Rightarrow> spacket \<Rightarrow> ('u, 'j, unit) raw_proc" where
  "expect_packet L expected =
     seq (raw_next_other L) (\<lambda>packet.
     seq (assert (packet \<noteq> None)) (\<lambda>_.
     seq (give (case packet of None \<Rightarrow> Panic | Some p \<Rightarrow> Ok p)) (\<lambda>packet.
     assert (packet = expected))))"

text \<open>\<open>assert!(m.is_ok())\<close>.\<close>

definition assert_ok :: "('s, 'e, 'a) proc \<Rightarrow> ('s, 'e, unit) proc" where
  "assert_ok m = seq (is_err m) (\<lambda>failed. assert (\<not> failed))"

text \<open>The four events of the server. The first two are text; of the last two one has no name.\<close>

definition server_packets :: "rstring \<Rightarrow> spacket list" where
  \<open>server_packets nsp =
     [spacket SEvent nsp (Some (lit ''["Hello from the message event!"]'')) None 0 None,
      spacket SEvent nsp (Some (lit ''["test","Hello from the test event!"]'')) None 0 None,
      spacket SBinaryEvent nsp None None 1 (Some [[4, 5, 6]]),
      spacket SBinaryEvent nsp (Some (lit ''"test"'')) None 1 (Some [[1, 2, 3]])]\<close>

text \<open>Times are in seconds; callback \<open>0\<close> is the one of the acknowledgement.\<close>

definition test_socketio_socket :: "('u, 'j) slib \<Rightarrow> rstring \<Rightarrow> ('u, 'j, unit) raw_proc" where
  "test_socketio_socket L nsp =
     seq (expect_packet L (server_packets nsp ! 0)) (\<lambda>_.
     seq (expect_packet L (server_packets nsp ! 1)) (\<lambda>_.
     seq (expect_packet L (server_packets nsp ! 2)) (\<lambda>_.
     seq (expect_packet L (server_packets nsp ! 3)) (\<lambda>_.
     assert_ok (raw_emit_with_ack L (event_of_string (lit ''test'')) (PString (lit ''123'')) 10 0)))))"

section \<open>The tests\<close>

definition on_raw_client :: "('u, 'j, 'a) raw_proc \<Rightarrow> ('u, 'j) raw \<Rightarrow> ('u net, serror, 'a) proc" where
  "on_raw_client m r w = (case m (with_net w r) of (x, r') \<Rightarrow> (x, raw_net r'))"

text \<open>The tests of one transport: \<open>socketio_polling_integration\<close> and the like.\<close>

definition test_transport ::
  "('u, 'j) slib \<Rightarrow> transport_type \<Rightarrow> rstring \<Rightarrow> (nat \<Rightarrow> nat) \<Rightarrow> (nat \<Rightarrow> nat) \<Rightarrow> ('u net, serror, unit) proc" where
  "test_transport L transport url time rand =
     seq (connect_raw L (sb_set_transport transport (sbuilder_new url)) time rand [])
       (on_raw_client (test_socketio_socket L (lit ''/'')))"

definition socketio_polling_integration ::
  "('u, 'j) slib \<Rightarrow> rstring \<Rightarrow> (nat \<Rightarrow> nat) \<Rightarrow> (nat \<Rightarrow> nat) \<Rightarrow> ('u net, serror, unit) proc" where
  "socketio_polling_integration L = test_transport L TPolling"

definition socket_io_websocket_integration ::
  "('u, 'j) slib \<Rightarrow> rstring \<Rightarrow> (nat \<Rightarrow> nat) \<Rightarrow> (nat \<Rightarrow> nat) \<Rightarrow> ('u net, serror, unit) proc" where
  "socket_io_websocket_integration L = test_transport L TWebsocket"

definition socket_io_websocket_upgrade_integration ::
  "('u, 'j) slib \<Rightarrow> rstring \<Rightarrow> (nat \<Rightarrow> nat) \<Rightarrow> (nat \<Rightarrow> nat) \<Rightarrow> ('u net, serror, unit) proc" where
  "socket_io_websocket_upgrade_integration L = test_transport L TWebsocketUpgrade"

definition socket_io_any_integration ::
  "('u, 'j) slib \<Rightarrow> rstring \<Rightarrow> (nat \<Rightarrow> nat) \<Rightarrow> (nat \<Rightarrow> nat) \<Rightarrow> ('u net, serror, unit) proc" where
  "socket_io_any_integration L = test_transport L TAny"

text \<open>\<open>json!("..")\<close> as a payload; callbacks \<open>1\<close> and \<open>2\<close> are those of \<open>test\<close> and \<open>message\<close>.\<close>

definition admin_builder :: "rstring \<Rightarrow> 'j sbuilder" where
  "admin_builder url =
     sb_set_on (event_of_string (lit ''message'')) 2 (sb_set_on (event_of_string (lit ''test'')) 1
       (sb_opening_header (header_name_of_string (lit ''accept-encoding'')) (header_value_of_str (lit ''application/json''))
         (sb_set_namespace (lit ''/admin'') (sbuilder_new url))))"

definition admin_calls :: "('u, 'j) slib \<Rightarrow> ('u, 'j, unit) raw_proc" where
  "admin_calls L =
     seq (assert_ok (raw_emit L (event_of_string (lit ''message''))
       (payload_of_value (sl_json L) (json_string (sl_json L) (lit ''Hello World''))))) (\<lambda>_.
     seq (assert_ok (raw_emit L (event_of_string (lit ''binary'')) (payload_of_bytes [46, 88]))) (\<lambda>_.
     assert_ok (raw_emit_with_ack L (event_of_string (lit ''binary''))
       (payload_of_value (sl_json L) (json_string (sl_json L) (lit ''pls ack''))) 1 0)))"

definition socket_io_builder_integration_iterator ::
  "('u, 'j) slib \<Rightarrow> rstring \<Rightarrow> (nat \<Rightarrow> nat) \<Rightarrow> (nat \<Rightarrow> nat) \<Rightarrow> ('u net, serror, unit) proc" where
  "socket_io_builder_integration_iterator L url time rand =
     seq (connect_raw L (admin_builder url) time rand [])
       (on_raw_client (seq (admin_calls L) (\<lambda>_. test_socketio_socket L (lit ''/admin''))))"

definition auth_packet :: spacket where
  \<open>auth_packet = spacket SEvent (lit ''/admin'') (Some (lit ''["auth","success"]'')) None 0 None\<close>

text \<open>\<open>password\<close> is the value \<open>json!({ "password": "123" })\<close>.\<close>

definition socket_io_auth_builder_integration ::
  "('u, 'j) slib \<Rightarrow> 'j \<Rightarrow> rstring \<Rightarrow> (nat \<Rightarrow> nat) \<Rightarrow> (nat \<Rightarrow> nat) \<Rightarrow> ('u net, serror, unit) proc" where
  "socket_io_auth_builder_integration L password url time rand =
     seq (connect_raw L (sb_set_auth password (sb_set_namespace (lit ''/admin'') (sbuilder_new url))) time rand [])
       (on_raw_client (expect_packet L auth_packet))"

section \<open>A client in conversation\<close>

definition raw_chatting :: "('u, 'j) slib \<Rightarrow> (eerror + epacket) list \<Rightarrow> nat \<Rightarrow> ('u, 'j) raw \<Rightarrow> bool" where
  "raw_chatting L items n r \<longleftrightarrow> ss_connected (rw_socket r) \<and> \<not> rw_acks_locked r \<and>
     chatting (sl_b64 L) items n (ss_engine (rw_socket r))"

text \<open>The engine packets that a packet of socket.io arrives in: its text, then its attachments.\<close>

definition arrives_in :: "('j, 'z) jsonlib_scheme \<Rightarrow> spacket \<Rightarrow> epacket list \<Rightarrow> bool" where
  "arrives_in J p qs \<longleftrightarrow>
     (\<exists>q as. qs = q # as \<and> list_all (\<lambda>q. is_message (e_id q)) qs \<and>
        spacket_try_from J (e_data q) = Inr (p\<lparr>s_attachments := None\<rparr>) \<and> unat (s_count p) = length as \<and>
        s_attachments p = (if as = [] then None else Some (map e_data as)))"

lemma chatting_engine_message:
  assumes "chatting B (Inr p # items) n s" "is_message (e_id p)"
  obtains s' where "eclient_poll B U s = (Ok (Some p), s')" "chatting B items n s'"
proof -
  from assms(1) obtain s1 where "esocket_poll B U s = (Ok (Some p), s1)" "chatting B items n s1" by (rule chatting_poll)
  with assms(2) that show thesis by (auto simp: is_message_def eclient_poll_step eclient_react_def)
qed

lemma chatting_attachments:
  assumes "chatting B (map Inr qs @ items) n (ss_engine t)" "list_all (\<lambda>q. is_message (e_id q)) qs"
  shows "\<exists>e. read_attachments B U (length qs) as t = (Ok (as @ map e_data qs), t\<lparr>ss_engine := e\<rparr>) \<and> chatting B items n e"
  using assms
proof (induction qs arbitrary: t as)
  case Nil
  then show ?case by (intro exI [of _ "ss_engine t"]) simp
next
  case (Cons q qs)
  from Cons.prems have "chatting B (Inr q # map Inr qs @ items) n (ss_engine t)" "is_message (e_id q)" by simp_all
  then obtain e where e: "eclient_poll B U (ss_engine t) = (Ok (Some q), e)" "chatting B (map Inr qs @ items) n e"
    by (rule chatting_engine_message)
  have "on_engine (eclient_poll B U) t = (Ok (Some q), t\<lparr>ss_engine := e\<rparr>)" by (simp add: on_engine_def e(1))
  with Cons.IH [of "t\<lparr>ss_engine := e\<rparr>" "as @ [e_data q]"] e(2) Cons.prems(2) show ?case by auto
qed

lemma ssocket_receives:
  assumes "chatting B (map Inr qs @ items) n (ss_engine t)" "arrives_in J p qs"
  obtains e where "ssocket_poll B U J t = (Ok (Some p), ss_handle_packet p (t\<lparr>ss_engine := e\<rparr>))" "chatting B items n e"
proof -
  let ?p = "p\<lparr>s_attachments := None\<rparr>"
  obtain q as where q: "qs = q # as" "is_message (e_id q)" "list_all (\<lambda>q. is_message (e_id q)) as"
    "spacket_try_from J (e_data q) = Inr ?p" "unat (s_count p) = length as"
    "s_attachments p = (if as = [] then None else Some (map e_data as))"
    using assms(2) by (auto simp: arrives_in_def)
  have "chatting B (Inr q # map Inr as @ items) n (ss_engine t)" using assms(1) by (simp add: q(1))
  then obtain e1 where e1: "eclient_poll B U (ss_engine t) = (Ok (Some q), e1)" "chatting B (map Inr as @ items) n e1"
    using q(2) by (rule chatting_engine_message)
  obtain e where e: "read_attachments B U (length as) [] (t\<lparr>ss_engine := e1\<rparr>) = (Ok (map e_data as), t\<lparr>ss_engine := e\<rparr>)"
    "chatting B items n e" using chatting_attachments [OF _ q(3), of B items n "t\<lparr>ss_engine := e1\<rparr>" U "[]"] e1(2) by auto
  have "handle_engineio_packet B U J q (t\<lparr>ss_engine := e1\<rparr>) = (Ok p, t\<lparr>ss_engine := e\<rparr>)"
  proof (cases "as = []")
    case True
    with q(5,6) have "s_count p = 0" "?p = p" by (simp_all add: unat_eq_0)
    with q(4) e(1) True show ?thesis by (simp add: handle_engineio_packet_def)
  next
    case False
    with q(5) have "s_count p > 0" by (metis length_greater_0_conv word_gt_0 unat_gt_0)
    with q(4-6) e(1) False show ?thesis by (simp add: handle_engineio_packet_def)
  qed
  with e1(1) q(2) have "ssocket_poll B U J t = (Ok (Some p), ss_handle_packet p (t\<lparr>ss_engine := e\<rparr>))"
    by (subst ssocket_poll.simps) simp
  with e(2) that show thesis by blast
qed

text \<open>Callbacks that make no calls are recorded and change nothing else.\<close>

lemma silent_handling:
  assumes "\<And>h. sl_script L h = []" "s_type p \<in> {SConnect, SEvent, SBinaryEvent}" "\<not> empty_event L p"
  obtains calls where "raw_handle_packet L p r = (Ok (), r\<lparr>rw_calls := rw_calls r @ calls\<rparr>)"
proof -
  note silent = raw_callback_silent [OF assms(1)]
  have none: "\<exists>calls. r = r\<lparr>rw_calls := rw_calls r @ calls\<rparr>" by (rule exI [of _ "[]"]) simp
  have some: "\<exists>calls'. r\<lparr>rw_calls := rw_calls r @ calls\<rparr> = r\<lparr>rw_calls := rw_calls r @ calls'\<rparr>" for calls by blast
  have "\<exists>calls. handle_event L p r = (Ok (), r\<lparr>rw_calls := rw_calls r @ calls\<rparr>)" if "s_type p = SEvent"
    using assms(3) that
    by (auto simp: handle_event_def empty_event_def Let_def silent split: option.split sum.split list.split intro!: none some)
  moreover have "\<exists>calls. handle_binary_event L p r = (Ok (), r\<lparr>rw_calls := rw_calls r @ calls\<rparr>)"
    by (auto simp: handle_binary_event_def Let_def silent split: option.split list.split intro!: none some)
  ultimately have "\<exists>calls. raw_handle_packet L p r = (Ok (), r\<lparr>rw_calls := rw_calls r @ calls\<rparr>)"
    using assms(2) by (auto simp: raw_handle_packet_def report_def silent intro!: none some)
  with that show thesis by blast
qed

lemma raw_receives:
  assumes "raw_chatting L (map Inr qs @ items) n r" "arrives_in (sl_json L) p qs" "s_nsp p = rw_nsp r"
    and "\<And>h. sl_script L h = []" "s_type p \<in> {SConnect, SEvent, SBinaryEvent}" "\<not> empty_event L p"
  obtains r' where "raw_next L r = (Ok (Some (Inr p)), r')" "raw_chatting L items n r'" "rw_nsp r' = rw_nsp r"
proof -
  have "chatting (sl_b64 L) (map Inr qs @ items) n (ss_engine (rw_socket r))"
    using assms(1) by (simp add: raw_chatting_def)
  then obtain e where e: "ssocket_poll (sl_b64 L) (sl_url L) (sl_json L) (rw_socket r) =
      (Ok (Some p), ss_handle_packet p ((rw_socket r)\<lparr>ss_engine := e\<rparr>))" "chatting (sl_b64 L) items n e"
    using assms(2) by (rule ssocket_receives)
  let ?r = "r\<lparr>rw_socket := ss_handle_packet p ((rw_socket r)\<lparr>ss_engine := e\<rparr>)\<rparr>"
  obtain calls where "raw_handle_packet L p ?r = (Ok (), ?r\<lparr>rw_calls := rw_calls ?r @ calls\<rparr>)"
    using assms(4-6) by (rule silent_handling)
  with raw_poll_step [OF e(1) assms(3)] have "raw_next L r = (Ok (Some (Inr p)), ?r\<lparr>rw_calls := rw_calls ?r @ calls\<rparr>)"
    by (simp add: raw_next_def)
  moreover have "ss_connected (ss_handle_packet p ((rw_socket r)\<lparr>ss_engine := e\<rparr>))"
    using assms(1,5) by (auto simp: raw_chatting_def ss_handle_packet_def)
  ultimately show thesis using that e(2) assms(1) by (simp add: raw_chatting_def)
qed

lemma raw_expects:
  assumes "raw_chatting L (map Inr qs @ items) n r" "arrives_in (sl_json L) p qs" "s_nsp p = rw_nsp r"
    and "\<And>h. sl_script L h = []" "s_type p \<in> {SEvent, SBinaryEvent}" "\<not> empty_event L p"
  obtains r' where "expect_packet L p r = (Ok (), r')" "raw_chatting L items n r'" "rw_nsp r' = rw_nsp r"
proof -
  from assms(5) have "s_type p \<in> {SConnect, SEvent, SBinaryEvent}" by auto
  from assms(1-4) this assms(6) obtain r' where "raw_next L r = (Ok (Some (Inr p)), r')"
    and r': "raw_chatting L items n r'" "rw_nsp r' = rw_nsp r" by (rule raw_receives)
  then have "raw_next_other L r = (Ok (Some p), r')" using assms(5) by (subst raw_next_other.simps) auto
  then have "expect_packet L p r = (Ok (), r')" by (simp add: expect_packet_def)
  with r' that show thesis by blast
qed

text \<open>The answer to the connect packet is skipped by the filter.\<close>

lemma raw_expects_after_connect:
  assumes "raw_chatting L (map Inr cs @ map Inr qs @ items) n r" "arrives_in (sl_json L) c cs" "s_nsp c = rw_nsp r"
    and "s_type c = SConnect" "arrives_in (sl_json L) p qs" "s_nsp p = rw_nsp r"
    and "\<And>h. sl_script L h = []" "s_type p \<in> {SEvent, SBinaryEvent}" "\<not> empty_event L p"
  obtains r' where "expect_packet L p r = (Ok (), r')" "raw_chatting L items n r'" "rw_nsp r' = rw_nsp r"
proof -
  have "s_type c \<in> {SConnect, SEvent, SBinaryEvent}" "\<not> empty_event L c" using assms(4) by (simp_all add: empty_event_def)
  with assms(1-3,7) obtain r1 where r1: "raw_next L r = (Ok (Some (Inr c)), r1)"
    "raw_chatting L (map Inr qs @ items) n r1" "rw_nsp r1 = rw_nsp r" by (metis raw_receives)
  from r1(2) assms(5) have "s_nsp p = rw_nsp r1" using assms(6) r1(3) by simp
  from r1(2) assms(5) this assms(7-9) obtain r' where "expect_packet L p r1 = (Ok (), r')"
    and r': "raw_chatting L items n r'" "rw_nsp r' = rw_nsp r1" by (rule raw_expects)
  moreover have "raw_next_other L r = raw_next_other L r1"
    using r1(1) assms(4) by (subst raw_next_other.simps) simp
  ultimately have "expect_packet L p r = (Ok (), r')" by (simp add: expect_packet_def seq_def)
  with r' r1(3) that show thesis by simp
qed

section \<open>Sending\<close>

lemma plain_message: "list_all scalar t \<Longrightarrow> plain B (epacket EMessage (utf8 t))"
proof -
  assume t: "list_all scalar t"
  have "epacket_to_bytes B (epacket EMessage (utf8 t)) = utf8 (of_char CHR ''4'' # t)"
    by (simp add: epacket_to_bytes_def epacket_def)
  moreover have "from_utf8 (utf8 (of_char CHR ''4'' # t)) = Some (of_char CHR ''4'' # t)"
    using t by (intro from_utf8_utf8) (auto simp: list_all_iff scalar_def)
  ultimately show ?thesis by (simp add: plain_def)
qed

lemma chatting_send_attachments:
  assumes "chatting B items (length as + n) (ss_engine t)"
  shows "\<exists>e. send_attachments B U as t = (Ok (), t\<lparr>ss_engine := e\<rparr>) \<and> chatting B items n e"
  using assms
proof (induction as arbitrary: t)
  case Nil
  then show ?case by (intro exI [of _ "ss_engine t"]) simp
next
  case (Cons a as)
  have "plain B (epacket EMessageBinary a)" by (simp add: plain_def)
  with Cons.prems obtain e where e: "esocket_emit B U (epacket EMessageBinary a) (ss_engine t) = (Ok (), e)"
    "chatting B items (length as + n) e" by (auto elim: chatting_emit)
  then have "on_engine (esocket_emit B U (epacket EMessageBinary a)) t = (Ok (), t\<lparr>ss_engine := e\<rparr>)"
    by (simp add: on_engine_def)
  with Cons.IH [of "t\<lparr>ss_engine := e\<rparr>"] e(2) show ?case by auto
qed

definition frames_of :: "spacket \<Rightarrow> nat" where
  "frames_of p = Suc (case s_attachments p of None \<Rightarrow> 0 | Some as \<Rightarrow> length as)"

lemma raw_sends:
  assumes "raw_chatting L items (frames_of p + n) r" "encode_text (sl_oc L) p = Some enc" "list_all scalar enc"
  obtains r' where "on_socket (ssocket_send (sl_oc L) (sl_b64 L) (sl_url L) p) r = (Ok (), r')"
    "raw_chatting L items n r'" "rw_nsp r' = rw_nsp r"
proof -
  let ?t = "rw_socket r" and ?B = "sl_b64 L" and ?U = "sl_url L"
  have t: "ss_connected ?t" "chatting ?B items (frames_of p + n) (ss_engine ?t)"
    using assms(1) by (simp_all add: raw_chatting_def)
  then have open': "es_connected (ss_engine ?t)" by (simp add: chatting_def)
  obtain m where m: "frames_of p + n = Suc (m + n)" "m = (case s_attachments p of None \<Rightarrow> 0 | Some as \<Rightarrow> length as)"
    by (simp add: frames_of_def)
  from t(2) obtain e where e: "esocket_emit ?B ?U (epacket EMessage (utf8 enc)) (ss_engine ?t) = (Ok (), e)"
    "chatting ?B items (m + n) e" unfolding m(1) by (rule chatting_emit [OF _ plain_message [OF assms(3)]])
  obtain e' where e': "(case s_attachments p of Some as \<Rightarrow> send_attachments ?B ?U as | None \<Rightarrow> give (Ok ())) (?t\<lparr>ss_engine := e\<rparr>)
      = (Ok (), ?t\<lparr>ss_engine := e'\<rparr>)" "chatting ?B items n e'"
  proof (cases "s_attachments p")
    case None
    with that [of e] e(2) m(2) show thesis by simp
  next
    case (Some as)
    with chatting_send_attachments [of ?B items as n "?t\<lparr>ss_engine := e\<rparr>" ?U] e(2) m(2) that show thesis by auto
  qed
  have "spacket_to_bytes (sl_oc L) p = (Ok (utf8 enc) :: (serror, bytes) outcome)" by (simp add: spacket_to_bytes_def assms(2))
  then have "ssocket_send (sl_oc L) ?B ?U p ?t = (Ok (), ?t\<lparr>ss_engine := e'\<rparr>)"
    using t(1) open' e(1) e'(1) by (simp add: ssocket_send_def is_engineio_connected_def on_engine_def seq_def)
  then have "on_socket (ssocket_send (sl_oc L) ?B ?U p) r = (Ok (), r\<lparr>rw_socket := ?t\<lparr>ss_engine := e'\<rparr>\<rparr>)"
    by (simp add: on_socket_def)
  with that e'(2) assms(1) show thesis by (simp add: raw_chatting_def)
qed

text \<open>A Rust string is scalar values, so what \<open>serde_json\<close> prints is.\<close>

definition json_scalar :: "('j, 'z) jsonlib_scheme \<Rightarrow> bool" where
  "json_scalar J \<longleftrightarrow> (\<forall>v. list_all scalar (json_print J v))"

definition scalar_payload :: "spayload \<Rightarrow> bool" where
  "scalar_payload d = (case d of PString s \<Rightarrow> list_all scalar s | PBinary b \<Rightarrow> True)"

lemma payload_text:
  assumes "json_scalar J" "list_all scalar nsp" "list_all scalar (event_to_string e)" "scalar_payload d"
  obtains enc where "encode_text oc (build_packet_for_payload J d e nsp i) = Some enc" "list_all scalar enc"
    "frames_of (build_packet_for_payload J d e nsp i) = (case d of PString s \<Rightarrow> 1 | PBinary b \<Rightarrow> 2)"
proof (cases d)
  case (PString s)
  obtain data where p: "build_packet_for_payload J (PString s) e nsp i = spacket SEvent nsp (Some data) i 0 None"
    and data: "list_all scalar data"
    using assms(3,4)
    by (auto simp: PString build_packet_for_payload_def scalar_payload_def quote_json_def scalar_def split: sum.splits)
  have "list_all scalar (encode_head (spacket SEvent nsp (Some data) i 0 None))"
    by (rule encode_head_scalars) (use assms(2) in \<open>simp add: spacket_def\<close>)
  with data show thesis
    by (intro that [of "encode_head (spacket SEvent nsp (Some data) i 0 None) @ data"])
      (simp_all add: p PString encode_text_def frames_of_def spacket_def)
next
  case (PBinary b)
  let ?p = "build_packet_for_payload J (PBinary b) e nsp i" and ?name = "json_print J (json_string J (event_to_string e))"
  have p: "s_attachments ?p = Some [b]" "s_count ?p = 1" "s_data ?p = Some ?name" "s_nsp ?p = nsp"
    by (simp_all add: PBinary build_packet_for_payload_def spacket_def)
  have "list_all scalar (encode_head ?p)" by (rule encode_head_scalars) (use assms(2) in \<open>simp add: p\<close>)
  moreover have "list_all scalar ?name" using assms(1) by (simp add: json_scalar_def)
  moreover have "list_all scalar (placeholder (u8_to_string 0))"
    by (simp add: placeholder_def u8_to_string_def decimal_small scalar_def)
  ultimately show thesis
    by (intro that [of "encode_head ?p @ lit ''['' @ (?name @ lit '','') @ placeholder (u8_to_string 0) @ lit '']''"])
      (simp_all add: p PBinary encode_text_def frames_of_def scalar_def)
qed

lemma raw_emits:
  assumes "raw_chatting L items (f + n) r" "json_scalar (sl_json L)" "list_all scalar (rw_nsp r)"
    "list_all scalar (event_to_string e)" "scalar_payload d" "f = (case d of PString s \<Rightarrow> 1 | PBinary b \<Rightarrow> 2)"
  obtains r' where "raw_emit L e d r = (Ok (), r')" "raw_chatting L items n r'" "rw_nsp r' = rw_nsp r"
proof -
  let ?p = "build_packet_for_payload (sl_json L) d e (rw_nsp r) None"
  from assms(2-5) obtain enc where t: "encode_text (sl_oc L) ?p = Some enc" "list_all scalar enc" "frames_of ?p = f"
    unfolding assms(6) by (rule payload_text)
  from assms(1) [folded t(3)] t(1,2) obtain r' where
    "on_socket (ssocket_send (sl_oc L) (sl_b64 L) (sl_url L) ?p) r = (Ok (), r')" "raw_chatting L items n r'"
    "rw_nsp r' = rw_nsp r" by (rule raw_sends)
  with that show thesis by (simp add: raw_emit_def ssocket_emit_def)
qed

lemma raw_requests:
  assumes "raw_chatting L items (f + n) r" "json_scalar (sl_json L)" "list_all scalar (rw_nsp r)"
    "list_all scalar (event_to_string e)" "scalar_payload d" "f = (case d of PString s \<Rightarrow> 1 | PBinary b \<Rightarrow> 2)"
  obtains r' where "raw_emit_with_ack L e d timeout cb r = (Ok (), r')" "raw_chatting L items n r'" "rw_nsp r' = rw_nsp r"
proof -
  obtain i r1 where i: "draw_id r = (i, r1)" by fastforce
  obtain now r2 where now: "read_clock r1 = (now, r2)" by fastforce
  let ?p = "build_packet_for_payload (sl_json L) d e (rw_nsp r) (Some i)"
  let ?r = "r2\<lparr>rw_acks := rw_acks r2 @ [\<lparr>ack_id = i, ack_timeout = timeout, ack_started = now, ack_callback = cb\<rparr>]\<rparr>"
  have same: "rw_socket r2 = rw_socket r" "rw_nsp r2 = rw_nsp r" "rw_acks_locked r2 = rw_acks_locked r"
    using i now by (auto simp: draw_id_def read_clock_def)
  from assms(2-5) obtain enc where t: "encode_text (sl_oc L) ?p = Some enc" "list_all scalar enc" "frames_of ?p = f"
    unfolding assms(6) by (rule payload_text)
  have "raw_chatting L items (frames_of ?p + n) ?r" using assms(1) same t(3) by (simp add: raw_chatting_def)
  from this t(1,2) obtain r' where
    "on_socket (ssocket_send (sl_oc L) (sl_b64 L) (sl_url L) ?p) ?r = (Ok (), r')" "raw_chatting L items n r'"
    "rw_nsp r' = rw_nsp ?r" by (rule raw_sends)
  with that i now same assms(1) show thesis by (simp add: raw_emit_with_ack_def raw_chatting_def)
qed

lemma assert_ok_run: "m s = (Ok x, t) \<Longrightarrow> assert_ok m s = (Ok (), t)"
  by (simp add: assert_ok_def seq_def)

section \<open>The tests on a client that is connected\<close>

text \<open>What the server sends: the answer to the connect packet, then its four events.\<close>

definition greeted :: "('u, 'j) slib \<Rightarrow> rstring \<Rightarrow> spacket list \<Rightarrow> (eerror + epacket) list \<Rightarrow> bool" where
  "greeted L nsp events items \<longleftrightarrow>
     (\<exists>c cs qss rest. items = map Inr cs @ map Inr (concat qss) @ rest \<and>
        arrives_in (sl_json L) c cs \<and> s_type c = SConnect \<and> s_nsp c = nsp \<and>
        list_all2 (arrives_in (sl_json L)) events qss \<and> list_all (\<lambda>p. \<not> empty_event L p) events)"

definition quiet_lib :: "('u, 'j) slib \<Rightarrow> bool" where
  "quiet_lib L \<longleftrightarrow> (\<forall>h. sl_script L h = []) \<and> json_scalar (sl_json L)"

lemma scalar_names [simp]:
  "list_all scalar (event_to_string (event_of_string (lit ''test'')))"
  "list_all scalar (event_to_string (event_of_string (lit ''message'')))"
  "list_all scalar (event_to_string (event_of_string (lit ''binary'')))"
  by (simp_all add: event_of_string_def to_lowercase_def lower_char_def scalar_def)

lemma server_packet_fields:
  "i < 4 \<Longrightarrow> s_nsp (server_packets nsp ! i) = nsp \<and> s_type (server_packets nsp ! i) \<in> {SEvent, SBinaryEvent}"
  by (auto simp: server_packets_def spacket_def less_Suc_eq numeral_eq_Suc)

lemma test_socketio_socket_runs:
  assumes "raw_chatting L items (Suc n) r" "greeted L (rw_nsp r) (server_packets (rw_nsp r)) items" "quiet_lib L"
    "list_all scalar (rw_nsp r)" "nsp = rw_nsp r"
  shows "\<exists>r'. test_socketio_socket L nsp r = (Ok (), r')"
proof -
  let ?p = "\<lambda>i. server_packets nsp ! i" and ?J = "sl_json L"
  have L: "\<And>h. sl_script L h = []" "json_scalar ?J" using assms(3) by (simp_all add: quiet_lib_def)
  obtain c cs qss rest where items: "items = map Inr cs @ map Inr (concat qss) @ rest" "arrives_in ?J c cs"
    "s_type c = SConnect" "s_nsp c = nsp" "list_all2 (arrives_in ?J) (server_packets nsp) qss"
    "list_all (\<lambda>p. \<not> empty_event L p) (server_packets nsp)"
    using assms(2,5) by (auto simp: greeted_def)
  have four: "server_packets nsp = [?p 0, ?p 1, ?p 2, ?p 3]" by (simp add: server_packets_def)
  obtain q0 q1 q2 q3 where qs: "qss = [q0, q1, q2, q3]" "arrives_in ?J (?p 0) q0" "arrives_in ?J (?p 1) q1"
    "arrives_in ?J (?p 2) q2" "arrives_in ?J (?p 3) q3"
    using items(5) by (subst (asm) (1) four) (auto simp: list_all2_Cons1)
  have ne: "\<not> empty_event L (?p i)" if "i < 4" for i
  proof -
    have "?p i \<in> set (server_packets nsp)" using that by (intro nth_mem) (simp add: server_packets_def)
    with items(6) show ?thesis by (simp add: list_all_iff)
  qed
  note fields = server_packet_fields [of _ nsp]
  have "raw_chatting L (map Inr cs @ map Inr q0 @ map Inr q1 @ map Inr q2 @ map Inr q3 @ rest) (Suc n) r"
    using assms(1) by (simp add: items(1) qs(1))
  from this items(2) items(4) [unfolded assms(5)] items(3) qs(2) _ L(1) _ ne [of 0] obtain r1 where
    r1: "expect_packet L (?p 0) r = (Ok (), r1)"
    "raw_chatting L (map Inr q1 @ map Inr q2 @ map Inr q3 @ rest) (Suc n) r1" "rw_nsp r1 = rw_nsp r"
    by (rule raw_expects_after_connect) (use fields [of 0] assms(5) in simp_all)
  from r1(2) qs(3) _ L(1) _ ne [of 1] obtain r2 where r2: "expect_packet L (?p 1) r1 = (Ok (), r2)"
    "raw_chatting L (map Inr q2 @ map Inr q3 @ rest) (Suc n) r2" "rw_nsp r2 = rw_nsp r1"
    by (rule raw_expects) (use fields [of 1] assms(5) r1(3) in simp_all)
  from r2(2) qs(4) _ L(1) _ ne [of 2] obtain r3 where r3: "expect_packet L (?p 2) r2 = (Ok (), r3)"
    "raw_chatting L (map Inr q3 @ rest) (Suc n) r3" "rw_nsp r3 = rw_nsp r2"
    by (rule raw_expects) (use fields [of 2] assms(5) r1(3) r2(3) in simp_all)
  from r3(2) qs(5) _ L(1) _ ne [of 3] obtain r4 where r4: "expect_packet L (?p 3) r3 = (Ok (), r4)"
    "raw_chatting L rest (Suc n) r4" "rw_nsp r4 = rw_nsp r3"
    by (rule raw_expects) (use fields [of 3] assms(5) r1(3) r2(3) r3(3) in simp_all)
  have "raw_chatting L rest (1 + n) r4" "list_all scalar (rw_nsp r4)" "scalar_payload (PString (lit ''123''))"
    using r4(2,3) r1(3) r2(3) r3(3) assms(4) by (simp_all add: scalar_payload_def scalar_def)
  then obtain r5 where
    "raw_emit_with_ack L (event_of_string (lit ''test'')) (PString (lit ''123'')) 10 0 r4 = (Ok (), r5)"
    by (rule raw_requests [OF _ L(2) _ scalar_names(1)]) simp
  then have "assert_ok (raw_emit_with_ack L (event_of_string (lit ''test'')) (PString (lit ''123'')) 10 0) r4 = (Ok (), r5)"
    by (rule assert_ok_run)
  then show ?thesis
    using r1(1) r2(1) r3(1) r4(1) by (simp add: test_socketio_socket_def del: lit_simps)
qed

section \<open>Connecting\<close>

text \<open>A server for the transport of the builder, that sends \<open>items\<close> after the handshake and takes \<open>n\<close> messages.\<close>

definition engine_up ::
  "'u elib \<Rightarrow> transport_type \<Rightarrow> rstring \<Rightarrow> (eerror + epacket) list \<Rightarrow> nat \<Rightarrow> 'u net \<Rightarrow> bool" where
  "engine_up E transport scheme items n w \<longleftrightarrow>
     (case transport of
        TAny \<Rightarrow> serves E scheme items n w
      | TPolling \<Rightarrow> \<exists>body hs G A P C m. greets E body hs \<and>
          answering (Inr body # G, A, replicate n (Inr 200) @ P, C) m w \<and> items = concat (map (get_items (lib_b64 E)) G)
      | TWebsocket \<Rightarrow> \<exists>m hs es G A P C ws. greets E (utf8 m) hs \<and>
          answering (G, A, P, Inr (WsMsg (WsText m) # es) # C) n w \<and>
          items = concat (map (ws_items (lib_b64 E)) es) \<and> websocket_scheme (lib_url E) scheme ws
      | TWebsocketUpgrade \<Rightarrow> \<exists>body hs es G A P C ws. greets E body hs \<and> offers_websocket hs \<and>
          answering (Inr body # G, A, P, Inr (WsMsg (WsText (lit ''3probe'')) # es) # C) (Suc (Suc n)) w \<and>
          items = concat (map (ws_items (lib_b64 E)) es) \<and> websocket_scheme (lib_url E) scheme ws)"

lemma engine_up_any: "engine_up E TAny = serves E"
  by (simp add: engine_up_def fun_eq_iff)

lemma fresh_websocket_takes:
  "fresh_websocket B R n items s \<Longrightarrow> backlog B s = items \<and> takes n (es_transport s) (es_net s) \<and> \<not> es_connected s"
  by (auto simp: fresh_websocket_def intro: ready_takes)

lemma build_engine_up:
  assumes "url_laws (lib_url E)" "unshaken E b" "engine_up E transport (url_scheme (lib_url E) (eb_url b)) items n w"
  obtains s where "build_engine E transport b w = (Ok s, es_net s)" "backlog (lib_b64 E) s = items"
    "takes n (es_transport s) (es_net s)"
proof (cases transport)
  case TAny
  with assms(3) have "serves E (url_scheme (lib_url E) (eb_url b)) items n w" by (simp add: engine_up_def)
  with assms(1,2) obtain s w' where "build E b w = (Ok s, w')" "es_net s = w'" "backlog (lib_b64 E) s = items"
    "takes n (es_transport s) w'" by (rule build_served)
  with TAny that [of s] show thesis by (simp add: build_engine_def build_with_fallback_def)
next
  case TPolling
  with assms(3) obtain body hs G A P C m where hs: "greets E body hs"
    and w: "answering (Inr body # G, A, replicate n (Inr 200) @ P, C) m w"
    and items: "items = concat (map (get_items (lib_b64 E)) G)" by (auto simp: engine_up_def)
  from assms(2) hs w obtain s w' where "build_polling E b w = (Ok s, w')" "es_net s = w'"
    "backlog (lib_b64 E) s = items" "takes n (es_transport s) w'"
    unfolding items by (rule build_over_polling [where m = n and P' = P]) simp
  with TPolling that [of s] show thesis by (simp add: build_engine_def)
next
  case TWebsocket
  with assms(3) obtain m hs es G A P C ws where "greets E (utf8 m) hs"
    "answering (G, A, P, Inr (WsMsg (WsText m) # es) # C) n w" "items = concat (map (ws_items (lib_b64 E)) es)"
    "websocket_scheme (lib_url E) (url_scheme (lib_url E) (eb_url b)) ws" by (auto simp: engine_up_def)
  then obtain s w' where "build_websocket E b w = (Ok s, w')" "es_net s = w'"
    "fresh_websocket (lib_b64 E) (G, A, P, C) n items s"
    using build_direct_websocket [OF assms(1) _ assms(2)] by metis
  with TWebsocket that [of s] show thesis by (auto simp: build_engine_def dest: fresh_websocket_takes)
next
  case TWebsocketUpgrade
  with assms(3) obtain body hs es G A P C ws where "greets E body hs" "offers_websocket hs"
    "answering (Inr body # G, A, P, Inr (WsMsg (WsText (lit ''3probe'')) # es) # C) (Suc (Suc n)) w"
    "items = concat (map (ws_items (lib_b64 E)) es)"
    "websocket_scheme (lib_url E) (url_scheme (lib_url E) (eb_url b)) ws" by (auto simp: engine_up_def)
  then obtain s w' where "build_websocket_with_upgrade E b w = (Ok s, w')" "es_net s = w'"
    "fresh_websocket (lib_b64 E) (G, A, P, C) n items s"
    using build_over_websocket [OF assms(1) _ assms(2)] by metis
  with TWebsocketUpgrade that [of s] show thesis by (auto simp: build_engine_def dest: fresh_websocket_takes)
qed

lemma engine_builder_ok:
  assumes "url_laws (lib_url E)" "convert_headers (lib_http E) (sb_headers b) = Inr h"
  shows "unshaken E (engine_builder E b url)"
    "url_scheme (lib_url E) (eb_url (engine_builder E b url)) = url_scheme (lib_url E) url"
  using assms(2)
  by (auto simp: unshaken_def engine_builder_def ebuilder_new_def ebuilder_headers_def Let_def url_laws_simps [OF assms(1)]
      split: option.split)

lemma connect_raw_runs:
  assumes "url_laws (sl_url L)" "url_parse (sl_url L) (sb_address b) = Inr url"
    "convert_headers (lib_http (sl_engine L)) (sb_headers b) = Inr h"
    "engine_up (sl_engine L) (sb_transport b) (url_scheme (sl_url L) url) items (Suc (Suc n)) w"
    "json_scalar (sl_json L)" "list_all scalar (sb_namespace b)"
  obtains r where "connect_raw L b time rand calls w = (Ok r, raw_net r)" "raw_chatting L items n r" "rw_nsp r = sb_namespace b"
proof -
  let ?E = "sl_engine L"
  have "engine_up ?E (sb_transport b) (url_scheme (sl_url L) (eb_url (engine_builder ?E b url))) items (Suc (Suc n)) w"
    using assms(4) engine_builder_ok(2) [OF assms(1,3)] by simp
  with assms(1) engine_builder_ok(1) [OF assms(1,3)] obtain s where
    s: "build_engine ?E (sb_transport b) (engine_builder ?E b url) w = (Ok s, es_net s)" "backlog (sl_b64 L) s = items"
      "takes (Suc (Suc n)) (es_transport s) (es_net s)" by (rule build_engine_up)
  let ?r = "(raw_new (ssocket_new s) (sb_namespace b) (sb_on b) (sb_on_any b) (sb_auth b) time rand)\<lparr>rw_calls := calls\<rparr>"
  from s(2,3) obtain e where e: "eclient_connect (sl_b64 L) (sl_url L) s = (Ok (), e)" "chatting (sl_b64 L) items (Suc n) e"
    by (rule chatting_connect)
  let ?r1 = "?r\<lparr>rw_socket := \<lparr>ss_engine = e, ss_connected = True\<rparr>\<rparr>"
  let ?p = "spacket SConnect (sb_namespace b) (map_option (json_print (sl_json L)) (sb_auth b)) None 0 None"
  let ?t = "encode_head ?p @ (case s_data ?p of Some d \<Rightarrow> d | None \<Rightarrow> [])"
  have connected: "on_socket (ssocket_connect (sl_b64 L) (sl_url L)) ?r = (Ok (), ?r1)"
    using e(1) by (simp add: eclient_connect_def on_socket_def ssocket_connect_def seq_def on_engine_def raw_new_def ssocket_new_def)
  have t: "encode_text (sl_oc L) ?p = Some ?t" "list_all scalar ?t"
    using assms(5,6) encode_head_scalars [of ?p]
    by (simp_all add: encode_text_def spacket_def json_scalar_def split: option.split)
  have "raw_chatting L items (frames_of ?p + n) ?r1"
    using e(2) by (simp add: raw_chatting_def frames_of_def spacket_def raw_new_def)
  from this t obtain r where
    r: "on_socket (ssocket_send (sl_oc L) (sl_b64 L) (sl_url L) ?p) ?r1 = (Ok (), r)" "raw_chatting L items n r"
      "rw_nsp r = rw_nsp ?r1" by (rule raw_sends)
  have "raw_connect L ?r = (Ok (), r)"
    using connected r(1) by (simp add: raw_connect_def raw_new_def Let_def)
  with s(1) assms(2) have "connect_raw L b time rand calls w = (Ok r, raw_net r)" by (simp add: connect_raw_def)
  with that r(2,3) show thesis by (simp add: raw_new_def)
qed

lemma with_own_net: "with_net (raw_net r) r = r"
  by (simp add: with_net_def raw_net_def)

lemma connected_test:
  assumes "url_laws (sl_url L)" "url_parse (sl_url L) (sb_address b) = Inr url"
    "convert_headers (lib_http (sl_engine L)) (sb_headers b) = Inr h"
    "engine_up (sl_engine L) (sb_transport b) (url_scheme (sl_url L) url) items (Suc (Suc n)) w"
    "quiet_lib L" "list_all scalar (sb_namespace b)"
    and run: "\<And>r. raw_chatting L items n r \<Longrightarrow> rw_nsp r = sb_namespace b \<Longrightarrow> \<exists>r'. m r = (Ok (), r')"
  shows "\<exists>w'. seq (connect_raw L b time rand []) (on_raw_client m) w = (Ok (), w')"
proof -
  have "json_scalar (sl_json L)" using assms(5) by (simp add: quiet_lib_def)
  with assms(1-4) obtain r where r: "connect_raw L b time rand [] w = (Ok r, raw_net r)" "raw_chatting L items n r"
    "rw_nsp r = sb_namespace b" using assms(6) by (rule connect_raw_runs)
  from run [OF r(2,3)] obtain r' where "m r = (Ok (), r')" by blast
  with r(1) show ?thesis by (simp add: on_raw_client_def with_own_net)
qed

section \<open>The tests pass\<close>

lemma test_transport_passes:
  assumes "url_laws (sl_url L)" "url_parse (sl_url L) addr = Inr url" "quiet_lib L"
    and "greeted L (lit ''/'') (server_packets (lit ''/'')) items"
    and "engine_up (sl_engine L) transport (url_scheme (sl_url L) url) items (Suc (Suc (Suc n))) w"
  shows "\<exists>w'. test_transport L transport addr time rand w = (Ok (), w')"
  unfolding test_transport_def
proof (rule connected_test [OF assms(1) _ _ _ assms(3)])
  let ?b = "sb_set_transport transport (sbuilder_new addr) :: 'b sbuilder"
  show "url_parse (sl_url L) (sb_address ?b) = Inr url" using assms(2) by (simp add: sb_set_transport_def sbuilder_new_def)
  show "convert_headers (lib_http (sl_engine L)) (sb_headers ?b) = Inr None"
    by (simp add: sb_set_transport_def sbuilder_new_def convert_headers_def)
  show "engine_up (sl_engine L) (sb_transport ?b) (url_scheme (sl_url L) url) items (Suc (Suc (Suc n))) w"
    using assms(5) by (simp add: sb_set_transport_def)
  have nsp: "sb_namespace ?b = lit ''/''" by (simp add: sb_set_transport_def sbuilder_new_def)
  have plain: "list_all scalar (lit ''/'')" by (simp add: scalar_def)
  then show "list_all scalar (sb_namespace ?b)" unfolding nsp .
  fix r :: "('a, 'b) raw"
  assume r: "raw_chatting L items (Suc n) r" "rw_nsp r = sb_namespace ?b"
  have at: "rw_nsp r = lit ''/''" using r(2) nsp by simp
  show "\<exists>r'. test_socketio_socket L (lit ''/'') r = (Ok (), r')"
    by (rule test_socketio_socket_runs [OF r(1) _ assms(3)]) (use assms(4) plain in \<open>simp_all add: at del: lit_simps\<close>)
qed

theorem socketio_polling_integration_passes:
  assumes "url_laws (sl_url L)" "url_parse (sl_url L) addr = Inr url" "quiet_lib L"
    and "greeted L (lit ''/'') (server_packets (lit ''/'')) items"
    and "engine_up (sl_engine L) TPolling (url_scheme (sl_url L) url) items (Suc (Suc (Suc n))) w"
  shows "\<exists>w'. socketio_polling_integration L addr time rand w = (Ok (), w')"
  unfolding socketio_polling_integration_def by (rule test_transport_passes [OF assms])

theorem socket_io_websocket_integration_passes:
  assumes "url_laws (sl_url L)" "url_parse (sl_url L) addr = Inr url" "quiet_lib L"
    and "greeted L (lit ''/'') (server_packets (lit ''/'')) items"
    and "engine_up (sl_engine L) TWebsocket (url_scheme (sl_url L) url) items (Suc (Suc (Suc n))) w"
  shows "\<exists>w'. socket_io_websocket_integration L addr time rand w = (Ok (), w')"
  unfolding socket_io_websocket_integration_def by (rule test_transport_passes [OF assms])

theorem socket_io_websocket_upgrade_integration_passes:
  assumes "url_laws (sl_url L)" "url_parse (sl_url L) addr = Inr url" "quiet_lib L"
    and "greeted L (lit ''/'') (server_packets (lit ''/'')) items"
    and "engine_up (sl_engine L) TWebsocketUpgrade (url_scheme (sl_url L) url) items (Suc (Suc (Suc n))) w"
  shows "\<exists>w'. socket_io_websocket_upgrade_integration L addr time rand w = (Ok (), w')"
  unfolding socket_io_websocket_upgrade_integration_def by (rule test_transport_passes [OF assms])

theorem socket_io_any_integration_passes:
  assumes "url_laws (sl_url L)" "url_parse (sl_url L) addr = Inr url" "quiet_lib L"
    and "greeted L (lit ''/'') (server_packets (lit ''/'')) items"
    and "serves (sl_engine L) (url_scheme (sl_url L) url) items (Suc (Suc (Suc n))) w"
  shows "\<exists>w'. socket_io_any_integration L addr time rand w = (Ok (), w')"
  unfolding socket_io_any_integration_def
  by (rule test_transport_passes [OF assms(1-4)]) (unfold engine_up_any, rule assms(5))

text \<open>The admin test sends four frames before it reads: a text, a text with an attachment, and a text.
  What \<open>payload_of_value\<close> makes of a string is text.\<close>

lemma payload_of_value_text: "json_scalar J \<Longrightarrow> payload_of_value J v = PString (json_print J v) \<and> scalar_payload (PString (json_print J v))"
  by (simp add: payload_of_value_def scalar_payload_def json_scalar_def)

lemma admin_calls_run:
  assumes "raw_chatting L items (4 + n) r" "json_scalar (sl_json L)" "list_all scalar (rw_nsp r)"
  shows "\<exists>r'. admin_calls L r = (Ok (), r') \<and> raw_chatting L items n r' \<and> rw_nsp r' = rw_nsp r"
proof -
  note printed = payload_of_value_text [OF assms(2)]
  let ?hello = "json_string (sl_json L) (lit ''Hello World'')" and ?ack = "json_string (sl_json L) (lit ''pls ack'')"
  let ?d1 = "payload_of_value (sl_json L) ?hello" and ?d3 = "payload_of_value (sl_json L) ?ack"
  have "raw_chatting L items (1 + (3 + n)) r" using assms(1) by simp
  from this assms(2,3) obtain r1 where r1: "raw_emit L (event_of_string (lit ''message'')) ?d1 r = (Ok (), r1)"
    "raw_chatting L items (3 + n) r1" "rw_nsp r1 = rw_nsp r"
    by (rule raw_emits [where d = ?d1, OF _ _ _ scalar_names(2)]) (simp_all add: printed)
  have "raw_chatting L items (2 + (1 + n)) r1" "list_all scalar (rw_nsp r1)"
    using r1(2,3) assms(3) by (simp_all add: numeral_eq_Suc)
  from this(1) assms(2) this(2) obtain r2 where
    r2: "raw_emit L (event_of_string (lit ''binary'')) (payload_of_bytes [46, 88]) r1 = (Ok (), r2)"
      "raw_chatting L items (1 + n) r2" "rw_nsp r2 = rw_nsp r1"
    by (rule raw_emits [where d = "payload_of_bytes [46, 88]", OF _ _ _ scalar_names(3)]) (simp_all add: payload_of_bytes_def scalar_payload_def)
  have "list_all scalar (rw_nsp r2)" using r1(3) r2(3) assms(3) by simp
  from r2(2) assms(2) this obtain r3 where
    r3: "raw_emit_with_ack L (event_of_string (lit ''binary'')) ?d3 1 0 r2 = (Ok (), r3)"
      "raw_chatting L items n r3" "rw_nsp r3 = rw_nsp r2"
    by (rule raw_requests [where d = ?d3, OF _ _ _ scalar_names(3)]) (simp_all add: printed)
  have "admin_calls L r = (Ok (), r3)"
    using assert_ok_run [where m = "raw_emit L (event_of_string (lit ''message'')) ?d1", OF r1(1)]
      assert_ok_run [where m = "raw_emit L (event_of_string (lit ''binary'')) (payload_of_bytes [46, 88])", OF r2(1)]
      assert_ok_run [where m = "raw_emit_with_ack L (event_of_string (lit ''binary'')) ?d3 1 0", OF r3(1)]
    by (simp add: admin_calls_def del: lit_simps)
  with r1(3) r2(3) r3(2,3) show ?thesis by simp
qed

lemma admin_builder_fields:
  "sb_address (admin_builder addr) = addr" "sb_transport (admin_builder addr) = TAny"
  "sb_namespace (admin_builder addr) = lit ''/admin''"
  by (simp_all add: admin_builder_def sb_set_on_def sb_opening_header_def sb_set_namespace_def sbuilder_new_def starts_with_def)

theorem socket_io_builder_integration_iterator_passes:
  assumes "url_laws (sl_url L)" "url_parse (sl_url L) addr = Inr url" "quiet_lib L"
    and "convert_headers (lib_http (sl_engine L)) (sb_headers (admin_builder addr :: 'j sbuilder)) = Inr h"
    and "greeted L (lit ''/admin'') (server_packets (lit ''/admin'')) items"
    and "serves (sl_engine L) (url_scheme (sl_url L) url) items (7 + n) w"
  shows "\<exists>w'. socket_io_builder_integration_iterator (L :: ('u, 'j) slib) addr time rand w = (Ok (), w')"
  unfolding socket_io_builder_integration_iterator_def
proof (rule connected_test [OF assms(1) _ assms(4) _ assms(3)])
  note fields = admin_builder_fields [of addr]
  show "url_parse (sl_url L) (sb_address (admin_builder addr :: 'j sbuilder)) = Inr url"
    unfolding fields by (rule assms(2))
  show "engine_up (sl_engine L) (sb_transport (admin_builder addr :: 'j sbuilder)) (url_scheme (sl_url L) url) items (Suc (Suc (4 + Suc n))) w"
    unfolding fields engine_up_any using assms(6) by (simp add: numeral_eq_Suc)
  have ascii: "list_all scalar (lit ''/admin'')" by (simp add: scalar_def)
  then show "list_all scalar (sb_namespace (admin_builder addr :: 'j sbuilder))" unfolding fields .
  fix r :: "('u, 'j) raw"
  assume r: "raw_chatting L items (4 + Suc n) r" "rw_nsp r = sb_namespace (admin_builder addr :: 'j sbuilder)"
  have at: "rw_nsp r = lit ''/admin''" using r(2) unfolding fields .
  have lib: "json_scalar (sl_json L)" using assms(3) by (simp add: quiet_lib_def)
  from admin_calls_run [OF r(1) lib] ascii obtain r1 where r1: "admin_calls L r = (Ok (), r1)"
    "raw_chatting L items (Suc n) r1" "rw_nsp r1 = lit ''/admin''" by (auto simp: at simp del: lit_simps)
  have "\<exists>r'. test_socketio_socket L (lit ''/admin'') r1 = (Ok (), r')"
    by (rule test_socketio_socket_runs [OF r1(2) _ assms(3)]) (use assms(5) ascii in \<open>simp_all add: r1(3) del: lit_simps\<close>)
  with r1(1) show "\<exists>r'. seq (admin_calls L) (\<lambda>_. test_socketio_socket L (lit ''/admin'')) r = (Ok (), r')"
    by (simp del: lit_simps)
qed

text \<open>The packet \<open>["auth","success"]\<close> of the authenticating server; what the server makes of the password
  is its own.\<close>

theorem socket_io_auth_builder_integration_passes:
  assumes "url_laws (sl_url L)" "url_parse (sl_url L) addr = Inr url" "quiet_lib L"
    and "greeted L (lit ''/admin'') [auth_packet] items"
    and "serves (sl_engine L) (url_scheme (sl_url L) url) items (Suc (Suc n)) w"
  shows "\<exists>w'. socket_io_auth_builder_integration L password addr time rand w = (Ok (), w')"
  unfolding socket_io_auth_builder_integration_def
proof (rule connected_test [OF assms(1) _ _ _ assms(3)])
  let ?b = "sb_set_auth password (sb_set_namespace (lit ''/admin'') (sbuilder_new addr))"
  have fields: "sb_address ?b = addr" "sb_headers ?b = None" "sb_transport ?b = TAny" "sb_namespace ?b = lit ''/admin''"
    by (simp_all add: sb_set_auth_def sb_set_namespace_def sbuilder_new_def starts_with_def)
  show "url_parse (sl_url L) (sb_address ?b) = Inr url" unfolding fields by (rule assms(2))
  show "convert_headers (lib_http (sl_engine L)) (sb_headers ?b) = Inr None" unfolding fields by (simp add: convert_headers_def)
  show "engine_up (sl_engine L) (sb_transport ?b) (url_scheme (sl_url L) url) items (Suc (Suc n)) w"
    unfolding fields engine_up_any by (rule assms(5))
  show "list_all scalar (sb_namespace ?b)" unfolding fields by (simp add: scalar_def)
  fix r :: "('a, 'b) raw"
  assume r: "raw_chatting L items n r" "rw_nsp r = sb_namespace ?b"
  have at: "rw_nsp r = lit ''/admin''" using r(2) unfolding fields .
  obtain c cs qs rest where c: "items = map Inr cs @ map Inr qs @ rest" "arrives_in (sl_json L) c cs" "s_type c = SConnect"
    "s_nsp c = rw_nsp r" "arrives_in (sl_json L) auth_packet qs" "\<not> empty_event L auth_packet"
    using assms(4) by (auto simp: greeted_def at list_all2_Cons1 simp del: lit_simps)
  have fields: "s_nsp auth_packet = rw_nsp r" "s_type auth_packet \<in> {SEvent, SBinaryEvent}"
    by (simp_all add: auth_packet_def spacket_def at)
  from r(1) [unfolded c(1)] c(2,4,3,5) fields(1) _ fields(2) c(6) obtain r' where "expect_packet L auth_packet r = (Ok (), r')"
    by (rule raw_expects_after_connect) (use assms(3) in \<open>simp add: quiet_lib_def\<close>)
  then show "\<exists>r'. expect_packet L auth_packet r = (Ok (), r')" by blast
qed

section \<open>A server the tests pass against\<close>

text \<open>What \<open>ci/socket-io.js\<close> sends over a websocket after the handshake, and a JSON library on which its
  texts are printed as they were written.\<close>

definition greeting :: rstring where
  \<open>greeting = lit ''{"sid":"x"}''\<close>

definition unnamed_event :: rstring where
  \<open>unnamed_event = lit ''["Hello from the message event!"]''\<close>

definition named_event :: rstring where
  \<open>named_event = lit ''["test","Hello from the test event!"]''\<close>

definition unnamed_binary :: rstring where
  \<open>unnamed_binary = lit ''['' @ test_placeholder @ lit '']''\<close>

definition named_binary :: rstring where
  \<open>named_binary = lit ''["test",'' @ test_placeholder @ lit '']''\<close>

lemmas server_texts = greeting_def unnamed_event_def named_event_def unnamed_binary_def named_binary_def test_placeholder_def

definition socket_io_js :: "ws_event list" where
  "socket_io_js =
     [WsMsg (WsText (lit ''40'' @ greeting)), WsMsg (WsText (lit ''42'' @ unnamed_event)),
      WsMsg (WsText (lit ''42'' @ named_event)), WsMsg (WsText (lit ''451-'' @ unnamed_binary)),
      WsMsg (WsBinary [4, 5, 6]), WsMsg (WsText (lit ''451-'' @ named_binary)), WsMsg (WsBinary [1, 2, 3])]"

definition ascii_texts :: "rstring list" where
  "ascii_texts = [greeting, unnamed_event, named_event, unnamed_binary, named_binary]"

lemma ascii_no_separator: "list_all (\<lambda>c. c < 128 \<and> c \<noteq> 30) t \<Longrightarrow> separator \<notin> set (utf8 t)"
proof
  assume t: "list_all (\<lambda>c. c < 128 \<and> c \<noteq> 30) t" and "separator \<in> set (utf8 t)"
  then obtain c where c: "c \<in> set t" "separator = (word_of_nat c :: u8)"
    by (auto simp: utf8_def utf8_char_def list_all_iff)
  have "unat separator = c mod 256" unfolding c(2) by (simp add: unsigned_of_nat take_bit_eq_mod)
  moreover have "c < 128" "c \<noteq> 30" using t c(1) by (auto simp: list_all_iff)
  ultimately show False by (simp add: separator_def)
qed

lemma message_item:
  assumes "list_all (\<lambda>c. c < 128 \<and> c \<noteq> 30) (c # t)"
  shows "ws_items B (WsMsg (WsText (52 # c # t))) = [Inr (epacket EMessage (utf8 (c # t)))]"
proof -
  have bytes: "utf8 (52 # c # t) = 52 # utf8 (c # t)" by (simp add: utf8_def utf8_char_def)
  have "utf8 (c # t) \<noteq> []" by (simp add: utf8_def utf8_char_def)
  then have "epacket_try_from B (52 # utf8 (c # t)) = Inr (epacket EMessage (utf8 (c # t)))"
    by (simp add: epacket_try_from_def epacket_id_try_from_def epacket_def del: utf8_append)
  moreover have "separator \<notin> set (52 # utf8 (c # t))"
    using ascii_no_separator [OF assms] by (simp add: separator_def)
  ultimately show ?thesis
    using ws_items_plain [of "52 # c # t" B] by (simp only: bytes) simp
qed

lemma binary_item:
  "separator \<notin> set d \<Longrightarrow> d \<noteq> [] \<Longrightarrow> ws_items B (WsMsg (WsBinary d)) = [Inr (epacket EMessage d)]"
  by (simp add: body_items_def payload_try_from_def payload_scan_split slice_def split_at_fresh separator_def
      epacket_try_from_def epacket_id_try_from_def epacket_def)

lemma socket_io_js_says:
  "websocket_says E socket_io_js =
     [Inr (epacket EMessage (utf8 (lit ''0'' @ greeting))), Inr (epacket EMessage (utf8 (lit ''2'' @ unnamed_event))),
      Inr (epacket EMessage (utf8 (lit ''2'' @ named_event))), Inr (epacket EMessage (utf8 (lit ''51-'' @ unnamed_binary))),
      Inr (epacket EMessage [4, 5, 6]), Inr (epacket EMessage (utf8 (lit ''51-'' @ named_binary))),
      Inr (epacket EMessage [1, 2, 3])]"
proof -
  have texts: "list_all (list_all (\<lambda>c. c < 128 \<and> c \<noteq> 30)) ascii_texts"
    by (simp add: ascii_texts_def server_texts)
  then have t: "ws_items B (WsMsg (WsText (lit ''40'' @ greeting))) = [Inr (epacket EMessage (utf8 (lit ''0'' @ greeting)))]"
    "ws_items B (WsMsg (WsText (lit ''42'' @ unnamed_event))) = [Inr (epacket EMessage (utf8 (lit ''2'' @ unnamed_event)))]"
    "ws_items B (WsMsg (WsText (lit ''42'' @ named_event))) = [Inr (epacket EMessage (utf8 (lit ''2'' @ named_event)))]"
    "ws_items B (WsMsg (WsText (lit ''451-'' @ unnamed_binary))) = [Inr (epacket EMessage (utf8 (lit ''51-'' @ unnamed_binary)))]"
    "ws_items B (WsMsg (WsText (lit ''451-'' @ named_binary))) = [Inr (epacket EMessage (utf8 (lit ''51-'' @ named_binary)))]" for B
    by (simp_all add: ascii_texts_def message_item del: ws_items.simps utf8_append utf8_Nil utf8_ascii)
  show ?thesis
    by (simp add: socket_io_js_def t binary_item separator_def del: ws_items.simps lit_simps utf8_append utf8_Nil utf8_ascii)
qed

lemma server_removed:
  \<open>remove_all (placeholder [48]) unnamed_binary = lit ''[]''\<close>
  \<open>remove_all (placeholder [48]) named_binary = lit ''["test",]''\<close>
  by (simp_all add: server_texts placeholder_def)

lemma server_starts:
  assumes "d \<in> set ascii_texts"
  shows "takeWhile is_ascii_digit d = []" "dropWhile is_ascii_digit d = d" "d \<noteq> []"
    "\<not> starts_with d 47" "list_all scalar d" "decode_id J p d = decode_data J p d"
proof -
  show *: "takeWhile is_ascii_digit d = []" "dropWhile is_ascii_digit d = d" "d \<noteq> []"
    "\<not> starts_with d 47" "list_all scalar d"
    using assms by (auto simp: ascii_texts_def server_texts starts_with_def is_ascii_digit_def scalar_def)
  show "decode_id J p d = decode_data J p d" using *(1-3) by (simp add: decode_id_def parse_i32_def digits_value_def)
qed

lemma server_members [simp]:
  "greeting \<in> set ascii_texts" "unnamed_event \<in> set ascii_texts" "named_event \<in> set ascii_texts"
  "unnamed_binary \<in> set ascii_texts" "named_binary \<in> set ascii_texts"
  by (simp_all add: ascii_texts_def)

lemma server_decodes:
  assumes "list_all (json_canonical J) ascii_texts"
  shows "spacket_try_from J (utf8 (lit ''0'' @ greeting)) = Inr (spacket SConnect (lit ''/'') (Some greeting) None 0 None)"
    "spacket_try_from J (utf8 (lit ''2'' @ unnamed_event)) = Inr (spacket SEvent (lit ''/'') (Some unnamed_event) None 0 None)"
    "spacket_try_from J (utf8 (lit ''2'' @ named_event)) = Inr (spacket SEvent (lit ''/'') (Some named_event) None 0 None)"
    "spacket_try_from J (utf8 (lit ''51-'' @ unnamed_binary)) = Inr (spacket SBinaryEvent (lit ''/'') None None 1 None)"
    \<open>spacket_try_from J (utf8 (lit ''51-'' @ named_binary)) =
       Inr (spacket SBinaryEvent (lit ''/'') (Some (lit ''"test"'')) None 1 None)\<close>
proof -
  have c: "json_canonical J d" if "d \<in> set ascii_texts" for d using assms that by (auto simp: list_all_iff)
  show "spacket_try_from J (utf8 (lit ''0'' @ greeting)) = Inr (spacket SConnect (lit ''/'') (Some greeting) None 0 None)"
    "spacket_try_from J (utf8 (lit ''2'' @ unnamed_event)) = Inr (spacket SEvent (lit ''/'') (Some unnamed_event) None 0 None)"
    "spacket_try_from J (utf8 (lit ''2'' @ named_event)) = Inr (spacket SEvent (lit ''/'') (Some named_event) None 0 None)"
    "spacket_try_from J (utf8 (lit ''51-'' @ unnamed_binary)) = Inr (spacket SBinaryEvent (lit ''/'') None None 1 None)"
    \<open>spacket_try_from J (utf8 (lit ''51-'' @ named_binary)) =
       Inr (spacket SBinaryEvent (lit ''/'') (Some (lit ''"test"'')) None 1 None)\<close>
    by (simp_all add: decode_test_simps server_starts server_removed c decode_canonical Let_def
        del: utf8_append utf8_Nil utf8_ascii)
qed

lemma socket_io_js_greets:
  assumes "list_all (json_canonical (sl_json L)) ascii_texts"
    "list_all (\<lambda>p. \<not> empty_event L p) (server_packets (lit ''/''))"
  shows "greeted L (lit ''/'') (server_packets (lit ''/'')) (websocket_says E socket_io_js)"
proof -
  note decodes = server_decodes [OF assms(1)]
  let ?c = "spacket SConnect (lit ''/'') (Some greeting) None 0 None"
  let ?cs = "[epacket EMessage (utf8 (lit ''0'' @ greeting))]"
  let ?qss = "[[epacket EMessage (utf8 (lit ''2'' @ unnamed_event))], [epacket EMessage (utf8 (lit ''2'' @ named_event))],
      [epacket EMessage (utf8 (lit ''51-'' @ unnamed_binary)), epacket EMessage [4, 5, 6]],
      [epacket EMessage (utf8 (lit ''51-'' @ named_binary)), epacket EMessage [1, 2, 3]]]"
  have "websocket_says E socket_io_js = map Inr ?cs @ map Inr (concat ?qss) @ []"
    unfolding socket_io_js_says by simp
  moreover have "arrives_in (sl_json L) ?c ?cs"
    using decodes(1) by (simp add: arrives_in_def is_message_def spacket_def del: lit_simps utf8_append)
  moreover have "list_all2 (arrives_in (sl_json L)) (server_packets (lit ''/'')) ?qss"
    using decodes(2-5)
    by (simp add: server_packets_def unnamed_event_def [symmetric] named_event_def [symmetric] arrives_in_def is_message_def
        spacket_def del: lit_simps utf8_append)
  moreover have "s_type ?c = SConnect" "s_nsp ?c = lit ''/''" by (simp_all add: spacket_def)
  ultimately show ?thesis using assms(2) unfolding greeted_def by blast
qed

text \<open>Flat JSON that prints scalar values only, as a Rust string is.\<close>

definition demo_test_lib :: "(plain_url, rstring) slib" where
  "demo_test_lib =
     \<lparr>sl_oc = True, sl_engine = demo_elib, sl_json = flat_json\<lparr>json_print := filter scalar\<rparr>, sl_display = (\<lambda>e. []),
      sl_script = (\<lambda>h. []), sl_backoff = (\<lambda>initial longest n. Some (unat initial))\<rparr>"

definition sio_test_net :: "plain_url net" where
  "sio_test_net =
     \<lparr>get_in = [], stream_in = [], post_in = [],
      ws_connect_in = [Inr (WsMsg (WsText (lit ''0{u}'')) # socket_io_js)],
      ws_in = [], ws_send_in = replicate 3 (Inr ()), wire = [], clock = 0\<rparr>"

lemma demo_test_lib_fields:
  "sl_engine demo_test_lib = demo_elib" "quiet_lib demo_test_lib"
  "list_all (json_canonical (sl_json demo_test_lib)) ascii_texts"
  "list_all (\<lambda>p. \<not> empty_event demo_test_lib p) (server_packets nsp)"
  by (simp_all add: demo_test_lib_def quiet_lib_def json_scalar_def list_all_iff json_canonical_def flat_json_def ascii_texts_def
      server_texts scalar_def server_packets_def empty_event_def spacket_def starts_with_def)

theorem socket_io_websocket_integration_on_demo:
  "\<exists>w'. socket_io_websocket_integration demo_test_lib addr time rand sio_test_net = (Ok (), w')"
proof -
  let ?L = "demo_test_lib" and ?url = "(lit ''http'', lit ''/'', []) :: plain_url"
  let ?items = "websocket_says demo_elib socket_io_js"
  have lib: "url_parse (sl_url ?L) addr = Inr ?url" "url_laws (sl_url ?L)"
    "websocket_scheme (sl_url ?L) (url_scheme (sl_url ?L) ?url) (lit ''ws'')"
    unfolding demo_test_lib_fields(1)
    by (simp add: demo_elib_def plain_urls_def) (rule demo_elib_laws(1), auto simp: demo_elib_def plain_urls_def websocket_scheme_def)
  have "answering ([], [], [], Inr (WsMsg (WsText (lit ''0{u}'')) # socket_io_js) # []) (Suc (Suc (Suc 0))) sio_test_net"
    by (simp add: answering_def elsewhere_def sio_test_net_def numeral_eq_Suc del: lit_simps)
  with demo_greets(3) lib(3) have "engine_up (sl_engine ?L) TWebsocket (url_scheme (sl_url ?L) ?url) ?items (Suc (Suc (Suc 0))) sio_test_net"
    unfolding engine_up_def transport_type.case demo_test_lib_fields(1) by blast
  with lib(2,1) demo_test_lib_fields(2) socket_io_js_greets [OF demo_test_lib_fields(3,4)] show ?thesis
    by (rule socket_io_websocket_integration_passes)
qed

end
