(* ===== verification/Spec2Isabelle.thy ===== *)
theory Spec2Isabelle
  imports Rust_Prelude Rust_Text Third_Party Engine_Packet Connection Transports Engine_Socket
    Engine_Header Engine_Client Engine_Async Engine_Async_Client Sio_Packet Sio_Socket Raw_Client
    Sio_Client Sio_Async_Socket Sio_Async_Client Runs Engine_Runs
    Engine_Async_Runs End_To_End Raw_Runs Async_Transports Concurrent_Sends Clients_Agree
    Async_End_To_End Shared_Streams Concurrent_Polls Ack_Books Client_Threads
    Async_Raw_Runs Requests Unit_Tests Transport_Objects Client_Handles Panics Async_Panics
    Thread_Waits Thread_Panics Async_Concurrent_Sends Server_Tests Server_Test_Runs
    Async_Server_Tests Async_Server_Test_Runs Sio_Server_Tests
begin

text \<open>
  A model of the two crates of the repository and the theorems about it: \<open>rust_engineio\<close> (directory
  \<open>engineio/src\<close>), a client of the engine.io protocol over HTTP polling and websockets, and
  \<open>rust_socketio\<close> (\<open>socketio/src\<close>), a client of the socket.io protocol on top of it. Each crate has a
  blocking and an asynchronous client; both are modelled.

  \<^bold>\<open>How the parts interact.\<close> A socket.io client (\<open>RawClient\<close>, asynchronous \<open>Client\<close>) owns a socket.io
  socket, which owns an engine.io client, which owns an engine.io socket over a transport. Emitting
  goes down: payload to packet, packet to text plus attachments, each of them one engine.io packet,
  each of these one request of the transport. Polling comes up: a body or frame of the transport is a
  payload, a chain of engine.io packets, of which the engine's client answers pings and closes; message
  packets are decoded to socket.io packets, whose attachments are the messages that follow; the
  client then calls the user's callbacks. The blocking \<open>Client\<close> adds a thread that polls and replaces
  the connection after an error.

  \<^bold>\<open>The theories.\<close>
  \<^item> \<open>Rust_Prelude\<close>: words, bytes and strings of Rust, outcomes (\<open>Ok\<close>, \<open>Err\<close>, \<open>Panic\<close>, \<open>Block\<close> for a call
    that does not come back) and the sequencing of calls on an explicit state; \<open>Rust_Text\<close>: UTF-8,
    decimal numbers and their parsers, and what the sources use of \<open>str\<close>; \<open>Third_Party\<close>: the interfaces
    of \<open>base64\<close>, \<open>url\<close> and \<open>serde_json\<close> as records of functions, the laws relied on as named
    predicates, and concrete instances for the witnesses.
  \<^item> \<open>Engine_Packet\<close> (\<open>packet.rs\<close>, \<open>error.rs\<close>): packet types, the packet and payload codec.
    Round trips, exact rejection, the index loop against its specification.
  \<^item> \<open>Connection\<close>: the locale \<open>connection\<close>, the contract of everything that can be closed.
    \<open>Transports\<close> (\<open>transport.rs\<close>, \<open>transports/\<close>, \<open>asynchronous/async_transports/\<close>): the network is a
    record of answers still to come and the history of requests, \<open>wire\<close>; the locale \<open>byte_transport\<close>
    is what a socket relies on. \<open>Async_Transports\<close>: the asynchronous polling transport, whose stream
    keeps the url it was made with, and the base urls. No running socket calls \<open>set_base_url\<close>.
    \<open>Transport_Objects\<close>: the websocket and polling objects of both crates' transports as their sockets
    hold them, and the locale \<open>transport_trait\<close>, the contract of the traits \<open>Transport\<close> and
    \<open>AsyncTransport\<close>, which all six of them fulfil.
  \<^item> \<open>Engine_Socket\<close> (\<open>socket.rs\<close>, \<open>client/client.rs\<close>): the blocking socket and the reactions of the
    client. \<open>backlog\<close> is the abstract state, the sequence of packets to come; polling refines taking
    its head. \<open>Engine_Header\<close> (\<open>header.rs\<close>) and \<open>Engine_Client\<close> (builder of \<open>client/client.rs\<close>):
    handshake, upgrade, fallback. \<open>Client_Handles\<close>: the methods of the two engine.io clients as their users
    call them, which fulfil the contract of a connection.
  \<^item> \<open>Runs\<close>: labelled runs of a step relation and the locale \<open>simulation\<close>. \<open>Engine_Runs\<close>: all histories
    of calls of the blocking engine.io client, as runs of a specification machine it simulates:
    delivery in order, what is written, silence after closing.
  \<^item> \<open>Engine_Async\<close>, \<open>Engine_Async_Client\<close> (\<open>asynchronous/\<close>): the nested streams as fields of one state,
    with \<open>abacklog\<close> as abstract state, and the asynchronous builder. \<open>Engine_Async_Runs\<close>: histories of
    this client, which interpret the same locale with the machine of a stream. \<open>Shared_Streams\<close>
    (\<open>asynchronous/generator.rs\<close>): tasks that poll clones of one stream, and the locale \<open>owned_stream\<close>
    by which what they get together is a history of one owner. \<open>Concurrent_Polls\<close>: threads that poll one
    blocking client, their polls cut at every access to the shared state: alone a thread computes what
    \<open>esocket_poll\<close> does; together they get no packet twice, but can lose some.
  \<^item> \<open>Sio_Packet\<close> (\<open>packet.rs\<close>, \<open>event.rs\<close>, \<open>payload.rs\<close>, \<open>error.rs\<close>): the text codec, character by
    character as in the source. \<open>Sio_Socket\<close> (\<open>socket.rs\<close>): sending, reassembly of attachments, and the
    composition of two sockets end to end.
  \<^item> \<open>Raw_Client\<close> (\<open>client/raw_client.rs\<close>): callbacks as scripts of client calls, dispatch,
    acknowledgements, the locks. \<open>Sio_Client\<close> (\<open>client/builder.rs\<close>, \<open>client/client.rs\<close>): builder,
    polling thread, reconnection; the answers of the \<open>backoff\<close> crate are a sequence given by \<open>slib\<close>, and
    the waits a history.
  \<^item> \<open>Ack_Books\<close>: the locales \<open>ack_book\<close>, the contract of the list of outstanding requests while an
    acknowledgement is handled, and \<open>ack_history\<close>, what follows over a history. \<open>Raw_Runs\<close> and
    \<open>Async_Raw_Runs\<close>: the histories of the two clients, which fulfil it.
    \<open>End_To_End\<close>: two clients over one websocket, any number of messages. \<open>Requests\<close>: requests with an
    acknowledgement and the answers of a server, in any order. \<open>Concurrent_Sends\<close>: threads
    that share a client and send at once, every interleaving of the calls \<open>send\<close> is made of, with the locale
    \<open>sender_socket\<close> for what this needs of the socket; \<open>Async_Concurrent_Sends\<close>: the same for the tasks that
    share an asynchronous client.
    \<open>Client_Threads\<close>: the polling thread of a \<open>Client\<close> and the threads of its user, an attempt to reconnect
    being one step; its rounds are those of \<open>poll_round\<close>, the configuration of the builder is kept, requests
    for acknowledgements and a \<open>disconnect\<close> are lost in a reconnection.
  \<^item> \<open>Panics\<close>, \<open>Async_Panics\<close>: what makes the two socket.io clients panic, as a condition on the items from the
    server, and that nothing else does, over all histories. The locales \<open>engine_frame\<close>, \<open>socket_frame\<close> and
    \<open>asocket_frame\<close> carry a property of a socket through all calls and callbacks; \<open>ack_book_safe\<close> extends
    \<open>ack_book\<close>. \<open>Thread_Waits\<close>: a call that does not come back waits for
    an answer of the network, unless a callback makes its client wait for a lock it holds. \<open>Thread_Panics\<close>: the
    polling thread survives every history with any number of reconnections; it goes on or waits for the network.
  \<^item> \<open>Sio_Async_Socket\<close>, \<open>Sio_Async_Client\<close> (\<open>asynchronous/socket.rs\<close>, \<open>asynchronous/client/\<close>): the same
    for the asynchronous client, with its own behaviour on errors, closing and the end of streams.
    \<open>Async_End_To_End\<close>: two asynchronous clients over one websocket.
  \<^item> \<open>Clients_Agree\<close>: views of the blocking and the asynchronous stack that forget what the network and
    the callbacks cannot see, and the locale \<open>client_views\<close>; this theory: the two clients behave alike.

  \<^item> \<open>Unit_Tests\<close>: the unit tests of \<open>packet.rs\<close> of both crates and of \<open>payload.rs\<close> as lists of inputs and
    expected results, which the definitions pass. \<open>Server_Tests\<close>, \<open>Server_Test_Runs\<close>,
    \<open>Async_Server_Tests\<close>, \<open>Async_Server_Test_Runs\<close>: the tests of \<open>client/client.rs\<close> and
    \<open>asynchronous/client/async_client.rs\<close> of the engine as programs over the model, and that they pass against
    every server that answers as \<open>ci/engine-io.js\<close> does. \<open>Sio_Server_Tests\<close>: the same for the tests of
    \<open>client/raw_client.rs\<close> that poll the client in their own thread, with \<open>ci/socket-io.js\<close>.

  A property is marked with its number, \<open>C1\<close> and so on; the lemma of the same name with \<open>_witness\<close>
  applies it to a concrete state. Theorems without a number are further facts of the component.

  \<^bold>\<open>Conventions.\<close> State that clones share through \<open>Arc\<close> is one record, passed through every operation.
  A method returns an outcome and the new state; \<open>?\<close> is \<open>seq\<close>. Mutexes and tasks are modelled where
  they decide the result: a lock held while a user callback runs blocks a second attempt; a stream
  that is over stays over. One call runs to its end before the next one starts, except in
  \<open>Concurrent_Sends\<close> and \<open>Async_Concurrent_Sends\<close>, where a step is one call of the engine's client, in \<open>Shared_Streams\<close>, where a poll is
  two steps, in \<open>Concurrent_Polls\<close>, where a step is one access to the shared state, and in \<open>Client_Threads\<close>,
  where a round of the polling thread is several. A read with no answer left is \<open>Block\<close>, and so is
  a second attempt on a mutex that the caller holds.

  \<^bold>\<open>Termination and fuel.\<close> Reading loops terminate because each round consumes an answer of the network
  record (measures \<open>pending\<close>, \<open>apending\<close>, \<open>length (backlog ..)\<close>). Only the reconnect loop, which may
  run for ever, takes fuel: \<open>unat m + 2\<close> is enough for a maximum \<open>m < 255\<close>, 256 for the overflow of its
  counter, and both are proved. That \<open>reconnect\<close> ends is relative to its attempts: one that waits for ever for an
  answer of the server is the value \<open>Block\<close>. The polling thread is unfolded for any number of rounds.

  \<^bold>\<open>Not modelled.\<close> TLS configuration, the HTTP and websocket libraries below a request and its answer,
  formatting for debugging, the \<open>Deref\<close> wrappers around callbacks, the poisoning of mutexes (it needs a panic
  in another thread, and the theorems on panics say when there is none), threads that interleave within a
  call other than \<open>send\<close>, \<open>poll\<close> of the engine and \<open>poll_next\<close>, the tests of the socket.io clients that
  need threads or sleep beside a running server (what they assert depends on that server and its timing), the conversions of errors from other crates, the examples and the
  benchmarks.
\<close>

section \<open>The two stacks side by side\<close>

text \<open>The asynchronous client sends what the blocking client sends. From states with the same namespace
  and auth data whose sockets the network cannot tell apart, opening the connection, and emitting
  binary data or JSON text, give the same outcome, the same requests on the network and states that
  can again not be told apart.\<close>

theorem clients_send_alike:
  assumes "raw_view r = araw_view a" "json_payload L payload"
  shows "fst (raw_connect L r) = fst (araw_connect L a) \<and>
    raw_view (snd (raw_connect L r)) = araw_view (snd (araw_connect L a)) \<and>
    fst (raw_emit L event payload r) = fst (araw_emit L event payload a) \<and>
    raw_view (snd (raw_emit L event payload r)) = araw_view (snd (araw_emit L event payload a))"
  using raw_v.connects [of L] raw_v.emits [OF assms(2), of event] assms(1)
  by (simp add: corresponds_def)

theorem clients_send_alike_witness:
  "wire (es_net (ss_engine (rw_socket (snd (raw_emit (demo_slib (\<lambda>h. [])) EvMessage (PBinary [1]) (demo_raw [] []))))))
   = wire (as_net (sa_engine (ra_socket (snd (araw_emit (demo_slib (\<lambda>h. [])) EvMessage (PBinary [1]) (demo_araw []))))))"
proof -
  have "ra_auth (demo_araw []) = None" "rw_auth (demo_raw [] []) = None"
    by (simp_all add: demo_araw_def araw_new_def demo_raw_def raw_new_def)
  then have "raw_view (demo_raw [] []) = araw_view (demo_araw [])"
    by (simp add: raw_view_def araw_view_def socket_view_def asocket_view_def engine_view_def aengine_view_def)
  moreover have "json_payload (demo_slib (\<lambda>h. [])) (PBinary [1])" by (simp add: json_payload_def)
  ultimately have "raw_view (snd (raw_emit (demo_slib (\<lambda>h. [])) EvMessage (PBinary [1]) (demo_raw [] []))) =
      araw_view (snd (araw_emit (demo_slib (\<lambda>h. [])) EvMessage (PBinary [1]) (demo_araw [])))"
    by (rule clients_send_alike [THEN conjunct2, THEN conjunct2, THEN conjunct2])
  then show ?thesis
    by (simp add: raw_view_def araw_view_def socket_view_def asocket_view_def engine_view_def aengine_view_def)
qed

text \<open>C13: within limits the asynchronous client behaves like the blocking client. In a history of opening the
  connection, emitting with and without acknowledgement, and dispatching packets of any kind that the
  sockets have read (reading itself, which also sets the flag of the connection, is not part of these
  histories), two clients that start alike return the same, put the same requests on the network, call
  the same callbacks with the same payloads in the same order, and keep the same acknowledgements. The
  history and the callbacks emit binary data or text that is JSON, no packet is an event with an empty
  array, and no callback disconnects its client: in these three cases the two clients do differ (\<open>agreed\<close>,
  \<open>agreed_op\<close>).\<close>

theorem clients_alike:
  assumes "client_view r = aclient_view a" "\<And>h. list_all (agreed L) (sl_script L h)" "list_all (agreed_op L) ops"
  shows "fst (run_all (blocking_op L) ops r) = fst (run_all (async_op L) ops a) \<and>
    client_view (snd (run_all (blocking_op L) ops r)) = aclient_view (snd (run_all (async_op L) ops a))"
  using corresponds_run_all [OF op_clients [OF assms(2)] assms(1), of ops] assms(3) by (simp add: list_all_iff)

definition echo_ops :: "client_op list" where
  "echo_ops =
     [OpEmit EvMessage (PBinary [1]), OpEmitWithAck EvMessage (PBinary [2]) 5 9,
      OpPacket (spacket SBinaryEvent (lit ''/'') (Some (lit ''message'')) None 1 (Some [[3]])),
      OpPacket (spacket SAck (lit ''/'') (Some (lit ''[1]'')) (Some 0) 0 None)]"

definition echo_script :: "call list \<Rightarrow> action list" where
  "echo_script h = (case last h of CallOn n payload \<Rightarrow> [AEmit EvMessage (PBinary [4])] | _ \<Rightarrow> [])"

text \<open>Two clients whose callback answers every message.\<close>

theorem clients_alike_witness:
  "rw_calls (snd (run_all (blocking_op (demo_slib echo_script)) echo_ops (demo_raw [] []))) =
   ra_calls (snd (run_all (async_op (demo_slib echo_script)) echo_ops
     ((demo_araw [])\<lparr>ra_on := [(EvMessage, 1), (EvClose, 2)]\<rparr>)))"
proof -
  let ?L = "demo_slib echo_script" and ?a = "(demo_araw [])\<lparr>ra_on := [(EvMessage, 1), (EvClose, 2)]\<rparr>"
  have one: "client_view (demo_raw [] []) = aclient_view ?a"
    by (simp add: view_defs socket_view_def asocket_view_def engine_view_def aengine_view_def
        demo_raw_def raw_new_def demo_araw_def araw_new_def)
  have two: "list_all (agreed ?L) (sl_script ?L h)" for h
    by (simp add: demo_slib_def echo_script_def json_payload_def split: call.split)
  have three: "list_all (agreed_op ?L) echo_ops"
    by (simp add: echo_ops_def json_payload_def empty_event_def spacket_def)
  from clients_alike [OF one two three] show ?thesis by (simp only: client_view_def aclient_view_def prod.inject)
qed

end
